(* ===== verification/Prelude.thy ===== *)
theory Prelude
  imports Main "HOL-Library.Word"
begin

text \<open>
  Shared vocabulary of the development: the machine types of the C++ sources, the
  outcomes an operation can have besides returning (a failed \<^verbatim>\<open>assert\<close>, a thrown
  exception, a read outside an allocated object), and the generic lemmas on words,
  lists and error values the component theories use.
\<close>

unbundle bit_operations_syntax

named_theorems sum_simps \<open>evaluation of the error monad\<close>
named_theorems size_simps \<open>unat images of size_t arithmetic that does not wrap\<close>

section \<open>Machine types\<close>

text \<open>The sources are built for a 64-bit little-endian target (Linux, x86-64):
  \<^verbatim>\<open>size_t\<close> has 64 bits and \<^verbatim>\<open>int\<close> has 32.\<close>

type_synonym size_t = "64 word"
type_synonym byte = char

section \<open>Errors as values\<close>

text \<open>
  \<^item> \<open>AssertFail\<close>: an \<^verbatim>\<open>assert(...)\<close> of the source does not hold (the process aborts);
  \<^item> \<open>BadAlloc\<close>: \<^verbatim>\<open>new[]\<close> throws, because the size exceeds the largest object;
  \<^item> \<open>OutOfBounds\<close>: the source would read or write outside the object it addresses,
    which is undefined behaviour in C++;
  \<^item> \<open>Uninitialised\<close>: the source would use the value of a byte nothing has written yet;
  \<^item> \<open>SignedOverflow\<close>: signed arithmetic leaves the range of its type, undefined behaviour too;
  \<^item> \<open>NullPointer\<close>: a null pointer is dereferenced;
  \<^item> \<open>StackOverflow\<close>: calls nest deeper than the bound the model was given;
  \<^item> \<open>Thrown\<close>: another C++ exception, with the name of its type.
\<close>

datatype cpp_error = AssertFail | BadAlloc | OutOfBounds | Uninitialised | SignedOverflow | NullPointer | StackOverflow | Thrown string

type_synonym 'a result = "cpp_error + 'a"

definition ebind :: "'a result \<Rightarrow> ('a \<Rightarrow> 'b result) \<Rightarrow> 'b result" where
  "ebind r f = (case r of Inl e \<Rightarrow> Inl e | Inr x \<Rightarrow> f x)"

definition asserting :: "bool \<Rightarrow> 'a result \<Rightarrow> 'a result" where
  "asserting c r = (if c then r else Inl AssertFail)"

lemma ebind_simps [simp, sum_simps]:
  "ebind (Inl e) f = Inl e"
  "ebind (Inr x) f = f x"
  by (simp_all add: ebind_def)

lemma asserting_simps [simp, sum_simps]:
  "asserting True r = r"
  "asserting False r = Inl AssertFail"
  by (simp_all add: asserting_def)

lemma asserting_Inr_iff [simp]: "asserting c r = Inr x \<longleftrightarrow> c \<and> r = Inr x"
  by (simp add: asserting_def)

lemma ebind_Inr_iff: "ebind r f = Inr y \<longleftrightarrow> (\<exists>x. r = Inr x \<and> f x = Inr y)"
  by (cases r) auto

lemma ebind_cong [fundef_cong]: "r = r' \<Longrightarrow> (\<And>x. r' = Inr x \<Longrightarrow> f x = f' x) \<Longrightarrow> ebind r f = ebind r' f'"
  by (cases r') auto

text \<open>\<open>yields r P\<close>: the computation returns, with a result that satisfies \<open>P\<close>. The simplifier pushes it through the monad.\<close>

definition yields :: "'a result \<Rightarrow> ('a \<Rightarrow> bool) \<Rightarrow> bool" where
  "yields r P \<longleftrightarrow> (case r of Inl e \<Rightarrow> False | Inr x \<Rightarrow> P x)"

lemma yields_simps [simp]:
  fixes r :: "'a result" and m :: "'b result"
  shows
  "yields (Inl e) P \<longleftrightarrow> False"
  "yields (Inr x) P \<longleftrightarrow> P x"
  "yields (ebind m f) P \<longleftrightarrow> yields m (\<lambda>y. yields (f y) P)"
  "yields (asserting b r) P \<longleftrightarrow> b \<and> yields r P"
  by (auto simp: yields_def asserting_def split: sum.splits)

lemma yields_if [simp]: "yields (if b then r else r') P \<longleftrightarrow> (if b then yields r P else yields r' P)"
  by simp

lemma yields_mono: "yields r P \<Longrightarrow> (\<And>x. P x \<Longrightarrow> Q x) \<Longrightarrow> yields r Q"
  by (auto simp: yields_def split: sum.splits)

lemma yields_conj: "yields r P \<Longrightarrow> yields r Q \<Longrightarrow> yields r (\<lambda>x. P x \<and> Q x)"
  by (auto simp: yields_def split: sum.splits)

lemma yields_Inr: "r = Inr x \<Longrightarrow> P x \<Longrightarrow> yields r P"
  by simp

lemma yieldsE: "yields r P \<Longrightarrow> (\<And>x. r = Inr x \<Longrightarrow> P x \<Longrightarrow> thesis) \<Longrightarrow> thesis"
  by (auto simp: yields_def split: sum.splits)

section \<open>Words\<close>

lemma unat_add_size [size_simps]:
  fixes a b :: "64 word"
  assumes "unat a + unat b < 2 ^ 64"
  shows "unat (a + b) = unat a + unat b"
  using assms by (simp add: unat_word_ariths)

lemma unat_sub_size [size_simps]:
  fixes a b :: "64 word"
  assumes "unat b \<le> unat a"
  shows "unat (a - b) = unat a - unat b"
  using assms by (simp add: unat_sub word_le_nat_alt)

lemma unat_size_bound: "unat (w :: 64 word) < 2 ^ 64"
proof -
  have "unat w < 2 ^ LENGTH(64)" by (rule unsigned_less)
  then show ?thesis by simp
qed

lemma unat_grow_size:
  fixes a b :: "64 word"
  assumes "2 * unat a + unat b < 2 ^ 63"
  shows "unat (push_bit 1 a + b) = 2 * unat a + unat b"
  using assms by (simp add: push_bit_eq_mult unat_word_ariths)

lemma unat_double_size [size_simps]:
  fixes a :: "64 word"
  assumes "2 * unat a < 2 ^ 64"
  shows "unat (push_bit 1 a) = 2 * unat a"
  using assms by (simp add: push_bit_eq_mult unat_word_ariths)

lemma unat_of_nat_size [size_simps]:
  "n < 2 ^ 64 \<Longrightarrow> unat (of_nat n :: 64 word) = n"
  by (simp add: unat_of_nat)

lemma size_eq_iff: "(a :: 64 word) = b \<longleftrightarrow> unat a = unat b"
  by (auto intro: unsigned_word_eqI)

lemmas size_less_iff = word_less_nat_alt [where 'a = 64]
lemmas size_le_iff = word_le_nat_alt [where 'a = 64]

section \<open>Lists as memory\<close>

text \<open>\<open>splice_at i xs m\<close> is the memory \<open>m\<close> after \<^verbatim>\<open>memcpy(m + i, xs, |xs|)\<close>.\<close>

definition splice_at :: "nat \<Rightarrow> 'a list \<Rightarrow> 'a list \<Rightarrow> 'a list" where
  "splice_at i xs m = take i m @ xs @ drop (i + length xs) m"

definition range_of :: "nat \<Rightarrow> nat \<Rightarrow> 'a list \<Rightarrow> 'a list" where
  "range_of i j m = take (j - i) (drop i m)"

lemma length_splice_at [simp]:
  "i + length xs \<le> length m \<Longrightarrow> length (splice_at i xs m) = length m"
  by (simp add: splice_at_def)

lemma length_range_of [simp]:
  "j \<le> length m \<Longrightarrow> length (range_of i j m) = j - i"
  by (simp add: range_of_def)

lemma range_of_empty [simp]: "range_of i i m = []"
  by (simp add: range_of_def)

lemma range_of_split:
  assumes "i \<le> j" "j \<le> k"
  shows "range_of i k m = range_of i j m @ range_of j k m"
proof -
  have "take (k - i) (drop i m) = take ((j - i) + (k - j)) (drop i m)"
    using assms by simp
  also have "\<dots> = take (j - i) (drop i m) @ take (k - j) (drop j m)"
    using assms by (subst take_add) simp
  finally show ?thesis by (simp add: range_of_def)
qed

lemma range_of_splice_same [simp]:
  "i + length xs \<le> length m \<Longrightarrow> range_of i (i + length xs) (splice_at i xs m) = xs"
  by (simp add: range_of_def splice_at_def)

lemma range_of_splice_before:
  "j \<le> k \<Longrightarrow> k \<le> length m \<Longrightarrow> range_of i j (splice_at k xs m) = range_of i j m"
  by (simp add: range_of_def splice_at_def drop_take)

lemma range_of_splice_after:
  assumes "k + length xs \<le> i" "k + length xs \<le> length m"
  shows "range_of i j (splice_at k xs m) = range_of i j m"
proof -
  have "drop i (splice_at k xs m) = drop i m"
    using assms by (simp add: splice_at_def)
  then show ?thesis by (simp add: range_of_def)
qed

lemma range_of_take: "j \<le> k \<Longrightarrow> range_of i j m = take (j - i) (range_of i k m)"
  by (simp add: range_of_def min_def)

lemma range_of_drop: "i \<le> j \<Longrightarrow> range_of j k m = drop (j - i) (range_of i k m)"
  by (simp add: range_of_def drop_take add.commute)

section \<open>Raw storage\<close>

text \<open>A cell of a \<^verbatim>\<open>char\<close> array is \<open>None\<close> until it is first written. Reads and writes of
  a range check the bounds of the array.\<close>

definition new_storage :: "size_t \<Rightarrow> 'a option list result" where
  "new_storage n = (if unat n < 2 ^ 63 then Inr (replicate (unat n) None) else Inl BadAlloc)"

definition mem_read :: "nat \<Rightarrow> nat \<Rightarrow> 'a list \<Rightarrow> 'a list result" where
  "mem_read i n m = (if i + n \<le> length m then Inr (range_of i (i + n) m) else Inl OutOfBounds)"

definition mem_write :: "nat \<Rightarrow> 'a list \<Rightarrow> 'a list \<Rightarrow> 'a list result" where
  "mem_write i xs m = (if i + length xs \<le> length m then Inr (splice_at i xs m) else Inl OutOfBounds)"

definition bytes_of :: "'a option list \<Rightarrow> 'a list result" where
  "bytes_of xs = (if None \<in> set xs then Inl Uninitialised else Inr (map the xs))"

lemma bytes_of_Some [simp]: "bytes_of (map Some xs) = Inr xs"
  by (auto simp: bytes_of_def comp_def)

lemma map_Some_the: "None \<notin> set xs \<Longrightarrow> map Some (map the xs) = xs"
  by (induction xs) auto

end
