(* ===== verification/Buffer.thy ===== *)
theory Buffer
  imports Prelude
begin

text \<open>
  The byte buffer \<^verbatim>\<open>eventpp::Buffer\<close> (include/eventpp/buffer.hpp, src/buffer.cpp): a single
  array with a reserved prefix, a read index and a write index. \<open>contents\<close> is the abstract
  value, the list of unread bytes; \<open>buf_inv\<close> is the representation invariant. Every method is
  a definition; the \<^verbatim>\<open>assert\<close>s, the array bounds and the wrap-around of \<^verbatim>\<open>size_t\<close> are kept.
\<close>

section \<open>State\<close>

text \<open>The fields are those of the class, without the trailing underscore: \<open>storage\<close> is
  \<^verbatim>\<open>buffer_\<close> with the array it points to, \<open>buf_reserved\<close> is \<^verbatim>\<open>reserved_prepend_size_\<close>.\<close>

record buffer =
  storage :: "byte option list"
  capacity :: size_t
  read_index :: size_t
  write_index :: size_t
  buf_reserved :: size_t

definition kCRLF :: "byte list" where
  "kCRLF = [CHR 0x0D, CHR 0x0A]"

definition kCheapPrependSize :: size_t where
  "kCheapPrependSize = 8"

definition kInitialSize :: size_t where
  "kInitialSize = 1024"

section \<open>Sizes\<close>

definition Buffer_length :: "buffer \<Rightarrow> size_t result" where
  "Buffer_length b =
     asserting (write_index b \<ge> read_index b) (Inr (write_index b - read_index b))"

definition Buffer_size :: "buffer \<Rightarrow> size_t result" where
  "Buffer_size b = Buffer_length b"

definition Buffer_capacity :: "buffer \<Rightarrow> size_t" where
  "Buffer_capacity b = capacity b"

definition Buffer_WritableBytes :: "buffer \<Rightarrow> size_t result" where
  "Buffer_WritableBytes b =
     asserting (capacity b \<ge> write_index b) (Inr (capacity b - write_index b))"

definition Buffer_PrependableBytes :: "buffer \<Rightarrow> size_t" where
  "Buffer_PrependableBytes b = read_index b"

section \<open>Construction, swapping, discarding\<close>

definition Buffer_new :: "size_t \<Rightarrow> size_t \<Rightarrow> buffer result" where
  "Buffer_new initial_size reserved_prepend_size =
     (let cap = reserved_prepend_size + initial_size in
      ebind (new_storage cap) (\<lambda>d.
        let b = \<lparr>storage = d, capacity = cap, read_index = reserved_prepend_size,
                 write_index = reserved_prepend_size,
                 buf_reserved = reserved_prepend_size\<rparr> in
        ebind (Buffer_length b) (\<lambda>l. asserting (l = 0) (
        ebind (Buffer_WritableBytes b) (\<lambda>w. asserting (w = initial_size) (
        asserting (Buffer_PrependableBytes b = reserved_prepend_size) (Inr b)))))))"

definition Buffer_Swap :: "buffer \<Rightarrow> buffer \<Rightarrow> buffer \<times> buffer" where
  "Buffer_Swap b rhs = (rhs, b)"

definition Buffer_Truncate :: "size_t \<Rightarrow> buffer \<Rightarrow> buffer" where
  "Buffer_Truncate n b =
     (if n = 0 then
        b\<lparr>read_index := buf_reserved b, write_index := buf_reserved b\<rparr>
      else if write_index b > read_index b + n then
        b\<lparr>write_index := read_index b + n\<rparr>
      else b)"

definition Buffer_Reset :: "buffer \<Rightarrow> buffer" where
  "Buffer_Reset b = Buffer_Truncate 0 b"

definition Buffer_Skip :: "size_t \<Rightarrow> buffer \<Rightarrow> buffer result" where
  "Buffer_Skip len b =
     ebind (Buffer_length b) (\<lambda>l.
       if len < l then Inr (b\<lparr>read_index := read_index b + len\<rparr>)
       else Inr (Buffer_Reset b))"

definition Buffer_Retrieve :: "size_t \<Rightarrow> buffer \<Rightarrow> buffer result" where
  "Buffer_Retrieve len b = Buffer_Skip len b"

section \<open>Growing and writing\<close>

definition Buffer_grow :: "size_t \<Rightarrow> buffer \<Rightarrow> buffer result" where
  "Buffer_grow len b =
     ebind (Buffer_WritableBytes b) (\<lambda>w.
     if w + Buffer_PrependableBytes b < len + buf_reserved b then
       let n = push_bit 1 (capacity b) + len in
       ebind (Buffer_length b) (\<lambda>m.
       ebind (new_storage n) (\<lambda>d.
       ebind (mem_read (unat (read_index b)) (unat m) (storage b)) (\<lambda>xs.
       ebind (mem_write (unat (buf_reserved b)) xs d) (\<lambda>d'.
         Inr (b\<lparr>storage := d', capacity := n, read_index := buf_reserved b,
                write_index := m + buf_reserved b\<rparr>)))))
     else
       asserting (buf_reserved b < read_index b) (
       ebind (Buffer_length b) (\<lambda>readable.
       ebind (mem_read (unat (read_index b)) (unat readable) (storage b)) (\<lambda>xs.
       ebind (mem_write (unat (buf_reserved b)) xs (storage b)) (\<lambda>d.
         let b' = b\<lparr>storage := d, read_index := buf_reserved b,
                    write_index := buf_reserved b + readable\<rparr> in
         ebind (Buffer_length b') (\<lambda>l. asserting (readable = l) (
         ebind (Buffer_WritableBytes b') (\<lambda>w'. asserting (w' \<ge> len) (Inr b')))))))))"

definition Buffer_Reserve :: "size_t \<Rightarrow> buffer \<Rightarrow> buffer result" where
  "Buffer_Reserve len b =
     (if capacity b \<ge> len + buf_reserved b then Inr b
      else Buffer_grow (len + buf_reserved b) b)"

definition Buffer_EnsureWritableBytes :: "size_t \<Rightarrow> buffer \<Rightarrow> buffer result" where
  "Buffer_EnsureWritableBytes len b =
     ebind (Buffer_WritableBytes b) (\<lambda>w.
     ebind (if w < len then Buffer_grow len b else Inr b) (\<lambda>b'.
     ebind (Buffer_WritableBytes b') (\<lambda>w'. asserting (w' \<ge> len) (Inr b'))))"

definition Buffer_Write :: "byte list \<Rightarrow> buffer \<Rightarrow> buffer result" where
  "Buffer_Write d b =
     (let len = of_nat (length d) in
      ebind (Buffer_EnsureWritableBytes len b) (\<lambda>b'.
      ebind (mem_write (unat (write_index b')) (map Some d) (storage b')) (\<lambda>m.
      asserting (write_index b' + len \<le> capacity b')
        (Inr (b'\<lparr>storage := m, write_index := write_index b' + len\<rparr>)))))"

definition Buffer_Append :: "byte list \<Rightarrow> buffer \<Rightarrow> buffer result" where
  "Buffer_Append d b = Buffer_Write d b"

definition Buffer_Prepend :: "byte list \<Rightarrow> buffer \<Rightarrow> buffer result" where
  "Buffer_Prepend d b =
     (let len = of_nat (length d) in
      asserting (len \<le> Buffer_PrependableBytes b) (
      let r = read_index b - len in
      ebind (mem_write (unat r) (map Some d) (storage b)) (\<lambda>m.
        Inr (b\<lparr>storage := m, read_index := r\<rparr>))))"

definition Buffer_UnwriteBytes :: "size_t \<Rightarrow> buffer \<Rightarrow> buffer result" where
  "Buffer_UnwriteBytes n b =
     ebind (Buffer_length b) (\<lambda>l.
       asserting (n \<le> l) (Inr (b\<lparr>write_index := write_index b - n\<rparr>)))"

definition Buffer_WriteBytes :: "size_t \<Rightarrow> buffer \<Rightarrow> buffer result" where
  "Buffer_WriteBytes n b =
     ebind (Buffer_WritableBytes b) (\<lambda>w.
       asserting (n \<le> w) (Inr (b\<lparr>write_index := write_index b + n\<rparr>)))"

definition Buffer_UnreadBytes :: "size_t \<Rightarrow> buffer \<Rightarrow> buffer result" where
  "Buffer_UnreadBytes n b =
     asserting (n < read_index b) (Inr (b\<lparr>read_index := read_index b - n\<rparr>))"

section \<open>Integers in network byte order\<close>

text \<open>The object representation of an integer is its bytes, least significant first.\<close>

definition le_bytes :: "nat \<Rightarrow> 'a::len word \<Rightarrow> byte list" where
  "le_bytes k w = map (\<lambda>i. char_of (unat (drop_bit (8 * i) w))) [0..<k]"

fun word_of_le :: "byte list \<Rightarrow> 'a::len word" where
  "word_of_le [] = 0"
| "word_of_le (c # cs) = of_nat (of_char c) OR push_bit 8 (word_of_le cs)"

definition evppbswap_64 :: "64 word \<Rightarrow> 64 word" where
  "evppbswap_64 x =
     drop_bit 56 (x AND 0xff00000000000000) OR drop_bit 40 (x AND 0x00ff000000000000) OR
     drop_bit 24 (x AND 0x0000ff0000000000) OR drop_bit 8 (x AND 0x000000ff00000000) OR
     push_bit 8 (x AND 0x00000000ff000000) OR push_bit 24 (x AND 0x0000000000ff0000) OR
     push_bit 40 (x AND 0x000000000000ff00) OR push_bit 56 (x AND 0x00000000000000ff)"

text \<open>\<^verbatim>\<open>htonl\<close>, \<^verbatim>\<open>ntohl\<close>, \<^verbatim>\<open>htons\<close> and \<^verbatim>\<open>ntohs\<close> of the C library exchange the bytes.\<close>

definition htonl :: "32 word \<Rightarrow> 32 word" where
  "htonl x =
     drop_bit 24 (x AND 0xff000000) OR drop_bit 8 (x AND 0x00ff0000) OR
     push_bit 8 (x AND 0x0000ff00) OR push_bit 24 (x AND 0x000000ff)"

definition htons :: "16 word \<Rightarrow> 16 word" where
  "htons x = drop_bit 8 (x AND 0xff00) OR push_bit 8 (x AND 0x00ff)"

definition Buffer_AppendInt64 :: "64 word \<Rightarrow> buffer \<Rightarrow> buffer result" where
  "Buffer_AppendInt64 x b = Buffer_Write (le_bytes 8 (evppbswap_64 x)) b"

definition Buffer_AppendInt32 :: "32 word \<Rightarrow> buffer \<Rightarrow> buffer result" where
  "Buffer_AppendInt32 x b = Buffer_Write (le_bytes 4 (htonl x)) b"

definition Buffer_AppendInt16 :: "16 word \<Rightarrow> buffer \<Rightarrow> buffer result" where
  "Buffer_AppendInt16 x b = Buffer_Write (le_bytes 2 (htons x)) b"

definition Buffer_AppendInt8 :: "8 word \<Rightarrow> buffer \<Rightarrow> buffer result" where
  "Buffer_AppendInt8 x b = Buffer_Write (le_bytes 1 x) b"

definition Buffer_PrependInt64 :: "64 word \<Rightarrow> buffer \<Rightarrow> buffer result" where
  "Buffer_PrependInt64 x b = Buffer_Prepend (le_bytes 8 (evppbswap_64 x)) b"

definition Buffer_PrependInt32 :: "32 word \<Rightarrow> buffer \<Rightarrow> buffer result" where
  "Buffer_PrependInt32 x b = Buffer_Prepend (le_bytes 4 (htonl x)) b"

definition Buffer_PrependInt16 :: "16 word \<Rightarrow> buffer \<Rightarrow> buffer result" where
  "Buffer_PrependInt16 x b = Buffer_Prepend (le_bytes 2 (htons x)) b"

definition Buffer_PrependInt8 :: "8 word \<Rightarrow> buffer \<Rightarrow> buffer result" where
  "Buffer_PrependInt8 x b = Buffer_Prepend (le_bytes 1 x) b"

definition Buffer_ToText :: "buffer \<Rightarrow> buffer result" where
  "Buffer_ToText b = ebind (Buffer_AppendInt8 0 b) (Buffer_UnwriteBytes 1)"

section \<open>Reading\<close>

text \<open>\<open>peek_bytes n b\<close> is the object of \<open>n\<close> bytes copied from \<^verbatim>\<open>data()\<close>.\<close>

definition peek_bytes :: "nat \<Rightarrow> buffer \<Rightarrow> byte list result" where
  "peek_bytes n b = ebind (mem_read (unat (read_index b)) n (storage b)) bytes_of"

definition Buffer_PeekInt64 :: "buffer \<Rightarrow> 64 word result" where
  "Buffer_PeekInt64 b =
     ebind (Buffer_length b) (\<lambda>l. asserting (l \<ge> 8) (
     ebind (peek_bytes 8 b) (\<lambda>bs. Inr (evppbswap_64 (word_of_le bs)))))"

definition Buffer_PeekInt32 :: "buffer \<Rightarrow> 32 word result" where
  "Buffer_PeekInt32 b =
     ebind (Buffer_length b) (\<lambda>l. asserting (l \<ge> 4) (
     ebind (peek_bytes 4 b) (\<lambda>bs. Inr (htonl (word_of_le bs)))))"

definition Buffer_PeekInt16 :: "buffer \<Rightarrow> 16 word result" where
  "Buffer_PeekInt16 b =
     ebind (Buffer_length b) (\<lambda>l. asserting (l \<ge> 2) (
     ebind (peek_bytes 2 b) (\<lambda>bs. Inr (htons (word_of_le bs)))))"

definition Buffer_PeekInt8 :: "buffer \<Rightarrow> 8 word result" where
  "Buffer_PeekInt8 b =
     ebind (Buffer_length b) (\<lambda>l. asserting (l \<ge> 1) (
     ebind (peek_bytes 1 b) (\<lambda>bs. Inr (word_of_le bs))))"

definition Buffer_ReadInt64 :: "buffer \<Rightarrow> (64 word \<times> buffer) result" where
  "Buffer_ReadInt64 b =
     ebind (Buffer_PeekInt64 b) (\<lambda>x. ebind (Buffer_Skip 8 b) (\<lambda>b'. Inr (x, b')))"

definition Buffer_ReadInt32 :: "buffer \<Rightarrow> (32 word \<times> buffer) result" where
  "Buffer_ReadInt32 b =
     ebind (Buffer_PeekInt32 b) (\<lambda>x. ebind (Buffer_Skip 4 b) (\<lambda>b'. Inr (x, b')))"

definition Buffer_ReadInt16 :: "buffer \<Rightarrow> (16 word \<times> buffer) result" where
  "Buffer_ReadInt16 b =
     ebind (Buffer_PeekInt16 b) (\<lambda>x. ebind (Buffer_Skip 2 b) (\<lambda>b'. Inr (x, b')))"

definition Buffer_ReadInt8 :: "buffer \<Rightarrow> (8 word \<times> buffer) result" where
  "Buffer_ReadInt8 b =
     ebind (Buffer_PeekInt8 b) (\<lambda>x. ebind (Buffer_Skip 1 b) (\<lambda>b'. Inr (x, b')))"

text \<open>A \<^verbatim>\<open>Slice\<close> into the buffer or a \<^verbatim>\<open>std::string\<close> copied from it is the list of its bytes.\<close>

definition Buffer_ToSlice :: "buffer \<Rightarrow> byte list result" where
  "Buffer_ToSlice b = ebind (Buffer_length b) (\<lambda>l. peek_bytes (unat l) b)"

definition Buffer_ToString :: "buffer \<Rightarrow> byte list result" where
  "Buffer_ToString b = ebind (Buffer_length b) (\<lambda>l. peek_bytes (unat l) b)"

definition Buffer_Shrink :: "size_t \<Rightarrow> buffer \<Rightarrow> buffer result" where
  "Buffer_Shrink reserve b =
     ebind (Buffer_length b) (\<lambda>l.
     ebind (Buffer_new (l + reserve) kCheapPrependSize) (\<lambda>other.
     ebind (Buffer_ToSlice b) (\<lambda>xs.
     ebind (Buffer_Append xs other) (\<lambda>other'. Inr (fst (Buffer_Swap b other'))))))"

definition Buffer_NextAll :: "buffer \<Rightarrow> (byte list \<times> buffer) result" where
  "Buffer_NextAll b =
     ebind (Buffer_length b) (\<lambda>l.
     ebind (peek_bytes (unat l) b) (\<lambda>xs. Inr (xs, Buffer_Reset b)))"

definition Buffer_Next :: "size_t \<Rightarrow> buffer \<Rightarrow> (byte list \<times> buffer) result" where
  "Buffer_Next len b =
     ebind (Buffer_length b) (\<lambda>l.
       if len < l then
         ebind (peek_bytes (unat len) b) (\<lambda>xs. Inr (xs, b\<lparr>read_index := read_index b + len\<rparr>))
       else Buffer_NextAll b)"

definition Buffer_NextString :: "size_t \<Rightarrow> buffer \<Rightarrow> (byte list \<times> buffer) result" where
  "Buffer_NextString len b = Buffer_Next len b"

definition Buffer_NextAllString :: "buffer \<Rightarrow> (byte list \<times> buffer) result" where
  "Buffer_NextAllString b = Buffer_NextAll b"

definition Buffer_ReadByte :: "buffer \<Rightarrow> (byte \<times> buffer) result" where
  "Buffer_ReadByte b =
     ebind (Buffer_length b) (\<lambda>l. asserting (l \<ge> 1) (
       if l = 0 then Inr (CHR 0x00, b)
       else ebind (peek_bytes 1 b) (\<lambda>xs. Inr (hd xs, b\<lparr>read_index := read_index b + 1\<rparr>))))"

section \<open>Searching\<close>

text \<open>\<^verbatim>\<open>std::search\<close> and \<^verbatim>\<open>memchr\<close>: the offset of the first match, or the length if there is none.\<close>

fun std_search :: "'a list \<Rightarrow> 'a list \<Rightarrow> nat" where
  "std_search pat [] = 0"
| "std_search pat (x # xs) =
     (if take (length pat) (x # xs) = pat then 0 else Suc (std_search pat xs))"

definition Buffer_FindCRLF_from :: "size_t \<Rightarrow> buffer \<Rightarrow> size_t option result" where
  "Buffer_FindCRLF_from start b =
     asserting (read_index b \<le> start) (asserting (start \<le> write_index b) (
     ebind (mem_read (unat start) (unat (write_index b) - unat start) (storage b)) (\<lambda>cs.
     ebind (bytes_of cs) (\<lambda>bs.
       let crlf = start + of_nat (std_search kCRLF bs) in
       Inr (if crlf = write_index b then None else Some crlf)))))"

definition Buffer_FindCRLF :: "buffer \<Rightarrow> size_t option result" where
  "Buffer_FindCRLF b =
     ebind (mem_read (unat (read_index b)) (unat (write_index b) - unat (read_index b)) (storage b)) (\<lambda>cs.
     ebind (bytes_of cs) (\<lambda>bs.
       let crlf = read_index b + of_nat (std_search kCRLF bs) in
       Inr (if crlf = write_index b then None else Some crlf)))"

definition memchr :: "'a \<Rightarrow> 'a list \<Rightarrow> nat option" where
  "memchr c xs = (let i = length (takeWhile (\<lambda>x. x \<noteq> c) xs) in
     if i < length xs then Some i else None)"

definition Buffer_FindEOL_from :: "size_t \<Rightarrow> buffer \<Rightarrow> size_t option result" where
  "Buffer_FindEOL_from start b =
     asserting (read_index b \<le> start) (asserting (start \<le> write_index b) (
     ebind (mem_read (unat start) (unat (write_index b - start)) (storage b)) (\<lambda>cs.
     ebind (bytes_of cs) (\<lambda>bs.
       Inr (map_option (\<lambda>i. start + of_nat i) (memchr (CHR 0x0A) bs))))))"

definition Buffer_FindEOL :: "buffer \<Rightarrow> size_t option result" where
  "Buffer_FindEOL b =
     ebind (Buffer_length b) (\<lambda>l.
     ebind (peek_bytes (unat l) b) (\<lambda>bs.
       Inr (map_option (\<lambda>i. read_index b + of_nat i) (memchr (CHR 0x0A) bs))))"

section \<open>Reading from a descriptor\<close>

text \<open>\<^verbatim>\<open>readv\<close> is a parameter: given the sizes of the two vectors (the second is 0 when only one
  is passed) it yields an errno or the bytes it stored. The kernel never stores more bytes than
  the vectors hold.\<close>

definition extrabuf_size :: nat where
  "extrabuf_size = 65536"

definition readv_ok :: "(nat \<Rightarrow> nat \<Rightarrow> int + byte list) \<Rightarrow> bool" where
  "readv_ok readv \<longleftrightarrow> (\<forall>n m bs. readv n m = Inr bs \<longrightarrow> length bs \<le> n + m)"

definition Buffer_ReadFromFD ::
  "(nat \<Rightarrow> nat \<Rightarrow> int + byte list) \<Rightarrow> buffer \<Rightarrow> ((int + nat) \<times> buffer) result" where
  "Buffer_ReadFromFD readv b =
     ebind (Buffer_WritableBytes b) (\<lambda>w.
     case readv (unat w) (if unat w < extrabuf_size then extrabuf_size else 0) of
       Inl errno \<Rightarrow> Inr (Inl errno, b)
     | Inr bs \<Rightarrow>
         ebind (mem_write (unat (write_index b)) (map Some (take (unat w) bs)) (storage b)) (\<lambda>m.
         let b' = b\<lparr>storage := m\<rparr> in
         if length bs \<le> unat w then
           Inr (Inr (length bs), b'\<lparr>write_index := write_index b + of_nat (length bs)\<rparr>)
         else
           ebind (Buffer_Append (drop (unat w) bs) (b'\<lparr>write_index := capacity b'\<rparr>)) (\<lambda>b''.
             Inr (Inr (length bs), b''))))"

end
