(* ===== verification/Buffer_Props.thy ===== *)
theory Buffer_Props
  imports Buffer
begin

text \<open>
  Correctness of the buffer: every operation keeps the representation invariant and acts on
  the unread bytes as the corresponding list operation.
\<close>

section \<open>Invariant and abstraction\<close>

definition contents :: "buffer \<Rightarrow> byte list" where
  "contents b = map the (range_of (unat (read_index b)) (unat (write_index b)) (storage b))"

definition buf_inv :: "buffer \<Rightarrow> bool" where
  "buf_inv b \<longleftrightarrow>
     unat (read_index b) \<le> unat (write_index b) \<and>
     unat (write_index b) \<le> unat (capacity b) \<and>
     length (storage b) = unat (capacity b) \<and>
     unat (buf_reserved b) \<le> unat (capacity b) \<and>
     unat (capacity b) < 2 ^ 63 \<and>
     None \<notin> set (range_of (unat (read_index b)) (unat (write_index b)) (storage b))"

text \<open>\<open>can_grow b n\<close>: an array that \<open>grow\<close> may have to allocate for \<open>n\<close> more bytes stays below the
  largest object. The capacity is doubled only when the readable bytes and the new ones do not fit,
  so the bound is linear in their number.\<close>

definition can_grow :: "buffer \<Rightarrow> nat \<Rightarrow> bool" where
  "can_grow b n \<longleftrightarrow> 2 * unat (buf_reserved b) + 3 * (length (contents b) + n) < 2 ^ 63"

lemma buf_inv_index: "buf_inv b \<Longrightarrow> unat (write_index b) = unat (read_index b) + length (contents b)"
  by (auto simp: contents_def buf_inv_def)

lemma length_contents:
  "buf_inv b \<Longrightarrow> length (contents b) = unat (write_index b) - unat (read_index b)"
  by (simp add: contents_def buf_inv_def)

lemma Buffer_length_inv:
  "buf_inv b \<Longrightarrow> Buffer_length b = Inr (write_index b - read_index b)"
  by (simp add: Buffer_length_def buf_inv_def size_le_iff)

lemma unat_length_inv:
  "buf_inv b \<Longrightarrow> unat (write_index b - read_index b) = length (contents b)"
  by (simp add: unat_sub_size buf_inv_def contents_def)

lemma Buffer_WritableBytes_inv:
  "buf_inv b \<Longrightarrow> Buffer_WritableBytes b = Inr (capacity b - write_index b)"
  by (simp add: Buffer_WritableBytes_def buf_inv_def size_le_iff)

lemma unat_writable_inv:
  "buf_inv b \<Longrightarrow> unat (capacity b - write_index b) = unat (capacity b) - unat (write_index b)"
  by (simp add: unat_sub_size buf_inv_def)

lemma cells_of_contents:
  "buf_inv b \<Longrightarrow>
   range_of (unat (read_index b)) (unat (write_index b)) (storage b) = map Some (contents b)"
  unfolding contents_def buf_inv_def by (rule sym, rule map_Some_the) blast

lemma buf_invI_contents:
  assumes "unat (read_index b) \<le> unat (write_index b)" "unat (write_index b) \<le> unat (capacity b)"
    "length (storage b) = unat (capacity b)" "unat (buf_reserved b) \<le> unat (capacity b)"
    "unat (capacity b) < 2 ^ 63"
    "range_of (unat (read_index b)) (unat (write_index b)) (storage b) = map Some xs"
  shows "buf_inv b" "contents b = xs"
  using assms by (auto simp: buf_inv_def contents_def comp_def)

lemma peek_bytes_inv:
  assumes "buf_inv b" "n \<le> length (contents b)"
  shows "peek_bytes n b = Inr (take n (contents b))"
proof -
  have n: "unat (read_index b) + n \<le> unat (write_index b)"
    using assms buf_inv_index [of b] by simp
  have "range_of (unat (read_index b)) (unat (read_index b) + n) (storage b)
      = take n (range_of (unat (read_index b)) (unat (write_index b)) (storage b))"
    using range_of_take [OF n, of "unat (read_index b)" "storage b"] by simp
  then show ?thesis
    using assms n
    by (simp add: peek_bytes_def mem_read_def cells_of_contents take_map buf_inv_def)
qed

section \<open>Construction and discarding\<close>

lemma Buffer_new_inv:
  assumes "unat initial + unat reserved < 2 ^ 63"
  shows "\<exists>b. Buffer_new initial reserved = Inr b \<and> buf_inv b \<and> contents b = [] \<and>
    unat (capacity b) = unat reserved + unat initial \<and> buf_reserved b = reserved \<and>
    read_index b = reserved"
proof -
  have c: "unat (reserved + initial) = unat reserved + unat initial"
    using assms by (simp add: unat_add_size)
  define b where "b = \<lparr>storage = replicate (unat (reserved + initial)) None,
    capacity = reserved + initial, read_index = reserved, write_index = reserved,
    buf_reserved = reserved\<rparr>"
  have i: "buf_inv b" "contents b = []"
    using assms c by (auto simp: buf_inv_def contents_def b_def)
  have "Buffer_new initial reserved = Inr b"
    using assms c
    by (simp add: Buffer_new_def new_storage_def Let_def Buffer_length_def b_def
        Buffer_WritableBytes_def Buffer_PrependableBytes_def size_le_iff)
  then show ?thesis using i c by (auto simp: b_def)
qed

lemma Buffer_Reset_inv:
  "buf_inv b \<Longrightarrow> buf_inv (Buffer_Reset b) \<and> contents (Buffer_Reset b) = []"
  by (simp add: Buffer_Reset_def Buffer_Truncate_def buf_inv_def contents_def)

lemma advance_inv:
  assumes "buf_inv b" "unat n \<le> length (contents b)"
  shows "buf_inv (b\<lparr>read_index := read_index b + n\<rparr>)"
    and "contents (b\<lparr>read_index := read_index b + n\<rparr>) = drop (unat n) (contents b)"
proof -
  have le: "unat (read_index b) + unat n \<le> unat (write_index b)"
    using assms buf_inv_index [of b] by simp
  then have r: "unat (read_index b + n) = unat (read_index b) + unat n"
    using unat_size_bound [of "write_index b"] by (simp add: unat_add_size)
  have cells: "range_of (unat (read_index b) + unat n) (unat (write_index b)) (storage b)
      = map Some (drop (unat n) (contents b))"
    using range_of_drop [of "unat (read_index b)" "unat (read_index b) + unat n"
        "unat (write_index b)" "storage b"] cells_of_contents [OF assms(1)]
    by (simp add: drop_map)
  show "buf_inv (b\<lparr>read_index := read_index b + n\<rparr>)"
    and "contents (b\<lparr>read_index := read_index b + n\<rparr>) = drop (unat n) (contents b)"
    using buf_invI_contents [of "b\<lparr>read_index := read_index b + n\<rparr>"] assms r le cells
    by (auto simp: buf_inv_def)
qed

lemma Buffer_Skip_inv:
  assumes "buf_inv b"
  shows "\<exists>b'. Buffer_Skip len b = Inr b' \<and> buf_inv b' \<and> contents b' = drop (unat len) (contents b)"
proof (cases "unat len < length (contents b)")
  case True
  then show ?thesis
    using assms advance_inv [OF assms, of len]
    by (simp add: Buffer_Skip_def Buffer_length_inv size_less_iff unat_length_inv)
next
  case False
  then show ?thesis
    using assms Buffer_Reset_inv [OF assms]
    by (simp add: Buffer_Skip_def Buffer_length_inv size_less_iff unat_length_inv)
qed

lemma Buffer_NextAll_inv:
  assumes "buf_inv b"
  shows "\<exists>b'. Buffer_NextAll b = Inr (contents b, b') \<and> buf_inv b' \<and> contents b' = []"
  using assms Buffer_Reset_inv [OF assms]
  by (simp add: Buffer_NextAll_def Buffer_length_inv unat_length_inv peek_bytes_inv)

lemma Buffer_Next_inv:
  assumes "buf_inv b"
  shows "\<exists>b'. Buffer_Next len b = Inr (take (unat len) (contents b), b') \<and> buf_inv b' \<and>
    contents b' = drop (unat len) (contents b)"
proof (cases "unat len < length (contents b)")
  case True
  then show ?thesis
    using assms advance_inv [OF assms, of len]
    by (simp add: Buffer_Next_def Buffer_length_inv size_less_iff unat_length_inv peek_bytes_inv)
next
  case False
  then show ?thesis
    using assms Buffer_NextAll_inv [OF assms]
    by (simp add: Buffer_Next_def Buffer_length_inv size_less_iff unat_length_inv)
qed

section \<open>Growing\<close>

text \<open>What both branches of \<^verbatim>\<open>grow\<close> leave behind.\<close>

lemma moved_inv:
  assumes m: "length m = unat c" and c: "unat c < 2 ^ 63" and r: "unat r + length xs \<le> unat c"
    and w: "unat w = unat r + length xs" and i: "range_of (unat r) (unat w) m = map Some xs"
  shows "buf_inv (b\<lparr>storage := m, capacity := c, read_index := r, write_index := w, buf_reserved := r\<rparr>)
    \<and> contents (b\<lparr>storage := m, capacity := c, read_index := r, write_index := w, buf_reserved := r\<rparr>) = xs"
  using buf_invI_contents [of "b\<lparr>storage := m, capacity := c, read_index := r, write_index := w,
    buf_reserved := r\<rparr>" xs] assms by simp

lemma readable_cells:
  assumes "buf_inv b"
  shows "mem_read (unat (read_index b)) (unat (write_index b - read_index b)) (storage b)
    = Inr (map Some (contents b))"
proof -
  have "unat (read_index b) + unat (write_index b - read_index b) = unat (write_index b)"
    using assms buf_inv_index [OF assms] by (simp add: unat_length_inv)
  moreover have "unat (write_index b) \<le> length (storage b)"
    using assms by (simp add: buf_inv_def)
  ultimately show ?thesis
    using cells_of_contents [OF assms] by (simp add: mem_read_def)
qed

definition grown :: "size_t \<Rightarrow> buffer \<Rightarrow> buffer \<Rightarrow> bool" where
  "grown len b b' \<longleftrightarrow> buf_inv b' \<and> contents b' = contents b \<and> buf_reserved b' = buf_reserved b \<and>
     unat (write_index b') + unat len \<le> unat (capacity b') \<and> unat (capacity b) \<le> unat (capacity b') \<and>
     unat (capacity b') \<le> max (unat (capacity b)) (2 * unat (buf_reserved b) + 3 * (length (contents b) + unat len))"

lemma prepend_room:
  assumes i: "buf_inv b" and g: "can_grow b (unat len)"
  shows "(capacity b - write_index b) + read_index b < len + buf_reserved b \<longleftrightarrow>
    unat (capacity b) < unat len + unat (buf_reserved b) + length (contents b)"
proof -
  note x = buf_inv_index [OF i] unat_writable_inv [OF i]
  have "unat (write_index b) \<le> unat (capacity b)" "unat (capacity b) < 2 ^ 63"
    using i by (simp_all add: buf_inv_def)
  then have "unat (capacity b - write_index b + read_index b) = unat (capacity b) - length (contents b)"
    using x by (subst unat_add_size) auto
  moreover have "length (contents b) \<le> unat (capacity b)"
    using x \<open>unat (write_index b) \<le> unat (capacity b)\<close> by linarith
  moreover have "unat (len + buf_reserved b) = unat len + unat (buf_reserved b)"
    using g by (subst unat_add_size) (auto simp: can_grow_def)
  ultimately show ?thesis by (auto simp: size_less_iff)
qed

lemma Buffer_grow_realloc:
  assumes i: "buf_inv b" and g: "can_grow b (unat len)"
    and c: "(capacity b - write_index b) + read_index b < len + buf_reserved b"
  shows "\<exists>b'. Buffer_grow len b = Inr b' \<and> grown len b b'"
proof -
  let ?n = "push_bit 1 (capacity b) + len"
  let ?m = "write_index b - read_index b"
  let ?d = "splice_at (unat (buf_reserved b)) (map Some (contents b)) (replicate (unat ?n) None)"
  let ?b = "b\<lparr>storage := ?d, capacity := ?n, read_index := buf_reserved b,
              write_index := ?m + buf_reserved b\<rparr>"
  have "unat (capacity b) < unat len + unat (buf_reserved b) + length (contents b)"
    using c prepend_room [OF i g] by simp
  then have o: "2 * unat (capacity b) + unat len < 2 * unat (buf_reserved b) + 3 * (length (contents b) + unat len)"
    by simp
  then have n: "unat ?n = 2 * unat (capacity b) + unat len" "unat ?n < 2 ^ 63"
    using g unat_grow_size [of "capacity b" len] by (simp_all add: can_grow_def)
  have l: "length (contents b) \<le> unat (capacity b)" "unat (buf_reserved b) \<le> unat (capacity b)"
    using i buf_inv_index [OF i] by (simp_all add: buf_inv_def)
  have w: "unat (?m + buf_reserved b) = unat (buf_reserved b) + length (contents b)"
    using l g unat_length_inv [OF i] by (subst unat_add_size) (simp_all add: can_grow_def)
  have "Buffer_grow len b = Inr ?b"
    using c n l readable_cells [OF i]
    by (simp add: Buffer_grow_def Buffer_WritableBytes_inv [OF i] Buffer_length_inv [OF i]
        Buffer_PrependableBytes_def new_storage_def mem_write_def Let_def)
  moreover have "grown len b ?b"
  proof -
    have "range_of (unat (buf_reserved b)) (unat (?m + buf_reserved b)) ?d = map Some (contents b)"
      using range_of_splice_same [of "unat (buf_reserved b)" "map Some (contents b)"
          "replicate (unat ?n) None"] n l w by simp
    then show ?thesis
      using moved_inv [of ?d ?n "buf_reserved b" "contents b" "?m + buf_reserved b" b] n l w o
      by (simp add: grown_def)
  qed
  ultimately show ?thesis by blast
qed

lemma Buffer_grow_move:
  assumes i: "buf_inv b" and g: "can_grow b (unat len)"
    and w: "capacity b - write_index b < len"
    and c: "\<not> (capacity b - write_index b) + read_index b < len + buf_reserved b"
  shows "\<exists>b'. Buffer_grow len b = Inr b' \<and> grown len b b'"
proof -
  let ?m = "write_index b - read_index b"
  let ?d = "splice_at (unat (buf_reserved b)) (map Some (contents b)) (storage b)"
  let ?b = "b\<lparr>storage := ?d, read_index := buf_reserved b, write_index := buf_reserved b + ?m\<rparr>"
  note x = buf_inv_index [OF i] unat_length_inv [OF i] unat_writable_inv [OF i]
  have cap: "length (storage b) = unat (capacity b)" "unat (capacity b) < 2 ^ 63"
    "unat (write_index b) \<le> unat (capacity b)"
    using i by (auto simp: buf_inv_def)
  have le: "unat len + unat (buf_reserved b)
      \<le> unat (capacity b) - unat (write_index b) + unat (read_index b)"
    using c prepend_room [OF i g] x cap by simp
  have lt: "unat (capacity b) - unat (write_index b) < unat len"
    using w x by (simp add: size_less_iff)
  have r: "unat (buf_reserved b) < unat (read_index b)" using le lt by linarith
  have w': "unat (buf_reserved b + ?m) = unat (buf_reserved b) + length (contents b)"
    using x cap r by (subst unat_add_size) auto
  have cells: "range_of (unat (buf_reserved b)) (unat (buf_reserved b + ?m)) ?d = map Some (contents b)"
    using range_of_splice_same [of "unat (buf_reserved b)" "map Some (contents b)" "storage b"] x r cap w'
    by simp
  have len: "length ?d = unat (capacity b)" using x r cap by simp
  have inv: "buf_inv ?b" "contents ?b = contents b"
    using moved_inv [of ?d "capacity b" "buf_reserved b" "contents b" "buf_reserved b + ?m" b]
      cells len w' x r cap by simp_all
  have w'': "unat (capacity b - (buf_reserved b + ?m)) \<ge> unat len"
    using w' x le r cap by (subst unat_sub_size) auto
  have "Buffer_grow len b = Inr ?b"
    using c r x cap w'' readable_cells [OF i] Buffer_length_inv [OF inv(1)]
      Buffer_WritableBytes_inv [OF inv(1)]
    by (simp add: Buffer_grow_def Buffer_WritableBytes_inv [OF i] Buffer_length_inv [OF i]
        Buffer_PrependableBytes_def mem_write_def Let_def size_less_iff size_le_iff)
  moreover have "grown len b ?b"
    using inv w' x le r cap by (simp add: grown_def)
  ultimately show ?thesis by blast
qed

lemma Buffer_EnsureWritableBytes_inv:
  assumes i: "buf_inv b" and g: "can_grow b (unat len)"
  shows "\<exists>b'. Buffer_EnsureWritableBytes len b = Inr b' \<and> grown len b b'"
proof -
  have checked: "ebind (Buffer_WritableBytes b') (\<lambda>w'. asserting (w' \<ge> len) (Inr b')) = Inr b'"
    if "grown len b b'" for b'
    using that Buffer_WritableBytes_inv [of b'] unat_writable_inv [of b']
    by (auto simp: grown_def size_le_iff)
  show ?thesis
  proof (cases "capacity b - write_index b < len")
    case True
    then obtain b' where "Buffer_grow len b = Inr b'" "grown len b b'"
      using Buffer_grow_realloc [OF i g] Buffer_grow_move [OF i g] by blast
    then show ?thesis
      using True checked by (simp add: Buffer_EnsureWritableBytes_def Buffer_WritableBytes_inv [OF i])
  next
    case False
    then have "grown len b b"
      using i unat_writable_inv [OF i] by (auto simp: grown_def size_less_iff buf_inv_def)
    then show ?thesis
      using False checked by (simp add: Buffer_EnsureWritableBytes_def Buffer_WritableBytes_inv [OF i])
  qed
qed

section \<open>Writing\<close>

text \<open>Storing bytes right after the readable ones.\<close>

lemma store_inv:
  assumes i: "buf_inv b" and w: "unat (write_index b) + length xs \<le> unat (capacity b)"
  defines "b' \<equiv> b\<lparr>storage := splice_at (unat (write_index b)) (map Some xs) (storage b),
                 write_index := write_index b + of_nat (length xs)\<rparr>"
  shows "buf_inv b'" and "contents b' = contents b @ xs"
    and "mem_write (unat (write_index b)) (map Some xs) (storage b) = Inr (storage b')"
    and "write_index b + of_nat (length xs) \<le> capacity b"
    and "unat (write_index b') = unat (write_index b) + length xs"
proof -
  let ?m = "splice_at (unat (write_index b)) (map Some xs) (storage b)"
  have cap: "length (storage b) = unat (capacity b)" "unat (capacity b) < 2 ^ 63"
    "unat (read_index b) \<le> unat (write_index b)"
    using i by (auto simp: buf_inv_def)
  have u: "unat (write_index b + of_nat (length xs)) = unat (write_index b) + length xs"
    using w cap by (subst unat_add_size) (simp_all add: unat_of_nat_size)
  have "range_of (unat (read_index b)) (unat (write_index b) + length xs) ?m
      = map Some (contents b) @ map Some xs"
    using w cap i range_of_splice_same [of "unat (write_index b)" "map Some xs" "storage b"]
    by (subst range_of_split [where j = "unat (write_index b)"])
      (simp_all add: range_of_splice_before cells_of_contents)
  then have cells: "range_of (unat (read_index b')) (unat (write_index b')) (storage b')
      = map Some (contents b @ xs)"
    using u by (simp add: b'_def)
  have "unat (read_index b') \<le> unat (write_index b')" "unat (write_index b') \<le> unat (capacity b')"
    "length (storage b') = unat (capacity b')" "unat (buf_reserved b') \<le> unat (capacity b')"
    "unat (capacity b') < 2 ^ 63"
    using i w u cap by (simp_all add: b'_def buf_inv_def)
  from buf_invI_contents [OF this cells] show "buf_inv b'" "contents b' = contents b @ xs" .
  show "mem_write (unat (write_index b)) (map Some xs) (storage b) = Inr (storage b')"
    using w cap by (simp add: mem_write_def b'_def)
  show "write_index b + of_nat (length xs) \<le> capacity b"
    using u w by (simp add: size_le_iff)
  show "unat (write_index b') = unat (write_index b) + length xs" using u by (simp add: b'_def)
qed

lemma Buffer_Write_inv:
  assumes i: "buf_inv b" and g: "can_grow b (length xs)"
  shows "\<exists>b'. Buffer_Write xs b = Inr b' \<and> buf_inv b' \<and> contents b' = contents b @ xs \<and>
    buf_reserved b' = buf_reserved b \<and> unat (capacity b) \<le> unat (capacity b') \<and>
    unat (capacity b') \<le> max (unat (capacity b)) (2 * unat (buf_reserved b) + 3 * (length (contents b) + length xs))"
proof -
  have u: "unat (of_nat (length xs) :: size_t) = length xs"
    using g by (simp add: can_grow_def unat_of_nat_size)
  obtain e where e: "Buffer_EnsureWritableBytes (of_nat (length xs)) b = Inr e"
    and "grown (of_nat (length xs)) b e"
    using Buffer_EnsureWritableBytes_inv [OF i, of "of_nat (length xs)"] g u by auto
  then have ei: "buf_inv e" "contents e = contents b" "buf_reserved e = buf_reserved b"
    "unat (write_index e) + length xs \<le> unat (capacity e)" "unat (capacity b) \<le> unat (capacity e)"
    "unat (capacity e) \<le> max (unat (capacity b)) (2 * unat (buf_reserved b) + 3 * (length (contents b) + length xs))"
    using u by (simp_all add: grown_def)
  show ?thesis
    using e ei store_inv [OF ei(1,4)] by (simp add: Buffer_Write_def Let_def)
qed

text \<open>A write that fits does not touch the capacity.\<close>

lemma Buffer_Write_fits:
  assumes i: "buf_inv b" and w: "unat (write_index b) + length xs \<le> unat (capacity b)"
  shows "\<exists>b'. Buffer_Write xs b = Inr b' \<and> buf_inv b' \<and> contents b' = contents b @ xs \<and>
    buf_reserved b' = buf_reserved b \<and> capacity b' = capacity b"
proof -
  have u: "unat (of_nat (length xs) :: size_t) = length xs"
    using w unat_size_bound [of "capacity b"] by (simp add: unat_of_nat_size)
  have "of_nat (length xs) \<le> capacity b - write_index b"
    using w u unat_writable_inv [OF i] by (simp add: size_le_iff)
  then have "Buffer_EnsureWritableBytes (of_nat (length xs)) b = Inr b"
    by (simp add: Buffer_EnsureWritableBytes_def Buffer_WritableBytes_inv [OF i] not_less [symmetric])
  then show ?thesis
    using store_inv [OF i w] by (simp add: Buffer_Write_def Let_def)
qed

lemma Buffer_Prepend_inv:
  assumes i: "buf_inv b" and r: "length xs \<le> unat (read_index b)"
  shows "\<exists>b'. Buffer_Prepend xs b = Inr b' \<and> buf_inv b' \<and> contents b' = xs @ contents b \<and>
    capacity b' = capacity b \<and> write_index b' = write_index b"
proof -
  let ?r = "read_index b - of_nat (length xs)"
  let ?m = "splice_at (unat ?r) (map Some xs) (storage b)"
  let ?b = "b\<lparr>storage := ?m, read_index := ?r\<rparr>"
  have cap: "length (storage b) = unat (capacity b)" "unat (capacity b) < 2 ^ 63"
    "unat (read_index b) \<le> unat (write_index b)" "unat (write_index b) \<le> unat (capacity b)"
    using i by (auto simp: buf_inv_def)
  have u: "unat (of_nat (length xs) :: size_t) = length xs"
    using r unat_size_bound [of "read_index b"] by (simp add: unat_of_nat_size)
  then have ur: "unat ?r + length xs = unat (read_index b)"
    using r by (simp add: unat_sub_size)
  have "range_of (unat ?r) (unat (write_index b)) ?m = map Some xs @ map Some (contents b)"
    using cap i ur range_of_splice_same [of "unat ?r" "map Some xs" "storage b"]
    by (subst range_of_split [where j = "unat (read_index b)"])
      (simp_all add: range_of_splice_after cells_of_contents)
  then have "buf_inv ?b" "contents ?b = xs @ contents b"
    using buf_invI_contents [of ?b "xs @ contents b"] i ur cap by (simp_all add: buf_inv_def)
  then show ?thesis
    using ur u r cap
    by (simp add: Buffer_Prepend_def Buffer_PrependableBytes_def mem_write_def Let_def size_le_iff)
qed

lemma Buffer_UnwriteBytes_inv:
  assumes i: "buf_inv b" and n: "unat n \<le> length (contents b)"
  shows "\<exists>b'. Buffer_UnwriteBytes n b = Inr b' \<and> buf_inv b' \<and>
    contents b' = take (length (contents b) - unat n) (contents b)"
proof -
  let ?b = "b\<lparr>write_index := write_index b - n\<rparr>"
  have w: "unat (write_index b - n) = unat (read_index b) + (length (contents b) - unat n)"
    using n buf_inv_index [OF i] by (simp add: unat_sub_size)
  have "range_of (unat (read_index b)) (unat (write_index b - n)) (storage b)
      = map Some (take (length (contents b) - unat n) (contents b))"
    using w buf_inv_index [OF i] cells_of_contents [OF i]
      range_of_take [of "unat (write_index b - n)" "unat (write_index b)" "unat (read_index b)" "storage b"]
    by (simp add: take_map)
  then have "buf_inv ?b" "contents ?b = take (length (contents b) - unat n) (contents b)"
    using buf_invI_contents [of ?b] i w buf_inv_index [OF i] by (auto simp: buf_inv_def)
  then show ?thesis
    using n by (simp add: Buffer_UnwriteBytes_def Buffer_length_inv [OF i] size_le_iff unat_length_inv [OF i])
qed

section \<open>Integers in network byte order\<close>

lemma char_word: "(of_nat (of_char (char_of (m :: nat) :: byte)) :: 'a::len word) = of_nat (take_bit 8 m)"
  by (simp add: take_bit_eq_mod)

lemma bit_word_of_le_bytes:
  assumes "j \<le> k"
  shows "bit (word_of_le (map (\<lambda>i. char_of (unat (drop_bit (8 * i) w))) [j..<k]) :: 'a::len word) n
    \<longleftrightarrow> n < LENGTH('a) \<and> 8 * j + n < 8 * k \<and> bit (w :: 'a word) (8 * j + n)"
  using assms
proof (induction j arbitrary: n rule: inc_induct)
  case base
  then show ?case by simp
next
  case (step j)
  have u: "[j..<k] = j # [Suc j..<k]" using step.hyps by (simp add: upt_conv_Cons)
  have b: "bit w m \<Longrightarrow> m < LENGTH('a)" for m by (rule bit_imp_le_length)
  have e: "8 * Suc j + (n - 8) = 8 * j + n" if "8 \<le> n" using that by simp
  show ?case
  proof (cases "8 \<le> n")
    case True
    then show ?thesis
      using step.hyps e [OF True]
      by (simp add: u step.IH bit_or_iff bit_push_bit_iff bit_of_nat_iff bit_take_bit_iff char_word
          del: of_char_of mult_Suc_right) auto
  next
    case False
    then show ?thesis
      using step.hyps by (auto simp: u bit_simps char_word simp del: of_char_of dest: b)
  qed
qed

lemma word_of_le_bytes:
  "LENGTH('a::len) \<le> 8 * k \<Longrightarrow> word_of_le (le_bytes k w) = (w :: 'a word)"
  unfolding le_bytes_def by (rule bit_word_eqI) (simp add: bit_word_of_le_bytes)

lemma bit_drop_field:
  "bit (drop_bit a ((x :: 'a::len word) AND push_bit b (mask 8))) n \<longleftrightarrow>
     b \<le> a + n \<and> a + n < b + 8 \<and> bit x (a + n)"
  by (auto simp: bit_simps dest: bit_imp_le_length)

lemma bit_push_field:
  "bit (push_bit a ((x :: 'a::len word) AND push_bit b (mask 8))) n \<longleftrightarrow>
     n < LENGTH('a) \<and> a + b \<le> n \<and> n < a + b + 8 \<and> bit x (n - a)"
  by (auto simp: bit_simps dest: bit_imp_le_length)

lemma bit_evppbswap_64:
  "bit (evppbswap_64 x) n \<longleftrightarrow> n < 64 \<and> bit x (8 * (7 - n div 8) + n mod 8)"
proof -
  have m: "evppbswap_64 x =
     drop_bit 56 (x AND push_bit 56 (mask 8)) OR drop_bit 40 (x AND push_bit 48 (mask 8)) OR
     drop_bit 24 (x AND push_bit 40 (mask 8)) OR drop_bit 8 (x AND push_bit 32 (mask 8)) OR
     push_bit 8 (x AND push_bit 24 (mask 8)) OR push_bit 24 (x AND push_bit 16 (mask 8)) OR
     push_bit 40 (x AND push_bit 8 (mask 8)) OR push_bit 56 (x AND push_bit 0 (mask 8))"
    by (simp add: evppbswap_64_def mask_eq_exp_minus_1 push_bit_eq_mult)
  define q r where "q = n div 8" and "r = n mod 8"
  then have n: "n = 8 * q + r" "r < 8" by simp_all
  consider "q = 0" | "q = 1" | "q = 2" | "q = 3" | "q = 4" | "q = 5" | "q = 6" | "q = 7" | "q \<ge> 8"
    by linarith
  then show ?thesis
    unfolding m bit_or_iff bit_drop_field bit_push_field q_def [symmetric] r_def [symmetric]
    by cases (use n in \<open>simp add: add.commute\<close>)+
qed

lemma bit_htonl: "bit (htonl x) n \<longleftrightarrow> n < 32 \<and> bit x (8 * (3 - n div 8) + n mod 8)"
proof -
  have m: "htonl x =
     drop_bit 24 (x AND push_bit 24 (mask 8)) OR drop_bit 8 (x AND push_bit 16 (mask 8)) OR
     push_bit 8 (x AND push_bit 8 (mask 8)) OR push_bit 24 (x AND push_bit 0 (mask 8))"
    by (simp add: htonl_def mask_eq_exp_minus_1 push_bit_eq_mult)
  define q r where "q = n div 8" and "r = n mod 8"
  then have n: "n = 8 * q + r" "r < 8" by simp_all
  consider "q = 0" | "q = 1" | "q = 2" | "q = 3" | "q \<ge> 4" by linarith
  then show ?thesis
    unfolding m bit_or_iff bit_drop_field bit_push_field q_def [symmetric] r_def [symmetric]
    by cases (use n in \<open>simp add: add.commute\<close>)+
qed

lemma bit_htons: "bit (htons x) n \<longleftrightarrow> n < 16 \<and> bit x (8 * (1 - n div 8) + n mod 8)"
proof -
  have m: "htons x =
     drop_bit 8 (x AND push_bit 8 (mask 8)) OR push_bit 8 (x AND push_bit 0 (mask 8))"
    by (simp add: htons_def mask_eq_exp_minus_1 push_bit_eq_mult)
  define q r where "q = n div 8" and "r = n mod 8"
  then have n: "n = 8 * q + r" "r < 8" by simp_all
  consider "q = 0" | "q = 1" | "q \<ge> 2" by linarith
  then show ?thesis
    unfolding m bit_or_iff bit_drop_field bit_push_field q_def [symmetric] r_def [symmetric]
    by cases (use n in \<open>simp add: add.commute\<close>)+
qed

lemma swap_index: 
  "n < 8 * Suc k \<Longrightarrow> 8 * (k - n div 8) + n mod 8 < 8 * Suc k \<and>
   8 * (k - (8 * (k - n div 8) + n mod 8) div 8) + (8 * (k - n div 8) + n mod 8) mod 8 = (n :: nat)"
  by (auto simp: less_Suc_eq_le)

lemma byteswap_involutive [simp]:
  "evppbswap_64 (evppbswap_64 x) = x" "htonl (htonl y) = y" "htons (htons z) = z"
  by (rule bit_word_eqI, use swap_index [of _ 7] swap_index [of _ 3] swap_index [of _ 1] in
      \<open>simp add: bit_evppbswap_64 bit_htonl bit_htons\<close>)+

lemma length_le_bytes [simp]: "length (le_bytes k w) = k"
  by (simp add: le_bytes_def)

text \<open>The bytes of a swapped integer are its bytes, most significant first.\<close>

lemma swapped_byte:
  assumes "\<And>n. bit y n \<longleftrightarrow> n < 8 * Suc k \<and> bit x (8 * (k - n div 8) + n mod 8)" "i \<le> k"
    "LENGTH('a) = 8 * Suc k"
  shows "take_bit 8 (drop_bit (8 * i) y) = (take_bit 8 (drop_bit (8 * (k - i)) x) :: 'a::len word)"
  by (rule bit_word_eqI)
    (use assms(2,3) in \<open>auto simp: bit_take_bit_iff bit_drop_bit_eq assms(1)\<close>)

lemma char_of_take_bit: "char_of (unat (w :: 'a::len word)) = (char_of (unat (take_bit 8 w)) :: byte)"
proof -
  have "unat (take_bit 8 w) = take_bit 8 (unat w)" by (simp add: unsigned_take_bit_eq)
  then show ?thesis
    by (simp add: take_bit_eq_mod char_of_mod_256 flip: of_char_eq_iff [where 'a = nat])
qed

lemma nth_le_bytes: "i < k \<Longrightarrow> le_bytes k w ! i = char_of (unat (drop_bit (8 * i) w))"
  by (simp add: le_bytes_def)

lemma le_bytes_swapped:
  fixes x y :: "'a::len word"
  assumes "\<And>n. bit y n \<longleftrightarrow> n < 8 * Suc k \<and> bit x (8 * (k - n div 8) + n mod 8)"
    "LENGTH('a) = 8 * Suc k"
  shows "le_bytes (Suc k) y = rev (le_bytes (Suc k) x)"
proof (rule nth_equalityI)
  fix i assume "i < length (le_bytes (Suc k) y)"
  then have i: "i \<le> k" by simp
  then have "le_bytes (Suc k) y ! i = char_of (unat (take_bit 8 (drop_bit (8 * i) y)))"
    by (simp add: nth_le_bytes char_of_take_bit [of "drop_bit (8 * i) y"])
  also have "\<dots> = char_of (unat (take_bit 8 (drop_bit (8 * (k - i)) x)))"
    using swapped_byte [OF assms(1) i assms(2)] by simp
  also have "\<dots> = rev (le_bytes (Suc k) x) ! i"
    using i by (simp add: nth_le_bytes rev_nth flip: char_of_take_bit)
  finally show "le_bytes (Suc k) y ! i = rev (le_bytes (Suc k) x) ! i" .
qed simp

lemma network_bytes:
  "le_bytes 8 (evppbswap_64 x) = rev (le_bytes 8 x)"
  "le_bytes 4 (htonl y) = rev (le_bytes 4 y)"
  "le_bytes 2 (htons z) = rev (le_bytes 2 z)"
  using le_bytes_swapped [of "evppbswap_64 x" 7 x] le_bytes_swapped [of "htonl y" 3 y]
    le_bytes_swapped [of "htons z" 1 z]
  by (simp_all add: bit_evppbswap_64 bit_htonl bit_htons numeral_2_eq_2)

text \<open>Reading back an integer whose network representation starts the readable bytes.\<close>

lemma Buffer_ReadInt_inv:
  assumes "buf_inv b"
  shows "contents b = le_bytes 8 (evppbswap_64 x) @ r \<Longrightarrow>
      \<exists>b'. Buffer_ReadInt64 b = Inr (x, b') \<and> buf_inv b' \<and> contents b' = r"
    and "contents b = le_bytes 4 (htonl y) @ r \<Longrightarrow>
      \<exists>b'. Buffer_ReadInt32 b = Inr (y, b') \<and> buf_inv b' \<and> contents b' = r"
    and "contents b = le_bytes 2 (htons z) @ r \<Longrightarrow>
      \<exists>b'. Buffer_ReadInt16 b = Inr (z, b') \<and> buf_inv b' \<and> contents b' = r"
    and "contents b = le_bytes 1 c @ r \<Longrightarrow>
      \<exists>b'. Buffer_ReadInt8 b = Inr (c, b') \<and> buf_inv b' \<and> contents b' = r"
  using assms Buffer_Skip_inv [OF assms, of 8] Buffer_Skip_inv [OF assms, of 4]
    Buffer_Skip_inv [OF assms, of 2] Buffer_Skip_inv [OF assms, of 1]
  by (auto simp: Buffer_ReadInt64_def Buffer_ReadInt32_def Buffer_ReadInt16_def Buffer_ReadInt8_def
      Buffer_PeekInt64_def Buffer_PeekInt32_def Buffer_PeekInt16_def Buffer_PeekInt8_def
      Buffer_length_inv size_le_iff unat_length_inv peek_bytes_inv word_of_le_bytes)

section \<open>Truncating, shrinking, reserving\<close>

lemma Buffer_Truncate_inv:
  assumes i: "buf_inv b" and n: "unat (read_index b) + unat n < 2 ^ 64"
  shows "buf_inv (Buffer_Truncate n b) \<and> contents (Buffer_Truncate n b) = take (unat n) (contents b) \<and>
    capacity (Buffer_Truncate n b) = capacity b"
proof (cases "n \<noteq> 0 \<and> read_index b + n < write_index b")
  case True
  let ?b = "b\<lparr>write_index := read_index b + n\<rparr>"
  have u: "unat (read_index b + n) = unat (read_index b) + unat n" using n by (simp add: unat_add_size)
  have "range_of (unat (read_index b)) (unat (read_index b + n)) (storage b)
      = map Some (take (unat n) (contents b))"
    using True u cells_of_contents [OF i] range_of_take [of "unat (read_index b + n)"
        "unat (write_index b)" "unat (read_index b)" "storage b"]
    by (simp add: take_map size_less_iff)
  then have "buf_inv ?b" "contents ?b = take (unat n) (contents b)"
    using buf_invI_contents [of ?b] i u True by (auto simp: buf_inv_def size_less_iff)
  then show ?thesis using True by (simp add: Buffer_Truncate_def)
next
  case False
  have "n \<noteq> 0 \<Longrightarrow> length (contents b) \<le> unat n"
    using False n buf_inv_index [OF i] by (simp add: size_less_iff unat_add_size)
  then show ?thesis
    using False i Buffer_Reset_inv [OF i]
    by (cases "n = 0") (auto simp: Buffer_Truncate_def Buffer_Reset_def)
qed

lemma Buffer_ToSlice_inv: "buf_inv b \<Longrightarrow> Buffer_ToSlice b = Inr (contents b)"
  by (simp add: Buffer_ToSlice_def Buffer_length_inv unat_length_inv peek_bytes_inv)

lemma Buffer_Shrink_inv:
  assumes i: "buf_inv b" and n: "length (contents b) + unat reserve + 8 < 2 ^ 63"
  shows "\<exists>b'. Buffer_Shrink reserve b = Inr b' \<and> buf_inv b' \<and> contents b' = contents b \<and>
    unat (capacity b') = 8 + length (contents b) + unat reserve \<and> buf_reserved b' = kCheapPrependSize"
proof -
  let ?n = "write_index b - read_index b + reserve"
  have u: "unat ?n = length (contents b) + unat reserve" "unat kCheapPrependSize = 8"
    using n unat_length_inv [OF i] by (simp_all add: unat_add_size kCheapPrependSize_def)
  then obtain e where e: "Buffer_new ?n kCheapPrependSize = Inr e" "buf_inv e" "contents e = []"
    "unat (capacity e) = 8 + length (contents b) + unat reserve"
    "buf_reserved e = kCheapPrependSize" "read_index e = kCheapPrependSize"
    using n Buffer_new_inv [of ?n kCheapPrependSize] by (auto simp: add.assoc)
  have "unat (write_index e) + length (contents b) \<le> unat (capacity e)"
    using buf_inv_index [OF e(2)] e u by simp
  then obtain e' where "Buffer_Write (contents b) e = Inr e'" "buf_inv e'"
    "contents e' = contents b" "buf_reserved e' = kCheapPrependSize" "capacity e' = capacity e"
    using Buffer_Write_fits [OF e(2), of "contents b"] e by auto
  then show ?thesis
    using e by (simp add: Buffer_Shrink_def Buffer_length_inv [OF i] Buffer_ToSlice_inv [OF i]
        Buffer_Append_def Buffer_Swap_def)
qed

lemma Buffer_Reserve_inv:
  assumes i: "buf_inv b" and g: "can_grow b (unat len + unat (buf_reserved b))"
  shows "\<exists>b'. Buffer_Reserve len b = Inr b' \<and> buf_inv b' \<and> contents b' = contents b \<and>
    unat len + unat (buf_reserved b) \<le> unat (capacity b')"
proof -
  let ?n = "len + buf_reserved b"
  have u: "unat ?n = unat len + unat (buf_reserved b)"
    using g by (simp add: can_grow_def unat_add_size)
  show ?thesis
  proof (cases "?n \<le> capacity b")
    case True
    then show ?thesis using i u by (simp add: Buffer_Reserve_def size_le_iff)
  next
    case False
    then have "unat (capacity b) < unat ?n" by (simp add: size_le_iff)
    then have "capacity b - write_index b < ?n"
      using unat_writable_inv [OF i] by (simp add: size_less_iff)
    then obtain b' where "Buffer_grow ?n b = Inr b'" "grown ?n b b'"
      using Buffer_grow_realloc [OF i, of ?n] Buffer_grow_move [OF i, of ?n] g u by fastforce
    then show ?thesis using False u by (auto simp: Buffer_Reserve_def grown_def)
  qed
qed

section \<open>Reading from a descriptor\<close>

lemma Buffer_ReadFromFD_inv:
  assumes i: "buf_inv b" and g: "can_grow b (length bs)" and r: "readv_ok readv"
    and d: "readv (unat (capacity b) - unat (write_index b))
      (if unat (capacity b) - unat (write_index b) < extrabuf_size then extrabuf_size else 0) = Inr bs"
  shows "\<exists>b'. Buffer_ReadFromFD readv b = Inr (Inr (length bs), b') \<and> buf_inv b' \<and>
    contents b' = contents b @ bs"
proof -
  let ?w = "unat (capacity b) - unat (write_index b)"
  have w: "unat (write_index b) \<le> unat (capacity b)" using i by (simp add: buf_inv_def)
  have l: "length bs \<le> ?w + extrabuf_size" 
    using r d by (force simp: readv_ok_def split: if_splits)
  note f = store_inv [OF i, of "take ?w bs"]
  show ?thesis
  proof (cases "length bs \<le> ?w")
    case True
    then show ?thesis
      using d f w by (simp add: Buffer_ReadFromFD_def Buffer_WritableBytes_inv [OF i]
          unat_writable_inv [OF i] Let_def)
  next
    case False
    define e where "e = b\<lparr>storage := splice_at (unat (write_index b)) (map Some (take ?w bs)) (storage b),
      write_index := write_index b + of_nat (length (take ?w bs))\<rparr>"
    have e: "buf_inv e" "contents e = contents b @ take ?w bs"
      "mem_write (unat (write_index b)) (map Some (take ?w bs)) (storage b) = Inr (storage e)"
      using f False w by (simp_all add: e_def)
    have "unat (write_index e) = unat (capacity b)" and c: "capacity e = capacity b"
      using f(5) False w by (simp_all add: e_def)
    then have "write_index e = capacity b" by (simp only: unsigned_word_eqI)
    then have e': "b\<lparr>storage := storage e, write_index := capacity b\<rparr> = e"
      by (simp add: e_def)
    have "can_grow e (length (drop ?w bs))"
      using g l c e(2) False by (simp add: can_grow_def e_def)
    then obtain b' where "Buffer_Write (drop ?w bs) e = Inr b'" "buf_inv b'" "contents b' = contents b @ bs"
      using Buffer_Write_inv [OF e(1), of "drop ?w bs"] e(2) by auto
    then show ?thesis
      using d e e' False by (simp add: Buffer_ReadFromFD_def Buffer_WritableBytes_inv [OF i]
          unat_writable_inv [OF i] Let_def Buffer_Append_def)
  qed
qed

section \<open>Searching\<close>

lemma std_search_le: "std_search pat xs \<le> length xs"
  by (induction xs) auto

lemma std_search_match:
  "std_search pat xs < length xs \<Longrightarrow> take (length pat) (drop (std_search pat xs) xs) = pat"
  by (induction xs) auto

lemma std_search_least:
  "j < std_search pat xs \<Longrightarrow> take (length pat) (drop j xs) \<noteq> pat"
  by (induction xs arbitrary: j) (auto simp: less_Suc_eq_0_disj split: if_splits)

lemma Buffer_FindCRLF_inv:
  assumes i: "buf_inv b"
  shows "Buffer_FindCRLF b =
    (let k = std_search kCRLF (contents b) in
     Inr (if k = length (contents b) then None else Some (read_index b + of_nat k)))"
proof -
  let ?k = "std_search kCRLF (contents b)"
  have k: "?k \<le> length (contents b)" by (rule std_search_le)
  note x = buf_inv_index [OF i]
  have r: "mem_read (unat (read_index b)) (unat (write_index b) - unat (read_index b)) (storage b)
      = Inr (map Some (contents b))"
    using readable_cells [OF i] x by (simp add: unat_length_inv [OF i])
  have u: "unat (read_index b + of_nat ?k) = unat (read_index b) + ?k"
    using k x unat_size_bound [of "write_index b"]
    by (subst unat_add_size) (simp_all add: unat_of_nat_size)
  then have "read_index b + of_nat ?k = write_index b \<longleftrightarrow> ?k = length (contents b)"
    using x by (simp add: size_eq_iff)
  then show ?thesis by (simp add: Buffer_FindCRLF_def r Let_def)
qed

section \<open>The buffer as a byte queue\<close>

text \<open>What the rest of the library relies on when it uses a buffer as a first-in-first-out
  queue: writing appends, \<^verbatim>\<open>Next\<close> and \<^verbatim>\<open>Skip\<close> remove from the front, \<^verbatim>\<open>Truncate\<close> drops from the
  back. \<open>qop\<close> is a request, \<open>spec_step\<close> its meaning on the list of bytes, \<open>written\<close> the
  number of bytes a sequence of requests writes. The interface laws are the assumptions of the locale.\<close>

datatype qop = QWrite "byte list" | QNext size_t | QSkip size_t | QTruncate size_t

fun spec_step :: "qop \<Rightarrow> byte list \<Rightarrow> byte list \<times> byte list" where
  "spec_step (QWrite xs) q = ([], q @ xs)"
| "spec_step (QNext n) q = (take (unat n) q, drop (unat n) q)"
| "spec_step (QSkip n) q = ([], drop (unat n) q)"
| "spec_step (QTruncate n) q = ([], take (unat n) q)"

fun spec_run :: "qop list \<Rightarrow> byte list \<Rightarrow> byte list list \<times> byte list" where
  "spec_run [] q = ([], q)"
| "spec_run (p # ps) q =
     (let (x, q') = spec_step p q; (xs, q'') = spec_run ps q' in (x # xs, q''))"

fun written :: "qop list \<Rightarrow> nat" where
  "written [] = 0"
| "written (QWrite xs # ps) = length xs + written ps"
| "written (p # ps) = written ps"

fun small_truncates :: "qop list \<Rightarrow> bool" where
  "small_truncates [] \<longleftrightarrow> True"
| "small_truncates (QTruncate n # ps) \<longleftrightarrow> unat n < 2 ^ 63 \<and> small_truncates ps"
| "small_truncates (p # ps) \<longleftrightarrow> small_truncates ps"

definition queue_step ::
  "(byte list \<Rightarrow> 'b \<Rightarrow> 'b result) \<Rightarrow> (size_t \<Rightarrow> 'b \<Rightarrow> (byte list \<times> 'b) result) \<Rightarrow>
   (size_t \<Rightarrow> 'b \<Rightarrow> 'b result) \<Rightarrow> (size_t \<Rightarrow> 'b \<Rightarrow> 'b) \<Rightarrow> qop \<Rightarrow> 'b \<Rightarrow> (byte list \<times> 'b) result" where
  "queue_step put nxt skip trunc p b =
     (case p of QWrite xs \<Rightarrow> ebind (put xs b) (\<lambda>b'. Inr ([], b'))
      | QNext n \<Rightarrow> nxt n b
      | QSkip n \<Rightarrow> ebind (skip n b) (\<lambda>b'. Inr ([], b'))
      | QTruncate n \<Rightarrow> Inr ([], trunc n b))"

fun queue_run ::
  "(qop \<Rightarrow> 'b \<Rightarrow> (byte list \<times> 'b) result) \<Rightarrow> qop list \<Rightarrow> 'b \<Rightarrow> (byte list list \<times> 'b) result" where
  "queue_run step [] b = Inr ([], b)"
| "queue_run step (p # ps) b =
     ebind (step p b) (\<lambda>(x, b'). ebind (queue_run step ps b') (\<lambda>(xs, b''). Inr (x # xs, b'')))"

locale byte_queue =
  fixes inv :: "'b \<Rightarrow> bool" and abs :: "'b \<Rightarrow> byte list" and res :: "'b \<Rightarrow> nat"
    and put :: "byte list \<Rightarrow> 'b \<Rightarrow> 'b result"
    and nxt :: "size_t \<Rightarrow> 'b \<Rightarrow> (byte list \<times> 'b) result"
    and skip :: "size_t \<Rightarrow> 'b \<Rightarrow> 'b result"
    and trunc :: "size_t \<Rightarrow> 'b \<Rightarrow> 'b"
  assumes write_law: "inv b \<Longrightarrow> 2 * res b + 3 * (length (abs b) + length xs) < 2 ^ 63 \<Longrightarrow>
      \<exists>b'. put xs b = Inr b' \<and> inv b' \<and> abs b' = abs b @ xs \<and> res b' = res b"
    and next_law: "inv b \<Longrightarrow> \<exists>b'. nxt n b = Inr (take (unat n) (abs b), b') \<and> inv b' \<and>
      abs b' = drop (unat n) (abs b) \<and> res b' = res b"
    and skip_law: "inv b \<Longrightarrow> \<exists>b'. skip n b = Inr b' \<and> inv b' \<and>
      abs b' = drop (unat n) (abs b) \<and> res b' = res b"
    and trunc_law: "inv b \<Longrightarrow> unat n < 2 ^ 63 \<Longrightarrow> inv (trunc n b) \<and>
      abs (trunc n b) = take (unat n) (abs b) \<and> res (trunc n b) = res b"
begin

abbreviation step :: "qop \<Rightarrow> 'b \<Rightarrow> (byte list \<times> 'b) result" where
  "step \<equiv> queue_step put nxt skip trunc"

lemma step_refines:
  assumes "inv b" "small_truncates (p # ps)" "2 * res b + 3 * (length (abs b) + written (p # ps)) < 2 ^ 63"
  shows "\<exists>b'. step p b = Inr (fst (spec_step p (abs b)), b') \<and> inv b' \<and>
    abs b' = snd (spec_step p (abs b)) \<and> small_truncates ps \<and>
    2 * res b' + 3 * (length (abs b') + written ps) < 2 ^ 63"
proof (cases p)
  case (QWrite xs)
  then show ?thesis using assms write_law [of b xs] by (auto simp: queue_step_def algebra_simps)
next
  case (QNext n)
  then show ?thesis using assms next_law [OF assms(1), of n] by (fastforce simp: queue_step_def)
next
  case (QSkip n)
  then show ?thesis using assms skip_law [OF assms(1), of n] by (fastforce simp: queue_step_def)
next
  case (QTruncate n)
  then show ?thesis using assms trunc_law [of b n] by (simp add: queue_step_def)
qed

theorem run_refines:
  assumes "inv b" "small_truncates ps" "2 * res b + 3 * (length (abs b) + written ps) < 2 ^ 63"
  shows "\<exists>b'. queue_run step ps b = Inr (fst (spec_run ps (abs b)), b') \<and> inv b' \<and>
    abs b' = snd (spec_run ps (abs b))"
  using assms
proof (induction ps arbitrary: b)
  case Nil
  then show ?case by simp
next
  case (Cons p ps)
  then obtain b' where s: "step p b = Inr (fst (spec_step p (abs b)), b')" "inv b'"
    "abs b' = snd (spec_step p (abs b))" "small_truncates ps"
    "2 * res b' + 3 * (length (abs b') + written ps) < 2 ^ 63"
    using step_refines [OF Cons.prems] by blast
  from Cons.IH [OF s(2,4,5)] s show ?case
    by (auto simp: Let_def split: prod.splits)
qed

end

lemma Buffer_Next_reserved: "Buffer_Next n b = Inr (x, b') \<Longrightarrow> buf_reserved b' = buf_reserved b"
  by (auto simp: Buffer_Next_def Buffer_NextAll_def Buffer_Reset_def Buffer_Truncate_def
      ebind_Inr_iff split: if_splits)

lemma Buffer_Skip_reserved: "Buffer_Skip n b = Inr b' \<Longrightarrow> buf_reserved b' = buf_reserved b"
  by (auto simp: Buffer_Skip_def Buffer_Reset_def Buffer_Truncate_def ebind_Inr_iff split: if_splits)

interpretation bq: byte_queue buf_inv contents "\<lambda>b. unat (buf_reserved b)" Buffer_Write Buffer_Next
  Buffer_Skip Buffer_Truncate
proof
  fix b :: buffer and xs :: "byte list" and n :: size_t
  assume i: "buf_inv b"
  show "2 * unat (buf_reserved b) + 3 * (length (contents b) + length xs) < 2 ^ 63 \<Longrightarrow>
    \<exists>b'. Buffer_Write xs b = Inr b' \<and> buf_inv b' \<and> contents b' = contents b @ xs \<and>
      unat (buf_reserved b') = unat (buf_reserved b)"
    using Buffer_Write_inv [OF i, of xs] by (auto simp: can_grow_def)
  show "\<exists>b'. Buffer_Next n b = Inr (take (unat n) (contents b), b') \<and> buf_inv b' \<and>
      contents b' = drop (unat n) (contents b) \<and> unat (buf_reserved b') = unat (buf_reserved b)"
    using Buffer_Next_inv [OF i, of n] Buffer_Next_reserved by fastforce
  show "\<exists>b'. Buffer_Skip n b = Inr b' \<and> buf_inv b' \<and>
      contents b' = drop (unat n) (contents b) \<and> unat (buf_reserved b') = unat (buf_reserved b)"
    using Buffer_Skip_inv [OF i, of n] Buffer_Skip_reserved by fastforce
  show "unat n < 2 ^ 63 \<Longrightarrow> buf_inv (Buffer_Truncate n b) \<and>
      contents (Buffer_Truncate n b) = take (unat n) (contents b) \<and>
      unat (buf_reserved (Buffer_Truncate n b)) = unat (buf_reserved b)"
    using i Buffer_Truncate_inv [OF i, of n] by (auto simp: buf_inv_def Buffer_Truncate_def)
qed

section \<open>Properties\<close>

text \<open>A buffer with a reserved prefix of 8 bytes, \<open>abc\<close> as its readable bytes and 5 free
  bytes, on which the properties are evaluated.\<close>

definition sample_buffer :: buffer where
  "sample_buffer = \<lparr>storage =
       [None, None, None, None, None, None, None, None, Some (CHR ''a''), Some (CHR ''b''), Some (CHR ''c''),
        None, None, None, None, None],
     capacity = 16, read_index = 8, write_index = 11, buf_reserved = 8\<rparr>"

lemma sample_buffer_simps [simp]:
  "buf_inv sample_buffer" "contents sample_buffer = ''abc''" "capacity sample_buffer = 16"
  "read_index sample_buffer = 8" "write_index sample_buffer = 11" "buf_reserved sample_buffer = 8"
  by (simp_all add: sample_buffer_def buf_inv_def contents_def range_of_def)

text \<open>C5. Any sequence of writes, reads, skips and truncations on a buffer gives the results and
  leaves the unread bytes that the same sequence gives on a plain list, with no assertion failing
  and no access outside the array, as long as three times the bytes unread and written
  stay below the largest object size and no argument of \<^verbatim>\<open>Truncate\<close> is $2^{63}$ or more
  (\<open>small_truncates\<close>; a larger one can wrap around, see \<open>Buffer_Truncate_wraps\<close>).\<close>

theorem Buffer_queue_refines:
  assumes "buf_inv b" "small_truncates ps" 
    "2 * unat (buf_reserved b) + 3 * (length (contents b) + written ps) < 2 ^ 63"
  shows "\<exists>b'. queue_run (queue_step Buffer_Write Buffer_Next Buffer_Skip Buffer_Truncate) ps b
      = Inr (fst (spec_run ps (contents b)), b') \<and> buf_inv b' \<and>
    contents b' = snd (spec_run ps (contents b))"
  using assms by (rule bq.run_refines)

theorem Buffer_queue_refines_witness:
  "\<exists>b'. queue_run (queue_step Buffer_Write Buffer_Next Buffer_Skip Buffer_Truncate)
      [QWrite ''defghijkl'', QNext 2, QTruncate 3] sample_buffer = Inr ([[], ''ab'', []], b') \<and>
    buf_inv b' \<and> contents b' = ''cde''"
  using Buffer_queue_refines [of sample_buffer "[QWrite ''defghijkl'', QNext 2, QTruncate 3]"]
  by simp

text \<open>\<^verbatim>\<open>ReadFromFD\<close> appends to the unread bytes exactly what the kernel stored in the two
  vectors and returns their number, also when the data overflows the free part of the array into
  the stack buffer.\<close>

theorem Buffer_ReadFromFD_appends:
  assumes "buf_inv b" "can_grow b (length bs)" "readv_ok readv"
    "readv (unat (capacity b) - unat (write_index b))
      (if unat (capacity b) - unat (write_index b) < extrabuf_size then extrabuf_size else 0) = Inr bs"
  shows "\<exists>b'. Buffer_ReadFromFD readv b = Inr (Inr (length bs), b') \<and> buf_inv b' \<and>
    contents b' = contents b @ bs"
  using assms by (rule Buffer_ReadFromFD_inv)

theorem Buffer_ReadFromFD_appends_witness:
  "\<exists>b'. Buffer_ReadFromFD (\<lambda>n m. Inr (take (n + m) ''0123456789'')) sample_buffer
      = Inr (Inr 10, b') \<and> buf_inv b' \<and> contents b' = ''abc0123456789''"
  using Buffer_ReadFromFD_appends [of sample_buffer "''0123456789''" "\<lambda>n m. Inr (take (n + m) ''0123456789'')"]
  by (simp add: can_grow_def extrabuf_size_def readv_ok_def) (simp add: eval_nat_numeral)

text \<open>Integers survive the trip through a buffer: a prepended integer is read back unchanged
  and leaves the buffer as it was; this holds at each of the four widths.\<close>

theorem Buffer_PrependInt_ReadInt:
  assumes "buf_inv b" "8 \<le> unat (read_index b)"
  shows "(\<exists>b1 b2. Buffer_PrependInt64 x b = Inr b1 \<and> Buffer_ReadInt64 b1 = Inr (x, b2) \<and>
      buf_inv b2 \<and> contents b2 = contents b) \<and>
    (\<exists>b1 b2. Buffer_PrependInt32 y b = Inr b1 \<and> Buffer_ReadInt32 b1 = Inr (y, b2) \<and>
      buf_inv b2 \<and> contents b2 = contents b) \<and>
    (\<exists>b1 b2. Buffer_PrependInt16 z b = Inr b1 \<and> Buffer_ReadInt16 b1 = Inr (z, b2) \<and>
      buf_inv b2 \<and> contents b2 = contents b) \<and>
    (\<exists>b1 b2. Buffer_PrependInt8 c b = Inr b1 \<and> Buffer_ReadInt8 b1 = Inr (c, b2) \<and>
      buf_inv b2 \<and> contents b2 = contents b)" (is "?A \<and> ?B \<and> ?C \<and> ?D")
proof (intro conjI)
  note p = Buffer_Prepend_inv [OF assms(1)]
  show ?A using p [of "le_bytes 8 (evppbswap_64 x)"] Buffer_ReadInt_inv(1) assms
    by (fastforce simp: Buffer_PrependInt64_def)
  show ?B using p [of "le_bytes 4 (htonl y)"] Buffer_ReadInt_inv(2) assms
    by (fastforce simp: Buffer_PrependInt32_def)
  show ?C using p [of "le_bytes 2 (htons z)"] Buffer_ReadInt_inv(3) assms
    by (fastforce simp: Buffer_PrependInt16_def)
  show ?D using p [of "le_bytes 1 c"] Buffer_ReadInt_inv(4) assms
    by (fastforce simp: Buffer_PrependInt8_def)
qed

theorem Buffer_PrependInt_ReadInt_witness:
  "\<exists>b1 b2. Buffer_PrependInt64 0x0102030405060708 sample_buffer = Inr b1 \<and>
     Buffer_ReadInt64 b1 = Inr (0x0102030405060708, b2) \<and> buf_inv b2 \<and> contents b2 = ''abc''"
  using Buffer_PrependInt_ReadInt [of sample_buffer "0x0102030405060708" 0 0 0]
  by (simp only: sample_buffer_simps) simp

text \<open>\<^verbatim>\<open>AppendInt64\<close>, \<^verbatim>\<open>AppendInt32\<close> and \<^verbatim>\<open>AppendInt16\<close> append the bytes of the integer with the
  most significant one first (network byte order).\<close>

theorem Buffer_AppendInt_big_endian:
  assumes "buf_inv b" "can_grow b 8"
  shows "(\<exists>b'. Buffer_AppendInt64 x b = Inr b' \<and> buf_inv b' \<and>
      contents b' = contents b @ rev (le_bytes 8 x)) \<and>
    (\<exists>b'. Buffer_AppendInt32 y b = Inr b' \<and> buf_inv b' \<and>
      contents b' = contents b @ rev (le_bytes 4 y)) \<and>
    (\<exists>b'. Buffer_AppendInt16 z b = Inr b' \<and> buf_inv b' \<and>
      contents b' = contents b @ rev (le_bytes 2 z))" (is "?A \<and> ?B \<and> ?C")
proof (intro conjI)
  have g: "can_grow b 4" "can_grow b 2" using assms(2) by (simp_all add: can_grow_def)
  note w = Buffer_Write_inv [OF assms(1)]
  show ?A using w [of "rev (le_bytes 8 x)"] assms(2) by (auto simp: Buffer_AppendInt64_def network_bytes)
  show ?B using w [of "rev (le_bytes 4 y)"] g by (auto simp: Buffer_AppendInt32_def network_bytes)
  show ?C using w [of "rev (le_bytes 2 z)"] g by (auto simp: Buffer_AppendInt16_def network_bytes)
qed

theorem Buffer_AppendInt_big_endian_witness:
  "\<exists>b'. Buffer_AppendInt32 0x41424344 sample_buffer = Inr b' \<and> buf_inv b' \<and> contents b' = ''abcABCD''"
proof -
  have "le_bytes 4 (0x41424344 :: 32 word) = ''DCBA''"
    by (simp add: le_bytes_def upt_rec drop_bit_eq_div char_of_def bit_Suc_0_iff)
  then show ?thesis
    using Buffer_AppendInt_big_endian [of sample_buffer 0 "0x41424344" 0] by (simp add: can_grow_def)
qed

text \<open>\<^verbatim>\<open>FindCRLF\<close> returns the position of the first carriage return that a line feed
  follows in the unread bytes, and the null pointer exactly when there is none.\<close>

theorem Buffer_FindCRLF_first:
  assumes "buf_inv b"
  shows "(Buffer_FindCRLF b = Inr None \<and>
      \<not> (\<exists>j. take 2 (drop j (contents b)) = kCRLF)) \<or>
    (\<exists>k. Buffer_FindCRLF b = Inr (Some (read_index b + of_nat k)) \<and>
      take 2 (drop k (contents b)) = kCRLF \<and> \<not> (\<exists>j<k. take 2 (drop j (contents b)) = kCRLF))"
proof (cases "std_search kCRLF (contents b) = length (contents b)")
  case True
  have "take 2 (drop j (contents b)) \<noteq> kCRLF" for j
    using std_search_least [of j kCRLF "contents b"] True
    by (cases "j < length (contents b)") (auto simp: kCRLF_def numeral_2_eq_2)
  then show ?thesis using True by (simp add: Buffer_FindCRLF_inv [OF assms])
next
  case False
  then have "std_search kCRLF (contents b) < length (contents b)"
    using std_search_le [of kCRLF "contents b"] by simp
  then show ?thesis
    using False std_search_match [of kCRLF "contents b"] std_search_least [of _ kCRLF "contents b"]
    by (simp add: Buffer_FindCRLF_inv [OF assms] kCRLF_def numeral_2_eq_2) blast
qed

theorem Buffer_FindCRLF_first_witness:
  "(Buffer_FindCRLF sample_buffer = Inr None \<and>
      \<not> (\<exists>j. take 2 (drop j ''abc'') = kCRLF)) \<or>
    (\<exists>k. Buffer_FindCRLF sample_buffer = Inr (Some (8 + of_nat k)) \<and>
      take 2 (drop k ''abc'') = kCRLF \<and> \<not> (\<exists>j<k. take 2 (drop j ''abc'') = kCRLF))"
  using Buffer_FindCRLF_first [of sample_buffer] by (simp only: sample_buffer_simps)

text \<open>\<^verbatim>\<open>Shrink\<close> keeps the unread bytes and makes the array exactly as large as they, the
  requested reserve and the standard prefix need; \<^verbatim>\<open>Reserve\<close> keeps them and makes the array at
  least as large as asked.\<close>

theorem Buffer_Shrink_Reserve:
  assumes "buf_inv b" "can_grow b (unat n + unat (buf_reserved b))"
    "length (contents b) + unat n + 8 < 2 ^ 63"
  shows "(\<exists>b'. Buffer_Shrink n b = Inr b' \<and> buf_inv b' \<and> contents b' = contents b \<and>
      unat (capacity b') = 8 + length (contents b) + unat n) \<and>
    (\<exists>b'. Buffer_Reserve n b = Inr b' \<and> buf_inv b' \<and> contents b' = contents b \<and>
      unat n + unat (buf_reserved b) \<le> unat (capacity b'))"
  using Buffer_Shrink_inv [OF assms(1,3)] Buffer_Reserve_inv [OF assms(1,2)] by blast

theorem Buffer_Shrink_Reserve_witness:
  "(\<exists>b'. Buffer_Shrink 0 sample_buffer = Inr b' \<and> buf_inv b' \<and> contents b' = ''abc'' \<and>
      unat (capacity b') = 11)"
  using Buffer_Shrink_Reserve [of sample_buffer 0] by (simp add: can_grow_def)

text \<open>\<^verbatim>\<open>Truncate(n)\<close> is documented to do nothing when \<open>n\<close> exceeds the length of the buffer;
  for \<open>n\<close> near the top of \<^verbatim>\<open>size_t\<close> the sum \<^verbatim>\<open>read_index_ + n\<close> wraps around, the write index
  falls below the read index and the next call of \<^verbatim>\<open>length()\<close> fails its assertion.\<close>

theorem Buffer_Truncate_wraps:
  "buf_inv sample_buffer \<and> length (contents sample_buffer) < unat (0xFFFFFFFFFFFFFFFF :: size_t) \<and>
   Buffer_length (Buffer_Truncate 0xFFFFFFFFFFFFFFFF sample_buffer) = Inl AssertFail"
  by (simp add: Buffer_Truncate_def Buffer_length_def)

end
