(* ===== verification/Http_Tables.thy ===== *)
theory Http_Tables
  imports Prelude
begin

text \<open>
  The constants of the HTTP parser (include/eventpp/evpphttp/http_parser.hpp and the first part
  of src/evpphttp/http_parser.cpp): the enumerations, the method names, the three character
  tables and the character-class macros, for the build without \<^verbatim>\<open>HTTP_PARSER_STRICT\<close>. The
  constructors carry the names of the source; the numeric value of a state, on which
  \<^verbatim>\<open>PARSING_HEADER\<close> depends, is \<open>state_val\<close>. An array of 256 entries with 128 initialisers has
  zeros in its upper half.
\<close>

section \<open>Enumerations\<close>

datatype (plugins only: code size) state =
    s_dead | s_pre_start_req_or_res | s_start_req_or_res | s_res_or_resp_H
  | s_pre_start_res | s_start_res | s_res_H | s_res_HT
  | s_res_HTT | s_res_HTTP | s_res_first_http_major | s_res_http_major
  | s_res_first_http_minor | s_res_http_minor | s_res_first_status_code | s_res_status_code
  | s_res_status_start | s_res_status | s_res_line_almost_done | s_pre_start_req
  | s_start_req | s_req_method | s_req_spaces_before_url | s_req_schema
  | s_req_schema_slash | s_req_schema_slash_slash | s_req_server_start | s_req_server
  | s_req_server_with_at | s_req_host_start | s_req_host | s_req_host_ipv6
  | s_req_host_done | s_req_port | s_req_path | s_req_query_string_start
  | s_req_query_string | s_req_fragment_start | s_req_fragment | s_req_http_start
  | s_req_http_H | s_req_http_HT | s_req_http_HTT | s_req_http_HTTP
  | s_req_first_http_major | s_req_http_major | s_req_first_http_minor | s_req_http_minor
  | s_req_line_almost_done | s_header_field_start | s_header_field | s_header_value_start
  | s_header_value | s_header_value_lws | s_header_almost_done | s_chunk_size_start
  | s_chunk_size | s_chunk_parameters | s_chunk_size_almost_done | s_headers_almost_done
  | s_headers_done | s_chunk_data | s_chunk_data_almost_done | s_chunk_data_done
  | s_body_identity | s_body_identity_eof | s_message_done

primrec state_val :: "state \<Rightarrow> nat" where
  "state_val s_dead = 1"
| "state_val s_pre_start_req_or_res = 2"
| "state_val s_start_req_or_res = 3"
| "state_val s_res_or_resp_H = 4"
| "state_val s_pre_start_res = 5"
| "state_val s_start_res = 6"
| "state_val s_res_H = 7"
| "state_val s_res_HT = 8"
| "state_val s_res_HTT = 9"
| "state_val s_res_HTTP = 10"
| "state_val s_res_first_http_major = 11"
| "state_val s_res_http_major = 12"
| "state_val s_res_first_http_minor = 13"
| "state_val s_res_http_minor = 14"
| "state_val s_res_first_status_code = 15"
| "state_val s_res_status_code = 16"
| "state_val s_res_status_start = 17"
| "state_val s_res_status = 18"
| "state_val s_res_line_almost_done = 19"
| "state_val s_pre_start_req = 20"
| "state_val s_start_req = 21"
| "state_val s_req_method = 22"
| "state_val s_req_spaces_before_url = 23"
| "state_val s_req_schema = 24"
| "state_val s_req_schema_slash = 25"
| "state_val s_req_schema_slash_slash = 26"
| "state_val s_req_server_start = 27"
| "state_val s_req_server = 28"
| "state_val s_req_server_with_at = 29"
| "state_val s_req_host_start = 30"
| "state_val s_req_host = 31"
| "state_val s_req_host_ipv6 = 32"
| "state_val s_req_host_done = 33"
| "state_val s_req_port = 34"
| "state_val s_req_path = 35"
| "state_val s_req_query_string_start = 36"
| "state_val s_req_query_string = 37"
| "state_val s_req_fragment_start = 38"
| "state_val s_req_fragment = 39"
| "state_val s_req_http_start = 40"
| "state_val s_req_http_H = 41"
| "state_val s_req_http_HT = 42"
| "state_val s_req_http_HTT = 43"
| "state_val s_req_http_HTTP = 44"
| "state_val s_req_first_http_major = 45"
| "state_val s_req_http_major = 46"
| "state_val s_req_first_http_minor = 47"
| "state_val s_req_http_minor = 48"
| "state_val s_req_line_almost_done = 49"
| "state_val s_header_field_start = 50"
| "state_val s_header_field = 51"
| "state_val s_header_value_start = 52"
| "state_val s_header_value = 53"
| "state_val s_header_value_lws = 54"
| "state_val s_header_almost_done = 55"
| "state_val s_chunk_size_start = 56"
| "state_val s_chunk_size = 57"
| "state_val s_chunk_parameters = 58"
| "state_val s_chunk_size_almost_done = 59"
| "state_val s_headers_almost_done = 60"
| "state_val s_headers_done = 61"
| "state_val s_chunk_data = 62"
| "state_val s_chunk_data_almost_done = 63"
| "state_val s_chunk_data_done = 64"
| "state_val s_body_identity = 65"
| "state_val s_body_identity_eof = 66"
| "state_val s_message_done = 67"

definition PARSING_HEADER :: "state \<Rightarrow> bool" where
  "PARSING_HEADER s \<longleftrightarrow> state_val s \<le> state_val s_headers_done"

datatype header_states =
    h_general | h_general_and_quote | h_general_and_quote_and_escape
  | h_matching_content_length | h_matching_transfer_encoding | h_matching_upgrade
  | h_content_length | h_transfer_encoding | h_upgrade
  | h_matching_transfer_encoding_chunked | h_transfer_encoding_chunked

datatype http_host_state =
    s_http_host_dead | s_http_userinfo_start | s_http_userinfo
  | s_http_host_start | s_http_host_v6_start | s_http_host
  | s_http_host_v6 | s_http_host_v6_end | s_http_host_port_start
  | s_http_host_port

datatype (plugins only: code size) http_method =
    HTTP_DELETE | HTTP_GET | HTTP_HEAD | HTTP_POST
  | HTTP_PUT | HTTP_CONNECT | HTTP_OPTIONS | HTTP_TRACE
  | HTTP_COPY | HTTP_LOCK | HTTP_MKCOL | HTTP_MOVE
  | HTTP_PROPFIND | HTTP_PROPPATCH | HTTP_UNLOCK | HTTP_REPORT
  | HTTP_MKACTIVITY | HTTP_CHECKOUT | HTTP_MERGE | HTTP_MSEARCH
  | HTTP_NOTIFY | HTTP_SUBSCRIBE | HTTP_UNSUBSCRIBE | HTTP_PATCH

datatype http_parser_type = HTTP_REQUEST | HTTP_RESPONSE | HTTP_BOTH

datatype (plugins only: code size) http_errno =
    HPE_OK | HPE_CB_message_begin | HPE_CB_path
  | HPE_CB_query_string | HPE_CB_url | HPE_CB_fragment
  | HPE_CB_header_field | HPE_CB_header_value | HPE_CB_headers_complete
  | HPE_CB_body | HPE_CB_message_complete | HPE_CB_reason
  | HPE_CB_chunk_header | HPE_CB_chunk_complete | HPE_INVALID_EOF_STATE
  | HPE_HEADER_OVERFLOW | HPE_CLOSED_CONNECTION | HPE_INVALID_VERSION
  | HPE_INVALID_STATUS | HPE_INVALID_METHOD | HPE_INVALID_URL
  | HPE_INVALID_HOST | HPE_INVALID_PORT | HPE_INVALID_PATH
  | HPE_INVALID_QUERY_STRING | HPE_INVALID_FRAGMENT | HPE_LF_EXPECTED
  | HPE_INVALID_HEADER_TOKEN | HPE_INVALID_CONTENT_LENGTH | HPE_HUGE_CONTENT_LENGTH
  | HPE_INVALID_CHUNK_SIZE | HPE_HUGE_CHUNK_SIZE | HPE_INVALID_TRANSFER_ENCODING
  | HPE_INVALID_UPGRADE | HPE_INVALID_CONSTANT | HPE_INVALID_INTERNAL_STATE
  | HPE_STRICT | HPE_PAUSED | HPE_UNKNOWN

type_synonym flags = "6 word"

definition F_CHUNKED :: flags where "F_CHUNKED = push_bit 0 1"
definition F_TRAILING :: flags where "F_TRAILING = push_bit 3 1"
definition F_UPGRADE :: flags where "F_UPGRADE = push_bit 4 1"
definition F_SKIPBODY :: flags where "F_SKIPBODY = push_bit 5 1"

datatype http_parser_url_fields =
    UF_SCHEMA | UF_HOST | UF_PORT | UF_PATH | UF_QUERY | UF_FRAGMENT | UF_USERINFO | UF_MAX

fun uf_val :: "http_parser_url_fields \<Rightarrow> nat" where
  "uf_val UF_SCHEMA = 0" | "uf_val UF_HOST = 1" | "uf_val UF_PORT = 2" | "uf_val UF_PATH = 3"
| "uf_val UF_QUERY = 4" | "uf_val UF_FRAGMENT = 5" | "uf_val UF_USERINFO = 6" | "uf_val UF_MAX = 7"

definition HTTP_MAX_HEADER_SIZE :: nat where
  "HTTP_MAX_HEADER_SIZE = 80 * 1024"

definition INT64_MAX :: int where
  "INT64_MAX = 2 ^ 63 - 1"

section \<open>Strings\<close>

primrec method_strings :: "http_method \<Rightarrow> string" where
  "method_strings HTTP_DELETE = ''DELETE''"
| "method_strings HTTP_GET = ''GET''"
| "method_strings HTTP_HEAD = ''HEAD''"
| "method_strings HTTP_POST = ''POST''"
| "method_strings HTTP_PUT = ''PUT''"
| "method_strings HTTP_CONNECT = ''CONNECT''"
| "method_strings HTTP_OPTIONS = ''OPTIONS''"
| "method_strings HTTP_TRACE = ''TRACE''"
| "method_strings HTTP_COPY = ''COPY''"
| "method_strings HTTP_LOCK = ''LOCK''"
| "method_strings HTTP_MKCOL = ''MKCOL''"
| "method_strings HTTP_MOVE = ''MOVE''"
| "method_strings HTTP_PROPFIND = ''PROPFIND''"
| "method_strings HTTP_PROPPATCH = ''PROPPATCH''"
| "method_strings HTTP_UNLOCK = ''UNLOCK''"
| "method_strings HTTP_REPORT = ''REPORT''"
| "method_strings HTTP_MKACTIVITY = ''MKACTIVITY''"
| "method_strings HTTP_CHECKOUT = ''CHECKOUT''"
| "method_strings HTTP_MERGE = ''MERGE''"
| "method_strings HTTP_MSEARCH = ''M-SEARCH''"
| "method_strings HTTP_NOTIFY = ''NOTIFY''"
| "method_strings HTTP_SUBSCRIBE = ''SUBSCRIBE''"
| "method_strings HTTP_UNSUBSCRIBE = ''UNSUBSCRIBE''"
| "method_strings HTTP_PATCH = ''PATCH''"

primrec http_strerror_tab :: "http_errno \<Rightarrow> string \<times> string" where
  "http_strerror_tab HPE_OK = (''HPE_OK'', ''success'')"
| "http_strerror_tab HPE_CB_message_begin = (''HPE_CB_message_begin'', ''the on_message_begin callback failed'')"
| "http_strerror_tab HPE_CB_path = (''HPE_CB_path'', ''the on_path callback failed'')"
| "http_strerror_tab HPE_CB_query_string = (''HPE_CB_query_string'', ''the on_query_string callback failed'')"
| "http_strerror_tab HPE_CB_url = (''HPE_CB_url'', ''the on_url callback failed'')"
| "http_strerror_tab HPE_CB_fragment = (''HPE_CB_fragment'', ''the on_fragment callback failed'')"
| "http_strerror_tab HPE_CB_header_field = (''HPE_CB_header_field'', ''the on_header_field callback failed'')"
| "http_strerror_tab HPE_CB_header_value = (''HPE_CB_header_value'', ''the on_header_value callback failed'')"
| "http_strerror_tab HPE_CB_headers_complete = (''HPE_CB_headers_complete'', ''the on_headers_complete callback failed'')"
| "http_strerror_tab HPE_CB_body = (''HPE_CB_body'', ''the on_body callback failed'')"
| "http_strerror_tab HPE_CB_message_complete = (''HPE_CB_message_complete'', ''the on_message_complete callback failed'')"
| "http_strerror_tab HPE_CB_reason = (''HPE_CB_reason'', ''the on_reason callback failed'')"
| "http_strerror_tab HPE_CB_chunk_header = (''HPE_CB_chunk_header'', ''the on_chunk_header callback failed'')"
| "http_strerror_tab HPE_CB_chunk_complete = (''HPE_CB_chunk_complete'', ''the on_chunk_complete callback failed'')"
| "http_strerror_tab HPE_INVALID_EOF_STATE = (''HPE_INVALID_EOF_STATE'', ''stream ended at an unexpected time'')"
| "http_strerror_tab HPE_HEADER_OVERFLOW = (''HPE_HEADER_OVERFLOW'', ''too many header bytes seen; overflow detected'')"
| "http_strerror_tab HPE_CLOSED_CONNECTION = (''HPE_CLOSED_CONNECTION'', ''data received after completed connection: close message'')"
| "http_strerror_tab HPE_INVALID_VERSION = (''HPE_INVALID_VERSION'', ''invalid HTTP version'')"
| "http_strerror_tab HPE_INVALID_STATUS = (''HPE_INVALID_STATUS'', ''invalid HTTP status code'')"
| "http_strerror_tab HPE_INVALID_METHOD = (''HPE_INVALID_METHOD'', ''invalid HTTP method'')"
| "http_strerror_tab HPE_INVALID_URL = (''HPE_INVALID_URL'', ''invalid URL'')"
| "http_strerror_tab HPE_INVALID_HOST = (''HPE_INVALID_HOST'', ''invalid host'')"
| "http_strerror_tab HPE_INVALID_PORT = (''HPE_INVALID_PORT'', ''invalid port'')"
| "http_strerror_tab HPE_INVALID_PATH = (''HPE_INVALID_PATH'', ''invalid path'')"
| "http_strerror_tab HPE_INVALID_QUERY_STRING = (''HPE_INVALID_QUERY_STRING'', ''invalid query string'')"
| "http_strerror_tab HPE_INVALID_FRAGMENT = (''HPE_INVALID_FRAGMENT'', ''invalid fragment'')"
| "http_strerror_tab HPE_LF_EXPECTED = (''HPE_LF_EXPECTED'', ''LF character expected'')"
| "http_strerror_tab HPE_INVALID_HEADER_TOKEN = (''HPE_INVALID_HEADER_TOKEN'', ''invalid character in header'')"
| "http_strerror_tab HPE_INVALID_CONTENT_LENGTH = (''HPE_INVALID_CONTENT_LENGTH'', ''invalid character in content-length header'')"
| "http_strerror_tab HPE_HUGE_CONTENT_LENGTH = (''HPE_HUGE_CONTENT_LENGTH'', ''content-length header too large'')"
| "http_strerror_tab HPE_INVALID_CHUNK_SIZE = (''HPE_INVALID_CHUNK_SIZE'', ''invalid character in chunk size header'')"
| "http_strerror_tab HPE_HUGE_CHUNK_SIZE = (''HPE_HUGE_CHUNK_SIZE'', ''chunk header size too large'')"
| "http_strerror_tab HPE_INVALID_TRANSFER_ENCODING = (''HPE_INVALID_TRANSFER_ENCODING'', ''invalid character in transfer-encoding header'')"
| "http_strerror_tab HPE_INVALID_UPGRADE = (''HPE_INVALID_UPGRADE'', ''invalid character in upgrade header'')"
| "http_strerror_tab HPE_INVALID_CONSTANT = (''HPE_INVALID_CONSTANT'', ''invalid constant string'')"
| "http_strerror_tab HPE_INVALID_INTERNAL_STATE = (''HPE_INVALID_INTERNAL_STATE'', ''encountered unexpected internal state'')"
| "http_strerror_tab HPE_STRICT = (''HPE_STRICT'', ''strict mode assertion failed'')"
| "http_strerror_tab HPE_PAUSED = (''HPE_PAUSED'', ''parser is paused'')"
| "http_strerror_tab HPE_UNKNOWN = (''HPE_UNKNOWN'', ''an unknown error occurred'')"

definition http_method_str :: "http_method \<Rightarrow> string" where
  "http_method_str m = method_strings m"

definition http_errno_name :: "http_errno \<Rightarrow> string" where
  "http_errno_name err = fst (http_strerror_tab err)"

definition http_errno_description :: "http_errno \<Rightarrow> string" where
  "http_errno_description err = snd (http_strerror_tab err)"

definition CONTENT_LENGTH :: string where "CONTENT_LENGTH = ''content-length''"
definition TRANSFER_ENCODING :: string where "TRANSFER_ENCODING = ''transfer-encoding''"
definition UPGRADE :: string where "UPGRADE = ''upgrade''"
definition CHUNKED :: string where "CHUNKED = ''chunked''"
definition SPACE :: string where "SPACE = '' ''"

text \<open>A character of a C string literal, whose array ends with a zero byte.\<close>

definition c_char :: "string \<Rightarrow> nat \<Rightarrow> byte result" where
  "c_char s i = (if i < length s then Inr (s ! i)
     else if i = length s then Inr (CHR 0x00) else Inl OutOfBounds)"

section \<open>Character tables\<close>

definition tokens :: "byte list" where
  "tokens = [
     CHR 0x00, CHR 0x00, CHR 0x00, CHR 0x00, CHR 0x00, CHR 0x00, CHR 0x00, CHR 0x00,
     CHR 0x00, CHR 0x00, CHR 0x00, CHR 0x00, CHR 0x00, CHR 0x00, CHR 0x00, CHR 0x00,
     CHR 0x00, CHR 0x00, CHR 0x00, CHR 0x00, CHR 0x00, CHR 0x00, CHR 0x00, CHR 0x00,
     CHR 0x00, CHR 0x00, CHR 0x00, CHR 0x00, CHR 0x00, CHR 0x00, CHR 0x00, CHR 0x00,
     CHR 0x00, CHR 0x21, CHR 0x00, CHR 0x23, CHR 0x24, CHR 0x25, CHR 0x26, CHR 0x27,
     CHR 0x00, CHR 0x00, CHR 0x2A, CHR 0x2B, CHR 0x00, CHR 0x2D, CHR 0x2E, CHR 0x00,
     CHR 0x30, CHR 0x31, CHR 0x32, CHR 0x33, CHR 0x34, CHR 0x35, CHR 0x36, CHR 0x37,
     CHR 0x38, CHR 0x39, CHR 0x00, CHR 0x00, CHR 0x00, CHR 0x00, CHR 0x00, CHR 0x00,
     CHR 0x00, CHR 0x61, CHR 0x62, CHR 0x63, CHR 0x64, CHR 0x65, CHR 0x66, CHR 0x67,
     CHR 0x68, CHR 0x69, CHR 0x6A, CHR 0x6B, CHR 0x6C, CHR 0x6D, CHR 0x6E, CHR 0x6F,
     CHR 0x70, CHR 0x71, CHR 0x72, CHR 0x73, CHR 0x74, CHR 0x75, CHR 0x76, CHR 0x77,
     CHR 0x78, CHR 0x79, CHR 0x7A, CHR 0x00, CHR 0x00, CHR 0x00, CHR 0x5E, CHR 0x5F,
     CHR 0x60, CHR 0x61, CHR 0x62, CHR 0x63, CHR 0x64, CHR 0x65, CHR 0x66, CHR 0x67,
     CHR 0x68, CHR 0x69, CHR 0x6A, CHR 0x6B, CHR 0x6C, CHR 0x6D, CHR 0x6E, CHR 0x6F,
     CHR 0x70, CHR 0x71, CHR 0x72, CHR 0x73, CHR 0x74, CHR 0x75, CHR 0x76, CHR 0x77,
     CHR 0x78, CHR 0x79, CHR 0x7A, CHR 0x00, CHR 0x7C, CHR 0x00, CHR 0x7E, CHR 0x00]
   @ replicate 128 (CHR 0x00)"

definition unhex :: "int list" where
  "unhex = [
     -1, -1, -1, -1, -1, -1, -1, -1, -1, -1, -1, -1, -1, -1, -1, -1,
     -1, -1, -1, -1, -1, -1, -1, -1, -1, -1, -1, -1, -1, -1, -1, -1,
     -1, -1, -1, -1, -1, -1, -1, -1, -1, -1, -1, -1, -1, -1, -1, -1,
     0, 1, 2, 3, 4, 5, 6, 7, 8, 9, -1, -1, -1, -1, -1, -1,
     -1, 10, 11, 12, 13, 14, 15, -1, -1, -1, -1, -1, -1, -1, -1, -1,
     -1, -1, -1, -1, -1, -1, -1, -1, -1, -1, -1, -1, -1, -1, -1, -1,
     -1, 10, 11, 12, 13, 14, 15, -1, -1, -1, -1, -1, -1, -1, -1, -1,
     -1, -1, -1, -1, -1, -1, -1, -1, -1, -1, -1, -1, -1, -1, -1, -1]
   @ replicate 128 0"

definition normal_url_char :: "nat list" where
  "normal_url_char = [
     0, 0, 0, 0, 0, 0, 0, 0, 0, 1, 0, 0, 1, 0, 0, 0,
     0, 0, 0, 0, 0, 0, 0, 0, 0, 0, 0, 0, 0, 0, 0, 0,
     0, 1, 1, 0, 1, 1, 1, 1, 1, 1, 1, 1, 1, 1, 1, 1,
     1, 1, 1, 1, 1, 1, 1, 1, 1, 1, 1, 1, 1, 1, 1, 0,
     1, 1, 1, 1, 1, 1, 1, 1, 1, 1, 1, 1, 1, 1, 1, 1,
     1, 1, 1, 1, 1, 1, 1, 1, 1, 1, 1, 1, 1, 1, 1, 1,
     1, 1, 1, 1, 1, 1, 1, 1, 1, 1, 1, 1, 1, 1, 1, 1,
     1, 1, 1, 1, 1, 1, 1, 1, 1, 1, 1, 1, 1, 1, 1, 0]
   @ replicate 128 0"

section \<open>Character classes\<close>

definition CR :: byte where "CR = CHR 0x0D"
definition LF :: byte where "LF = CHR 0x0A"
definition QT :: byte where "QT = CHR 0x22"
definition BS :: byte where "BS = CHR 0x5C"

text \<open>\<open>LOWER\<close> and \<open>TOKEN\<close> take the byte as an unsigned value, as the casts of the source do.\<close>

definition LOWER :: "byte \<Rightarrow> byte" where
  "LOWER c = char_of (of_char c OR (0x20 :: nat))"

definition TOKEN :: "byte \<Rightarrow> byte" where
  "TOKEN c = tokens ! of_char c"

definition IS_ALPHA :: "byte \<Rightarrow> bool" where
  "IS_ALPHA c \<longleftrightarrow> of_char (LOWER c) \<ge> (97 :: nat) \<and> of_char (LOWER c) \<le> (122 :: nat)"

text \<open>\<^verbatim>\<open>char\<close> is signed: a byte from 0x80 on is negative, hence no digit under either reading.\<close>

definition IS_NUM :: "byte \<Rightarrow> bool" where
  "IS_NUM c \<longleftrightarrow> of_char c \<ge> (48 :: nat) \<and> of_char c \<le> (57 :: nat)"

definition IS_ALPHANUM :: "byte \<Rightarrow> bool" where
  "IS_ALPHANUM c \<longleftrightarrow> IS_ALPHA c \<or> IS_NUM c"

definition IS_HEX :: "byte \<Rightarrow> bool" where
  "IS_HEX c \<longleftrightarrow> IS_NUM c \<or> of_char (LOWER c) \<ge> (97 :: nat) \<and> of_char (LOWER c) \<le> (102 :: nat)"

definition IS_MARK :: "byte \<Rightarrow> bool" where
  "IS_MARK c \<longleftrightarrow> c = CHR ''-'' \<or> c = CHR ''_'' \<or> c = CHR ''.'' \<or> c = CHR ''!'' \<or> c = CHR ''~'' \<or>
     c = CHR ''*'' \<or> c = CHR 0x27 \<or> c = CHR ''('' \<or> c = CHR '')''"

definition IS_USERINFO_CHAR :: "byte \<Rightarrow> bool" where
  "IS_USERINFO_CHAR c \<longleftrightarrow> IS_ALPHANUM c \<or> IS_MARK c \<or> c = CHR ''%'' \<or> c = CHR '';'' \<or> c = CHR '':'' \<or>
     c = CHR ''&'' \<or> c = CHR ''='' \<or> c = CHR ''+'' \<or> c = CHR ''$'' \<or> c = CHR '',''"

definition IS_URL_CHAR :: "byte \<Rightarrow> bool" where
  "IS_URL_CHAR c \<longleftrightarrow> normal_url_char ! of_char c \<noteq> 0 \<or> of_char c AND (0x80 :: nat) \<noteq> 0"

definition IS_HOST_CHAR :: "byte \<Rightarrow> bool" where
  "IS_HOST_CHAR c \<longleftrightarrow> IS_ALPHANUM c \<or> c = CHR ''.'' \<or> c = CHR ''-'' \<or> c = CHR ''_''"

definition IS_HEADER_CHAR :: "byte \<Rightarrow> bool" where
  "IS_HEADER_CHAR ch \<longleftrightarrow> ch = CR \<or> ch = LF \<or> of_char ch = (9 :: nat) \<or>
     of_char ch > (31 :: nat) \<and> of_char ch \<noteq> (127 :: nat)"

end
