(* ===== verification/Http_Exec.thy ===== *)
theory Http_Exec
  imports Http_Tables
begin

text \<open>
  \<^verbatim>\<open>http_parser_execute\<close> (src/evpphttp/http_parser.cpp): the byte-driven state machine of the
  HTTP parser. Each \<^verbatim>\<open>case\<close> of the big switch is a definition named after its state. The local
  variables of the function form the record \<open>exec\<close>; pointers into the input are offsets from
  \<^verbatim>\<open>data\<close>. A case ends in an \<open>outcome\<close>: it leaves the switch (\<open>Break\<close>), jumps to
  \<^verbatim>\<open>reexecute_byte\<close> (\<open>Reexec\<close>) or to the label \<^verbatim>\<open>error\<close> (\<open>Error\<close>), returns from the function
  (\<open>Return\<close>), or runs into a failed assertion or undefined behaviour (\<open>Abort\<close>).
  The callbacks are parameters: they get the parser and the user's data and return an \<^verbatim>\<open>int\<close>
  with the parser and the data they leave behind.
\<close>

section \<open>Parser, settings, local variables\<close>

record http_parser =
  p_type :: http_parser_type
  flags :: flags
  p_state :: state
  header_state :: header_states
  p_index :: "8 word"
  nread :: "32 word"
  content_length :: int
  http_major :: "16 word"
  http_minor :: "16 word"
  status_code :: "16 word"
  p_method :: http_method
  http_errno :: http_errno
  upgrade :: bool

type_synonym 'u http_cb = "http_parser \<Rightarrow> 'u \<Rightarrow> int \<times> http_parser \<times> 'u"
type_synonym 'u http_data_cb = "http_parser \<Rightarrow> 'u \<Rightarrow> byte list \<Rightarrow> int \<times> http_parser \<times> 'u"

text \<open>A data callback gets the bytes its pointer and length denote; \<^verbatim>\<open>on_headers_complete\<close> gets
  a null pointer and the number of bytes consumed so far, of which the number is kept.\<close>

record 'u http_parser_settings =
  on_message_begin :: "'u http_cb"
  on_url :: "'u http_data_cb"
  on_header_field :: "'u http_data_cb"
  on_header_value :: "'u http_data_cb"
  on_headers_complete :: "http_parser \<Rightarrow> 'u \<Rightarrow> nat \<Rightarrow> int \<times> http_parser \<times> 'u"
  on_body :: "'u http_data_cb"
  on_message_complete :: "'u http_cb"
  on_reason :: "'u http_data_cb"
  on_chunk_header :: "'u http_cb"
  on_chunk_complete :: "'u http_cb"

text \<open>The five data callbacks with their marks, the argument \<^verbatim>\<open>FOR\<close> of the callback macros.\<close>

datatype data_for = FOR_header_field | FOR_header_value | FOR_url | FOR_reason | FOR_body

fun data_cb :: "'u http_parser_settings \<Rightarrow> data_for \<Rightarrow> 'u http_data_cb" where
  "data_cb S FOR_header_field = on_header_field S"
| "data_cb S FOR_header_value = on_header_value S"
| "data_cb S FOR_url = on_url S"
| "data_cb S FOR_reason = on_reason S"
| "data_cb S FOR_body = on_body S"

fun data_errno :: "data_for \<Rightarrow> http_errno" where
  "data_errno FOR_header_field = HPE_CB_header_field"
| "data_errno FOR_header_value = HPE_CB_header_value"
| "data_errno FOR_url = HPE_CB_url"
| "data_errno FOR_reason = HPE_CB_reason"
| "data_errno FOR_body = HPE_CB_body"

datatype notify_for = FOR_message_begin | FOR_message_complete | FOR_chunk_header | FOR_chunk_complete

fun notify_cb :: "'u http_parser_settings \<Rightarrow> notify_for \<Rightarrow> 'u http_cb" where
  "notify_cb S FOR_message_begin = on_message_begin S"
| "notify_cb S FOR_message_complete = on_message_complete S"
| "notify_cb S FOR_chunk_header = on_chunk_header S"
| "notify_cb S FOR_chunk_complete = on_chunk_complete S"

fun notify_errno :: "notify_for \<Rightarrow> http_errno" where
  "notify_errno FOR_message_begin = HPE_CB_message_begin"
| "notify_errno FOR_message_complete = HPE_CB_message_complete"
| "notify_errno FOR_chunk_header = HPE_CB_chunk_header"
| "notify_errno FOR_chunk_complete = HPE_CB_chunk_complete"

text \<open>The locals of \<^verbatim>\<open>http_parser_execute\<close>: \<open>ex_p\<close> is \<^verbatim>\<open>p - data\<close>, \<open>ex_ch\<close> is \<^verbatim>\<open>ch\<close>, \<open>ex_state\<close> the
  local copy \<^verbatim>\<open>state\<close>, \<open>ex_marks\<close> the five marks, \<open>ex_start\<close> is \<^verbatim>\<open>data_or_header_data_start\<close>.\<close>

record 'u exec =
  ex_parser :: http_parser
  ex_user :: 'u
  ex_state :: state
  ex_p :: nat
  ex_ch :: byte
  ex_marks :: "data_for \<rightharpoonup> nat"
  ex_start :: nat

datatype 'u outcome = Break "'u exec" | Reexec "'u exec" | Error "'u exec"
  | Return "'u exec" nat | Abort cpp_error

section \<open>Macros\<close>

definition set_parser :: "(http_parser \<Rightarrow> http_parser) \<Rightarrow> 'u exec \<Rightarrow> 'u exec" where
  "set_parser f e = e\<lparr>ex_parser := f (ex_parser e)\<rparr>"

definition set_state :: "state \<Rightarrow> 'u exec \<Rightarrow> 'u exec" where
  "set_state s e = e\<lparr>ex_state := s\<rparr>"

definition SET_ERRNO :: "http_errno \<Rightarrow> 'u exec \<Rightarrow> 'u exec" where
  "SET_ERRNO n e = set_parser (http_errno_update (\<lambda>_. n)) e"

definition store_state :: "'u exec \<Rightarrow> 'u exec" where
  "store_state e = set_parser (p_state_update (\<lambda>_. ex_state e)) e"

definition RETURN :: "nat \<Rightarrow> 'u exec \<Rightarrow> 'u outcome" where
  "RETURN r e = Return (store_state e) r"

definition fail_with :: "http_errno \<Rightarrow> 'u exec \<Rightarrow> 'u outcome" where
  "fail_with n e = Error (SET_ERRNO n e)"

definition callback_notify ::
  "'u http_parser_settings \<Rightarrow> notify_for \<Rightarrow> nat \<Rightarrow> 'u exec \<Rightarrow> ('u exec \<Rightarrow> 'u outcome) \<Rightarrow> 'u outcome" where
  "callback_notify S F er e k =
     (let e1 = store_state e in
      if http_errno (ex_parser e1) \<noteq> HPE_OK then Abort AssertFail
      else case notify_cb S F (ex_parser e1) (ex_user e1) of (r, q, u) \<Rightarrow>
        let e2 = e1\<lparr>ex_parser := q, ex_user := u\<rparr>;
            e3 = if r \<noteq> 0 then SET_ERRNO (notify_errno F) e2 else e2 in
        if http_errno (ex_parser e3) \<noteq> HPE_OK then Return e3 er else k e3)"

definition CALLBACK_NOTIFY where
  "CALLBACK_NOTIFY S F e k = callback_notify S F (ex_p e + 1) e k"

definition CALLBACK_NOTIFY_NOADVANCE where
  "CALLBACK_NOTIFY_NOADVANCE S F e k = callback_notify S F (ex_p e) e k"

text \<open>\<open>callback_data S data F q er e k\<close> passes the bytes from the mark up to the offset \<open>q\<close>.\<close>

definition callback_data ::
  "'u http_parser_settings \<Rightarrow> byte list \<Rightarrow> data_for \<Rightarrow> nat \<Rightarrow> nat \<Rightarrow> 'u exec \<Rightarrow>
   ('u exec \<Rightarrow> 'u outcome) \<Rightarrow> 'u outcome" where
  "callback_data S data F q er e k =
     (let e1 = store_state e in
      if http_errno (ex_parser e1) \<noteq> HPE_OK then Abort AssertFail
      else case ex_marks e1 F of
        None \<Rightarrow> k e1
      | Some m \<Rightarrow>
          if m \<le> q \<and> q \<le> length data then
            case data_cb S F (ex_parser e1) (ex_user e1) (range_of m q data) of (r, pr, u) \<Rightarrow>
              let e2 = e1\<lparr>ex_parser := pr, ex_user := u\<rparr>;
                  e3 = if r \<noteq> 0 then SET_ERRNO (data_errno F) e2 else e2 in
              if http_errno (ex_parser e3) \<noteq> HPE_OK then Return e3 er
              else k (e3\<lparr>ex_marks := (ex_marks e3)(F := None)\<rparr>)
          else Abort OutOfBounds)"

definition CALLBACK_DATA where
  "CALLBACK_DATA S data F e k = callback_data S data F (ex_p e) (ex_p e + 1) e k"

definition CALLBACK_DATA_NOADVANCE where
  "CALLBACK_DATA_NOADVANCE S data F e k = callback_data S data F (ex_p e) (ex_p e) e k"

definition CALLBACK_SPACE ::
  "'u http_parser_settings \<Rightarrow> 'u exec \<Rightarrow> ('u exec \<Rightarrow> 'u outcome) \<Rightarrow> 'u outcome" where
  "CALLBACK_SPACE S e k =
     (let e1 = store_state e in
      case on_header_value S (ex_parser e1) (ex_user e1) SPACE of (r, q, u) \<Rightarrow>
        let e2 = e1\<lparr>ex_parser := q, ex_user := u\<rparr> in
        if r \<noteq> 0 then Return (SET_ERRNO HPE_CB_header_value e2) (ex_p e)
        else if http_errno (ex_parser e2) \<noteq> HPE_OK then Return e2 (ex_p e)
        else k e2)"

definition MARK :: "data_for \<Rightarrow> 'u exec \<Rightarrow> 'u exec" where
  "MARK F e = (if ex_marks e F = None then e\<lparr>ex_marks := (ex_marks e)(F \<mapsto> ex_p e)\<rparr> else e)"

definition NEW_MESSAGE :: "http_parser \<Rightarrow> state" where
  "NEW_MESSAGE q = (if p_type q = HTTP_REQUEST then s_pre_start_req else s_pre_start_res)"

text \<open>The value of a digit as an \<^verbatim>\<open>unsigned short\<close> and as an \<^verbatim>\<open>int64_t\<close>.\<close>

definition digit16 :: "byte \<Rightarrow> 16 word" where
  "digit16 c = of_nat (of_char c - 48)"

definition digit64 :: "byte \<Rightarrow> int" where
  "digit64 c = int (of_char c) - 48"

text \<open>Storing into \<^verbatim>\<open>content_length\<close>, an \<^verbatim>\<open>int64_t\<close>.\<close>

definition set_content_length :: "int \<Rightarrow> 'u exec \<Rightarrow> ('u exec \<Rightarrow> 'u outcome) \<Rightarrow> 'u outcome" where
  "set_content_length n e k =
     (if - (2 ^ 63) \<le> n \<and> n \<le> INT64_MAX
      then k (set_parser (content_length_update (\<lambda>_. n)) e) else Abort SignedOverflow)"

section \<open>Start of a message, status line\<close>

definition case_pre_start_req_or_res where
  "case_pre_start_req_or_res S e =
     (if ex_ch e = CR \<or> ex_ch e = LF then Break e
      else CALLBACK_NOTIFY_NOADVANCE S FOR_message_begin (set_state s_start_req_or_res e) Reexec)"

definition case_start_req_or_res :: "'u exec \<Rightarrow> 'u outcome" where
  "case_start_req_or_res e =
     (let e1 = set_parser (\<lambda>q. q\<lparr>flags := 0, content_length := -1\<rparr>) e in
      if ex_ch e = CHR ''H'' then Break (set_state s_res_or_resp_H e1)
      else Reexec (set_state s_start_req (set_parser (\<lambda>q. q\<lparr>p_type := HTTP_REQUEST\<rparr>) e1)))"

definition case_res_or_resp_H :: "'u exec \<Rightarrow> 'u outcome" where
  "case_res_or_resp_H e =
     (if ex_ch e = CHR ''T'' then
        Break (set_state s_res_HT (set_parser (\<lambda>q. q\<lparr>p_type := HTTP_RESPONSE\<rparr>) e))
      else if ex_ch e \<noteq> CHR ''E'' then fail_with HPE_INVALID_CONSTANT e
      else Break (set_state s_req_method
             (set_parser (\<lambda>q. q\<lparr>p_type := HTTP_REQUEST, p_method := HTTP_HEAD, p_index := 2\<rparr>) e)))"

definition case_pre_start_res where
  "case_pre_start_res S e =
     (if ex_ch e = CR \<or> ex_ch e = LF then Break e
      else CALLBACK_NOTIFY_NOADVANCE S FOR_message_begin (set_state s_start_res e) Reexec)"

definition case_start_res :: "'u exec \<Rightarrow> 'u outcome" where
  "case_start_res e =
     (let e1 = set_parser (\<lambda>q. q\<lparr>flags := 0, content_length := -1\<rparr>) e in
      if ex_ch e = CHR ''H'' then Break (set_state s_res_H e1)
      else fail_with HPE_INVALID_CONSTANT e1)"

text \<open>\<^verbatim>\<open>STRICT_CHECK\<close> is empty, so these states accept any byte.\<close>

definition case_res_H :: "'u exec \<Rightarrow> 'u outcome" where
  "case_res_H e = Break (set_state s_res_HT e)"

definition case_res_HT :: "'u exec \<Rightarrow> 'u outcome" where
  "case_res_HT e = Break (set_state s_res_HTT e)"

definition case_res_HTT :: "'u exec \<Rightarrow> 'u outcome" where
  "case_res_HTT e = Break (set_state s_res_HTTP e)"

definition case_res_HTTP :: "'u exec \<Rightarrow> 'u outcome" where
  "case_res_HTTP e = Break (set_state s_res_first_http_major e)"

definition case_res_first_http_major :: "'u exec \<Rightarrow> 'u outcome" where
  "case_res_first_http_major e =
     (if \<not> IS_NUM (ex_ch e) then fail_with HPE_INVALID_VERSION e
      else Break (set_state s_res_http_major
             (set_parser (\<lambda>q. q\<lparr>http_major := digit16 (ex_ch e)\<rparr>) e)))"

definition case_res_http_major :: "'u exec \<Rightarrow> 'u outcome" where
  "case_res_http_major e =
     (if ex_ch e = CHR ''.'' then Break (set_state s_res_first_http_minor e)
      else if \<not> IS_NUM (ex_ch e) then fail_with HPE_INVALID_VERSION e
      else let e1 = set_parser (\<lambda>q. q\<lparr>http_major := http_major q * 10 + digit16 (ex_ch e)\<rparr>) e in
        if http_major (ex_parser e1) > 999 then fail_with HPE_INVALID_VERSION e1 else Break e1)"

definition case_res_first_http_minor :: "'u exec \<Rightarrow> 'u outcome" where
  "case_res_first_http_minor e =
     (if \<not> IS_NUM (ex_ch e) then fail_with HPE_INVALID_VERSION e
      else Break (set_state s_res_http_minor
             (set_parser (\<lambda>q. q\<lparr>http_minor := digit16 (ex_ch e)\<rparr>) e)))"

definition case_res_http_minor :: "'u exec \<Rightarrow> 'u outcome" where
  "case_res_http_minor e =
     (if ex_ch e = CHR '' '' then Break (set_state s_res_first_status_code e)
      else if \<not> IS_NUM (ex_ch e) then fail_with HPE_INVALID_VERSION e
      else let e1 = set_parser (\<lambda>q. q\<lparr>http_minor := http_minor q * 10 + digit16 (ex_ch e)\<rparr>) e in
        if http_minor (ex_parser e1) > 999 then fail_with HPE_INVALID_VERSION e1 else Break e1)"

definition case_res_first_status_code :: "'u exec \<Rightarrow> 'u outcome" where
  "case_res_first_status_code e =
     (if \<not> IS_NUM (ex_ch e) then
        (if ex_ch e = CHR '' '' then Break e else fail_with HPE_INVALID_STATUS e)
      else Break (set_state s_res_status_code
             (set_parser (\<lambda>q. q\<lparr>status_code := digit16 (ex_ch e)\<rparr>) e)))"

definition case_res_status_code :: "'u exec \<Rightarrow> 'u outcome" where
  "case_res_status_code e =
     (if \<not> IS_NUM (ex_ch e) then
        (if ex_ch e = CHR '' '' then Break (set_state s_res_status e)
         else if ex_ch e = CR then Break (set_state s_res_line_almost_done e)
         else if ex_ch e = LF then Break (set_state s_header_field_start e)
         else fail_with HPE_INVALID_STATUS e)
      else let e1 = set_parser (\<lambda>q. q\<lparr>status_code := status_code q * 10 + digit16 (ex_ch e)\<rparr>) e in
        if status_code (ex_parser e1) > 999 then fail_with HPE_INVALID_STATUS e1 else Break e1)"

definition case_res_status where
  "case_res_status S data e =
     (let e1 = MARK FOR_reason e in
      if ex_ch e = CR then CALLBACK_DATA S data FOR_reason (set_state s_res_line_almost_done e1) Break
      else if ex_ch e = LF then CALLBACK_DATA S data FOR_reason (set_state s_header_field_start e1) Break
      else Break e1)"

definition case_res_line_almost_done :: "'u exec \<Rightarrow> 'u outcome" where
  "case_res_line_almost_done e = Break (set_state s_header_field_start e)"

section \<open>Request line\<close>

definition case_pre_start_req where
  "case_pre_start_req S e =
     (if ex_ch e = CR \<or> ex_ch e = LF then Break e
      else CALLBACK_NOTIFY_NOADVANCE S FOR_message_begin (set_state s_start_req e) Reexec)"

text \<open>The inner switch of \<open>s_start_req\<close>: the first method that begins with the letter.\<close>

definition start_method :: "byte \<Rightarrow> http_method option" where
  "start_method c =
     (if c = CHR ''C'' then Some HTTP_CONNECT else if c = CHR ''D'' then Some HTTP_DELETE
      else if c = CHR ''G'' then Some HTTP_GET else if c = CHR ''H'' then Some HTTP_HEAD
      else if c = CHR ''L'' then Some HTTP_LOCK else if c = CHR ''M'' then Some HTTP_MKCOL
      else if c = CHR ''N'' then Some HTTP_NOTIFY else if c = CHR ''O'' then Some HTTP_OPTIONS
      else if c = CHR ''P'' then Some HTTP_POST else if c = CHR ''R'' then Some HTTP_REPORT
      else if c = CHR ''S'' then Some HTTP_SUBSCRIBE else if c = CHR ''T'' then Some HTTP_TRACE
      else if c = CHR ''U'' then Some HTTP_UNLOCK else None)"

definition case_start_req :: "'u exec \<Rightarrow> 'u outcome" where
  "case_start_req e =
     (let e1 = set_parser (\<lambda>q. q\<lparr>flags := 0, content_length := -1\<rparr>) e in
      if \<not> IS_ALPHA (ex_ch e) then fail_with HPE_INVALID_METHOD e1
      else
        let e2 = set_parser (\<lambda>q. q\<lparr>p_method := HTTP_DELETE, p_index := 1\<rparr>) e1 in
        case start_method (ex_ch e) of
          None \<Rightarrow> fail_with HPE_INVALID_METHOD e2
        | Some m \<Rightarrow> Break (set_state s_req_method (set_parser (\<lambda>q. q\<lparr>p_method := m\<rparr>) e2)))"

text \<open>The chain of \<^verbatim>\<open>else if\<close> of \<open>s_req_method\<close> after a mismatch: the method to switch to, or
  whether the error code is set before the jump to \<^verbatim>\<open>error\<close>.\<close>

definition switch_method :: "http_method \<Rightarrow> nat \<Rightarrow> byte \<Rightarrow> bool + http_method" where
  "switch_method m i c =
     (if m = HTTP_CONNECT then
        (if i = 1 \<and> c = CHR ''H'' then Inr HTTP_CHECKOUT
         else if i = 2 \<and> c = CHR ''P'' then Inr HTTP_COPY
         else Inl False)
      else if m = HTTP_MKCOL then
        (if i = 1 \<and> c = CHR ''O'' then Inr HTTP_MOVE
         else if i = 1 \<and> c = CHR ''E'' then Inr HTTP_MERGE
         else if i = 1 \<and> c = CHR ''-'' then Inr HTTP_MSEARCH
         else if i = 2 \<and> c = CHR ''A'' then Inr HTTP_MKACTIVITY
         else Inl False)
      else if i = 1 \<and> m = HTTP_POST then
        (if c = CHR ''R'' then Inr HTTP_PROPFIND
         else if c = CHR ''U'' then Inr HTTP_PUT
         else if c = CHR ''A'' then Inr HTTP_PATCH
         else Inl False)
      else if i = 2 \<and> m = HTTP_UNLOCK \<and> c = CHR ''S'' then Inr HTTP_UNSUBSCRIBE
      else if i = 4 \<and> m = HTTP_PROPFIND \<and> c = CHR ''P'' then Inr HTTP_PROPPATCH
      else Inl True)"

definition case_req_method :: "'u exec \<Rightarrow> 'u outcome" where
  "case_req_method e =
     (if ex_ch e = CHR 0x00 then fail_with HPE_INVALID_METHOD e
      else
        let m = p_method (ex_parser e); i = unat (p_index (ex_parser e));
            next_index = set_parser (\<lambda>q. q\<lparr>p_index := p_index q + 1\<rparr>) in
        case c_char (method_strings m) i of
          Inl x \<Rightarrow> Abort x
        | Inr mc \<Rightarrow>
            if ex_ch e = CHR '' '' \<and> mc = CHR 0x00 then
              Break (next_index (set_state s_req_spaces_before_url e))
            else if ex_ch e = mc then Break (next_index e)
            else case switch_method m i (ex_ch e) of
              Inl False \<Rightarrow> Error e
            | Inl True \<Rightarrow> fail_with HPE_INVALID_METHOD e
            | Inr m' \<Rightarrow> Break (next_index (set_parser (\<lambda>q. q\<lparr>p_method := m'\<rparr>) e)))"

definition case_req_spaces_before_url :: "'u exec \<Rightarrow> 'u outcome" where
  "case_req_spaces_before_url e =
     (if ex_ch e = CHR '' '' then Break e
      else if p_method (ex_parser e) = HTTP_CONNECT then
        Reexec (set_state s_req_host_start (MARK FOR_url e))
      else if ex_ch e = CHR ''/'' \<or> ex_ch e = CHR ''*'' then
        Break (set_state s_req_path (MARK FOR_url e))
      else if IS_ALPHA (ex_ch e) then Break (set_state s_req_schema (MARK FOR_url e))
      else fail_with HPE_INVALID_URL e)"

definition case_req_schema :: "'u exec \<Rightarrow> 'u outcome" where
  "case_req_schema e =
     (if IS_ALPHA (ex_ch e) then Break e
      else if ex_ch e = CHR '':'' then Break (set_state s_req_schema_slash e)
      else fail_with HPE_INVALID_URL e)"

definition case_req_schema_slash :: "'u exec \<Rightarrow> 'u outcome" where
  "case_req_schema_slash e = Break (set_state s_req_schema_slash_slash e)"

definition case_req_schema_slash_slash :: "'u exec \<Rightarrow> 'u outcome" where
  "case_req_schema_slash_slash e = Break (set_state s_req_host_start e)"

definition case_req_host_start :: "'u exec \<Rightarrow> 'u outcome" where
  "case_req_host_start e =
     (if ex_ch e = CHR ''['' then Break (set_state s_req_host_ipv6 e)
      else if IS_ALPHANUM (ex_ch e) then Break (set_state s_req_host e)
      else fail_with HPE_INVALID_HOST e)"

definition case_req_host :: "'u exec \<Rightarrow> 'u outcome" where
  "case_req_host e =
     (if IS_HOST_CHAR (ex_ch e) then Break e else Reexec (set_state s_req_host_done e))"

definition case_req_host_ipv6 :: "'u exec \<Rightarrow> 'u outcome" where
  "case_req_host_ipv6 e =
     (if IS_HEX (ex_ch e) \<or> ex_ch e = CHR '':'' then Break e
      else if ex_ch e = CHR '']'' then Break (set_state s_req_host_done e)
      else fail_with HPE_INVALID_HOST e)"

definition case_req_host_done where
  "case_req_host_done S data e =
     (if ex_ch e = CHR '':'' then Break (set_state s_req_port e)
      else if ex_ch e = CHR ''/'' then Break (set_state s_req_path e)
      else if ex_ch e = CHR '' '' then CALLBACK_DATA S data FOR_url (set_state s_req_http_start e) Break
      else if ex_ch e = CHR ''?'' then Break (set_state s_req_query_string_start e)
      else fail_with HPE_INVALID_HOST e)"

definition case_req_port where
  "case_req_port S data e =
     (if IS_NUM (ex_ch e) then Break e
      else if ex_ch e = CHR ''/'' then Break (set_state s_req_path e)
      else if ex_ch e = CHR '' '' then CALLBACK_DATA S data FOR_url (set_state s_req_http_start e) Break
      else if ex_ch e = CHR ''?'' then Break (set_state s_req_query_string_start e)
      else fail_with HPE_INVALID_PORT e)"

text \<open>A request line that ends after the URL is HTTP/0.9.\<close>

definition version_0_9 :: "'u exec \<Rightarrow> 'u exec" where
  "version_0_9 e = set_parser (\<lambda>q. q\<lparr>http_major := 0, http_minor := 9\<rparr>) e"

definition case_req_path where
  "case_req_path S data e =
     (if IS_URL_CHAR (ex_ch e) then Break e
      else if ex_ch e = CHR '' '' then CALLBACK_DATA S data FOR_url (set_state s_req_http_start e) Break
      else if ex_ch e = CR then
        CALLBACK_DATA S data FOR_url (set_state s_req_line_almost_done (version_0_9 e)) Break
      else if ex_ch e = LF then
        CALLBACK_DATA S data FOR_url (set_state s_header_field_start (version_0_9 e)) Break
      else if ex_ch e = CHR ''?'' then Break (set_state s_req_query_string_start e)
      else if ex_ch e = CHR ''#'' then Break (set_state s_req_fragment_start e)
      else fail_with HPE_INVALID_PATH e)"

definition case_req_query_string_start where
  "case_req_query_string_start S data e =
     (if IS_URL_CHAR (ex_ch e) then Break (set_state s_req_query_string e)
      else if ex_ch e = CHR ''?'' then Break e
      else if ex_ch e = CHR '' '' then CALLBACK_DATA S data FOR_url (set_state s_req_http_start e) Break
      else if ex_ch e = CR then
        CALLBACK_DATA S data FOR_url (set_state s_req_line_almost_done (version_0_9 e)) Break
      else if ex_ch e = LF then
        CALLBACK_DATA S data FOR_url (set_state s_header_field_start (version_0_9 e)) Break
      else if ex_ch e = CHR ''#'' then Break (set_state s_req_fragment_start e)
      else fail_with HPE_INVALID_QUERY_STRING e)"

definition case_req_query_string where
  "case_req_query_string S data e =
     (if IS_URL_CHAR (ex_ch e) then Break e
      else if ex_ch e = CHR ''?'' then Break e
      else if ex_ch e = CHR '' '' then CALLBACK_DATA S data FOR_url (set_state s_req_http_start e) Break
      else if ex_ch e = CR then
        CALLBACK_DATA S data FOR_url (set_state s_req_line_almost_done (version_0_9 e)) Break
      else if ex_ch e = LF then
        CALLBACK_DATA S data FOR_url (set_state s_header_field_start (version_0_9 e)) Break
      else if ex_ch e = CHR ''#'' then Break (set_state s_req_fragment_start e)
      else fail_with HPE_INVALID_QUERY_STRING e)"

definition case_req_fragment_start where
  "case_req_fragment_start S data e =
     (if IS_URL_CHAR (ex_ch e) then Break (set_state s_req_fragment e)
      else if ex_ch e = CHR '' '' then CALLBACK_DATA S data FOR_url (set_state s_req_http_start e) Break
      else if ex_ch e = CR then
        CALLBACK_DATA S data FOR_url (set_state s_req_line_almost_done (version_0_9 e)) Break
      else if ex_ch e = LF then
        CALLBACK_DATA S data FOR_url (set_state s_header_field_start (version_0_9 e)) Break
      else if ex_ch e = CHR ''?'' then Break (set_state s_req_fragment e)
      else if ex_ch e = CHR ''#'' then Break e
      else fail_with HPE_INVALID_FRAGMENT e)"

definition case_req_fragment where
  "case_req_fragment S data e =
     (if IS_URL_CHAR (ex_ch e) then Break e
      else if ex_ch e = CHR '' '' then CALLBACK_DATA S data FOR_url (set_state s_req_http_start e) Break
      else if ex_ch e = CR then
        CALLBACK_DATA S data FOR_url (set_state s_req_line_almost_done (version_0_9 e)) Break
      else if ex_ch e = LF then
        CALLBACK_DATA S data FOR_url (set_state s_header_field_start (version_0_9 e)) Break
      else if ex_ch e = CHR ''?'' \<or> ex_ch e = CHR ''#'' then Break e
      else fail_with HPE_INVALID_FRAGMENT e)"

definition case_req_http_start :: "'u exec \<Rightarrow> 'u outcome" where
  "case_req_http_start e =
     (if ex_ch e = CHR ''H'' then Break (set_state s_req_http_H e)
      else if ex_ch e = CHR '' '' then Break e
      else fail_with HPE_INVALID_CONSTANT e)"

definition case_req_http_H :: "'u exec \<Rightarrow> 'u outcome" where
  "case_req_http_H e = Break (set_state s_req_http_HT e)"

definition case_req_http_HT :: "'u exec \<Rightarrow> 'u outcome" where
  "case_req_http_HT e = Break (set_state s_req_http_HTT e)"

definition case_req_http_HTT :: "'u exec \<Rightarrow> 'u outcome" where
  "case_req_http_HTT e = Break (set_state s_req_http_HTTP e)"

definition case_req_http_HTTP :: "'u exec \<Rightarrow> 'u outcome" where
  "case_req_http_HTTP e = Break (set_state s_req_first_http_major e)"

definition case_req_first_http_major :: "'u exec \<Rightarrow> 'u outcome" where
  "case_req_first_http_major e =
     (if \<not> IS_NUM (ex_ch e) then fail_with HPE_INVALID_VERSION e
      else Break (set_state s_req_http_major
             (set_parser (\<lambda>q. q\<lparr>http_major := digit16 (ex_ch e)\<rparr>) e)))"

definition case_req_http_major :: "'u exec \<Rightarrow> 'u outcome" where
  "case_req_http_major e =
     (if ex_ch e = CHR ''.'' then Break (set_state s_req_first_http_minor e)
      else if \<not> IS_NUM (ex_ch e) then fail_with HPE_INVALID_VERSION e
      else let e1 = set_parser (\<lambda>q. q\<lparr>http_major := http_major q * 10 + digit16 (ex_ch e)\<rparr>) e in
        if http_major (ex_parser e1) > 999 then fail_with HPE_INVALID_VERSION e1 else Break e1)"

definition case_req_first_http_minor :: "'u exec \<Rightarrow> 'u outcome" where
  "case_req_first_http_minor e =
     (if \<not> IS_NUM (ex_ch e) then fail_with HPE_INVALID_VERSION e
      else Break (set_state s_req_http_minor
             (set_parser (\<lambda>q. q\<lparr>http_minor := digit16 (ex_ch e)\<rparr>) e)))"

definition case_req_http_minor :: "'u exec \<Rightarrow> 'u outcome" where
  "case_req_http_minor e =
     (if ex_ch e = CR then Break (set_state s_req_line_almost_done e)
      else if ex_ch e = LF then Break (set_state s_header_field_start e)
      else if \<not> IS_NUM (ex_ch e) then fail_with HPE_INVALID_VERSION e
      else let e1 = set_parser (\<lambda>q. q\<lparr>http_minor := http_minor q * 10 + digit16 (ex_ch e)\<rparr>) e in
        if http_minor (ex_parser e1) > 999 then fail_with HPE_INVALID_VERSION e1 else Break e1)"

definition case_req_line_almost_done :: "'u exec \<Rightarrow> 'u outcome" where
  "case_req_line_almost_done e =
     (if ex_ch e \<noteq> LF then fail_with HPE_LF_EXPECTED e
      else Break (set_state s_header_field_start e))"

section \<open>Header fields\<close>

definition set_header_state :: "header_states \<Rightarrow> 'u exec \<Rightarrow> 'u exec" where
  "set_header_state h e = set_parser (\<lambda>q. q\<lparr>header_state := h\<rparr>) e"

definition case_header_field_start :: "'u exec \<Rightarrow> 'u outcome" where
  "case_header_field_start e =
     (if ex_ch e = CR then Break (set_state s_headers_almost_done e)
      else if ex_ch e = LF then Reexec (set_state s_headers_almost_done e)
      else
        let c = TOKEN (ex_ch e) in
        if c = CHR 0x00 then fail_with HPE_INVALID_HEADER_TOKEN e
        else
          let e1 = set_state s_header_field (set_parser (\<lambda>q. q\<lparr>p_index := 0\<rparr>) (MARK FOR_header_field e)) in
          Break (set_header_state
            (if c = CHR ''c'' then h_matching_content_length
             else if c = CHR ''t'' then h_matching_transfer_encoding
             else if c = CHR ''u'' then h_matching_upgrade
             else h_general) e1))"

text \<open>The fast-forward macros. \<open>Goto\<close> is the jump out of the unrolled steps, \<open>Through\<close> the end of
  them, \<open>PastEnd\<close> a read behind the input.\<close>

datatype 'u moved = Goto "'u exec" | Through "'u exec" | PastEnd

fun MOVE_THE_HEAD :: "nat \<Rightarrow> byte list \<Rightarrow> 'u exec \<Rightarrow> 'u moved" where
  "MOVE_THE_HEAD 0 data e = Through e"
| "MOVE_THE_HEAD (Suc n) data e =
     (let e1 = e\<lparr>ex_p := ex_p e + 1\<rparr> in
      if ex_p e1 < length data then
        if TOKEN (data ! ex_p e1) = CHR 0x00 then Goto (e1\<lparr>ex_ch := data ! ex_p e1\<rparr>)
        else MOVE_THE_HEAD n data e1
      else PastEnd)"

text \<open>\<open>MOVE_THE_HEAD\<close> stops at the first byte that is no token.\<close>

lemma MOVE_THE_HEAD_Goto:
  "MOVE_THE_HEAD n data e = Goto e' \<Longrightarrow> \<exists>k. 0 < k \<and> k \<le> n \<and> ex_p e + k < length data \<and>
     e' = e\<lparr>ex_p := ex_p e + k, ex_ch := data ! (ex_p e + k)\<rparr> \<and> TOKEN (data ! (ex_p e + k)) = CHR 0x00 \<and>
     (\<forall>i. 0 < i \<and> i < k \<longrightarrow> TOKEN (data ! (ex_p e + i)) \<noteq> CHR 0x00)"
proof (induction n arbitrary: e)
  case (Suc n)
  let ?c = "data ! (ex_p e + 1)" and ?e = "e\<lparr>ex_p := ex_p e + 1\<rparr>"
  have p: "ex_p e + 1 < length data" using Suc.prems by (simp add: Let_def split: if_splits)
  show ?case
  proof (cases "TOKEN ?c = CHR 0x00")
    case True
    then show ?thesis
      using Suc.prems p by (intro exI [of _ 1]) (auto simp: Let_def)
  next
    case False
    then have "MOVE_THE_HEAD n data ?e = Goto e'"
      using Suc.prems p by (simp add: Let_def)
    then obtain k where "0 < k" "k \<le> n" "ex_p e + 1 + k < length data"
      "e' = e\<lparr>ex_p := ex_p e + 1 + k, ex_ch := data ! (ex_p e + 1 + k)\<rparr>"
      "TOKEN (data ! (ex_p e + 1 + k)) = CHR 0x00"
      "\<And>i. 0 < i \<Longrightarrow> i < k \<Longrightarrow> TOKEN (data ! (ex_p e + 1 + i)) \<noteq> CHR 0x00"
      using Suc.IH [of ?e] by auto
    moreover have "TOKEN (data ! (ex_p e + i)) \<noteq> CHR 0x00" if "0 < i" "i < Suc k" for i
      using that False calculation(6) [of "i - 1"] by (cases "i = 1") auto
    ultimately show ?thesis by (intro exI [of _ "Suc k"]) auto
  qed
qed simp

lemma MOVE_THE_HEAD_Through:
  "MOVE_THE_HEAD n data e = Through e' \<Longrightarrow>
     e' = e\<lparr>ex_p := ex_p e + n\<rparr> \<and> (0 < n \<longrightarrow> ex_p e + n < length data) \<and>
     (\<forall>i. 0 < i \<and> i \<le> n \<longrightarrow> TOKEN (data ! (ex_p e + i)) \<noteq> CHR 0x00)"
proof (induction n arbitrary: e)
  case (Suc n)
  let ?e = "e\<lparr>ex_p := ex_p e + 1\<rparr>"
  have p: "ex_p e + 1 < length data" "TOKEN (data ! (ex_p e + 1)) \<noteq> CHR 0x00"
    "MOVE_THE_HEAD n data ?e = Through e'"
    using Suc.prems by (auto simp: Let_def split: if_splits)
  note IH = Suc.IH [OF p(3)]
  have "TOKEN (data ! (ex_p e + i)) \<noteq> CHR 0x00" if "0 < i" "i \<le> Suc n" for i
    using that p(2) IH [THEN conjunct2, THEN conjunct2, rule_format, of "i - 1"] by (cases "i = 1") auto
  then show ?case using IH p(1) by (cases n) auto
qed simp

lemma MOVE_THE_HEAD_PastEnd: "ex_p e + n < length data \<Longrightarrow> MOVE_THE_HEAD n data e \<noteq> PastEnd"
  by (induction n arbitrary: e) (auto simp: Let_def)

definition fast_forward_field :: "byte list \<Rightarrow> 'u exec \<Rightarrow> 'u moved" where
  "fast_forward_field data e =
     (let left = length data - ex_p e in
      if left \<ge> 9 then MOVE_THE_HEAD 8 data e
      else if left \<ge> 4 then MOVE_THE_HEAD 3 data e else Through e)"

definition notatoken where
  "notatoken S data e =
     (if ex_ch e = CHR '':'' then
        let e1 = set_state s_header_value_start e in
        case ex_marks e FOR_header_field of
          None \<Rightarrow> Abort OutOfBounds
        | Some m \<Rightarrow>
            if ex_p e > m + 1 \<and> data ! (ex_p e - 1) = CHR '' '' then fail_with HPE_INVALID_HEADER_TOKEN e1
            else CALLBACK_DATA S data FOR_header_field e1 Break
      else fail_with HPE_INVALID_HEADER_TOKEN e)"

text \<open>One step of matching the name of a special header.\<close>

definition match_header :: "string \<Rightarrow> header_states \<Rightarrow> byte \<Rightarrow> 'u exec \<Rightarrow> 'u outcome" where
  "match_header name matched c e =
     (let e1 = set_parser (\<lambda>q. q\<lparr>p_index := p_index q + 1\<rparr>) e;
          i = unat (p_index (ex_parser e1)) in
      if i > length name then Break (set_header_state h_general e1)
      else case c_char name i of
        Inl x \<Rightarrow> Abort x
      | Inr nc \<Rightarrow>
          if c \<noteq> nc then Break (set_header_state h_general e1)
          else if i = length name - 1 then Break (set_header_state matched e1)
          else Break e1)"

definition case_header_field where
  "case_header_field S data e =
     (let c = TOKEN (ex_ch e) in
      if c \<noteq> CHR 0x00 then
        (case header_state (ex_parser e) of
           h_general \<Rightarrow>
             (case fast_forward_field data e of
                Goto e1 \<Rightarrow> notatoken S data e1
              | Through e1 \<Rightarrow> Break e1
              | PastEnd \<Rightarrow> Abort OutOfBounds)
         | h_matching_content_length \<Rightarrow> match_header CONTENT_LENGTH h_content_length c e
         | h_matching_transfer_encoding \<Rightarrow> match_header TRANSFER_ENCODING h_transfer_encoding c e
         | h_matching_upgrade \<Rightarrow> match_header UPGRADE h_upgrade c e
         | h_content_length \<Rightarrow> Break (if ex_ch e \<noteq> CHR '' '' then set_header_state h_general e else e)
         | h_transfer_encoding \<Rightarrow> Break (if ex_ch e \<noteq> CHR '' '' then set_header_state h_general e else e)
         | h_upgrade \<Rightarrow> Break (if ex_ch e \<noteq> CHR '' '' then set_header_state h_general e else e)
         | _ \<Rightarrow> Abort AssertFail)
      else notatoken S data e)"

section \<open>Header values\<close>

definition case_header_value_start where
  "case_header_value_start S data e =
     (if ex_ch e = CHR '' '' \<or> ex_ch e = CHR 0x09 then Break e
      else
        let e1 = set_parser (\<lambda>q. q\<lparr>p_index := 0\<rparr>) (set_state s_header_value (MARK FOR_header_value e));
            h = header_state (ex_parser e1);
            e2 = (if ex_ch e = CR \<or> ex_ch e = LF then
                    if h = h_content_length then SET_ERRNO HPE_INVALID_CONTENT_LENGTH e1
                    else if h = h_transfer_encoding then SET_ERRNO HPE_INVALID_TRANSFER_ENCODING e1
                    else if h = h_upgrade then SET_ERRNO HPE_INVALID_UPGRADE e1
                    else e1
                  else e1) in
        if (ex_ch e = CR \<or> ex_ch e = LF) \<and> http_errno (ex_parser e2) \<noteq> HPE_OK then Error e2
        else if ex_ch e = CR then
          CALLBACK_DATA S data FOR_header_value (set_state s_header_almost_done (set_header_state h_general e2)) Break
        else if ex_ch e = LF then
          CALLBACK_DATA S data FOR_header_value (set_state s_header_field_start e2) Break
        else case h of
            h_upgrade \<Rightarrow>
              Break (set_header_state h_general (set_parser (\<lambda>q. q\<lparr>flags := flags q OR F_UPGRADE\<rparr>) e2))
          | h_transfer_encoding \<Rightarrow>
              Break (set_header_state
                (if LOWER (ex_ch e) = CHR ''c'' then h_matching_transfer_encoding_chunked else h_general) e2)
          | h_content_length \<Rightarrow>
              if \<not> IS_NUM (ex_ch e) then fail_with HPE_INVALID_CONTENT_LENGTH e2
              else set_content_length (digit64 (ex_ch e)) e2 Break
          | _ \<Rightarrow> Break (set_header_state (if ex_ch e = QT then h_general_and_quote else h_general) e2))"

fun MOVE_FAST :: "nat \<Rightarrow> byte list \<Rightarrow> 'u exec \<Rightarrow> 'u moved" where
  "MOVE_FAST 0 data e = Through e"
| "MOVE_FAST (Suc n) data e =
     (if ex_p e + 1 < length data then
        let c = data ! (ex_p e + 1); e1 = e\<lparr>ex_p := ex_p e + 1, ex_ch := c\<rparr> in
        if c = CR \<or> c = LF \<or> c = QT \<or> c = BS \<or> \<not> IS_HEADER_CHAR c then Goto e1
        else MOVE_FAST n data e1
      else PastEnd)"

text \<open>Both macros stop at the first byte they look for, or go through all their steps.\<close>

definition stops_MF :: "byte \<Rightarrow> bool" where
  "stops_MF c \<longleftrightarrow> c = CR \<or> c = LF \<or> c = QT \<or> c = BS \<or> \<not> IS_HEADER_CHAR c"

lemma MOVE_FAST_Goto:
  "MOVE_FAST n data e = Goto e' \<Longrightarrow> \<exists>k. 0 < k \<and> k \<le> n \<and> ex_p e + k < length data \<and>
     e' = e\<lparr>ex_p := ex_p e + k, ex_ch := data ! (ex_p e + k)\<rparr> \<and> stops_MF (data ! (ex_p e + k)) \<and>
     (\<forall>i. 0 < i \<and> i < k \<longrightarrow> \<not> stops_MF (data ! (ex_p e + i)))"
proof (induction n arbitrary: e)
  case (Suc n)
  let ?c = "data ! (ex_p e + 1)" and ?e = "e\<lparr>ex_p := ex_p e + 1, ex_ch := data ! (ex_p e + 1)\<rparr>"
  have p: "ex_p e + 1 < length data" using Suc.prems by (simp split: if_splits)
  show ?case
  proof (cases "stops_MF ?c")
    case True
    then show ?thesis
      using Suc.prems p by (intro exI [of _ 1]) (auto simp: stops_MF_def Let_def)
  next
    case False
    then have "MOVE_FAST n data ?e = Goto e'"
      using Suc.prems p by (simp add: stops_MF_def Let_def)
    then obtain k where "0 < k" "k \<le> n" "ex_p e + 1 + k < length data"
      "e' = e\<lparr>ex_p := ex_p e + 1 + k, ex_ch := data ! (ex_p e + 1 + k)\<rparr>"
      "stops_MF (data ! (ex_p e + 1 + k))"
      "\<And>i. 0 < i \<Longrightarrow> i < k \<Longrightarrow> \<not> stops_MF (data ! (ex_p e + 1 + i))"
      using Suc.IH [of ?e] by auto
    moreover have "\<not> stops_MF (data ! (ex_p e + i))" if "0 < i" "i < Suc k" for i
      using that False calculation(6) [of "i - 1"] by (cases "i = 1") auto
    ultimately show ?thesis by (intro exI [of _ "Suc k"]) auto
  qed
qed simp

lemma MOVE_FAST_Through:
  "MOVE_FAST n data e = Through e' \<Longrightarrow>
     e' = e\<lparr>ex_p := ex_p e + n, ex_ch := if n = 0 then ex_ch e else data ! (ex_p e + n)\<rparr> \<and>
     (0 < n \<longrightarrow> ex_p e + n < length data) \<and>
     (\<forall>i. 0 < i \<and> i \<le> n \<longrightarrow> \<not> stops_MF (data ! (ex_p e + i)))"
proof (induction n arbitrary: e)
  case (Suc n)
  let ?e = "e\<lparr>ex_p := ex_p e + 1, ex_ch := data ! (ex_p e + 1)\<rparr>"
  have p: "ex_p e + 1 < length data" "\<not> stops_MF (data ! (ex_p e + 1))" "MOVE_FAST n data ?e = Through e'"
    using Suc.prems by (auto simp: stops_MF_def Let_def split: if_splits)
  note IH = Suc.IH [OF p(3)]
  have "\<not> stops_MF (data ! (ex_p e + i))" if "0 < i" "i \<le> Suc n" for i
    using that p(2) IH [THEN conjunct2, THEN conjunct2, rule_format, of "i - 1"] by (cases "i = 1") auto
  then show ?case using IH p(1) by (cases n) auto
qed simp

lemma MOVE_FAST_PastEnd: "ex_p e + n < length data \<Longrightarrow> MOVE_FAST n data e \<noteq> PastEnd"
  by (induction n arbitrary: e) (auto simp: Let_def)

text \<open>The tests at the label \<^verbatim>\<open>cr_or_lf_or_qt\<close> and the header states other than \<open>h_general\<close>.\<close>

definition header_value_digit :: "'u exec \<Rightarrow> 'u outcome" where
  "header_value_digit e =
     (if ex_ch e = CHR '' '' then Break e
      else if \<not> IS_NUM (ex_ch e) then fail_with HPE_INVALID_CONTENT_LENGTH e
      else if content_length (ex_parser e) > (INT64_MAX - 10) div 10 then fail_with HPE_HUGE_CONTENT_LENGTH e
      else set_content_length (content_length (ex_parser e) * 10) e (\<lambda>e1.
           set_content_length (content_length (ex_parser e1) + digit64 (ex_ch e)) e1 Break))"

definition header_value_other :: "header_states \<Rightarrow> 'u exec \<Rightarrow> 'u outcome" where
  "header_value_other h e =
     (case h of
        h_general_and_quote \<Rightarrow>
          Break (if ex_ch e = QT then set_header_state h_general e
                 else if ex_ch e = BS then set_header_state h_general_and_quote_and_escape e else e)
      | h_general_and_quote_and_escape \<Rightarrow> Break (set_header_state h_general_and_quote e)
      | h_transfer_encoding \<Rightarrow> fail_with HPE_INVALID_HEADER_TOKEN e
      | h_content_length \<Rightarrow> header_value_digit e
      | h_matching_transfer_encoding_chunked \<Rightarrow>
          match_header CHUNKED h_transfer_encoding_chunked (LOWER (ex_ch e)) e
      | h_transfer_encoding_chunked \<Rightarrow>
          Break (if ex_ch e \<noteq> CHR '' '' then set_header_state h_general e else e)
      | _ \<Rightarrow> Break (set_header_state h_general (set_state s_header_value e)))"

definition fast_forward_value :: "byte list \<Rightarrow> 'u exec \<Rightarrow> 'u moved" where
  "fast_forward_value data e =
     (let e1 = (if ex_ch e = QT then set_header_state h_general_and_quote e else e);
          left = length data - ex_p e1 in
      if left \<ge> 12 then MOVE_FAST 11 data e1
      else if left \<ge> 5 then MOVE_FAST 4 data e1 else Through e1)"

lemma fast_forward_value_Goto:
  "fast_forward_value data e = Goto e' \<Longrightarrow> ex_p e < ex_p e' \<and> ex_p e' < length data"
  by (auto simp: fast_forward_value_def Let_def set_header_state_def set_parser_def
      dest!: MOVE_FAST_Goto split: if_splits)

function case_header_value ::
  "'u http_parser_settings \<Rightarrow> byte list \<Rightarrow> 'u exec \<Rightarrow> 'u outcome" where
  "case_header_value S data e =
     (let h = header_state (ex_parser e) in
      if ex_ch e = CR \<and> h \<noteq> h_general_and_quote_and_escape then
        CALLBACK_DATA S data FOR_header_value (set_state s_header_almost_done e) Break
      else if ex_ch e = LF \<and> h \<noteq> h_general_and_quote_and_escape then
        CALLBACK_DATA_NOADVANCE S data FOR_header_value (set_state s_header_almost_done e) Reexec
      else if \<not> IS_HEADER_CHAR (ex_ch e) \<and> h \<noteq> h_general_and_quote_and_escape then
        fail_with HPE_INVALID_HEADER_TOKEN e
      else if h = h_general then
        (case fast_forward_value data e of
           Goto e1 \<Rightarrow> case_header_value S data e1
         | Through e1 \<Rightarrow> Break e1
         | PastEnd \<Rightarrow> Abort OutOfBounds)
      else header_value_other h e)"
  by pat_completeness auto
termination
  by (relation "measure (\<lambda>(S, data, e). length data - ex_p e)")
    (auto dest: fast_forward_value_Goto)

declare case_header_value.simps [simp del]

definition case_header_almost_done where
  "case_header_almost_done S e =
     (let e1 = set_state (if ex_ch e = LF then s_header_value_lws else s_header_value) e;
          e2 = (if header_state (ex_parser e1) = h_transfer_encoding_chunked
                then set_parser (\<lambda>q. q\<lparr>flags := flags q OR F_CHUNKED\<rparr>) e1 else e1) in
      if ex_ch e \<noteq> LF then CALLBACK_SPACE S e2 Break else Break e2)"

definition case_header_value_lws where
  "case_header_value_lws S e =
     (if ex_ch e = CHR '' '' \<or> ex_ch e = CHR 0x09 then
        CALLBACK_SPACE S (set_state s_header_value_start e) Break
      else Reexec (set_state s_header_field_start e))"

section \<open>End of the headers\<close>

definition has_flag :: "flags \<Rightarrow> http_parser \<Rightarrow> bool" where
  "has_flag f q \<longleftrightarrow> flags q AND f \<noteq> 0"

definition case_headers_almost_done where
  "case_headers_almost_done S e =
     (if ex_ch e \<noteq> LF then fail_with HPE_STRICT e
      else if has_flag F_TRAILING (ex_parser e) then
        CALLBACK_NOTIFY_NOADVANCE S FOR_chunk_complete (set_state s_message_done e) Reexec
      else
        let e1 = set_parser (\<lambda>q. q\<lparr>upgrade := (has_flag F_UPGRADE q \<or> p_method q = HTTP_CONNECT)\<rparr>)
                   (set_state s_headers_done e) in
        case on_headers_complete S (ex_parser e1) (ex_user e1) (ex_p e1 + 1) of (r, q, u) \<Rightarrow>
          let e2 = e1\<lparr>ex_parser := q, ex_user := u\<rparr> in
          if r \<noteq> 0 \<and> r \<noteq> 1 then RETURN (ex_p e2) (SET_ERRNO HPE_CB_headers_complete e2)
          else
            let e3 = (if r = 1 then set_parser (\<lambda>q. q\<lparr>flags := flags q OR F_SKIPBODY\<rparr>) e2 else e2) in
            if http_errno (ex_parser e3) \<noteq> HPE_OK then RETURN (ex_p e3) e3 else Reexec e3)"

definition case_headers_done where
  "case_headers_done S e =
     (let e1 = (set_parser (\<lambda>q. q\<lparr>nread := 0\<rparr>) e)\<lparr>ex_start := ex_p e\<rparr>;
          q = ex_parser e1;
          hasBody = (has_flag F_CHUNKED q \<or> content_length q > 0);
          new_message = set_state (NEW_MESSAGE q) e1 in
      if upgrade q \<and> (p_method q = HTTP_CONNECT \<or> has_flag F_SKIPBODY q \<or> \<not> hasBody) then
        CALLBACK_NOTIFY S FOR_message_complete new_message (\<lambda>e2. RETURN (ex_p e2 + 1) e2)
      else if has_flag F_SKIPBODY q then CALLBACK_NOTIFY S FOR_message_complete new_message Break
      else if has_flag F_CHUNKED q then Break (set_state s_chunk_size_start e1)
      else if content_length q = 0 then CALLBACK_NOTIFY S FOR_message_complete new_message Break
      else if content_length q > 0 then Break (set_state s_body_identity e1)
      else if p_type q = HTTP_REQUEST \<or> 100 \<le> status_code q \<and> status_code q \<le> 199 \<or>
              status_code q = 204 \<or> status_code q = 304 then
        CALLBACK_NOTIFY S FOR_message_complete new_message Break
      else Break (set_state s_body_identity_eof e1))"

section \<open>Bodies\<close>

definition case_body_identity where
  "case_body_identity S data e =
     (let to_read = min (content_length (ex_parser e)) (int (length data - ex_p e)) in
      if \<not> content_length (ex_parser e) > 0 then Abort AssertFail
      else set_content_length (content_length (ex_parser e) - to_read) (MARK FOR_body e) (\<lambda>e1.
        let e2 = e1\<lparr>ex_p := ex_p e1 + nat to_read - 1\<rparr> in
        if content_length (ex_parser e2) = 0 then
          callback_data S data FOR_body (ex_p e2 + 1) (ex_p e2) (set_state s_message_done e2) Reexec
        else Break e2))"

definition case_body_identity_eof :: "byte list \<Rightarrow> 'u exec \<Rightarrow> 'u outcome" where
  "case_body_identity_eof data e = Break ((MARK FOR_body e)\<lparr>ex_p := length data - 1\<rparr>)"

definition case_message_done where
  "case_message_done S e =
     (let e1 = (set_parser (\<lambda>q. q\<lparr>nread := 0\<rparr>) (set_state (NEW_MESSAGE (ex_parser e)) e))\<lparr>ex_start := ex_p e\<rparr> in
      CALLBACK_NOTIFY S FOR_message_complete e1 (\<lambda>e2.
        if upgrade (ex_parser e2) then RETURN (ex_p e2 + 1) e2 else Break e2))"

section \<open>Chunks\<close>

text \<open>\<^verbatim>\<open>assert(parser->flags & F_CHUNKED)\<close>\<close>

definition assert_chunked :: "'u exec \<Rightarrow> 'u outcome \<Rightarrow> 'u outcome" where
  "assert_chunked e r = (if has_flag F_CHUNKED (ex_parser e) then r else Abort AssertFail)"

definition case_chunk_size_start :: "'u exec \<Rightarrow> 'u outcome" where
  "case_chunk_size_start e =
     assert_chunked e (
       let unhex_val = unhex ! of_char (ex_ch e) in
       if unhex_val = -1 then fail_with HPE_INVALID_CHUNK_SIZE e
       else set_content_length unhex_val e (\<lambda>e1. Break (set_state s_chunk_size e1)))"

definition case_chunk_size :: "'u exec \<Rightarrow> 'u outcome" where
  "case_chunk_size e =
     assert_chunked e (
       if ex_ch e = CR then Break (set_state s_chunk_size_almost_done e)
       else
         let unhex_val = unhex ! of_char (ex_ch e) in
         if unhex_val = -1 then
           (if ex_ch e = CHR '';'' \<or> ex_ch e = CHR '' '' then Break (set_state s_chunk_parameters e)
            else fail_with HPE_INVALID_CHUNK_SIZE e)
         else if content_length (ex_parser e) > drop_bit 4 (INT64_MAX - unhex_val) then
           fail_with HPE_HUGE_CHUNK_SIZE e
         else set_content_length (content_length (ex_parser e) * 16) e (\<lambda>e1.
              set_content_length (content_length (ex_parser e1) + unhex_val) e1 Break))"

definition case_chunk_parameters :: "'u exec \<Rightarrow> 'u outcome" where
  "case_chunk_parameters e =
     assert_chunked e (if ex_ch e = CR then Break (set_state s_chunk_size_almost_done e) else Break e)"

definition case_chunk_size_almost_done where
  "case_chunk_size_almost_done S e =
     assert_chunked e (
       if content_length (ex_parser e) = 0 then
         CALLBACK_NOTIFY S FOR_chunk_header
           (set_state s_header_field_start (set_parser (\<lambda>q. q\<lparr>flags := flags q OR F_TRAILING\<rparr>) e)) Break
       else CALLBACK_NOTIFY S FOR_chunk_header (set_state s_chunk_data e) Break)"

definition case_chunk_data :: "byte list \<Rightarrow> 'u exec \<Rightarrow> 'u outcome" where
  "case_chunk_data data e =
     (let to_read = min (content_length (ex_parser e)) (int (length data - ex_p e)) in
      assert_chunked e (
      if \<not> content_length (ex_parser e) > 0 then Abort AssertFail
      else set_content_length (content_length (ex_parser e) - to_read) (MARK FOR_body e) (\<lambda>e1.
        let e2 = e1\<lparr>ex_p := ex_p e1 + nat to_read - 1\<rparr> in
        Break (if content_length (ex_parser e2) = 0 then set_state s_chunk_data_almost_done e2 else e2))))"

definition case_chunk_data_almost_done where
  "case_chunk_data_almost_done S data e =
     assert_chunked e (
       if content_length (ex_parser e) \<noteq> 0 then Abort AssertFail
       else CALLBACK_DATA S data FOR_body (set_state s_chunk_data_done e) Break)"

definition case_chunk_data_done where
  "case_chunk_data_done S e =
     assert_chunked e (
       CALLBACK_NOTIFY S FOR_chunk_complete
         ((set_parser (\<lambda>q. q\<lparr>nread := 0\<rparr>) (set_state s_chunk_size_start e))\<lparr>ex_start := ex_p e\<rparr>) Break)"

section \<open>The switch and the loop\<close>

definition exec_switch :: "'u http_parser_settings \<Rightarrow> byte list \<Rightarrow> 'u exec \<Rightarrow> 'u outcome" where
  "exec_switch S data e = (case ex_state e of
     s_pre_start_req_or_res \<Rightarrow> case_pre_start_req_or_res S e
   | s_start_req_or_res \<Rightarrow> case_start_req_or_res e
   | s_res_or_resp_H \<Rightarrow> case_res_or_resp_H e
   | s_pre_start_res \<Rightarrow> case_pre_start_res S e
   | s_start_res \<Rightarrow> case_start_res e
   | s_res_H \<Rightarrow> case_res_H e
   | s_res_HT \<Rightarrow> case_res_HT e
   | s_res_HTT \<Rightarrow> case_res_HTT e
   | s_res_HTTP \<Rightarrow> case_res_HTTP e
   | s_res_first_http_major \<Rightarrow> case_res_first_http_major e
   | s_res_http_major \<Rightarrow> case_res_http_major e
   | s_res_first_http_minor \<Rightarrow> case_res_first_http_minor e
   | s_res_http_minor \<Rightarrow> case_res_http_minor e
   | s_res_first_status_code \<Rightarrow> case_res_first_status_code e
   | s_res_status_code \<Rightarrow> case_res_status_code e
   | s_res_status \<Rightarrow> case_res_status S data e
   | s_res_line_almost_done \<Rightarrow> case_res_line_almost_done e
   | s_pre_start_req \<Rightarrow> case_pre_start_req S e
   | s_start_req \<Rightarrow> case_start_req e
   | s_req_method \<Rightarrow> case_req_method e
   | s_req_spaces_before_url \<Rightarrow> case_req_spaces_before_url e
   | s_req_schema \<Rightarrow> case_req_schema e
   | s_req_schema_slash \<Rightarrow> case_req_schema_slash e
   | s_req_schema_slash_slash \<Rightarrow> case_req_schema_slash_slash e
   | s_req_host_start \<Rightarrow> case_req_host_start e
   | s_req_host \<Rightarrow> case_req_host e
   | s_req_host_ipv6 \<Rightarrow> case_req_host_ipv6 e
   | s_req_host_done \<Rightarrow> case_req_host_done S data e
   | s_req_port \<Rightarrow> case_req_port S data e
   | s_req_path \<Rightarrow> case_req_path S data e
   | s_req_query_string_start \<Rightarrow> case_req_query_string_start S data e
   | s_req_query_string \<Rightarrow> case_req_query_string S data e
   | s_req_fragment_start \<Rightarrow> case_req_fragment_start S data e
   | s_req_fragment \<Rightarrow> case_req_fragment S data e
   | s_req_http_start \<Rightarrow> case_req_http_start e
   | s_req_http_H \<Rightarrow> case_req_http_H e
   | s_req_http_HT \<Rightarrow> case_req_http_HT e
   | s_req_http_HTT \<Rightarrow> case_req_http_HTT e
   | s_req_http_HTTP \<Rightarrow> case_req_http_HTTP e
   | s_req_first_http_major \<Rightarrow> case_req_first_http_major e
   | s_req_http_major \<Rightarrow> case_req_http_major e
   | s_req_first_http_minor \<Rightarrow> case_req_first_http_minor e
   | s_req_http_minor \<Rightarrow> case_req_http_minor e
   | s_req_line_almost_done \<Rightarrow> case_req_line_almost_done e
   | s_header_field_start \<Rightarrow> case_header_field_start e
   | s_header_field \<Rightarrow> case_header_field S data e
   | s_header_value_start \<Rightarrow> case_header_value_start S data e
   | s_header_value \<Rightarrow> case_header_value S data e
   | s_header_almost_done \<Rightarrow> case_header_almost_done S e
   | s_header_value_lws \<Rightarrow> case_header_value_lws S e
   | s_headers_almost_done \<Rightarrow> case_headers_almost_done S e
   | s_headers_done \<Rightarrow> case_headers_done S e
   | s_body_identity \<Rightarrow> case_body_identity S data e
   | s_body_identity_eof \<Rightarrow> case_body_identity_eof data e
   | s_message_done \<Rightarrow> case_message_done S e
   | s_chunk_size_start \<Rightarrow> case_chunk_size_start e
   | s_chunk_size \<Rightarrow> case_chunk_size e
   | s_chunk_parameters \<Rightarrow> case_chunk_parameters e
   | s_chunk_size_almost_done \<Rightarrow> case_chunk_size_almost_done S e
   | s_chunk_data \<Rightarrow> case_chunk_data data e
   | s_chunk_data_almost_done \<Rightarrow> case_chunk_data_almost_done S data e
   | s_chunk_data_done \<Rightarrow> case_chunk_data_done S e
   | _ \<Rightarrow> Abort AssertFail)"

text \<open>A jump to \<^verbatim>\<open>reexecute_byte\<close> goes to a state of lower rank, so it ends after a few rounds, and
  never into a header name or value; no case moves the position backwards or past the last byte.\<close>

fun rank :: "state \<Rightarrow> nat" where
  "rank s_pre_start_req_or_res = 3" | "rank s_start_req_or_res = 2"
| "rank s_pre_start_res = 1" | "rank s_pre_start_req = 1" | "rank s_req_spaces_before_url = 1"
| "rank s_req_host = 1" | "rank s_header_value = 1" | "rank s_body_identity = 1"
| "rank s_header_value_lws = 3" | "rank s_header_field_start = 2" | "rank s_headers_almost_done = 1"
| "rank _ = 0"

definition moves :: "byte list \<Rightarrow> 'u exec \<Rightarrow> 'u outcome \<Rightarrow> bool" where
  "moves data e r = (case r of
     Break e' \<Rightarrow> ex_p e \<le> ex_p e' \<and> ex_p e' < length data
   | Reexec e' \<Rightarrow> rank (ex_state e') < rank (ex_state e) \<and> ex_p e \<le> ex_p e' \<and> ex_p e' < length data \<and>
       ex_state e' \<noteq> s_header_field \<and> ex_state e' \<noteq> s_header_value
   | _ \<Rightarrow> True)"

lemma moves_simps [simp]:
  "moves data e (Break e') \<longleftrightarrow> ex_p e \<le> ex_p e' \<and> ex_p e' < length data"
  "moves data e (Reexec e') \<longleftrightarrow>
     rank (ex_state e') < rank (ex_state e) \<and> ex_p e \<le> ex_p e' \<and> ex_p e' < length data \<and>
     ex_state e' \<noteq> s_header_field \<and> ex_state e' \<noteq> s_header_value"
  "moves data e (Error e')" "moves data e (Return e' n)" "moves data e (Abort x)"
  "moves data e (RETURN n e')" "moves data e (fail_with m e')"
  by (simp_all add: moves_def RETURN_def fail_with_def)

lemmas exec_update_defs = set_parser_def set_state_def SET_ERRNO_def store_state_def MARK_def
  set_header_state_def version_0_9_def

lemma exec_update_simps [simp]:
  "ex_p (set_parser f e) = ex_p e" "ex_p (set_state s e) = ex_p e" "ex_p (SET_ERRNO n e) = ex_p e"
  "ex_p (store_state e) = ex_p e" "ex_p (MARK F e) = ex_p e" "ex_p (set_header_state h e) = ex_p e"
  "ex_p (version_0_9 e) = ex_p e"
  "ex_state (set_parser f e) = ex_state e" "ex_state (set_state s e) = s"
  "ex_state (SET_ERRNO n e) = ex_state e" "ex_state (store_state e) = ex_state e"
  "ex_state (MARK F e) = ex_state e" "ex_state (set_header_state h e) = ex_state e"
  "ex_state (version_0_9 e) = ex_state e"
  by (simp_all add: exec_update_defs)

lemma moves_callback [simp]:
  assumes "\<And>e'. ex_p e' = ex_p e0 \<Longrightarrow> ex_state e' = ex_state e0 \<Longrightarrow> moves data e (k e')"
  shows "moves data e (CALLBACK_NOTIFY S F e0 k)" "moves data e (CALLBACK_NOTIFY_NOADVANCE S F e0 k)"
    "moves data e (callback_data S d D q er e0 k)"
    "moves data e (CALLBACK_DATA S d D e0 k)" "moves data e (CALLBACK_DATA_NOADVANCE S d D e0 k)"
    "moves data e (CALLBACK_SPACE S e0 k)" "moves data e (set_content_length n e0 k)"
  using assms
  by (auto simp: CALLBACK_NOTIFY_def CALLBACK_NOTIFY_NOADVANCE_def callback_notify_def
      CALLBACK_DATA_def CALLBACK_DATA_NOADVANCE_def callback_data_def CALLBACK_SPACE_def
      set_content_length_def Let_def split: prod.splits option.splits)


lemma notatoken_moves:
  "ex_p e \<le> ex_p e' \<Longrightarrow> ex_p e' < length data \<Longrightarrow> moves data e (notatoken S data e')"
  by (auto simp: notatoken_def Let_def split: option.splits)

lemma match_header_moves:
  "ex_p e < length data \<Longrightarrow> moves data e (match_header n m c e)"
  by (auto simp: match_header_def Let_def split: sum.splits)

lemma case_header_field_moves:
  assumes "ex_p e < length data"
  shows "moves data e (case_header_field S data e)"
  using assms
  by (auto simp: case_header_field_def fast_forward_field_def Let_def match_header_moves notatoken_moves
      dest!: MOVE_THE_HEAD_Goto MOVE_THE_HEAD_Through split: header_states.splits moved.splits if_splits)

lemma header_value_other_moves:
  "ex_p e \<le> ex_p e' \<Longrightarrow> ex_p e' < length data \<Longrightarrow> moves data e (header_value_other h e')"
  by (auto simp: header_value_other_def header_value_digit_def match_header_def Let_def
      split: header_states.splits sum.splits)

lemma fast_forward_value_Through:
  "fast_forward_value data e = Through e' \<Longrightarrow> ex_p e < length data \<Longrightarrow>
   ex_p e \<le> ex_p e' \<and> ex_p e' < length data"
  by (auto simp: fast_forward_value_def Let_def dest!: MOVE_FAST_Through split: if_splits)

lemma case_header_value_moves:
  assumes "ex_p e \<le> ex_p e'" "ex_p e' < length data" "ex_state e = s_header_value"
  shows "moves data e (case_header_value S data e')"
  using assms
proof (induction S data e' rule: case_header_value.induct)
  case (1 S data e')
  have g: "moves data e (case_header_value S data e2)"
    if "fast_forward_value data e' = Goto e2" "header_state (ex_parser e') = h_general"
      "ex_ch e' \<noteq> CR" "ex_ch e' \<noteq> LF" "IS_HEADER_CHAR (ex_ch e')" for e2
    using that 1 fast_forward_value_Goto [OF that(1)] by auto
  show ?case
    using 1(2-4) g fast_forward_value_Through [of data e']
    by (subst case_header_value.simps) (auto simp: Let_def header_value_other_moves split: moved.splits)
qed

lemmas case_defs = case_pre_start_req_or_res_def case_start_req_or_res_def case_res_or_resp_H_def
  case_pre_start_res_def case_start_res_def case_res_H_def case_res_HT_def case_res_HTT_def
  case_res_HTTP_def case_res_first_http_major_def case_res_http_major_def case_res_first_http_minor_def
  case_res_http_minor_def case_res_first_status_code_def case_res_status_code_def case_res_status_def
  case_res_line_almost_done_def case_pre_start_req_def case_start_req_def case_req_method_def
  case_req_spaces_before_url_def case_req_schema_def case_req_schema_slash_def
  case_req_schema_slash_slash_def case_req_host_start_def case_req_host_def case_req_host_ipv6_def
  case_req_host_done_def case_req_port_def case_req_path_def case_req_query_string_start_def
  case_req_query_string_def case_req_fragment_start_def case_req_fragment_def case_req_http_start_def
  case_req_http_H_def case_req_http_HT_def case_req_http_HTT_def case_req_http_HTTP_def
  case_req_first_http_major_def case_req_http_major_def case_req_first_http_minor_def
  case_req_http_minor_def case_req_line_almost_done_def case_header_field_start_def
  case_header_value_start_def case_header_almost_done_def case_header_value_lws_def
  case_headers_almost_done_def case_headers_done_def case_body_identity_eof_def
  case_message_done_def case_chunk_size_start_def case_chunk_size_def case_chunk_parameters_def
  case_chunk_size_almost_done_def case_chunk_data_almost_done_def
  case_chunk_data_done_def

lemma to_read_bounds:
  assumes "p < (n :: nat)" "0 < (cl :: int)"
  shows "p \<le> p + nat (min cl (int (n - p))) - 1" "p + nat (min cl (int (n - p))) - 1 < n"
  using assms by (auto simp: min_def)

lemma case_body_moves:
  assumes "ex_p e < length data"
  shows "ex_state e = s_body_identity \<Longrightarrow> moves data e (case_body_identity S data e)"
    and "moves data e (case_chunk_data data e)"
  using to_read_bounds [OF assms, of "content_length (ex_parser e)"]
  by (auto simp: case_body_identity_def case_chunk_data_def assert_chunked_def set_content_length_def Let_def
      simp del: of_nat_diff)

lemma exec_switch_moves:
  assumes "ex_p e < length data"
  shows "moves data e (exec_switch S data e)"
  using assms
  by (cases "ex_state e")
    (auto simp: exec_switch_def case_header_field_moves case_header_value_moves case_body_moves
      case_defs assert_chunked_def Let_def
      split: option.splits sum.splits bool.splits header_states.splits prod.splits)


text \<open>\<open>exec_byte\<close> is one iteration of the loop: the switch, again after each jump to
  \<^verbatim>\<open>reexecute_byte\<close>. It is entered with the position inside the input.\<close>

function exec_byte :: "'u http_parser_settings \<Rightarrow> byte list \<Rightarrow> 'u exec \<Rightarrow> 'u outcome" where
  "exec_byte S data e =
     (if ex_p e < length data then
        case exec_switch S data e of
          Reexec e' \<Rightarrow> exec_byte S data e'
        | r \<Rightarrow> r
      else Abort OutOfBounds)"
  by pat_completeness auto
termination
proof (relation "measure (\<lambda>(S, data, e). rank (ex_state e))", simp)
  fix S :: "'u http_parser_settings" and data e e'
  assume "ex_p e < length data" "exec_switch S data e = Reexec e'"
  then show "((S, data, e'), S, data, e) \<in> measure (\<lambda>(S, data, e). rank (ex_state e))"
    using exec_switch_moves [of e data S] by simp
qed

declare exec_byte.simps [simp del]

lemma exec_byte_Break:
  "exec_byte S data e = Break e' \<Longrightarrow> ex_p e \<le> ex_p e' \<and> ex_p e' < length data"
proof (induction S data e rule: exec_byte.induct)
  case (1 S data e)
  show ?case
  proof (cases "ex_p e < length data")
    case True
    then show ?thesis
      using 1 exec_switch_moves [OF True, of S]
      by (subst (asm) (2) exec_byte.simps) (fastforce split: outcome.splits if_splits)
  next
    case False
    then show ?thesis using 1(2) by (simp add: exec_byte.simps)
  qed
qed

text \<open>What follows the loop: the overflow check of the headers, the assertion that at most one mark
  is left, the callbacks for it. \<open>exec_error\<close> is the code at the label \<^verbatim>\<open>error\<close>.\<close>

definition exec_error :: "'u exec \<Rightarrow> 'u outcome" where
  "exec_error e =
     (let e1 = (if http_errno (ex_parser e) = HPE_OK then SET_ERRNO HPE_UNKNOWN e else e) in
      RETURN (ex_p e1) e1)"

definition set_marks :: "'u exec \<Rightarrow> nat" where
  "set_marks e = length (filter (\<lambda>F. ex_marks e F \<noteq> None)
     [FOR_header_field, FOR_header_value, FOR_url, FOR_reason, FOR_body])"

definition exec_leftover where
  "exec_leftover S data e =
     (if set_marks e \<le> 1 then
        CALLBACK_DATA_NOADVANCE S data FOR_header_field e (\<lambda>e1.
        CALLBACK_DATA_NOADVANCE S data FOR_header_value e1 (\<lambda>e2.
        CALLBACK_DATA_NOADVANCE S data FOR_url e2 (\<lambda>e3.
        CALLBACK_DATA_NOADVANCE S data FOR_reason e3 (\<lambda>e4.
        CALLBACK_DATA_NOADVANCE S data FOR_body e4 (\<lambda>e5. RETURN (length data) e5)))))
      else Abort AssertFail)"

definition exec_finish where
  "exec_finish S data e =
     (if PARSING_HEADER (ex_state e) then
        let e1 = set_parser (\<lambda>q. q\<lparr>nread := nread q + of_nat (ex_p e - ex_start e)\<rparr>) e in
        if unat (nread (ex_parser e1)) > HTTP_MAX_HEADER_SIZE
        then exec_error (SET_ERRNO HPE_HEADER_OVERFLOW e1)
        else exec_leftover S data e1
      else exec_leftover S data e)"

text \<open>The loop \<^verbatim>\<open>for (p = data; p != data + len; p++)\<close>.\<close>

function exec_loop :: "'u http_parser_settings \<Rightarrow> byte list \<Rightarrow> 'u exec \<Rightarrow> 'u outcome" where
  "exec_loop S data e =
     (if ex_p e = length data then exec_finish S data e
      else if ex_p e > length data then Abort OutOfBounds
      else case exec_byte S data (e\<lparr>ex_ch := data ! ex_p e\<rparr>) of
        Break e' \<Rightarrow> exec_loop S data (e'\<lparr>ex_p := ex_p e' + 1\<rparr>)
      | Error e' \<Rightarrow> exec_error e'
      | r \<Rightarrow> r)"
  by pat_completeness auto
termination
proof (relation "measure (\<lambda>(S, data, e). length data - ex_p e)", simp)
  fix S :: "'u http_parser_settings" and data e e'
  assume "\<not> ex_p e > length data" "exec_byte S data (e\<lparr>ex_ch := data ! ex_p e\<rparr>) = Break e'"
  then show "((S, data, e'\<lparr>ex_p := ex_p e' + 1\<rparr>), S, data, e) \<in> measure (\<lambda>(S, data, e). length data - ex_p e)"
    using exec_byte_Break [of S data "e\<lparr>ex_ch := data ! ex_p e\<rparr>" e'] by auto
qed

declare exec_loop.simps [simp del]

section \<open>Entry points\<close>

text \<open>The marks at entry: the parser may have stopped inside a token at the end of the last input.\<close>

definition initial_marks :: "state \<Rightarrow> data_for \<rightharpoonup> nat" where
  "initial_marks s = (\<lambda>F. case F of
     FOR_header_field \<Rightarrow> if s = s_header_field then Some 0 else None
   | FOR_header_value \<Rightarrow> if s = s_header_value then Some 0 else None
   | FOR_url \<Rightarrow>
       if s \<in> {s_req_path, s_req_schema, s_req_schema_slash, s_req_schema_slash_slash, s_req_port,
          s_req_query_string_start, s_req_query_string, s_req_host_start, s_req_host,
          s_req_host_ipv6, s_req_host_done, s_req_fragment_start, s_req_fragment} then Some 0 else None
   | FOR_reason \<Rightarrow> if s = s_res_status then Some 0 else None
   | FOR_body \<Rightarrow> None)"

text \<open>\<open>http_parser_execute\<close> yields the number of bytes it returns, the parser and the user's data,
  or the error that aborts it.\<close>

definition exec_result :: "'u outcome \<Rightarrow> (nat \<times> http_parser \<times> 'u) result" where
  "exec_result r = (case r of
     Return e n \<Rightarrow> Inr (n, ex_parser e, ex_user e)
   | Abort x \<Rightarrow> Inl x
   | _ \<Rightarrow> Inl AssertFail)"

definition exec_init :: "http_parser \<Rightarrow> 'u \<Rightarrow> 'u exec" where
  "exec_init q u = \<lparr>ex_parser = q, ex_user = u, ex_state = p_state q, ex_p = 0, ex_ch = CHR 0x00,
     ex_marks = (\<lambda>_. None), ex_start = 0\<rparr>"

definition exec_eof where
  "exec_eof S e =
     (case ex_state e of
        s_body_identity_eof \<Rightarrow> CALLBACK_NOTIFY_NOADVANCE S FOR_message_complete e (RETURN 0)
      | s_pre_start_req_or_res \<Rightarrow> RETURN 0 e
      | s_pre_start_res \<Rightarrow> RETURN 0 e
      | s_pre_start_req \<Rightarrow> RETURN 0 e
      | _ \<Rightarrow> RETURN 1 (SET_ERRNO HPE_INVALID_EOF_STATE e))"

definition http_parser_execute ::
  "'u http_parser_settings \<Rightarrow> byte list \<Rightarrow> http_parser \<Rightarrow> 'u \<Rightarrow> (nat \<times> http_parser \<times> 'u) result" where
  "http_parser_execute S data q u =
     (let e = exec_init q u in
      exec_result
        (if http_errno q \<noteq> HPE_OK then RETURN 0 e
         else if data = [] then exec_eof S e
         else exec_loop S data (e\<lparr>ex_marks := initial_marks (p_state q)\<rparr>)))"

definition http_parser_init :: "http_parser_type \<Rightarrow> http_parser \<Rightarrow> http_parser" where
  "http_parser_init t q = q\<lparr>p_type := t,
     p_state := (if t = HTTP_REQUEST then s_pre_start_req
                 else if t = HTTP_RESPONSE then s_pre_start_res else s_pre_start_req_or_res),
     nread := 0, upgrade := False, flags := 0, p_method := HTTP_DELETE, http_errno := HPE_OK\<rparr>"

definition http_parser_pause :: "bool \<Rightarrow> http_parser \<Rightarrow> http_parser result" where
  "http_parser_pause paused q =
     (if http_errno q = HPE_OK \<or> http_errno q = HPE_PAUSED
      then Inr (q\<lparr>http_errno := (if paused then HPE_PAUSED else HPE_OK)\<rparr>)
      else Inl AssertFail)"

end
