(* ===== verification/Http_Exec_Inv.thy ===== *)
theory Http_Exec_Inv
  imports Http_Exec
begin

text \<open>
  Safety of \<^verbatim>\<open>http_parser_execute\<close>: with callbacks that leave the parser alone except for pausing it
  (\<^verbatim>\<open>"callbacks aren't allowed to change the parser state"\<close>), no assertion of the state machine
  fails, no byte outside the input is read, no signed arithmetic overflows, and the parser is left
  in a state from which the next call is safe again. The contract of the callbacks is the locale
  \<open>parser_callbacks\<close>.
\<close>

section \<open>Invariant\<close>

definition chunked :: "http_parser \<Rightarrow> bool" where
  "chunked q \<longleftrightarrow> has_flag F_CHUNKED q"

text \<open>What the fields of the parser satisfy in each state, independent of the input.\<close>

definition state_inv :: "state \<Rightarrow> http_parser \<Rightarrow> bool" where
  "state_inv s q \<longleftrightarrow> - (2 ^ 63) \<le> content_length q \<and> content_length q \<le> INT64_MAX \<and>
     (case s of
        s_dead \<Rightarrow> False | s_res_status_start \<Rightarrow> False | s_req_server_start \<Rightarrow> False
      | s_req_server \<Rightarrow> False | s_req_server_with_at \<Rightarrow> False
      | s_req_method \<Rightarrow> unat (p_index q) \<le> length (method_strings (p_method q))
      | s_header_field \<Rightarrow> header_state q \<in> {h_general, h_matching_content_length, h_matching_transfer_encoding,
          h_matching_upgrade, h_content_length, h_transfer_encoding, h_upgrade}
      | s_header_value \<Rightarrow> header_state q = h_content_length \<longrightarrow> 0 \<le> content_length q
      | s_header_almost_done \<Rightarrow> header_state q = h_content_length \<longrightarrow> 0 \<le> content_length q
      | s_body_identity \<Rightarrow> 0 < content_length q
      | s_chunk_size_start \<Rightarrow> chunked q
      | s_chunk_size \<Rightarrow> chunked q \<and> 0 \<le> content_length q
      | s_chunk_parameters \<Rightarrow> chunked q \<and> 0 \<le> content_length q
      | s_chunk_size_almost_done \<Rightarrow> chunked q \<and> 0 \<le> content_length q
      | s_chunk_data \<Rightarrow> chunked q \<and> 0 < content_length q
      | s_chunk_data_almost_done \<Rightarrow> chunked q \<and> content_length q = 0
      | s_chunk_data_done \<Rightarrow> chunked q
      | _ \<Rightarrow> True)"

lemma has_flag_simps [simp]:
  "has_flag f (q\<lparr>p_state := s\<rparr>) = has_flag f q" "has_flag f (q\<lparr>http_errno := n\<rparr>) = has_flag f q"
  "has_flag f (q\<lparr>nread := x\<rparr>) = has_flag f q" "has_flag f (q\<lparr>content_length := c\<rparr>) = has_flag f q"
  "has_flag f (q\<lparr>upgrade := b\<rparr>) = has_flag f q"
  by (simp_all add: has_flag_def)

lemma has_flag_or: "has_flag f q \<Longrightarrow> has_flag f (q\<lparr>flags := flags q OR g\<rparr>)"
  by (auto simp: has_flag_def bit_eq_iff bit_simps)

lemma state_inv_simps [simp]:
  "state_inv s (q\<lparr>p_state := s'\<rparr>) = state_inv s q" "state_inv s (q\<lparr>http_errno := n\<rparr>) = state_inv s q"
  "state_inv s (q\<lparr>nread := x\<rparr>) = state_inv s q" "state_inv s (q\<lparr>upgrade := b\<rparr>) = state_inv s q"
  by (cases s; simp add: state_inv_def chunked_def)+

lemma state_inv_range: "state_inv s q \<Longrightarrow> - (2 ^ 63) \<le> content_length q \<and> content_length q \<le> INT64_MAX"
  by (simp add: state_inv_def)

definition mark_state :: "data_for \<Rightarrow> state \<Rightarrow> bool" where
  "mark_state F s = (case F of
     FOR_header_field \<Rightarrow> s = s_header_field
   | FOR_header_value \<Rightarrow> s = s_header_value
   | FOR_url \<Rightarrow> s \<in> {s_req_path, s_req_schema, s_req_schema_slash, s_req_schema_slash_slash, s_req_port,
       s_req_query_string_start, s_req_query_string, s_req_host_start, s_req_host, s_req_host_ipv6,
       s_req_host_done, s_req_fragment_start, s_req_fragment}
   | FOR_reason \<Rightarrow> s = s_res_status
   | FOR_body \<Rightarrow> s \<in> {s_body_identity, s_body_identity_eof, s_chunk_data, s_chunk_data_almost_done})"

definition marks_inv :: "'u exec \<Rightarrow> bool" where
  "marks_inv e \<longleftrightarrow> (\<forall>F m. ex_marks e F = Some m \<longrightarrow> m \<le> ex_p e \<and> mark_state F (ex_state e)) \<and>
     (ex_state e = s_header_field \<longrightarrow> ex_marks e FOR_header_field \<noteq> None)"

lemma all_data_for:
  "(\<forall>F. P F) \<longleftrightarrow> P FOR_header_field \<and> P FOR_header_value \<and> P FOR_url \<and> P FOR_reason \<and> P FOR_body"
  by (metis data_for.exhaust)

definition exec_inv :: "'u exec \<Rightarrow> bool" where
  "exec_inv e \<longleftrightarrow> http_errno (ex_parser e) = HPE_OK \<and> state_inv (ex_state e) (ex_parser e) \<and> marks_inv e"

text \<open>Between two calls: a parser that is not in an error state satisfies the invariant of its state.\<close>

definition parser_inv :: "http_parser \<Rightarrow> bool" where
  "parser_inv q \<longleftrightarrow> http_errno q \<in> {HPE_OK, HPE_PAUSED} \<longrightarrow> state_inv (p_state q) q"

text \<open>The whole input is consumed unless an error, a pause or a protocol upgrade stops the parser.\<close>

definition returned :: "byte list \<Rightarrow> nat \<Rightarrow> http_parser \<Rightarrow> bool" where
  "returned data n q \<longleftrightarrow> n \<le> length data \<and> parser_inv q \<and>
     (http_errno q = HPE_OK \<and> \<not> upgrade q \<longrightarrow> n = length data)"

definition safe :: "byte list \<Rightarrow> 'u outcome \<Rightarrow> bool" where
  "safe data r = (case r of
     Break e \<Rightarrow> exec_inv e \<and> ex_p e < length data
   | Reexec e \<Rightarrow> exec_inv e \<and> ex_p e < length data
   | Error e \<Rightarrow> http_errno (ex_parser e) \<notin> {HPE_PAUSED} \<and> ex_p e \<le> length data
   | Return e n \<Rightarrow> returned data n (ex_parser e)
   | Abort x \<Rightarrow> False)"

lemma safe_simps [simp]:
  "safe data (Break e) \<longleftrightarrow> exec_inv e \<and> ex_p e < length data"
  "safe data (Reexec e) \<longleftrightarrow> exec_inv e \<and> ex_p e < length data"
  "safe data (Error e) \<longleftrightarrow> http_errno (ex_parser e) \<noteq> HPE_PAUSED \<and> ex_p e \<le> length data"
  "safe data (Return e n) \<longleftrightarrow> returned data n (ex_parser e)"
  "\<not> safe data (Abort x)"
  "safe data (fail_with m e) \<longleftrightarrow> m \<noteq> HPE_PAUSED \<and> ex_p e \<le> length data"
  by (simp_all add: safe_def fail_with_def SET_ERRNO_def set_parser_def)

section \<open>The end of the function\<close>

definition ends :: "'v outcome \<Rightarrow> bool" where
  "ends r = (case r of Return e n \<Rightarrow> True | Abort x \<Rightarrow> True | _ \<Rightarrow> False)"

lemma ends_simps [simp]: "ends (Return e n)" "ends (Abort x)" "\<not> ends (Break e)" "\<not> ends (Reexec e)" "\<not> ends (Error e)"
  by (simp_all add: ends_def)

lemma callback_data_ends:
  assumes "\<And>e'. ends (k e')"
  shows "ends (callback_data S data D q er e k)"
  using assms by (simp add: callback_data_def Let_def split: option.split prod.split)

lemma exec_finish_ends: "ends (exec_finish S data e)" "ends (exec_error e)"
  by (simp_all add: exec_finish_def exec_error_def exec_leftover_def CALLBACK_DATA_NOADVANCE_def Let_def
      callback_data_ends RETURN_def)

definition ended :: "byte list \<Rightarrow> 'u exec \<Rightarrow> bool" where
  "ended data e \<longleftrightarrow> http_errno (ex_parser e) = HPE_OK \<and> state_inv (ex_state e) (ex_parser e) \<and>
     ex_p e = length data \<and> (\<forall>F m. ex_marks e F = Some m \<longrightarrow> m \<le> length data)"

lemma unhex_range: "- 1 \<le> unhex ! of_char c" "unhex ! of_char c \<le> 15"
proof -
  have "\<forall>v \<in> set unhex. - 1 \<le> v \<and> v \<le> 15" by (simp add: unhex_def)
  moreover have "of_char c < length unhex" by (simp add: unhex_def)
  ultimately show "- 1 \<le> unhex ! of_char c" "unhex ! of_char c \<le> 15"
    by (meson nth_mem)+
qed

lemma content_length_set [simp]:
  "content_length (ex_parser (set_parser (content_length_update (\<lambda>_. c)) e)) = c"
  by (simp add: set_parser_def)

section \<open>Contract of the callbacks\<close>

definition keeps :: "http_parser \<Rightarrow> http_parser \<Rightarrow> bool" where
  "keeps q q' \<longleftrightarrow> q' = q \<or> q' = q\<lparr>http_errno := HPE_PAUSED\<rparr>"

locale parser_callbacks =
  fixes S :: "'u http_parser_settings"
  assumes notify_law: "notify_cb S F q u = (r, q', u') \<Longrightarrow> keeps q q'"
    and data_law: "data_cb S D q u x = (r, q', u') \<Longrightarrow> keeps q q'"
    and headers_law: "on_headers_complete S q u n = (r, q', u') \<Longrightarrow> keeps q q'"
begin

lemma safe_notify:
  assumes "http_errno (ex_parser e) = HPE_OK" "state_inv (ex_state e) (ex_parser e)" "er \<le> length data"
    and k: "\<And>u. safe data (k ((store_state e)\<lparr>ex_user := u\<rparr>))"
  shows "safe data (callback_notify S F er e k)"
proof -
  obtain r q u where c: "notify_cb S F (ex_parser (store_state e)) (ex_user e) = (r, q, u)"
    by (metis prod_cases3)
  from notify_law [OF c] assms show ?thesis
    using c k [of u]
    by (cases F)
      (auto simp: callback_notify_def keeps_def Let_def SET_ERRNO_def store_state_def set_parser_def
        returned_def parser_inv_def)
qed

lemma safe_data:
  assumes "http_errno (ex_parser e) = HPE_OK" "state_inv (ex_state e) (ex_parser e)" "er \<le> length data"
    "q \<le> length data" "\<And>m. ex_marks e D = Some m \<Longrightarrow> m \<le> q"
    and k: "\<And>u. safe data (k ((store_state e)\<lparr>ex_user := u, ex_marks := (ex_marks e)(D := None)\<rparr>))"
  shows "safe data (callback_data S data D q er e k)"
proof (cases "ex_marks e D")
  case None
  then have "(store_state e)\<lparr>ex_user := ex_user e, ex_marks := (ex_marks e)(D := None)\<rparr> = store_state e"
    by (simp add: store_state_def set_parser_def fun_upd_idem)
  then show ?thesis
    using None assms(1) k [of "ex_user e"]
    by (simp add: callback_data_def Let_def store_state_def set_parser_def)
next
  case (Some m)
  obtain r pr u where c: "data_cb S D (ex_parser (store_state e)) (ex_user e) (range_of m q data) = (r, pr, u)"
    by (metis prod_cases3)
  from data_law [OF c] assms(1-5) Some show ?thesis
    using c k [of u]
    by (cases D)
      (auto simp: callback_data_def keeps_def Let_def SET_ERRNO_def store_state_def set_parser_def
        returned_def parser_inv_def)
qed

lemma safe_space:
  assumes "http_errno (ex_parser e) = HPE_OK" "state_inv (ex_state e) (ex_parser e)" "ex_p e \<le> length data"
    and k: "\<And>u. safe data (k ((store_state e)\<lparr>ex_user := u\<rparr>))"
  shows "safe data (CALLBACK_SPACE S e k)"
proof -
  obtain r q u where c: "on_header_value S (ex_parser (store_state e)) (ex_user e) SPACE = (r, q, u)"
    by (metis prod_cases3)
  from data_law [of FOR_header_value, simplified, OF c] assms show ?thesis
    using c k [of u]
    by (auto simp: CALLBACK_SPACE_def keeps_def Let_def SET_ERRNO_def store_state_def set_parser_def
        returned_def parser_inv_def)
qed

text \<open>The rules in the form the cases use them: a callback after which the switch is left or run again.\<close>

lemma exec_inv_stored:
  "exec_inv ((store_state e)\<lparr>ex_user := u\<rparr>) \<longleftrightarrow> exec_inv e"
  "exec_inv ((store_state e)\<lparr>ex_user := u, ex_marks := mm\<rparr>) \<longleftrightarrow> exec_inv (e\<lparr>ex_marks := mm\<rparr>)"
  by (simp_all add: exec_inv_def marks_inv_def store_state_def set_parser_def)

lemma exec_inv_clear: "marks_inv e \<Longrightarrow> ex_state e \<noteq> s_header_field \<Longrightarrow>
  marks_inv (e\<lparr>ex_marks := (ex_marks e)(D := None)\<rparr>)"
  by (auto simp: marks_inv_def)

lemmas callback_macros = CALLBACK_DATA_def CALLBACK_DATA_NOADVANCE_def CALLBACK_NOTIFY_def
  CALLBACK_NOTIFY_NOADVANCE_def

lemmas inv_unfolds = exec_inv_def marks_inv_def all_data_for mark_state_def state_inv_def
  exec_update_defs NEW_MESSAGE_def chunked_def

lemma status_line_safe:
  assumes "exec_inv e" "ex_p e < length data"
  shows "ex_state e = s_pre_start_req_or_res \<Longrightarrow> safe data (case_pre_start_req_or_res S e)"
    "ex_state e = s_start_req_or_res \<Longrightarrow> safe data (case_start_req_or_res e)"
    "ex_state e = s_res_or_resp_H \<Longrightarrow> safe data (case_res_or_resp_H e)"
    "ex_state e = s_pre_start_res \<Longrightarrow> safe data (case_pre_start_res S e)"
    "ex_state e = s_start_res \<Longrightarrow> safe data (case_start_res e)"
    "ex_state e = s_res_H \<Longrightarrow> safe data (case_res_H e)"
    "ex_state e = s_res_HT \<Longrightarrow> safe data (case_res_HT e)"
    "ex_state e = s_res_HTT \<Longrightarrow> safe data (case_res_HTT e)"
    "ex_state e = s_res_HTTP \<Longrightarrow> safe data (case_res_HTTP e)"
    "ex_state e = s_res_first_http_major \<Longrightarrow> safe data (case_res_first_http_major e)"
    "ex_state e = s_res_http_major \<Longrightarrow> safe data (case_res_http_major e)"
    "ex_state e = s_res_first_http_minor \<Longrightarrow> safe data (case_res_first_http_minor e)"
    "ex_state e = s_res_http_minor \<Longrightarrow> safe data (case_res_http_minor e)"
    "ex_state e = s_res_first_status_code \<Longrightarrow> safe data (case_res_first_status_code e)"
    "ex_state e = s_res_status_code \<Longrightarrow> safe data (case_res_status_code e)"
    "ex_state e = s_res_status \<Longrightarrow> safe data (case_res_status S data e)"
    "ex_state e = s_res_line_almost_done \<Longrightarrow> safe data (case_res_line_almost_done e)"
  using assms
  by (auto simp: case_defs Let_def callback_macros inv_unfolds INT64_MAX_def start_method_def
      intro!: safe_data safe_notify safe_space)

lemma request_line_safe:
  assumes "exec_inv e" "ex_p e < length data"
  shows "ex_state e = s_pre_start_req \<Longrightarrow> safe data (case_pre_start_req S e)"
    "ex_state e = s_start_req \<Longrightarrow> safe data (case_start_req e)"
    "ex_state e = s_req_spaces_before_url \<Longrightarrow> safe data (case_req_spaces_before_url e)"
    "ex_state e = s_req_schema \<Longrightarrow> safe data (case_req_schema e)"
    "ex_state e = s_req_schema_slash \<Longrightarrow> safe data (case_req_schema_slash e)"
    "ex_state e = s_req_schema_slash_slash \<Longrightarrow> safe data (case_req_schema_slash_slash e)"
    "ex_state e = s_req_host_start \<Longrightarrow> safe data (case_req_host_start e)"
    "ex_state e = s_req_host \<Longrightarrow> safe data (case_req_host e)"
    "ex_state e = s_req_host_ipv6 \<Longrightarrow> safe data (case_req_host_ipv6 e)"
    "ex_state e = s_req_host_done \<Longrightarrow> safe data (case_req_host_done S data e)"
    "ex_state e = s_req_port \<Longrightarrow> safe data (case_req_port S data e)"
    "ex_state e = s_req_path \<Longrightarrow> safe data (case_req_path S data e)"
    "ex_state e = s_req_query_string_start \<Longrightarrow> safe data (case_req_query_string_start S data e)"
    "ex_state e = s_req_query_string \<Longrightarrow> safe data (case_req_query_string S data e)"
    "ex_state e = s_req_fragment_start \<Longrightarrow> safe data (case_req_fragment_start S data e)"
    "ex_state e = s_req_fragment \<Longrightarrow> safe data (case_req_fragment S data e)"
  using assms
  by (auto simp: case_defs Let_def callback_macros inv_unfolds INT64_MAX_def start_method_def
      intro!: safe_data safe_notify safe_space)

lemma version_and_headers_safe:
  assumes "exec_inv e" "ex_p e < length data"
  shows "ex_state e = s_req_http_start \<Longrightarrow> safe data (case_req_http_start e)"
    "ex_state e = s_req_http_H \<Longrightarrow> safe data (case_req_http_H e)"
    "ex_state e = s_req_http_HT \<Longrightarrow> safe data (case_req_http_HT e)"
    "ex_state e = s_req_http_HTT \<Longrightarrow> safe data (case_req_http_HTT e)"
    "ex_state e = s_req_http_HTTP \<Longrightarrow> safe data (case_req_http_HTTP e)"
    "ex_state e = s_req_first_http_major \<Longrightarrow> safe data (case_req_first_http_major e)"
    "ex_state e = s_req_http_major \<Longrightarrow> safe data (case_req_http_major e)"
    "ex_state e = s_req_first_http_minor \<Longrightarrow> safe data (case_req_first_http_minor e)"
    "ex_state e = s_req_http_minor \<Longrightarrow> safe data (case_req_http_minor e)"
    "ex_state e = s_req_line_almost_done \<Longrightarrow> safe data (case_req_line_almost_done e)"
    "ex_state e = s_header_field_start \<Longrightarrow> safe data (case_header_field_start e)"
    "ex_state e = s_header_almost_done \<Longrightarrow> safe data (case_header_almost_done S e)"
    "ex_state e = s_header_value_lws \<Longrightarrow> safe data (case_header_value_lws S e)"
  using assms
  by (auto simp: case_defs Let_def callback_macros inv_unfolds INT64_MAX_def start_method_def
      intro!: safe_data safe_notify safe_space)

lemma case_req_method_safe:
  fixes e :: "'u exec"
  assumes "exec_inv e" "ex_p e < length data" "ex_state e = s_req_method"
  shows "safe data (case_req_method e)"
proof -
  let ?i = "p_index (ex_parser e)" and ?m = "p_method (ex_parser e)"
  let ?next = "set_parser (\<lambda>q. q\<lparr>p_index := p_index q + 1\<rparr>) :: 'u exec \<Rightarrow> 'u exec"
  have i: "unat ?i \<le> length (method_strings ?m)"
    using assms by (simp add: inv_unfolds)
  moreover have "length (method_strings ?m) < 255" by (cases ?m) simp_all
  ultimately have n: "unat (?i + 1) = unat ?i + 1"
    by (simp add: unat_word_ariths)
  have spaces: "exec_inv (?next (set_state s_req_spaces_before_url e))"
    using assms by (simp add: inv_unfolds)
  have same: "exec_inv (?next e)" if "unat ?i < length (method_strings ?m)"
    using assms n that by (simp add: inv_unfolds)
  have other: "exec_inv (?next (set_parser (\<lambda>q. q\<lparr>p_method := m'\<rparr>) e))"
    if "switch_method ?m (unat ?i) c = Inr m'" for c m'
  proof -
    have "unat ?i + 1 \<le> length (method_strings m')"
      using that by (auto simp: switch_method_def split: if_splits)
    then show ?thesis using assms n by (simp add: inv_unfolds)
  qed
  have ch: "c_char (method_strings ?m) (unat ?i) = Inr mc \<Longrightarrow>
    mc = CHR 0x00 \<or> unat ?i < length (method_strings ?m)" for mc
    by (auto simp: c_char_def split: if_splits)
  have ok: "\<exists>mc. c_char (method_strings ?m) (unat ?i) = Inr mc"
    using i by (auto simp: c_char_def)
  have err: "http_errno (ex_parser e) = HPE_OK" using assms by (simp add: exec_inv_def)
  show ?thesis
    using ok assms(2) spaces same other ch err
    by (auto simp: case_req_method_def Let_def split: sum.splits bool.splits)
qed

lemma notatoken_safe:
  assumes "exec_inv e" "ex_p e < length data" "ex_state e = s_header_field"
  shows "safe data (notatoken S data e)"
  using assms
  by (auto simp: notatoken_def Let_def callback_macros inv_unfolds split: option.splits intro!: safe_data)

lemma exec_inv_index:
  "ex_state e \<noteq> s_req_method \<Longrightarrow> exec_inv (set_parser (\<lambda>q. q\<lparr>p_index := i q\<rparr>) e) \<longleftrightarrow> exec_inv e"
  by (cases "ex_state e") (simp_all add: exec_inv_def marks_inv_def state_inv_def chunked_def has_flag_def set_parser_def)

lemma exec_inv_header_state:
  assumes "exec_inv e"
    "ex_state e = s_header_field \<and> h \<in> {h_general, h_content_length, h_transfer_encoding, h_upgrade} \<or>
     ex_state e = s_header_value \<and> h \<noteq> h_content_length"
  shows "exec_inv (set_header_state h e)"
  using assms by (auto simp: exec_inv_def marks_inv_def state_inv_def set_header_state_def set_parser_def)

lemma match_header_safe:
  assumes e: "exec_inv e" "ex_p e < length data"
    and m: "ex_state e = s_header_field \<and> matched \<in> {h_content_length, h_transfer_encoding, h_upgrade} \<or>
      ex_state e = s_header_value \<and> matched \<noteq> h_content_length"
  shows "safe data (match_header name matched c e)"
proof -
  let ?e = "set_parser (\<lambda>q. q\<lparr>p_index := p_index q + 1\<rparr>) e"
  have "ex_state ?e \<noteq> s_req_method" "ex_state ?e = ex_state e" using m by auto
  then have i: "exec_inv ?e" using e exec_inv_index [of e "\<lambda>q. p_index q + 1"] by simp
  have "exec_inv (set_header_state h_general ?e)" "exec_inv (set_header_state matched ?e)"
    using exec_inv_header_state [OF i] m by auto
  then show ?thesis
    using i e(2) by (simp add: match_header_def Let_def c_char_def)
qed

lemma exec_inv_advance:
  "exec_inv e \<Longrightarrow> ex_p e \<le> p \<Longrightarrow> exec_inv (e\<lparr>ex_p := p\<rparr>)"
  "exec_inv e \<Longrightarrow> ex_p e \<le> p \<Longrightarrow> exec_inv (e\<lparr>ex_p := p, ex_ch := c\<rparr>)"
  by (auto simp: exec_inv_def marks_inv_def intro: order_trans)

lemma fast_forward_field_inv:
  assumes "exec_inv e" "ex_p e < length data"
  shows "fast_forward_field data e \<noteq> PastEnd"
    and "fast_forward_field data e = Goto e' \<or> fast_forward_field data e = Through e' \<Longrightarrow>
      exec_inv e' \<and> ex_p e' < length data \<and> ex_state e' = ex_state e"
proof -
  show "fast_forward_field data e \<noteq> PastEnd"
    by (auto simp: fast_forward_field_def Let_def intro: MOVE_THE_HEAD_PastEnd [THEN notE, rotated])
  show "fast_forward_field data e = Goto e' \<or> fast_forward_field data e = Through e' \<Longrightarrow>
      exec_inv e' \<and> ex_p e' < length data \<and> ex_state e' = ex_state e"
    using assms
    by (auto simp: fast_forward_field_def Let_def exec_inv_advance
       dest!: MOVE_THE_HEAD_Goto MOVE_THE_HEAD_Through split: if_splits)
qed

lemma case_header_field_safe:
  assumes "exec_inv e" "ex_p e < length data" "ex_state e = s_header_field"
  shows "safe data (case_header_field S data e)"
proof -
  have h: "header_state (ex_parser e) \<in> {h_general, h_matching_content_length, h_matching_transfer_encoding,
          h_matching_upgrade, h_content_length, h_transfer_encoding, h_upgrade}"
    using assms by (simp add: inv_unfolds)
  have g: "exec_inv (set_header_state h_general e)"
    using assms by (auto simp: inv_unfolds)
  show ?thesis
    using assms h g fast_forward_field_inv [OF assms(1,2)]
    by (auto simp: case_header_field_def Let_def notatoken_safe match_header_safe split: moved.splits)
qed

lemma header_value_digit_safe:
  assumes "exec_inv e" "ex_p e < length data" "ex_state e = s_header_value"
    "header_state (ex_parser e) = h_content_length"
  shows "safe data (header_value_digit e)"
proof -
  let ?c = "content_length (ex_parser e)"
  have c: "0 \<le> ?c" using assms by (simp add: inv_unfolds)
  have d: "0 \<le> digit64 (ex_ch e) \<and> digit64 (ex_ch e) \<le> 9" if "IS_NUM (ex_ch e)"
    using that by (simp add: IS_NUM_def digit64_def)
  have "?c * 10 \<le> INT64_MAX - 10" if "\<not> ?c > (INT64_MAX - 10) div 10"
    using that by (simp add: INT64_MAX_def)
  then show ?thesis
    using assms c d
    by (auto simp: header_value_digit_def set_content_length_def inv_unfolds INT64_MAX_def)
qed

lemma header_value_other_safe:
  assumes "exec_inv e" "ex_p e < length data" "ex_state e = s_header_value"
    "header_state (ex_parser e) = h"
  shows "safe data (header_value_other h e)"
proof -
  have g: "exec_inv (set_header_state h' e)" if "h' \<noteq> h_content_length" for h'
    using exec_inv_header_state [OF assms(1)] assms(3) that by blast
  have s: "set_state s_header_value e = e" using assms(3) by (simp add: set_state_def)
  show ?thesis
    using assms g header_value_digit_safe [OF assms(1-3)] match_header_safe [OF assms(1,2)]
    by (cases h) (simp_all add: header_value_other_def s)
qed

lemma fast_forward_value_inv:
  assumes "exec_inv e" "ex_p e < length data" "ex_state e = s_header_value"
  shows "fast_forward_value data e \<noteq> PastEnd"
    and "fast_forward_value data e = Goto e' \<or> fast_forward_value data e = Through e' \<Longrightarrow>
      exec_inv e' \<and> ex_p e' < length data \<and> ex_state e' = s_header_value"
proof -
  let ?e = "if ex_ch e = QT then set_header_state h_general_and_quote e else e"
  have i: "exec_inv ?e" "ex_p ?e = ex_p e" "ex_state ?e = s_header_value"
    using assms exec_inv_header_state [OF assms(1)] by auto
  show "fast_forward_value data e \<noteq> PastEnd"
    using assms(2) i(2) MOVE_FAST_PastEnd [of ?e 11 data] MOVE_FAST_PastEnd [of ?e 4 data]
    by (simp add: fast_forward_value_def Let_def del: if_split)
  show "fast_forward_value data e = Goto e' \<or> fast_forward_value data e = Through e' \<Longrightarrow>
      exec_inv e' \<and> ex_p e' < length data \<and> ex_state e' = s_header_value"
    unfolding fast_forward_value_def Let_def
    using assms i exec_inv_advance [OF i(1)]
    by (auto dest!: MOVE_FAST_Goto MOVE_FAST_Through simp del: if_split split: if_split_asm)
qed

lemma case_header_value_safe:
  assumes "exec_inv e" "ex_p e < length data" "ex_state e = s_header_value"
  shows "safe data (case_header_value S data e)"
  using assms
proof (induction "length data - ex_p e" arbitrary: e rule: less_induct)
  case less
  note i = fast_forward_value_inv [OF less.prems]
  have g: "safe data (case_header_value S data e')" if "fast_forward_value data e = Goto e'" for e'
    using less.hyps [of e'] i(2) [of e'] fast_forward_value_Goto [OF that] that by auto
  have cr: "safe data (CALLBACK_DATA S data FOR_header_value (set_state s_header_almost_done e) Break)"
    using less.prems unfolding CALLBACK_DATA_def by (intro safe_data) (auto simp: inv_unfolds)
  have lf: "safe data (CALLBACK_DATA_NOADVANCE S data FOR_header_value (set_state s_header_almost_done e) Reexec)"
    using less.prems unfolding CALLBACK_DATA_NOADVANCE_def by (intro safe_data) (auto simp: inv_unfolds)
  have f: "safe data (case fast_forward_value data e of
      Goto e1 \<Rightarrow> case_header_value S data e1 | Through e1 \<Rightarrow> Break e1 | PastEnd \<Rightarrow> Abort OutOfBounds)"
    using i g by (simp split: moved.split)
  show ?case
    using less.prems(2) cr lf f header_value_other_safe [OF less.prems refl]
    by (subst case_header_value.simps) (auto simp: Let_def)
qed


lemma case_header_value_start_safe:
  fixes e :: "'u exec"
  assumes "exec_inv e" "ex_p e < length data" "ex_state e = s_header_value_start"
  shows "safe data (case_header_value_start S data e)"
proof -
  let ?e = "set_parser (\<lambda>q. q\<lparr>p_index := 0\<rparr>) (set_state s_header_value (MARK FOR_header_value e))"
  have p: "ex_p ?e = ex_p e" by simp
  have d: "0 \<le> digit64 c \<and> digit64 c \<le> 9" if "IS_NUM c" for c
    using that by (simp add: IS_NUM_def digit64_def)
  have num: "IS_NUM (ex_ch e) \<Longrightarrow> safe data (set_content_length (digit64 (ex_ch e)) ?e Break)"
    using assms d [of "ex_ch e"] by (auto simp: set_content_length_def inv_unfolds INT64_MAX_def)
  have cr: "safe data (CALLBACK_DATA S data FOR_header_value
      (set_state s_header_almost_done (set_header_state h_general ?e)) Break)"
    using assms unfolding CALLBACK_DATA_def by (intro safe_data) (auto simp: inv_unfolds)
  have lf: "safe data (CALLBACK_DATA S data FOR_header_value (set_state s_header_field_start ?e) Break)"
    using assms unfolding CALLBACK_DATA_def by (intro safe_data) (auto simp: inv_unfolds)
  have hs: "h \<noteq> h_content_length \<Longrightarrow> exec_inv (set_header_state h ?e)"
    "exec_inv (set_header_state h_general (set_parser (\<lambda>q. q\<lparr>flags := flags q OR F_UPGRADE\<rparr>) ?e))" for h
    using assms by (auto simp: inv_unfolds)
  have ok: "http_errno (ex_parser ?e) = HPE_OK" "header_state (ex_parser ?e) = header_state (ex_parser e)"
    using assms by (simp_all add: exec_inv_def exec_update_defs)
  have er: "http_errno (ex_parser (SET_ERRNO n e')) = n" for n and e' :: "'u exec"
    by (simp add: exec_update_defs)
  show ?thesis
    using assms(1,2) num cr lf hs ok
    by (cases "header_state (ex_parser e)") (simp_all add: case_header_value_start_def Let_def er)
qed

lemma case_headers_almost_done_safe:
  assumes "exec_inv e" "ex_p e < length data" "ex_state e = s_headers_almost_done"
  shows "safe data (case_headers_almost_done S e)"
proof -
  have tr: "safe data (CALLBACK_NOTIFY_NOADVANCE S FOR_chunk_complete (set_state s_message_done e) Reexec)"
    using assms unfolding CALLBACK_NOTIFY_NOADVANCE_def by (intro safe_notify) (auto simp: inv_unfolds)
  obtain r q u where c: "on_headers_complete S
      ((ex_parser e)\<lparr>upgrade := (has_flag F_UPGRADE (ex_parser e) \<or> p_method (ex_parser e) = HTTP_CONNECT)\<rparr>)
      (ex_user e) (ex_p e + 1) = (r, q, u)"
    by (metis prod_cases3)
  from headers_law [OF c] show ?thesis
    using assms tr c
    by (auto simp: case_headers_almost_done_def Let_def inv_unfolds keeps_def RETURN_def returned_def
        parser_inv_def)
qed

lemma case_headers_done_safe:
  assumes "exec_inv e" "ex_p e < length data" "ex_state e = s_headers_done"
  shows "safe data (case_headers_done S e)"
proof -
  let ?e = "(set_parser (\<lambda>q. q\<lparr>nread := 0\<rparr>) e)\<lparr>ex_start := ex_p e\<rparr>"
  let ?n = "set_state (NEW_MESSAGE (ex_parser ?e)) ?e"
  have n: "safe data (CALLBACK_NOTIFY S FOR_message_complete ?n Break)"
    using assms unfolding CALLBACK_NOTIFY_def by (intro safe_notify) (auto simp: inv_unfolds)
  have r: "upgrade (ex_parser ?e) \<Longrightarrow>
      safe data (CALLBACK_NOTIFY S FOR_message_complete ?n (\<lambda>e2. RETURN (ex_p e2 + 1) e2))"
    using assms unfolding CALLBACK_NOTIFY_def
    by (intro safe_notify) (auto simp: inv_unfolds RETURN_def returned_def parser_inv_def)
  have b: "has_flag F_CHUNKED (ex_parser ?e) \<Longrightarrow> exec_inv (set_state s_chunk_size_start ?e)"
    "content_length (ex_parser ?e) > 0 \<Longrightarrow> exec_inv (set_state s_body_identity ?e)"
    "exec_inv (set_state s_body_identity_eof ?e)"
    using assms by (auto simp: inv_unfolds)
  show ?thesis
    using assms(2) n r b by (simp add: case_headers_done_def Let_def)
qed


lemma marks_inv_MARK: "marks_inv e \<Longrightarrow> mark_state F (ex_state e) \<Longrightarrow> marks_inv (MARK F e)"
  by (auto simp: marks_inv_def MARK_def)

lemma marks_inv_p: "marks_inv e \<Longrightarrow> ex_p e \<le> p \<Longrightarrow> marks_inv (e\<lparr>ex_p := p\<rparr>)"
  by (fastforce simp: marks_inv_def)

lemma marks_inv_parser: "marks_inv (set_parser f e) = marks_inv e"
  by (simp add: marks_inv_def set_parser_def)

lemma body_inv:
  assumes "exec_inv e" "ex_p e \<le> p" "- (2 ^ 63) \<le> c" "c \<le> INT64_MAX" "mark_state FOR_body (ex_state e)"
    "state_inv (ex_state e) ((ex_parser e)\<lparr>content_length := c\<rparr>)"
  shows "exec_inv ((set_parser (content_length_update (\<lambda>_. c)) (MARK FOR_body e))\<lparr>ex_p := p\<rparr>)"
proof -
  have "marks_inv ((set_parser (content_length_update (\<lambda>_. c)) (MARK FOR_body e))\<lparr>ex_p := p\<rparr>)"
    using assms by (intro marks_inv_p) (simp_all add: marks_inv_parser marks_inv_MARK exec_inv_def)
  then show ?thesis
    using assms by (simp add: exec_inv_def exec_update_defs)
qed

lemma body_end_inv:
  assumes "exec_inv e" "ex_state e = s_chunk_data" "ex_p e \<le> p"
  shows "exec_inv (set_state s_chunk_data_almost_done
    ((set_parser (content_length_update (\<lambda>_. 0)) (MARK FOR_body e))\<lparr>ex_p := p\<rparr>))"
proof -
  let ?e = "(set_parser (content_length_update (\<lambda>_. 0 :: int)) (MARK FOR_body e))\<lparr>ex_p := p\<rparr>"
  have "marks_inv ?e"
    using assms by (intro marks_inv_p) (simp_all add: marks_inv_parser marks_inv_MARK exec_inv_def mark_state_def)
  moreover have "ex_state ?e = s_chunk_data" using assms by simp
  ultimately have "marks_inv (set_state s_chunk_data_almost_done ?e)"
    by (auto simp: marks_inv_def all_data_for mark_state_def set_state_def)
  then show ?thesis
    using assms by (simp add: exec_inv_def state_inv_def chunked_def exec_update_defs INT64_MAX_def)
qed

lemma case_body_identity_safe:
  assumes "exec_inv e" "ex_p e < length data" and s: "ex_state e = s_body_identity"
  shows "safe data (case_body_identity S data e)"
proof -
  define c t where "c = content_length (ex_parser e)" and "t = min c (int (length data - ex_p e))"
  define p where "p = ex_p e + nat t - 1"
  let ?e = "(set_parser (content_length_update (\<lambda>_. c - t)) (MARK FOR_body e))\<lparr>ex_p := p\<rparr>"
  have c: "0 < c" "c \<le> INT64_MAX" using assms by (simp_all add: c_def exec_inv_def state_inv_def)
  have p: "ex_p e \<le> p" "p < length data"
    unfolding p_def t_def by (rule to_read_bounds [OF assms(2) c(1)])+
  have r: "0 \<le> c - t" "- (2 ^ 63) \<le> c - t" "c - t \<le> INT64_MAX"
    using c assms(2) by (auto simp: t_def)
  have "0 < t" using c assms(2) by (simp add: t_def)
  then have q: "ex_p e + nat t = Suc p" by (simp add: p_def)
  have marks: "ex_marks e F = None" if "F \<noteq> FOR_body" for F
    using assms(1) s that by (cases F) (auto simp: exec_inv_def marks_inv_def all_data_for mark_state_def)
  have mk: "m \<le> ex_p e" if "ex_marks (MARK FOR_body e) FOR_body = Some m" for m
    using assms(1) that by (auto simp: MARK_def exec_inv_def marks_inv_def split: if_splits)
  have d: "safe data (callback_data S data FOR_body (p + 1) p (set_state s_message_done ?e) Reexec)"
  proof (rule safe_data)
    fix u
    have "(ex_marks ?e)(FOR_body := None) = (\<lambda>_. None)"
      using marks by (auto simp: exec_update_defs)
    then show "safe data (Reexec ((store_state (set_state s_message_done ?e))\<lparr>ex_user := u,
        ex_marks := (ex_marks (set_state s_message_done ?e))(FOR_body := None)\<rparr>))"
      using assms(1) p r by (simp add: exec_inv_def marks_inv_def state_inv_def exec_update_defs)
  next
    fix m assume "ex_marks (set_state s_message_done ?e) FOR_body = Some m"
    then show "m \<le> p + 1" using mk [of m] p(1) by (simp add: set_state_def set_parser_def)
  qed (use assms(1) p r in \<open>simp_all add: exec_inv_def state_inv_def exec_update_defs\<close>)
  have b: "exec_inv ?e" if "c - t \<noteq> 0"
    using r p that s by (intro body_inv assms(1)) (simp_all add: mark_state_def state_inv_def)
  show ?thesis
    unfolding case_body_identity_def Let_def c_def [symmetric] t_def [symmetric]
    using c r d b p q by (auto simp: set_content_length_def)
qed

lemma case_chunk_data_safe:
  assumes "exec_inv e" "ex_p e < length data" and s: "ex_state e = s_chunk_data"
  shows "safe data (case_chunk_data data e)"
proof -
  define c t where "c = content_length (ex_parser e)" and "t = min c (int (length data - ex_p e))"
  define p where "p = ex_p e + nat t - 1"
  let ?e = "(set_parser (content_length_update (\<lambda>_. c - t)) (MARK FOR_body e))\<lparr>ex_p := p\<rparr>"
  have c: "0 < c" "c \<le> INT64_MAX" "has_flag F_CHUNKED (ex_parser e)"
    using assms by (simp_all add: c_def exec_inv_def state_inv_def chunked_def)
  have p: "ex_p e \<le> p" "p < length data"
    unfolding p_def t_def by (rule to_read_bounds [OF assms(2) c(1)])+
  have r: "0 \<le> c - t" "- (2 ^ 63) \<le> c - t" "c - t \<le> INT64_MAX"
    using c assms(2) by (auto simp: t_def)
  have "0 < t" using c assms(2) by (simp add: t_def)
  then have q: "ex_p e + nat t = Suc p" by (simp add: p_def)
  have d: "exec_inv (set_state s_chunk_data_almost_done ?e)" if "c - t = 0"
    using body_end_inv [OF assms(1) s p(1)] that by simp
  have b: "exec_inv ?e" if "c - t \<noteq> 0"
    using r p that s c by (intro body_inv assms(1)) (simp_all add: mark_state_def state_inv_def chunked_def)
  show ?thesis
    unfolding case_chunk_data_def Let_def c_def [symmetric] t_def [symmetric]
    using c r d b p q by (auto simp: set_content_length_def assert_chunked_def)
qed

lemma case_chunk_size_safe:
  assumes "exec_inv e" "ex_p e < length data"
  shows "ex_state e = s_chunk_size_start \<Longrightarrow> safe data (case_chunk_size_start e)"
    and "ex_state e = s_chunk_size \<Longrightarrow> safe data (case_chunk_size e)"
proof -
  let ?c = "content_length (ex_parser e)" and ?h = "unhex ! of_char (ex_ch e)"
  note h = unhex_range [of "ex_ch e"]
  show "safe data (case_chunk_size_start e)" if "ex_state e = s_chunk_size_start"
    using assms that h
    by (auto simp: case_chunk_size_start_def assert_chunked_def set_content_length_def Let_def inv_unfolds
        INT64_MAX_def has_flag_def)
  show "safe data (case_chunk_size e)" if s: "ex_state e = s_chunk_size"
  proof -
    have c: "0 \<le> ?c" "has_flag F_CHUNKED (ex_parser e)" 
      using assms s by (simp_all add: exec_inv_def state_inv_def chunked_def)
    have b: "16 * ?c + ?h \<le> INT64_MAX" if "\<not> ?c > drop_bit 4 (INT64_MAX - ?h)"
      using that by (simp add: drop_bit_eq_div)
    have n: "exec_inv (set_parser (content_length_update (\<lambda>_. ?c * 16 + ?h)) e)"
      if "?h \<noteq> -1" "\<not> ?c > drop_bit 4 (INT64_MAX - ?h)"
      using assms s c h b that by (auto simp: inv_unfolds has_flag_def)
    have "exec_inv (set_state s_chunk_parameters e)" "exec_inv (set_state s_chunk_size_almost_done e)"
      using assms s by (auto simp: inv_unfolds)
    then show ?thesis
      using assms(2) c h b n
      by (auto simp: case_chunk_size_def assert_chunked_def set_content_length_def Let_def set_parser_def)
  qed
qed

lemma case_chunk_rest_safe:
  assumes "exec_inv e" "ex_p e < length data"
  shows "ex_state e = s_chunk_parameters \<Longrightarrow> safe data (case_chunk_parameters e)"
    and "ex_state e = s_chunk_size_almost_done \<Longrightarrow> safe data (case_chunk_size_almost_done S e)"
    and "ex_state e = s_chunk_data_almost_done \<Longrightarrow> safe data (case_chunk_data_almost_done S data e)"
    and "ex_state e = s_chunk_data_done \<Longrightarrow> safe data (case_chunk_data_done S e)"
    and "ex_state e = s_message_done \<Longrightarrow> safe data (case_message_done S e)"
    and "ex_state e = s_body_identity_eof \<Longrightarrow> safe data (case_body_identity_eof data e)"
  using assms
  by (auto simp: case_chunk_parameters_def case_chunk_size_almost_done_def case_chunk_data_almost_done_def
      case_chunk_data_done_def case_message_done_def case_body_identity_eof_def assert_chunked_def
      callback_macros Let_def inv_unfolds RETURN_def returned_def parser_inv_def
      intro!: safe_data safe_notify split: if_splits)

lemma exec_switch_safe:
  assumes "exec_inv e" "ex_p e < length data"
  shows "safe data (exec_switch S data e)"
proof -
  have "ex_state e \<notin> {s_dead, s_res_status_start, s_req_server_start, s_req_server, s_req_server_with_at}"
    using assms(1) by (auto simp: exec_inv_def state_inv_def)
  then show ?thesis
    by (cases "ex_state e")
      (simp_all add: exec_switch_def status_line_safe request_line_safe version_and_headers_safe
        case_req_method_safe case_header_field_safe case_header_value_start_safe case_header_value_safe
        case_headers_almost_done_safe case_headers_done_safe case_body_identity_safe case_chunk_data_safe case_chunk_size_safe
        case_chunk_rest_safe assms)
qed

lemma exec_byte_safe:
  assumes "exec_inv e" "ex_p e < length data"
  shows "safe data (exec_byte S data e) \<and> (\<forall>e'. exec_byte S data e \<noteq> Reexec e')"
  using assms
proof (induction "rank (ex_state e)" arbitrary: e rule: less_induct)
  case less
  note s = exec_switch_safe [OF less.prems]
  show ?case
  proof (cases "exec_switch S data e")
    case (Reexec e')
    then have "rank (ex_state e') < rank (ex_state e)" "exec_inv e'" "ex_p e' < length data"
      using exec_switch_moves [OF less.prems(2), of S] s by simp_all
    then show ?thesis
      using less.hyps [of e'] less.prems Reexec by (subst (1 2) exec_byte.simps) simp
  qed (use s less.prems in \<open>simp_all add: exec_byte.simps\<close>)
qed


lemma marks_inv_next: "marks_inv e \<Longrightarrow> marks_inv (e\<lparr>ex_p := ex_p e + 1\<rparr>)"
  by (fastforce simp: marks_inv_def)

lemma set_marks_le: "marks_inv e \<Longrightarrow> set_marks e \<le> 1"
  unfolding marks_inv_def set_marks_def
  by (cases "ex_marks e FOR_header_field"; cases "ex_marks e FOR_header_value"; cases "ex_marks e FOR_url";
      cases "ex_marks e FOR_reason"; cases "ex_marks e FOR_body")
    (simp_all add: all_data_for mark_state_def, auto)

text \<open>The callbacks for the left-over marks keep everything but the mark.\<close>

lemma leftover_step:
  assumes "ended data e" "\<And>e'. ended data e' \<Longrightarrow> safe data (k e')"
  shows "safe data (CALLBACK_DATA_NOADVANCE S data D e k)"
  unfolding CALLBACK_DATA_NOADVANCE_def
  using assms(1) by (intro safe_data assms(2)) (auto simp: ended_def store_state_def set_parser_def)

lemma exec_finish_safe:
  assumes "exec_inv e" "ex_p e = length data"
  shows "safe data (exec_finish S data e)"
proof -
  have ret: "safe data (RETURN (length data) e')" if "ended data e'" for e'
    using that by (simp add: RETURN_def ended_def returned_def parser_inv_def store_state_def set_parser_def)
  have left: "safe data (exec_leftover S data e')" if "ended data e'" "marks_inv e'" for e'
    using that(1) set_marks_le [OF that(2)] unfolding exec_leftover_def
    by (simp add: leftover_step ret)
  have en: "ended data e"
    using assms by (auto simp: ended_def exec_inv_def marks_inv_def)
  let ?e = "set_parser (\<lambda>q. q\<lparr>nread := nread q + of_nat (ex_p e - ex_start e)\<rparr>) e"
  have en': "ended data ?e" "marks_inv ?e" "ex_p ?e = length data"
    using en assms by (auto simp: ended_def exec_inv_def marks_inv_def set_parser_def)
  show ?thesis
    using left [OF en'(1,2)] left [OF en] assms en'(3)
    by (simp add: exec_finish_def Let_def exec_inv_def exec_error_def RETURN_def returned_def parser_inv_def
        exec_update_defs)
qed

lemma exec_error_safe: "safe data (Error e) \<Longrightarrow> safe data (exec_error e)"
  by (auto simp: exec_error_def Let_def RETURN_def returned_def parser_inv_def exec_update_defs)

lemma exec_loop_safe:
  assumes "exec_inv e" "ex_p e \<le> length data"
  shows "\<exists>e' n. exec_loop S data e = Return e' n \<and> returned data n (ex_parser e')"
  using assms
proof (induction "length data - ex_p e" arbitrary: e rule: less_induct)
  case less
  let ?e = "e\<lparr>ex_ch := data ! ex_p e\<rparr>"
  have ret: "\<exists>e' n. r = Return e' n \<and> returned data n (ex_parser e')"
    if "safe data r" "ends r" for r
    using that by (cases r) auto
  show ?case
  proof (cases "ex_p e = length data")
    case True
    then show ?thesis
      using ret [OF exec_finish_safe [OF less.prems(1) True]] exec_finish_ends(1) [of S data e] by (simp add: exec_loop.simps)
  next
    case False
    then have p: "ex_p e < length data" using less.prems by simp
    have "exec_inv ?e" using less.prems(1) by (simp add: exec_inv_def marks_inv_def)
    then have s: "safe data (exec_byte S data ?e)" "\<And>e'. exec_byte S data ?e \<noteq> Reexec e'"
      using exec_byte_safe [of ?e data] p by simp_all
    show ?thesis
    proof (cases "exec_byte S data ?e")
      case (Break e')
      then have "exec_inv (e'\<lparr>ex_p := ex_p e' + 1\<rparr>)" "ex_p e' + 1 \<le> length data" "ex_p e \<le> ex_p e'"
        using s exec_byte_Break [OF Break] marks_inv_next [of e'] by (auto simp: exec_inv_def)
      then show ?thesis
        using less.hyps [of "e'\<lparr>ex_p := ex_p e' + 1\<rparr>"] Break p by (simp add: exec_loop.simps [of S data e])
    next
      case (Error e')
      then show ?thesis
        using ret [OF exec_error_safe [of data e']] exec_finish_ends(2) [of e'] s p by (simp add: exec_loop.simps)
    qed (use s p in \<open>auto simp: exec_loop.simps\<close>)
  qed
qed

lemma exec_eof_safe:
  assumes ok: "http_errno q = HPE_OK" and inv: "parser_inv q"
  shows "\<exists>e' n. exec_eof S (exec_init q u) = Return e' n \<and> n \<le> 1 \<and> parser_inv (ex_parser e') \<and>
    (http_errno (ex_parser e') = HPE_OK \<longrightarrow> n = 0)"
proof (cases "p_state q = s_body_identity_eof")
  case True
  let ?r = "callback_notify S FOR_message_complete 0 (exec_init q u) (RETURN 0)"
  have "safe [] ?r"
    using ok inv by (intro safe_notify)
      (auto simp: exec_init_def RETURN_def returned_def parser_inv_def store_state_def set_parser_def)
  moreover have "ends ?r"
    by (simp add: callback_notify_def Let_def RETURN_def split: prod.split)
  ultimately have "\<exists>e' n. ?r = Return e' n \<and> returned [] n (ex_parser e')"
    by (cases ?r) simp_all
  then show ?thesis
    using True by (auto simp: exec_eof_def CALLBACK_NOTIFY_NOADVANCE_def exec_init_def returned_def)
next
  case False
  then show ?thesis
    using ok inv
    by (cases "p_state q") (simp_all add: exec_eof_def exec_init_def RETURN_def parser_inv_def exec_update_defs)
qed

theorem execute_safe:
  assumes "parser_inv q"
  shows "\<exists>n q' u'. http_parser_execute S data q u = Inr (n, q', u') \<and> parser_inv q' \<and>
    n \<le> max 1 (length data) \<and> (data \<noteq> [] \<longrightarrow> n \<le> length data) \<and>
    (http_errno q' = HPE_OK \<and> \<not> upgrade q' \<longrightarrow> n = length data)"
proof (cases "http_errno q = HPE_OK \<and> data \<noteq> []")
  case True
  let ?e = "(exec_init q u)\<lparr>ex_marks := initial_marks (p_state q)\<rparr>"
  have "exec_inv ?e"
    using True assms
    by (auto simp: exec_inv_def marks_inv_def exec_init_def parser_inv_def all_data_for mark_state_def
        initial_marks_def)
  then have "\<exists>e' n. exec_loop S data ?e = Return e' n \<and> returned data n (ex_parser e')"
    by (rule exec_loop_safe) (simp add: exec_init_def)
  then show ?thesis
    using True by (auto simp: http_parser_execute_def Let_def exec_result_def returned_def)
next
  case False
  show ?thesis
  proof (cases "http_errno q = HPE_OK")
    case True
    then have "\<exists>e' n. exec_eof S (exec_init q u) = Return e' n \<and> n \<le> 1 \<and> parser_inv (ex_parser e') \<and>
        (http_errno (ex_parser e') = HPE_OK \<longrightarrow> n = 0)"
      using assms by (rule exec_eof_safe)
    then show ?thesis
      using True False by (auto simp: http_parser_execute_def Let_def exec_result_def)
  next
    case err: False
    then show ?thesis
      using assms by (simp add: http_parser_execute_def Let_def exec_result_def RETURN_def exec_init_def
          store_state_def set_parser_def)
  qed
qed

end

end
