(* ===== verification/Http_Fast.thy ===== *)
theory Http_Fast
  imports Http_Exec
begin

text \<open>
  The fast-forwarding of header names and values (\<^verbatim>\<open>MOVE_THE_HEAD\<close>, \<^verbatim>\<open>MOVE_FAST\<close>) is an
  optimisation: \<open>http_parser_execute_ref\<close> is the same state machine without it, handling one byte
  per iteration, and both return the same count, parser and user data for every input and every
  set of callbacks.
\<close>

section \<open>The state machine without fast-forwarding\<close>

definition ref_header_field where
  "ref_header_field S data e =
     (if TOKEN (ex_ch e) \<noteq> CHR 0x00 \<and> header_state (ex_parser e) = h_general then Break e
      else case_header_field S data e)"

definition ref_header_value where
  "ref_header_value S data e =
     (if header_state (ex_parser e) = h_general \<and> ex_ch e \<noteq> CR \<and> ex_ch e \<noteq> LF \<and> IS_HEADER_CHAR (ex_ch e)
      then Break (if ex_ch e = QT then set_header_state h_general_and_quote e else e)
      else case_header_value S data e)"

definition ref_switch :: "'u http_parser_settings \<Rightarrow> byte list \<Rightarrow> 'u exec \<Rightarrow> 'u outcome" where
  "ref_switch S data e =
     (if ex_state e = s_header_field then ref_header_field S data e
      else if ex_state e = s_header_value then ref_header_value S data e
      else exec_switch S data e)"

lemma ref_switch_moves:
  assumes "ex_p e < length data"
  shows "moves data e (ref_switch S data e)"
  using assms exec_switch_moves [OF assms, of S]
  by (auto simp: ref_switch_def ref_header_field_def ref_header_value_def exec_switch_def)

function ref_byte :: "'u http_parser_settings \<Rightarrow> byte list \<Rightarrow> 'u exec \<Rightarrow> 'u outcome" where
  "ref_byte S data e =
     (if ex_p e < length data then
        case ref_switch S data e of
          Reexec e' \<Rightarrow> ref_byte S data e'
        | r \<Rightarrow> r
      else Abort OutOfBounds)"
  by pat_completeness auto
termination
proof (relation "measure (\<lambda>(S, data, e). rank (ex_state e))", simp)
  fix S :: "'u http_parser_settings" and data e e'
  assume "ex_p e < length data" "ref_switch S data e = Reexec e'"
  then show "((S, data, e'), S, data, e) \<in> measure (\<lambda>(S, data, e). rank (ex_state e))"
    using ref_switch_moves [of e data S] by simp
qed

declare ref_byte.simps [simp del]

lemma ref_byte_Break:
  "ref_byte S data e = Break e' \<Longrightarrow> ex_p e \<le> ex_p e' \<and> ex_p e' < length data"
proof (induction S data e rule: ref_byte.induct)
  case (1 S data e)
  show ?case
  proof (cases "ex_p e < length data")
    case True
    then show ?thesis
      using 1 ref_switch_moves [OF True, of S]
      by (subst (asm) (2) ref_byte.simps) (fastforce split: outcome.splits if_splits)
  next
    case False
    then show ?thesis using 1(2) by (simp add: ref_byte.simps)
  qed
qed

function ref_loop :: "'u http_parser_settings \<Rightarrow> byte list \<Rightarrow> 'u exec \<Rightarrow> 'u outcome" where
  "ref_loop S data e =
     (if ex_p e = length data then exec_finish S data e
      else if ex_p e > length data then Abort OutOfBounds
      else case ref_byte S data (e\<lparr>ex_ch := data ! ex_p e\<rparr>) of
        Break e' \<Rightarrow> ref_loop S data (e'\<lparr>ex_p := ex_p e' + 1\<rparr>)
      | Error e' \<Rightarrow> exec_error e'
      | r \<Rightarrow> r)"
  by pat_completeness auto
termination
proof (relation "measure (\<lambda>(S, data, e). length data - ex_p e)", simp)
  fix S :: "'u http_parser_settings" and data e e'
  assume "\<not> ex_p e > length data" "ref_byte S data (e\<lparr>ex_ch := data ! ex_p e\<rparr>) = Break e'"
  then show "((S, data, e'\<lparr>ex_p := ex_p e' + 1\<rparr>), S, data, e) \<in> measure (\<lambda>(S, data, e). length data - ex_p e)"
    using ref_byte_Break [of S data "e\<lparr>ex_ch := data ! ex_p e\<rparr>" e'] by auto
qed

declare ref_loop.simps [simp del]

definition http_parser_execute_ref ::
  "'u http_parser_settings \<Rightarrow> byte list \<Rightarrow> http_parser \<Rightarrow> 'u \<Rightarrow> (nat \<times> http_parser \<times> 'u) result" where
  "http_parser_execute_ref S data q u =
     (let e = exec_init q u in
      exec_result
        (if http_errno q \<noteq> HPE_OK then RETURN 0 e
         else if data = [] then exec_eof S e
         else ref_loop S data (e\<lparr>ex_marks := initial_marks (p_state q)\<rparr>)))"

section \<open>Equivalence\<close>

text \<open>The value of \<^verbatim>\<open>ch\<close> left over from the last byte does not matter.\<close>

lemma exec_loop_ch: "ex_p e < length data \<Longrightarrow> exec_loop S data (e\<lparr>ex_ch := c\<rparr>) = exec_loop S data e"
  by (simp add: exec_loop.simps)

lemma ref_loop_ch: "ex_p e < length data \<Longrightarrow> ref_loop S data (e\<lparr>ex_ch := c\<rparr>) = ref_loop S data e"
  by (simp add: ref_loop.simps)

lemma ch_first:
  "e\<lparr>ex_ch := c, ex_p := x\<rparr> = e\<lparr>ex_p := x, ex_ch := c\<rparr>"
  "e\<lparr>ex_ch := c, ex_user := u\<rparr> = e\<lparr>ex_user := u, ex_ch := c\<rparr>"
  "e\<lparr>ex_ch := c, ex_parser := q\<rparr> = e\<lparr>ex_parser := q, ex_ch := c\<rparr>"
  "e\<lparr>ex_ch := c, ex_marks := m\<rparr> = e\<lparr>ex_marks := m, ex_ch := c\<rparr>"
  by (cases e, simp)+

lemma exec_result_simps [simp]:
  "exec_result (Return e n) = Inr (n, ex_parser e, ex_user e)" "exec_result (Abort x) = Inl x"
  "exec_result (RETURN n e) = Inr (n, (ex_parser e)\<lparr>p_state := ex_state e\<rparr>, ex_user e)"
  by (simp_all add: exec_result_def RETURN_def store_state_def set_parser_def)

lemma callback_data_ch:
  assumes k: "\<And>e'. exec_result (k (e'\<lparr>ex_ch := c\<rparr>)) = exec_result (k e')"
  shows "exec_result (callback_data S data D q er (e\<lparr>ex_ch := c\<rparr>) k) =
    exec_result (callback_data S data D q er e k)"
proof -
  have e1: "store_state (e\<lparr>ex_ch := c\<rparr>) = (store_state e)\<lparr>ex_ch := c\<rparr>"
    by (simp add: store_state_def set_parser_def)
  have err: "SET_ERRNO n (e'\<lparr>ex_ch := c\<rparr>) = (SET_ERRNO n e')\<lparr>ex_ch := c\<rparr>" for n e'
    by (simp add: SET_ERRNO_def set_parser_def)
  show ?thesis
    by (auto simp: callback_data_def Let_def e1 err ch_first k split: option.split prod.split)
qed

lemma exec_finish_ch: "exec_result (exec_finish S data (e\<lparr>ex_ch := c\<rparr>)) = exec_result (exec_finish S data e)"
proof -
  have left: "exec_result (exec_leftover S data (e\<lparr>ex_ch := c\<rparr>)) = exec_result (exec_leftover S data e)" for e
    by (simp add: exec_leftover_def CALLBACK_DATA_NOADVANCE_def set_marks_def callback_data_ch)
  show ?thesis
    using left [of e] left [of "set_parser (\<lambda>q. q\<lparr>nread := nread q + of_nat (ex_p e - ex_start e)\<rparr>) e"]
    by (simp add: exec_finish_def Let_def exec_error_def exec_update_defs ch_first)
qed

lemma ref_loop_any_ch:
  "ex_p e \<le> length data \<Longrightarrow> exec_result (ref_loop S data (e\<lparr>ex_ch := c\<rparr>)) = exec_result (ref_loop S data e)"
  by (cases "ex_p e < length data") (simp_all add: ref_loop_ch ref_loop.simps exec_finish_ch)

text \<open>Where both switches agree, a byte has the same effect.\<close>

lemma ref_byte_eq:
  assumes "ex_p e < length data" "ref_switch S data e = exec_switch S data e"
  shows "ref_byte S data e = exec_byte S data e"
  using assms
proof (induction "rank (ex_state e)" arbitrary: e rule: less_induct)
  case less
  show ?case
  proof (cases "exec_switch S data e")
    case (Reexec e')
    then have "rank (ex_state e') < rank (ex_state e)" "ex_p e' < length data"
      "ex_state e' \<noteq> s_header_field" "ex_state e' \<noteq> s_header_value"
      using exec_switch_moves [OF less.prems(1), of S] by simp_all
    then have "ref_byte S data e' = exec_byte S data e'"
      using less.hyps [of e'] by (simp add: ref_switch_def)
    then show ?thesis
      using Reexec less.prems by (simp add: ref_byte.simps [of S data e] exec_byte.simps [of S data e])
  qed (use less.prems in \<open>simp_all add: ref_byte.simps exec_byte.simps\<close>)
qed

lemma ref_byte_single:
  "ex_p e < length data \<Longrightarrow> ref_switch S data e = Break e' \<Longrightarrow> ref_byte S data e = Break e'"
  by (simp add: ref_byte.simps)

text \<open>A byte the fast path jumps over leaves the reference machine as it was.\<close>

definition skips :: "'u exec \<Rightarrow> byte \<Rightarrow> bool" where
  "skips e c \<longleftrightarrow>
     ex_state e = s_header_field \<and> header_state (ex_parser e) = h_general \<and> TOKEN c \<noteq> CHR 0x00 \<or>
     ex_state e = s_header_value \<and> header_state (ex_parser e) \<in> {h_general, h_general_and_quote} \<and> \<not> stops_MF c"

lemma ref_switch_skips:
  "skips e (ex_ch e) \<Longrightarrow> ref_switch S data e = Break e"
  by (auto simp: skips_def ref_switch_def ref_header_field_def ref_header_value_def stops_MF_def
      case_header_value.simps header_value_other_def)

lemma ref_loop_skips:
  assumes "ex_p e + k \<le> length data" "\<And>i. i < k \<Longrightarrow> skips e (data ! (ex_p e + i))"
  shows "exec_result (ref_loop S data e) = exec_result (ref_loop S data (e\<lparr>ex_p := ex_p e + k\<rparr>))"
  using assms
proof (induction k arbitrary: e)
  case 0
  then show ?case by simp
next
  case (Suc k)
  let ?e = "e\<lparr>ex_ch := data ! ex_p e\<rparr>"
  have p: "ex_p e < length data" using Suc.prems(1) by simp
  have "skips ?e (ex_ch ?e)" using Suc.prems(2) [of 0] by (simp add: skips_def)
  then have "ref_byte S data ?e = Break ?e"
    using p by (intro ref_byte_single ref_switch_skips) simp_all
  then have "exec_result (ref_loop S data e) = exec_result (ref_loop S data (e\<lparr>ex_p := ex_p e + 1, ex_ch := data ! ex_p e\<rparr>))"
    using p by (subst ref_loop.simps) (simp add: ch_first)
  also have "\<dots> = exec_result (ref_loop S data (e\<lparr>ex_p := ex_p e + 1\<rparr>))"
    using ref_loop_any_ch [of "e\<lparr>ex_p := ex_p e + 1\<rparr>" data S "data ! ex_p e"] p by simp
  also have "\<dots> = exec_result (ref_loop S data (e\<lparr>ex_p := ex_p e + 1 + k\<rparr>))"
    using Suc.IH [of "e\<lparr>ex_p := ex_p e + 1\<rparr>"] Suc.prems(1) Suc.prems(2) [of "Suc i" for i]
    by (simp add: skips_def)
  finally show ?case by simp
qed

text \<open>The fast path in terms of skipped bytes: it ends at a later position with nothing else changed,
  either in front of a byte it does not skip (\<open>Goto\<close>) or after the last one it skipped (\<open>Through\<close>).\<close>

lemma fast_forward_field_cases:
  assumes "ex_p e < length data" "ex_state e = s_header_field" "header_state (ex_parser e) = h_general"
    "TOKEN (data ! ex_p e) \<noteq> CHR 0x00"
  shows "(\<exists>k. fast_forward_field data e = Goto (e\<lparr>ex_p := ex_p e + k, ex_ch := data ! (ex_p e + k)\<rparr>) \<and>
      0 < k \<and> ex_p e + k < length data \<and> TOKEN (data ! (ex_p e + k)) = CHR 0x00 \<and>
      (\<forall>i<k. skips e (data ! (ex_p e + i)))) \<or>
    (\<exists>k. fast_forward_field data e = Through (e\<lparr>ex_p := ex_p e + k\<rparr>) \<and> ex_p e + k < length data \<and>
      (\<forall>i\<le>k. skips e (data ! (ex_p e + i))))"
proof -
  define n where "n = (if length data - ex_p e \<ge> 9 then 8 else if length data - ex_p e \<ge> 4 then 3 else 0 :: nat)"
  have f: "fast_forward_field data e = MOVE_THE_HEAD n data e"
    by (simp add: fast_forward_field_def n_def Let_def)
  have n: "ex_p e + n < length data" using assms(1) by (auto simp: n_def)
  have s: "skips e c" if "TOKEN c \<noteq> CHR 0x00" for c using that assms by (simp add: skips_def)
  show ?thesis
  proof (cases "MOVE_THE_HEAD n data e")
    case (Goto e')
    then obtain k where k: "0 < k" "ex_p e + k < length data"
      "e' = e\<lparr>ex_p := ex_p e + k, ex_ch := data ! (ex_p e + k)\<rparr>" "TOKEN (data ! (ex_p e + k)) = CHR 0x00"
      "\<And>i. 0 < i \<Longrightarrow> i < k \<Longrightarrow> TOKEN (data ! (ex_p e + i)) \<noteq> CHR 0x00"
      using MOVE_THE_HEAD_Goto [OF Goto] by auto
    have "skips e (data ! (ex_p e + i))" if "i < k" for i
      using s k(5) [of i] that assms(4) by (cases "i = 0") auto
    then show ?thesis using k Goto f by auto
  next
    case (Through e')
    then have k: "e' = e\<lparr>ex_p := ex_p e + n\<rparr>"
      "\<And>i. 0 < i \<Longrightarrow> i \<le> n \<Longrightarrow> TOKEN (data ! (ex_p e + i)) \<noteq> CHR 0x00"
      using MOVE_THE_HEAD_Through [OF Through] by auto
    have "skips e (data ! (ex_p e + i))" if "i \<le> n" for i
      using s k(2) [of i] that assms(4) by (cases "i = 0") auto
    then show ?thesis using k n Through f by auto
  next
    case PastEnd
    then show ?thesis using MOVE_THE_HEAD_PastEnd [OF n] by simp
  qed
qed

lemma fast_forward_value_cases:
  assumes "ex_p e < length data" "ex_state e = s_header_value" "header_state (ex_parser e) = h_general"
  defines "e1 \<equiv> (if ex_ch e = QT then set_header_state h_general_and_quote e else e)"
  shows "(\<exists>k. fast_forward_value data e = Goto (e1\<lparr>ex_p := ex_p e + k, ex_ch := data ! (ex_p e + k)\<rparr>) \<and>
      0 < k \<and> ex_p e + k < length data \<and> (\<forall>i. 0 < i \<and> i < k \<longrightarrow> skips e1 (data ! (ex_p e + i)))) \<or>
    (\<exists>k c. fast_forward_value data e = Through (e1\<lparr>ex_p := ex_p e + k, ex_ch := c\<rparr>) \<and>
      ex_p e + k < length data \<and> (\<forall>i. 0 < i \<and> i \<le> k \<longrightarrow> skips e1 (data ! (ex_p e + i))))"
proof -
  define n where "n = (if length data - ex_p e \<ge> 12 then 11 else if length data - ex_p e \<ge> 5 then 4 else 0 :: nat)"
  have p1: "ex_p e1 = ex_p e" by (simp add: e1_def)
  have f: "fast_forward_value data e = MOVE_FAST n data e1"
    by (simp add: fast_forward_value_def n_def Let_def e1_def)
  have n: "ex_p e1 + n < length data" using assms(1) p1 by (auto simp: n_def)
  have s: "skips e1 c" if "\<not> stops_MF c" for c
    using that assms(2,3) by (simp add: skips_def e1_def set_header_state_def set_parser_def)
  show ?thesis
  proof (cases "MOVE_FAST n data e1")
    case (Goto e')
    then show ?thesis using MOVE_FAST_Goto [OF Goto] s p1 f by auto
  next
    case (Through e')
    then show ?thesis
      using MOVE_FAST_Through [OF Through] n s p1 f
      by (intro disjI2 exI [of _ n] exI [of _ "if n = 0 then ex_ch e1 else data ! (ex_p e + n)"])
        (auto simp del: if_split split: if_splits)
  next
    case PastEnd
    then show ?thesis using MOVE_FAST_PastEnd [OF n] by simp
  qed
qed

text \<open>A jump inside a header value continues exactly as if the loop had reached that byte.\<close>

lemma exec_byte_value_Goto:
  assumes "ex_p e < length data" "ex_state e = s_header_value" "header_state (ex_parser e) = h_general"
    "ex_ch e \<noteq> CR" "ex_ch e \<noteq> LF" "IS_HEADER_CHAR (ex_ch e)"
    "fast_forward_value data e = Goto e'" "ex_state e' = s_header_value"
  shows "exec_byte S data e = exec_byte S data e'"
proof -
  have p: "ex_p e' < length data" using fast_forward_value_Goto [OF assms(7)] by simp
  have "exec_switch S data e = exec_switch S data e'"
    using assms by (simp add: exec_switch_def case_header_value.simps [of S data e])
  then show ?thesis
    using assms(1) p by (simp add: exec_byte.simps [of S data e] exec_byte.simps [of S data e'])
qed

lemma exec_loop_at:
  assumes "ex_p e < length data" "ex_p e' < length data" "ex_ch e' = data ! ex_p e'"
    "exec_byte S data (e\<lparr>ex_ch := data ! ex_p e\<rparr>) = exec_byte S data e'"
  shows "exec_loop S data e = exec_loop S data e'"
proof -
  have "e'\<lparr>ex_ch := data ! ex_p e'\<rparr> = e'" using assms(3) by (cases e') simp
  then show ?thesis
    using assms(1,2,4) by (simp add: exec_loop.simps [of S data e] exec_loop.simps [of S data e'])
qed

lemma exec_loop_Break:
  "ex_p e < length data \<Longrightarrow> exec_byte S data (e\<lparr>ex_ch := data ! ex_p e\<rparr>) = Break e' \<Longrightarrow>
   exec_loop S data e = exec_loop S data (e'\<lparr>ex_p := ex_p e' + 1\<rparr>)"
  by (simp add: exec_loop.simps [of S data e])

lemma field_step:
  assumes IH: "\<And>e'. length data - ex_p e' < length data - ex_p e \<Longrightarrow> ex_p e' \<le> length data \<Longrightarrow>
      exec_result (exec_loop S data e') = exec_result (ref_loop S data e')"
    and e: "ex_p e < length data" "ex_state e = s_header_field" "header_state (ex_parser e) = h_general"
      "TOKEN (data ! ex_p e) \<noteq> CHR 0x00"
  shows "exec_result (exec_loop S data e) = exec_result (ref_loop S data e)"
proof -
  let ?e = "e\<lparr>ex_ch := data ! ex_p e\<rparr>"
  have sw: "exec_switch S data ?e = (case fast_forward_field data ?e of
      Goto e1 \<Rightarrow> notatoken S data e1 | Through e1 \<Rightarrow> Break e1 | PastEnd \<Rightarrow> Abort OutOfBounds)"
    using e by (simp add: exec_switch_def case_header_field_def Let_def)
  have sk: "skips ?e = skips e" by (auto simp: skips_def fun_eq_iff)
  consider k where "fast_forward_field data ?e = Goto (e\<lparr>ex_p := ex_p e + k, ex_ch := data ! (ex_p e + k)\<rparr>)"
      "0 < k" "ex_p e + k < length data" "TOKEN (data ! (ex_p e + k)) = CHR 0x00"
      "\<And>i. i < k \<Longrightarrow> skips e (data ! (ex_p e + i))"
    | k where "fast_forward_field data ?e = Through (?e\<lparr>ex_p := ex_p e + k\<rparr>)" "ex_p e + k < length data"
      "\<And>i. i \<le> k \<Longrightarrow> skips e (data ! (ex_p e + i))"
    using fast_forward_field_cases [of ?e data] e sk by (auto simp: ch_first)
  then show ?thesis
  proof cases
    case 1
    let ?e2 = "e\<lparr>ex_p := ex_p e + k, ex_ch := data ! (ex_p e + k)\<rparr>"
    have "exec_switch S data ?e2 = notatoken S data ?e2"
      using 1(4) e(2) by (simp add: exec_switch_def case_header_field_def Let_def)
    then have "exec_byte S data ?e = exec_byte S data ?e2"
      using sw 1(1,3) e(1) by (simp add: exec_byte.simps [of S data ?e] exec_byte.simps [of S data ?e2])
    then have "exec_loop S data e = exec_loop S data ?e2"
      using e(1) 1(3) by (intro exec_loop_at) simp_all
    moreover have "exec_result (ref_loop S data e) = exec_result (ref_loop S data ?e2)"
      using ref_loop_skips [of e k data S] ref_loop_any_ch [of "e\<lparr>ex_p := ex_p e + k\<rparr>" data S] 1 by simp
    ultimately show ?thesis using IH [of ?e2] 1(2,3) by simp
  next
    case 2
    let ?e2 = "?e\<lparr>ex_p := ex_p e + k\<rparr>"
    have "exec_byte S data ?e = Break ?e2"
      using sw 2(1) e(1) by (simp add: exec_byte.simps [of S data ?e])
    then have "exec_loop S data e = exec_loop S data (e\<lparr>ex_p := ex_p e + Suc k, ex_ch := data ! ex_p e\<rparr>)"
      using exec_loop_Break [OF e(1)] by (simp add: ch_first)
    moreover have "exec_result (ref_loop S data e) =
        exec_result (ref_loop S data (e\<lparr>ex_p := ex_p e + Suc k, ex_ch := data ! ex_p e\<rparr>))"
      using ref_loop_skips [of e "Suc k" data S] ref_loop_any_ch [of "e\<lparr>ex_p := ex_p e + Suc k\<rparr>" data S] 2 by simp
    ultimately show ?thesis
      using IH [of "e\<lparr>ex_p := ex_p e + Suc k, ex_ch := data ! ex_p e\<rparr>"] 2(2) e(1) by simp
  qed
qed

lemma value_step:
  assumes IH: "\<And>e'. length data - ex_p e' < length data - ex_p e \<Longrightarrow> ex_p e' \<le> length data \<Longrightarrow>
      exec_result (exec_loop S data e') = exec_result (ref_loop S data e')"
    and e: "ex_p e < length data" "ex_state e = s_header_value" "header_state (ex_parser e) = h_general"
      "data ! ex_p e \<noteq> CR" "data ! ex_p e \<noteq> LF" "IS_HEADER_CHAR (data ! ex_p e)"
  shows "exec_result (exec_loop S data e) = exec_result (ref_loop S data e)"
proof -
  let ?e = "e\<lparr>ex_ch := data ! ex_p e\<rparr>"
  define e1 where "e1 = (if ex_ch ?e = QT then set_header_state h_general_and_quote ?e else ?e)"
  have e1: "ex_p e1 = ex_p e" "ex_state e1 = s_header_value" using e by (simp_all add: e1_def)
  have "ref_switch S data ?e = Break e1"
    using e by (simp add: ref_switch_def ref_header_value_def e1_def)
  then have r1: "ref_loop S data e = ref_loop S data (e1\<lparr>ex_p := ex_p e + 1\<rparr>)"
    using ref_byte_single [of ?e data S e1] e(1) e1 by (simp add: ref_loop.simps [of S data e])
  have r: "exec_result (ref_loop S data e) = exec_result (ref_loop S data (e1\<lparr>ex_p := ex_p e + k, ex_ch := c\<rparr>))"
    if "0 < k" "ex_p e + k \<le> length data" "\<And>i. 0 < i \<Longrightarrow> i < k \<Longrightarrow> skips e1 (data ! (ex_p e + i))" for k c
  proof -
    have "skips (e1\<lparr>ex_p := ex_p e + 1\<rparr>) (data ! (ex_p e + 1 + i))" if "i < k - 1" for i
      using that \<open>\<And>i. 0 < i \<Longrightarrow> i < k \<Longrightarrow> skips e1 (data ! (ex_p e + i))\<close> [of "Suc i"] by (simp add: skips_def)
    then have "exec_result (ref_loop S data e) = exec_result (ref_loop S data (e1\<lparr>ex_p := ex_p e + k\<rparr>))"
      using ref_loop_skips [of "e1\<lparr>ex_p := ex_p e + 1\<rparr>" "k - 1" data S] that r1 by simp
    then show ?thesis
      using ref_loop_any_ch [of "e1\<lparr>ex_p := ex_p e + k\<rparr>" data S c] that(2) by simp
  qed
  consider k where "fast_forward_value data ?e = Goto (e1\<lparr>ex_p := ex_p e + k, ex_ch := data ! (ex_p e + k)\<rparr>)"
      "0 < k" "ex_p e + k < length data" "\<And>i. 0 < i \<Longrightarrow> i < k \<Longrightarrow> skips e1 (data ! (ex_p e + i))"
    | k c where "fast_forward_value data ?e = Through (e1\<lparr>ex_p := ex_p e + k, ex_ch := c\<rparr>)"
      "ex_p e + k < length data" "\<And>i. 0 < i \<Longrightarrow> i \<le> k \<Longrightarrow> skips e1 (data ! (ex_p e + i))"
    using fast_forward_value_cases [of ?e data] e unfolding e1_def [symmetric] by auto
  then show ?thesis
  proof cases
    case 1
    let ?e2 = "e1\<lparr>ex_p := ex_p e + k, ex_ch := data ! (ex_p e + k)\<rparr>"
    have "exec_byte S data ?e = exec_byte S data ?e2"
      using e e1 1(1) by (intro exec_byte_value_Goto) simp_all
    then have "exec_loop S data e = exec_loop S data ?e2"
      using e(1) 1(3) by (intro exec_loop_at) simp_all
    then show ?thesis using r [of k] IH [of ?e2] 1(2-4) by simp
  next
    case 2
    let ?e2 = "e1\<lparr>ex_p := ex_p e + k, ex_ch := c\<rparr>"
    have "exec_byte S data ?e = Break ?e2"
      using e 2(1) by (simp add: exec_byte.simps [of S data ?e] exec_switch_def case_header_value.simps)
    then have "exec_loop S data e = exec_loop S data (e1\<lparr>ex_p := ex_p e + Suc k, ex_ch := c\<rparr>)"
      using exec_loop_Break [OF e(1)] by (simp add: ch_first)
    then show ?thesis
      using r [of "Suc k" c] IH [of "e1\<lparr>ex_p := ex_p e + Suc k, ex_ch := c\<rparr>"] 2(2,3) e(1) by simp
  qed
qed

theorem loop_equivalent:
  "ex_p e \<le> length data \<Longrightarrow> exec_result (exec_loop S data e) = exec_result (ref_loop S data e)"
proof (induction "length data - ex_p e" arbitrary: e rule: less_induct)
  case less
  let ?e = "e\<lparr>ex_ch := data ! ex_p e\<rparr>"
  show ?case
  proof (cases "ex_p e < length data \<and> ref_switch S data ?e = exec_switch S data ?e")
    case True
    then have b: "ref_byte S data ?e = exec_byte S data ?e" by (intro ref_byte_eq) simp_all
    show ?thesis
    proof (cases "exec_byte S data ?e")
      case (Break e')
      then show ?thesis
        using less.hyps [of "e'\<lparr>ex_p := ex_p e' + 1\<rparr>"] exec_byte_Break [OF Break] True b
        by (auto simp: exec_loop.simps [of S data e] ref_loop.simps [of S data e])
    qed (use True b in \<open>simp_all add: exec_loop.simps ref_loop.simps\<close>)
  next
    case False
    show ?thesis
    proof (cases "ex_p e < length data")
      case p: True
      then have "ex_state e = s_header_field \<and> header_state (ex_parser e) = h_general \<and>
            TOKEN (data ! ex_p e) \<noteq> CHR 0x00 \<or>
          ex_state e = s_header_value \<and> header_state (ex_parser e) = h_general \<and>
            data ! ex_p e \<noteq> CR \<and> data ! ex_p e \<noteq> LF \<and> IS_HEADER_CHAR (data ! ex_p e)"
        using False by (auto simp: ref_switch_def exec_switch_def ref_header_field_def ref_header_value_def
            split: if_splits)
      then show ?thesis using field_step [of data e S] value_step [of data e S] less.hyps p by blast
    next
      case False
      then show ?thesis using less.prems by (simp add: exec_loop.simps ref_loop.simps)
    qed
  qed
qed

end
