(* ===== verification/Http_User.thy ===== *)
theory Http_User
  imports Http_Exec
begin

text \<open>
  What \<^verbatim>\<open>http_parser_execute\<close> does to the data of its user: nothing but what the callbacks do. The
  locale \<open>user_order\<close> states this for any reflexive and transitive relation the callbacks keep: it
  then holds between the data before and after a call, on every path through the machine.
\<close>

definition user_of :: "'u outcome \<Rightarrow> 'u option" where
  "user_of r = (case r of Break e \<Rightarrow> Some (ex_user e) | Reexec e \<Rightarrow> Some (ex_user e)
     | Error e \<Rightarrow> Some (ex_user e) | Return e n \<Rightarrow> Some (ex_user e) | Abort x \<Rightarrow> None)"

lemma user_of_simps [simp]:
  "user_of (Break e) = Some (ex_user e)" "user_of (Reexec e) = Some (ex_user e)"
  "user_of (Error e) = Some (ex_user e)" "user_of (Return e n) = Some (ex_user e)"
  "user_of (Abort x) = None"
  by (simp_all add: user_of_def)

lemma ex_user_simps [simp]:
  "ex_user (set_parser f e) = ex_user e" "ex_user (set_state s e) = ex_user e"
  "ex_user (SET_ERRNO n e) = ex_user e" "ex_user (store_state e) = ex_user e"
  "ex_user (MARK F e) = ex_user e" "ex_user (set_header_state h e) = ex_user e"
  "ex_user (version_0_9 e) = ex_user e"
  by (simp_all add: exec_update_defs)

locale user_order =
  fixes S :: "'u http_parser_settings" and R :: "'u \<Rightarrow> 'u \<Rightarrow> bool"
  assumes refl_law: "R u u"
    and trans_law: "R u v \<Longrightarrow> R v w \<Longrightarrow> R u w"
    and notify_user: "http_errno q = HPE_OK \<Longrightarrow> notify_cb S F q u = (r, q', u') \<Longrightarrow> R u u'"
    and data_user: "data_cb S D q u x = (r, q', u') \<Longrightarrow> R u u'"
    and headers_user: "on_headers_complete S q u n = (r, q', u') \<Longrightarrow> R u u'"
begin

definition leads :: "'u \<Rightarrow> 'u outcome \<Rightarrow> bool" where
  "leads u r \<longleftrightarrow> pred_option (R u) (user_of r)"

lemma leads_simps [simp]:
  "leads u (Break e) \<longleftrightarrow> R u (ex_user e)" "leads u (Reexec e) \<longleftrightarrow> R u (ex_user e)"
  "leads u (Error e) \<longleftrightarrow> R u (ex_user e)" "leads u (Return e n) \<longleftrightarrow> R u (ex_user e)"
  "leads u (Abort x)" "leads u (RETURN n e) \<longleftrightarrow> R u (ex_user e)" "leads u (fail_with m e) \<longleftrightarrow> R u (ex_user e)"
  by (simp_all add: leads_def RETURN_def fail_with_def)

lemma step_user:
  "R u v \<Longrightarrow> http_errno q = HPE_OK \<Longrightarrow> notify_cb S F q v = (r, q', u') \<Longrightarrow> R u u'"
  "R u v \<Longrightarrow> data_cb S D q v x = (r, q', u') \<Longrightarrow> R u u'"
  "R u v \<Longrightarrow> on_header_value S q v x = (r, q', u') \<Longrightarrow> R u u'"
  "R u v \<Longrightarrow> on_headers_complete S q v n = (r, q', u') \<Longrightarrow> R u u'"
  using data_user [of FOR_header_value] by (auto intro: trans_law notify_user data_user headers_user)

lemma leads_callback:
  assumes u: "R u (ex_user e)" and k: "\<And>e'. R u (ex_user e') \<Longrightarrow> leads u (k e')"
  shows "leads u (callback_notify S F er e k)" "leads u (callback_data S d D q er e k)"
    "leads u (CALLBACK_NOTIFY S F e k)" "leads u (CALLBACK_NOTIFY_NOADVANCE S F e k)"
    "leads u (CALLBACK_DATA S d D e k)" "leads u (CALLBACK_DATA_NOADVANCE S d D e k)"
    "leads u (CALLBACK_SPACE S e k)" "leads u (set_content_length n e k)"
proof -
  show n: "leads u (callback_notify S F er e k)" for er
    using u by (auto simp: callback_notify_def Let_def split: prod.splits
        intro!: k intro: step_user)
  show d: "leads u (callback_data S d D q er e k)" for q er
    using u by (auto simp: callback_data_def Let_def split: prod.splits option.splits
        intro!: k intro: step_user)
  show "leads u (CALLBACK_NOTIFY S F e k)" "leads u (CALLBACK_NOTIFY_NOADVANCE S F e k)"
    "leads u (CALLBACK_DATA S d D e k)" "leads u (CALLBACK_DATA_NOADVANCE S d D e k)"
    by (simp_all add: CALLBACK_NOTIFY_def CALLBACK_NOTIFY_NOADVANCE_def CALLBACK_DATA_def
        CALLBACK_DATA_NOADVANCE_def n d)
  show "leads u (CALLBACK_SPACE S e k)"
    using u by (auto simp: CALLBACK_SPACE_def Let_def split: prod.splits
        intro!: k intro: step_user)
  show "leads u (set_content_length n e k)"
    using u by (simp add: set_content_length_def k)
qed

lemma match_header_user: "R u (ex_user e) \<Longrightarrow> leads u (match_header n m c e)"
  by (auto simp: match_header_def Let_def split: sum.splits)

lemma fast_forward_field_user:
  "fast_forward_field data e = Goto e' \<or> fast_forward_field data e = Through e' \<Longrightarrow> ex_user e' = ex_user e"
  by (auto simp: fast_forward_field_def Let_def dest!: MOVE_THE_HEAD_Goto MOVE_THE_HEAD_Through split: if_splits)

lemma notatoken_user: "R u (ex_user e) \<Longrightarrow> leads u (notatoken S data e)"
  by (auto simp: notatoken_def Let_def intro!: leads_callback split: option.splits)

lemma case_header_field_user: "R u (ex_user e) \<Longrightarrow> leads u (case_header_field S data e)"
  using fast_forward_field_user [of data e]
  by (auto simp: case_header_field_def Let_def match_header_user notatoken_user
      split: header_states.splits moved.splits)

lemma fast_forward_value_user:
  "fast_forward_value data e = Goto e' \<or> fast_forward_value data e = Through e' \<Longrightarrow> ex_user e' = ex_user e"
  by (auto simp: fast_forward_value_def Let_def dest!: MOVE_FAST_Goto MOVE_FAST_Through split: if_splits)

lemma header_value_other_user: "R u (ex_user e) \<Longrightarrow> leads u (header_value_other h e)"
  by (auto simp: header_value_other_def header_value_digit_def match_header_user
      intro!: leads_callback split: header_states.splits)

lemma case_header_value_user: "R u (ex_user e) \<Longrightarrow> leads u (case_header_value S data e)"
proof (induction "length data - ex_p e" arbitrary: e rule: less_induct)
  case less
  have g: "leads u (case_header_value S data e')" if "fast_forward_value data e = Goto e'" for e'
    using less.hyps [of e'] less.prems fast_forward_value_user [of data e e'] fast_forward_value_Goto [OF that] that
    by auto
  have f: "leads u (case fast_forward_value data e of
      Goto e1 \<Rightarrow> case_header_value S data e1 | Through e1 \<Rightarrow> Break e1 | PastEnd \<Rightarrow> Abort OutOfBounds)"
    using g less.prems fast_forward_value_user [of data e] by (simp split: moved.split)
  show ?case
    using less.prems f header_value_other_user [OF less.prems]
    by (subst case_header_value.simps) (simp add: Let_def leads_callback)
qed

lemma case_headers_almost_done_user: "R u (ex_user e) \<Longrightarrow> leads u (case_headers_almost_done S e)"
  by (auto simp: case_headers_almost_done_def Let_def leads_callback dest: step_user(4) split: prod.split)

lemma exec_switch_user: "R u (ex_user e) \<Longrightarrow> leads u (exec_switch S data e)"
  using case_headers_almost_done_user [of u e]
  by (cases "ex_state e")
    (simp_all add: exec_switch_def case_header_field_user case_header_value_user case_defs case_body_identity_def
      case_chunk_data_def assert_chunked_def Let_def leads_callback
      split: option.split sum.split bool.split header_states.split)

lemma exec_byte_user: "R u (ex_user e) \<Longrightarrow> leads u (exec_byte S data e)"
proof (induction "rank (ex_state e)" arbitrary: e rule: less_induct)
  case less
  have "leads u (exec_switch S data e)" using less.prems by (rule exec_switch_user)
  then show ?case
    using less.hyps exec_switch_moves [of e data S]
    by (subst exec_byte.simps) (auto split: outcome.split)
qed

lemma exec_finish_user: "R u (ex_user e) \<Longrightarrow> leads u (exec_finish S data e)" "R u (ex_user e) \<Longrightarrow> leads u (exec_error e)"
  by (auto simp: exec_finish_def exec_leftover_def exec_error_def Let_def intro!: leads_callback)

lemma exec_loop_user: "R u (ex_user e) \<Longrightarrow> leads u (exec_loop S data e)"
proof (induction "length data - ex_p e" arbitrary: e rule: less_induct)
  case less
  let ?r = "exec_byte S data (e\<lparr>ex_ch := data ! ex_p e\<rparr>)"
  have b: "leads u ?r" using less.prems by (intro exec_byte_user) simp
  have h: "leads u (exec_loop S data (e'\<lparr>ex_p := ex_p e' + 1\<rparr>))"
    if "?r = Break e'" "ex_p e < length data" for e'
    using that less.hyps [of "e'\<lparr>ex_p := ex_p e' + 1\<rparr>"] b exec_byte_Break [OF that(1)] by auto
  show ?case
    using less.prems b h by (subst exec_loop.simps) (auto simp: exec_finish_user split: outcome.split)
qed

lemma exec_eof_user: "R u (ex_user e) \<Longrightarrow> leads u (exec_eof S e)"
  by (cases "ex_state e") (simp_all add: exec_eof_def leads_callback)

theorem execute_user:
  assumes "http_parser_execute S data q u = Inr (n, q', u')"
  shows "R u u'"
proof -
  have r: "leads u r \<Longrightarrow> exec_result r = Inr (n, q', u') \<Longrightarrow> R u u'" for r
    by (cases r) (simp_all add: exec_result_def)
  have "R u (ex_user (exec_init q u))" by (simp add: exec_init_def refl_law)
  then show ?thesis
    using assms r exec_loop_user [of u "(exec_init q u)\<lparr>ex_marks := initial_marks (p_state q)\<rparr>" data]
      exec_eof_user [of u "exec_init q u"] r [of "RETURN 0 (exec_init q u)"]
    by (auto simp: http_parser_execute_def Let_def split: if_splits)
qed

end

end
