(* ===== verification/Http_Url.thy ===== *)
theory Http_Url
  imports Http_Tables
begin

text \<open>
  The URL parser (src/evpphttp/http_parser.cpp): the byte-wise transition functions
  \<^verbatim>\<open>parse_url_char\<close> and \<^verbatim>\<open>http_parse_host_char\<close>, and \<^verbatim>\<open>http_parser_parse_url\<close> with
  \<^verbatim>\<open>http_parse_host\<close>, which record where the components of the URL lie. Offsets and lengths are
  16 bits wide as in the source. The buffer of the URL ends with a zero byte behind its last byte
  (the callers pass \<^verbatim>\<open>std::string::data()\<close>), on which \<^verbatim>\<open>strtoul\<close> stops.
\<close>

section \<open>Transition functions\<close>

definition parse_url_char :: "state \<Rightarrow> byte \<Rightarrow> state" where
  "parse_url_char s ch =
     (if ch = CHR '' '' \<or> ch = CR \<or> ch = LF then s_dead
      else case s of
        s_req_spaces_before_url \<Rightarrow>
          if ch = CHR ''/'' \<or> ch = CHR ''*'' then s_req_path
          else if IS_ALPHA ch then s_req_schema else s_dead
      | s_req_schema \<Rightarrow>
          if IS_ALPHA ch then s else if ch = CHR '':'' then s_req_schema_slash else s_dead
      | s_req_schema_slash \<Rightarrow> if ch = CHR ''/'' then s_req_schema_slash_slash else s_dead
      | s_req_schema_slash_slash \<Rightarrow> if ch = CHR ''/'' then s_req_server_start else s_dead
      | s_req_server_with_at \<Rightarrow>
          if ch = CHR ''@'' then s_dead
          else if ch = CHR ''/'' then s_req_path
          else if ch = CHR ''?'' then s_req_query_string_start
          else if IS_USERINFO_CHAR ch \<or> ch = CHR ''['' \<or> ch = CHR '']'' then s_req_server else s_dead
      | s_req_server_start \<Rightarrow>
          if ch = CHR ''/'' then s_req_path
          else if ch = CHR ''?'' then s_req_query_string_start
          else if ch = CHR ''@'' then s_req_server_with_at
          else if IS_USERINFO_CHAR ch \<or> ch = CHR ''['' \<or> ch = CHR '']'' then s_req_server else s_dead
      | s_req_server \<Rightarrow>
          if ch = CHR ''/'' then s_req_path
          else if ch = CHR ''?'' then s_req_query_string_start
          else if ch = CHR ''@'' then s_req_server_with_at
          else if IS_USERINFO_CHAR ch \<or> ch = CHR ''['' \<or> ch = CHR '']'' then s_req_server else s_dead
      | s_req_path \<Rightarrow>
          if IS_URL_CHAR ch then s
          else if ch = CHR ''?'' then s_req_query_string_start
          else if ch = CHR ''#'' then s_req_fragment_start else s_dead
      | s_req_query_string_start \<Rightarrow>
          if IS_URL_CHAR ch then s_req_query_string
          else if ch = CHR ''?'' then s_req_query_string
          else if ch = CHR ''#'' then s_req_fragment_start else s_dead
      | s_req_query_string \<Rightarrow>
          if IS_URL_CHAR ch then s_req_query_string
          else if ch = CHR ''?'' then s_req_query_string
          else if ch = CHR ''#'' then s_req_fragment_start else s_dead
      | s_req_fragment_start \<Rightarrow>
          if IS_URL_CHAR ch then s_req_fragment
          else if ch = CHR ''?'' then s_req_fragment
          else if ch = CHR ''#'' then s else s_dead
      | s_req_fragment \<Rightarrow>
          if IS_URL_CHAR ch then s
          else if ch = CHR ''?'' \<or> ch = CHR ''#'' then s else s_dead
      | _ \<Rightarrow> s_dead)"

definition http_parse_host_char :: "http_host_state \<Rightarrow> byte \<Rightarrow> http_host_state" where
  "http_parse_host_char s ch = (case s of
     s_http_userinfo \<Rightarrow>
       if ch = CHR ''@'' then s_http_host_start
       else if IS_USERINFO_CHAR ch then s_http_userinfo else s_http_host_dead
   | s_http_userinfo_start \<Rightarrow>
       if ch = CHR ''@'' then s_http_host_start
       else if IS_USERINFO_CHAR ch then s_http_userinfo else s_http_host_dead
   | s_http_host_start \<Rightarrow>
       if ch = CHR ''['' then s_http_host_v6_start
       else if IS_HOST_CHAR ch then s_http_host else s_http_host_dead
   | s_http_host \<Rightarrow>
       if IS_HOST_CHAR ch then s_http_host
       else if ch = CHR '':'' then s_http_host_port_start else s_http_host_dead
   | s_http_host_v6_end \<Rightarrow> if ch = CHR '':'' then s_http_host_port_start else s_http_host_dead
   | s_http_host_v6 \<Rightarrow>
       if ch = CHR '']'' then s_http_host_v6_end
       else if IS_HEX ch \<or> ch = CHR '':'' \<or> ch = CHR ''.'' then s_http_host_v6 else s_http_host_dead
   | s_http_host_v6_start \<Rightarrow>
       if IS_HEX ch \<or> ch = CHR '':'' \<or> ch = CHR ''.'' then s_http_host_v6 else s_http_host_dead
   | s_http_host_port \<Rightarrow> if IS_NUM ch then s_http_host_port else s_http_host_dead
   | s_http_host_port_start \<Rightarrow> if IS_NUM ch then s_http_host_port else s_http_host_dead
   | _ \<Rightarrow> s_http_host_dead)"

section \<open>Components\<close>

record http_parser_url =
  field_set :: "16 word"
  u_port :: "16 word"
  field_off :: "http_parser_url_fields \<Rightarrow> 16 word"
  field_len :: "http_parser_url_fields \<Rightarrow> 16 word"

definition uf_bit :: "http_parser_url_fields \<Rightarrow> 16 word" where
  "uf_bit f = push_bit (uf_val f) 1"

definition has_field :: "http_parser_url_fields \<Rightarrow> http_parser_url \<Rightarrow> bool" where
  "has_field f u \<longleftrightarrow> field_set u AND uf_bit f \<noteq> 0"

text \<open>\<^verbatim>\<open>u->field_data[f].off = p - buf; u->field_data[f].len = n\<close>, the set bit, and \<^verbatim>\<open>len++\<close>.\<close>

definition set_off :: "http_parser_url_fields \<Rightarrow> nat \<Rightarrow> http_parser_url \<Rightarrow> http_parser_url" where
  "set_off f p u = u\<lparr>field_off := (field_off u)(f := of_nat p)\<rparr>"

definition set_len :: "http_parser_url_fields \<Rightarrow> 16 word \<Rightarrow> http_parser_url \<Rightarrow> http_parser_url" where
  "set_len f n u = u\<lparr>field_len := (field_len u)(f := n)\<rparr>"

definition inc_len :: "http_parser_url_fields \<Rightarrow> http_parser_url \<Rightarrow> http_parser_url" where
  "inc_len f u = set_len f (field_len u f + 1) u"

definition add_field :: "http_parser_url_fields \<Rightarrow> http_parser_url \<Rightarrow> http_parser_url" where
  "add_field f u = u\<lparr>field_set := field_set u OR uf_bit f\<rparr>"

text \<open>One iteration of the loop of \<^verbatim>\<open>http_parse_host\<close> after the dead state is excluded.\<close>

definition host_step :: "http_host_state \<Rightarrow> http_host_state \<Rightarrow> nat \<Rightarrow> http_parser_url \<Rightarrow> http_parser_url" where
  "host_step s new_s p u = (case new_s of
     s_http_host \<Rightarrow> inc_len UF_HOST (if s \<noteq> s_http_host then set_off UF_HOST p u else u)
   | s_http_host_v6 \<Rightarrow> inc_len UF_HOST (if s \<noteq> s_http_host_v6 then set_off UF_HOST p u else u)
   | s_http_host_port \<Rightarrow>
       inc_len UF_PORT (if s \<noteq> s_http_host_port
         then add_field UF_PORT (set_len UF_PORT 0 (set_off UF_PORT p u)) else u)
   | s_http_userinfo \<Rightarrow>
       inc_len UF_USERINFO (if s \<noteq> s_http_userinfo
         then add_field UF_USERINFO (set_len UF_USERINFO 0 (set_off UF_USERINFO p u)) else u)
   | _ \<Rightarrow> u)"

text \<open>The loop over the bytes \<open>cs\<close> of the host, which start at offset \<open>p\<close>: the state at the end, or
  \<open>None\<close> when the dead state is reached.\<close>

fun host_loop :: "byte list \<Rightarrow> nat \<Rightarrow> http_host_state \<Rightarrow> http_parser_url \<Rightarrow>
    http_host_state option \<times> http_parser_url" where
  "host_loop [] p s u = (Some s, u)"
| "host_loop (c # cs) p s u =
     (let new_s = http_parse_host_char s c in
      if new_s = s_http_host_dead then (None, u)
      else host_loop cs (p + 1) new_s (host_step s new_s p u))"

definition http_parse_host :: "byte list \<Rightarrow> http_parser_url \<Rightarrow> bool \<Rightarrow> (int \<times> http_parser_url) result" where
  "http_parse_host buf u found_at =
     (let off = unat (field_off u UF_HOST); buflen = off + unat (field_len u UF_HOST);
          u1 = set_len UF_HOST 0 u;
          s = (if found_at then s_http_userinfo_start else s_http_host_start) in
      ebind (mem_read off (buflen - off) buf) (\<lambda>cs.
        case host_loop cs off s u1 of
          (None, u2) \<Rightarrow> Inr (1, u2)
        | (Some t, u2) \<Rightarrow>
            Inr (if t \<in> {s_http_host_start, s_http_host_v6_start, s_http_host_v6, s_http_host_port_start,
                   s_http_userinfo, s_http_userinfo_start} then 1 else 0, u2)))"

text \<open>The field a state of the URL parser belongs to: \<open>Inr None\<close> for the delimiters that are
  skipped, \<open>Inl True\<close> for the dead state, \<open>Inl False\<close> for the states the assertion excludes.\<close>

definition url_field :: "state \<Rightarrow> bool + http_parser_url_fields option" where
  "url_field s = (case s of
     s_dead \<Rightarrow> Inl True
   | s_req_schema_slash \<Rightarrow> Inr None
   | s_req_schema_slash_slash \<Rightarrow> Inr None
   | s_req_server_start \<Rightarrow> Inr None
   | s_req_query_string_start \<Rightarrow> Inr None
   | s_req_fragment_start \<Rightarrow> Inr None
   | s_req_schema \<Rightarrow> Inr (Some UF_SCHEMA)
   | s_req_server_with_at \<Rightarrow> Inr (Some UF_HOST)
   | s_req_server \<Rightarrow> Inr (Some UF_HOST)
   | s_req_path \<Rightarrow> Inr (Some UF_PATH)
   | s_req_query_string \<Rightarrow> Inr (Some UF_QUERY)
   | s_req_fragment \<Rightarrow> Inr (Some UF_FRAGMENT)
   | _ \<Rightarrow> Inl False)"

text \<open>The loop of \<^verbatim>\<open>http_parser_parse_url\<close>: \<open>None\<close> instead of \<open>found_at\<close> when it returns 1.\<close>

fun url_loop :: "byte list \<Rightarrow> nat \<Rightarrow> state \<Rightarrow> http_parser_url_fields \<Rightarrow> bool \<Rightarrow> http_parser_url \<Rightarrow>
    (bool option \<times> http_parser_url) result" where
  "url_loop [] p s old_uf found_at u = Inr (Some found_at, u)"
| "url_loop (c # cs) p s old_uf found_at u =
     (let s' = parse_url_char s c; found' = (found_at \<or> s' = s_req_server_with_at) in
      case url_field s' of
        Inl True \<Rightarrow> Inr (None, u)
      | Inl False \<Rightarrow> Inl AssertFail
      | Inr None \<Rightarrow> url_loop cs (p + 1) s' old_uf found' u
      | Inr (Some uf) \<Rightarrow>
          if uf = old_uf then url_loop cs (p + 1) s' old_uf found' (inc_len uf u)
          else url_loop cs (p + 1) s' uf found' (add_field uf (set_len uf 1 (set_off uf p u))))"

text \<open>\<^verbatim>\<open>strtoul\<close> in base 10 on a text that begins with a digit: the value of the digits up to the
  first other byte, or \<^verbatim>\<open>ULONG_MAX\<close> when it does not fit.\<close>

definition decimal :: "byte list \<Rightarrow> nat" where
  "decimal ds = foldl (\<lambda>v c. 10 * v + (of_char c - 48)) 0 ds"

definition strtoul10 :: "byte list \<Rightarrow> nat" where
  "strtoul10 cs = min (decimal (takeWhile IS_NUM cs)) (2 ^ 64 - 1)"

definition http_parser_parse_url ::
  "byte list \<Rightarrow> bool \<Rightarrow> http_parser_url \<Rightarrow> (int \<times> http_parser_url) result" where
  "http_parser_parse_url buf is_connect u =
     (let u0 = u\<lparr>u_port := 0, field_set := 0\<rparr> in
      ebind (url_loop buf 0 (if is_connect then s_req_server_start else s_req_spaces_before_url) UF_MAX False u0)
        (\<lambda>(f, u1). case f of
           None \<Rightarrow> Inr (1, u1)
         | Some found_at \<Rightarrow>
             ebind (if field_set u1 AND (uf_bit UF_SCHEMA OR uf_bit UF_HOST) \<noteq> 0
                    then http_parse_host buf u1 found_at else Inr (0, u1)) (\<lambda>(r, u2).
               if r \<noteq> 0 then Inr (1, u2)
               else if is_connect \<and> field_set u2 \<noteq> uf_bit UF_HOST OR uf_bit UF_PORT then Inr (1, u2)
               else if has_field UF_PORT u2 then
                 let v = strtoul10 (drop (unat (field_off u2 UF_PORT)) buf) in
                 if v > 0xffff then Inr (1, u2) else Inr (0, u2\<lparr>u_port := of_nat v\<rparr>)
               else Inr (0, u2))))"

end
