(* ===== verification/Http_Request.thy ===== *)
theory Http_Request
  imports Http_Exec_Inv Http_Url Buffer_Props
begin

text \<open>
  \<^verbatim>\<open>evpphttp::HttpRequest\<close> (include/eventpp/evpphttp/http_request.hpp,
  src/evpphttp/http_request.cpp): the callbacks that collect a request and \<^verbatim>\<open>Parse\<close>, which feeds the
  parser from a buffer. The callbacks are an instance of the contract \<open>parser_callbacks\<close>.
  An exception a callback throws (from \<^verbatim>\<open>Buffer::Append\<close>) is kept in \<open>hr_thrown\<close> and ends \<^verbatim>\<open>Parse\<close>.
\<close>

section \<open>State and callbacks\<close>

record http_request =
  hr_body :: buffer
  hr_field_value :: "string \<rightharpoonup> string"
  hr_parser :: http_parser
  hr_remote_ip :: string
  hr_field :: string
  hr_value :: string
  hr_url :: string
  hr_pre_state :: nat
  hr_completed :: bool
  hr_send_continue :: bool
  hr_u :: http_parser_url
  hr_thrown :: "cpp_error option"

definition hr_throw :: "cpp_error \<Rightarrow> http_request \<Rightarrow> http_request" where
  "hr_throw x r = r\<lparr>hr_thrown := (case hr_thrown r of None \<Rightarrow> Some x | Some y \<Rightarrow> Some y)\<rparr>"

definition OnMessageBegin :: "http_request http_cb" where
  "OnMessageBegin p req = (0, p, req)"

definition OnMessageEnd :: "http_request http_cb" where
  "OnMessageEnd p req =
     (let req1 = req\<lparr>hr_completed := True\<rparr> in
      case http_parser_pause True p of
        Inl x \<Rightarrow> (0, p, hr_throw x req1)
      | Inr p1 \<Rightarrow> (0, p1, req1))"

definition OnUrl :: "http_request http_data_cb" where
  "OnUrl p req buf = (0, p, req\<lparr>hr_url := hr_url req @ buf\<rparr>)"

definition OnField :: "http_request http_data_cb" where
  "OnField p req buf =
     (let req1 = (if hr_pre_state req = 51 then req\<lparr>hr_field := hr_field req @ buf\<rparr>
                  else req\<lparr>hr_field := buf\<rparr>) in
      (0, p, req1\<lparr>hr_pre_state := state_val (p_state p)\<rparr>))"

text \<open>A string that has been moved from is left empty.\<close>

definition OnValue :: "http_request http_data_cb" where
  "OnValue p req buf =
     (let req1 = (if hr_pre_state req = 53 then req\<lparr>hr_value := hr_value req @ buf\<rparr>
                  else req\<lparr>hr_value := buf\<rparr>);
          st = state_val (p_state p);
          req2 = (if st = 55 then req1\<lparr>hr_field_value := (hr_field_value req1)(hr_field req1 \<mapsto> hr_value req1),
                                       hr_value := [], hr_field := []\<rparr>
                  else req1) in
      (0, p, req2\<lparr>hr_pre_state := st\<rparr>))"

definition OnBody :: "http_request http_data_cb" where
  "OnBody p req buf =
     (case Buffer_Append buf (hr_body req) of
        Inl x \<Rightarrow> (0, p, hr_throw x req)
      | Inr b \<Rightarrow> (0, p, req\<lparr>hr_body := b\<rparr>))"

definition OnHeaderComplete :: "http_parser \<Rightarrow> http_request \<Rightarrow> nat \<Rightarrow> int \<times> http_parser \<times> http_request" where
  "OnHeaderComplete p req len =
     (case http_parser_parse_url (hr_url req) True (hr_u req) of
        Inl x \<Rightarrow> (0, p, hr_throw x req)
      | Inr (_, u) \<Rightarrow> (0, p, req\<lparr>hr_u := u\<rparr>))"

definition EmptyCB :: "http_request http_cb" where
  "EmptyCB p req = (0, p, req)"

definition EmptyDataCB :: "http_request http_data_cb" where
  "EmptyDataCB p req buf = (0, p, req)"

definition request_settings :: "http_request http_parser_settings" where
  "request_settings = \<lparr>on_message_begin = OnMessageBegin, on_url = OnUrl, on_header_field = OnField,
     on_header_value = OnValue, on_headers_complete = OnHeaderComplete, on_body = OnBody,
     on_message_complete = OnMessageEnd, on_reason = EmptyDataCB, on_chunk_header = EmptyCB,
     on_chunk_complete = EmptyCB\<rparr>"

text \<open>The constructor; \<open>p\<close> and \<open>u\<close> are what the uninitialised members hold.\<close>

definition HttpRequest_new :: "http_parser \<Rightarrow> http_parser_url \<Rightarrow> http_request result" where
  "HttpRequest_new p u =
     ebind (Buffer_new kInitialSize kCheapPrependSize) (\<lambda>b.
       Inr \<lparr>hr_body = b, hr_field_value = Map.empty, hr_parser = http_parser_init HTTP_REQUEST p,
            hr_remote_ip = [], hr_field = [], hr_value = [], hr_url = [], hr_pre_state = 0,
            hr_completed = False, hr_send_continue = False, hr_u = u, hr_thrown = None\<rparr>)"

definition HttpRequest_Parse :: "buffer \<Rightarrow> http_request \<Rightarrow> (http_errno \<times> http_request \<times> buffer) result" where
  "HttpRequest_Parse buf req =
     ebind (Buffer_ToSlice buf) (\<lambda>data.
     ebind (http_parser_execute request_settings data (hr_parser req) req) (\<lambda>(parsed, p, req1).
       case hr_thrown req1 of
         Some x \<Rightarrow> Inl x
       | None \<Rightarrow>
           let req2 = req1\<lparr>hr_parser := p\<rparr>; err = http_errno p in
           if err \<noteq> HPE_OK \<and> err \<noteq> HPE_PAUSED then Inr (err, req2, buf)
           else ebind (Buffer_Retrieve (of_nat parsed) buf) (\<lambda>buf1. Inr (HPE_OK, req2, buf1))))"

section \<open>Accessors\<close>

text \<open>\<^verbatim>\<open>std::string(s, pos, len)\<close> throws when \<open>pos\<close> is beyond the string.\<close>

definition substr :: "string \<Rightarrow> nat \<Rightarrow> nat \<Rightarrow> string result" where
  "substr s i n = (if i \<le> length s then Inr (take n (drop i s)) else Inl (Thrown ''out_of_range''))"

definition url_component :: "http_parser_url_fields \<Rightarrow> http_request \<Rightarrow> string result" where
  "url_component f r =
     (if has_field f (hr_u r) then substr (hr_url r) (unat (field_off (hr_u r) f)) (unat (field_len (hr_u r) f))
      else Inr [])"

definition url_path :: "http_request \<Rightarrow> string result" where
  "url_path r = url_component UF_PATH r"

definition url_query :: "http_request \<Rightarrow> string result" where
  "url_query r = url_component UF_QUERY r"

definition url_fragment :: "http_request \<Rightarrow> string result" where
  "url_fragment r = url_component UF_FRAGMENT r"

definition url_userinfo :: "http_request \<Rightarrow> string result" where
  "url_userinfo r = url_component UF_USERINFO r"

definition set_remote_ip :: "string \<Rightarrow> http_request \<Rightarrow> http_request" where
  "set_remote_ip ip r = r\<lparr>hr_remote_ip := ip\<rparr>"

definition set_continue :: "http_request \<Rightarrow> http_request" where
  "set_continue r = r\<lparr>hr_send_continue := True\<rparr>"

section \<open>The callbacks keep the contract\<close>

interpretation req: parser_callbacks request_settings
proof
  fix F D q u x r q' u' n
  show "notify_cb request_settings F q u = (r, q', u') \<Longrightarrow> keeps q q'"
    by (cases F) (auto simp: request_settings_def OnMessageBegin_def OnMessageEnd_def EmptyCB_def keeps_def
        http_parser_pause_def Let_def split: sum.splits if_splits)
  show "data_cb request_settings D q u x = (r, q', u') \<Longrightarrow> keeps q q'"
    by (cases D) (auto simp: request_settings_def OnUrl_def OnField_def OnValue_def OnBody_def EmptyDataCB_def
        keeps_def Let_def split: sum.splits)
  show "on_headers_complete request_settings q u n = (r, q', u') \<Longrightarrow> keeps q q'"
    by (auto simp: request_settings_def OnHeaderComplete_def keeps_def split: sum.splits prod.splits)
qed

section \<open>Samples\<close>

definition blank_parser :: http_parser where
  "blank_parser = \<lparr>p_type = HTTP_BOTH, flags = 0, p_state = s_dead, header_state = h_general, p_index = 0,
     nread = 0, content_length = 0, http_major = 0, http_minor = 0, status_code = 0,
     p_method = HTTP_DELETE, http_errno = HPE_OK, upgrade = False\<rparr>"

definition blank_url :: http_parser_url where
  "blank_url = \<lparr>field_set = 0, u_port = 0, field_off = (\<lambda>_. 0), field_len = (\<lambda>_. 0)\<rparr>"

definition sample_request :: http_request where
  "sample_request = \<lparr>hr_body = sample_buffer, hr_field_value = Map.empty,
     hr_parser = http_parser_init HTTP_REQUEST blank_parser, hr_remote_ip = [], hr_field = [],
     hr_value = [], hr_url = [], hr_pre_state = 0, hr_completed = False, hr_send_continue = False,
     hr_u = blank_url, hr_thrown = None\<rparr>"

lemma init_inv: "state_inv s_pre_start_req blank_parser" "parser_inv (http_parser_init HTTP_REQUEST blank_parser)"
  by (simp_all add: parser_inv_def state_inv_def http_parser_init_def blank_parser_def INT64_MAX_def)

end
