(* ===== verification/Http_Parser_Props.thy ===== *)
theory Http_Parser_Props
  imports Http_Fast Http_Request
begin

text \<open>
  Properties of the HTTP parser: safety for every well-behaved set of callbacks, equivalence with
  the byte-wise reference, recognition of the methods, the value of Content-Length, and
  the inputs on which the parser deviates from its documentation.
\<close>

section \<open>Feeding bytes\<close>

lemma exec_loop_step:
  assumes "drop (ex_p e) data = c # d # cs" "exec_switch S data (e\<lparr>ex_ch := c\<rparr>) = Break e'" "ex_p e' = ex_p e"
  shows "exec_loop S data e = exec_loop S data (e'\<lparr>ex_p := ex_p e + 1, ex_ch := ex_ch e\<rparr>)"
    and "drop (ex_p e + 1) data = d # cs" "ex_p e + 1 < length data"
proof -
  have p: "ex_p e < length data" "data ! ex_p e = c"
    using assms(1) by (metis drop_all list.distinct(1) not_less, metis nth_via_drop)
  show d: "drop (ex_p e + 1) data = d # cs"
    using assms(1) by (metis Suc_eq_plus1 drop_Suc list.sel(3) tl_drop)
  then show q: "ex_p e + 1 < length data" by (metis drop_all list.distinct(1) not_less)
  have "exec_byte S data (e\<lparr>ex_ch := data ! ex_p e\<rparr>) = Break e'"
    using assms(2) p by (simp add: exec_byte.simps)
  then show "exec_loop S data e = exec_loop S data (e'\<lparr>ex_p := ex_p e + 1, ex_ch := ex_ch e\<rparr>)"
    using exec_loop_Break [OF p(1)] assms(3) exec_loop_ch [of "e'\<lparr>ex_p := ex_p e + 1\<rparr>"] q by simp
qed

section \<open>Methods\<close>

definition method_next :: "http_method \<Rightarrow> nat \<Rightarrow> byte \<Rightarrow> (http_method \<times> bool) option" where
  "method_next m i c =
     (if c = CHR 0x00 then None
      else case c_char (method_strings m) i of
        Inl x \<Rightarrow> None
      | Inr mc \<Rightarrow>
          if c = CHR '' '' \<and> mc = CHR 0x00 then Some (m, True)
          else if c = mc then Some (m, False)
          else case switch_method m i c of Inl b \<Rightarrow> None | Inr m' \<Rightarrow> Some (m', False))"

fun method_run :: "http_method \<Rightarrow> nat \<Rightarrow> byte list \<Rightarrow> http_method option" where
  "method_run m i [] = None"
| "method_run m i (c # cs) =
     (case method_next m i c of
        None \<Rightarrow> None
      | Some (m', True) \<Rightarrow> if cs = [] then Some m' else None
      | Some (m', False) \<Rightarrow> method_run m' (i + 1) cs)"

lemma case_req_method_next:
  assumes "method_next (p_method (ex_parser e)) (unat (p_index (ex_parser e))) (ex_ch e) = Some (m', done)"
  shows "case_req_method e = Break (e\<lparr>ex_parser := (ex_parser e)\<lparr>p_method := m', p_index := p_index (ex_parser e) + 1\<rparr>,
    ex_state := (if done then s_req_spaces_before_url else ex_state e)\<rparr>)"
proof (cases "c_char (method_strings (p_method (ex_parser e))) (unat (p_index (ex_parser e)))")
  case (Inl x)
  then show ?thesis using assms by (simp add: method_next_def split: if_splits)
next
  case (Inr mc)
  show ?thesis
  proof (cases "ex_ch e = CHR '' '' \<and> mc = CHR 0x00 \<or> ex_ch e = mc")
    case True
    then show ?thesis
      using assms Inr by (auto simp: method_next_def case_req_method_def set_parser_def set_state_def split: if_splits)
  next
    case False
    then show ?thesis
      using assms Inr
      by (cases "switch_method (p_method (ex_parser e)) (unat (p_index (ex_parser e))) (ex_ch e)")
        (auto simp: method_next_def case_req_method_def set_parser_def split: if_splits)
  qed
qed

lemma method_run_exec:
  assumes "method_run m i cs = Some m'" "ex_state e = s_req_method" "p_method (ex_parser e) = m"
    "unat (p_index (ex_parser e)) = i" "i + length cs < 256" "drop (ex_p e) data = cs @ d # rest"
  shows "exec_loop S data e = exec_loop S data (e\<lparr>ex_parser := (ex_parser e)\<lparr>p_method := m',
      p_index := p_index (ex_parser e) + of_nat (length cs)\<rparr>,
    ex_state := s_req_spaces_before_url, ex_p := ex_p e + length cs\<rparr>)"
  using assms
proof (induction cs arbitrary: e m i)
  case Nil
  then show ?case by simp
next
  case (Cons c cs)
  obtain m1 dn where n: "method_next m i c = Some (m1, dn)"
    using Cons.prems(1) by (auto split: option.splits)
  obtain d' cs' where dc: "cs @ d # rest = d' # cs'" by (cases cs) auto
  let ?e1 = "e\<lparr>ex_parser := (ex_parser e)\<lparr>p_method := m1, p_index := p_index (ex_parser e) + 1\<rparr>,
    ex_state := (if dn then s_req_spaces_before_url else s_req_method), ex_p := ex_p e + 1\<rparr>"
  have "exec_switch S data (e\<lparr>ex_ch := c\<rparr>) = Break (e\<lparr>ex_ch := c, ex_parser := (ex_parser e)\<lparr>p_method := m1,
      p_index := p_index (ex_parser e) + 1\<rparr>, ex_state := (if dn then s_req_spaces_before_url else s_req_method)\<rparr>)"
    using case_req_method_next [of "e\<lparr>ex_ch := c\<rparr>" m1 dn] n Cons.prems(2-4) by (simp add: exec_switch_def)
  from exec_loop_step [OF _ this, of d' cs'] Cons.prems(6) dc
  have s: "exec_loop S data e = exec_loop S data ?e1" "drop (ex_p e + 1) data = cs @ d # rest"
    by (auto simp: ch_first)
  have i: "unat (p_index (ex_parser e) + 1) = i + 1"
    using Cons.prems(4,5) by (simp add: unat_word_ariths)
  show ?case
  proof (cases dn)
    case True
    then have "cs = []" "m1 = m'" using Cons.prems(1) n by (auto split: if_splits)
    then show ?thesis using s True by simp
  next
    case False
    then have "method_run m1 (i + 1) cs = Some m'" using Cons.prems(1) n by simp
    then show ?thesis
      using Cons.IH [of m1 "i + 1" ?e1] False i Cons.prems(5) s by (simp add: algebra_simps)
  qed
qed

lemma method_run_all: "method_run (the (start_method (hd (method_strings m)))) 1 (tl (method_strings m) @ '' '') = Some m"
  by (cases m) (simp_all add: start_method_def method_next_def c_char_def switch_method_def)


text \<open>After the first letter of a method.\<close>

lemma start_method_all:
  "start_method (hd (method_strings m)) \<noteq> None" "IS_ALPHA (hd (method_strings m))"
  "method_strings m \<noteq> []" "length (method_strings m) < 20"
  subgoal by (cases m) (simp_all add: start_method_def)
  subgoal by (cases m) (simp_all add: IS_ALPHA_def LOWER_def)
  subgoal by (cases m) simp_all
  subgoal by (cases m) simp_all
  done

section \<open>Content-Length\<close>

definition decimal_from :: "int \<Rightarrow> byte list \<Rightarrow> int" where
  "decimal_from v ds = foldl (\<lambda>v c. v * 10 + digit64 c) v ds"

lemma decimal_from_simps [simp]:
  "decimal_from v [] = v" "decimal_from v (c # ds) = decimal_from (v * 10 + digit64 c) ds"
  by (simp_all add: decimal_from_def)

text \<open>A digit is accepted as long as the value read so far leaves room for another one.\<close>

fun fits :: "int \<Rightarrow> byte list \<Rightarrow> bool" where
  "fits v [] \<longleftrightarrow> True"
| "fits v (c # ds) \<longleftrightarrow> v \<le> (INT64_MAX - 10) div 10 \<and> fits (v * 10 + digit64 c) ds"

definition reading_length :: "'u exec \<Rightarrow> bool" where
  "reading_length e \<longleftrightarrow> ex_state e = s_header_value \<and> header_state (ex_parser e) = h_content_length \<and>
     0 \<le> content_length (ex_parser e)"

lemma digit_bytes:
  assumes "IS_NUM c"
  shows "c \<noteq> CR" "c \<noteq> LF" "IS_HEADER_CHAR c" "c \<noteq> CHR '' ''" "0 \<le> digit64 c" "digit64 c \<le> 9"
  using assms by (auto simp: IS_NUM_def CR_def LF_def IS_HEADER_CHAR_def digit64_def)

lemma length_digit:
  assumes "reading_length e" "IS_NUM (ex_ch e)"
  shows "content_length (ex_parser e) \<le> (INT64_MAX - 10) div 10 \<Longrightarrow> case_header_value S data e =
      Break (e\<lparr>ex_parser := (ex_parser e)\<lparr>content_length := content_length (ex_parser e) * 10 + digit64 (ex_ch e)\<rparr>\<rparr>)"
    and "\<not> content_length (ex_parser e) \<le> (INT64_MAX - 10) div 10 \<Longrightarrow>
      case_header_value S data e = fail_with HPE_HUGE_CONTENT_LENGTH e"
proof -
  note d = digit_bytes [OF assms(2)]
  have o: "case_header_value S data e = header_value_digit e"
    using assms d by (subst case_header_value.simps) (simp add: reading_length_def header_value_other_def)
  have c: "0 \<le> content_length (ex_parser e)" using assms(1) by (simp add: reading_length_def)
  show "case_header_value S data e = Break (e\<lparr>ex_parser := (ex_parser e)\<lparr>content_length :=
      content_length (ex_parser e) * 10 + digit64 (ex_ch e)\<rparr>\<rparr>)"
    if "content_length (ex_parser e) \<le> (INT64_MAX - 10) div 10"
  proof -
    have "content_length (ex_parser e) * 10 \<le> INT64_MAX - 10" using that by (simp add: INT64_MAX_def)
    then show ?thesis
      using o d c assms(2) that
      by (simp add: header_value_digit_def set_content_length_def set_parser_def)
  qed
  show "case_header_value S data e = fail_with HPE_HUGE_CONTENT_LENGTH e"
    if "\<not> content_length (ex_parser e) \<le> (INT64_MAX - 10) div 10"
    using o d assms(2) that by (simp add: header_value_digit_def)
qed

lemma length_digits_exec:
  assumes "reading_length e" "list_all IS_NUM ds" "fits (content_length (ex_parser e)) ds"
    "drop (ex_p e) data = ds @ d # rest"
  shows "exec_loop S data e = exec_loop S data (e\<lparr>ex_parser := (ex_parser e)\<lparr>content_length :=
      decimal_from (content_length (ex_parser e)) ds\<rparr>, ex_p := ex_p e + length ds\<rparr>)"
  using assms
proof (induction ds arbitrary: e)
  case Nil
  then show ?case by simp
next
  case (Cons c ds)
  obtain d' r' where dr: "ds @ d # rest = d' # r'" by (cases ds) auto
  let ?v = "content_length (ex_parser e) * 10 + digit64 c"
  let ?e1 = "e\<lparr>ex_parser := (ex_parser e)\<lparr>content_length := ?v\<rparr>, ex_p := ex_p e + 1\<rparr>"
  have "exec_switch S data (e\<lparr>ex_ch := c\<rparr>) = Break (e\<lparr>ex_ch := c, ex_parser := (ex_parser e)\<lparr>content_length := ?v\<rparr>\<rparr>)"
    using length_digit(1) [of "e\<lparr>ex_ch := c\<rparr>"] Cons.prems
    by (simp add: exec_switch_def reading_length_def)
  from exec_loop_step [OF _ this, of d' r'] Cons.prems(4) dr
  have s: "exec_loop S data e = exec_loop S data ?e1" "drop (ex_p e + 1) data = ds @ d # rest"
    by (auto simp: ch_first)
  have "0 \<le> ?v" using Cons.prems(1,2) digit_bytes(5) [of c] by (simp add: reading_length_def)
  then show ?case
    using Cons.IH [of ?e1] Cons.prems s by (simp add: reading_length_def)
qed

lemma fits_bounded:
  "fits v ds \<Longrightarrow> list_all IS_NUM ds \<Longrightarrow> 0 \<le> v \<Longrightarrow> v \<le> INT64_MAX \<Longrightarrow>
   0 \<le> decimal_from v ds \<and> decimal_from v ds \<le> INT64_MAX"
proof (induction ds arbitrary: v)
  case (Cons c ds)
  have "v * 10 \<le> INT64_MAX - 10" using Cons.prems(1) by (simp add: INT64_MAX_def)
  then show ?case
    using Cons.IH [of "v * 10 + digit64 c"] Cons.prems digit_bytes(5,6) [of c] by simp
qed simp

lemma huge_length_exec:
  assumes "reading_length e" "IS_NUM c" "\<not> content_length (ex_parser e) \<le> (INT64_MAX - 10) div 10"
    "drop (ex_p e) data = c # rest"
  shows "exec_result (exec_loop S data e) = Inr (ex_p e,
    (ex_parser e)\<lparr>http_errno := HPE_HUGE_CONTENT_LENGTH, p_state := s_header_value\<rparr>, ex_user e)"
proof -
  have p: "ex_p e < length data" "data ! ex_p e = c"
    using assms(4) by (metis drop_all list.distinct(1) not_less, metis nth_via_drop)
  have "exec_switch S data (e\<lparr>ex_ch := c\<rparr>) = fail_with HPE_HUGE_CONTENT_LENGTH (e\<lparr>ex_ch := c\<rparr>)"
    using length_digit(2) [of "e\<lparr>ex_ch := c\<rparr>"] assms by (simp add: exec_switch_def reading_length_def)
  then show ?thesis
    using p assms(1)
    by (simp add: exec_loop.simps [of S data e] exec_byte.simps fail_with_def exec_error_def exec_update_defs
        reading_length_def)
qed

section \<open>Properties\<close>

text \<open>C1. Whatever bytes arrive and however they are split over calls, \<^verbatim>\<open>http_parser_execute\<close> with
  callbacks that keep the documented contract returns: none of its assertions fails, it reads no
  byte outside the input and \<^verbatim>\<open>content_length\<close> never overflows. It consumes at most the input, all of
  it unless it reports an error, is paused or meets a protocol upgrade, and leaves the parser fit
  for the next call.\<close>

theorem http_parser_execute_safe:
  assumes "parser_callbacks S" "parser_inv q"
  shows "\<exists>n q' u'. http_parser_execute S data q u = Inr (n, q', u') \<and> parser_inv q' \<and>
    n \<le> max 1 (length data) \<and> (data \<noteq> [] \<longrightarrow> n \<le> length data) \<and>
    (http_errno q' = HPE_OK \<and> \<not> upgrade q' \<longrightarrow> n = length data)"
  using parser_callbacks.execute_safe [OF assms] .

theorem http_parser_execute_safe_witness:
  "\<exists>n q' u'. http_parser_execute request_settings ''GET / HTTP/1.1'' (http_parser_init HTTP_REQUEST blank_parser)
      sample_request = Inr (n, q', u') \<and> parser_inv q' \<and> n \<le> 14 \<and>
    (http_errno q' = HPE_OK \<and> \<not> upgrade q' \<longrightarrow> n = 14)"
  using http_parser_execute_safe [OF req.parser_callbacks_axioms init_inv(2), of "''GET / HTTP/1.1''" sample_request]
  by auto

text \<open>C2. The fast-forwarding of header names and values is only an optimisation: for every input, every
  parser state and every set of callbacks the result is that of the machine that handles one byte
  per iteration.\<close>

theorem http_parser_execute_fast_path:
  "http_parser_execute S data q u = http_parser_execute_ref S data q u"
  by (simp add: http_parser_execute_def http_parser_execute_ref_def Let_def loop_equivalent exec_init_def)

text \<open>Every request method the parser knows is recognised from its name followed by a space: the
  parser goes on behind the space in the state that expects the URL, with that method and with
  flags and length reset, whatever the callbacks are.\<close>

theorem method_recognised:
  assumes "ex_state e = s_start_req" "drop (ex_p e) data = method_strings m @ CHR '' '' # d # rest"
  shows "\<exists>q. exec_loop S data e = exec_loop S data (e\<lparr>ex_parser := q, ex_state := s_req_spaces_before_url,
      ex_p := ex_p e + length (method_strings m) + 1\<rparr>) \<and>
    p_method q = m \<and> flags q = 0 \<and> content_length q = -1 \<and> p_type q = p_type (ex_parser e)"
proof -
  obtain c t where mt: "method_strings m = c # t"
    using start_method_all(3) [of m] by (cases "method_strings m") auto
  obtain m0 where m0: "start_method c = Some m0" using start_method_all(1) [of m] mt by auto
  obtain d' r' where dr: "t @ CHR '' '' # d # rest = d' # r'" by (cases t) auto
  let ?q = "(ex_parser e)\<lparr>flags := 0, content_length := -1, p_method := m0, p_index := 1\<rparr>"
  let ?e1 = "e\<lparr>ex_parser := ?q, ex_state := s_req_method, ex_p := ex_p e + 1\<rparr>"
  have "exec_switch S data (e\<lparr>ex_ch := c\<rparr>) = Break (e\<lparr>ex_ch := c, ex_parser := ?q, ex_state := s_req_method\<rparr>)"
    using assms(1) m0 start_method_all(2) [of m] mt
    by (simp add: exec_switch_def case_start_req_def Let_def set_parser_def set_state_def)
  from exec_loop_step [OF _ this, of d' r'] assms(2) mt dr
  have s: "exec_loop S data e = exec_loop S data ?e1" "drop (ex_p e + 1) data = (t @ '' '') @ d # rest"
    by (auto simp: ch_first)
  have "method_run m0 1 (t @ '' '') = Some m" using method_run_all [of m] m0 mt by simp
  from method_run_exec [OF this, of ?e1 data d rest S] s start_method_all(4) [of m] mt
  have "exec_loop S data e = exec_loop S data (?e1\<lparr>ex_parser := ?q\<lparr>p_method := m,
      p_index := 1 + of_nat (length (t @ '' ''))\<rparr>, ex_state := s_req_spaces_before_url,
      ex_p := ex_p e + 1 + length (t @ '' '')\<rparr>)"
    by simp
  then show ?thesis
    using mt by (intro exI [of _ "?q\<lparr>p_method := m, p_index := 1 + of_nat (length (t @ '' ''))\<rparr>"]) simp
qed

theorem method_recognised_witness:
  "\<exists>q. exec_loop request_settings ''M-SEARCH /x'' ((exec_init blank_parser sample_request)\<lparr>ex_state := s_start_req\<rparr>) =
      exec_loop request_settings ''M-SEARCH /x'' ((exec_init blank_parser sample_request)\<lparr>ex_parser := q,
        ex_state := s_req_spaces_before_url, ex_p := 9\<rparr>) \<and>
    p_method q = HTTP_MSEARCH \<and> flags q = 0 \<and> content_length q = -1 \<and> p_type q = HTTP_BOTH"
proof -
  let ?e = "(exec_init blank_parser sample_request)\<lparr>ex_state := s_start_req\<rparr>"
  have h: "ex_state ?e = s_start_req"
    "drop (ex_p ?e) ''M-SEARCH /x'' = method_strings HTTP_MSEARCH @ CHR '' '' # CHR ''/'' # ''x''"
    by (simp_all add: exec_init_def)
  have n: "ex_p ?e + length (method_strings HTTP_MSEARCH) + 1 = 9" "p_type (ex_parser ?e) = HTTP_BOTH"
    by (simp_all add: exec_init_def blank_parser_def)
  show ?thesis
    using method_recognised [OF h, of request_settings] unfolding n by simp
qed

text \<open>The digits of a Content-Length value give its decimal value as long as it fits the 64-bit
  counter, which never overflows, and the first digit that might not fit stops the parser with
  \<^verbatim>\<open>HPE_HUGE_CONTENT_LENGTH\<close> at that byte.\<close>

theorem content_length_digits:
  assumes "reading_length e" "content_length (ex_parser e) \<le> INT64_MAX" "list_all IS_NUM ds"
    "fits (content_length (ex_parser e)) ds"
    "drop (ex_p e) data = ds @ d # rest"
  defines "v \<equiv> decimal_from (content_length (ex_parser e)) ds"
  defines "e' \<equiv> e\<lparr>ex_parser := (ex_parser e)\<lparr>content_length := v\<rparr>, ex_p := ex_p e + length ds\<rparr>"
  shows "exec_loop S data e = exec_loop S data e' \<and> 0 \<le> v \<and> v \<le> INT64_MAX \<and>
    (IS_NUM d \<and> v > (INT64_MAX - 10) div 10 \<longrightarrow>
      exec_result (exec_loop S data e) = Inr (ex_p e + length ds,
        (ex_parser e')\<lparr>http_errno := HPE_HUGE_CONTENT_LENGTH, p_state := s_header_value\<rparr>, ex_user e))"
proof -
  have l: "exec_loop S data e = exec_loop S data e'"
    using length_digits_exec [OF assms(1,3,4,5)] by (simp add: e'_def v_def)
  have v: "0 \<le> v" "v \<le> INT64_MAX"
    using fits_bounded [OF assms(4,3)] assms(1,2) by (simp_all add: v_def reading_length_def)
  have "reading_length e'" "drop (ex_p e') data = d # rest"
    using assms(1,5) v by (simp_all add: reading_length_def e'_def add.commute [of "ex_p e"] flip: drop_drop)
  from huge_length_exec [OF this(1) _ _ this(2), of S] show ?thesis
    using l v by (simp add: e'_def)
qed

theorem content_length_digits_witness:
  "exec_loop request_settings ''128x'' ((exec_init (blank_parser\<lparr>header_state := h_content_length\<rparr>) sample_request)\<lparr>ex_state := s_header_value\<rparr>)
   = exec_loop request_settings ''128x'' ((exec_init (blank_parser\<lparr>header_state := h_content_length\<rparr>) sample_request)
       \<lparr>ex_state := s_header_value, ex_parser := blank_parser\<lparr>header_state := h_content_length, content_length := 128\<rparr>, ex_p := 3\<rparr>)"
proof -
  let ?e = "(exec_init (blank_parser\<lparr>header_state := h_content_length\<rparr>) sample_request)\<lparr>ex_state := s_header_value\<rparr>"
  have h: "reading_length ?e" "content_length (ex_parser ?e) \<le> INT64_MAX" "list_all IS_NUM ''128''"
    "fits (content_length (ex_parser ?e)) ''128''" "drop (ex_p ?e) ''128x'' = ''128'' @ CHR ''x'' # []"
    by (simp_all add: reading_length_def exec_init_def blank_parser_def IS_NUM_def digit64_def INT64_MAX_def)
  have n: "decimal_from (content_length (blank_parser\<lparr>header_state := h_content_length\<rparr>)) ''128'' = 128" "ex_p ?e + length ''128'' = 3"
    "ex_parser ?e = blank_parser\<lparr>header_state := h_content_length\<rparr>"
    by (simp_all add: exec_init_def blank_parser_def digit64_def)
  show ?thesis
    using content_length_digits [OF h, of request_settings] unfolding n(2,3) unfolding n(1) by simp
qed

end
