(* ===== verification/Http_Url_Props.thy ===== *)
theory Http_Url_Props
  imports Http_Url Http_Request
begin

text \<open>
  The URL parser stays inside its input: whatever the URL is, the components \<^verbatim>\<open>http_parser_parse_url\<close>
  records lie within it, although offsets and lengths are only 16 bits wide and wrap around; the
  assertion \<^verbatim>\<open>"Unexpected state"\<close> never fails. For a URL in origin form the accessors of
  \<^verbatim>\<open>HttpRequest\<close> return the path, the query and the fragment.
\<close>

section \<open>Fields\<close>

lemma has_field_bit: "has_field f u \<longleftrightarrow> bit (field_set u) (uf_val f)"
  by (simp add: has_field_def uf_bit_def push_bit_eq_mult and_exp_eq_0_iff_not_bit)

lemma uf_val_eq [simp]: "uf_val f = uf_val g \<longleftrightarrow> f = g"
  by (cases f; cases g) simp_all

lemma uf_val_less [simp]: "uf_val f < 8"
  by (cases f) simp_all

lemma has_field_add [simp]: "has_field f (add_field g u) \<longleftrightarrow> f = g \<or> has_field f u"
proof -
  have "bit (push_bit (uf_val g) 1 :: 16 word) (uf_val f) \<longleftrightarrow> f = g"
    by (cases f; cases g) (simp_all add: bit_push_bit_iff bit_1_iff)
  then show ?thesis by (auto simp: has_field_bit add_field_def uf_bit_def bit_or_iff)
qed

lemma has_field_simps [simp]:
  "has_field f (set_off g p u) = has_field f u" "has_field f (set_len g n u) = has_field f u"
  "has_field f (inc_len g u) = has_field f u" "has_field f (u\<lparr>u_port := x\<rparr>) = has_field f u"
  "has_field f (u\<lparr>field_set := 0\<rparr>) = False"
  by (simp_all add: has_field_bit set_off_def set_len_def inc_len_def)

lemma field_simps_url [simp]:
  "field_off (set_off f p u) = (field_off u)(f := of_nat p)" "field_len (set_off f p u) = field_len u"
  "field_len (set_len f n u) = (field_len u)(f := n)" "field_off (set_len f n u) = field_off u"
  "field_len (inc_len f u) = (field_len u)(f := field_len u f + 1)" "field_off (inc_len f u) = field_off u"
  "field_len (add_field f u) = field_len u" "field_off (add_field f u) = field_off u"
  by (simp_all add: set_off_def set_len_def inc_len_def add_field_def)

lemma schema_or_host: "field_set u AND (uf_bit UF_SCHEMA OR uf_bit UF_HOST) \<noteq> 0 \<longleftrightarrow>
  has_field UF_SCHEMA u \<or> has_field UF_HOST u"
  by (auto simp: has_field_def bit.conj_disj_distrib or_eq_0_iff)

text \<open>The field \<open>f\<close> lies in the first \<open>n\<close> bytes; all recorded fields do.\<close>

definition field_in :: "nat \<Rightarrow> http_parser_url \<Rightarrow> http_parser_url_fields \<Rightarrow> bool" where
  "field_in n u f \<longleftrightarrow> unat (field_off u f) + unat (field_len u f) \<le> n"

definition fields_in :: "nat \<Rightarrow> http_parser_url \<Rightarrow> bool" where
  "fields_in n u \<longleftrightarrow> (\<forall>f. has_field f u \<longrightarrow> field_in n u f)"

lemma unat_16_le: "unat (of_nat p :: 16 word) \<le> p" "unat (x + 1 :: 16 word) \<le> unat x + 1"
  by (simp_all add: unat_of_nat unat_word_ariths)

lemma field_in_mono: "field_in n u f \<Longrightarrow> n \<le> m \<Longrightarrow> field_in m u f"
  by (simp add: field_in_def)

lemma fields_in_mono: "fields_in n u \<Longrightarrow> n \<le> m \<Longrightarrow> fields_in m u"
  by (auto simp: fields_in_def intro: field_in_mono)

lemma field_in_inc: "field_in p u f \<Longrightarrow> field_in (p + 1) (inc_len g u) f"
  using unat_16_le(2) [of "field_len u f"] by (auto simp: field_in_def)

lemma fields_in_inc: "fields_in p u \<Longrightarrow> fields_in (p + 1) (inc_len f u)"
  using field_in_inc by (simp add: fields_in_def)

lemma fields_in_start: "fields_in p u \<Longrightarrow> fields_in (p + 1) (add_field f (set_len f 1 (set_off f p u)))"
  using unat_16_le(1) [of p] by (fastforce simp: fields_in_def field_in_def)

section \<open>The loops\<close>

text \<open>The states of the loop; behind \<^verbatim>\<open>is_connect\<close> those of the schema are not reached.\<close>

definition url_states :: "bool \<Rightarrow> state set" where
  "url_states is_connect = {s_dead, s_req_server_start, s_req_server, s_req_server_with_at, s_req_path,
     s_req_query_string_start, s_req_query_string, s_req_fragment_start, s_req_fragment} \<union>
     (if is_connect then {} else {s_req_spaces_before_url, s_req_schema, s_req_schema_slash, s_req_schema_slash_slash})"

lemma parse_url_char_states:
  "s \<in> url_states b \<Longrightarrow> parse_url_char s c \<in> url_states b - {s_req_spaces_before_url}"
  by (cases b; cases s) (simp_all add: url_states_def parse_url_char_def)

lemma url_field_states:
  assumes "s \<in> url_states b - {s_req_spaces_before_url}"
  shows "url_field s \<noteq> Inl False" "b \<Longrightarrow> url_field s \<noteq> Inr (Some UF_SCHEMA)"
  using assms by (auto simp: url_states_def url_field_def split: if_splits)

lemma url_loop_in:
  assumes "s \<in> url_states b" "fields_in p u" "old = UF_MAX \<or> has_field old u" "b \<longrightarrow> \<not> has_field UF_SCHEMA u"
    "has_field UF_HOST u \<or> field_off u UF_HOST = o0 \<and> field_len u UF_HOST = l0"
  shows "\<exists>f u'. url_loop cs p s old fa u = Inr (f, u') \<and> fields_in (p + length cs) u' \<and>
    (b \<longrightarrow> \<not> has_field UF_SCHEMA u') \<and>
    (has_field UF_HOST u' \<or> field_off u' UF_HOST = o0 \<and> field_len u' UF_HOST = l0)"
  using assms
proof (induction cs arbitrary: p s old fa u)
  case Nil
  then show ?case by simp
next
  case (Cons c cs)
  let ?s = "parse_url_char s c"
  note st = parse_url_char_states [OF Cons.prems(1), of c]
  note sf = url_field_states [OF st]
  have s': "?s \<in> url_states b" using st by simp
  have fm: "fields_in (p + 1) u" using Cons.prems(2) by (rule fields_in_mono) simp
  have max: "url_field ?s \<noteq> Inr (Some UF_MAX)" by (simp add: url_field_def split: state.split)
  show ?case
  proof (cases "url_field ?s")
    case (Inl x)
    then show ?thesis
      using sf(1) Cons.prems fields_in_mono [OF Cons.prems(2), of "p + length (c # cs)"] by (cases x) auto
  next
    case (Inr o')
    show ?thesis
    proof (cases o')
      case None
      then show ?thesis
        using Inr Cons.prems(3-5) Cons.IH [OF s' fm] by (simp add: Let_def)
    next
      case (Some uf)
      let ?u = "if uf = old then inc_len uf u else add_field uf (set_len uf 1 (set_off uf p u))"
      have "fields_in (p + 1) ?u"
        using Cons.prems(2) fields_in_inc fields_in_start by simp
      moreover have "has_field uf ?u"
        using Cons.prems(3) max Inr Some by auto
      moreover have "b \<longrightarrow> \<not> has_field UF_SCHEMA ?u"
        using Cons.prems(4) sf(2) Inr Some by auto
      moreover have "has_field UF_HOST ?u \<or> field_off ?u UF_HOST = o0 \<and> field_len ?u UF_HOST = l0"
        using Cons.prems(3,5) max Inr Some by auto
      ultimately show ?thesis
        using Inr Some Cons.IH [OF s', of "p + 1" ?u uf] by (auto simp: Let_def)
    qed
  qed
qed

text \<open>While the host is scanned up to the offset \<open>p\<close>: the component that grows ends at \<open>p\<close>.\<close>

definition host_inv :: "nat \<Rightarrow> nat \<Rightarrow> http_host_state \<Rightarrow> http_parser_url \<Rightarrow> bool" where
  "host_inv n p s u \<longleftrightarrow> fields_in n u \<and> field_in p u UF_HOST \<and>
     (s \<in> {s_http_userinfo_start, s_http_userinfo, s_http_host_start, s_http_host_v6_start} \<longrightarrow> field_len u UF_HOST = 0) \<and>
     (s = s_http_host_port \<longrightarrow> field_in p u UF_PORT) \<and> (s = s_http_userinfo \<longrightarrow> field_in p u UF_USERINFO)"

lemma host_step_inv:
  assumes "host_inv n p s u" "p < n" and s': "s' = http_parse_host_char s c" "s' \<noteq> s_http_host_dead"
  shows "host_inv n (p + 1) s' (host_step s s' p u)"
proof -
  have p: "unat (of_nat p :: 16 word) \<le> p" "unat (x + 1 :: 16 word) \<le> unat x + 1" for x
    by (rule unat_16_le)+
  have off: "field_len u UF_HOST = 0" if "s' \<in> {s_http_userinfo_start, s_http_userinfo, s_http_host_start, s_http_host_v6_start} \<or>
      s' = s_http_host \<and> s \<noteq> s_http_host \<or> s' = s_http_host_v6 \<and> s \<noteq> s_http_host_v6"
    using that assms(1) s' by (cases s) (auto simp: host_inv_def http_parse_host_char_def split: if_splits)
  note bounds = p(1) p(2) [of "field_len u UF_HOST"] p(2) [of "field_len u UF_PORT"] p(2) [of "field_len u UF_USERINFO"]
  have fi: "\<And>f. has_field f u \<Longrightarrow> unat (field_off u f) + unat (field_len u f) \<le> n"
    using assms(1) by (simp add: host_inv_def fields_in_def field_in_def)
  show ?thesis
    using assms(1,2) off bounds
    by (cases s') (auto simp: host_inv_def host_step_def fields_in_def field_in_def dest!: fi)
qed

lemma host_loop_in:
  "host_inv n p s u \<Longrightarrow> p + length cs \<le> n \<Longrightarrow> fields_in n (snd (host_loop cs p s u))"
proof (induction cs arbitrary: p s u)
  case Nil
  then show ?case by (simp add: host_inv_def)
next
  case (Cons c cs)
  then show ?case
    using host_step_inv [OF Cons.prems(1) _ refl, of c] by (auto simp: Let_def host_inv_def)
qed

lemma http_parse_host_in:
  assumes "fields_in (length buf) u" "field_in (length buf) u UF_HOST"
  shows "\<exists>r u'. http_parse_host buf u fa = Inr (r, u') \<and> fields_in (length buf) u'"
proof -
  define off l s cs where "off = unat (field_off u UF_HOST)" and "l = unat (field_len u UF_HOST)"
    and "s = (if fa then s_http_userinfo_start else s_http_host_start)" and "cs = range_of off (off + l) buf"
  let ?u = "set_len UF_HOST 0 u"
  have b: "off + l \<le> length buf" using assms(2) by (simp add: field_in_def off_def l_def)
  have "host_inv (length buf) off s ?u"
    using assms by (auto simp: host_inv_def fields_in_def field_in_def off_def s_def)
  from host_loop_in [OF this, of cs] b have "fields_in (length buf) (snd (host_loop cs off s ?u))"
    by (simp add: cs_def)
  then show ?thesis
    using b unfolding http_parse_host_def Let_def off_def [symmetric] l_def [symmetric] s_def [symmetric]
    by (cases "host_loop cs off s ?u") (simp add: mem_read_def cs_def [symmetric] split: option.split)
qed

lemma parse_url_in:
  assumes "is_connect \<or> field_in (length buf) u UF_HOST"
  shows "\<exists>r u'. http_parser_parse_url buf is_connect u = Inr (r, u') \<and> fields_in (length buf) u'"
proof -
  let ?u = "u\<lparr>u_port := 0, field_set := 0\<rparr>"
  let ?s = "if is_connect then s_req_server_start else s_req_spaces_before_url"
  have "?s \<in> url_states is_connect" by (simp add: url_states_def)
  moreover have "fields_in 0 ?u" "\<not> has_field UF_SCHEMA ?u" by (simp_all add: fields_in_def has_field_bit)
  ultimately obtain f u1 where l: "url_loop buf 0 ?s UF_MAX False ?u = Inr (f, u1)"
    and i: "fields_in (length buf) u1" "is_connect \<longrightarrow> \<not> has_field UF_SCHEMA u1"
      "has_field UF_HOST u1 \<or> field_off u1 UF_HOST = field_off u UF_HOST \<and> field_len u1 UF_HOST = field_len u UF_HOST"
    using url_loop_in [of ?s is_connect 0 ?u UF_MAX "field_off u UF_HOST" "field_len u UF_HOST" buf False] by auto
  have host: "\<exists>r u'. (if field_set u1 AND (uf_bit UF_SCHEMA OR uf_bit UF_HOST) \<noteq> 0
      then http_parse_host buf u1 fa else Inr (0, u1)) = Inr (r, u') \<and> fields_in (length buf) u'" for fa
  proof (cases "has_field UF_SCHEMA u1 \<or> has_field UF_HOST u1")
    case True
    then have "field_in (length buf) u1 UF_HOST"
      using i assms by (auto simp: fields_in_def field_in_def)
    then show ?thesis using True http_parse_host_in [OF i(1)] by (simp add: schema_or_host)
  next
    case False
    then show ?thesis using i(1) schema_or_host [of u1] by auto
  qed
  have port: "fields_in (length buf) (v\<lparr>u_port := x\<rparr>) = fields_in (length buf) v" for v x
    by (simp add: fields_in_def field_in_def)
  show ?thesis
  proof (cases f)
    case None
    then show ?thesis using l i(1) by (simp add: http_parser_parse_url_def Let_def)
  next
    case (Some fa)
    obtain r u2 where "(if field_set u1 AND (uf_bit UF_SCHEMA OR uf_bit UF_HOST) \<noteq> 0
      then http_parse_host buf u1 fa else Inr (0, u1)) = Inr (r, u2)" "fields_in (length buf) u2"
      using host by blast
    then show ?thesis
      using l Some by (simp add: http_parser_parse_url_def Let_def port del: if_split_asm)
  qed
qed

section \<open>Origin form\<close>

lemma url_char_plain: "IS_URL_CHAR c \<Longrightarrow> c \<noteq> CHR '' '' \<and> c \<noteq> CR \<and> c \<noteq> LF"
  by (auto simp: IS_URL_CHAR_def normal_url_char_def CR_def LF_def)

text \<open>Bytes that stay in a field only lengthen it.\<close>

lemma url_loop_run:
  assumes "url_field s = Inr (Some uf)" "list_all (\<lambda>c. parse_url_char s c = s) cs" "s \<noteq> s_req_server_with_at"
  shows "url_loop (cs @ rest) p s uf fa u =
    url_loop rest (p + length cs) s uf fa (set_len uf (field_len u uf + of_nat (length cs)) u)"
  using assms
proof (induction cs arbitrary: p u)
  case Nil
  then show ?case by (simp add: set_len_def)
next
  case (Cons c cs)
  then show ?case by (simp add: Let_def inc_len_def set_len_def algebra_simps)
qed

text \<open>A component \<open>cs\<close> that begins at offset \<open>p\<close> is recorded when it is not empty.\<close>

definition record_field :: "http_parser_url_fields \<Rightarrow> nat \<Rightarrow> byte list \<Rightarrow> http_parser_url \<Rightarrow> http_parser_url" where
  "record_field f p cs u = (if cs = [] then u
     else add_field f (set_len f (of_nat (length cs)) (set_off f p u)))"

lemma record_field_simps [simp]:
  "has_field g (record_field f p cs u) \<longleftrightarrow> g = f \<and> cs \<noteq> [] \<or> has_field g u"
  "g \<noteq> f \<or> cs = [] \<Longrightarrow> field_off (record_field f p cs u) g = field_off u g"
  "g \<noteq> f \<or> cs = [] \<Longrightarrow> field_len (record_field f p cs u) g = field_len u g"
  "cs \<noteq> [] \<Longrightarrow> field_off (record_field f p cs u) f = of_nat p"
  "cs \<noteq> [] \<Longrightarrow> field_len (record_field f p cs u) f = of_nat (length cs)"
  by (auto simp: record_field_def)

lemma url_loop_enter:
  assumes "parse_url_char s0 c = s" "url_field s = Inr (Some uf)" "uf \<noteq> old" "s \<noteq> s_req_server_with_at"
    "list_all (\<lambda>c. parse_url_char s c = s) cs"
  shows "url_loop (c # cs @ rest) p s0 old fa u =
    url_loop rest (p + 1 + length cs) s uf fa (record_field uf p (c # cs) u)"
proof -
  let ?u = "add_field uf (set_len uf 1 (set_off uf p u))"
  have "url_loop (c # cs @ rest) p s0 old fa u = url_loop (cs @ rest) (p + 1) s uf fa ?u"
    using assms(1-4) by (simp add: Let_def)
  also have "\<dots> = url_loop rest (p + 1 + length cs) s uf fa (set_len uf (field_len ?u uf + of_nat (length cs)) ?u)"
    by (rule url_loop_run [OF assms(2,5,4)])
  also have "set_len uf (field_len ?u uf + of_nat (length cs)) ?u = record_field uf p (c # cs) u"
    by (simp add: record_field_def set_len_def set_off_def add_field_def)
  finally show ?thesis .
qed

lemma url_field_simps [simp]:
  "url_field s_req_path = Inr (Some UF_PATH)" "url_field s_req_query_string = Inr (Some UF_QUERY)"
  "url_field s_req_fragment = Inr (Some UF_FRAGMENT)" "url_field s_req_query_string_start = Inr None"
  "url_field s_req_fragment_start = Inr None"
  by (simp_all add: url_field_def)

text \<open>The bytes of a query or fragment.\<close>

definition query_char :: "byte \<Rightarrow> bool" where
  "query_char c \<longleftrightarrow> IS_URL_CHAR c \<or> c = CHR ''?''"

definition opt_text :: "byte \<Rightarrow> byte list option \<Rightarrow> byte list" where
  "opt_text d x = (case x of None \<Rightarrow> [] | Some cs \<Rightarrow> d # cs)"

definition opt_bytes :: "byte list option \<Rightarrow> byte list" where
  "opt_bytes x = (case x of None \<Rightarrow> [] | Some cs \<Rightarrow> cs)"

lemma url_char_stays:
  "IS_URL_CHAR c \<Longrightarrow> parse_url_char s_req_path c = s_req_path"
  "query_char c \<Longrightarrow> parse_url_char s_req_query_string c = s_req_query_string"
  "query_char c \<Longrightarrow> parse_url_char s_req_fragment c = s_req_fragment"
  "query_char c \<Longrightarrow> parse_url_char s_req_query_string_start c = s_req_query_string"
  "query_char c \<Longrightarrow> parse_url_char s_req_fragment_start c = s_req_fragment"
  using url_char_plain [of c] by (auto simp: parse_url_char_def query_char_def CR_def LF_def)

lemma delimiters:
  "\<not> IS_URL_CHAR (CHR ''?'')" "\<not> IS_URL_CHAR (CHR ''#'')"
  "parse_url_char s_req_server_start (CHR ''/'') = s_req_path"
  "parse_url_char s_req_path (CHR ''?'') = s_req_query_string_start"
  "parse_url_char s_req_path (CHR ''#'') = s_req_fragment_start"
  "parse_url_char s_req_query_string_start (CHR ''#'') = s_req_fragment_start"
  "parse_url_char s_req_query_string (CHR ''#'') = s_req_fragment_start"
proof -
  show u: "\<not> IS_URL_CHAR (CHR ''?'')" "\<not> IS_URL_CHAR (CHR ''#'')"
    by (simp_all add: IS_URL_CHAR_def normal_url_char_def)
  show "parse_url_char s_req_server_start (CHR ''/'') = s_req_path"
    "parse_url_char s_req_path (CHR ''?'') = s_req_query_string_start"
    "parse_url_char s_req_path (CHR ''#'') = s_req_fragment_start"
    "parse_url_char s_req_query_string_start (CHR ''#'') = s_req_fragment_start"
    "parse_url_char s_req_query_string (CHR ''#'') = s_req_fragment_start"
    using u by (simp_all add: parse_url_char_def CR_def LF_def)
qed

lemma url_loop_fragment:
  assumes "s \<in> {s_req_path, s_req_query_string_start, s_req_query_string}" "old \<noteq> UF_FRAGMENT"
    "list_all query_char (opt_bytes fs)"
  shows "url_loop (opt_text (CHR ''#'') fs) p s old fa u =
    Inr (Some fa, record_field UF_FRAGMENT (p + 1) (opt_bytes fs) u)"
proof -
  consider "opt_bytes fs = []" | c cs where "fs = Some (c # cs)" "query_char c" "list_all query_char cs"
    using assms(3) by (cases fs; cases "opt_bytes fs") (auto simp: opt_bytes_def)
  then show ?thesis
  proof cases
    case 1
    then show ?thesis
      using assms(1) by (cases fs) (auto simp: opt_bytes_def opt_text_def record_field_def delimiters)
  next
    case 2
    have l: "list_all (\<lambda>c. parse_url_char s_req_fragment c = s_req_fragment) cs"
      using 2(3) by (simp add: list_all_iff url_char_stays)
    have "url_loop (c # cs @ []) (p + 1) s_req_fragment_start old fa u =
      Inr (Some fa, record_field UF_FRAGMENT (p + 1) (c # cs) u)"
      by (subst url_loop_enter [OF url_char_stays(5) [OF 2(2)] _ _ _ l, of UF_FRAGMENT old]) (use assms(2) in simp_all)
    then show ?thesis
      using 2(1) assms(1) by (auto simp: opt_text_def opt_bytes_def delimiters simp del: url_loop.simps(2)
          simp: url_loop.simps(2) [of "CHR ''#''"])
  qed
qed

lemma url_loop_query:
  assumes "list_all query_char (opt_bytes qs)" "list_all query_char (opt_bytes fs)"
  shows "url_loop (opt_text (CHR ''?'') qs @ opt_text (CHR ''#'') fs) p s_req_path UF_PATH fa u =
    Inr (Some fa, record_field UF_FRAGMENT (p + length (opt_text (CHR ''?'') qs) + 1) (opt_bytes fs)
      (record_field UF_QUERY (p + 1) (opt_bytes qs) u))"
proof -
  consider "opt_bytes qs = []" | c cs where "qs = Some (c # cs)" "query_char c" "list_all query_char cs"
    using assms(1) by (cases qs; cases "opt_bytes qs") (auto simp: opt_bytes_def)
  then show ?thesis
  proof cases
    case 1
    then show ?thesis
      using url_loop_fragment [OF _ _ assms(2)]
      by (cases qs) (auto simp: opt_bytes_def opt_text_def record_field_def delimiters)
  next
    case 2
    have l: "list_all (\<lambda>c. parse_url_char s_req_query_string c = s_req_query_string) cs"
      using 2(3) by (simp add: list_all_iff url_char_stays)
    have "url_loop (c # cs @ opt_text (CHR ''#'') fs) (p + 1) s_req_query_string_start UF_PATH fa u =
      Inr (Some fa, record_field UF_FRAGMENT (p + 1 + 1 + length cs + 1) (opt_bytes fs) (record_field UF_QUERY (p + 1) (c # cs) u))"
      by (subst url_loop_enter [OF url_char_stays(4) [OF 2(2)] _ _ _ l, of UF_QUERY UF_PATH])
        (simp_all add: url_loop_fragment [OF _ _ assms(2)])
    then show ?thesis
      using 2(1) by (simp add: opt_text_def [of "CHR ''?''"] opt_bytes_def [of "Some _"] delimiters
          url_loop.simps(2) [of "CHR ''?''"] del: url_loop.simps(2))
  qed
qed

definition origin_url :: "byte list \<Rightarrow> byte list option \<Rightarrow> byte list option \<Rightarrow> byte list" where
  "origin_url ps qs fs = (CHR ''/'' # ps) @ opt_text (CHR ''?'') qs @ opt_text (CHR ''#'') fs"

lemma parse_origin_url:
  assumes "list_all IS_URL_CHAR ps" "list_all query_char (opt_bytes qs)" "list_all query_char (opt_bytes fs)"
  defines "q0 \<equiv> 1 + length ps" and "f0 \<equiv> 1 + length ps + length (opt_text (CHR ''?'') qs)"
  shows "http_parser_parse_url (origin_url ps qs fs) True u =
    Inr (1, record_field UF_FRAGMENT (f0 + 1) (opt_bytes fs) (record_field UF_QUERY (q0 + 1) (opt_bytes qs)
      (record_field UF_PATH 0 (CHR ''/'' # ps) (u\<lparr>u_port := 0, field_set := 0\<rparr>))))"
proof -
  let ?u0 = "u\<lparr>u_port := 0, field_set := 0\<rparr>"
  define v where "v = record_field UF_FRAGMENT (f0 + 1) (opt_bytes fs) (record_field UF_QUERY (q0 + 1) (opt_bytes qs)
      (record_field UF_PATH 0 (CHR ''/'' # ps) ?u0))"
  have l: "list_all (\<lambda>c. parse_url_char s_req_path c = s_req_path) ps"
    using assms(1) by (simp add: list_all_iff url_char_stays)
  have "url_loop (origin_url ps qs fs) 0 s_req_server_start UF_MAX False ?u0 =
    url_loop (opt_text (CHR ''?'') qs @ opt_text (CHR ''#'') fs) (0 + 1 + length ps) s_req_path UF_PATH False
      (record_field UF_PATH 0 (CHR ''/'' # ps) ?u0)"
    unfolding origin_url_def append_Cons
    by (rule url_loop_enter [OF delimiters(3)]) (use l in simp_all)
  also have "\<dots> = Inr (Some False, v)"
    by (simp add: url_loop_query [OF assms(2,3)] v_def q0_def f0_def)
  finally have "url_loop (origin_url ps qs fs) 0 s_req_server_start UF_MAX False ?u0 = Inr (Some False, v)" .
  moreover have h: "has_field f v \<Longrightarrow> f \<in> {UF_PATH, UF_QUERY, UF_FRAGMENT}" for f
    by (auto simp: v_def)
  moreover have "field_set v \<noteq> uf_bit UF_HOST OR uf_bit UF_PORT"
    using h [of UF_HOST] by (auto simp: has_field_def uf_bit_def)
  moreover have "field_set v AND (uf_bit UF_SCHEMA OR uf_bit UF_HOST) = 0"
    using h [of UF_SCHEMA] h [of UF_HOST] schema_or_host [of v] by auto
  ultimately show ?thesis
    unfolding v_def [symmetric] by (simp add: http_parser_parse_url_def Let_def)
qed

lemma url_component_record:
  assumes "hr_url r = xs @ cs @ ys" "length (hr_url r) < 2 ^ 16" "hr_u r = u"
    "has_field f u \<longleftrightarrow> cs \<noteq> []" "cs \<noteq> [] \<Longrightarrow> field_off u f = of_nat (length xs) \<and> field_len u f = of_nat (length cs)"
  shows "url_component f r = Inr cs"
  using assms by (cases "cs = []") (auto simp: url_component_def substr_def unat_of_nat)

section \<open>Absolute form\<close>

lemma host_step_keeps:
  "f \<notin> {UF_HOST, UF_PORT, UF_USERINFO} \<Longrightarrow> has_field f (host_step s s' p u) = has_field f u \<and>
   field_off (host_step s s' p u) f = field_off u f \<and> field_len (host_step s s' p u) f = field_len u f"
  by (cases s') (auto simp: host_step_def)

lemma host_loop_keeps:
  assumes "f \<notin> {UF_HOST, UF_PORT, UF_USERINFO}"
  shows "has_field f (snd (host_loop cs p s u)) = has_field f u \<and>
    field_off (snd (host_loop cs p s u)) f = field_off u f \<and> field_len (snd (host_loop cs p s u)) f = field_len u f"
  using host_step_keeps [OF assms] by (induction cs arbitrary: p s u) (auto simp: Let_def)

lemma http_parse_host_keeps:
  assumes "http_parse_host buf u fa = Inr (r, u')" "f \<notin> {UF_HOST, UF_PORT, UF_USERINFO}"
  shows "has_field f u' = has_field f u \<and> field_off u' f = field_off u f \<and> field_len u' f = field_len u f"
proof -
  let ?s = "if fa then s_http_userinfo_start else s_http_host_start" and ?u = "set_len UF_HOST 0 u"
  let ?o = "unat (field_off u UF_HOST)"
  obtain cs where "(case host_loop cs ?o ?s ?u of (None, u2) \<Rightarrow> Inr (1 :: int, u2)
      | (Some t, u2) \<Rightarrow> Inr (if t \<in> {s_http_host_start, s_http_host_v6_start, s_http_host_v6, s_http_host_port_start,
          s_http_userinfo, s_http_userinfo_start} then 1 else 0, u2)) = (Inr (r, u') :: (int \<times> http_parser_url) result)"
    using assms(1) unfolding http_parse_host_def Let_def ebind_Inr_iff by blast
  then have "u' = snd (host_loop cs ?o ?s ?u)"
    by (cases "host_loop cs ?o ?s ?u") (auto split: option.splits)
  then show ?thesis using host_loop_keeps [OF assms(2), of cs ?o ?s ?u] assms(2) by auto
qed

lemma server_char_stays:
  assumes "IS_ALPHA c \<or> c = CHR '':''"
  shows "parse_url_char s_req_server_start c = s_req_server" "parse_url_char s_req_server c = s_req_server"
proof -
  have "c \<noteq> CHR '' '' \<and> c \<noteq> CR \<and> c \<noteq> LF \<and> c \<noteq> CHR ''/'' \<and> c \<noteq> CHR ''?'' \<and> c \<noteq> CHR ''@'' \<and> IS_USERINFO_CHAR c"
    using assms by (auto simp: IS_USERINFO_CHAR_def IS_ALPHANUM_def IS_ALPHA_def LOWER_def CR_def LF_def)
  then show "parse_url_char s_req_server_start c = s_req_server" "parse_url_char s_req_server c = s_req_server"
    by (simp_all add: parse_url_char_def)
qed

lemma parse_absolute_url:
  assumes "sch \<noteq> []" "list_all IS_ALPHA sch" "list_all IS_URL_CHAR ps"
  shows "\<exists>r u'. http_parser_parse_url (sch @ ''://'' @ ps) True u = Inr (r, u') \<and> has_field UF_PATH u' \<and>
    field_off u' UF_PATH = of_nat (length sch + 1) \<and> field_len u' UF_PATH = of_nat (length ps + 2)"
proof -
  obtain c cs where sch: "sch = c # cs" using assms(1) by (cases sch) auto
  let ?u0 = "u\<lparr>u_port := 0, field_set := 0\<rparr>" and ?url = "sch @ ''://'' @ ps"
  let ?h = "record_field UF_HOST 0 (sch @ '':'') ?u0"
  define v where "v = record_field UF_PATH (length sch + 1) (''//'' @ ps) ?h"
  have h: "list_all (\<lambda>c. parse_url_char s_req_server c = s_req_server) (cs @ '':'')"
    using assms(2) sch by (auto simp: list_all_iff server_char_stays)
  have sl: "IS_URL_CHAR (CHR ''/'')" by (simp add: IS_URL_CHAR_def normal_url_char_def)
  have p: "list_all (\<lambda>c. parse_url_char s_req_path c = s_req_path) (CHR ''/'' # ps)"
    using assms(3) sl by (simp add: list_all_iff url_char_stays)
  have ent: "parse_url_char s_req_server (CHR ''/'') = s_req_path"
    by (simp add: parse_url_char_def CR_def LF_def)
  have "url_loop (c # (cs @ '':'') @ (''//'' @ ps)) 0 s_req_server_start UF_MAX False ?u0 =
      url_loop (''//'' @ ps) (0 + 1 + length (cs @ '':'')) s_req_server UF_HOST False (record_field UF_HOST 0 (c # cs @ '':'') ?u0)"
    by (rule url_loop_enter) (use assms(2) sch h in \<open>simp_all add: server_char_stays url_field_def\<close>)
  moreover have "url_loop (CHR ''/'' # (CHR ''/'' # ps) @ []) (length sch + 1) s_req_server UF_HOST False ?h = Inr (Some False, v)"
    by (subst url_loop_enter [OF ent]) (use p in \<open>simp_all add: v_def\<close>)
  ultimately have l: "url_loop ?url 0 s_req_server_start UF_MAX False ?u0 = Inr (Some False, v)"
    by (simp add: sch)
  have f: "fields_in (length ?url) v"
    using url_loop_in [of s_req_server_start True 0 ?u0 UF_MAX "field_off ?u0 UF_HOST" "field_len ?u0 UF_HOST" ?url False] l
    by (auto simp: url_states_def fields_in_def)
  have hv: "has_field UF_HOST v" by (simp add: v_def sch)
  then obtain r u2 where hst: "http_parse_host ?url v False = Inr (r, u2)"
    using http_parse_host_in [OF f, of False] f by (auto simp: fields_in_def)
  have k: "has_field UF_PATH u2" "field_off u2 UF_PATH = of_nat (length sch + 1)"
    "field_len u2 UF_PATH = of_nat (length ps + 2)"
    using http_parse_host_keeps [OF hst, of UF_PATH] by (simp_all add: v_def)
  then have "field_set u2 \<noteq> uf_bit UF_HOST OR uf_bit UF_PORT"
    by (auto simp: has_field_def uf_bit_def)
  then show ?thesis
    using l hst k hv schema_or_host [of v] by (auto simp: http_parser_parse_url_def Let_def)
qed

section \<open>Properties\<close>

text \<open>C22. Provided \<^verbatim>\<open>is_connect\<close> is set, as \<^verbatim>\<open>HttpRequest\<close> does, or the host entry of the structure the caller passes in
  already lies inside the URL: parsing a URL never reads outside it and no assertion fails, and every component that is
  recorded lies inside the URL, for URLs of every length although offsets and lengths are 16-bit
  numbers that wrap around. Without the condition an uninitialised host entry is read
  (\<open>http_parser_parse_url_stale_host\<close>).\<close>

theorem http_parser_parse_url_bounds:
  assumes "is_connect \<or> unat (field_off u UF_HOST) + unat (field_len u UF_HOST) \<le> length buf"
  shows "\<exists>r u'. http_parser_parse_url buf is_connect u = Inr (r, u') \<and>
    (\<forall>f. has_field f u' \<longrightarrow> unat (field_off u' f) + unat (field_len u' f) \<le> length buf)"
  using parse_url_in [of is_connect buf u] assms by (simp add: field_in_def fields_in_def)

theorem http_parser_parse_url_bounds_witness:
  "\<exists>r u'. http_parser_parse_url ''[::1]:80'' True blank_url = Inr (r, u') \<and>
    (\<forall>f. has_field f u' \<longrightarrow> unat (field_off u' f) + unat (field_len u' f) \<le> length ''[::1]:80'')"
  using http_parser_parse_url_bounds [of True blank_url "''[::1]:80''"] by simp

text \<open>When the headers of a request with a URL in origin form are complete, the accessors of the
  request return the path, the query and the fragment the URL was made of.\<close>

theorem origin_url_components:
  assumes "hr_url r = origin_url ps qs fs" "length (hr_url r) < 2 ^ 16"
    "list_all IS_URL_CHAR ps" "list_all query_char (opt_bytes qs)" "list_all query_char (opt_bytes fs)"
  shows "\<exists>r'. OnHeaderComplete p r n = (0, p, r') \<and> hr_url r' = hr_url r \<and>
    url_path r' = Inr (CHR ''/'' # ps) \<and> url_query r' = Inr (opt_bytes qs) \<and>
    url_fragment r' = Inr (opt_bytes fs) \<and> url_userinfo r' = Inr []"
proof -
  let ?q = "opt_text (CHR ''?'') qs" and ?f = "opt_text (CHR ''#'') fs"
  define v where "v = record_field UF_FRAGMENT (1 + length ps + length ?q + 1) (opt_bytes fs)
    (record_field UF_QUERY (1 + length ps + 1) (opt_bytes qs)
      (record_field UF_PATH 0 (CHR ''/'' # ps) (hr_u r\<lparr>u_port := 0, field_set := 0\<rparr>)))"
  let ?r = "r\<lparr>hr_u := v\<rparr>"
  have "OnHeaderComplete p r n = (0, p, ?r)"
    using parse_origin_url [OF assms(3-5), of "hr_u r"] assms(1) by (simp add: OnHeaderComplete_def v_def)
  moreover have "url_path ?r = Inr (CHR ''/'' # ps)"
    unfolding url_path_def by (rule url_component_record [of _ "[]" _ "?q @ ?f" v])
      (use assms(1,2) in \<open>simp_all add: origin_url_def v_def\<close>)
  moreover have "url_query ?r = Inr (opt_bytes qs)"
    unfolding url_query_def
    by (rule url_component_record [of _ "CHR ''/'' # ps @ (if qs = None then [] else ''?'')" _ ?f v])
      (use assms(1,2) in \<open>auto simp: origin_url_def v_def opt_text_def opt_bytes_def split: option.splits\<close>)
  moreover have "url_fragment ?r = Inr (opt_bytes fs)"
    unfolding url_fragment_def
    by (rule url_component_record [of _ "CHR ''/'' # ps @ ?q @ (if fs = None then [] else ''#'')" _ "[]" v])
      (use assms(1,2) in \<open>auto simp: origin_url_def v_def opt_text_def opt_bytes_def split: option.splits\<close>)
  moreover have "url_userinfo ?r = Inr []"
    by (simp add: url_userinfo_def url_component_def v_def)
  ultimately show ?thesis by (intro exI [of _ ?r]) simp
qed

theorem origin_url_components_witness:
  "\<exists>r'. OnHeaderComplete blank_parser (sample_request\<lparr>hr_url := ''/a/b?x=1#top''\<rparr>) 0 = (0, blank_parser, r') \<and>
    url_path r' = Inr ''/a/b'' \<and> url_query r' = Inr ''x=1'' \<and> url_fragment r' = Inr ''top''"
proof -
  let ?r = "sample_request\<lparr>hr_url := ''/a/b?x=1#top''\<rparr>"
  have "hr_url ?r = origin_url ''a/b'' (Some ''x=1'') (Some ''top'')" "length (hr_url ?r) < 2 ^ 16"
    "list_all IS_URL_CHAR ''a/b''" "list_all query_char (opt_bytes (Some ''x=1''))"
    "list_all query_char (opt_bytes (Some ''top''))"
    by (simp_all add: origin_url_def opt_text_def opt_bytes_def query_char_def IS_URL_CHAR_def normal_url_char_def)
  from origin_url_components [OF this, of blank_parser 0] show ?thesis
    by (auto simp: opt_bytes_def)
qed

text \<open>A URL in absolute form, \<^verbatim>\<open>scheme://host/path\<close>, is split wrongly: because the request is
  parsed as if its method were \<^verbatim>\<open>CONNECT\<close>, its path is everything from the two slashes on, the host
  included.\<close>

theorem absolute_url_path:
  assumes "hr_url r = sch @ ''://'' @ ps" "length (hr_url r) < 2 ^ 16"
    "sch \<noteq> []" "list_all IS_ALPHA sch" "list_all IS_URL_CHAR ps"
  shows "\<exists>r'. OnHeaderComplete p r n = (0, p, r') \<and> url_path r' = Inr (''//'' @ ps)"
proof -
  obtain x u' where u: "http_parser_parse_url (hr_url r) True (hr_u r) = Inr (x, u')" "has_field UF_PATH u'"
    "field_off u' UF_PATH = of_nat (length sch + 1)" "field_len u' UF_PATH = of_nat (length ps + 2)"
    using parse_absolute_url [OF assms(3-5), of "hr_u r"] assms(1) by auto
  have "url_path (r\<lparr>hr_u := u'\<rparr>) = Inr (''//'' @ ps)"
    unfolding url_path_def
    by (rule url_component_record [of _ "sch @ '':''" _ "[]" u']) (use assms(1,2) u in simp_all)
  then show ?thesis using u(1) by (simp add: OnHeaderComplete_def)
qed

theorem absolute_url_path_witness:
  "\<exists>r'. OnHeaderComplete blank_parser (sample_request\<lparr>hr_url := ''http://host/index''\<rparr>) 0 = (0, blank_parser, r') \<and>
    url_path r' = Inr ''//host/index''"
  using absolute_url_path [of "sample_request\<lparr>hr_url := ''http://host/index''\<rparr>" "''http''" "''host/index''" blank_parser 0]
  by (simp add: IS_ALPHA_def LOWER_def IS_URL_CHAR_def normal_url_char_def)

text \<open>Without \<^verbatim>\<open>is_connect\<close> the hypothesis on the host entry is needed: for a URL with a scheme and no
  host the parser reads the host entry it was given, which no caller has filled in, and so reads
  outside the URL.\<close>

theorem http_parser_parse_url_stale_host:
  assumes "unat (field_off u UF_HOST) + unat (field_len u UF_HOST) > 8"
  shows "http_parser_parse_url ''http:///'' False u = Inl OutOfBounds"
proof -
  let ?u0 = "u\<lparr>u_port := 0, field_set := 0\<rparr>" and ?s = s_req_spaces_before_url
  define v where "v = record_field UF_SCHEMA 0 ''http'' ?u0"
  have t: "parse_url_char ?s (CHR ''h'') = s_req_schema"
    "list_all (\<lambda>c. parse_url_char s_req_schema c = s_req_schema) ''ttp''"
    "parse_url_char s_req_schema (CHR '':'') = s_req_schema_slash"
    "parse_url_char s_req_schema_slash (CHR ''/'') = s_req_schema_slash_slash"
    "parse_url_char s_req_schema_slash_slash (CHR ''/'') = s_req_server_start"
    by (simp_all add: parse_url_char_def IS_ALPHA_def LOWER_def CR_def LF_def)
  have f: "url_field s_req_schema = Inr (Some UF_SCHEMA)" "url_field s_req_schema_slash = Inr None"
    "url_field s_req_schema_slash_slash = Inr None" "url_field s_req_server_start = Inr None"
    by (simp_all add: url_field_def)
  have "url_loop (CHR ''h'' # ''ttp'' @ '':///'') 0 ?s UF_MAX False ?u0 =
    url_loop '':///'' (0 + 1 + length ''ttp'') s_req_schema UF_SCHEMA False v"
    unfolding v_def by (rule url_loop_enter [OF t(1) f(1) _ _ t(2)]) simp_all
  moreover obtain k where "url_loop '':///'' (0 + 1 + length ''ttp'') s_req_schema UF_SCHEMA False v =
      Inr (Some False, add_field UF_PATH (set_len UF_PATH 1 (set_off UF_PATH k v)))"
    using t(3-5) f delimiters(3) by (simp add: Let_def)
  ultimately have l: "url_loop ''http:///'' 0 ?s UF_MAX False ?u0 =
      Inr (Some False, add_field UF_PATH (set_len UF_PATH 1 (set_off UF_PATH k v)))"
    by (simp del: url_loop.simps)
  show ?thesis
    using assms
    by (simp add: http_parser_parse_url_def l schema_or_host v_def http_parse_host_def mem_read_def Let_def
        del: url_loop.simps)
qed

theorem http_parser_parse_url_stale_host_witness:
  "http_parser_parse_url ''http:///'' False (blank_url\<lparr>field_off := (\<lambda>_. 60000)\<rparr>) = Inl OutOfBounds"
  by (rule http_parser_parse_url_stale_host) simp

end
