(* ===== verification/Http_Request_Props.thy ===== *)
theory Http_Request_Props
  imports Http_User Http_Url_Props "HOL-Library.Sublist"
begin

text \<open>
  \<^verbatim>\<open>HttpRequest::Parse\<close> (src/evpphttp/http_request.cpp) and the callbacks of the request: what a call
  consumes, what it leaves behind, and that a body arrives intact however it is split over calls.
\<close>

section \<open>How a request grows\<close>

text \<open>Between two calls of a callback, hence over a whole call of the parser, the URL and the body are
  only appended to, a complete request stays complete, and an exception can only come from
  \<^verbatim>\<open>Buffer::Append\<close>.\<close>

definition appended :: "buffer \<Rightarrow> buffer \<Rightarrow> bool" where
  "appended = (\<lambda>b b'. \<exists>xs. Buffer_Append xs b = Inr b')\<^sup>*\<^sup>*"

definition request_grows :: "http_request \<Rightarrow> http_request \<Rightarrow> bool" where
  "request_grows r r' \<longleftrightarrow> prefix (hr_url r) (hr_url r') \<and> appended (hr_body r) (hr_body r') \<and>
     (hr_completed r \<longrightarrow> hr_completed r') \<and> hr_remote_ip r' = hr_remote_ip r \<and>
     hr_send_continue r' = hr_send_continue r \<and> hr_parser r' = hr_parser r \<and>
     (\<forall>x. hr_thrown r' = Some x \<longrightarrow> hr_thrown r = Some x \<or>
       (\<exists>xs b. appended (hr_body r) b \<and> Buffer_Append xs b = Inl x))"

lemma appended_refl [simp]: "appended b b"
  by (simp add: appended_def)

lemma appended_trans: "appended a b \<Longrightarrow> appended b c \<Longrightarrow> appended a c"
  by (auto simp: appended_def intro: rtranclp_trans)

lemma appended_step: "Buffer_Append xs b = Inr b' \<Longrightarrow> appended b b'"
  by (auto simp: appended_def)

interpretation grow: user_order request_settings request_grows
proof
  fix u v w :: http_request
  show "request_grows u u" by (simp add: request_grows_def)
  show "request_grows u v \<Longrightarrow> request_grows v w \<Longrightarrow> request_grows u w"
    unfolding request_grows_def by (auto intro: prefix_order.trans appended_trans, (metis appended_trans)+)
next
  fix F D q u x r q' u' n
  show "http_errno q = HPE_OK \<Longrightarrow> notify_cb request_settings F q u = (r, q', u') \<Longrightarrow> request_grows u u'"
    by (cases F) (auto simp: request_settings_def OnMessageBegin_def OnMessageEnd_def EmptyCB_def
        http_parser_pause_def Let_def request_grows_def)
  show "data_cb request_settings D q u x = (r, q', u') \<Longrightarrow> request_grows u u'"
    by (cases D) (auto simp: request_settings_def OnUrl_def OnField_def OnValue_def OnBody_def EmptyDataCB_def
        Let_def request_grows_def hr_throw_def appended_step split: sum.splits option.splits if_splits,
        metis appended_refl)
  show "on_headers_complete request_settings q u n = (r, q', u') \<Longrightarrow> request_grows u u'"
    using parse_url_in [of True "hr_url u" "hr_u u"]
    by (auto simp: request_settings_def OnHeaderComplete_def request_grows_def split: sum.splits prod.splits)
qed

section \<open>Parse\<close>

text \<open>What a call of \<^verbatim>\<open>Parse\<close> does once the parser has returned: \<open>k\<close> bytes consumed, the parser \<open>q\<close>
  and the request \<open>r1\<close> the callbacks have built.\<close>

definition parse_outcome :: "buffer \<Rightarrow> http_request \<Rightarrow> nat \<Rightarrow> http_parser \<Rightarrow> http_request \<Rightarrow> bool" where
  "parse_outcome buf r k q r1 \<longleftrightarrow>
     (case hr_thrown r1 of
        Some x \<Rightarrow> HttpRequest_Parse buf r = Inl x \<and> (\<exists>xs b. appended (hr_body r) b \<and> Buffer_Append xs b = Inl x)
      | None \<Rightarrow>
          if http_errno q \<in> {HPE_OK, HPE_PAUSED}
          then (\<exists>b. HttpRequest_Parse buf r = Inr (HPE_OK, r1\<lparr>hr_parser := q\<rparr>, b) \<and> buf_inv b \<and>
                 contents b = drop k (contents buf)) \<and>
               (k = length (contents buf) \<or> http_errno q = HPE_PAUSED \<or> upgrade q)
          else HttpRequest_Parse buf r = Inr (http_errno q, r1\<lparr>hr_parser := q\<rparr>, buf))"

lemma HttpRequest_Parse_exact:
  assumes i: "buf_inv buf" "parser_inv (hr_parser r)" and n: "hr_thrown r = None"
  shows "\<exists>k q r1. http_parser_execute request_settings (contents buf) (hr_parser r) r = Inr (k, q, r1) \<and>
    parser_inv q \<and> k \<le> max 1 (length (contents buf)) \<and> (contents buf \<noteq> [] \<longrightarrow> k \<le> length (contents buf)) \<and>
    request_grows r r1 \<and> parse_outcome buf r k q r1"
proof -
  let ?d = "contents buf"
  obtain k q r1 where e: "http_parser_execute request_settings ?d (hr_parser r) r = Inr (k, q, r1)"
    and q: "parser_inv q" "k \<le> max 1 (length ?d)" "?d \<noteq> [] \<longrightarrow> k \<le> length ?d"
      "http_errno q = HPE_OK \<and> \<not> upgrade q \<longrightarrow> k = length ?d"
    using req.execute_safe [OF i(2), of ?d r] by blast
  have g: "request_grows r r1" using grow.execute_user [OF e] .
  have "parse_outcome buf r k q r1"
  proof (cases "hr_thrown r1")
    case (Some x)
    then have "\<exists>xs b. appended (hr_body r) b \<and> Buffer_Append xs b = Inl x"
      using g n by (auto simp: request_grows_def)
    then show ?thesis
      using e Some by (simp add: parse_outcome_def HttpRequest_Parse_def Buffer_ToSlice_inv [OF i(1)])
  next
    case None
    have "length ?d < 2 ^ 64" using buf_inv_index [OF i(1)] unat_size_bound [of "write_index buf"] by simp
    then have u: "unat (of_nat k :: size_t) = k" using q(2) by (intro unat_of_nat_size) simp
    obtain b where b: "Buffer_Retrieve (of_nat k) buf = Inr b" "buf_inv b" "contents b = drop k ?d"
      using Buffer_Skip_inv [OF i(1), of "of_nat k"] u by (auto simp: Buffer_Retrieve_def)
    show ?thesis
      using e None b q(4)
      by (auto simp: parse_outcome_def HttpRequest_Parse_def Buffer_ToSlice_inv [OF i(1)] Let_def)
  qed
  then show ?thesis using e q g by blast
qed

definition parse_result :: "buffer \<Rightarrow> http_request \<Rightarrow> http_errno \<times> http_request \<times> buffer \<Rightarrow> bool" where
  "parse_result buf r res = (case res of (err, r', buf') \<Rightarrow>
     parser_inv (hr_parser r') \<and> buf_inv buf' \<and> request_grows (r\<lparr>hr_parser := hr_parser r'\<rparr>) r' \<and>
     (if err = HPE_OK then
        (\<exists>n \<le> length (contents buf). contents buf' = drop n (contents buf) \<and>
          (n = length (contents buf) \<or> http_errno (hr_parser r') = HPE_PAUSED \<or> upgrade (hr_parser r')))
      else http_errno (hr_parser r') = err \<and> buf' = buf))"

lemma HttpRequest_Parse_ok:
  assumes i: "buf_inv buf" "parser_inv (hr_parser r)" and n: "hr_thrown r = None"
  shows "(\<exists>x xs b. HttpRequest_Parse buf r = Inl x \<and> Buffer_Append xs b = Inl x) \<or>
    (\<exists>res. HttpRequest_Parse buf r = Inr res \<and> parse_result buf r res)"
proof -
  let ?d = "contents buf"
  obtain k q r1 where q: "parser_inv q" "?d \<noteq> [] \<longrightarrow> k \<le> length ?d" and g: "request_grows r r1"
    and o1: "parse_outcome buf r k q r1"
    using HttpRequest_Parse_exact [OF assms] by blast
  have g': "request_grows (r\<lparr>hr_parser := q\<rparr>) (r1\<lparr>hr_parser := q\<rparr>)" using g by (simp add: request_grows_def)
  have d: "\<exists>n\<le>length ?d. drop k ?d = drop n ?d \<and> (n = length ?d \<or> http_errno q = HPE_PAUSED \<or> upgrade q)"
    if "k = length ?d \<or> http_errno q = HPE_PAUSED \<or> upgrade q"
    using that q(2) by (cases "?d = []") (auto intro: exI [of _ k])
  show ?thesis
    using o1 q(1) g' d i(1)
    by (auto simp: parse_outcome_def parse_result_def split: option.splits if_splits)
qed

section \<open>Bodies of a known length\<close>

text \<open>A call that gets part of the body hands it to \<^verbatim>\<open>on_body\<close> and waits for the rest; the call that gets
  the last byte completes the message and pauses the parser.\<close>

lemma no_marks: "initial_marks s_body_identity = (\<lambda>_. None)"
  by (auto simp: initial_marks_def split: data_for.split)

lemma body_part:
  assumes q: "p_state q = s_body_identity" "http_errno q = HPE_OK" "content_length q \<le> INT64_MAX"
    and d: "data \<noteq> []" "int (length data) < content_length q"
    and cb: "Buffer_Append data (hr_body r) = Inr b"
  shows "http_parser_execute request_settings data q r =
    Inr (length data, q\<lparr>content_length := content_length q - int (length data)\<rparr>, r\<lparr>hr_body := b\<rparr>)"
proof -
  let ?S = request_settings and ?c = "content_length q - int (length data)"
  let ?e = "(exec_init q r)\<lparr>ex_ch := data ! 0\<rparr>"
  let ?e1 = "?e\<lparr>ex_parser := q\<lparr>content_length := ?c\<rparr>, ex_marks := [FOR_body \<mapsto> 0], ex_p := length data - 1\<rparr>"
  have c: "min (content_length q) (int (length data)) = int (length data)" "0 < content_length q" "?c \<noteq> 0"
    "- (2 ^ 63) \<le> ?c" "?c \<le> INT64_MAX"
    using q d by auto
  have "exec_switch ?S data ?e = Break ?e1"
    using c q(1) d(1)
    by (simp add: exec_switch_def exec_init_def case_body_identity_def set_content_length_def Let_def MARK_def
        set_parser_def)
  then have "exec_loop ?S data (exec_init q r) = exec_loop ?S data (?e1\<lparr>ex_p := length data\<rparr>)"
    using d(1) by (subst exec_loop.simps) (simp add: exec_init_def exec_byte.simps)
  also have "\<dots> = exec_finish ?S data (?e1\<lparr>ex_p := length data\<rparr>)"
    by (subst exec_loop.simps) simp
  also have "exec_result \<dots> = Inr (length data, q\<lparr>content_length := ?c\<rparr>, r\<lparr>hr_body := b\<rparr>)"
    using q cb
    by (simp add: exec_finish_def PARSING_HEADER_def exec_init_def exec_leftover_def set_marks_def
        CALLBACK_DATA_NOADVANCE_def callback_data_def Let_def store_state_def set_parser_def
        request_settings_def OnBody_def RETURN_def exec_result_def range_of_def)
  finally show ?thesis
    using q d(1) by (simp add: http_parser_execute_def Let_def no_marks exec_init_def)
qed

lemma body_end:
  assumes q: "p_state q = s_body_identity" "http_errno q = HPE_OK" "content_length q \<le> INT64_MAX"
    "p_type q = HTTP_REQUEST"
    and d: "data \<noteq> []" "int (length data) = content_length q"
    and cb: "Buffer_Append data (hr_body r) = Inr b"
  shows "http_parser_execute request_settings data q r =
    Inr (length data, q\<lparr>p_state := s_pre_start_req, nread := 0, content_length := 0, http_errno := HPE_PAUSED\<rparr>,
      r\<lparr>hr_body := b, hr_completed := True\<rparr>)"
proof -
  let ?S = request_settings
  let ?e = "(exec_init q r)\<lparr>ex_ch := data ! 0\<rparr>"
  let ?e1 = "?e\<lparr>ex_parser := q\<lparr>content_length := 0, p_state := s_message_done\<rparr>, ex_user := r\<lparr>hr_body := b\<rparr>,
    ex_state := s_message_done, ex_p := length data - 1\<rparr>"
  let ?e2 = "?e1\<lparr>ex_parser := q\<lparr>p_state := s_pre_start_req, nread := 0, content_length := 0, http_errno := HPE_PAUSED\<rparr>,
    ex_user := r\<lparr>hr_body := b, hr_completed := True\<rparr>, ex_state := s_pre_start_req, ex_start := length data - 1\<rparr>"
  have c: "min (content_length q) (int (length data)) = int (length data)" "0 < content_length q"
    "content_length q - int (length data) = 0" "0 \<le> INT64_MAX"
    using d(1) d(2) [symmetric] by (simp_all add: INT64_MAX_def)
  have u: "(\<lambda>_. None)(FOR_body := None) = (\<lambda>_ :: data_for. None :: nat option)" by auto
  have s1: "exec_switch ?S data ?e = Reexec ?e1"
    using c q(1,2) d(1) cb
    by (simp add: exec_switch_def exec_init_def case_body_identity_def set_content_length_def Let_def MARK_def
        set_parser_def set_state_def callback_data_def store_state_def request_settings_def OnBody_def range_of_def u)
  have s2: "exec_switch ?S data ?e1 = Return ?e2 (length data)"
    using q d(1)
    by (simp add: exec_switch_def exec_init_def case_message_done_def CALLBACK_NOTIFY_def callback_notify_def Let_def
        set_parser_def set_state_def store_state_def NEW_MESSAGE_def request_settings_def OnMessageEnd_def
        http_parser_pause_def)
  have p: "ex_p ?e < length data" "ex_p ?e1 < length data" using d(1) by (simp_all add: exec_init_def)
  have "exec_byte ?S data ?e = Return ?e2 (length data)"
    using exec_byte.simps [of ?S data ?e] exec_byte.simps [of ?S data ?e1] unfolding s1 s2 by (simp only: p if_True outcome.case)
  then have "exec_loop ?S data (exec_init q r) = Return ?e2 (length data)"
    using d(1) by (subst exec_loop.simps) (simp add: exec_init_def)
  then show ?thesis
    using q d(1) by (simp add: http_parser_execute_def Let_def no_marks exec_init_def exec_result_def)
qed

text \<open>The calls for the parts of a body, one after the other.\<close>

fun execute_parts :: "byte list list \<Rightarrow> http_parser \<Rightarrow> http_request \<Rightarrow> (http_parser \<times> http_request) result" where
  "execute_parts [] q r = Inr (q, r)"
| "execute_parts (d # ds) q r =
     ebind (http_parser_execute request_settings d q r) (\<lambda>(n, q', r'). execute_parts ds q' r')"

lemma body_parts:
  assumes "p_state q = s_body_identity" "http_errno q = HPE_OK" "content_length q \<le> INT64_MAX"
    "p_type q = HTTP_REQUEST" "ds \<noteq> []" "[] \<notin> set ds" "int (length (concat ds)) = content_length q"
    "buf_inv (hr_body r)" "can_grow (hr_body r) (length (concat ds))"
  shows "\<exists>q' b. execute_parts ds q r = Inr (q', r\<lparr>hr_body := b, hr_completed := True\<rparr>) \<and> buf_inv b \<and>
    contents b = contents (hr_body r) @ concat ds \<and> http_errno q' = HPE_PAUSED \<and> p_state q' = s_pre_start_req"
  using assms
proof (induction ds arbitrary: q r)
  case Nil
  then show ?case by simp
next
  case (Cons d ds)
  have "can_grow (hr_body r) (length d)"
    using Cons.prems(9) by (simp add: can_grow_def)
  then obtain b where b: "Buffer_Append d (hr_body r) = Inr b" "buf_inv b" "contents b = contents (hr_body r) @ d"
    "buf_reserved b = buf_reserved (hr_body r)"
    using Buffer_Write_inv [OF Cons.prems(8), of d] by (auto simp: Buffer_Append_def)
  show ?case
  proof (cases "ds = []")
    case True
    then show ?thesis
      using Cons.prems b body_end [OF Cons.prems(1-4) _ _ b(1)] by auto
  next
    case False
    have "0 < length (concat ds)" using False Cons.prems(6) by (cases ds) auto
    then have l: "int (length d) < content_length q"
      using Cons.prems(7) unfolding concat.simps length_append by linarith
    have g: "can_grow b (length (concat ds))"
      using Cons.prems(9) b by (simp add: can_grow_def)
    show ?thesis
      using body_part [OF Cons.prems(1-3) _ l b(1)] Cons.prems False b
        Cons.IH [of "q\<lparr>content_length := content_length q - int (length d)\<rparr>" "r\<lparr>hr_body := b\<rparr>"] g
      by auto
  qed
qed

section \<open>Samples\<close>

text \<open>A buffer that holds given bytes; a whole request and the first byte of what follows it.\<close>

definition bytes_buffer :: "byte list \<Rightarrow> buffer" where
  "bytes_buffer d = \<lparr>storage = replicate 8 (Some (CHR 0x00)) @ map Some d, capacity = of_nat (8 + length d),
     read_index = 8, write_index = of_nat (8 + length d), buf_reserved = 8\<rparr>"

lemma bytes_buffer_facts:
  assumes "length d < 1000"
  shows "buf_inv (bytes_buffer d)" "contents (bytes_buffer d) = d"
proof -
  have "unat (of_nat (8 + length d) :: size_t) = 8 + length d" using assms by (intro unat_of_nat_size) simp
  then show "buf_inv (bytes_buffer d)" "contents (bytes_buffer d) = d"
    using assms by (auto simp: bytes_buffer_def buf_inv_def contents_def range_of_def simp del: of_nat_add)
qed

definition get_bytes :: "byte list" where
  "get_bytes = ''GET /a HTTP/1.1'' @ [CR, LF, CR, LF] @ ''X''"

lemma get_parsed:
  "case http_parser_execute request_settings get_bytes (hr_parser sample_request) sample_request of
     Inl x \<Rightarrow> False
   | Inr (k, q, r) \<Rightarrow> k = 19 \<and> http_errno q = HPE_PAUSED \<and> hr_completed r \<and> hr_url r = ''/a'' \<and> hr_thrown r = None"
  by code_simp

section \<open>Properties\<close>

text \<open>C13. A call of \<^verbatim>\<open>HttpRequest::Parse\<close> on any buffer hands the buffer's bytes to the parser, which
  returns, fit for the next call, having consumed \<open>k\<close> of them. When the parser has no error or has been
  paused by the end of a message, \<^verbatim>\<open>Parse\<close> reports success and leaves in the buffer exactly the bytes
  behind those \<open>k\<close>, none of them unless a message was completed or a protocol upgrade was met; on any other
  error it reports that error and leaves the buffer as it is. The request it leaves is the one the callbacks
  built: the URL and the body only grew and a complete request stayed complete. It throws only when a
  callback did, and then what \<^verbatim>\<open>Buffer::Append\<close> threw on the body collected so far.\<close>

theorem HttpRequest_Parse_sound:
  assumes "buf_inv buf" "parser_inv (hr_parser r)" "hr_thrown r = None"
  shows "\<exists>k q r1. http_parser_execute request_settings (contents buf) (hr_parser r) r = Inr (k, q, r1) \<and>
    parser_inv q \<and> (contents buf \<noteq> [] \<longrightarrow> k \<le> length (contents buf)) \<and> request_grows r r1 \<and>
    (case hr_thrown r1 of
       Some x \<Rightarrow> HttpRequest_Parse buf r = Inl x \<and> (\<exists>xs b. appended (hr_body r) b \<and> Buffer_Append xs b = Inl x)
     | None \<Rightarrow>
         if http_errno q \<in> {HPE_OK, HPE_PAUSED}
         then (\<exists>b. HttpRequest_Parse buf r = Inr (HPE_OK, r1\<lparr>hr_parser := q\<rparr>, b) \<and> buf_inv b \<and>
                contents b = drop k (contents buf)) \<and>
              (k = length (contents buf) \<or> http_errno q = HPE_PAUSED \<or> upgrade q)
         else HttpRequest_Parse buf r = Inr (http_errno q, r1\<lparr>hr_parser := q\<rparr>, buf))"
  using HttpRequest_Parse_exact [OF assms] unfolding parse_outcome_def by blast

theorem HttpRequest_Parse_sound_witness:
  "\<exists>r b. HttpRequest_Parse (bytes_buffer get_bytes) sample_request = Inr (HPE_OK, r, b) \<and> hr_completed r \<and>
    hr_url r = ''/a'' \<and> contents b = ''X''"
proof -
  have b: "buf_inv (bytes_buffer get_bytes)" "contents (bytes_buffer get_bytes) = get_bytes"
    by (rule bytes_buffer_facts, simp add: get_bytes_def)+
  have "parser_inv (hr_parser sample_request)" "hr_thrown sample_request = None" by (simp_all add: sample_request_def init_inv)
  from HttpRequest_Parse_sound [OF b(1) this] show ?thesis
    using get_parsed b(2) by (auto simp: get_bytes_def split: sum.splits)
qed

text \<open>C21. A body announced by Content-Length arrives intact however it is cut into calls of the parser:
  after the last part the request is complete, its body is what it was before followed by the parts in
  order, and the parser is paused in front of the next message.\<close>

theorem request_body_parts:
  assumes "p_state q = s_body_identity" "http_errno q = HPE_OK" "content_length q \<le> INT64_MAX"
    "p_type q = HTTP_REQUEST" "ds \<noteq> []" "[] \<notin> set ds" "int (length (concat ds)) = content_length q"
    "buf_inv (hr_body r)" "can_grow (hr_body r) (length (concat ds))"
  shows "\<exists>q' b. execute_parts ds q r = Inr (q', r\<lparr>hr_body := b, hr_completed := True\<rparr>) \<and> buf_inv b \<and>
    contents b = contents (hr_body r) @ concat ds \<and> http_errno q' = HPE_PAUSED \<and> p_state q' = s_pre_start_req"
  using assms by (rule body_parts)

theorem request_body_parts_witness:
  "\<exists>q' b. execute_parts [''he'', ''llo''] (blank_parser\<lparr>p_type := HTTP_REQUEST, p_state := s_body_identity,
      content_length := 5\<rparr>) sample_request = Inr (q', sample_request\<lparr>hr_body := b, hr_completed := True\<rparr>) \<and>
    contents b = ''abchello'' \<and> http_errno q' = HPE_PAUSED"
  using request_body_parts [of "blank_parser\<lparr>p_type := HTTP_REQUEST, p_state := s_body_identity,
      content_length := 5\<rparr>" "[''he'', ''llo'']" sample_request]
  by (auto simp: blank_parser_def sample_request_def INT64_MAX_def can_grow_def)

text \<open>A header line that continues the one before it is not appended to that header: the value of
  the first line is stored when it ends, which empties the name, and the continuation is stored under the
  empty name.\<close>

theorem folded_header_lost:
  "case http_parser_execute request_settings ('' y'' @ [CR]) (blank_parser\<lparr>p_state := s_header_value_lws\<rparr>)
       (sample_request\<lparr>hr_field_value := [''X'' \<mapsto> ''a''], hr_pre_state := 55\<rparr>) of
     Inl x \<Rightarrow> False
   | Inr (n, q, r) \<Rightarrow> hr_field_value r ''X'' = Some ''a'' \<and> hr_field_value r [] = Some ''y''"
proof -
  have "initial_marks s_header_value_lws = (\<lambda>_. None)"
    by (auto simp: initial_marks_def split: data_for.split)
  then show ?thesis
    by (simp add: http_parser_execute_def exec_init_def exec_loop.simps exec_byte.simps exec_switch_def
      blank_parser_def case_header_value_lws_def CALLBACK_SPACE_def Let_def store_state_def set_parser_def
      set_state_def request_settings_def OnValue_def SPACE_def case_header_value_start_def MARK_def CR_def LF_def QT_def
      HTTP_MAX_HEADER_SIZE_def PARSING_HEADER_def case_header_value.simps CALLBACK_DATA_def callback_data_def exec_finish_def exec_leftover_def
      set_header_state_def sample_request_def set_marks_def CALLBACK_DATA_NOADVANCE_def RETURN_def exec_result_def range_of_def)
qed

end
