(* ===== verification/Http_Header_Props.thy ===== *)
theory Http_Header_Props
  imports Http_Fast Http_Request
begin

text \<open>
  A header line arrives at the request: the bytes of the name and of the value, wherever they lie in the
  input, are stored in the request's map of fields. The proof runs the byte-wise machine of
  \<open>Http_Fast\<close>, which is equivalent to the parser with its fast-forwarding.
\<close>

section \<open>Runs of the byte-wise machine\<close>

lemma drop_next: "drop n xs = c # d # cs \<Longrightarrow> n < length xs \<and> xs ! n = c \<and> drop (n + 1) xs = d # cs \<and> n + 1 < length xs"
  by (metis Suc_eq_plus1 drop_Suc drop_all list.distinct(1) list.sel(3) not_less nth_via_drop tl_drop)

lemma ref_loop_step:
  assumes "drop (ex_p e) data = c # d # cs" "ref_switch S data (e\<lparr>ex_ch := c\<rparr>) = Break (e'\<lparr>ex_ch := c\<rparr>)" "ex_p e' = ex_p e"
  shows "ref_loop S data e = ref_loop S data (e'\<lparr>ex_p := ex_p e + 1\<rparr>)"
proof -
  note p = drop_next [OF assms(1)]
  have "ref_byte S data (e\<lparr>ex_ch := data ! ex_p e\<rparr>) = Break (e'\<lparr>ex_ch := c\<rparr>)"
    using assms(2) p by (simp add: ref_byte.simps)
  then have "ref_loop S data e = ref_loop S data (e'\<lparr>ex_p := ex_p e + 1, ex_ch := c\<rparr>)"
    using p assms(3) by (simp add: ref_loop.simps [of S data e] ch_first)
  then show ?thesis using ref_loop_ch [of "e'\<lparr>ex_p := ex_p e + 1\<rparr>" data S c] p by simp
qed

lemma exec_ext:
  "e = (e' :: 'u exec) \<longleftrightarrow> ex_parser e = ex_parser e' \<and> ex_user e = ex_user e' \<and> ex_state e = ex_state e' \<and>
     ex_p e = ex_p e' \<and> ex_ch e = ex_ch e' \<and> ex_marks e = ex_marks e' \<and> ex_start e = ex_start e'"
  by (cases e; cases e') simp

text \<open>Bytes that change nothing but the position.\<close>

lemma ref_loop_run:
  assumes "\<And>c p. c \<in> set cs \<Longrightarrow> ref_switch S data (e\<lparr>ex_p := p, ex_ch := c\<rparr>) = Break (e\<lparr>ex_p := p, ex_ch := c\<rparr>)"
    "drop (ex_p e) data = cs @ d # rest"
  shows "ref_loop S data e = ref_loop S data (e\<lparr>ex_p := ex_p e + length cs\<rparr>)"
  using assms
proof (induction cs arbitrary: e)
  case Nil
  then show ?case by simp
next
  case (Cons c cs)
  obtain d' r' where dr: "cs @ d # rest = d' # r'" by (cases cs) auto
  then have n: "drop (ex_p e + 1) data = cs @ d # rest" using drop_next Cons.prems(2) by fastforce
  have "ref_loop S data e = ref_loop S data (e\<lparr>ex_p := ex_p e + 1\<rparr>)"
    using Cons.prems(1) [of c "ex_p e"] Cons.prems(2) dr by (intro ref_loop_step [of e data c d' r']) simp_all
  then show ?case
    using Cons.IH [of "e\<lparr>ex_p := ex_p e + 1\<rparr>"] Cons.prems(1) n by simp
qed

section \<open>A header line\<close>

definition name_byte :: "byte \<Rightarrow> bool" where
  "name_byte c \<longleftrightarrow> TOKEN c \<noteq> CHR 0x00"

definition value_byte :: "byte \<Rightarrow> bool" where
  "value_byte c \<longleftrightarrow> c \<noteq> CR \<and> c \<noteq> LF \<and> c \<noteq> QT \<and> IS_HEADER_CHAR c"

lemma separators: "TOKEN CR = CHR 0x00" "TOKEN LF = CHR 0x00" "TOKEN (CHR '' '') = CHR 0x00" "TOKEN (CHR '':'') = CHR 0x00"
  by (simp_all add: TOKEN_def tokens_def CR_def LF_def)

lemma name_starts:
  assumes "ex_state e = s_header_field_start" "name_byte c" "TOKEN c \<notin> {CHR ''c'', CHR ''t'', CHR ''u''}"
    "ex_marks e FOR_header_field = None"
  shows "ref_switch S data (e\<lparr>ex_ch := c\<rparr>) = Break (e\<lparr>ex_ch := c,
    ex_parser := (ex_parser e)\<lparr>p_index := 0, header_state := h_general\<rparr>, ex_state := s_header_field,
    ex_marks := (ex_marks e)(FOR_header_field \<mapsto> ex_p e)\<rparr>)"
proof -
  have "c \<noteq> CR" "c \<noteq> LF" using assms(2) separators by (auto simp: name_byte_def)
  then show ?thesis
    using assms by (simp add: ref_switch_def exec_switch_def case_header_field_start_def name_byte_def Let_def
        set_header_state_def set_parser_def set_state_def MARK_def)
qed

lemma name_continues:
  "ex_state e = s_header_field \<Longrightarrow> header_state (ex_parser e) = h_general \<Longrightarrow> name_byte (ex_ch e) \<Longrightarrow>
   ref_switch S data e = Break e"
  by (simp add: ref_switch_def ref_header_field_def name_byte_def)

lemma name_ends:
  assumes "ex_state e = s_header_field" "header_state (ex_parser e) = h_general" "http_errno (ex_parser e) = HPE_OK"
    "ex_marks e FOR_header_field = Some m" "m < ex_p e" "ex_p e \<le> length data" "data ! (ex_p e - 1) \<noteq> CHR '' ''"
    "ex_user e = r" "hr_pre_state r \<noteq> 51"
  shows "ref_switch request_settings data (e\<lparr>ex_ch := CHR '':''\<rparr>) = Break (e\<lparr>ex_ch := CHR '':'',
    ex_parser := (ex_parser e)\<lparr>p_state := s_header_value_start\<rparr>, ex_state := s_header_value_start,
    ex_user := r\<lparr>hr_field := range_of m (ex_p e) data, hr_pre_state := state_val s_header_value_start\<rparr>,
    ex_marks := (ex_marks e)(FOR_header_field := None)\<rparr>)"
  using assms separators
  by (simp add: ref_switch_def ref_header_field_def case_header_field_def notatoken_def Let_def CALLBACK_DATA_def
      callback_data_def set_state_def store_state_def set_parser_def request_settings_def OnField_def)

lemma value_spaces:
  "ex_state e = s_header_value_start \<Longrightarrow> ex_ch e = CHR '' '' \<Longrightarrow> ref_switch S data e = Break e"
  by (simp add: ref_switch_def exec_switch_def case_header_value_start_def)

lemma value_starts:
  assumes "ex_state e = s_header_value_start" "value_byte c" "c \<noteq> CHR '' ''" "c \<noteq> CHR 0x09"
    "header_state (ex_parser e) = h_general" "ex_marks e FOR_header_value = None"
  shows "ref_switch S data (e\<lparr>ex_ch := c\<rparr>) = Break (e\<lparr>ex_ch := c, ex_parser := (ex_parser e)\<lparr>p_index := 0\<rparr>,
    ex_state := s_header_value, ex_marks := (ex_marks e)(FOR_header_value \<mapsto> ex_p e)\<rparr>)"
  using assms
  by (simp add: ref_switch_def exec_switch_def case_header_value_start_def value_byte_def Let_def
      set_header_state_def set_parser_def set_state_def MARK_def)

lemma value_continues:
  "ex_state e = s_header_value \<Longrightarrow> header_state (ex_parser e) = h_general \<Longrightarrow> value_byte (ex_ch e) \<Longrightarrow>
   ref_switch S data e = Break e"
  by (simp add: ref_switch_def ref_header_value_def value_byte_def)

lemma value_ends:
  assumes "ex_state e = s_header_value" "header_state (ex_parser e) = h_general" "http_errno (ex_parser e) = HPE_OK"
    "ex_marks e FOR_header_value = Some m" "m \<le> ex_p e" "ex_p e \<le> length data"
    "ex_user e = r" "hr_pre_state r \<noteq> 53"
  shows "ref_switch request_settings data (e\<lparr>ex_ch := CR\<rparr>) = Break (e\<lparr>ex_ch := CR,
    ex_parser := (ex_parser e)\<lparr>p_state := s_header_almost_done\<rparr>, ex_state := s_header_almost_done,
    ex_user := r\<lparr>hr_field_value := (hr_field_value r)(hr_field r \<mapsto> range_of m (ex_p e) data), hr_value := [],
      hr_field := [], hr_pre_state := 55\<rparr>,
    ex_marks := (ex_marks e)(FOR_header_value := None)\<rparr>)"
  using assms
  by (simp add: ref_switch_def ref_header_value_def case_header_value.simps Let_def CALLBACK_DATA_def
      callback_data_def set_state_def store_state_def set_parser_def request_settings_def OnValue_def)

definition header_line :: "byte list \<Rightarrow> nat \<Rightarrow> byte list \<Rightarrow> byte list" where
  "header_line f k v = f @ '':'' @ replicate k (CHR '' '') @ v @ [CR]"

definition header_name :: "byte list \<Rightarrow> bool" where
  "header_name f \<longleftrightarrow> f \<noteq> [] \<and> list_all name_byte f \<and> TOKEN (hd f) \<notin> {CHR ''c'', CHR ''t'', CHR ''u''}"

definition header_value :: "byte list \<Rightarrow> bool" where
  "header_value v \<longleftrightarrow> v \<noteq> [] \<and> list_all value_byte v \<and> hd v \<noteq> CHR '' '' \<and> hd v \<noteq> CHR 0x09"

lemma drop_after: "drop n xs = ys @ zs \<Longrightarrow> drop (n + length ys) xs = zs"
  by (metis add.commute append_eq_conv_conj drop_drop)

lemma range_of_drop_eq: "drop n xs = ys @ zs \<Longrightarrow> range_of n (n + length ys) xs = ys"
  by (simp add: range_of_def)

lemma name_run:
  assumes "header_name f" "drop (ex_p e) data = f @ CHR '':'' # d # rest"
    "ex_state e = s_header_field_start" "http_errno (ex_parser e) = HPE_OK" "ex_marks e FOR_header_field = None"
    "ex_user e = r" "hr_pre_state r \<noteq> 51"
  shows "ref_loop request_settings data e = ref_loop request_settings data (e\<lparr>
    ex_parser := (ex_parser e)\<lparr>p_index := 0, header_state := h_general, p_state := s_header_value_start\<rparr>,
    ex_state := s_header_value_start, ex_user := r\<lparr>hr_field := f, hr_pre_state := state_val s_header_value_start\<rparr>,
    ex_p := ex_p e + length f + 1\<rparr>)"
proof -
  let ?S = request_settings
  obtain c cs where f: "f = c # cs" "name_byte c" "list_all name_byte cs" "TOKEN c \<notin> {CHR ''c'', CHR ''t'', CHR ''u''}"
    using assms(1) by (cases f) (auto simp: header_name_def)
  obtain d' r' where dr: "cs @ CHR '':'' # d # rest = d' # r'" by (cases cs) auto
  let ?q = "(ex_parser e)\<lparr>p_index := 0, header_state := h_general\<rparr>"
  let ?e1 = "e\<lparr>ex_parser := ?q, ex_state := s_header_field, ex_marks := (ex_marks e)(FOR_header_field \<mapsto> ex_p e)\<rparr>"
  let ?e2 = "?e1\<lparr>ex_p := ex_p e + 1\<rparr>" and ?e3 = "?e1\<lparr>ex_p := ex_p e + length f\<rparr>"
  have d0: "drop (ex_p e) data = c # d' # r'" using assms(2) f dr by simp
  have d2: "drop (ex_p ?e2) data = cs @ CHR '':'' # d # rest" using drop_next [OF d0] dr by simp
  have d3: "drop (ex_p ?e3) data = CHR '':'' # d # rest" using drop_after [OF assms(2)] by simp
  have last: "data ! (ex_p e + length f - 1) = last f"
  proof -
    have "drop (ex_p e) data ! (length f - 1) = last f" using assms(2) f by (simp add: nth_append last_conv_nth)
    then show ?thesis using f assms(2) by (metis (no_types, lifting) Nat.add_diff_assoc One_nat_def Suc_leI
        drop_all length_greater_0_conv list.distinct(1) nth_drop append_is_Nil_conv not_less order.strict_implies_order)
  qed
  have "name_byte (last f)" using last_in_set [of f] f by (auto simp: list_all_iff)
  then have "last f \<noteq> CHR '' ''" using separators by (auto simp: name_byte_def)
  then have sp: "data ! (ex_p ?e3 - 1) \<noteq> CHR '' ''" using last by simp
  have "ref_loop ?S data e = ref_loop ?S data ?e2"
    using ref_loop_step [OF d0, of ?S ?e1] name_starts [OF assms(3) f(2,4) assms(5), of ?S data] by (simp add: ch_first)
  also have "\<dots> = ref_loop ?S data (?e2\<lparr>ex_p := ex_p ?e2 + length cs\<rparr>)"
    by (rule ref_loop_run [OF _ d2]) (use f(3) in \<open>auto simp: list_all_iff intro!: name_continues\<close>)
  also have "?e2\<lparr>ex_p := ex_p ?e2 + length cs\<rparr> = ?e3" using f(1) by simp
  also have "ref_loop ?S data ?e3 = ref_loop ?S data (e\<lparr>ex_parser := ?q\<lparr>p_state := s_header_value_start\<rparr>,
    ex_state := s_header_value_start, ex_user := r\<lparr>hr_field := f, hr_pre_state := state_val s_header_value_start\<rparr>,
    ex_p := ex_p e + length f + 1\<rparr>)"
  proof (subst ref_loop_step [OF d3, of ?S])
    let ?e4 = "?e3\<lparr>ex_parser := ?q\<lparr>p_state := s_header_value_start\<rparr>, ex_state := s_header_value_start,
      ex_user := r\<lparr>hr_field := f, hr_pre_state := state_val s_header_value_start\<rparr>, ex_marks := ex_marks e\<rparr>"
    have m: "(ex_marks e)(FOR_header_field := None) = ex_marks e" using assms(5) by auto
    show "ref_switch ?S data (?e3\<lparr>ex_ch := CHR '':''\<rparr>) = Break (?e4\<lparr>ex_ch := CHR '':''\<rparr>)"
      by (subst name_ends [of ?e3 "ex_p e" data r])
        (use assms(4,6,7) sp f(1) range_of_drop_eq [OF assms(2)] drop_next [OF d3] m in
          \<open>simp_all add: exec_ext [of "_ :: http_request exec"]\<close>)
  qed simp_all
  finally show ?thesis by simp
qed

lemma value_run:
  assumes "header_value v" "drop (ex_p e) data = replicate k (CHR '' '') @ v @ CR # d # rest"
    "ex_state e = s_header_value_start" "http_errno (ex_parser e) = HPE_OK" "ex_marks e FOR_header_value = None"
    "header_state (ex_parser e) = h_general" "ex_user e = r" "hr_pre_state r \<noteq> 53"
  shows "ref_loop request_settings data e = ref_loop request_settings data (e\<lparr>
    ex_parser := (ex_parser e)\<lparr>p_index := 0, p_state := s_header_almost_done\<rparr>,
    ex_state := s_header_almost_done,
    ex_user := r\<lparr>hr_field_value := (hr_field_value r)(hr_field r \<mapsto> v), hr_value := [], hr_field := [], hr_pre_state := 55\<rparr>,
    ex_p := ex_p e + k + length v + 1\<rparr>)"
proof -
  let ?S = request_settings
  obtain c cs where v: "v = c # cs" "value_byte c" "list_all value_byte cs" "c \<noteq> CHR '' ''" "c \<noteq> CHR 0x09"
    using assms(1) by (cases v) (auto simp: header_value_def)
  obtain d' r' where dr: "cs @ CR # d # rest = d' # r'" by (cases cs) auto
  let ?q = "(ex_parser e)\<lparr>p_index := 0\<rparr>"
  let ?e0 = "e\<lparr>ex_p := ex_p e + k\<rparr>"
  let ?e1 = "?e0\<lparr>ex_parser := ?q, ex_state := s_header_value, ex_marks := (ex_marks e)(FOR_header_value \<mapsto> ex_p e + k)\<rparr>"
  let ?e2 = "?e1\<lparr>ex_p := ex_p e + k + 1\<rparr>" and ?e3 = "?e1\<lparr>ex_p := ex_p e + k + length v\<rparr>"
  have dv: "drop (ex_p e + k) data = v @ CR # d # rest" using drop_after [OF assms(2)] by simp
  have d0: "drop (ex_p ?e0) data = c # d' # r'" using dv v dr by simp
  have d2: "drop (ex_p ?e2) data = cs @ CR # d # rest" using drop_next [OF d0] dr by simp
  have d3: "drop (ex_p ?e3) data = CR # d # rest" using drop_after [OF dv] by simp
  have "ref_loop ?S data e = ref_loop ?S data (e\<lparr>ex_p := ex_p e + length (replicate k (CHR '' ''))\<rparr>)"
    by (rule ref_loop_run [of _ _ _ _ c "cs @ CR # d # rest"]) (use assms(2,3) v(1) in \<open>auto intro!: value_spaces\<close>)
  also have "\<dots> = ref_loop ?S data ?e0" by simp
  also have "\<dots> = ref_loop ?S data ?e2"
    using ref_loop_step [OF d0, of ?S ?e1] value_starts [of ?e0, OF _ v(2,4,5), of ?S data] assms(3,5,6) by (simp add: ch_first)
  also have "\<dots> = ref_loop ?S data (?e2\<lparr>ex_p := ex_p ?e2 + length cs\<rparr>)"
    by (rule ref_loop_run [OF _ d2]) (use v(3) assms(6) in \<open>auto simp: list_all_iff intro!: value_continues\<close>)
  also have "?e2\<lparr>ex_p := ex_p ?e2 + length cs\<rparr> = ?e3" using v(1) by simp
  also have "ref_loop ?S data ?e3 = ref_loop ?S data (e\<lparr>ex_parser := ?q\<lparr>p_state := s_header_almost_done\<rparr>,
    ex_state := s_header_almost_done,
    ex_user := r\<lparr>hr_field_value := (hr_field_value r)(hr_field r \<mapsto> v), hr_value := [], hr_field := [], hr_pre_state := 55\<rparr>,
    ex_p := ex_p e + k + length v + 1\<rparr>)"
  proof (subst ref_loop_step [OF d3, of ?S])
    let ?e4 = "?e3\<lparr>ex_parser := ?q\<lparr>p_state := s_header_almost_done\<rparr>, ex_state := s_header_almost_done,
      ex_user := r\<lparr>hr_field_value := (hr_field_value r)(hr_field r \<mapsto> v), hr_value := [], hr_field := [], hr_pre_state := 55\<rparr>,
      ex_marks := ex_marks e\<rparr>"
    have m: "(ex_marks e)(FOR_header_value := None) = ex_marks e" using assms(5) by auto
    show "ref_switch ?S data (?e3\<lparr>ex_ch := CR\<rparr>) = Break (?e4\<lparr>ex_ch := CR\<rparr>)"
      by (subst value_ends [of ?e3 "ex_p e + k" data r])
        (use assms(4,6,7,8) range_of_drop_eq [OF dv] drop_next [OF d3] m in
          \<open>simp_all add: exec_ext [of "_ :: http_request exec"]\<close>)
  qed simp_all
  finally show ?thesis by simp
qed

section \<open>Properties\<close>

text \<open>A header line \<^verbatim>\<open>name: value\<close> is stored by the request: when its carriage return has been read, the map
  of fields maps the name to the value and is otherwise as before, and the parser goes on behind it. The
  names are those that cannot be one of the three the parser treats specially.\<close>

theorem request_header_stored:
  assumes "header_name f" "header_value v" "drop (ex_p e) data = header_line f k v @ d # rest"
    "ex_state e = s_header_field_start" "http_errno (ex_parser e) = HPE_OK"
    "ex_marks e FOR_header_field = None" "ex_marks e FOR_header_value = None" "hr_pre_state (ex_user e) \<noteq> 51"
  shows "\<exists>q. exec_result (exec_loop request_settings data e) = exec_result (exec_loop request_settings data (e\<lparr>
      ex_parser := q, ex_state := s_header_almost_done,
      ex_user := (ex_user e)\<lparr>hr_field_value := (hr_field_value (ex_user e))(f \<mapsto> v), hr_value := [], hr_field := [],
        hr_pre_state := 55\<rparr>, ex_p := ex_p e + length (header_line f k v)\<rparr>)) \<and>
    header_state q = h_general \<and> http_errno q = HPE_OK"
proof -
  let ?S = request_settings and ?r = "ex_user e"
  obtain d' r' where dr: "replicate k (CHR '' '') @ v @ CR # d # rest = d' # r'"
    by (cases k; cases v) auto
  have l: "drop (ex_p e) data = f @ CHR '':'' # d' # r'"
    using assms(3) dr by (simp add: header_line_def)
  let ?q = "(ex_parser e)\<lparr>p_index := 0, header_state := h_general, p_state := s_header_value_start\<rparr>"
  let ?e1 = "e\<lparr>ex_parser := ?q, ex_state := s_header_value_start,
    ex_user := ?r\<lparr>hr_field := f, hr_pre_state := state_val s_header_value_start\<rparr>, ex_p := ex_p e + length f + 1\<rparr>"
  let ?q' = "(ex_parser e)\<lparr>header_state := h_general, p_index := 0, p_state := s_header_almost_done\<rparr>"
  have n: "ref_loop ?S data e = ref_loop ?S data ?e1"
    by (rule name_run [OF assms(1) l assms(4,5,6) refl assms(8)])
  have "drop (ex_p ?e1) data = replicate k (CHR '' '') @ v @ CR # d # rest"
    using drop_after [of "ex_p e" data "f @ '':''"] l dr by simp
  from value_run [OF assms(2) this _ _ _ _ refl] assms(5,7)
  have "ref_loop ?S data ?e1 = ref_loop ?S data (e\<lparr>ex_parser := ?q', ex_state := s_header_almost_done,
    ex_user := ?r\<lparr>hr_field_value := (hr_field_value ?r)(f \<mapsto> v), hr_value := [], hr_field := [], hr_pre_state := 55\<rparr>,
    ex_p := ex_p e + length (header_line f k v)\<rparr>)"
    by (simp add: header_line_def algebra_simps)
  moreover have "ex_p e + length (header_line f k v) \<le> length data"
    using drop_after [OF assms(3)] by (metis drop_all list.distinct(1) nat_le_linear)
  ultimately show ?thesis
    using n assms(5) by (intro exI [of _ "?q'"]) (simp add: loop_equivalent)
qed

theorem request_header_stored_witness:
  "\<exists>q. exec_result (exec_loop request_settings (''Host: h'' @ [CR, LF])
      ((exec_init blank_parser sample_request)\<lparr>ex_state := s_header_field_start\<rparr>)) =
    exec_result (exec_loop request_settings (''Host: h'' @ [CR, LF])
      ((exec_init blank_parser sample_request)\<lparr>ex_parser := q, ex_state := s_header_almost_done,
        ex_user := sample_request\<lparr>hr_field_value := [''Host'' \<mapsto> ''h''], hr_value := [], hr_field := [], hr_pre_state := 55\<rparr>,
        ex_p := 8\<rparr>))"
proof -
  let ?e = "(exec_init blank_parser sample_request)\<lparr>ex_state := s_header_field_start\<rparr>"
  have h: "header_name ''Host''" "header_value ''h''"
    "drop (ex_p ?e) (''Host: h'' @ [CR, LF]) = header_line ''Host'' 1 ''h'' @ LF # []"
    "ex_state ?e = s_header_field_start" "http_errno (ex_parser ?e) = HPE_OK"
    "ex_marks ?e FOR_header_field = None" "ex_marks ?e FOR_header_value = None" "hr_pre_state (ex_user ?e) \<noteq> 51"
    by (simp_all add: header_name_def header_value_def header_line_def name_byte_def value_byte_def TOKEN_def tokens_def
        CR_def LF_def QT_def IS_HEADER_CHAR_def exec_init_def blank_parser_def sample_request_def)
  have n: "ex_p ?e + length (header_line ''Host'' 1 ''h'') = 8" "ex_user ?e = sample_request"
    "hr_field_value sample_request = Map.empty"
    by (simp_all add: header_line_def exec_init_def sample_request_def)
  show ?thesis using request_header_stored [OF h] unfolding n by auto
qed

end
