(* ===== verification/Http_Chunk_Props.thy ===== *)
theory Http_Chunk_Props
  imports Http_Parser_Props
begin

text \<open>
  Chunk sizes: the hexadecimal digits of a chunk header give the size of the chunk within the range of
  the 64-bit counter; and three inputs on which the parser deviates from what it means to do.
\<close>

section \<open>Chunk sizes\<close>

definition hex_digit :: "byte \<Rightarrow> int" where
  "hex_digit c = unhex ! of_char c"

definition is_hex :: "byte \<Rightarrow> bool" where
  "is_hex c \<longleftrightarrow> hex_digit c \<noteq> -1"

fun hex_from :: "int \<Rightarrow> byte list \<Rightarrow> int" where
  "hex_from v [] = v"
| "hex_from v (c # cs) = hex_from (v * 16 + hex_digit c) cs"

fun hex_fits :: "int \<Rightarrow> byte list \<Rightarrow> bool" where
  "hex_fits v [] \<longleftrightarrow> True"
| "hex_fits v (c # cs) \<longleftrightarrow> 16 * v + hex_digit c \<le> INT64_MAX \<and> hex_fits (v * 16 + hex_digit c) cs"

definition reading_chunk :: "'u exec \<Rightarrow> bool" where
  "reading_chunk e \<longleftrightarrow> ex_state e = s_chunk_size \<and> chunked (ex_parser e) \<and> 0 \<le> content_length (ex_parser e) \<and>
     http_errno (ex_parser e) = HPE_OK"

lemma hex_digit_range: "is_hex c \<Longrightarrow> 0 \<le> hex_digit c \<and> hex_digit c \<le> 15"
  using unhex_range [of c] by (auto simp: is_hex_def hex_digit_def)

lemma huge_chunk: "v > drop_bit 4 (INT64_MAX - h) \<longleftrightarrow> 16 * v + h > (INT64_MAX :: int)"
  by (auto simp: drop_bit_eq_div)

lemma CR_not_hex: "\<not> is_hex CR"
  by (simp add: is_hex_def hex_digit_def unhex_def CR_def)

lemma chunk_digit:
  assumes "reading_chunk e" "is_hex (ex_ch e)"
  shows "16 * content_length (ex_parser e) + hex_digit (ex_ch e) \<le> INT64_MAX \<Longrightarrow> exec_switch S data e =
      Break (e\<lparr>ex_parser := (ex_parser e)\<lparr>content_length := content_length (ex_parser e) * 16 + hex_digit (ex_ch e)\<rparr>\<rparr>)"
    and "\<not> 16 * content_length (ex_parser e) + hex_digit (ex_ch e) \<le> INT64_MAX \<Longrightarrow>
      exec_switch S data e = fail_with HPE_HUGE_CHUNK_SIZE e"
proof -
  let ?v = "content_length (ex_parser e)" and ?h = "hex_digit (ex_ch e)"
  have h: "0 \<le> ?h" "?h \<le> 15" "unhex ! of_char (ex_ch e) = ?h" "?h \<noteq> -1" "ex_ch e \<noteq> CR"
    using hex_digit_range [OF assms(2)] assms(2) CR_not_hex by (auto simp: hex_digit_def is_hex_def)
  have e: "exec_switch S data e = case_chunk_size e" "has_flag F_CHUNKED (ex_parser e)" "0 \<le> ?v"
    using assms(1) by (simp_all add: exec_switch_def reading_chunk_def chunked_def)
  show "exec_switch S data e = Break (e\<lparr>ex_parser := (ex_parser e)\<lparr>content_length := ?v * 16 + ?h\<rparr>\<rparr>)"
    if "16 * ?v + ?h \<le> INT64_MAX"
  proof -
    have r: "- (2 ^ 63) \<le> ?v * 16" "?v * 16 \<le> INT64_MAX" "- (2 ^ 63) \<le> ?v * 16 + ?h" "?v * 16 + ?h \<le> INT64_MAX"
      using that h(1) e(3) by simp_all
    then show ?thesis
      using that h e by (simp add: case_chunk_size_def assert_chunked_def huge_chunk Let_def set_content_length_def
          set_parser_def)
  qed
  show "exec_switch S data e = fail_with HPE_HUGE_CHUNK_SIZE e" if "\<not> 16 * ?v + ?h \<le> INT64_MAX"
    using that h e by (simp add: case_chunk_size_def assert_chunked_def huge_chunk Let_def)
qed

lemma chunk_digits_exec:
  assumes "reading_chunk e" "list_all is_hex ds" "hex_fits (content_length (ex_parser e)) ds"
    "drop (ex_p e) data = ds @ d # rest"
  shows "exec_loop S data e = exec_loop S data (e\<lparr>ex_parser := (ex_parser e)\<lparr>content_length :=
      hex_from (content_length (ex_parser e)) ds\<rparr>, ex_p := ex_p e + length ds\<rparr>)"
  using assms
proof (induction ds arbitrary: e)
  case Nil
  then show ?case by simp
next
  case (Cons c ds)
  obtain d' r' where dr: "ds @ d # rest = d' # r'" by (cases ds) auto
  let ?v = "content_length (ex_parser e) * 16 + hex_digit c"
  let ?e1 = "e\<lparr>ex_parser := (ex_parser e)\<lparr>content_length := ?v\<rparr>, ex_p := ex_p e + 1\<rparr>"
  have "exec_switch S data (e\<lparr>ex_ch := c\<rparr>) = Break (e\<lparr>ex_ch := c, ex_parser := (ex_parser e)\<lparr>content_length := ?v\<rparr>\<rparr>)"
    using chunk_digit(1) [of "e\<lparr>ex_ch := c\<rparr>"] Cons.prems by (simp add: reading_chunk_def)
  from exec_loop_step [OF _ this, of d' r'] Cons.prems(4) dr
  have s: "exec_loop S data e = exec_loop S data ?e1" "drop (ex_p e + 1) data = ds @ d # rest"
    by (auto simp: ch_first)
  have "0 \<le> ?v" using Cons.prems(1,2) hex_digit_range [of c] by (simp add: reading_chunk_def)
  then show ?case
    using Cons.IH [of ?e1] Cons.prems s by (simp add: reading_chunk_def chunked_def)
qed

lemma hex_fits_bounded:
  "hex_fits v ds \<Longrightarrow> list_all is_hex ds \<Longrightarrow> 0 \<le> v \<Longrightarrow> v \<le> INT64_MAX \<Longrightarrow>
   0 \<le> hex_from v ds \<and> hex_from v ds \<le> INT64_MAX"
proof (induction ds arbitrary: v)
  case (Cons c ds)
  then show ?case
    using Cons.IH [of "v * 16 + hex_digit c"] hex_digit_range [of c] by (simp add: mult.commute)
qed simp

lemma huge_chunk_exec:
  assumes "reading_chunk e" "is_hex c" "\<not> 16 * content_length (ex_parser e) + hex_digit c \<le> INT64_MAX"
    "drop (ex_p e) data = c # rest"
  shows "exec_result (exec_loop S data e) = Inr (ex_p e,
    (ex_parser e)\<lparr>http_errno := HPE_HUGE_CHUNK_SIZE, p_state := s_chunk_size\<rparr>, ex_user e)"
proof -
  have p: "ex_p e < length data" "data ! ex_p e = c"
    using assms(4) by (metis drop_all list.distinct(1) not_less, metis nth_via_drop)
  have "exec_switch S data (e\<lparr>ex_ch := c\<rparr>) = fail_with HPE_HUGE_CHUNK_SIZE (e\<lparr>ex_ch := c\<rparr>)"
    using chunk_digit(2) [of "e\<lparr>ex_ch := c\<rparr>"] assms by (simp add: reading_chunk_def)
  then show ?thesis
    using p assms(1)
    by (simp add: exec_loop.simps [of S data e] exec_byte.simps fail_with_def exec_error_def exec_update_defs
        reading_chunk_def)
qed

section \<open>Properties\<close>

text \<open>The hexadecimal digits of a chunk header give the size of the chunk exactly as long as it fits a
  signed 64-bit number, and the first digit with which it does not fit stops the parser with
  \<^verbatim>\<open>HPE_HUGE_CHUNK_SIZE\<close> at that byte: no size wraps around.\<close>

theorem chunk_size_digits:
  assumes "reading_chunk e" "content_length (ex_parser e) \<le> INT64_MAX" "list_all is_hex ds"
    "hex_fits (content_length (ex_parser e)) ds" "drop (ex_p e) data = ds @ d # rest"
  defines "v \<equiv> hex_from (content_length (ex_parser e)) ds"
  defines "e' \<equiv> e\<lparr>ex_parser := (ex_parser e)\<lparr>content_length := v\<rparr>, ex_p := ex_p e + length ds\<rparr>"
  shows "exec_loop S data e = exec_loop S data e' \<and> 0 \<le> v \<and> v \<le> INT64_MAX \<and>
    (is_hex d \<and> 16 * v + hex_digit d > INT64_MAX \<longrightarrow>
      exec_result (exec_loop S data e) = Inr (ex_p e + length ds,
        (ex_parser e')\<lparr>http_errno := HPE_HUGE_CHUNK_SIZE, p_state := s_chunk_size\<rparr>, ex_user e))"
proof -
  have l: "exec_loop S data e = exec_loop S data e'"
    using chunk_digits_exec [OF assms(1,3,4,5)] by (simp add: e'_def v_def)
  have v: "0 \<le> v" "v \<le> INT64_MAX"
    using hex_fits_bounded [OF assms(4,3)] assms(1,2) by (simp_all add: v_def reading_chunk_def)
  have "reading_chunk e'" "drop (ex_p e') data = d # rest"
    using assms(1,5) v by (simp_all add: reading_chunk_def chunked_def e'_def add.commute [of "ex_p e"] flip: drop_drop)
  from huge_chunk_exec [OF this(1) _ _ this(2), of S] show ?thesis
    using l v by (simp add: e'_def)
qed

theorem chunk_size_digits_witness:
  "exec_loop request_settings (''1f'' @ [CR])
     ((exec_init (blank_parser\<lparr>flags := F_CHUNKED\<rparr>) sample_request)\<lparr>ex_state := s_chunk_size\<rparr>) =
   exec_loop request_settings (''1f'' @ [CR])
     ((exec_init (blank_parser\<lparr>flags := F_CHUNKED\<rparr>) sample_request)\<lparr>ex_state := s_chunk_size,
       ex_parser := blank_parser\<lparr>flags := F_CHUNKED, content_length := 31\<rparr>, ex_p := 2\<rparr>)"
proof -
  let ?q = "blank_parser\<lparr>flags := F_CHUNKED\<rparr>"
  let ?e = "(exec_init ?q sample_request)\<lparr>ex_state := s_chunk_size\<rparr>"
  have h: "reading_chunk ?e" "content_length (ex_parser ?e) \<le> INT64_MAX" "list_all is_hex ''1f''"
    "hex_fits (content_length (ex_parser ?e)) ''1f''" "drop (ex_p ?e) (''1f'' @ [CR]) = ''1f'' @ CR # []"
    by (simp_all add: reading_chunk_def chunked_def has_flag_def F_CHUNKED_def exec_init_def blank_parser_def is_hex_def hex_digit_def
        unhex_def INT64_MAX_def)
  have n: "hex_from (content_length ?q) ''1f'' = 31" "ex_p ?e + length ''1f'' = 2" "ex_parser ?e = ?q"
    by (simp_all add: exec_init_def blank_parser_def hex_digit_def unhex_def)
  show ?thesis
    using chunk_size_digits [OF h, of request_settings] unfolding n(2,3) unfolding n(1) by simp
qed

text \<open>A byte from 0x80 on counts as the hexadecimal digit 0 at the start of a chunk size, where every
  other byte that is no digit is an error: the table has only 128 of its 256 entries written out.\<close>

theorem high_byte_chunk_size:
  assumes "ex_state e = s_chunk_size_start" "chunked (ex_parser e)" "128 \<le> (of_char (ex_ch e) :: nat)"
  shows "exec_switch S data e = Break (e\<lparr>ex_parser := (ex_parser e)\<lparr>content_length := 0\<rparr>, ex_state := s_chunk_size\<rparr>)"
proof -
  obtain xs where xs: "unhex = xs @ replicate 128 0" "length xs = 128"
  proof
    show "unhex = take 128 unhex @ replicate 128 0" "length (take 128 unhex) = 128"
      by (simp_all add: unhex_def)
  qed
  have "of_char (ex_ch e) < (256 :: nat)" by simp
  then have "of_char (ex_ch e) - 128 < (128 :: nat)" using assms(3) by linarith
  then have "unhex ! of_char (ex_ch e) = 0"
    using assms(3) unfolding xs by (simp add: nth_append xs(2))
  then show ?thesis
    using assms(1,2) by (simp add: exec_switch_def case_chunk_size_start_def assert_chunked_def chunked_def
        set_content_length_def set_parser_def set_state_def INT64_MAX_def)
qed

theorem high_byte_chunk_size_witness:
  "exec_switch request_settings [CHR 0xC3]
     ((exec_init (blank_parser\<lparr>flags := F_CHUNKED\<rparr>) sample_request)\<lparr>ex_state := s_chunk_size_start, ex_ch := CHR 0xC3\<rparr>) =
   Break ((exec_init (blank_parser\<lparr>flags := F_CHUNKED\<rparr>) sample_request)\<lparr>ex_state := s_chunk_size_start, ex_ch := CHR 0xC3,
     ex_parser := blank_parser\<lparr>flags := F_CHUNKED, content_length := 0\<rparr>, ex_state := s_chunk_size\<rparr>)"
  by (subst high_byte_chunk_size)
    (simp_all add: exec_init_def chunked_def has_flag_def F_CHUNKED_def)

text \<open>Callbacks that record the pieces of header values they get.\<close>

definition recorder :: "byte list list http_parser_settings" where
  "recorder = \<lparr>on_message_begin = (\<lambda>q u. (0, q, u)), on_url = (\<lambda>q u x. (0, q, u)), on_header_field = (\<lambda>q u x. (0, q, u)),
     on_header_value = (\<lambda>q u x. (0, q, u @ [x])), on_headers_complete = (\<lambda>q u n. (0, q, u)),
     on_body = (\<lambda>q u x. (0, q, u)), on_message_complete = (\<lambda>q u. (0, q, u)), on_reason = (\<lambda>q u x. (0, q, u)),
     on_chunk_header = (\<lambda>q u. (0, q, u)), on_chunk_complete = (\<lambda>q u. (0, q, u))\<rparr>"

definition pieces :: "(nat \<times> http_parser \<times> byte list list) result \<Rightarrow> byte list list option" where
  "pieces r = (case r of Inl x \<Rightarrow> None | Inr (n, q, u) \<Rightarrow> Some u)"

text \<open>What follows a carriage return inside a header value is lost, unless the input happens to be cut
  there: the parser resumes the value without setting the mark from which the callback would be called,
  so what the callbacks get depends on how the bytes are split over calls.\<close>

theorem bare_CR_split:
  "pieces (http_parser_execute recorder (''bc'' @ [CR]) (blank_parser\<lparr>p_state := s_header_almost_done\<rparr>) []) =
     Some ['' ''] \<and>
   pieces (ebind (http_parser_execute recorder ''b'' (blank_parser\<lparr>p_state := s_header_almost_done\<rparr>) [])
     (\<lambda>(n, q, u). http_parser_execute recorder (''c'' @ [CR]) q u)) = Some ['' '', ''c'']"
proof -
  have "initial_marks s_header_almost_done = (\<lambda>_. None)" "initial_marks s_header_value = [FOR_header_value \<mapsto> 0]"
    by (auto simp: initial_marks_def split: data_for.split)
  then show ?thesis
    by (simp add: pieces_def recorder_def http_parser_execute_def exec_init_def exec_loop.simps exec_byte.simps exec_switch_def
      blank_parser_def case_header_almost_done_def CALLBACK_SPACE_def Let_def store_state_def set_parser_def
      set_state_def SPACE_def CR_def LF_def QT_def IS_HEADER_CHAR_def fast_forward_value_def
      HTTP_MAX_HEADER_SIZE_def PARSING_HEADER_def case_header_value.simps CALLBACK_DATA_def callback_data_def exec_finish_def
      exec_leftover_def set_marks_def CALLBACK_DATA_NOADVANCE_def RETURN_def exec_result_def range_of_def)
qed

end
