(* ===== verification/Fd_Channel.thy ===== *)
theory Fd_Channel
  imports Prelude
begin

text \<open>
  \<^verbatim>\<open>eventpp::FdChannel\<close> (include/eventpp/fd_channel.hpp, src/fd_channel.cpp): the registration of
  one descriptor with the event base. The state keeps the flag \<open>attached\<close>, the set of events the
  owner asked for and the libevent structure, with what the event base knows of it; \<open>chan_sync\<close>
  says that the three agree, and every operation keeps it.
\<close>

section \<open>State\<close>

definition EV_READ :: "16 word" where "EV_READ = 0x02"
definition EV_WRITE :: "16 word" where "EV_WRITE = 0x04"
definition EV_PERSIST :: "16 word" where "EV_PERSIST = 0x10"

definition kNone :: "16 word" where "kNone = 0"
definition kReadable :: "16 word" where "kReadable = EV_READ"
definition kWritable :: "16 word" where "kWritable = EV_WRITE"

text \<open>Of \<^verbatim>\<open>struct event\<close> the model keeps the events it was assigned and whether the event base
  holds it. Callbacks are std::function objects; the channel only tests whether they are set.\<close>

record event =
  ev_events :: "16 word"
  ev_added :: bool

record FdChannel =
  attached :: bool
  ch_event :: "event option"
  events :: "16 word"
  ch_fd :: int
  read_fn :: bool
  write_fn :: bool

text \<open>What the channel relies on outside the library: the thread it runs on and the results of
  \<^verbatim>\<open>event_add\<close> and \<^verbatim>\<open>event_del\<close>, which are 0 on success.\<close>

record loop_env =
  in_loop_thread :: bool
  event_add :: "int \<Rightarrow> 16 word \<Rightarrow> int"
  event_del :: "int \<Rightarrow> int"

definition libevent_ok :: "loop_env \<Rightarrow> bool" where
  "libevent_ok env \<longleftrightarrow> in_loop_thread env \<and>
     (\<forall>f ev. event_add env f ev = 0) \<and> (\<forall>f. event_del env f = 0)"

section \<open>Operations\<close>

definition FdChannel_new :: "int \<Rightarrow> bool \<Rightarrow> bool \<Rightarrow> FdChannel result" where
  "FdChannel_new f r w = asserting (f > 0)
     (Inr \<lparr>attached = False, ch_event = Some \<lparr>ev_events = 0, ev_added = False\<rparr>,
           events = (if r then kReadable else kNone) OR (if w then kWritable else kNone),
           ch_fd = f, read_fn = False, write_fn = False\<rparr>)"

definition IsReadable :: "FdChannel \<Rightarrow> bool" where
  "IsReadable c \<longleftrightarrow> events c AND kReadable \<noteq> 0"

definition IsWritable :: "FdChannel \<Rightarrow> bool" where
  "IsWritable c \<longleftrightarrow> events c AND kWritable \<noteq> 0"

definition IsNoneEvent :: "FdChannel \<Rightarrow> bool" where
  "IsNoneEvent c \<longleftrightarrow> events c = kNone"

definition SetReadCallback :: "FdChannel \<Rightarrow> FdChannel" where
  "SetReadCallback c = c\<lparr>read_fn := True\<rparr>"

definition SetWriteCallback :: "FdChannel \<Rightarrow> FdChannel" where
  "SetWriteCallback c = c\<lparr>write_fn := True\<rparr>"

definition FdChannel_delete :: "FdChannel \<Rightarrow> unit result" where
  "FdChannel_delete c = asserting (ch_event c = None) (Inr ())"

definition FdChannel_Close :: "FdChannel \<Rightarrow> FdChannel result" where
  "FdChannel_Close c =
     asserting (ch_event c \<noteq> None) (
     ebind (asserting (\<not> attached c) (Inr (c\<lparr>ch_event := None\<rparr>))) (\<lambda>c1.
       Inr (c1\<lparr>read_fn := False, write_fn := False\<rparr>)))"

definition DetachFromLoop :: "loop_env \<Rightarrow> FdChannel \<Rightarrow> FdChannel result" where
  "DetachFromLoop env c =
     asserting (in_loop_thread env) (asserting (attached c) (
     case ch_event c of
       None \<Rightarrow> Inl NullPointer
     | Some e \<Rightarrow>
         if event_del env (ch_fd c) = 0
         then Inr (c\<lparr>ch_event := Some (e\<lparr>ev_added := False\<rparr>), attached := False\<rparr>)
         else Inr c))"

definition event_assign :: "FdChannel \<Rightarrow> FdChannel result" where
  "event_assign c =
     (case ch_event c of
        None \<Rightarrow> Inl NullPointer
      | Some e \<Rightarrow> Inr (c\<lparr>ch_event := Some \<lparr>ev_events = events c OR EV_PERSIST, ev_added = False\<rparr>\<rparr>))"

definition AttachToLoop :: "loop_env \<Rightarrow> FdChannel \<Rightarrow> FdChannel result" where
  "AttachToLoop env c =
     asserting (\<not> IsNoneEvent c) (asserting (in_loop_thread env) (
     ebind (if attached c then DetachFromLoop env c else Inr c) (\<lambda>c1.
     asserting (\<not> attached c1) (
     ebind (event_assign c1) (\<lambda>c2.
       if event_add env (ch_fd c2) (events c2 OR EV_PERSIST) = 0
       then Inr (c2\<lparr>ch_event := map_option (\<lambda>e. e\<lparr>ev_added := True\<rparr>) (ch_event c2), attached := True\<rparr>)
       else Inr c2)))))"

definition FdChannel_Update :: "loop_env \<Rightarrow> FdChannel \<Rightarrow> FdChannel result" where
  "FdChannel_Update env c =
     asserting (in_loop_thread env)
       (if IsNoneEvent c then DetachFromLoop env c else AttachToLoop env c)"

definition set_events :: "loop_env \<Rightarrow> 16 word \<Rightarrow> FdChannel \<Rightarrow> FdChannel result" where
  "set_events env ev c =
     (let c1 = c\<lparr>events := ev\<rparr> in if events c1 \<noteq> events c then FdChannel_Update env c1 else Inr c1)"

definition EnableReadEvent :: "loop_env \<Rightarrow> FdChannel \<Rightarrow> FdChannel result" where
  "EnableReadEvent env c = set_events env (events c OR kReadable) c"

definition EnableWriteEvent :: "loop_env \<Rightarrow> FdChannel \<Rightarrow> FdChannel result" where
  "EnableWriteEvent env c = set_events env (events c OR kWritable) c"

definition DisableReadEvent :: "loop_env \<Rightarrow> FdChannel \<Rightarrow> FdChannel result" where
  "DisableReadEvent env c = set_events env (events c AND NOT kReadable) c"

definition DisableWriteEvent :: "loop_env \<Rightarrow> FdChannel \<Rightarrow> FdChannel result" where
  "DisableWriteEvent env c = set_events env (events c AND NOT kWritable) c"

definition DisableAllEvent :: "loop_env \<Rightarrow> FdChannel \<Rightarrow> FdChannel result" where
  "DisableAllEvent env c =
     (if events c = kNone then Inr c else FdChannel_Update env (c\<lparr>events := kNone\<rparr>))"

definition EventsToString :: "FdChannel \<Rightarrow> string" where
  "EventsToString c =
     (let s = (if events c AND kReadable \<noteq> 0 then ''kReadable'' else '''') in
      if events c AND kWritable \<noteq> 0 then (if s \<noteq> '''' then s @ ''|'' else s) @ ''kWritable'' else s)"

text \<open>\<^verbatim>\<open>HandleEvent\<close> runs inside an owner whose state \<open>'s\<close> holds the channel; the two callbacks act
  on that state, so the write callback is looked up after the read callback has run.\<close>

definition HandleEvent ::
  "('s \<Rightarrow> FdChannel) \<Rightarrow> ('s \<Rightarrow> 's result) \<Rightarrow> ('s \<Rightarrow> 's result) \<Rightarrow> int \<Rightarrow> 16 word \<Rightarrow> 's \<Rightarrow> 's result" where
  "HandleEvent chan rd wr sockfd which s =
     asserting (sockfd = ch_fd (chan s)) (
     ebind (if which AND kReadable \<noteq> 0 \<and> read_fn (chan s) then rd s else Inr s) (\<lambda>s1.
       if which AND kWritable \<noteq> 0 \<and> write_fn (chan s1) then wr s1 else Inr s1))"

section \<open>The flag, the request and the event base agree\<close>

definition watched :: "FdChannel \<Rightarrow> 16 word option" where
  "watched c = (case ch_event c of None \<Rightarrow> None | Some e \<Rightarrow> if ev_added e then Some (ev_events e) else None)"

definition chan_sync :: "FdChannel \<Rightarrow> bool" where
  "chan_sync c \<longleftrightarrow> ch_event c \<noteq> None \<and> (attached c \<longleftrightarrow> events c \<noteq> kNone) \<and>
     watched c = (if attached c then Some (events c OR EV_PERSIST) else None)"

definition chan_closed :: "FdChannel \<Rightarrow> bool" where
  "chan_closed c \<longleftrightarrow> ch_event c = None \<and> \<not> attached c \<and> events c = kNone \<and> \<not> read_fn c \<and> \<not> write_fn c"

lemmas chan_consts = kNone_def kReadable_def kWritable_def EV_READ_def EV_WRITE_def EV_PERSIST_def

lemma set_events_sync:
  assumes "chan_sync c" "libevent_ok env"
  shows "\<exists>c'. set_events env ev c = Inr c' \<and> chan_sync c' \<and> events c' = ev \<and> ch_fd c' = ch_fd c \<and>
    read_fn c' = read_fn c \<and> write_fn c' = write_fn c"
  using assms
  by (auto simp: chan_sync_def libevent_ok_def set_events_def Let_def FdChannel_Update_def IsNoneEvent_def
      DetachFromLoop_def AttachToLoop_def event_assign_def watched_def split: if_splits)

lemma channel_bits: "kReadable = 2 ^ 1" "kWritable = 2 ^ 2"
  by (simp_all add: chan_consts)

lemma bit_channel [simp]: "bit kReadable n \<longleftrightarrow> n = 1" "bit kWritable n \<longleftrightarrow> n = 2"
  unfolding channel_bits bit_exp_iff possible_bit_word by auto

lemma IsReadable_bit: "IsReadable c \<longleftrightarrow> bit (events c) 1"
  unfolding IsReadable_def channel_bits by (simp only: and_exp_eq_0_iff_not_bit not_not)

lemma IsWritable_bit: "IsWritable c \<longleftrightarrow> bit (events c) 2"
  unfolding IsWritable_def channel_bits by (simp only: and_exp_eq_0_iff_not_bit not_not)

lemma bit_switch [simp]:
  "bit (x OR kReadable) n \<longleftrightarrow> n = 1 \<or> bit x n" "bit (x OR kWritable) n \<longleftrightarrow> n = 2 \<or> bit x n"
  "bit (x AND NOT kReadable) n \<longleftrightarrow> n \<noteq> 1 \<and> bit x n" "bit (x AND NOT kWritable) n \<longleftrightarrow> n \<noteq> 2 \<and> bit x n"
  using bit_imp_le_length [of x n] by (auto simp: bit_simps)

lemma bit_kNone [simp]: "\<not> bit kNone n"
  by (simp add: kNone_def)

text \<open>The five switches and the closing of a channel in sync.\<close>

definition same_ends :: "FdChannel \<Rightarrow> FdChannel \<Rightarrow> bool" where
  "same_ends c c' \<longleftrightarrow> ch_fd c' = ch_fd c \<and> read_fn c' = read_fn c \<and> write_fn c' = write_fn c"

lemma switch_sync:
  assumes "chan_sync c" "libevent_ok env"
  shows "\<exists>c'. EnableReadEvent env c = Inr c' \<and> chan_sync c' \<and> events c' = events c OR kReadable \<and> same_ends c c'"
    and "\<exists>c'. EnableWriteEvent env c = Inr c' \<and> chan_sync c' \<and> events c' = events c OR kWritable \<and> same_ends c c'"
    and "\<exists>c'. DisableReadEvent env c = Inr c' \<and> chan_sync c' \<and> events c' = events c AND NOT kReadable \<and> same_ends c c'"
    and "\<exists>c'. DisableWriteEvent env c = Inr c' \<and> chan_sync c' \<and> events c' = events c AND NOT kWritable \<and> same_ends c c'"
    and "\<exists>c'. DisableAllEvent env c = Inr c' \<and> chan_sync c' \<and> events c' = kNone \<and> same_ends c c'"
proof -
  have all: "DisableAllEvent env c = set_events env kNone c"
    by (simp add: DisableAllEvent_def set_events_def Let_def)
  show "\<exists>c'. EnableReadEvent env c = Inr c' \<and> chan_sync c' \<and> events c' = events c OR kReadable \<and> same_ends c c'"
    and "\<exists>c'. EnableWriteEvent env c = Inr c' \<and> chan_sync c' \<and> events c' = events c OR kWritable \<and> same_ends c c'"
    and "\<exists>c'. DisableReadEvent env c = Inr c' \<and> chan_sync c' \<and> events c' = events c AND NOT kReadable \<and> same_ends c c'"
    and "\<exists>c'. DisableWriteEvent env c = Inr c' \<and> chan_sync c' \<and> events c' = events c AND NOT kWritable \<and> same_ends c c'"
    and "\<exists>c'. DisableAllEvent env c = Inr c' \<and> chan_sync c' \<and> events c' = kNone \<and> same_ends c c'"
    using set_events_sync [OF assms]
    by (auto simp: all EnableReadEvent_def EnableWriteEvent_def DisableReadEvent_def DisableWriteEvent_def
        same_ends_def)
qed

lemma FdChannel_Close_sync:
  assumes "chan_sync c" "events c = kNone"
  shows "\<exists>c'. FdChannel_Close c = Inr c' \<and> chan_closed c' \<and> ch_fd c' = ch_fd c"
  using assms by (auto simp: FdChannel_Close_def chan_sync_def chan_closed_def)

section \<open>What the event base watches\<close>

text \<open>The abstract channel is the pair of what the owner wants to be told of. A sequence of calls
  on the real channel acts as the same sequence on the pair.\<close>

datatype chan_op = OpEnableRead | OpEnableWrite | OpDisableRead | OpDisableWrite | OpDisableAll

fun chan_apply :: "loop_env \<Rightarrow> chan_op \<Rightarrow> FdChannel \<Rightarrow> FdChannel result" where
  "chan_apply env OpEnableRead c = EnableReadEvent env c"
| "chan_apply env OpEnableWrite c = EnableWriteEvent env c"
| "chan_apply env OpDisableRead c = DisableReadEvent env c"
| "chan_apply env OpDisableWrite c = DisableWriteEvent env c"
| "chan_apply env OpDisableAll c = DisableAllEvent env c"

fun chan_run :: "loop_env \<Rightarrow> chan_op list \<Rightarrow> FdChannel \<Rightarrow> FdChannel result" where
  "chan_run env [] c = Inr c"
| "chan_run env (op # ops) c = ebind (chan_apply env op c) (chan_run env ops)"

fun want :: "chan_op \<Rightarrow> bool \<times> bool \<Rightarrow> bool \<times> bool" where
  "want OpEnableRead (r, w) = (True, w)"
| "want OpEnableWrite (r, w) = (r, True)"
| "want OpDisableRead (r, w) = (False, w)"
| "want OpDisableWrite (r, w) = (r, False)"
| "want OpDisableAll (r, w) = (False, False)"

definition wanted_events :: "bool \<times> bool \<Rightarrow> 16 word" where
  "wanted_events p = (if fst p then kReadable else kNone) OR (if snd p then kWritable else kNone)"

lemma want_events:
  "wanted_events (want OpEnableRead p) = wanted_events p OR kReadable"
  "wanted_events (want OpEnableWrite p) = wanted_events p OR kWritable"
  "wanted_events (want OpDisableRead p) = wanted_events p AND NOT kReadable"
  "wanted_events (want OpDisableWrite p) = wanted_events p AND NOT kWritable"
  "wanted_events (want OpDisableAll p) = kNone"
  by (cases p; simp add: wanted_events_def chan_consts)+

lemma chan_apply_want:
  assumes "chan_sync c" "events c = wanted_events p" "libevent_ok env"
  shows "\<exists>c'. chan_apply env op c = Inr c' \<and> chan_sync c' \<and> events c' = wanted_events (want op p)"
  using switch_sync [OF assms(1,3)] assms(2) by (cases op) (force simp: want_events)+

lemma chan_run_want:
  assumes "chan_sync c" "events c = wanted_events p" "libevent_ok env"
  shows "\<exists>c'. chan_run env ops c = Inr c' \<and> chan_sync c' \<and> events c' = wanted_events (fold want ops p)"
  using assms
proof (induction ops arbitrary: c p)
  case (Cons op ops)
  obtain c1 where "chan_apply env op c = Inr c1" "chan_sync c1" "events c1 = wanted_events (want op p)"
    using chan_apply_want [OF Cons.prems] by blast
  then show ?case using Cons.IH [of c1 "want op p"] Cons.prems(3) by simp
qed simp

definition good_env :: loop_env where
  "good_env = \<lparr>in_loop_thread = True, event_add = (\<lambda>_ _. 0), event_del = (\<lambda>_. 0)\<rparr>"

lemma good_env_ok [simp]: "libevent_ok good_env"
  by (simp add: libevent_ok_def good_env_def)



end
