(* ===== verification/Tcp_Conn.thy ===== *)
theory Tcp_Conn
  imports Buffer Fd_Channel
begin

text \<open>
  \<^verbatim>\<open>eventpp::TCPConn\<close> (include/eventpp/tcp/tcp_conn.hpp, src/tcp/tcp_conn.cpp): the state machine of
  one TCP connection, its two buffers and its channel. Each method is a definition with the early
  returns, assertions and the order of callbacks of the source. The application's callbacks are a
  parameter \<open>user\<close> that acts on the connection; \<open>user_at\<close> is that parameter for a program written in
  terms of the public methods, with the nesting of callbacks bounded. The kernel's answers to
  \<^verbatim>\<open>send\<close> are listed in the state, those of \<^verbatim>\<open>readv\<close> are an argument.
\<close>

section \<open>State\<close>

datatype conn_type = kIncoming | kOutgoing

datatype conn_status = kDisconnected | kConnecting | kConnected | kDisconnecting

text \<open>The callbacks: \<open>ConnFn\<close> is \<^verbatim>\<open>conn_fn_\<close>, \<open>MsgFn\<close> is \<^verbatim>\<open>msg_fn_\<close>, \<open>CloseFn\<close> is \<^verbatim>\<open>close_fn_\<close>,
  \<open>WriteCompleteFn\<close> is \<^verbatim>\<open>write_complete_fn_\<close> and \<open>HighWaterMarkFn\<close> is \<^verbatim>\<open>high_water_mark_fn_\<close> with
  the queue length it is told.\<close>

datatype callback = ConnFn | MsgFn | CloseFn | WriteCompleteFn | HighWaterMarkFn size_t

text \<open>The functors a connection hands to \<^verbatim>\<open>loop_->QueueInLoop\<close>.\<close>

datatype conn_task = TaskClose | TaskSend "byte list" | TaskCall callback

text \<open>The fields are those of the class. \<open>delay_close_timer\<close> tells whether the timer is set. The
  last six fields are the environment of the connection: the functors queued in the loop, the
  callbacks made so far, the kernel's future answers to \<^verbatim>\<open>send\<close> (an errno, or how many bytes it has
  room for), the variable \<^verbatim>\<open>errno\<close>, the bytes the kernel has taken, and the bytes \<^verbatim>\<open>SendInLoop\<close> has accepted.\<close>

record TCPConn =
  tc_fd :: int
  tc_id :: "64 word"
  tc_name :: string
  local_addr :: string
  remote_addr :: string
  tc_chan :: "FdChannel option"
  input_buffer :: buffer
  output_buffer :: buffer
  tc_type :: conn_type
  tc_status :: conn_status
  high_water_mark :: size_t
  close_delay :: int
  delay_close_timer :: bool
  conn_fn :: bool
  msg_fn :: bool
  write_complete_fn :: bool
  high_water_mark_fn :: bool
  close_fn :: bool
  tasks :: "conn_task list"
  calls :: "callback list"
  send_results :: "(int + nat) list"
  errno :: int
  wire :: "byte list"
  accepted :: "byte list"

type_synonym user_code = "callback \<Rightarrow> TCPConn \<Rightarrow> TCPConn result"

definition EPIPE :: int where "EPIPE = 32"
definition ECONNRESET :: int where "ECONNRESET = 104"
definition EAGAIN :: int where "EAGAIN = 11"
definition EINTR :: int where "EINTR = 4"

text \<open>libevent's \<^verbatim>\<open>EVUTIL_ERR_RW_RETRIABLE\<close> on Linux.\<close>

definition EVUTIL_ERR_RW_RETRIABLE :: "int \<Rightarrow> bool" where
  "EVUTIL_ERR_RW_RETRIABLE e \<longleftrightarrow> e = EINTR \<or> e = EAGAIN"

text \<open>\<^verbatim>\<open>::send\<close> on the non-blocking socket takes a prefix of the data or fails.\<close>

definition sys_send :: "byte list \<Rightarrow> TCPConn \<Rightarrow> (int + nat) \<times> TCPConn" where
  "sys_send d c =
     (case send_results c of
        [] \<Rightarrow> (Inl EAGAIN, c\<lparr>errno := EAGAIN\<rparr>)
      | Inl e # rs \<Rightarrow> (Inl e, c\<lparr>send_results := rs, errno := e\<rparr>)
      | Inr k # rs \<Rightarrow> (Inr (min k (length d)), c\<lparr>send_results := rs, wire := wire c @ take k d\<rparr>))"

definition QueueTask :: "conn_task \<Rightarrow> TCPConn \<Rightarrow> TCPConn" where
  "QueueTask t c = c\<lparr>tasks := tasks c @ [t]\<rparr>"

text \<open>\<^verbatim>\<open>chan_->\<close>: the channel is null when the connection was made from an invalid descriptor.\<close>

definition with_chan :: "TCPConn \<Rightarrow> (FdChannel \<Rightarrow> 'a result) \<Rightarrow> 'a result" where
  "with_chan c f = (case tc_chan c of None \<Rightarrow> Inl NullPointer | Some ch \<Rightarrow> f ch)"

text \<open>A callback is recorded and then runs.\<close>

definition invoke :: "user_code \<Rightarrow> callback \<Rightarrow> TCPConn \<Rightarrow> TCPConn result" where
  "invoke user f c = user f (c\<lparr>calls := calls c @ [f]\<rparr>)"

section \<open>Construction and configuration\<close>

definition TCPConn_new ::
  "string \<Rightarrow> int \<Rightarrow> string \<Rightarrow> string \<Rightarrow> 64 word \<Rightarrow> (int + nat) list \<Rightarrow> TCPConn result" where
  "TCPConn_new n sockfd laddr raddr conn_id answers =
     ebind (if sockfd \<ge> 0
            then ebind (FdChannel_new sockfd False False) (\<lambda>ch. Inr (Some (SetWriteCallback (SetReadCallback ch))))
            else Inr None) (\<lambda>ch.
     ebind (Buffer_new kInitialSize kCheapPrependSize) (\<lambda>ib.
     ebind (Buffer_new kInitialSize kCheapPrependSize) (\<lambda>ob.
       Inr \<lparr>tc_fd = sockfd, tc_id = conn_id, tc_name = n, local_addr = laddr, remote_addr = raddr,
            tc_chan = ch, input_buffer = ib, output_buffer = ob,
            tc_type = kIncoming, tc_status = kDisconnected, high_water_mark = 128 * 1024 * 1024,
            close_delay = 0, delay_close_timer = False, conn_fn = False, msg_fn = False,
            write_complete_fn = False, high_water_mark_fn = False, close_fn = False, tasks = [],
            calls = [], send_results = answers, errno = 0, wire = [], accepted = []\<rparr>)))"

definition set_type :: "conn_type \<Rightarrow> TCPConn \<Rightarrow> TCPConn" where
  "set_type t c = c\<lparr>tc_type := t\<rparr>"

definition SetMessageCallback :: "TCPConn \<Rightarrow> TCPConn" where
  "SetMessageCallback c = c\<lparr>msg_fn := True\<rparr>"

definition SetConnectionCallback :: "TCPConn \<Rightarrow> TCPConn" where
  "SetConnectionCallback c = c\<lparr>conn_fn := True\<rparr>"

definition SetCloseCallback :: "TCPConn \<Rightarrow> TCPConn" where
  "SetCloseCallback c = c\<lparr>close_fn := True\<rparr>"

definition SetWriteCompleteCallback :: "TCPConn \<Rightarrow> TCPConn" where
  "SetWriteCompleteCallback c = c\<lparr>write_complete_fn := True\<rparr>"

definition SetHighWaterMarkCallback :: "size_t \<Rightarrow> TCPConn \<Rightarrow> TCPConn" where
  "SetHighWaterMarkCallback mark c = c\<lparr>high_water_mark_fn := True, high_water_mark := mark\<rparr>"

definition SetCloseDelayTime :: "int \<Rightarrow> TCPConn \<Rightarrow> TCPConn result" where
  "SetCloseDelayTime d c = asserting (tc_type c = kIncoming) (Inr (c\<lparr>close_delay := d\<rparr>))"

definition ReserveInputBuffer :: "size_t \<Rightarrow> TCPConn \<Rightarrow> TCPConn result" where
  "ReserveInputBuffer len c = ebind (Buffer_Reserve len (input_buffer c)) (\<lambda>b. Inr (c\<lparr>input_buffer := b\<rparr>))"

definition ReserveOutputBuffer :: "size_t \<Rightarrow> TCPConn \<Rightarrow> TCPConn result" where
  "ReserveOutputBuffer len c = ebind (Buffer_Reserve len (output_buffer c)) (\<lambda>b. Inr (c\<lparr>output_buffer := b\<rparr>))"

definition AddrToString :: "TCPConn \<Rightarrow> string" where
  "AddrToString c =
     (if tc_type c = kIncoming then ''('' @ remote_addr c @ ''->'' @ local_addr c @ ''(local))''
      else ''('' @ local_addr c @ ''(local)->'' @ remote_addr c @ '')'')"

definition StatusToString :: "TCPConn \<Rightarrow> string" where
  "StatusToString c =
     (case tc_status c of kDisconnected \<Rightarrow> ''kDisconnected'' | kConnecting \<Rightarrow> ''kConnecting''
      | kConnected \<Rightarrow> ''kConnected'' | kDisconnecting \<Rightarrow> ''kDisconnecting'')"

text \<open>The destructor closes the socket. It only runs when no one holds the connection any more.\<close>

definition TCPConn_delete :: "TCPConn \<Rightarrow> unit result" where
  "TCPConn_delete c =
     asserting (tc_status c = kDisconnected) (
     ebind (if tc_fd c \<ge> 0 then
              asserting (tc_chan c \<noteq> None) (with_chan c (\<lambda>ch.
              asserting (tc_fd c = ch_fd ch) (asserting (IsNoneEvent ch) (Inr ()))))
            else Inr ()) (\<lambda>_.
     asserting (\<not> delay_close_timer c)
       (case tc_chan c of None \<Rightarrow> Inr () | Some ch \<Rightarrow> FdChannel_delete ch)))"

section \<open>Closing\<close>

definition TCPConn_Close :: "TCPConn \<Rightarrow> TCPConn" where
  "TCPConn_Close c = QueueTask TaskClose (c\<lparr>tc_status := kDisconnecting\<rparr>)"

definition HandleClose :: "user_code \<Rightarrow> loop_env \<Rightarrow> TCPConn \<Rightarrow> TCPConn result" where
  "HandleClose user env c =
     (if tc_status c = kDisconnected then Inr c
      else
        asserting (tc_status c = kDisconnecting) (asserting (in_loop_thread env) (
        ebind (with_chan c (DisableAllEvent env)) (\<lambda>ch1.
        ebind (FdChannel_Close ch1) (\<lambda>ch2.
        let c1 = c\<lparr>tc_chan := Some ch2, delay_close_timer := False\<rparr> in
        ebind (if conn_fn c1 then asserting (tc_status c1 = kDisconnecting) (invoke user ConnFn c1)
               else Inr c1) (\<lambda>c2.
        ebind (if close_fn c2 then invoke user CloseFn c2 else Inr c2) (\<lambda>c3.
          Inr (c3\<lparr>tc_status := kDisconnected\<rparr>))))))))"

definition HandleError :: "user_code \<Rightarrow> loop_env \<Rightarrow> TCPConn \<Rightarrow> TCPConn result" where
  "HandleError user env c = HandleClose user env (c\<lparr>tc_status := kDisconnecting\<rparr>)"

definition DelayClose :: "user_code \<Rightarrow> loop_env \<Rightarrow> TCPConn \<Rightarrow> TCPConn result" where
  "DelayClose user env c =
     asserting (in_loop_thread env)
       (HandleClose user env (c\<lparr>tc_status := kDisconnecting, delay_close_timer := False\<rparr>))"

section \<open>Sending\<close>

definition queue_rest :: "loop_env \<Rightarrow> byte list \<Rightarrow> TCPConn \<Rightarrow> TCPConn result" where
  "queue_rest env rest c =
     (if rest = [] then Inr c
      else
        ebind (Buffer_length (output_buffer c)) (\<lambda>old_len.
        let remaining = of_nat (length rest);
            c1 = (if old_len + remaining \<ge> high_water_mark c \<and> old_len < high_water_mark c \<and> high_water_mark_fn c
                  then QueueTask (TaskCall (HighWaterMarkFn (old_len + remaining))) c else c) in
        ebind (Buffer_Append rest (output_buffer c1)) (\<lambda>ob.
        let c2 = c1\<lparr>output_buffer := ob\<rparr> in
        with_chan c2 (\<lambda>ch.
        if \<not> IsWritable ch
        then ebind (EnableWriteEvent env ch) (\<lambda>ch1. Inr (c2\<lparr>tc_chan := Some ch1\<rparr>))
        else Inr c2))))"

definition SendInLoop :: "user_code \<Rightarrow> loop_env \<Rightarrow> byte list \<Rightarrow> TCPConn \<Rightarrow> TCPConn result" where
  "SendInLoop user env d c =
     asserting (in_loop_thread env) (
     if tc_status c = kDisconnected then Inr c
     else
       let c0 = c\<lparr>accepted := accepted c @ d\<rparr> in
       with_chan c0 (\<lambda>ch.
       ebind (Buffer_length (output_buffer c0)) (\<lambda>l.
       if \<not> IsWritable ch \<and> l = 0 then
         (case sys_send d c0 of
            (Inr nwritten, c1) \<Rightarrow>
              queue_rest env (drop nwritten d)
                (if drop nwritten d = [] \<and> write_complete_fn c1 then QueueTask (TaskCall WriteCompleteFn) c1 else c1)
          | (Inl serrno, c1) \<Rightarrow>
              if \<not> EVUTIL_ERR_RW_RETRIABLE serrno \<and> (serrno = EPIPE \<or> serrno = ECONNRESET)
              then HandleError user env c1
              else queue_rest env d c1)
       else queue_rest env d c0)))"

text \<open>\<^verbatim>\<open>Send(const std::string&)\<close> and \<^verbatim>\<open>Send(const Slice&)\<close> copy the bytes when they are called from
  another thread; \<^verbatim>\<open>Send(Buffer*)\<close> empties the buffer; \<^verbatim>\<open>Send(const void*, size_t)\<close> does not test
  the status when it is called in the loop's thread.\<close>

definition Send_string :: "user_code \<Rightarrow> loop_env \<Rightarrow> byte list \<Rightarrow> TCPConn \<Rightarrow> TCPConn result" where
  "Send_string user env d c =
     (if tc_status c \<noteq> kConnected then Inr c
      else if in_loop_thread env then SendInLoop user env d c
      else Inr (QueueTask (TaskSend d) c))"

definition Send_data :: "user_code \<Rightarrow> loop_env \<Rightarrow> byte list \<Rightarrow> TCPConn \<Rightarrow> TCPConn result" where
  "Send_data user env d c =
     (if in_loop_thread env then SendInLoop user env d c else Send_string user env d c)"

definition Send_buffer ::
  "user_code \<Rightarrow> loop_env \<Rightarrow> buffer \<Rightarrow> TCPConn \<Rightarrow> (buffer \<times> TCPConn) result" where
  "Send_buffer user env buf c =
     (if tc_status c \<noteq> kConnected then Inr (buf, c)
      else if in_loop_thread env then
        ebind (Buffer_ToSlice buf) (\<lambda>d.
        ebind (SendInLoop user env d c) (\<lambda>c1. Inr (Buffer_Reset buf, c1)))
      else ebind (Buffer_NextAllString buf) (\<lambda>(d, buf1). Inr (buf1, QueueTask (TaskSend d) c)))"

section \<open>Events\<close>

definition HandleRead ::
  "user_code \<Rightarrow> loop_env \<Rightarrow> (nat \<Rightarrow> nat \<Rightarrow> int + byte list) \<Rightarrow> TCPConn \<Rightarrow> TCPConn result" where
  "HandleRead user env readv c =
     asserting (in_loop_thread env) (with_chan c (\<lambda>ch0.
     ebind (Buffer_ReadFromFD readv (input_buffer c)) (\<lambda>(n, ib).
     let c1 = c\<lparr>input_buffer := ib\<rparr> in
     case n of
       Inr n' \<Rightarrow>
         if n' > 0 then (if msg_fn c1 then invoke user MsgFn c1 else Inl (Thrown ''std::bad_function_call''))
         else if tc_type c1 = kOutgoing then HandleClose user env (c1\<lparr>tc_status := kDisconnecting\<rparr>)
         else
           ebind (DisableReadEvent env ch0) (\<lambda>ch.
           let c2 = c1\<lparr>tc_chan := Some ch\<rparr> in
           if close_delay c2 = 0 then DelayClose user env c2
           else Inr (c2\<lparr>delay_close_timer := True\<rparr>))
     | Inl serrno \<Rightarrow>
         let c2 = c1\<lparr>errno := serrno\<rparr> in
         if EVUTIL_ERR_RW_RETRIABLE serrno then Inr c2 else HandleError user env c2)))"

definition HandleWrite :: "user_code \<Rightarrow> loop_env \<Rightarrow> TCPConn \<Rightarrow> TCPConn result" where
  "HandleWrite user env c =
     asserting (in_loop_thread env) (with_chan c (\<lambda>ch0.
     asserting (\<not> attached ch0 \<or> IsWritable ch0) (
     ebind (Buffer_ToSlice (output_buffer c)) (\<lambda>d.
     case sys_send d c of (r, c1) \<Rightarrow>
       if case_sum (\<lambda>_. False) (\<lambda>n. n > 0) r then
         ebind (Buffer_Next (of_nat (projr r)) (output_buffer c1)) (\<lambda>(_, ob).
         let c2 = c1\<lparr>output_buffer := ob\<rparr> in
         ebind (Buffer_length ob) (\<lambda>l.
         if l = 0 then
           ebind (DisableWriteEvent env ch0) (\<lambda>ch.
           let c3 = c2\<lparr>tc_chan := Some ch\<rparr> in
           Inr (if write_complete_fn c3 then QueueTask (TaskCall WriteCompleteFn) c3 else c3))
         else Inr c2))
       else if EVUTIL_ERR_RW_RETRIABLE (errno c1) then Inr c1 else HandleError user env c1))))"

definition OnAttachedToLoop :: "user_code \<Rightarrow> loop_env \<Rightarrow> TCPConn \<Rightarrow> TCPConn result" where
  "OnAttachedToLoop user env c =
     asserting (in_loop_thread env) (
     ebind (with_chan c (EnableReadEvent env)) (\<lambda>ch.
     let c1 = c\<lparr>tc_status := kConnected, tc_chan := Some ch\<rparr> in
     if conn_fn c1 then invoke user ConnFn c1 else Inr c1))"

definition run_task :: "user_code \<Rightarrow> loop_env \<Rightarrow> conn_task \<Rightarrow> TCPConn \<Rightarrow> TCPConn result" where
  "run_task user env t c =
     (case t of
        TaskClose \<Rightarrow> asserting (in_loop_thread env) (HandleClose user env c)
      | TaskSend d \<Rightarrow> SendInLoop user env d c
      | TaskCall f \<Rightarrow> invoke user f c)"

section \<open>Programs of the application\<close>

text \<open>What an application does with a connection: it sends, closes, or takes bytes out of the input
  buffer. \<open>CloseIfOpen\<close> is \<^verbatim>\<open>if (!conn->IsDisconnected()) conn->Close();\<close>.\<close>

datatype api_call = SendString "byte list" | SendData "byte list" | Close | CloseIfOpen | Consume size_t

definition api_exec :: "user_code \<Rightarrow> loop_env \<Rightarrow> api_call \<Rightarrow> TCPConn \<Rightarrow> TCPConn result" where
  "api_exec user env a c =
     (case a of
        SendString d \<Rightarrow> Send_string user env d c
      | SendData d \<Rightarrow> Send_data user env d c
      | Close \<Rightarrow> Inr (TCPConn_Close c)
      | CloseIfOpen \<Rightarrow> Inr (if tc_status c = kDisconnected then c else TCPConn_Close c)
      | Consume n \<Rightarrow> ebind (Buffer_Next n (input_buffer c)) (\<lambda>(_, ib). Inr (c\<lparr>input_buffer := ib\<rparr>)))"

fun api_run :: "user_code \<Rightarrow> loop_env \<Rightarrow> api_call list \<Rightarrow> TCPConn \<Rightarrow> TCPConn result" where
  "api_run user env [] c = Inr c"
| "api_run user env (a # as) c = ebind (api_exec user env a c) (api_run user env as)"

text \<open>A callback made while another one runs uses one level of the stack.\<close>

primrec user_at :: "loop_env \<Rightarrow> (callback \<Rightarrow> TCPConn \<Rightarrow> api_call list) \<Rightarrow> nat \<Rightarrow> user_code" where
  "user_at env prog 0 = (\<lambda>f c. Inl StackOverflow)"
| "user_at env prog (Suc n) = (\<lambda>f c. api_run (user_at env prog n) env (prog f c) c)"

text \<open>What can happen to a connection in its loop: the event base reports its descriptor for
  \<open>which\<close> events it watches, the loop runs the next queued functor, the delay timer fires, or the
  application calls it outside any callback, in the loop's thread or (\<open>Remote\<close>) in another one.\<close>

datatype conn_event =
    Ready "16 word" "nat \<Rightarrow> nat \<Rightarrow> int + byte list" | RunTask | TimerFires | Call api_call
  | Remote "byte list"

definition delivered :: "16 word \<Rightarrow> TCPConn \<Rightarrow> bool" where
  "delivered which c \<longleftrightarrow>
     (case Option.bind (tc_chan c) watched of None \<Rightarrow> False | Some ev \<Rightarrow> which AND ev = which)"

definition conn_step :: "user_code \<Rightarrow> loop_env \<Rightarrow> conn_event \<Rightarrow> TCPConn \<Rightarrow> TCPConn result" where
  "conn_step user env ev c =
     (case ev of
        Ready which readv \<Rightarrow>
          if delivered which c
          then HandleEvent (\<lambda>c. the (tc_chan c)) (HandleRead user env readv) (HandleWrite user env) (tc_fd c) which c
          else Inr c
      | RunTask \<Rightarrow> (case tasks c of [] \<Rightarrow> Inr c | t # ts \<Rightarrow> run_task user env t (c\<lparr>tasks := ts\<rparr>))
      | TimerFires \<Rightarrow> if delay_close_timer c then DelayClose user env c else Inr c
      | Call a \<Rightarrow> api_exec user env a c
      | Remote d \<Rightarrow> Send_string user (env\<lparr>in_loop_thread := False\<rparr>) d c)"

fun conn_run :: "user_code \<Rightarrow> loop_env \<Rightarrow> conn_event list \<Rightarrow> TCPConn \<Rightarrow> TCPConn result" where
  "conn_run user env [] c = Inr c"
| "conn_run user env (e # es) c = ebind (conn_step user env e c) (conn_run user env es)"

end
