(* ===== verification/Tcp_Conn_Inv.thy ===== *)
theory Tcp_Conn_Inv
  imports Tcp_Conn Buffer_Props
begin

text \<open>
  Correctness of a TCP connection: its invariant relates the status, the channel and the output
  buffer, and the bytes on the wire to the bytes accepted for sending. The laws that the
  application's callbacks have to keep are two locales, one for callbacks made while the connection
  closes and one for callbacks made while it is up.
\<close>

section \<open>Invariant\<close>

definition conn_bufs :: "TCPConn \<Rightarrow> bool" where
  "conn_bufs c \<longleftrightarrow> buf_inv (input_buffer c) \<and> buf_inv (output_buffer c) \<and>
     buf_reserved (input_buffer c) = kCheapPrependSize \<and> buf_reserved (output_buffer c) = kCheapPrependSize"

definition conn_fns :: "TCPConn \<Rightarrow> bool" where
  "conn_fns c \<longleftrightarrow> conn_fn c \<and> msg_fn c \<and> close_fn c \<and>
     (\<forall>f. TaskCall f \<in> set (tasks c) \<longrightarrow> f \<noteq> ConnFn \<and> f \<noteq> CloseFn) \<and>
     (tc_status c = kConnected \<longrightarrow> TaskClose \<notin> set (tasks c))"

definition out_bytes :: "TCPConn \<Rightarrow> byte list" where
  "out_bytes c = contents (output_buffer c)"

definition in_bytes :: "TCPConn \<Rightarrow> byte list" where
  "in_bytes c = contents (input_buffer c)"

text \<open>An open connection: the channel is registered for exactly the events it wants, the write event
  is wanted exactly when bytes wait in the output buffer, and these are the bytes that were accepted
  but have not reached the kernel. The application has been told once that the connection is up.
  In the middle of \<^verbatim>\<open>SendInLoop\<close> the connection owes a further \<open>rest\<close>.\<close>

definition conn_owing :: "byte list \<Rightarrow> TCPConn \<Rightarrow> bool" where
  "conn_owing rest c \<longleftrightarrow> conn_bufs c \<and> conn_fns c \<and> tc_status c \<in> {kConnected, kDisconnecting} \<and>
     (\<exists>ch. tc_chan c = Some ch \<and> chan_sync ch \<and> ch_fd ch = tc_fd c \<and> read_fn ch \<and> write_fn ch \<and>
        (IsWritable ch \<longleftrightarrow> out_bytes c \<noteq> [])) \<and>
     accepted c = wire c @ out_bytes c @ rest \<and>
     count_list (calls c) ConnFn = 1 \<and> count_list (calls c) CloseFn = 0"

definition conn_open :: "TCPConn \<Rightarrow> bool" where
  "conn_open c \<longleftrightarrow> conn_owing [] c"

text \<open>A closed connection: the channel has been given up, nothing is registered, and the application
  has been told of the end once through each callback.\<close>

definition conn_gone :: "TCPConn \<Rightarrow> bool" where
  "conn_gone c \<longleftrightarrow> conn_bufs c \<and> conn_fns c \<and> tc_status c = kDisconnected \<and>
     (\<exists>ch. tc_chan c = Some ch \<and> chan_closed ch \<and> ch_fd ch = tc_fd c) \<and> \<not> delay_close_timer c \<and>
     (\<exists>rest. accepted c = wire c @ rest) \<and>
     count_list (calls c) ConnFn = 2 \<and> count_list (calls c) CloseFn = 1"

definition conn_inv :: "TCPConn \<Rightarrow> bool" where
  "conn_inv c \<longleftrightarrow> conn_open c \<or> conn_gone c"

text \<open>\<open>quiet c c'\<close>: nothing changed but the input buffer, which lost bytes, and requests to close
  that were queued.\<close>

definition quiet :: "TCPConn \<Rightarrow> TCPConn \<Rightarrow> bool" where
  "quiet c c' \<longleftrightarrow>
     (\<exists>ib ts. c' = c\<lparr>input_buffer := ib, tasks := tasks c @ ts\<rparr> \<and> set ts \<subseteq> {TaskClose} \<and>
        (tc_status c = kConnected \<longrightarrow> ts = []) \<and> buf_inv ib \<and>
        buf_reserved ib = buf_reserved (input_buffer c) \<and> length (contents ib) \<le> length (in_bytes c))"

lemma quiet_refl: "buf_inv (input_buffer c) \<Longrightarrow> quiet c c"
  unfolding quiet_def in_bytes_def
  by (rule exI [where x = "input_buffer c"], rule exI [where x = "[]"]) simp

lemma quiet_trans:
  assumes "quiet a b" "quiet b c" shows "quiet a c"
proof -
  obtain ib ts where 1: "b = a\<lparr>input_buffer := ib, tasks := tasks a @ ts\<rparr>" "set ts \<subseteq> {TaskClose}"
    "buf_reserved ib = buf_reserved (input_buffer a)" "length (contents ib) \<le> length (in_bytes a)"
    "tc_status a = kConnected \<longrightarrow> ts = []"
    using assms(1) by (auto simp: quiet_def)
  obtain ib2 ts2 where 2: "c = b\<lparr>input_buffer := ib2, tasks := tasks b @ ts2\<rparr>" "set ts2 \<subseteq> {TaskClose}"
    "tc_status b = kConnected \<longrightarrow> ts2 = []"
    "buf_inv ib2" "buf_reserved ib2 = buf_reserved (input_buffer b)" "length (contents ib2) \<le> length (in_bytes b)"
    using assms(2) by (auto simp: quiet_def)
  show ?thesis
    unfolding quiet_def
    by (rule exI [where x = ib2], rule exI [where x = "ts @ ts2"]) (use 1 2 in \<open>auto simp: in_bytes_def\<close>)
qed

lemma quiet_fields:
  assumes "quiet c c'"
  shows "tc_status c' = tc_status c" "tc_chan c' = tc_chan c" "output_buffer c' = output_buffer c"
    "conn_fn c' = conn_fn c" "msg_fn c' = msg_fn c" "close_fn c' = close_fn c" "accepted c' = accepted c"
    "wire c' = wire c" "calls c' = calls c" "tc_fd c' = tc_fd c" "delay_close_timer c' = delay_close_timer c"
    "set (tasks c') \<subseteq> insert TaskClose (set (tasks c))" "buf_inv (input_buffer c')"
    "buf_reserved (input_buffer c') = buf_reserved (input_buffer c)" "length (in_bytes c') \<le> length (in_bytes c)"
  using assms by (auto simp: quiet_def in_bytes_def)

definition room :: "nat \<Rightarrow> TCPConn \<Rightarrow> bool" where
  "room n c \<longleftrightarrow> 16 + 3 * (length (out_bytes c) + n) < 2 ^ 63"

lemma room_can_grow:
  "conn_bufs c \<Longrightarrow> room n c \<Longrightarrow> k \<le> n \<Longrightarrow> can_grow (output_buffer c) k"
  by (simp add: conn_bufs_def room_def can_grow_def out_bytes_def kCheapPrependSize_def)

text \<open>Outcome of an operation that may end the connection: it is open with the same status, or gone;
  at most \<open>n\<close> bytes were added to the output buffer, none to the input buffer, no sending was queued, and an open connection that had output still has.\<close>

definition chan_gone :: "TCPConn \<Rightarrow> bool" where
  "chan_gone c \<longleftrightarrow> (\<exists>ch. tc_chan c = Some ch \<and> ch_event ch = None)"

lemma open_chan_gone: "conn_owing rest c \<Longrightarrow> \<not> chan_gone c"
  by (auto simp: conn_owing_def chan_gone_def chan_sync_def)

lemma gone_chan_gone: "conn_gone c \<Longrightarrow> chan_gone c"
  by (auto simp: conn_gone_def chan_gone_def chan_closed_def)

definition sends :: "TCPConn \<Rightarrow> byte list set" where
  "sends c = {d. TaskSend d \<in> set (tasks c)}"

definition kept :: "nat \<Rightarrow> TCPConn \<Rightarrow> TCPConn \<Rightarrow> bool" where
  "kept n c c' \<longleftrightarrow> conn_inv c' \<and> length (out_bytes c') \<le> length (out_bytes c) + n \<and>
     length (in_bytes c') \<le> length (in_bytes c) \<and> sends c' \<subseteq> sends c \<and>
     (\<not> chan_gone c' \<longrightarrow> \<not> chan_gone c \<and> (out_bytes c \<noteq> [] \<longrightarrow> out_bytes c' \<noteq> []))"

lemma kept_trans:
  "kept m a b \<Longrightarrow> kept n b c \<Longrightarrow> kept (m + n) a c"
  by (auto simp: kept_def)

lemma kept_open:
  assumes "conn_owing rest c" "conn_open c'" "length (out_bytes c') \<le> length (out_bytes c) + n"
    "length (in_bytes c') \<le> length (in_bytes c)" "sends c' \<subseteq> sends c" "out_bytes c \<noteq> [] \<Longrightarrow> out_bytes c' \<noteq> []"
  shows "kept n c c'"
  using assms open_chan_gone [OF assms(1)] by (simp add: kept_def conn_inv_def)

lemma kept_gone:
  assumes "conn_gone c'" "length (out_bytes c') \<le> length (out_bytes c)" "length (in_bytes c') \<le> length (in_bytes c)"
    "sends c' \<subseteq> sends c"
  shows "kept n c c'"
  using assms gone_chan_gone [OF assms(1)] by (simp add: kept_def conn_inv_def)

definition same_io :: "TCPConn \<Rightarrow> TCPConn \<Rightarrow> bool" where
  "same_io c c1 \<longleftrightarrow> output_buffer c1 = output_buffer c \<and> length (in_bytes c1) \<le> length (in_bytes c) \<and>
     sends c1 \<subseteq> sends c \<and> (chan_gone c \<longrightarrow> chan_gone c1)"

lemma kept_same_io: "kept n c1 c' \<Longrightarrow> same_io c c1 \<Longrightarrow> kept n c c'"
  by (auto simp: kept_def same_io_def out_bytes_def)

lemma kept_mono: "kept m a b \<Longrightarrow> m \<le> n \<Longrightarrow> kept n a b"
  by (auto simp: kept_def)

lemma quiet_inv:
  assumes "conn_inv c" "quiet c c'"
  shows "kept 0 c c'"
proof -
  obtain ib ts where c': "c' = c\<lparr>input_buffer := ib, tasks := tasks c @ ts\<rparr>" "set ts \<subseteq> {TaskClose}"
    "buf_inv ib" "buf_reserved ib = buf_reserved (input_buffer c)" "length (contents ib) \<le> length (in_bytes c)"
    "tc_status c = kConnected \<longrightarrow> ts = []"
    using assms(2) by (auto simp: quiet_def)
  have ts: "TaskCall f \<in> set (tasks c') \<longleftrightarrow> TaskCall f \<in> set (tasks c)" for f
    using c'(1,2) by auto
  have bf: "conn_bufs c' \<longleftrightarrow> conn_bufs c" "conn_fns c' \<longleftrightarrow> conn_fns c"
    if "buf_inv (input_buffer c)"
    using ts c'(1,3,4,6) that by (auto simp: conn_bufs_def conn_fns_def)
  have "buf_inv (input_buffer c)"
    using assms(1) by (auto simp: conn_inv_def conn_open_def conn_owing_def conn_gone_def conn_bufs_def)
  then have "conn_inv c'"
    using assms(1) bf c'(1) by (simp add: conn_inv_def conn_open_def conn_owing_def conn_gone_def out_bytes_def)
  then have "kept 0 c' c'" by (simp add: kept_def)
  then show ?thesis
    by (rule kept_same_io) (use c' in \<open>auto simp: same_io_def in_bytes_def sends_def chan_gone_def\<close>)
qed

lemma open_output_watched:
  assumes "conn_open c" "out_bytes c \<noteq> []"
  shows "delivered kWritable c"
proof -
  obtain ch where ch: "tc_chan c = Some ch" "chan_sync ch" "bit (events ch) 2"
    using assms by (auto simp: conn_open_def conn_owing_def IsWritable_bit)
  then have "attached ch" by (auto simp: chan_sync_def)
  moreover have "kWritable AND (events ch OR EV_PERSIST) = kWritable"
    using ch(3) by (auto intro!: bit_word_eqI simp: bit_and_iff bit_or_iff simp del: bit_switch)
  ultimately show ?thesis using ch(1,2) by (simp add: delivered_def chan_sync_def)
qed

section \<open>The kernel's answers\<close>

lemma sys_send_Inr:
  assumes "sys_send d c = (Inr n, c1)"
  shows "n \<le> length d" "\<exists>rs. c1 = c\<lparr>send_results := rs, wire := wire c @ take n d\<rparr>"
proof -
  obtain k rs where "c1 = c\<lparr>send_results := rs, wire := wire c @ take k d\<rparr>" "n = min k (length d)"
    using assms by (auto simp: sys_send_def split: list.splits sum.splits)
  moreover have "take (min k (length d)) d = take k d" by (simp add: min_def)
  ultimately show "n \<le> length d" "\<exists>rs. c1 = c\<lparr>send_results := rs, wire := wire c @ take n d\<rparr>"
    by auto
qed

lemma sys_send_Inl:
  assumes "sys_send d c = (Inl e, c1)"
  shows "\<exists>rs. c1 = c\<lparr>send_results := rs, errno := e\<rparr>"
proof (cases "send_results c")
  case Nil
  then show ?thesis
    using assms by (intro exI [where x = "[]"], cases c) (auto simp: sys_send_def)
next
  case (Cons r rs)
  then show ?thesis
    using assms by (intro exI [where x = rs]) (auto simp: sys_send_def split: sum.splits)
qed

text \<open>Queueing a functor that is not one of the two connection callbacks, and a failed \<^verbatim>\<open>send\<close>, do
  not touch what the invariant speaks of.\<close>

lemma owing_QueueTask:
  "conn_owing rest c \<Longrightarrow> t \<noteq> TaskClose \<Longrightarrow> t \<noteq> TaskCall ConnFn \<Longrightarrow> t \<noteq> TaskCall CloseFn \<Longrightarrow> conn_owing rest (QueueTask t c)"
  by (auto simp: conn_owing_def conn_bufs_def conn_fns_def out_bytes_def QueueTask_def)

lemma owing_results:
  "conn_owing rest (c\<lparr>send_results := rs, errno := e\<rparr>) \<longleftrightarrow> conn_owing rest c"
  by (simp add: conn_owing_def conn_bufs_def conn_fns_def out_bytes_def)

lemma owing_sent:
  assumes "conn_owing d c" "out_bytes c = []" "n \<le> length d"
  shows "conn_owing (drop n d) (c\<lparr>send_results := rs, wire := wire c @ take n d\<rparr>)"
  using assms by (auto simp: conn_owing_def conn_bufs_def conn_fns_def out_bytes_def)

section \<open>Callbacks while the connection closes\<close>

text \<open>On a connection that is not up, a callback only queues requests to close and takes bytes from
  the input buffer.\<close>

locale closing_user =
  fixes user :: user_code and env :: loop_env
  assumes env_ok: "libevent_ok env"
    and closing: "tc_status c \<in> {kDisconnecting, kDisconnected} \<Longrightarrow> buf_inv (input_buffer c) \<Longrightarrow>
      \<exists>c'. user f c = Inr c' \<and> quiet c c'"
begin

lemma in_loop [simp]: "in_loop_thread env"
  using env_ok by (simp add: libevent_ok_def)

lemma invoke_closing:
  assumes "tc_status c \<in> {kDisconnecting, kDisconnected}" "buf_inv (input_buffer c)"
  shows "\<exists>c'. invoke user f c = Inr c' \<and> quiet (c\<lparr>calls := calls c @ [f]\<rparr>) c'"
  unfolding invoke_def using closing [of "c\<lparr>calls := calls c @ [f]\<rparr>" f] assms by simp

text \<open>Whatever brought an open connection to an end, \<open>HandleClose\<close> releases the channel and makes
  each of the two callbacks once.\<close>

lemma HandleClose_owing:
  assumes "conn_owing rest c" "tc_status c = kDisconnecting"
  shows "\<exists>c'. HandleClose user env c = Inr c' \<and> conn_gone c' \<and> kept 0 c c'"
proof -
  obtain ch where ch: "tc_chan c = Some ch" "chan_sync ch" "ch_fd ch = tc_fd c"
    using assms(1) by (auto simp: conn_owing_def)
  have o: "conn_bufs c" "conn_fns c" "accepted c = wire c @ out_bytes c @ rest"
    "count_list (calls c) ConnFn = 1" "count_list (calls c) CloseFn = 0"
    using assms(1) by (simp_all add: conn_owing_def)
  obtain ch1 where ch1: "DisableAllEvent env ch = Inr ch1" "chan_sync ch1" "events ch1 = kNone" "same_ends ch ch1"
    using switch_sync(5) [OF ch(2) env_ok] by blast
  obtain ch2 where ch2: "FdChannel_Close ch1 = Inr ch2" "chan_closed ch2" "ch_fd ch2 = ch_fd ch1"
    using FdChannel_Close_sync [OF ch1(2,3)] by blast
  let ?c1 = "c\<lparr>tc_chan := Some ch2, delay_close_timer := False\<rparr>"
  have b: "buf_inv (input_buffer c)" using o(1) by (simp add: conn_bufs_def)
  obtain c2 where c2: "invoke user ConnFn ?c1 = Inr c2" "quiet (?c1\<lparr>calls := calls c @ [ConnFn]\<rparr>) c2"
    using invoke_closing [of ?c1 ConnFn] b assms(2) by auto
  have s2: "tc_status c2 = kDisconnecting" "buf_inv (input_buffer c2)" "close_fn c2"
    using c2(2) o(2) assms(2) by (auto simp: quiet_def conn_fns_def)
  obtain c3 where c3: "invoke user CloseFn c2 = Inr c3" "quiet (c2\<lparr>calls := calls c2 @ [CloseFn]\<rparr>) c3"
    using invoke_closing [of c2 CloseFn] s2 by auto
  have "HandleClose user env c = Inr (c3\<lparr>tc_status := kDisconnected\<rparr>)"
    using o(2) ch(1) assms(2) ch1(1) ch2(1) c2(1) c3(1) s2(3)
    by (simp add: HandleClose_def with_chan_def Let_def conn_fns_def)
  moreover have ts: "\<forall>f. TaskCall f \<in> set (tasks c3) \<longrightarrow> TaskCall f \<in> set (tasks c)"
    using quiet_fields(12) [OF c2(2)] quiet_fields(12) [OF c3(2)] by auto
  moreover have g: "conn_gone (c3\<lparr>tc_status := kDisconnected\<rparr>)"
    unfolding conn_gone_def conn_bufs_def conn_fns_def
    using o ch(3) ch1(4) ch2(2,3) quiet_fields(1-11,13-) [OF c2(2)] quiet_fields(1-11,13-) [OF c3(2)] ts
    by (simp add: conn_bufs_def conn_fns_def same_ends_def)
  moreover have "kept 0 c (c3\<lparr>tc_status := kDisconnected\<rparr>)"
    by (rule kept_gone [OF g]) (use c2(2) c3(2) in \<open>auto simp: quiet_def out_bytes_def in_bytes_def sends_def\<close>)
  ultimately show ?thesis by blast
qed

lemma HandleClose_gone: "conn_gone c \<Longrightarrow> HandleClose user env c = Inr c"
  by (simp add: HandleClose_def conn_gone_def)

lemma HandleError_owing:
  assumes "conn_owing rest c"
  shows "\<exists>c'. HandleError user env c = Inr c' \<and> conn_gone c' \<and> kept 0 c c'"
proof -
  have "conn_owing rest (c\<lparr>tc_status := kDisconnecting\<rparr>)"
    using assms by (simp add: conn_owing_def conn_bufs_def conn_fns_def out_bytes_def)
  from HandleClose_owing [OF this] show ?thesis
    by (simp add: HandleError_def kept_def out_bytes_def in_bytes_def sends_def chan_gone_def)
qed

text \<open>The bytes the kernel did not take go to the end of the output buffer.\<close>

lemma queue_rest_owing:
  assumes "conn_owing rest c" "can_grow (output_buffer c) (length rest)"
  shows "\<exists>c'. queue_rest env rest c = Inr c' \<and> conn_open c' \<and> tc_status c' = tc_status c \<and>
    kept (length rest) c c'"
proof (cases "rest = []")
  case True
  then have "conn_open c" using assms(1) by (simp add: conn_open_def)
  then show ?thesis using True by (simp add: queue_rest_def kept_def conn_inv_def)
next
  case False
  obtain ch where ch: "tc_chan c = Some ch" "chan_sync ch" "ch_fd ch = tc_fd c" "read_fn ch" "write_fn ch"
    "IsWritable ch \<longleftrightarrow> out_bytes c \<noteq> []"
    using assms(1) by (auto simp: conn_owing_def)
  have bi: "buf_inv (output_buffer c)" "buf_reserved (output_buffer c) = kCheapPrependSize"
    using assms(1) by (simp_all add: conn_owing_def conn_bufs_def)
  obtain ob where ob: "Buffer_Append rest (output_buffer c) = Inr ob" "buf_inv ob"
    "contents ob = out_bytes c @ rest" "buf_reserved ob = kCheapPrependSize"
    using Buffer_Write_inv [OF bi(1) assms(2)] bi(2) by (auto simp: Buffer_Append_def out_bytes_def)
  obtain ts where ts: "queue_rest env rest c =
      (let c2 = c\<lparr>tasks := tasks c @ ts, output_buffer := ob\<rparr> in
       if \<not> IsWritable ch then ebind (EnableWriteEvent env ch) (\<lambda>ch1. Inr (c2\<lparr>tc_chan := Some ch1\<rparr>)) else Inr c2)"
    "\<forall>t \<in> set ts. \<exists>n. t = TaskCall (HighWaterMarkFn n)"
    using False ob(1) ch(1) Buffer_length_inv [OF bi(1)]
    by (cases "write_index (output_buffer c) - read_index (output_buffer c) + of_nat (length rest) \<ge> high_water_mark c
        \<and> write_index (output_buffer c) - read_index (output_buffer c) < high_water_mark c \<and> high_water_mark_fn c")
      (force simp: queue_rest_def Let_def QueueTask_def with_chan_def
        intro: that [of "[TaskCall (HighWaterMarkFn (write_index (output_buffer c) - read_index (output_buffer c) + of_nat (length rest)))]"]
               that [of "[]"])+
  have "\<exists>ch1. (if \<not> IsWritable ch then EnableWriteEvent env ch else Inr ch) = Inr ch1 \<and> chan_sync ch1 \<and>
      same_ends ch ch1 \<and> IsWritable ch1"
    using switch_sync(2) [OF ch(2) env_ok] ch(2)
    by (cases "IsWritable ch") (auto simp: IsWritable_bit same_ends_def)
  then obtain ch1 where ch1: "(if \<not> IsWritable ch then EnableWriteEvent env ch else Inr ch) = Inr ch1"
    "chan_sync ch1" "same_ends ch ch1" "IsWritable ch1" by blast
  let ?c' = "c\<lparr>tasks := tasks c @ ts, output_buffer := ob, tc_chan := Some ch1\<rparr>"
  have "queue_rest env rest c = Inr ?c'"
    using ts(1) ch1(1) ch(1) by (auto simp: Let_def split: if_splits)
  moreover have o: "conn_open ?c'"
    using assms(1) ch ch1 ob False ts(2)
    by (auto simp: conn_open_def conn_owing_def conn_bufs_def conn_fns_def out_bytes_def same_ends_def)
  moreover have "kept (length rest) c ?c'"
    by (rule kept_open [OF assms(1) o]) (use ts(2) ob(3) in \<open>auto simp: out_bytes_def in_bytes_def sends_def\<close>)
  ultimately show ?thesis by auto
qed

lemma SendInLoop_open:
  assumes "conn_open c" "room (length d) c"
  shows "\<exists>c'. SendInLoop user env d c = Inr c' \<and> kept (length d) c c'"
proof -
  obtain ch where ch: "tc_chan c = Some ch" "IsWritable ch \<longleftrightarrow> out_bytes c \<noteq> []"
    using assms(1) by (auto simp: conn_open_def conn_owing_def)
  have b: "conn_bufs c" "tc_status c \<noteq> kDisconnected" and ob: "buf_inv (output_buffer c)"
    using assms(1) by (auto simp: conn_open_def conn_owing_def conn_bufs_def)
  have len0: "write_index (output_buffer c) - read_index (output_buffer c) = 0 \<longleftrightarrow> out_bytes c = []"
    using unat_length_inv [OF ob] by (auto simp: size_eq_iff out_bytes_def)
  let ?c0 = "c\<lparr>accepted := accepted c @ d\<rparr>"
  have g: "can_grow (output_buffer c) k" if "k \<le> length d" for k
    using room_can_grow [OF b(1) assms(2) that] .
  have owe: "conn_owing d ?c0"
    using assms(1) by (simp add: conn_open_def conn_owing_def conn_bufs_def conn_fns_def out_bytes_def)
  have io0: "same_io c ?c0" by (simp add: same_io_def in_bytes_def sends_def chan_gone_def)
  show ?thesis
  proof (cases "out_bytes c = []")
    case False
    then have "SendInLoop user env d c = queue_rest env d ?c0"
      using b ch Buffer_length_inv [OF ob] by (simp add: SendInLoop_def Let_def with_chan_def)
    then show ?thesis
      using queue_rest_owing [OF owe] g [of "length d"] io0 kept_same_io by fastforce
  next
    case True
    obtain r c1 where s: "sys_send d ?c0 = (r, c1)" by fastforce
    have eq: "SendInLoop user env d c = (case r of
        Inr nwritten \<Rightarrow> queue_rest env (drop nwritten d)
          (if drop nwritten d = [] \<and> write_complete_fn c1 then QueueTask (TaskCall WriteCompleteFn) c1 else c1)
      | Inl serrno \<Rightarrow> if \<not> EVUTIL_ERR_RW_RETRIABLE serrno \<and> (serrno = EPIPE \<or> serrno = ECONNRESET)
          then HandleError user env c1 else queue_rest env d c1)"
      using True b ch s Buffer_length_inv [OF ob] len0
      by (simp add: SendInLoop_def Let_def with_chan_def split: sum.splits)
    show ?thesis
    proof (cases r)
      case (Inl e)
      then obtain rs where c1: "c1 = ?c0\<lparr>send_results := rs, errno := e\<rparr>" using sys_send_Inl s by blast
      then have "conn_owing d c1" "output_buffer c1 = output_buffer c" using owe owing_results [of d e rs ?c0] by auto
      moreover have "same_io c c1" using c1 by (simp add: same_io_def in_bytes_def sends_def chan_gone_def)
      ultimately show ?thesis
        using eq Inl HandleError_owing [of d c1] queue_rest_owing [of d c1] g [of "length d"]
          kept_same_io kept_mono [of 0 _ _ "length d"] by (fastforce split: if_splits)
    next
      case (Inr n)
      let ?c2 = "if drop n d = [] \<and> write_complete_fn c1 then QueueTask (TaskCall WriteCompleteFn) c1 else c1"
      obtain rs where c1: "n \<le> length d" "c1 = ?c0\<lparr>send_results := rs, wire := wire ?c0 @ take n d\<rparr>"
        using sys_send_Inr s Inr by blast
      have "conn_owing (drop n d) c1"
        using owing_sent [OF owe _ c1(1), of rs] True c1(2) by (simp add: out_bytes_def)
      then have "conn_owing (drop n d) ?c2" using owing_QueueTask by auto
      moreover have "output_buffer ?c2 = output_buffer c" "same_io c ?c2"
        using c1(2) by (auto simp: QueueTask_def same_io_def in_bytes_def sends_def chan_gone_def)
      ultimately show ?thesis
        using eq Inr queue_rest_owing [of "drop n d" ?c2] g [of "length (drop n d)"] 
          kept_same_io kept_mono [of "length (drop n d)" _ _ "length d"] by fastforce
    qed
  qed
qed

end

section \<open>Programs that send and close\<close>

text \<open>A program is civil when its callbacks use \<^verbatim>\<open>Send(const std::string&)\<close> or \<^verbatim>\<open>Send(const Slice&)\<close>,
  close the connection only after asking whether it is still there, and send at most \<open>m\<close> bytes each.\<close>

fun civil_call :: "api_call \<Rightarrow> bool" where
  "civil_call (SendString d) = True"
| "civil_call (SendData d) = False"
| "civil_call Close = False"
| "civil_call CloseIfOpen = True"
| "civil_call (Consume n) = True"

fun payload :: "api_call \<Rightarrow> nat" where
  "payload (SendString d) = length d"
| "payload (SendData d) = length d"
| "payload Close = 0"
| "payload CloseIfOpen = 0"
| "payload (Consume n) = 0"

definition civil :: "nat \<Rightarrow> (callback \<Rightarrow> TCPConn \<Rightarrow> api_call list) \<Rightarrow> bool" where
  "civil m prog \<longleftrightarrow> (\<forall>f c. list_all civil_call (prog f c) \<and> sum_list (map payload (prog f c)) \<le> m)"

lemma Consume_quiet:
  assumes "buf_inv (input_buffer c)"
  shows "\<exists>c'. api_exec user env (Consume n) c = Inr c' \<and> quiet c c'"
proof -
  obtain ib where ib: "Buffer_Next n (input_buffer c) = Inr (take (unat n) (in_bytes c), ib)" "buf_inv ib"
    "contents ib = drop (unat n) (in_bytes c)"
    using Buffer_Next_inv [OF assms, of n] by (auto simp: in_bytes_def)
  have "quiet c (c\<lparr>input_buffer := ib\<rparr>)"
    unfolding quiet_def
    by (rule exI [where x = ib], rule exI [where x = "[]"]) (use ib Buffer_Next_reserved in auto)
  then show ?thesis using ib(1) by (simp add: api_exec_def)
qed

lemma Close_quiet:
  assumes "buf_inv (input_buffer c)" "tc_status c = kDisconnecting"
  shows "quiet c (TCPConn_Close c)"
  unfolding quiet_def
  by (rule exI [where x = "input_buffer c"], rule exI [where x = "[TaskClose]"])
    (use assms in \<open>simp add: TCPConn_Close_def QueueTask_def in_bytes_def\<close>)

lemma api_exec_closing:
  assumes "tc_status c \<in> {kDisconnecting, kDisconnected}" "buf_inv (input_buffer c)" "civil_call a"
  shows "\<exists>c'. api_exec user env a c = Inr c' \<and> quiet c c'"
  using assms Consume_quiet [OF assms(2)] Close_quiet [OF assms(2)] quiet_refl [OF assms(2)]
  by (cases a) (auto simp: api_exec_def Send_string_def)

lemma api_run_closing:
  assumes "tc_status c \<in> {kDisconnecting, kDisconnected}" "buf_inv (input_buffer c)" "list_all civil_call as"
  shows "\<exists>c'. api_run user env as c = Inr c' \<and> quiet c c'"
  using assms
proof (induction as arbitrary: c)
  case Nil
  then show ?case by (simp add: quiet_refl)
next
  case (Cons a as)
  obtain c1 where c1: "api_exec user env a c = Inr c1" "quiet c c1"
    using api_exec_closing [of c a] Cons.prems by auto
  then have "tc_status c1 \<in> {kDisconnecting, kDisconnected}" "buf_inv (input_buffer c1)"
    using Cons.prems(1) by (auto simp: quiet_def)
  then obtain c2 where "api_run user env as c1 = Inr c2" "quiet c1 c2"
    using Cons.IH Cons.prems(3) by auto
  then show ?case using c1 quiet_trans by auto
qed

lemma closing_user_at:
  assumes "libevent_ok env" "civil m prog"
  shows "closing_user (user_at env prog (Suc n)) env"
  using assms api_run_closing by unfold_locales (auto simp: civil_def)

context closing_user
begin

lemma api_exec_inv:
  assumes "conn_inv c" "room (payload a) c" "civil_call a"
  shows "\<exists>c'. api_exec user env a c = Inr c' \<and> kept (payload a) c c'"
proof (cases "tc_status c = kConnected")
  case False
  then have "tc_status c \<in> {kDisconnecting, kDisconnected}" "buf_inv (input_buffer c)"
    using assms(1) by (auto simp: conn_inv_def conn_open_def conn_owing_def conn_gone_def conn_bufs_def)
  then obtain c' where "api_exec user env a c = Inr c'" "quiet c c'"
    using api_exec_closing assms(3) by blast
  moreover from this have "kept (payload a) c c'" using kept_mono [OF quiet_inv [OF assms(1)]] by blast
  ultimately show ?thesis by blast
next
  case True
  then have o: "conn_open c" and b: "buf_inv (input_buffer c)"
    using assms(1) by (auto simp: conn_inv_def conn_open_def conn_owing_def conn_gone_def conn_bufs_def)
  show ?thesis
  proof (cases a)
    case (SendString d)
    then show ?thesis using SendInLoop_open [OF o] assms(2) True by (simp add: api_exec_def Send_string_def)
  next
    case CloseIfOpen
    have "conn_open (TCPConn_Close c)"
      using o by (auto simp: conn_open_def conn_owing_def conn_bufs_def conn_fns_def out_bytes_def TCPConn_Close_def
          QueueTask_def)
    then have "kept 0 (TCPConn_Close c) (TCPConn_Close c)" by (simp add: kept_def conn_inv_def)
    moreover have "same_io c (TCPConn_Close c)"
      by (auto simp: same_io_def TCPConn_Close_def QueueTask_def in_bytes_def sends_def chan_gone_def)
    ultimately show ?thesis using CloseIfOpen True kept_same_io by (auto simp: api_exec_def)
  next
    case (Consume n)
    then show ?thesis using Consume_quiet [OF b, of user env n] quiet_inv [OF assms(1)] by force
  qed (use assms(3) in auto)
qed

lemma api_run_inv:
  assumes "conn_inv c" "room (sum_list (map payload as)) c" "list_all civil_call as"
  shows "\<exists>c'. api_run user env as c = Inr c' \<and> kept (sum_list (map payload as)) c c'"
  using assms
proof (induction as arbitrary: c)
  case Nil
  then show ?case by (simp add: kept_def)
next
  case (Cons a as)
  obtain c1 where c1: "api_exec user env a c = Inr c1" "kept (payload a) c c1"
    using api_exec_inv [of c a] Cons.prems by (auto simp: room_def)
  then have "room (sum_list (map payload as)) c1" "conn_inv c1"
    using Cons.prems(2) by (auto simp: kept_def room_def)
  then obtain c2 where "api_run user env as c1 = Inr c2" "kept (sum_list (map payload as)) c1 c2"
    using Cons.IH Cons.prems(3) by auto
  then show ?case using c1 kept_trans by auto
qed

end

lemma Buffer_grow_reserved: "Buffer_grow n b = Inr b' \<Longrightarrow> buf_reserved b' = buf_reserved b"
  by (auto simp: Buffer_grow_def ebind_Inr_iff Let_def split: if_splits)

lemma Buffer_Write_reserved: "Buffer_Write d b = Inr b' \<Longrightarrow> buf_reserved b' = buf_reserved b"
  by (auto simp: Buffer_Write_def Buffer_EnsureWritableBytes_def ebind_Inr_iff Let_def
      dest: Buffer_grow_reserved split: if_splits)

lemma Buffer_ReadFromFD_reserved:
  "Buffer_ReadFromFD readv b = Inr (r, b') \<Longrightarrow> buf_reserved b' = buf_reserved b"
  by (auto simp: Buffer_ReadFromFD_def ebind_Inr_iff Let_def Buffer_Append_def
      dest: Buffer_Write_reserved split: if_splits sum.splits)

text \<open>A descriptor that delivers at most \<open>k\<close> bytes at once.\<close>

definition readv_within :: "nat \<Rightarrow> (nat \<Rightarrow> nat \<Rightarrow> int + byte list) \<Rightarrow> bool" where
  "readv_within k readv \<longleftrightarrow> readv_ok readv \<and> (\<forall>n m bs. readv n m = Inr bs \<longrightarrow> length bs \<le> k)"

lemma ReadFromFD_conn:
  assumes "conn_bufs c" "readv_within k readv" "16 + 3 * (length (in_bytes c) + k) < 2 ^ 63"
  shows "\<exists>r ib. Buffer_ReadFromFD readv (input_buffer c) = Inr (r, ib) \<and> buf_inv ib \<and>
    buf_reserved ib = kCheapPrependSize \<and> length (contents ib) \<le> length (in_bytes c) + k"
proof -
  let ?b = "input_buffer c"
  let ?w = "unat (capacity ?b) - unat (write_index ?b)"
  let ?r = "readv ?w (if ?w < extrabuf_size then extrabuf_size else 0)"
  have b: "buf_inv ?b" "buf_reserved ?b = kCheapPrependSize" using assms(1) by (simp_all add: conn_bufs_def)
  show ?thesis
  proof (cases ?r)
    case (Inl e)
    then have "Buffer_ReadFromFD readv ?b = Inr (Inl e, ?b)"
      using unat_writable_inv [OF b(1)] by (simp add: Buffer_ReadFromFD_def Buffer_WritableBytes_inv [OF b(1)])
    then show ?thesis using b by (simp add: in_bytes_def)
  next
    case (Inr bs)
    then have l: "length bs \<le> k" using assms(2) unfolding readv_within_def by blast
    have g: "can_grow ?b (length bs)"
      using assms(3) l b(2) by (simp add: can_grow_def kCheapPrependSize_def in_bytes_def)
    obtain ib where "Buffer_ReadFromFD readv ?b = Inr (Inr (length bs), ib)" "buf_inv ib" "contents ib = contents ?b @ bs"
      using Buffer_ReadFromFD_inv [where readv = readv, OF b(1) g _ Inr] assms(2) by (auto simp: readv_within_def)
    then show ?thesis using l b(2) Buffer_ReadFromFD_reserved by (fastforce simp: in_bytes_def)
  qed
qed

section \<open>Callbacks while the connection is up\<close>

text \<open>An event may also bring at most \<open>k\<close> bytes of input, and may send the output buffer.\<close>

definition grew :: "nat \<Rightarrow> nat \<Rightarrow> TCPConn \<Rightarrow> TCPConn \<Rightarrow> bool" where
  "grew n k c c' \<longleftrightarrow> conn_inv c' \<and> length (out_bytes c') \<le> length (out_bytes c) + n \<and>
     length (in_bytes c') \<le> length (in_bytes c) + k \<and> sends c' \<subseteq> sends c"

lemma kept_grew: "kept n c c' \<Longrightarrow> grew n 0 c c'"
  by (auto simp: kept_def grew_def)

lemma grew_mono: "grew n k c c' \<Longrightarrow> n \<le> n' \<Longrightarrow> k \<le> k' \<Longrightarrow> grew n' k' c c'"
  by (auto simp: grew_def)

lemma grew_trans: "grew n k a b \<Longrightarrow> grew n' k' b c \<Longrightarrow> grew (n + n') (k + k') a c"
  by (auto simp: grew_def)

text \<open>An event the environment may produce: reads are bounded by \<open>k\<close>, the application's own calls are
  civil and small. \<open>fits\<close> says that both buffers can take what \<open>n\<close> more events bring.\<close>

fun event_ok :: "nat \<Rightarrow> nat \<Rightarrow> conn_event \<Rightarrow> bool" where
  "event_ok m k (Ready which readv) = readv_within k readv"
| "event_ok m k RunTask = True"
| "event_ok m k TimerFires = True"
| "event_ok m k (Call a) = (civil_call a \<and> payload a \<le> m)"
| "event_ok m k (Remote d) = (length d \<le> m)"

definition fits :: "nat \<Rightarrow> nat \<Rightarrow> nat \<Rightarrow> TCPConn \<Rightarrow> bool" where
  "fits m k n c \<longleftrightarrow> 16 + 3 * (length (out_bytes c) + n * m) < 2 ^ 63 \<and>
     16 + 3 * (length (in_bytes c) + n * k) < 2 ^ 63 \<and> (\<forall>d \<in> sends c. length d \<le> m)"

lemma fits_grew: "fits m k (Suc n) c \<Longrightarrow> grew m k c c' \<Longrightarrow> fits m k n c'"
  by (auto simp: fits_def grew_def)

lemma fits_room: "fits m k (Suc n) c \<Longrightarrow> room m c"
  by (simp add: fits_def room_def)

text \<open>On a connection that is up, a callback ends with the invariant and has sent at most \<open>m\<close> bytes.\<close>

locale live_user = closing_user +
  fixes m :: nat
  assumes live: "conn_open c \<Longrightarrow> tc_status c = kConnected \<Longrightarrow> room m c \<Longrightarrow>
    \<exists>c'. user f c = Inr c' \<and> kept m c c'"
begin

lemma user_inv:
  assumes "conn_inv c" "room m c"
  shows "\<exists>c'. user f c = Inr c' \<and> kept m c c'"
proof (cases "conn_open c \<and> tc_status c = kConnected")
  case True
  then show ?thesis using live assms(2) by blast
next
  case False
  then have "tc_status c \<in> {kDisconnecting, kDisconnected}" "buf_inv (input_buffer c)"
    using assms(1) by (auto simp: conn_inv_def conn_open_def conn_owing_def conn_gone_def conn_bufs_def)
  then obtain c' where "user f c = Inr c'" "quiet c c'" using closing by blast
  then show ?thesis using kept_mono [OF quiet_inv [OF assms(1)]] by blast
qed

lemma invoke_inv:
  assumes "conn_inv c" "room m c" "f \<noteq> ConnFn" "f \<noteq> CloseFn"
  shows "\<exists>c'. invoke user f c = Inr c' \<and> kept m c c'"
proof -
  let ?c = "c\<lparr>calls := calls c @ [f]\<rparr>"
  have "conn_inv ?c"
    using assms(1,3,4)
    by (auto simp: conn_inv_def conn_open_def conn_owing_def conn_gone_def conn_bufs_def conn_fns_def out_bytes_def)
  moreover have "room m ?c" using assms(2) by (simp add: room_def out_bytes_def)
  ultimately have "\<exists>c'. user f ?c = Inr c' \<and> kept m ?c c'" by (rule user_inv)
  moreover have "same_io c ?c" by (simp add: same_io_def in_bytes_def sends_def chan_gone_def)
  ultimately show ?thesis using kept_same_io by (auto simp: invoke_def)
qed

lemma HandleClose_inv:
  assumes "conn_inv c" "tc_status c \<noteq> kConnected"
  shows "\<exists>c'. HandleClose user env c = Inr c' \<and> kept 0 c c'"
proof (cases "conn_gone c")
  case True
  then show ?thesis using HandleClose_gone assms(1) by (simp add: kept_def)
next
  case False
  then have "conn_owing [] c" "tc_status c = kDisconnecting"
    using assms by (auto simp: conn_inv_def conn_open_def conn_owing_def)
  then show ?thesis using HandleClose_owing by blast
qed

lemma HandleWrite_sent:
  assumes "conn_open c" "out_bytes c \<noteq> []" "sys_send (out_bytes c) c = (Inr n, c1)" "n > 0"
  shows "\<exists>c'. HandleWrite user env c = Inr c' \<and> conn_open c' \<and> out_bytes c' = drop n (out_bytes c) \<and>
    wire c' = wire c @ take n (out_bytes c) \<and> accepted c' = accepted c \<and> in_bytes c' = in_bytes c \<and>
    sends c' = sends c \<and> send_results c' = send_results c1 \<and> write_complete_fn c' = write_complete_fn c \<and>
    (drop n (out_bytes c) = [] \<and> write_complete_fn c \<longrightarrow> TaskCall WriteCompleteFn \<in> set (tasks c'))"
proof -
  obtain ch where ch: "tc_chan c = Some ch" "chan_sync ch" "ch_fd ch = tc_fd c" "read_fn ch" "write_fn ch" "IsWritable ch"
    using assms(1,2) by (auto simp: conn_open_def conn_owing_def)
  have ob: "buf_inv (output_buffer c)" and res: "buf_reserved (output_buffer c) = kCheapPrependSize"
    using assms(1) by (simp_all add: conn_open_def conn_owing_def conn_bufs_def)
  have sl: "Buffer_ToSlice (output_buffer c) = Inr (out_bytes c)"
    using Buffer_ToSlice_inv [OF ob] by (simp add: out_bytes_def)
  obtain rs where n: "n \<le> length (out_bytes c)"
    and c1: "c1 = c\<lparr>send_results := rs, wire := wire c @ take n (out_bytes c)\<rparr>"
    using assms(3) sys_send_Inr by blast
  have n64: "unat (of_nat n :: size_t) = n"
    using n length_contents [OF ob] unat_size_bound [of "write_index (output_buffer c)"]
    by (simp add: unat_of_nat_size out_bytes_def)
  obtain ob1 where ob1: "Buffer_Next (of_nat n) (output_buffer c) = Inr (take n (out_bytes c), ob1)" "buf_inv ob1"
    "contents ob1 = drop n (out_bytes c)"
    using Buffer_Next_inv [OF ob, of "of_nat n"] n64 by (auto simp: out_bytes_def)
  have res1: "buf_reserved ob1 = kCheapPrependSize" using Buffer_Next_reserved ob1(1) res by metis
  have l0: "write_index ob1 - read_index ob1 = 0 \<longleftrightarrow> drop n (out_bytes c) = []"
    using unat_length_inv [OF ob1(2)] ob1(3) by (auto simp: size_eq_iff)
  obtain ch1 where ch1: "DisableWriteEvent env ch = Inr ch1" "chan_sync ch1" "same_ends ch ch1" "\<not> IsWritable ch1"
    using switch_sync(4) [OF ch(2) env_ok] by (auto simp: IsWritable_bit)
  have acc: "accepted c = (wire c @ take n (out_bytes c)) @ drop n (out_bytes c)"
    using assms(1) by (simp add: conn_open_def conn_owing_def)
  have eq: "HandleWrite user env c = (if drop n (out_bytes c) = [] then
      (let c3 = c1\<lparr>output_buffer := ob1, tc_chan := Some ch1\<rparr> in
       Inr (if write_complete_fn c3 then QueueTask (TaskCall WriteCompleteFn) c3 else c3))
      else Inr (c1\<lparr>output_buffer := ob1\<rparr>))"
    using assms(3,4) sl ch ob1(1) ch1(1) c1 Buffer_length_inv [OF ob1(2)] l0
    by (auto simp: HandleWrite_def with_chan_def Let_def)
  show ?thesis
    using assms(1) ch ch1 ob1 res1 acc c1
    by (auto simp: eq Let_def conn_open_def conn_owing_def conn_bufs_def conn_fns_def
        out_bytes_def in_bytes_def sends_def same_ends_def QueueTask_def)
qed

lemma HandleWrite_failed:
  assumes "conn_open c" "out_bytes c \<noteq> []" "sys_send (out_bytes c) c = (r, c1)" "\<forall>n. r = Inr n \<longrightarrow> n = 0"
  shows "\<exists>c'. HandleWrite user env c = Inr c' \<and> grew 0 0 c c'"
proof -
  obtain ch where ch: "tc_chan c = Some ch" "IsWritable ch"
    using assms(1,2) by (auto simp: conn_open_def conn_owing_def)
  have o: "conn_owing [] c" and ob: "buf_inv (output_buffer c)"
    using assms(1) by (simp_all add: conn_open_def conn_owing_def conn_bufs_def)
  have eq: "HandleWrite user env c = (if EVUTIL_ERR_RW_RETRIABLE (errno c1) then Inr c1 else HandleError user env c1)"
    using assms(3,4) ch Buffer_ToSlice_inv [OF ob]
    by (auto simp: HandleWrite_def with_chan_def out_bytes_def split: sum.splits)
  have "conn_owing [] c1 \<and> output_buffer c1 = output_buffer c \<and> input_buffer c1 = input_buffer c \<and> tasks c1 = tasks c"
  proof (cases r)
    case (Inl e)
    then obtain rs where "c1 = c\<lparr>send_results := rs, errno := e\<rparr>" using sys_send_Inl assms(3) by blast
    then show ?thesis using o owing_results by auto
  next
    case (Inr n)
    then obtain rs where "c1 = c\<lparr>send_results := rs, wire := wire c @ take 0 []\<rparr>"
      using sys_send_Inr(2) assms(3,4) by fastforce
    then show ?thesis using o by (simp add: conn_owing_def conn_bufs_def conn_fns_def out_bytes_def)
  qed
  then have "conn_owing [] c1" "grew 0 0 c c1"
    by (auto simp: grew_def conn_inv_def conn_open_def out_bytes_def in_bytes_def sends_def)
  then show ?thesis using eq HandleError_owing [of "[]" c1] kept_grew grew_trans [of 0 0 c c1 0 0] by fastforce
qed

lemma HandleWrite_open:
  assumes "conn_open c" "out_bytes c \<noteq> []"
  shows "\<exists>c'. HandleWrite user env c = Inr c' \<and> grew 0 0 c c'"
proof (cases "\<exists>n. fst (sys_send (out_bytes c) c) = Inr n \<and> n > 0")
  case True
  then obtain n c1 where "sys_send (out_bytes c) c = (Inr n, c1)" "n > 0" by (metis prod.collapse)
  from HandleWrite_sent [OF assms this] show ?thesis by (auto simp: grew_def conn_inv_def)
next
  case False
  then show ?thesis using HandleWrite_failed [OF assms] by (metis fst_conv gr0I surj_pair)
qed

text \<open>A descriptor that takes something each time it is writable receives everything.\<close>

lemma write_event:
  assumes "conn_open c" "out_bytes c \<noteq> []"
  shows "conn_step user env (Ready kWritable readv) c = HandleWrite user env c"
proof -
  obtain ch where ch: "tc_chan c = Some ch" "ch_fd ch = tc_fd c" "write_fn ch"
    using assms by (auto simp: conn_open_def conn_owing_def)
  moreover have "kWritable AND kReadable = 0" "kWritable AND kWritable \<noteq> 0"
    by (simp_all add: chan_consts)
  ultimately show ?thesis using open_output_watched [OF assms] by (simp add: conn_step_def HandleEvent_def)
qed

lemma drain:
  assumes "conn_open c" "send_results c = map Inr ks @ rs" "\<forall>k \<in> set ks. k > 0" "length (out_bytes c) \<le> length ks"
  shows "\<exists>j c'. j \<le> length (out_bytes c) \<and> conn_run user env (replicate j (Ready kWritable readv)) c = Inr c' \<and> conn_open c' \<and>
    out_bytes c' = [] \<and> wire c' = accepted c \<and>
    (out_bytes c \<noteq> [] \<and> write_complete_fn c \<longrightarrow> TaskCall WriteCompleteFn \<in> set (tasks c'))"
  using assms
proof (induction ks arbitrary: c)
  case Nil
  then show ?case by (intro exI [where x = 0]) (simp add: conn_open_def conn_owing_def)
next
  case (Cons k ks)
  show ?case
  proof (cases "out_bytes c = []")
    case True
    then show ?thesis using Cons.prems(1) by (intro exI [where x = 0]) (simp add: conn_open_def conn_owing_def)
  next
    case False
    define n where "n = min k (length (out_bytes c))"
    have s: "sys_send (out_bytes c) c = (Inr n, c\<lparr>send_results := map Inr ks @ rs, wire := wire c @ take k (out_bytes c)\<rparr>)"
      using Cons.prems(2) by (simp add: sys_send_def n_def)
    have n: "n > 0" "n \<le> length (out_bytes c)" using Cons.prems(3) False by (simp_all add: n_def)
    obtain c1 where c1: "HandleWrite user env c = Inr c1" "conn_open c1" "out_bytes c1 = drop n (out_bytes c)"
      "accepted c1 = accepted c" "send_results c1 = map Inr ks @ rs" "write_complete_fn c1 = write_complete_fn c"
      "drop n (out_bytes c) = [] \<and> write_complete_fn c \<longrightarrow> TaskCall WriteCompleteFn \<in> set (tasks c1)"
      using HandleWrite_sent [OF Cons.prems(1) False s n(1)] by auto
    show ?thesis
    proof (cases "out_bytes c1 = []")
      case True
      then have "wire c1 = accepted c1" using c1(2) by (simp add: conn_open_def conn_owing_def)
      then show ?thesis
        using True c1 n write_event [OF Cons.prems(1) False] False
        by (intro exI [where x = 1]) (simp add: Suc_le_eq)
    next
      case False1: False
      have "length (out_bytes c1) \<le> length ks" using Cons.prems(4) n c1(3) by simp
      then obtain j c' where "j \<le> length (out_bytes c1)"
        "conn_run user env (replicate j (Ready kWritable readv)) c1 = Inr c'" "conn_open c'" "out_bytes c' = []"
        "wire c' = accepted c1" "write_complete_fn c1 \<longrightarrow> TaskCall WriteCompleteFn \<in> set (tasks c')"
        using Cons.IH [OF c1(2,5)] Cons.prems(3) False1 by auto
      then show ?thesis
        using c1 n write_event [OF Cons.prems(1) False]
        by (intro exI [where x = "Suc j"]) auto
    qed
  qed
qed

lemma open_with_input:
  assumes "conn_open c" "buf_inv ib" "buf_reserved ib = kCheapPrependSize"
  shows "conn_open (c\<lparr>input_buffer := ib\<rparr>)"
  using assms by (simp add: conn_open_def conn_owing_def conn_bufs_def conn_fns_def out_bytes_def)

lemma HandleClose_now:
  assumes "conn_open c"
  shows "\<exists>c'. HandleClose user env (c\<lparr>tc_status := kDisconnecting\<rparr>) = Inr c' \<and> kept 0 c c'"
proof -
  have "conn_owing [] c" using assms by (simp add: conn_open_def)
  then show ?thesis using HandleError_owing by (auto simp: HandleError_def)
qed

lemma DelayClose_open:
  assumes "conn_open c"
  shows "\<exists>c'. DelayClose user env c = Inr c' \<and> kept 0 c c'"
proof -
  have "conn_owing [] (c\<lparr>tc_status := kDisconnecting, delay_close_timer := False\<rparr>)"
    using assms by (simp add: conn_open_def conn_owing_def conn_bufs_def conn_fns_def out_bytes_def)
  moreover have "same_io c (c\<lparr>tc_status := kDisconnecting, delay_close_timer := False\<rparr>)"
    by (simp add: same_io_def in_bytes_def sends_def chan_gone_def)
  ultimately show ?thesis using HandleClose_owing kept_same_io by (fastforce simp: DelayClose_def)
qed

lemma HandleRead_open:
  assumes "conn_open c" "room m c" "readv_within k readv" "16 + 3 * (length (in_bytes c) + k) < 2 ^ 63"
  shows "\<exists>c'. HandleRead user env readv c = Inr c' \<and> grew m k c c' \<and>
    (\<not> chan_gone c' \<longrightarrow> out_bytes c \<noteq> [] \<longrightarrow> out_bytes c' \<noteq> [])"
proof -
  obtain ch where ch: "tc_chan c = Some ch" "chan_sync ch" "ch_fd ch = tc_fd c" "read_fn ch" "write_fn ch"
    "IsWritable ch \<longleftrightarrow> out_bytes c \<noteq> []"
    using assms(1) by (auto simp: conn_open_def conn_owing_def)
  have bufs: "conn_bufs c" and msg: "msg_fn c"
    using assms(1) by (simp_all add: conn_open_def conn_owing_def conn_fns_def)
  obtain r ib where ib: "Buffer_ReadFromFD readv (input_buffer c) = Inr (r, ib)" "buf_inv ib"
    "buf_reserved ib = kCheapPrependSize" "length (contents ib) \<le> length (in_bytes c) + k"
    using ReadFromFD_conn [OF bufs assms(3,4)] by blast
  let ?c1 = "c\<lparr>input_buffer := ib\<rparr>"
  have o1: "conn_open ?c1" using open_with_input [OF assms(1) ib(2,3)] .
  have up: "grew m k c c' \<and> (\<not> chan_gone c' \<longrightarrow> out_bytes c \<noteq> [] \<longrightarrow> out_bytes c' \<noteq> [])"
    if "kept n ?c1 c'" "n \<le> m" for c' n
    using that ib(4) by (auto simp: grew_def kept_def out_bytes_def in_bytes_def sends_def)
  have rm: "room m ?c1" using assms(2) by (simp add: room_def out_bytes_def)
  consider (msg) n where "r = Inr n" "n > 0" | (eof) "r = Inr 0" | (err) e where "r = Inl e"
    by (cases r) auto
  then show ?thesis
  proof cases
    case (msg n)
    then have "HandleRead user env readv c = invoke user MsgFn ?c1"
      using ib(1) ch(1) \<open>msg_fn c\<close> by (simp add: HandleRead_def with_chan_def Let_def)
    then show ?thesis using invoke_inv [of ?c1 MsgFn] o1 rm up [of m] by (auto simp: conn_inv_def)
  next
    case eof
    obtain ch1 where ch1: "DisableReadEvent env ch = Inr ch1" "chan_sync ch1" "same_ends ch ch1" "IsWritable ch1 \<longleftrightarrow> IsWritable ch"
      using switch_sync(3) [OF ch(2) env_ok] by (auto simp: IsWritable_bit)
    have o2: "conn_open (?c1\<lparr>tc_chan := Some ch1\<rparr>)" "conn_open (?c1\<lparr>tc_chan := Some ch1, delay_close_timer := True\<rparr>)"
      using o1 ch ch1 by (simp_all add: conn_open_def conn_owing_def conn_bufs_def conn_fns_def out_bytes_def same_ends_def)
    have ow: "conn_owing [] ?c1" using o1 by (simp add: conn_open_def)
    have k2: "kept 0 ?c1 c'" if "kept 0 (?c1\<lparr>tc_chan := Some ch1\<rparr>) c'" for c'
      by (rule kept_same_io [OF that])
        (use open_chan_gone [OF ow] in \<open>simp add: same_io_def in_bytes_def sends_def\<close>)
    have "HandleRead user env readv c = (if tc_type c = kOutgoing then HandleClose user env (?c1\<lparr>tc_status := kDisconnecting\<rparr>)
        else if close_delay c = 0 then DelayClose user env (?c1\<lparr>tc_chan := Some ch1\<rparr>)
        else Inr (?c1\<lparr>tc_chan := Some ch1, delay_close_timer := True\<rparr>))"
      using eof ib(1) ch(1) ch1(1) by (auto simp: HandleRead_def with_chan_def Let_def)
    moreover have "kept 0 ?c1 (?c1\<lparr>tc_chan := Some ch1, delay_close_timer := True\<rparr>)"
      by (rule kept_open [OF ow o2(2)]) (simp_all add: out_bytes_def in_bytes_def sends_def)
    ultimately show ?thesis
      using HandleClose_now [OF o1] DelayClose_open [OF o2(1)] k2 up [of 0] by (auto split: if_splits)
  next
    case (err e)
    have o2: "conn_open (?c1\<lparr>errno := e\<rparr>)"
      using o1 by (simp add: conn_open_def conn_owing_def conn_bufs_def conn_fns_def out_bytes_def)
    have "kept 0 ?c1 (?c1\<lparr>errno := e\<rparr>)"
      by (rule kept_open [of "[]", OF _ o2]) (use o1 in \<open>simp_all add: conn_open_def out_bytes_def in_bytes_def sends_def\<close>)
    moreover have "HandleRead user env readv c = (if EVUTIL_ERR_RW_RETRIABLE e then Inr (?c1\<lparr>errno := e\<rparr>)
        else HandleError user env (?c1\<lparr>errno := e\<rparr>))"
      using err ib(1) ch(1) by (simp add: HandleRead_def with_chan_def Let_def)
    ultimately show ?thesis
      using HandleClose_now [OF o2] kept_trans [of 0 ?c1 _ 0] up [of 0] by (fastforce simp: HandleError_def)
  qed
qed

lemma run_task_inv:
  assumes "conn_inv (c\<lparr>tasks := ts\<rparr>)" "room m c" "t \<noteq> TaskCall ConnFn" "t \<noteq> TaskCall CloseFn"
    "\<And>d. t = TaskSend d \<Longrightarrow> length d \<le> m" "t = TaskClose \<Longrightarrow> tc_status c \<noteq> kConnected"
  shows "\<exists>c'. run_task user env t (c\<lparr>tasks := ts\<rparr>) = Inr c' \<and> kept m (c\<lparr>tasks := ts\<rparr>) c'"
proof (cases t)
  case TaskClose
  then show ?thesis using HandleClose_inv [OF assms(1)] assms(6) kept_mono by (fastforce simp: run_task_def)
next
  case (TaskSend d)
  let ?c = "c\<lparr>tasks := ts\<rparr>"
  have d: "length d \<le> m" "room (length d) ?c"
    using TaskSend assms(2,5) by (auto simp: room_def out_bytes_def)
  show ?thesis
  proof (cases "conn_open ?c")
    case True
    then show ?thesis using SendInLoop_open [OF True d(2)] kept_mono d(1) TaskSend by (fastforce simp: run_task_def)
  next
    case False
    then have "SendInLoop user env d ?c = Inr ?c"
      using assms(1) by (simp add: conn_inv_def conn_gone_def SendInLoop_def)
    then show ?thesis using assms(1) TaskSend by (simp add: run_task_def kept_def)
  qed
next
  case (TaskCall f)
  then show ?thesis
    using invoke_inv [OF assms(1), of f] assms(2,3,4) by (simp add: run_task_def room_def out_bytes_def)
qed

lemma Ready_inv:
  assumes "conn_inv c" "room m c" "readv_within k readv" "16 + 3 * (length (in_bytes c) + k) < 2 ^ 63" "delivered which c"
  shows "\<exists>c'. HandleEvent (\<lambda>c. the (tc_chan c)) (HandleRead user env readv) (HandleWrite user env) (tc_fd c) which c
    = Inr c' \<and> grew m k c c'"
proof -
  have o: "conn_open c"
    using assms(1,5) by (auto simp: conn_inv_def conn_gone_def chan_closed_def delivered_def watched_def)
  obtain ch where ch: "tc_chan c = Some ch" "chan_sync ch" "ch_fd ch = tc_fd c" "IsWritable ch \<longleftrightarrow> out_bytes c \<noteq> []"
    using o by (auto simp: conn_open_def conn_owing_def)
  have w: "out_bytes c \<noteq> []" if "which AND kWritable \<noteq> 0"
  proof -
    have "bit which 2" using that unfolding channel_bits by (simp only: and_exp_eq_0_iff_not_bit not_not)
    moreover have "which AND (events ch OR EV_PERSIST) = which"
      using assms(5) ch(1,2) by (auto simp: delivered_def chan_sync_def split: if_splits)
    ultimately have "bit (events ch OR EV_PERSIST) 2" by (metis bit_and_iff)
    then have "bit (events ch) 2" by (simp add: bit_or_iff EV_PERSIST_def)
    then show ?thesis using ch(4) by (simp add: IsWritable_bit)
  qed
  have "\<exists>c1. (if which AND kReadable \<noteq> 0 \<and> read_fn ch then HandleRead user env readv c else Inr c) = Inr c1 \<and>
      grew m k c c1 \<and> (\<not> chan_gone c1 \<longrightarrow> out_bytes c \<noteq> [] \<longrightarrow> out_bytes c1 \<noteq> [])"
    using HandleRead_open [OF o assms(2-4)] assms(1)
    by (cases "which AND kReadable \<noteq> 0 \<and> read_fn ch") (auto simp: grew_def)
  then obtain c1 where c1: "(if which AND kReadable \<noteq> 0 \<and> read_fn ch then HandleRead user env readv c else Inr c) = Inr c1"
    "grew m k c c1" "\<not> chan_gone c1 \<longrightarrow> out_bytes c \<noteq> [] \<longrightarrow> out_bytes c1 \<noteq> []"
    by blast
  show ?thesis
  proof (cases "which AND kWritable \<noteq> 0 \<and> write_fn (the (tc_chan c1))")
    case False
    then show ?thesis using c1(1,2) ch by (auto simp: HandleEvent_def)
  next
    case True
    then have "conn_open c1" "\<not> chan_gone c1"
      using c1(2) open_chan_gone by (auto simp: grew_def conn_inv_def conn_gone_def chan_closed_def conn_open_def)
    then obtain c2 where "HandleWrite user env c1 = Inr c2" "grew 0 0 c1 c2"
      using HandleWrite_open c1(3) w True by blast
    then show ?thesis using True c1(1) ch grew_trans [OF c1(2)] by (fastforce simp: HandleEvent_def)
  qed
qed

lemma conn_step_inv:
  assumes "conn_inv c" "fits m k (Suc n) c" "event_ok m k ev"
  shows "\<exists>c'. conn_step user env ev c = Inr c' \<and> conn_inv c' \<and> fits m k n c'"
proof -
  have rm: "room m c" using fits_room assms(2) .
  have stay: "grew m k c c" using assms(1) by (simp add: grew_def)
  have fin: ?thesis if "\<exists>c'. conn_step user env ev c = Inr c' \<and> grew m k c c'"
    using that fits_grew [OF assms(2)] by (auto simp: grew_def)
  have kg: "grew m k c c'" if "kept n' c c'" "n' \<le> m" for c' n'
    using kept_grew [OF that(1)] grew_mono that(2) by blast
  show ?thesis
  proof (cases ev)
    case (Ready which readv)
    then show ?thesis
      using Ready_inv [OF assms(1) rm, of k readv which] assms(2,3) stay
      by (intro fin) (auto simp: conn_step_def fits_def)
  next
    case RunTask
    show ?thesis
    proof (cases "tasks c")
      case Nil
      then show ?thesis using RunTask stay by (intro fin) (simp add: conn_step_def)
    next
      case (Cons t ts)
      let ?c = "c\<lparr>tasks := ts\<rparr>"
      have "conn_inv ?c"
        using assms(1) Cons by (auto simp: conn_inv_def conn_open_def conn_owing_def conn_gone_def conn_bufs_def
            conn_fns_def out_bytes_def)
      moreover have "t \<noteq> TaskCall ConnFn" "t \<noteq> TaskCall CloseFn" "t = TaskClose \<Longrightarrow> tc_status c \<noteq> kConnected"
        using assms(1) Cons by (auto simp: conn_inv_def conn_open_def conn_owing_def conn_gone_def conn_fns_def)
      moreover have "length d \<le> m" if "t = TaskSend d" for d
        using assms(2) Cons that by (simp add: fits_def sends_def)
      ultimately obtain c' where "run_task user env t ?c = Inr c'" "kept m ?c c'"
        using run_task_inv [where c = c and ts = ts and t = t] rm by blast
      moreover have "same_io c ?c" using Cons by (auto simp: same_io_def in_bytes_def sends_def chan_gone_def)
      ultimately show ?thesis
        using RunTask Cons kept_same_io kg [of m] by (intro fin) (auto simp: conn_step_def)
    qed
  next
    case TimerFires
    then show ?thesis
      using DelayClose_open [of c] assms(1) stay kg [of 0]
      by (intro fin) (auto simp: conn_step_def conn_inv_def conn_gone_def)
  next
    case (Call a)
    then show ?thesis
      using api_exec_inv [OF assms(1), of a] assms(3) rm kg by (intro fin) (auto simp: conn_step_def room_def)
  next
    case (Remote d)
    have "conn_inv (QueueTask (TaskSend d) c)"
      using assms(1) by (auto simp: conn_inv_def conn_open_def conn_owing_def conn_gone_def conn_bufs_def
            conn_fns_def out_bytes_def QueueTask_def)
    moreover have "fits m k n c" "fits m k n (QueueTask (TaskSend d) c)"
      using assms(2,3) Remote by (auto simp: fits_def sends_def out_bytes_def in_bytes_def QueueTask_def)
    ultimately show ?thesis using Remote assms(1) by (simp add: conn_step_def Send_string_def)
  qed
qed

text \<open>A closed connection stays closed.\<close>

lemma conn_step_gone:
  assumes "conn_gone c" "fits m k (Suc n) c" "event_ok m k ev" "conn_step user env ev c = Inr c'"
  shows "conn_gone c'"
proof -
  have inv: "conn_inv c" using assms(1) by (simp add: conn_inv_def)
  have rm: "room m c" using fits_room assms(2) .
  have stays: "conn_gone c2" if "kept m1 c1 c2" "chan_gone c1" for m1 c1 c2
    using that open_chan_gone by (auto simp: kept_def conn_inv_def conn_open_def)
  note cg = gone_chan_gone [OF assms(1)]
  have st: "tc_status c = kDisconnected" using assms(1) by (simp add: conn_gone_def)
  show ?thesis
  proof (cases ev)
    case (Ready which readv)
    have "\<not> delivered which c" using cg by (auto simp: delivered_def chan_gone_def watched_def)
    then show ?thesis using Ready assms(1,4) by (simp add: conn_step_def)
  next
    case RunTask
    show ?thesis
    proof (cases "tasks c")
      case (Cons t ts)
      let ?c = "c\<lparr>tasks := ts\<rparr>"
      have "conn_inv ?c"
        using assms(1) Cons by (auto simp: conn_inv_def conn_gone_def conn_bufs_def conn_fns_def out_bytes_def)
      moreover have "t \<noteq> TaskCall ConnFn" "t \<noteq> TaskCall CloseFn" "t = TaskClose \<Longrightarrow> tc_status c \<noteq> kConnected"
        using assms(1) Cons by (auto simp: conn_gone_def conn_fns_def)
      moreover have "length d \<le> m" if "t = TaskSend d" for d
        using assms(2) Cons that by (simp add: fits_def sends_def)
      ultimately obtain c1 where "run_task user env t ?c = Inr c1" "kept m ?c c1"
        using run_task_inv [where c = c and ts = ts and t = t] rm by blast
      then show ?thesis using RunTask Cons assms(4) stays [of m ?c c1] cg by (auto simp: conn_step_def chan_gone_def)
    qed (use RunTask assms(1,4) in \<open>simp add: conn_step_def\<close>)
  next
    case TimerFires
    then show ?thesis using assms(1,4) by (simp add: conn_step_def conn_gone_def)
  next
    case (Call a)
    have "room (payload a) c" "civil_call a" using rm assms(3) Call by (simp_all add: room_def)
    then show ?thesis using api_exec_inv [OF inv, of a] assms(4) Call stays cg by (auto simp: conn_step_def)
  next
    case (Remote d)
    then show ?thesis using assms(1,4) st by (simp add: conn_step_def Send_string_def)
  qed
qed

lemma conn_run_inv:
  assumes "conn_inv c" "fits m k (length es) c" "list_all (event_ok m k) es"
  shows "\<exists>c'. conn_run user env es c = Inr c' \<and> conn_inv c'"
  using assms
proof (induction es arbitrary: c)
  case (Cons e es)
  then obtain c1 where "conn_step user env e c = Inr c1" "conn_inv c1" "fits m k (length es) c1"
    using conn_step_inv [of c k "length es" e] by auto
  then show ?case using Cons by simp
qed simp

lemma OnAttachedToLoop_inv:
  assumes "conn_bufs c" "conn_fns c" "tc_chan c = Some ch" "chan_sync ch" "ch_fd ch = tc_fd c" "read_fn ch" "write_fn ch"
    "\<not> IsWritable ch" "out_bytes c = []" "accepted c = wire c" "calls c = []" "tasks c = []" "room m c"
  shows "\<exists>c'. OnAttachedToLoop user env c = Inr c' \<and> kept m c c'"
proof -
  obtain ch1 where ch1: "EnableReadEvent env ch = Inr ch1" "chan_sync ch1" "same_ends ch ch1" "\<not> IsWritable ch1"
    using switch_sync(1) [OF assms(4) env_ok] assms(8) by (auto simp: IsWritable_bit)
  let ?c = "c\<lparr>tc_status := kConnected, tc_chan := Some ch1, calls := [ConnFn]\<rparr>"
  have "conn_open ?c"
    using assms ch1 by (simp add: conn_open_def conn_owing_def conn_bufs_def conn_fns_def out_bytes_def same_ends_def)
  moreover have "room m ?c" using assms(13) by (simp add: room_def out_bytes_def)
  ultimately obtain c' where "user ConnFn ?c = Inr c'" "kept m ?c c'" using live [of ?c ConnFn] by auto
  moreover have "same_io c ?c"
    using assms(3,4) by (auto simp: same_io_def in_bytes_def sends_def chan_gone_def chan_sync_def)
  ultimately show ?thesis
    using assms(2,3,11) ch1(1) kept_same_io
    by (auto simp: OnAttachedToLoop_def with_chan_def Let_def conn_fns_def invoke_def)
qed

end

lemma live_user_at:
  assumes "libevent_ok env" "civil m prog"
  shows "live_user (user_at env prog (Suc (Suc n))) env m"
proof -
  note inner = closing_user_at [OF assms, of n]
  have "\<exists>c'. user_at env prog (Suc (Suc n)) f c = Inr c' \<and> kept m c c'" if "conn_open c" "room m c" for f c
  proof -
    let ?as = "prog f c"
    have p: "list_all civil_call ?as" "sum_list (map payload ?as) \<le> m" using assms(2) by (simp_all add: civil_def)
    have "conn_inv c" "room (sum_list (map payload ?as)) c"
      using that p(2) by (simp_all add: conn_inv_def room_def)
    from closing_user.api_run_inv [OF inner this p(1)] show ?thesis using kept_mono p(2) by fastforce
  qed
  then show ?thesis
    using closing_user_at [OF assms, of "Suc n"] by (simp add: live_user_def live_user_axioms_def)
qed

end
