(* ===== verification/Tcp_Conn_Props.thy ===== *)
theory Tcp_Conn_Props
  imports Tcp_Conn_Inv
begin

text \<open>
  The properties of a TCP connection over its whole life, from the descriptor to the last event,
  for applications written in terms of the public methods, and three uses of these methods that
  bring the process down.
\<close>

section \<open>A whole connection\<close>

text \<open>What \<^verbatim>\<open>TCPServer\<close> and \<^verbatim>\<open>TCPClient\<close> do with a new descriptor: make the connection, set its
  callbacks and options, attach it in its loop; then events follow.\<close>

definition conn_setup :: "conn_type \<Rightarrow> int \<Rightarrow> bool \<Rightarrow> size_t option \<Rightarrow> TCPConn \<Rightarrow> TCPConn result" where
  "conn_setup ty delay wc hw c =
     ebind (SetCloseDelayTime delay c) (\<lambda>c0.
     let c1 = SetCloseCallback (SetConnectionCallback (SetMessageCallback (set_type ty c0)));
         c2 = (if wc then SetWriteCompleteCallback c1 else c1) in
     Inr (case hw of None \<Rightarrow> c2 | Some mark \<Rightarrow> SetHighWaterMarkCallback mark c2))"

definition conn_life ::
  "user_code \<Rightarrow> loop_env \<Rightarrow> int \<Rightarrow> (int + nat) list \<Rightarrow> conn_type \<Rightarrow> int \<Rightarrow> bool \<Rightarrow> size_t option \<Rightarrow>
    conn_event list \<Rightarrow> TCPConn result" where
  "conn_life user env f answers ty delay wc hw es =
     ebind (TCPConn_new ''conn'' f ''local'' ''remote'' 1 answers) (\<lambda>c.
     ebind (conn_setup ty delay wc hw c) (\<lambda>c1.
     ebind (OnAttachedToLoop user env c1) (conn_run user env es)))"

text \<open>A connection right after its constructor.\<close>

definition conn_new_ok :: "int \<Rightarrow> TCPConn \<Rightarrow> bool" where
  "conn_new_ok f c \<longleftrightarrow> conn_bufs c \<and> tc_fd c = f \<and> tc_type c = kIncoming \<and> tc_status c = kDisconnected \<and>
     (\<exists>ch. tc_chan c = Some ch \<and> chan_sync ch \<and> ch_fd ch = f \<and> read_fn ch \<and> write_fn ch \<and> \<not> IsWritable ch) \<and>
     out_bytes c = [] \<and> in_bytes c = [] \<and> accepted c = wire c \<and> calls c = [] \<and> tasks c = []"

lemma TCPConn_new_fresh:
  assumes "f > 0"
  shows "\<exists>c. TCPConn_new nm f la ra i answers = Inr c \<and> conn_new_ok f c"
proof -
  have "unat kInitialSize + unat kCheapPrependSize < 2 ^ 63"
    by (simp add: kInitialSize_def kCheapPrependSize_def)
  then obtain b where b: "Buffer_new kInitialSize kCheapPrependSize = Inr b" "buf_inv b" "contents b = []"
    "buf_reserved b = kCheapPrependSize"
    using Buffer_new_inv by blast
  then show ?thesis
    using assms
    by (simp add: TCPConn_new_def FdChannel_new_def SetReadCallback_def SetWriteCallback_def kNone_def conn_new_ok_def
        conn_bufs_def out_bytes_def in_bytes_def chan_sync_def watched_def IsWritable_def)
qed

lemma conn_created:
  assumes "f > 0"
  shows "\<exists>c c1 ch. TCPConn_new ''conn'' f ''local'' ''remote'' 1 answers = Inr c \<and> conn_setup ty delay wc hw c = Inr c1 \<and>
    conn_bufs c1 \<and> conn_fns c1 \<and> tc_chan c1 = Some ch \<and> chan_sync ch \<and> ch_fd ch = tc_fd c1 \<and> read_fn ch \<and> write_fn ch \<and>
    \<not> IsWritable ch \<and> out_bytes c1 = [] \<and> in_bytes c1 = [] \<and> accepted c1 = wire c1 \<and> calls c1 = [] \<and> tasks c1 = []"
proof -
  obtain c where c: "TCPConn_new ''conn'' f ''local'' ''remote'' 1 answers = Inr c" "conn_new_ok f c"
    using TCPConn_new_fresh [OF assms] by blast
  obtain ch where ch: "tc_chan c = Some ch" "chan_sync ch" "ch_fd ch = f" "read_fn ch" "write_fn ch" "\<not> IsWritable ch"
    using c(2) by (auto simp: conn_new_ok_def)
  obtain c1 where c1: "conn_setup ty delay wc hw c = Inr c1" "conn_bufs c1" "conn_fns c1" "tc_chan c1 = Some ch"
    "tc_fd c1 = f" "out_bytes c1 = []" "in_bytes c1 = []" "accepted c1 = wire c1" "calls c1 = []" "tasks c1 = []"
    using c(2) ch(1)
    by (cases hw; cases wc) (auto simp: conn_setup_def SetCloseDelayTime_def Let_def SetCloseCallback_def
        SetConnectionCallback_def SetMessageCallback_def set_type_def SetWriteCompleteCallback_def
        SetHighWaterMarkCallback_def conn_bufs_def conn_fns_def out_bytes_def in_bytes_def conn_new_ok_def)
  show ?thesis using c(1) c1 ch by blast
qed

text \<open>What the properties assume of the surroundings: libevent succeeds, the program is civil, the
  descriptor is valid, and all the events together cannot fill the address space.\<close>

definition admissible ::
  "loop_env \<Rightarrow> nat \<Rightarrow> nat \<Rightarrow> (callback \<Rightarrow> TCPConn \<Rightarrow> api_call list) \<Rightarrow> int \<Rightarrow> conn_event list \<Rightarrow> bool" where
  "admissible env m k prog f es \<longleftrightarrow> libevent_ok env \<and> civil m prog \<and> f > 0 \<and> list_all (event_ok m k) es \<and>
     16 + 3 * (Suc (length es) * max m k) < 2 ^ 63"

lemma conn_life_inv:
  assumes "admissible env m k prog f es"
  shows "\<exists>c'. conn_life (user_at env prog (Suc (Suc n))) env f answers ty delay wc hw es = Inr c' \<and> conn_inv c'"
proof -
  let ?u = "user_at env prog (Suc (Suc n))"
  have a: "libevent_ok env" "civil m prog" "f > 0" "list_all (event_ok m k) es"
    "16 + 3 * (Suc (length es) * max m k) < 2 ^ 63" using assms by (simp_all add: admissible_def)
  note L = live_user_at [OF a(1,2), of n]
  obtain c c1 ch where c1: "TCPConn_new ''conn'' f ''local'' ''remote'' 1 answers = Inr c" "conn_setup ty delay wc hw c = Inr c1"
    "conn_bufs c1" "conn_fns c1" "tc_chan c1 = Some ch" "chan_sync ch" "ch_fd ch = tc_fd c1" "read_fn ch" "write_fn ch"
    "\<not> IsWritable ch" "out_bytes c1 = []" "accepted c1 = wire c1" "calls c1 = []" "tasks c1 = []" "in_bytes c1 = []"
    using conn_created [OF a(3), of answers ty delay wc hw] by blast
  have le: "Suc (length es) * m \<le> Suc (length es) * max m k" "Suc (length es) * k \<le> Suc (length es) * max m k"
    by (rule mult_le_mono2, simp)+
  then have "room m c1" using a(5) c1(11) by (simp add: room_def)
  then obtain c2 where c2: "OnAttachedToLoop ?u env c1 = Inr c2" "kept m c1 c2"
    using live_user.OnAttachedToLoop_inv [OF L c1(3-14)] by blast
  then have "fits m k (length es) c2"
    using le a(5) c1(11,14,15) by (auto simp: fits_def kept_def sends_def)
  then show ?thesis
    using live_user.conn_run_inv [OF L _ _ a(4)] c1(1,2) c2 by (auto simp: conn_life_def kept_def)
qed

lemma conn_life_end:
  assumes "admissible env m k prog f es"
    "conn_life (user_at env prog (Suc (Suc n))) env f answers ty delay wc hw es = Inr c"
  shows "conn_inv c"
  using conn_life_inv [OF assms(1), of n answers ty delay wc hw] assms(2) by (auto simp del: user_at.simps)

section \<open>Properties\<close>

text \<open>The echo server: it sends back what has arrived, at most 100 bytes at a time.\<close>

definition echo_prog :: "callback \<Rightarrow> TCPConn \<Rightarrow> api_call list" where
  "echo_prog f c =
     (if f = MsgFn then
        (case Buffer_ToString (input_buffer c) of
           Inl e \<Rightarrow> [] | Inr d \<Rightarrow> [SendString (take 100 d), Consume 100])
      else [])"

lemma echo_civil: "civil 100 echo_prog"
  by (simp add: civil_def echo_prog_def split: sum.splits)

interpretation echo: live_user "user_at good_env echo_prog (Suc (Suc 0))" good_env 100
  by (rule live_user_at [OF good_env_ok echo_civil])

definition hello_readv :: "nat \<Rightarrow> nat \<Rightarrow> int + byte list" where
  "hello_readv n m = Inr (take (n + m) ''hello'')"

lemma hello_ok [simp]: "readv_within 5 hello_readv"
  by (auto simp: readv_within_def readv_ok_def hello_readv_def)



text \<open>C3. The bytes on the wire are always the beginning of the bytes accepted for sending, in their
  order and without loss or repetition; as long as the connection is not closed the missing ones
  are exactly those in the output buffer.\<close>

theorem TCPConn_stream:
  assumes "admissible env m k prog f es"
    "conn_life (user_at env prog (Suc (Suc 0))) env f answers ty delay wc hw es = Inr c"
  shows "\<exists>rest. accepted c = wire c @ rest \<and> (tc_status c \<noteq> kDisconnected \<longrightarrow> rest = contents (output_buffer c))"
  using conn_life_end [OF assms]
  by (auto simp: conn_inv_def conn_open_def conn_owing_def conn_gone_def out_bytes_def)

theorem TCPConn_stream_witness:
  "\<exists>c rest. conn_life (user_at good_env echo_prog (Suc (Suc 0))) good_env 5 [Inr 2, Inl EAGAIN] kIncoming 0 True None
      [Ready kReadable hello_readv, Ready kWritable hello_readv] = Inr c \<and> accepted c = wire c @ rest"
proof -
  have a: "admissible good_env 100 5 echo_prog 5 [Ready kReadable hello_readv, Ready kWritable hello_readv]"
    by (simp add: admissible_def echo_civil)
  obtain c where c: "conn_life (user_at good_env echo_prog (Suc (Suc 0))) good_env 5 [Inr 2, Inl EAGAIN] kIncoming 0 True None
      [Ready kReadable hello_readv, Ready kWritable hello_readv] = Inr c"
    using conn_life_inv [OF a] by blast
  with TCPConn_stream [OF a c] show ?thesis by blast
qed

text \<open>C18. The application is told of the connection exactly once when it comes up and exactly once when
  it ends, and the owner's close callback runs exactly once, however many of \<^verbatim>\<open>Close\<close>, end of file,
  errors and timers come together.\<close>

theorem TCPConn_callbacks_once:
  assumes "admissible env m k prog f es"
    "conn_life (user_at env prog (Suc (Suc 0))) env f answers ty delay wc hw es = Inr c"
  shows "(count_list (calls c) ConnFn, count_list (calls c) CloseFn) = (if tc_status c = kDisconnected then (2, 1) else (1, 0))"
  using conn_life_end [OF assms]
  by (auto simp: conn_inv_def conn_open_def conn_owing_def conn_gone_def)

theorem TCPConn_callbacks_once_witness:
  "\<exists>c. conn_life (user_at good_env echo_prog (Suc (Suc 0))) good_env 5 [] kIncoming 0 True None
      [Call CloseIfOpen, Call CloseIfOpen, RunTask, RunTask] = Inr c \<and>
    (count_list (calls c) ConnFn, count_list (calls c) CloseFn) = (if tc_status c = kDisconnected then (2, 1) else (1, 0))"
proof -
  have a: "admissible good_env 100 5 echo_prog 5 [Call CloseIfOpen, Call CloseIfOpen, RunTask, RunTask]"
    by (simp add: admissible_def echo_civil)
  obtain c where c: "conn_life (user_at good_env echo_prog (Suc (Suc 0))) good_env 5 [] kIncoming 0 True None
      [Call CloseIfOpen, Call CloseIfOpen, RunTask, RunTask] = Inr c"
    using conn_life_inv [OF a] by blast
  with TCPConn_callbacks_once [OF a c] show ?thesis by blast
qed

text \<open>C19. No stall: in every life of a connection, it is closed, or nothing waits in the output buffer,
  or the event base watches its descriptor for writing, so that \<^verbatim>\<open>HandleWrite\<close> will be called.\<close>

theorem TCPConn_no_stall:
  assumes "admissible env m k prog f es"
    "conn_life (user_at env prog (Suc (Suc 0))) env f answers ty delay wc hw es = Inr c"
  shows "tc_status c = kDisconnected \<or> contents (output_buffer c) = [] \<or> delivered kWritable c"
  using conn_life_end [OF assms] open_output_watched by (auto simp: conn_inv_def conn_gone_def out_bytes_def)

theorem TCPConn_no_stall_witness:
  "\<exists>c. conn_life (user_at good_env echo_prog (Suc (Suc 0))) good_env 5 [Inl EAGAIN] kOutgoing 0 True None
      [Remote ''abc'', RunTask] = Inr c \<and>
    (tc_status c = kDisconnected \<or> contents (output_buffer c) = [] \<or> delivered kWritable c)"
proof -
  have a: "admissible good_env 100 5 echo_prog 5 [Remote ''abc'', RunTask]"
    by (simp add: admissible_def echo_civil)
  obtain c where c: "conn_life (user_at good_env echo_prog (Suc (Suc 0))) good_env 5 [Inl EAGAIN] kOutgoing 0 True None
      [Remote ''abc'', RunTask] = Inr c"
    using conn_life_inv [OF a] by blast
  with TCPConn_no_stall [OF a c] show ?thesis by blast
qed

text \<open>A connection that is up, with \<open>abc\<close> waiting to be sent.\<close>

definition sample_conn :: TCPConn where
  "sample_conn = \<lparr>tc_fd = 5, tc_id = 1, tc_name = ''c'', local_addr = [], remote_addr = [],
     tc_chan = Some \<lparr>attached = True,
       ch_event = Some \<lparr>ev_events = kReadable OR kWritable OR EV_PERSIST, ev_added = True\<rparr>,
       events = kReadable OR kWritable, ch_fd = 5, read_fn = True, write_fn = True\<rparr>,
     input_buffer = sample_buffer, output_buffer = sample_buffer, tc_type = kIncoming, tc_status = kConnected,
     high_water_mark = 1000, close_delay = 0, delay_close_timer = False, conn_fn = True, msg_fn = True,
     write_complete_fn = True, high_water_mark_fn = False, close_fn = True, tasks = [], calls = [ConnFn],
     send_results = [Inr 1, Inr 5, Inr 1], errno = 0, wire = ''x'', accepted = ''xabc''\<rparr>"

lemma sample_conn_open [simp]: "conn_open sample_conn"
  by (simp add: sample_conn_def conn_open_def conn_owing_def conn_bufs_def conn_fns_def out_bytes_def chan_sync_def
      watched_def kCheapPrependSize_def IsWritable_def chan_consts)

text \<open>C20. If the kernel takes at least one byte each time the descriptor is writable, a connection with
  \<open>n\<close> bytes of output has sent all of them after at most \<open>n\<close> write events, and then tells the
  application that the write is complete.\<close>

theorem TCPConn_drains:
  assumes "libevent_ok env" "civil m prog" "conn_open c" "send_results c = map Inr ks @ rs"
    "\<forall>k \<in> set ks. k > 0" "length (contents (output_buffer c)) \<le> length ks"
  shows "\<exists>j c'. j \<le> length (contents (output_buffer c)) \<and>
    conn_run (user_at env prog (Suc (Suc 0))) env (replicate j (Ready kWritable readv)) c = Inr c' \<and>
    contents (output_buffer c') = [] \<and> wire c' = accepted c \<and>
    (contents (output_buffer c) \<noteq> [] \<and> write_complete_fn c \<longrightarrow> TaskCall WriteCompleteFn \<in> set (tasks c'))"
  using live_user.drain [OF live_user_at [OF assms(1,2)] assms(3-5), of 0 readv] assms(6)
  unfolding out_bytes_def by blast

theorem TCPConn_drains_witness:
  "\<exists>j c'. j \<le> 3 \<and> conn_run (user_at good_env echo_prog (Suc (Suc 0))) good_env
      (replicate j (Ready kWritable hello_readv)) sample_conn = Inr c' \<and>
    contents (output_buffer c') = [] \<and> wire c' = ''xabc'' \<and> TaskCall WriteCompleteFn \<in> set (tasks c')"
proof -
  have "send_results sample_conn = map Inr [1, 5, 1] @ []" "length (contents (output_buffer sample_conn)) = 3"
    "accepted sample_conn = ''xabc''" "write_complete_fn sample_conn" "contents (output_buffer sample_conn) \<noteq> []"
    by (simp_all add: sample_conn_def)
  with TCPConn_drains [OF good_env_ok echo_civil sample_conn_open, of "[1, 5, 1]" "[]" hello_readv]
  show ?thesis by simp
qed

section \<open>Uses that fail\<close>

lemma HandleClose_reopened:
  assumes "tc_status c = kDisconnecting" "tc_chan c = Some ch" "chan_closed ch" "in_loop_thread env"
  shows "HandleClose user env c = Inl AssertFail"
  using assms
  by (simp add: HandleClose_def with_chan_def DisableAllEvent_def FdChannel_Close_def chan_closed_def)

text \<open>The sample connection with nothing to send, whose peer is gone.\<close>

definition idle_conn :: TCPConn where
  "idle_conn = sample_conn\<lparr>output_buffer := Buffer_Reset sample_buffer, accepted := ''x'', send_results := [Inl EPIPE],
     tc_chan := Some \<lparr>attached = True, ch_event = Some \<lparr>ev_events = kReadable OR EV_PERSIST, ev_added = True\<rparr>,
       events = kReadable, ch_fd = 5, read_fn = True, write_fn = True\<rparr>\<rparr>"

lemma empty_sample [simp]:
  "buf_inv (Buffer_Reset sample_buffer)" "contents (Buffer_Reset sample_buffer) = []"
  "buf_reserved (Buffer_Reset sample_buffer) = 8"
  using Buffer_Reset_inv [of sample_buffer] by (simp_all add: Buffer_Reset_def Buffer_Truncate_def)

lemma idle_conn_open: "conn_open idle_conn"
  by (simp add: idle_conn_def sample_conn_def conn_open_def conn_owing_def conn_bufs_def conn_fns_def out_bytes_def
      chan_sync_def watched_def kCheapPrependSize_def IsWritable_def chan_consts)

lemma SendInLoop_peer_gone:
  assumes "libevent_ok env" "civil m prog" "conn_open c" "contents (output_buffer c) = []" "send_results c = Inl EPIPE # rs"
  shows "\<exists>c'. SendInLoop (user_at env prog (Suc (Suc 0))) env d c = Inr c' \<and> conn_gone c'"
proof -
  let ?u = "user_at env prog (Suc (Suc 0))"
  let ?c0 = "c\<lparr>accepted := accepted c @ d, send_results := rs, errno := EPIPE\<rparr>"
  have inl: "in_loop_thread env" using assms(1) by (simp add: libevent_ok_def)
  have ob: "buf_inv (output_buffer c)" "tc_status c \<noteq> kDisconnected"
    using assms(3) by (auto simp: conn_open_def conn_owing_def conn_bufs_def)
  obtain ch where ch: "tc_chan c = Some ch" "\<not> IsWritable ch"
    using assms(3,4) by (auto simp: conn_open_def conn_owing_def out_bytes_def)
  have l0: "write_index (output_buffer c) - read_index (output_buffer c) = 0"
    using unat_length_inv [OF ob(1)] assms(4) by (simp add: size_eq_iff)
  have "SendInLoop ?u env d c = HandleError ?u env ?c0"
    using assms(5) inl ch l0 ob(2) Buffer_length_inv [OF ob(1)]
    by (simp add: SendInLoop_def Let_def with_chan_def sys_send_def EVUTIL_ERR_RW_RETRIABLE_def EPIPE_def EAGAIN_def EINTR_def)
  moreover have "conn_owing d ?c0"
    using assms(3) by (simp add: conn_open_def conn_owing_def conn_bufs_def conn_fns_def out_bytes_def)
  moreover note closing_user.HandleError_owing [OF closing_user_at [OF assms(1,2)], of d ?c0 "Suc 0"]
  ultimately show ?thesis by (auto simp del: user_at.simps)
qed

lemma close_gone_aborts:
  assumes "conn_gone c" "in_loop_thread env"
  shows "run_task user env TaskClose (TCPConn_Close c) = Inl AssertFail"
proof -
  obtain ch where "tc_chan c = Some ch" "chan_closed ch" using assms(1) by (auto simp: conn_gone_def)
  then show ?thesis using HandleClose_reopened [of "TCPConn_Close c" ch] assms(2)
    by (simp add: run_task_def TCPConn_Close_def QueueTask_def)
qed

text \<open>\<^verbatim>\<open>Close()\<close> right after a \<^verbatim>\<open>Send\<close> that finds the peer gone brings the process down: \<^verbatim>\<open>Send\<close> has
  closed the connection when the kernel answers \<^verbatim>\<open>EPIPE\<close>, \<^verbatim>\<open>Close\<close> sets the status back to
  \<^verbatim>\<open>kDisconnecting\<close> and the queued \<^verbatim>\<open>HandleClose\<close> passes its guard and fails the assertion in
  \<^verbatim>\<open>FdChannel::Close\<close>.\<close>

theorem Close_after_failed_Send:
  assumes "libevent_ok env" "civil m prog" "conn_open c" "tc_status c = kConnected" "contents (output_buffer c) = []"
    "send_results c = Inl EPIPE # rs"
  shows "ebind (api_run (user_at env prog (Suc (Suc 0))) env [SendString d, Close] c)
      (run_task (user_at env prog (Suc (Suc 0))) env TaskClose) = Inl AssertFail"
proof -
  have inl: "in_loop_thread env" using assms(1) by (simp add: libevent_ok_def)
  obtain c1 where "SendInLoop (user_at env prog (Suc (Suc 0))) env d c = Inr c1" "conn_gone c1"
    using SendInLoop_peer_gone [OF assms(1-3,5,6)] by blast
  then show ?thesis
    using assms(4) inl close_gone_aborts [of c1 env] by (simp add: api_exec_def Send_string_def del: user_at.simps)
qed

theorem Close_after_failed_Send_witness:
  "ebind (api_run (user_at good_env echo_prog (Suc (Suc 0))) good_env [SendString ''bye'', Close] idle_conn)
      (run_task (user_at good_env echo_prog (Suc (Suc 0))) good_env TaskClose) = Inl AssertFail"
  by (rule Close_after_failed_Send [OF good_env_ok echo_civil idle_conn_open, of "[]"])
    (simp_all add: idle_conn_def sample_conn_def)

text \<open>\<^verbatim>\<open>Send(const void*, size_t)\<close>, also reached by \<^verbatim>\<open>Send(const char*)\<close>, called in the loop's thread does
  not test the status. Called in the connection callback that announces the end of the connection,
  when the kernel's buffer is full, it asks the released channel for the write event, which
  dereferences the null event structure.\<close>

theorem Send_data_in_closing_callback:
  assumes "libevent_ok env" "conn_open c" "contents (output_buffer c) = []" "send_results c = []" "d \<noteq> []"
    "can_grow (output_buffer c) (length d)" "\<And>c. prog ConnFn c = [SendData d]"
  shows "HandleError (user_at env prog (Suc (Suc n))) env c = Inl NullPointer"
proof -
  have inl: "in_loop_thread env" using assms(1) by (simp add: libevent_ok_def)
  have ob: "buf_inv (output_buffer c)" and cf: "conn_fn c"
    using assms(2) by (simp_all add: conn_open_def conn_owing_def conn_bufs_def conn_fns_def)
  have l0: "write_index (output_buffer c) - read_index (output_buffer c) = 0"
    using unat_length_inv [OF ob] assms(3) by (simp add: size_eq_iff)
  obtain ch where ch: "tc_chan c = Some ch" "chan_sync ch" using assms(2) by (auto simp: conn_open_def conn_owing_def)
  obtain ch1 where ch1: "DisableAllEvent env ch = Inr ch1" "chan_sync ch1" "events ch1 = kNone"
    using switch_sync(5) [OF ch(2) assms(1)] by blast
  obtain ch2 where ch2: "FdChannel_Close ch1 = Inr ch2" "chan_closed ch2"
    using FdChannel_Close_sync [OF ch1(2,3)] by blast
  obtain b where b: "Buffer_Append d (output_buffer c) = Inr b"
    using Buffer_Write_inv [OF ob assms(6)] by (auto simp: Buffer_Append_def)
  have w: "\<not> IsWritable ch2" "EnableWriteEvent env ch2 = Inl NullPointer"
    using ch2(2) inl
    by (simp_all add: chan_closed_def IsWritable_def EnableWriteEvent_def set_events_def Let_def FdChannel_Update_def
        IsNoneEvent_def AttachToLoop_def event_assign_def chan_consts)
  show ?thesis
    using assms(4,5,7) inl cf ch(1) ch1(1) ch2(1) b w l0 Buffer_length_inv [OF ob]
    by (simp add: HandleError_def HandleClose_def with_chan_def Let_def invoke_def api_exec_def Send_data_def
        SendInLoop_def sys_send_def EVUTIL_ERR_RW_RETRIABLE_def queue_rest_def QueueTask_def)
qed

theorem Send_data_in_closing_callback_witness:
  "HandleError (user_at good_env (\<lambda>_ _. [SendData ''bye'']) (Suc (Suc 0))) good_env
     (idle_conn\<lparr>send_results := []\<rparr>) = Inl NullPointer"
proof -
  have "conn_open (idle_conn\<lparr>send_results := []\<rparr>)"
    using idle_conn_open by (simp add: conn_open_def conn_owing_def conn_bufs_def conn_fns_def out_bytes_def)
  then show ?thesis
    by (rule Send_data_in_closing_callback [OF good_env_ok]) (simp_all add: idle_conn_def sample_conn_def can_grow_def)
qed

text \<open>A connection made from an invalid descriptor, as \<^verbatim>\<open>TCPClient\<close> hands to the application when
  connecting fails, has no channel, and \<^verbatim>\<open>Close()\<close> on it dereferences a null pointer in the loop.\<close>

theorem Close_failed_connection:
  assumes "f < 0" "libevent_ok env"
  shows "ebind (TCPConn_new name f la ra i answers) (\<lambda>c. conn_step user env RunTask (TCPConn_Close c)) = Inl NullPointer"
proof -
  have "unat kInitialSize + unat kCheapPrependSize < 2 ^ 63"
    by (simp add: kInitialSize_def kCheapPrependSize_def)
  then obtain b where "Buffer_new kInitialSize kCheapPrependSize = Inr b" using Buffer_new_inv by blast
  then show ?thesis
    using assms by (simp add: TCPConn_new_def TCPConn_Close_def QueueTask_def conn_step_def run_task_def HandleClose_def
        with_chan_def libevent_ok_def)
qed

theorem Close_failed_connection_witness:
  "ebind (TCPConn_new ''c'' (- 1) ''l'' ''r'' 0 []) (\<lambda>c. conn_step (\<lambda>_ c. Inr c) good_env RunTask (TCPConn_Close c))
    = Inl NullPointer"
  by (rule Close_failed_connection) simp_all

end
