(* ===== verification/Step_System.thy ===== *)
theory Step_System
  imports Prelude
begin

text \<open>
  Interfaces for state machines: a step relation that keeps an invariant, one whose steps also
  use up a measure, so that it always comes to an end, and processes that take turns, of which some use up a measure while
  others wait for them.
\<close>

locale step_system =
  fixes step :: "'s \<Rightarrow> 's \<Rightarrow> bool" and inv :: "'s \<Rightarrow> bool"
  assumes inv_step: "step s s' \<Longrightarrow> inv s \<Longrightarrow> inv s'"
begin

lemma reach_inv: "step\<^sup>*\<^sup>* s s' \<Longrightarrow> inv s \<Longrightarrow> inv s'"
  by (induction rule: rtranclp_induct) (auto intro: inv_step)

end

locale measured_system = step_system +
  fixes mu :: "'a \<Rightarrow> nat"
  assumes decrease: "step s s' \<Longrightarrow> inv s \<Longrightarrow> mu s' < mu s"
begin

lemma run_bound:
  assumes "\<forall>i < n. step (f i) (f (Suc i))" "inv (f 0)"
  shows "inv (f n) \<and> mu (f n) + n \<le> mu (f 0)"
  using assms
proof (induction n)
  case (Suc n)
  then have i: "inv (f n)" "mu (f n) + n \<le> mu (f 0)" and st: "step (f n) (f (Suc n))" by simp_all
  show ?case using inv_step [OF st i(1)] decrease [OF st i(1)] i(2) by simp
qed simp

text \<open>No run is longer than the measure of its first state.\<close>

lemma bounded_runs:
  assumes "inv (f 0)" "\<forall>i < n. step (f i) (f (Suc i))"
  shows "n \<le> mu (f 0)"
  using run_bound [OF assms(2,1)] by simp

end

section \<open>Processes that take turns\<close>

fun run_all :: "('p \<Rightarrow> 's \<Rightarrow> 's result) \<Rightarrow> 'p list \<Rightarrow> 's \<Rightarrow> 's result" where
  "run_all move [] s = Inr s"
| "run_all move (p # ps) s = ebind (move p s) (run_all move ps)"

lemma run_all_append: "run_all move (ps @ qs) s = ebind (run_all move ps s) (run_all move qs)"
  by (induction ps arbitrary: s) (auto simp: ebind_def split: sum.splits)

text \<open>No turn increases the measure; as long as it is not zero, some process would decrease it at its next turn, and the others keep it so.\<close>

locale fair_system =
  fixes move :: "'p \<Rightarrow> 's \<Rightarrow> 's result" and inv :: "'s \<Rightarrow> bool" and mu :: "'s \<Rightarrow> nat"
    and helpful :: "'p \<Rightarrow> 's \<Rightarrow> bool" and procs :: "'p set"
  assumes keeps: "inv s \<Longrightarrow> yields (move p s) (\<lambda>s'. inv s' \<and> mu s' \<le> mu s)"
    and helps: "inv s \<Longrightarrow> helpful p s \<Longrightarrow> yields (move p s) (\<lambda>s'. mu s' < mu s)"
    and someone: "inv s \<Longrightarrow> mu s \<noteq> 0 \<Longrightarrow> \<exists>p \<in> procs. helpful p s"
    and persists: "inv s \<Longrightarrow> helpful p s \<Longrightarrow> q \<noteq> p \<Longrightarrow> yields (move q s) (\<lambda>s'. mu s' < mu s \<or> helpful p s')"
begin

lemma run_keeps: "inv s \<Longrightarrow> yields (run_all move ps s) (\<lambda>s'. inv s' \<and> mu s' \<le> mu s)"
proof (induction ps arbitrary: s)
  case (Cons p ps)
  have "yields (run_all move ps s') (\<lambda>s''. inv s'' \<and> mu s'' \<le> mu s)" if "inv s' \<and> mu s' \<le> mu s" for s'
    by (rule yields_mono [OF Cons.IH]) (use that in auto)
  then show ?case using yields_mono [OF keeps [OF Cons.prems]] by simp
qed simp

lemma run_helps:
  assumes "inv s" "helpful p s" "p \<in> set ps"
  shows "yields (run_all move ps s) (\<lambda>s'. inv s' \<and> mu s' < mu s)"
  using assms
proof (induction ps arbitrary: s)
  case (Cons q ps)
  have later: "yields (run_all move ps s') (\<lambda>s''. inv s'' \<and> mu s'' < mu s)" if "inv s'" "mu s' < mu s" for s'
    by (rule yields_mono [OF run_keeps [OF that(1)]]) (use that(2) in auto)
  have "yields (move q s) (\<lambda>s'. yields (run_all move ps s') (\<lambda>s''. inv s'' \<and> mu s'' < mu s))"
  proof (cases "q = p")
    case True
    show ?thesis unfolding True
      by (rule yields_mono [OF yields_conj [OF keeps [OF Cons.prems(1)] helps [OF Cons.prems(1,2)]]]) (rule later, simp_all)
  next
    case False
    then have mem: "p \<in> set ps" using Cons.prems(3) by simp
    have "yields (run_all move ps s') (\<lambda>s''. inv s'' \<and> mu s'' < mu s)"
      if s': "(inv s' \<and> mu s' \<le> mu s) \<and> (mu s' < mu s \<or> helpful p s')" for s'
    proof (cases "mu s' < mu s")
      case False
      then have "inv s'" "helpful p s'" and m: "mu s' = mu s" using s' by auto
      from Cons.IH [OF this(1,2) mem] show ?thesis unfolding m .
    qed (use later s' in blast)
    then show ?thesis by (rule yields_mono [OF yields_conj [OF keeps [OF Cons.prems(1)] persists [OF Cons.prems(1,2) False]]])
  qed
  then show ?case by simp
qed simp

text \<open>When every process has a turn in each round, enough rounds use up the measure.\<close>

lemma rounds_end:
  assumes "inv s" "\<forall>ps \<in> set rounds. procs \<subseteq> set ps" "mu s \<le> length rounds"
  shows "yields (run_all move (concat rounds) s) (\<lambda>s'. inv s' \<and> mu s' = 0)"
  using assms
proof (induction rounds arbitrary: s)
  case (Cons ps rounds)
  have "yields (run_all move ps s) (\<lambda>s'. inv s' \<and> mu s' \<le> length rounds)"
  proof (cases "mu s = 0")
    case False
    then obtain p where "p \<in> set ps" "helpful p s" using someone [OF Cons.prems(1)] Cons.prems(2) by auto
    from run_helps [OF Cons.prems(1) this(2,1)] show ?thesis by (rule yields_mono) (use Cons.prems(3) in auto)
  qed (use run_keeps [OF Cons.prems(1), of ps] in \<open>auto elim: yields_mono\<close>)
  then have "yields (run_all move ps s) (\<lambda>s'. yields (run_all move (concat rounds) s') (\<lambda>s''. inv s'' \<and> mu s'' = 0))"
    by (rule yields_mono) (use Cons.IH Cons.prems(2) in auto)
  then show ?case by (simp add: run_all_append)
qed simp

end

end
