(* ===== verification/Server_Status.thy ===== *)
theory Server_Status
  imports Prelude
begin

text \<open>
  \<^verbatim>\<open>eventpp::ServerStatus\<close> (include/eventpp/server_status.hpp), the status that loops, threads, pools
  and servers go through, \<^verbatim>\<open>ThreadDispatchPolicy\<close>, and sums over the threads of a system, which the
  invariants of concurrent components use.
\<close>

section \<open>Status\<close>

datatype server_status = kNull | kInitializing | kInitialized | kStarting | kRunning | kStopping | kStopped

datatype sub_status = kSubStatusNull | kStoppingListener | kStoppingThreadPool

datatype Policy = kRoundRobin | kIPAddressHashing

instantiation server_status :: linorder
begin

fun status_value :: "server_status \<Rightarrow> nat" where
  "status_value kNull = 0"
| "status_value kInitializing = 1"
| "status_value kInitialized = 2"
| "status_value kStarting = 3"
| "status_value kRunning = 4"
| "status_value kStopping = 5"
| "status_value kStopped = 6"

definition less_eq_server_status :: "server_status \<Rightarrow> server_status \<Rightarrow> bool" where
  "less_eq_server_status a b \<longleftrightarrow> status_value a \<le> status_value b"

definition less_server_status :: "server_status \<Rightarrow> server_status \<Rightarrow> bool" where
  "less_server_status a b \<longleftrightarrow> status_value a < status_value b"

instance
proof
  fix x y :: server_status
  show "x \<le> y \<Longrightarrow> y \<le> x \<Longrightarrow> x = y"
    by (cases x; cases y; simp add: less_eq_server_status_def)
qed (auto simp: less_eq_server_status_def less_server_status_def)

end

definition Server_StatusToString :: "server_status \<Rightarrow> string" where
  "Server_StatusToString st =
     (case st of kNull \<Rightarrow> ''kNull'' | kInitialized \<Rightarrow> ''kInitialized'' | kRunning \<Rightarrow> ''kRunning''
      | kStopping \<Rightarrow> ''kStopping'' | kStopped \<Rightarrow> ''kStopped'' | _ \<Rightarrow> ''Unknown'')"

section \<open>Sums over threads\<close>

lemma sum_list_upd: "i < length xs \<Longrightarrow> sum_list (xs[i := x]) = sum_list xs + x - xs ! i" for xs :: "int list"
  by (induction xs arbitrary: i) (auto split: nat.splits)

lemma sum_list_map_pos:
  fixes h :: "'b \<Rightarrow> int"
  assumes "\<And>x. h x \<ge> 0"
  shows "sum_list (map h xs) > 0 \<longleftrightarrow> (\<exists>x \<in> set xs. h x > 0)"
proof (induction xs)
  case (Cons x xs)
  have "sum_list (map h xs) \<ge> 0" using assms by (intro sum_list_nonneg) auto
  then show ?case using Cons assms [of x] by (cases "h x = 0") auto
qed simp

lemma sum_list_map_nonneg: "(\<And>x. h x \<ge> (0 :: int)) \<Longrightarrow> sum_list (map h xs) \<ge> 0"
  by (intro sum_list_nonneg) auto

end
