(* ===== verification/Event_Loop.thy ===== *)
theory Event_Loop
  imports Server_Status
begin

text \<open>
  \<^verbatim>\<open>eventpp::EventLoop\<close> (include/eventpp/event_loop.hpp, src/event_loop.cpp): the queue of functors that
  any thread may fill and the loop's thread empties, the flag that suppresses repeated wake-ups and
  the socket pair that wakes the loop (\<^verbatim>\<open>PipeEventWatcher\<close>, src/event_watcher.cpp), with the status of
  the loop from \<^verbatim>\<open>Init\<close> to \<^verbatim>\<open>Stop\<close>. Threads interleave at every atomic access: each thread has a stack of
  program points, \<open>exec_frame\<close> executes one of them, and \<open>loop_step\<close> lets any thread move. The
  memory is sequentially consistent; the queue is the \<^verbatim>\<open>std::vector\<close> under the mutex (neither
  \<^verbatim>\<open>H_HAVE_BOOST\<close> nor \<^verbatim>\<open>H_HAVE_CAMERON314_CONCURRENTQUEUE\<close> is defined by the build).
\<close>

section \<open>State\<close>

text \<open>A functor is \<^verbatim>\<open>StopInLoop\<close>, which \<^verbatim>\<open>Stop\<close> queues, or user code: a number that identifies it
  and the calls on the loop it makes. A callback of another event the loop watches is a list of
  such calls, too.\<close>

datatype Functor = StopInLoop | User nat "action list"
  and action = QueueInLoop Functor | RunInLoop Functor | Stop

text \<open>The points at which a thread can be, named by what it does next.\<close>

datatype frame =
    Body "action list"
  | RunTest Functor
  | Push Functor | CountUp | CasNotified | NotifyTest | NotifySend
  | StopCas | StopAssert | FlushTest | LoopExit
  | ClearNotified | Swap | ForEach "Functor list" | CountDown "Functor list"
  | RunCas | AsyncWait | StoreRunning | Dispatch | ResetWatcher | StoreStopped

text \<open>\<open>watcher\<close> tells whether \<^verbatim>\<open>watcher_\<close> is set, \<open>pipe\<close> counts the bytes waiting in the socket pair,
  which holds \<open>pipe_cap\<close>, \<open>exiting\<close> whether \<^verbatim>\<open>event_base_loopexit\<close> was called, \<open>inputs\<close> are the other
  callbacks the event base has yet to deliver and \<open>watch_ok\<close> the success of \<^verbatim>\<open>event_add\<close>. \<open>queued\<close> and \<open>ran\<close>
  record the functors put into the queue and taken out of it to be called.\<close>

record EventLoop =
  el_status :: server_status
  tid :: nat
  notified :: bool
  pending_functors :: "Functor list"
  pending_functor_count :: int
  watcher :: bool
  pipe :: nat
  pipe_cap :: nat
  exiting :: bool
  inputs :: "action list list"
  watch_ok :: bool
  stacks :: "frame list list"
  queued :: "Functor list"
  ran :: "Functor list"

section \<open>Program points\<close>

fun act_frame :: "action \<Rightarrow> frame" where
  "act_frame (QueueInLoop f) = Push f"
| "act_frame (RunInLoop f) = RunTest f"
| "act_frame Stop = StopCas"

text \<open>\<^verbatim>\<open>FlushPendingFunctors\<close> calls \<^verbatim>\<open>DoPendingFunctors\<close> (\<open>ClearNotified\<close>) until the queue is seen empty.\<close>

definition flush_frames :: "frame list" where
  "flush_frames = [ClearNotified, FlushTest]"

fun call_frames :: "Functor \<Rightarrow> frame list" where
  "call_frames (User n as) = [Body as]"
| "call_frames StopInLoop = StopAssert # flush_frames @ [LoopExit] @ flush_frames"

definition run_frames :: "frame list" where
  "run_frames = [AsyncWait, StoreRunning, Dispatch, ResetWatcher, StoreStopped]"

text \<open>One atomic step of thread \<open>me\<close> at a program point: the points that replace it and the new
  state, or \<open>None\<close> if the thread has to wait. \<open>spur\<close> lets a \<^verbatim>\<open>compare_exchange_weak\<close> fail although the value
  is the expected one; \<open>pick\<close> lets the event base deliver another event before the socket pair.\<close>

fun exec_frame :: "bool \<Rightarrow> bool \<Rightarrow> nat \<Rightarrow> frame \<Rightarrow> EventLoop \<Rightarrow> (frame list \<times> EventLoop) result option" where
  "exec_frame spur pick me (Body []) s = Some (Inr ([], s))"
| "exec_frame spur pick me (Body (a # as)) s = Some (Inr ([act_frame a, Body as], s))"
| "exec_frame spur pick me (RunTest f) s =
     Some (Inr (if el_status s = kRunning \<and> tid s = me then call_frames f else [Push f], s))"
| "exec_frame spur pick me (Push f) s =
     Some (Inr ([CountUp, CasNotified], s\<lparr>pending_functors := pending_functors s @ [f], queued := queued s @ [f]\<rparr>))"
| "exec_frame spur pick me CountUp s =
     Some (Inr ([], s\<lparr>pending_functor_count := pending_functor_count s + 1\<rparr>))"
| "exec_frame spur pick me CasNotified s =
     Some (Inr (if \<not> notified s \<and> \<not> spur then ([NotifyTest], s\<lparr>notified := True\<rparr>) else ([], s)))"
| "exec_frame spur pick me NotifyTest s = Some (Inr (if watcher s then [NotifySend] else [], s))"
| "exec_frame spur pick me NotifySend s =
     Some (if watcher s then Inr ([], s\<lparr>pipe := (if pipe s < pipe_cap s then pipe s + 1 else pipe s)\<rparr>)
           else Inl NullPointer)"
| "exec_frame spur pick me StopCas s =
     Some (Inr (if el_status s = kRunning \<and> \<not> spur then ([Push StopInLoop], s\<lparr>el_status := kStopping\<rparr>) else ([], s)))"
| "exec_frame spur pick me StopAssert s = Some (asserting (el_status s = kStopping) (Inr ([], s)))"
| "exec_frame spur pick me FlushTest s =
     Some (Inr (if pending_functors s = [] then [] else flush_frames, s))"
| "exec_frame spur pick me LoopExit s = Some (Inr ([], s\<lparr>exiting := True\<rparr>))"
| "exec_frame spur pick me ClearNotified s = Some (Inr ([Swap], s\<lparr>notified := False\<rparr>))"
| "exec_frame spur pick me Swap s =
     Some (Inr ([ForEach (pending_functors s)], s\<lparr>pending_functors := []\<rparr>))"
| "exec_frame spur pick me (ForEach []) s = Some (Inr ([], s))"
| "exec_frame spur pick me (ForEach (f # fs)) s =
     Some (Inr (call_frames f @ [CountDown fs], s\<lparr>ran := ran s @ [f]\<rparr>))"
| "exec_frame spur pick me (CountDown fs) s =
     Some (Inr ([ForEach fs], s\<lparr>pending_functor_count := pending_functor_count s - 1\<rparr>))"
| "exec_frame spur pick me RunCas s =
     Some (Inr (if el_status s = kInitialized \<and> \<not> spur then (run_frames, s\<lparr>el_status := kStarting, tid := me\<rparr>)
                else ([], s)))"
| "exec_frame spur pick me AsyncWait s =
     Some (if watch_ok s then Inr ([], s) else Inl (Thrown ''std::runtime_error''))"
| "exec_frame spur pick me StoreRunning s = Some (Inr ([], s\<lparr>el_status := kRunning\<rparr>))"
| "exec_frame spur pick me Dispatch s =
     (if exiting s then Some (Inr ([], s))
      else if pick then
        (case inputs s of [] \<Rightarrow> None | i # is \<Rightarrow> Some (Inr ([Body i, Dispatch], s\<lparr>inputs := is\<rparr>)))
      else if pipe s > 0 then Some (Inr ([ClearNotified, Dispatch], s\<lparr>pipe := pipe s - min (pipe s) 128\<rparr>))
      else None)"
| "exec_frame spur pick me ResetWatcher s = Some (Inr ([], s\<lparr>watcher := False\<rparr>))"
| "exec_frame spur pick me StoreStopped s = Some (Inr ([], s\<lparr>el_status := kStopped\<rparr>))"

definition thread_step :: "bool \<Rightarrow> bool \<Rightarrow> nat \<Rightarrow> EventLoop \<Rightarrow> EventLoop result option" where
  "thread_step spur pick me s =
     (case stacks s ! me of
        [] \<Rightarrow> None
      | fr # k \<Rightarrow>
          map_option (\<lambda>r. ebind r (\<lambda>(new, s'). Inr (s'\<lparr>stacks := (stacks s)[me := new @ k]\<rparr>)))
            (exec_frame spur pick me fr s))"

text \<open>\<open>weak\<close> says whether \<^verbatim>\<open>compare_exchange_weak\<close> can fail spuriously; it cannot on x86-64.\<close>

inductive loop_step :: "bool \<Rightarrow> EventLoop \<Rightarrow> EventLoop \<Rightarrow> bool" for weak :: bool where
  step: "me < length (stacks s) \<Longrightarrow> (spur \<Longrightarrow> weak) \<Longrightarrow> thread_step spur pick me s = Some (Inr s') \<Longrightarrow> loop_step weak s s'"

text \<open>After the constructor (\<^verbatim>\<open>Init\<close> and \<^verbatim>\<open>InitNotifyPipeWatcher\<close>): thread 0 will run the loop, the others
  run their own code.\<close>

definition loop_init :: "nat \<Rightarrow> action list list \<Rightarrow> action list list \<Rightarrow> EventLoop" where
  "loop_init cap ins progs =
     \<lparr>el_status = kInitialized, tid = 0, notified = False, pending_functors = [], pending_functor_count = 0,
      watcher = True, pipe = 0, pipe_cap = cap, exiting = False, inputs = ins, watch_ok = True,
      stacks = [RunCas] # map (\<lambda>as. [Body as]) progs, queued = [], ran = []\<rparr>"

section \<open>Accounting over all threads\<close>

text \<open>\<open>tot w s\<close> adds up the weights of all program points of all threads.\<close>

definition tot :: "(frame \<Rightarrow> int) \<Rightarrow> EventLoop \<Rightarrow> int" where
  "tot w s = sum_list (map (\<lambda>k. sum_list (map w k)) (stacks s))"

lemma tot_update:
  assumes "me < length (stacks s)" "stacks s ! me = fr # k"
  shows "tot w (s'\<lparr>stacks := (stacks s)[me := new @ k]\<rparr>) = tot w s - w fr + sum_list (map w new)"
  using assms by (simp add: tot_def map_update sum_list_upd)

lemma tot_nonneg: "(\<And>fr. w fr \<ge> 0) \<Longrightarrow> tot w s \<ge> 0"
  unfolding tot_def by (intro sum_list_map_nonneg)

lemma tot_pos_iff:
  assumes "\<And>fr. w fr \<ge> 0"
  shows "tot w s > 0 \<longleftrightarrow> (\<exists>k \<in> set (stacks s). \<exists>fr \<in> set k. w fr > 0)"
  unfolding tot_def using assms by (simp add: sum_list_map_pos sum_list_map_nonneg)

lemma tot_ge_head:
  assumes "me < length (stacks s)" "stacks s ! me = fr # k" "\<And>fr. w fr \<ge> 0"
  shows "tot w s \<ge> w fr"
proof -
  have "tot w (s\<lparr>stacks := (stacks s)[me := [] @ k]\<rparr>) \<ge> 0" using assms(3) by (rule tot_nonneg)
  then show ?thesis using tot_update [OF assms(1,2), where w = w and s' = s and new = "[]"] by simp
qed

text \<open>A step, spelled out: some thread replaces its first program point.\<close>

lemma loop_stepE:
  assumes "loop_step weak s s'"
  obtains me fr k spur pick new s1 where "me < length (stacks s)" "stacks s ! me = fr # k" "spur \<longrightarrow> weak"
    "exec_frame spur pick me fr s = Some (Inr (new, s1))" "s' = s1\<lparr>stacks := (stacks s)[me := new @ k]\<rparr>"
  using assms
proof cases
  case (step me spur pick)
  from step(3) obtain fr k r where 1: "stacks s ! me = fr # k" "exec_frame spur pick me fr s = Some r"
    "ebind r (\<lambda>(new, s'). Inr (s'\<lparr>stacks := (stacks s)[me := new @ k]\<rparr>)) = Inr s'"
    by (auto simp: thread_step_def split: list.splits)
  then obtain new s1 where "r = Inr (new, s1)" "s' = s1\<lparr>stacks := (stacks s)[me := new @ k]\<rparr>"
    by (auto simp: ebind_Inr_iff)
  then show ?thesis using that 1(1,2) step(1,2) by blast
qed

lemma step_tot:
  assumes "me < length (stacks s)" "stacks s ! me = fr # k"
    "s' = s1\<lparr>stacks := (stacks s)[me := new @ k]\<rparr>"
  shows "tot w s' = tot w s - w fr + sum_list (map w new)"
  using tot_update [OF assms(1,2)] assms(3) by simp

end
