(* ===== verification/Event_Loop_Props.thy ===== *)
theory Event_Loop_Props
  imports Event_Loop Step_System
begin

text \<open>
  The event loop loses no wake-up and no functor. The invariants add up weights over the program
  points of all threads, so that each needs one look at the steps; termination and liveness are for
  loops that nobody stops.
\<close>

section \<open>No lost wake-up\<close>

fun will_wake :: "frame \<Rightarrow> int" where
  "will_wake NotifyTest = 1"
| "will_wake NotifySend = 1"
| "will_wake ClearNotified = 1"
| "will_wake _ = 0"

fun will_look :: "frame \<Rightarrow> int" where
  "will_look CasNotified = 1"
| "will_look Swap = 1"
| "will_look _ = 0"

lemma will_pos: "will_wake fr > 0 \<longleftrightarrow> fr \<in> {NotifyTest, NotifySend, ClearNotified}" "will_look fr > 0 \<longleftrightarrow> fr \<in> {CasNotified, Swap}"
  by (cases fr; simp)+

lemma will_nonneg: "will_wake fr \<ge> 0" "will_look fr \<ge> 0"
  by (cases fr; simp)+

text \<open>The flag \<open>notified\<close> is set only while a wake-up is under way: a byte waits in the pipe, a thread is
  about to write one, or the loop's thread is about to clear the flag. Functors wait in the queue
  only while the flag is set, or a thread is about to try and set it, or the loop's thread is about
  to take them.\<close>

definition wake_inv :: "EventLoop \<Rightarrow> bool" where
  "wake_inv s \<longleftrightarrow> pipe_cap s > 0 \<and>
     (notified s \<longrightarrow> pipe s > 0 \<or> tot will_wake s > 0 \<or> \<not> watcher s) \<and>
     (pending_functors s \<noteq> [] \<longrightarrow> notified s \<or> tot will_look s > 0)"

abbreviation total :: "(frame \<Rightarrow> int) \<Rightarrow> frame list \<Rightarrow> int" where
  "total w k \<equiv> sum_list (map w k)"

lemma total_act_call [simp]:
  "total will_wake (call_frames f) = (if f = StopInLoop then 2 else 0)" "total will_look (call_frames f) = 0"
  "will_wake (act_frame a) = 0" "will_look (act_frame a) = 0"
  by (cases f; simp add: flush_frames_def)+ (cases a; simp)+

lemma wake_frame:
  assumes "exec_frame False pick me fr s = Some (Inr (new, s1))" "pipe_cap s > 0"
  shows "pipe_cap s1 = pipe_cap s"
    and "notified s1 \<Longrightarrow> pipe s1 > 0 \<or> total will_wake new > 0 \<or> \<not> watcher s1 \<or>
      (notified s \<and> pipe s1 = pipe s \<and> watcher s1 = watcher s \<and> total will_wake new \<ge> will_wake fr)"
    and "pending_functors s1 \<noteq> [] \<Longrightarrow> notified s1 \<or> total will_look new > 0 \<or>
      (pending_functors s \<noteq> [] \<and> notified s1 = notified s \<and> total will_look new \<ge> will_look fr)"
  using assms
  by (cases "(False, pick, me, fr, s)" rule: exec_frame.cases;
      auto simp: flush_frames_def run_frames_def split: if_splits list.splits)+

lemma wake_inv_step:
  assumes "loop_step False s s'" "wake_inv s"
  shows "wake_inv s'"
proof -
  obtain me fr k pick new s1 where st: "me < length (stacks s)" "stacks s ! me = fr # k"
    "exec_frame False pick me fr s = Some (Inr (new, s1))" "s' = s1\<lparr>stacks := (stacks s)[me := new @ k]\<rparr>"
    using assms(1) by (elim loop_stepE) auto
  have i: "pipe_cap s > 0" "notified s \<Longrightarrow> pipe s > 0 \<or> tot will_wake s > 0 \<or> \<not> watcher s"
    "pending_functors s \<noteq> [] \<Longrightarrow> notified s \<or> tot will_look s > 0" using assms(2) by (auto simp: wake_inv_def)
  note w = wake_frame [OF st(3) i(1)]
  have f: "tot will_wake s \<ge> will_wake fr" "tot will_look s \<ge> will_look fr"
    using tot_ge_head [OF st(1,2)] will_nonneg by auto
  have t: "tot will_wake s' = tot will_wake s - will_wake fr + total will_wake new"
    "tot will_look s' = tot will_look s - will_look fr + total will_look new"
    using step_tot [OF st(1,2,4)] by auto
  show ?thesis
    unfolding wake_inv_def
  proof (intro conjI impI)
    show "pipe_cap s' > 0" using w(1) i(1) st(4) by simp
    show "pipe s' > 0 \<or> tot will_wake s' > 0 \<or> \<not> watcher s'" if "notified s'"
      using w(2) that i(2) f(1) t(1) st(4) by fastforce
    show "notified s' \<or> tot will_look s' > 0" if "pending_functors s' \<noteq> []"
      using w(3) that i(3) f(2) t(2) st(4) by fastforce
  qed
qed

section \<open>The counter\<close>

text \<open>A functor is counted after it is queued and discounted after it has run.\<close>

fun to_count :: "frame \<Rightarrow> int" where
  "to_count CountUp = 1"
| "to_count _ = 0"

fun in_flight :: "frame \<Rightarrow> int" where
  "in_flight (ForEach fs) = int (length fs)"
| "in_flight (CountDown fs) = int (length fs) + 1"
| "in_flight _ = 0"

definition count_inv :: "EventLoop \<Rightarrow> bool" where
  "count_inv s \<longleftrightarrow>
     pending_functor_count s + tot to_count s = int (length (pending_functors s)) + tot in_flight s"

lemma count_act_call [simp]:
  "total to_count (call_frames f) = 0" "total in_flight (call_frames f) = 0"
  "to_count (act_frame a) = 0" "in_flight (act_frame a) = 0"
  by (cases f; simp add: flush_frames_def)+ (cases a; simp)+

lemma count_frame:
  assumes "exec_frame spur pick me fr s = Some (Inr (new, s1))"
  shows "pending_functor_count s1 - pending_functor_count s + total to_count new - to_count fr =
    int (length (pending_functors s1)) - int (length (pending_functors s)) + total in_flight new - in_flight fr"
  using assms
  by (cases "(spur, pick, me, fr, s)" rule: exec_frame.cases;
      auto simp: flush_frames_def run_frames_def split: if_splits list.splits)

lemma count_inv_step:
  assumes "loop_step weak s s'" "count_inv s"
  shows "count_inv s'"
proof -
  obtain me fr k spur pick new s1 where st: "me < length (stacks s)" "stacks s ! me = fr # k"
    "exec_frame spur pick me fr s = Some (Inr (new, s1))" "s' = s1\<lparr>stacks := (stacks s)[me := new @ k]\<rparr>"
    using assms(1) by (elim loop_stepE) auto
  show ?thesis
    using assms(2) count_frame [OF st(3)] step_tot [OF st(1,2,4), of to_count] step_tot [OF st(1,2,4), of in_flight] st(4)
    by (simp add: count_inv_def)
qed

section \<open>Loops that nobody stops\<close>

primrec calm :: "Functor \<Rightarrow> bool" and calm_act :: "action \<Rightarrow> bool" where
  "calm StopInLoop = False"
| "calm (User n as) = list_all id (map calm_act as)"
| "calm_act (QueueInLoop f) = calm f"
| "calm_act (RunInLoop f) = calm f"
| "calm_act Stop = False"

text \<open>The steps of code that uses the loop, and those of \<^verbatim>\<open>DoPendingFunctors\<close>.\<close>

fun plain :: "frame \<Rightarrow> bool" where
  "plain (Body as) = list_all calm_act as"
| "plain (RunTest f) = calm f"
| "plain (Push f) = calm f"
| "plain CountUp = True"
| "plain CasNotified = True"
| "plain NotifyTest = True"
| "plain NotifySend = True"
| "plain _ = False"

fun draining :: "frame \<Rightarrow> bool" where
  "draining ClearNotified = True"
| "draining Swap = True"
| "draining (ForEach fs) = list_all calm fs"
| "draining (CountDown fs) = list_all calm fs"
| "draining _ = False"

fun taken :: "frame \<Rightarrow> Functor list" where
  "taken (ForEach fs) = fs"
| "taken (CountDown fs) = fs"
| "taken _ = []"

lemma list_all_id_map: "list_all id (map p xs) = list_all p xs"
  by (simp add: list.pred_map comp_def)

lemma calm_frames:
  "calm f \<Longrightarrow> list_all plain (call_frames f)" "calm_act a \<Longrightarrow> plain (act_frame a)"
  by (cases f; simp add: list_all_id_map) (cases a; simp)

lemma plain_taken: "plain fr \<Longrightarrow> taken fr = []"
  by (cases fr) auto

text \<open>Where the loop's thread can be: before it runs, or in user code or \<^verbatim>\<open>DoPendingFunctors\<close> under the
  dispatcher.\<close>

definition at_rest :: "frame list" where
  "at_rest = [Dispatch, ResetWatcher, StoreStopped]"

definition loop_stack :: "server_status \<Rightarrow> frame list \<Rightarrow> bool" where
  "loop_stack st k \<longleftrightarrow>
     st = kInitialized \<and> k = [RunCas] \<or> k = AsyncWait # StoreRunning # at_rest \<or> k = StoreRunning # at_rest \<or>
     (\<exists>pre d. k = pre @ d @ at_rest \<and> list_all plain pre \<and> (d = [] \<or> (\<exists>x. d = [x] \<and> draining x)))"

definition calm_inv :: "EventLoop \<Rightarrow> bool" where
  "calm_inv s \<longleftrightarrow> stacks s \<noteq> [] \<and> loop_stack (el_status s) (stacks s ! 0) \<and>
     (\<forall>t. 0 < t \<and> t < length (stacks s) \<longrightarrow> list_all plain (stacks s ! t)) \<and>
     list_all calm (pending_functors s) \<and> list_all (list_all calm_act) (inputs s) \<and>
     \<not> exiting s \<and> watcher s \<and> watch_ok s \<and>
     queued s = ran s @ concat (map taken (stacks s ! 0)) @ pending_functors s"

text \<open>A plain step leaves the status, the switches and what has been taken alone, and stays plain.\<close>

lemma plain_step:
  assumes "exec_frame spur pick me fr s = Some (Inr (new, s1))" "plain fr"
  shows "list_all plain new"
    and "el_status s1 = el_status s" "exiting s1 = exiting s" "watcher s1 = watcher s" "watch_ok s1 = watch_ok s"
      "inputs s1 = inputs s" "ran s1 = ran s"
    and "\<exists>fs. pending_functors s1 = pending_functors s @ fs \<and> queued s1 = queued s @ fs \<and> list_all calm fs"
  using assms calm_frames
  by (cases "(spur, pick, me, fr, s)" rule: exec_frame.cases; force split: if_splits)+

lemma taken_plain: "list_all plain k \<Longrightarrow> concat (map taken k) = []"
  by (induction k) (auto simp: plain_taken)

lemma drain_step:
  assumes "exec_frame spur pick me fr s = Some (Inr (new, s1))" "draining fr" "list_all calm (pending_functors s)"
  shows "\<exists>pre d. new = pre @ d \<and> list_all plain pre \<and> (d = [] \<or> (\<exists>x. d = [x] \<and> draining x))"
    and "el_status s1 = el_status s" "exiting s1 = exiting s" "watcher s1 = watcher s" "watch_ok s1 = watch_ok s"
      "inputs s1 = inputs s" "queued s1 = queued s" "list_all calm (pending_functors s1)"
    and "ran s1 @ concat (map taken new) @ pending_functors s1 = ran s @ taken fr @ pending_functors s"
proof -
  show "\<exists>pre d. new = pre @ d \<and> list_all plain pre \<and> (d = [] \<or> (\<exists>x. d = [x] \<and> draining x))"
  proof (cases "\<exists>f fs. fr = ForEach (f # fs)")
    case True
    then obtain f fs where "fr = ForEach (f # fs)" by blast
    then show ?thesis using assms calm_frames(1) [of f]
      by (intro exI [where x = "call_frames f"] exI [where x = "[CountDown fs]"]) auto
  next
    case False
    then show ?thesis using assms
      by (intro exI [where x = "[]"] exI [where x = new], cases "(spur, pick, me, fr, s)" rule: exec_frame.cases) auto
  qed
  show "el_status s1 = el_status s" "exiting s1 = exiting s" "watcher s1 = watcher s" "watch_ok s1 = watch_ok s"
      "inputs s1 = inputs s" "queued s1 = queued s" "list_all calm (pending_functors s1)"
    using assms by (cases "(spur, pick, me, fr, s)" rule: exec_frame.cases; force split: if_splits)+
  show "ran s1 @ concat (map taken new) @ pending_functors s1 = ran s @ taken fr @ pending_functors s"
    using assms calm_frames(1) taken_plain
    by (cases "(spur, pick, me, fr, s)" rule: exec_frame.cases; force split: if_splits)
qed

lemma loop_stack_cases:
  assumes "loop_stack st (fr # k)"
  obtains (start) "st = kInitialized" "fr = RunCas" "k = []"
  | (wait) "fr = AsyncWait" "k = StoreRunning # at_rest"
  | (store) "fr = StoreRunning" "k = at_rest"
  | (code) pre d where "plain fr" "k = pre @ d @ at_rest" "list_all plain pre" "d = [] \<or> (\<exists>x. d = [x] \<and> draining x)"
  | (drain) "draining fr" "k = at_rest"
  | (idle) "fr = Dispatch" "k = [ResetWatcher, StoreStopped]"
proof -
  consider "st = kInitialized \<and> fr # k = [RunCas]" | "fr # k = AsyncWait # StoreRunning # at_rest" | "fr # k = StoreRunning # at_rest"
    | (d) pre d where "fr # k = pre @ d @ at_rest" "list_all plain pre" "d = [] \<or> (\<exists>x. d = [x] \<and> draining x)"
    using assms unfolding loop_stack_def by blast
  then show thesis
  proof cases
    case d
    then show thesis
      using that(4-6) by (cases pre) (auto simp: at_rest_def)
  qed (use that(1-3) in auto)
qed

lemma loop_stackI:
  "list_all plain pre \<Longrightarrow> d = [] \<or> (\<exists>x. d = [x] \<and> draining x) \<Longrightarrow> loop_stack st (pre @ d @ at_rest)"
  unfolding loop_stack_def by blast

lemma taken_at_rest [simp]: "concat (map taken at_rest) = []"
  by (simp add: at_rest_def)

lemma loop_thread_step:
  assumes "exec_frame False pick 0 fr s = Some (Inr (new, s1))" "loop_stack (el_status s) (fr # k)"
    "list_all calm (pending_functors s)" "list_all (list_all calm_act) (inputs s)" "\<not> exiting s" "watcher s" "watch_ok s"
    "queued s = ran s @ concat (map taken (fr # k)) @ pending_functors s"
  shows "loop_stack (el_status s1) (new @ k) \<and> list_all calm (pending_functors s1) \<and>
    list_all (list_all calm_act) (inputs s1) \<and> \<not> exiting s1 \<and> watcher s1 \<and> watch_ok s1 \<and>
    queued s1 = ran s1 @ concat (map taken (new @ k)) @ pending_functors s1"
  using assms(2)
proof (cases rule: loop_stack_cases)
  case start
  then show ?thesis using assms by (auto simp: run_frames_def loop_stack_def at_rest_def)
next
  case wait
  then show ?thesis using assms by (auto simp: loop_stack_def)
next
  case store
  then show ?thesis using assms loop_stackI [of "[]" "[]"] by auto
next
  case (code pre d)
  note p = plain_step [OF assms(1) code(1)]
  have "loop_stack (el_status s1) ((new @ pre) @ d @ at_rest)"
    using p(1) code(3,4) by (intro loop_stackI) auto
  then show ?thesis using assms(3-8) p(2-) code taken_plain [OF p(1)] plain_taken [OF code(1)] by auto
next
  case drain
  note p = drain_step [OF assms(1) drain(1) assms(3)]
  obtain pre d where "new = pre @ d" "list_all plain pre" "d = [] \<or> (\<exists>x. d = [x] \<and> draining x)" using p(1) by blast
  then have "loop_stack (el_status s1) (new @ k)" using loop_stackI [of pre d] drain(2) by auto
  then show ?thesis using assms(4-8) p(2-) drain(2) by auto
next
  case idle
  consider i "is" where "inputs s = i # is" "new = [Body i, Dispatch]" "s1 = s\<lparr>inputs := is\<rparr>"
    | "new = [ClearNotified, Dispatch]" "s1 = s\<lparr>pipe := pipe s - min (pipe s) 128\<rparr>"
    using assms(1,5) idle(1) by (auto split: if_splits list.splits)
  then show ?thesis
  proof cases
    case 1
    then show ?thesis
      using assms(3-8) idle loop_stackI [of "[Body i]" "[]"] by (auto simp: at_rest_def)
  next
    case 2
    then show ?thesis
      using assms(3-8) idle loop_stackI [of "[]" "[ClearNotified]"] by (auto simp: at_rest_def)
  qed
qed

lemma calm_inv_step:
  assumes "loop_step False s s'" "calm_inv s"
  shows "calm_inv s'"
proof -
  obtain me fr k pick new s1 where st: "me < length (stacks s)" "stacks s ! me = fr # k"
    "exec_frame False pick me fr s = Some (Inr (new, s1))" "s' = s1\<lparr>stacks := (stacks s)[me := new @ k]\<rparr>"
    using assms(1) by (elim loop_stepE) auto
  show ?thesis
  proof (cases "me = 0")
    case True
    then show ?thesis
      using loop_thread_step [of pick fr s new s1 k] assms(2) st by (auto simp: calm_inv_def)
  next
    case False
    then have pl: "list_all plain (fr # k)" using assms(2) st(1,2) by (metis calm_inv_def neq0_conv)
    then have "plain fr" "list_all plain k" by simp_all
    then have p: "list_all plain (new @ k)" using plain_step(1) [OF st(3)] by simp
    note q = plain_step(2-) [OF st(3) \<open>plain fr\<close>]
    have z: "stacks s' ! 0 = stacks s ! 0" using False st(4) by simp
    have "list_all plain (stacks s' ! t)" if "0 < t" "t < length (stacks s')" for t
      using that p assms(2) st(1,4) by (cases "t = me") (auto simp: calm_inv_def)
    moreover obtain fs where "pending_functors s1 = pending_functors s @ fs" "queued s1 = queued s @ fs" "list_all calm fs"
      using q(7) by blast
    ultimately show ?thesis
      using assms(2) z q(1-6) st(4) by (auto simp: calm_inv_def)
  qed
qed

section \<open>Every run ends\<close>

text \<open>The work still to be done: \<open>call_work f\<close> bounds the steps of a call of \<open>f\<close>, and every functor in the
  queue, byte in the pipe and callback to come is charged for the steps it will cause.\<close>

primrec call_work :: "Functor \<Rightarrow> nat" and act_work :: "action \<Rightarrow> nat" where
  "call_work StopInLoop = 0"
| "call_work (User n as) = 1 + sum_list (map act_work as)"
| "act_work (QueueInLoop f) = 12 + call_work f"
| "act_work (RunInLoop f) = 13 + call_work f"
| "act_work Stop = 0"

definition queue_work :: "Functor list \<Rightarrow> nat" where
  "queue_work fs = sum_list (map (\<lambda>f. call_work f + 2) fs)"

fun frame_work :: "frame \<Rightarrow> int" where
  "frame_work (Body as) = int (1 + sum_list (map act_work as))"
| "frame_work (RunTest f) = int (12 + call_work f)"
| "frame_work (Push f) = int (11 + call_work f)"
| "frame_work CountUp = 1"
| "frame_work CasNotified = 7"
| "frame_work NotifyTest = 6"
| "frame_work NotifySend = 5"
| "frame_work ClearNotified = 3"
| "frame_work Swap = 2"
| "frame_work (ForEach fs) = int (1 + queue_work fs)"
| "frame_work (CountDown fs) = int (2 + queue_work fs)"
| "frame_work RunCas = 3"
| "frame_work AsyncWait = 1"
| "frame_work StoreRunning = 1"
| "frame_work _ = 0"

definition shared_work :: "EventLoop \<Rightarrow> int" where
  "shared_work s = int (queue_work (pending_functors s) + 4 * pipe s +
     sum_list (map (\<lambda>i. 2 + sum_list (map act_work i)) (inputs s)))"

definition loop_work :: "EventLoop \<Rightarrow> nat" where
  "loop_work s = nat (tot frame_work s + shared_work s)"

lemma frame_work_nonneg: "frame_work fr \<ge> 0"
  by (cases fr) simp_all

lemma work_frames:
  "calm f \<Longrightarrow> total frame_work (call_frames f) = int (call_work f)"
  "calm_act a \<Longrightarrow> frame_work (act_frame a) < int (act_work a)"
  by (cases f; simp) (cases a; simp)

lemma queue_work_simps [simp]:
  "queue_work [] = 0" "queue_work (f # fs) = call_work f + 2 + queue_work fs"
  "queue_work (fs @ gs) = queue_work fs + queue_work gs"
  by (simp_all add: queue_work_def)

lemma work_frame:
  assumes "exec_frame spur pick me fr s = Some (Inr (new, s1))" "plain fr \<or> draining fr \<or> fr \<in> {RunCas, AsyncWait, StoreRunning, Dispatch}"
    "list_all calm (pending_functors s)" "\<not> exiting s"
  shows "total frame_work new + shared_work s1 < frame_work fr + shared_work s"
  using assms work_frames
  by (cases "(spur, pick, me, fr, s)" rule: exec_frame.cases;
      fastforce simp: shared_work_def run_frames_def split: if_splits list.splits)

lemma calm_inv_frame:
  assumes "calm_inv s" "me < length (stacks s)" "stacks s ! me = fr # k"
  shows "plain fr \<or> draining fr \<or> fr \<in> {RunCas, AsyncWait, StoreRunning, Dispatch}"
proof (cases "me = 0")
  case True
  then have "loop_stack (el_status s) (fr # k)" using assms by (simp add: calm_inv_def)
  then show ?thesis by (cases rule: loop_stack_cases) auto
next
  case False
  then have "list_all plain (fr # k)" using assms by (metis calm_inv_def neq0_conv)
  then show ?thesis by simp
qed

lemma loop_work_step:
  assumes "loop_step False s s'" "calm_inv s"
  shows "loop_work s' < loop_work s"
proof -
  obtain me fr k pick new s1 where st: "me < length (stacks s)" "stacks s ! me = fr # k"
    "exec_frame False pick me fr s = Some (Inr (new, s1))" "s' = s1\<lparr>stacks := (stacks s)[me := new @ k]\<rparr>"
    using assms(1) by (elim loop_stepE) auto
  have "total frame_work new + shared_work s1 < frame_work fr + shared_work s"
    using work_frame [OF st(3) calm_inv_frame [OF assms(2) st(1,2)]] assms(2) by (simp add: calm_inv_def)
  moreover have "shared_work s' = shared_work s1" using st(4) by (simp add: shared_work_def)
  moreover have "tot frame_work s' \<ge> 0" "shared_work s' \<ge> 0"
    using frame_work_nonneg by (simp_all add: tot_nonneg shared_work_def)
  ultimately show ?thesis using step_tot [OF st(1,2,4), of frame_work] by (simp add: loop_work_def)
qed

interpretation calm: measured_system "loop_step False" "\<lambda>s. calm_inv s \<and> wake_inv s" loop_work
  by unfold_locales (use calm_inv_step wake_inv_step loop_work_step in blast)+

interpretation wake: step_system "loop_step False" wake_inv
  by unfold_locales (rule wake_inv_step)

interpretation count: step_system "loop_step weak" count_inv for weak
  by unfold_locales (rule count_inv_step)

lemma can_step:
  assumes "me < length (stacks s)" "stacks s ! me = fr # k" "exec_frame False pick me fr s = Some (Inr r)"
  shows "\<exists>x. loop_step False s x"
  using loop_step.step [of me s False False pick] assms
  by (cases r) (auto simp: thread_step_def)

lemma plain_can_step:
  "plain fr \<Longrightarrow> watcher s \<Longrightarrow> \<exists>r. exec_frame spur pick me fr s = Some (Inr r)"
  by (cases "(spur, pick, me, fr, s)" rule: exec_frame.cases) auto

lemma drain_can_step: "draining fr \<Longrightarrow> \<exists>r. exec_frame spur pick me fr s = Some (Inr r)"
  by (cases "(spur, pick, me, fr, s)" rule: exec_frame.cases) auto

text \<open>When no thread can move, the loop waits in the dispatcher, all other threads have finished, and
  nothing is left to do.\<close>

lemma stuck_threads:
  assumes "calm_inv s" "\<not> (\<exists>x. loop_step False s x)"
  shows "stacks s ! 0 = at_rest" "inputs s = []" "pipe s = 0" "\<forall>t. 0 < t \<and> t < length (stacks s) \<longrightarrow> stacks s ! t = []"
proof -
  have c: "watcher s" "watch_ok s" "\<not> exiting s" "0 < length (stacks s)" "loop_stack (el_status s) (stacks s ! 0)"
    using assms(1) by (auto simp: calm_inv_def)
  have stuck: "\<not> (\<exists>r. exec_frame False pick me fr s = Some (Inr r))" if "me < length (stacks s)" "stacks s ! me = fr # k"
    for me fr k pick
    using can_step [OF that] assms(2) by blast
  obtain fr k where fk: "stacks s ! 0 = fr # k"
    using c(5) by (cases "stacks s ! 0") (auto simp: loop_stack_def at_rest_def)
  note st = stuck [OF c(4) fk]
  have fd: "fr = Dispatch \<and> k = [ResetWatcher, StoreStopped]"
    using c(5) [unfolded fk]
  proof (cases rule: loop_stack_cases)
    case code
    then show ?thesis using st plain_can_step c(1) by blast
  next
    case drain
    then show ?thesis using st drain_can_step by blast
  qed (use st c(2) in auto)
  show "stacks s ! 0 = at_rest" using fk fd by (simp add: at_rest_def)
  show "inputs s = []" using st [of True] c(3) fd by (cases "inputs s") auto
  show "pipe s = 0" using st [of False] c(3) fd by (cases "pipe s = 0") auto
  show "\<forall>t. 0 < t \<and> t < length (stacks s) \<longrightarrow> stacks s ! t = []"
  proof (intro allI impI)
    fix t
    assume t: "0 < t \<and> t < length (stacks s)"
    then have "list_all plain (stacks s ! t)" using assms(1) by (simp add: calm_inv_def)
    then show "stacks s ! t = []"
      using stuck [of t] t plain_can_step c(1) by (cases "stacks s ! t") (auto, blast)
  qed
qed

lemma stuck_idle:
  assumes "calm_inv s" "wake_inv s" "\<not> (\<exists>x. loop_step False s x)"
  shows "pending_functors s = []" "ran s = queued s"
proof -
  note t = stuck_threads [OF assms(1,3)]
  have "will_wake fr = 0 \<and> will_look fr = 0" if "k \<in> set (stacks s)" "fr \<in> set k" for k fr
  proof -
    have "fr \<in> set at_rest" using that t(1,4) by (metis empty_iff in_set_conv_nth list.set(1) neq0_conv)
    then show ?thesis by (auto simp: at_rest_def)
  qed
  then have "\<not> tot will_wake s > 0" "\<not> tot will_look s > 0"
    using will_nonneg by (force simp: tot_pos_iff)+
  then show p: "pending_functors s = []" using assms(1,2) t(3) by (auto simp: wake_inv_def calm_inv_def)
  show "ran s = queued s" using assms(1) t(1) p by (simp add: calm_inv_def)
qed

definition calm_code :: "action list list \<Rightarrow> bool" where
  "calm_code progs \<longleftrightarrow> list_all (list_all calm_act) progs"

lemma loop_init_calm:
  assumes "cap > 0" "calm_code ins" "calm_code progs"
  shows "calm_inv (loop_init cap ins progs)"
  using assms by (auto simp: loop_init_def calm_inv_def calm_code_def loop_stack_def list_all_length nth_Cons
      split: nat.splits)

lemma init_wake: "cap > 0 \<Longrightarrow> wake_inv (loop_init cap ins progs)"
  by (simp add: loop_init_def wake_inv_def)

lemma init_count: "count_inv (loop_init cap ins progs)"
  by (simp add: loop_init_def count_inv_def tot_def comp_def sum_list_triv)

section \<open>Schedules\<close>

text \<open>A schedule names the thread that moves next and the choices of that step.\<close>

fun run_schedule :: "(nat \<times> bool \<times> bool) list \<Rightarrow> EventLoop \<Rightarrow> EventLoop option" where
  "run_schedule [] s = Some s"
| "run_schedule ((me, spur, pick) # ss) s =
     (case thread_step spur pick me s of Some (Inr s') \<Rightarrow> run_schedule ss s' | _ \<Rightarrow> None)"

lemma run_schedule_steps:
  assumes "run_schedule ss s = Some s'" "\<forall>(me, spur, pick) \<in> set ss. me < length (stacks s) \<and> (spur \<longrightarrow> weak)"
  shows "(loop_step weak)\<^sup>*\<^sup>* s s'"
  using assms
proof (induction ss arbitrary: s)
  case (Cons x ss)
  obtain me spur pick where x: "x = (me, spur, pick)" by (cases x)
  then obtain s1 where s1: "thread_step spur pick me s = Some (Inr s1)" "run_schedule ss s1 = Some s'"
    using Cons.prems(1) by (auto split: option.splits sum.splits)
  have "loop_step weak s s1" using Cons.prems(2) x s1(1) by (auto intro: loop_step.step)
  moreover have "length (stacks s1) = length (stacks s)"
    using s1(1) by (auto simp: thread_step_def ebind_Inr_iff split: list.splits)
  ultimately show ?case using Cons.IH [OF s1(2)] Cons.prems(2) by (auto intro: converse_rtranclp_into_rtranclp)
qed simp

section \<open>Properties\<close>



text \<open>C15. In a loop that is never stopped (\<open>calm_code\<close>: neither the threads nor the functors they queue call
  \<^verbatim>\<open>Stop\<close>), the functors are called in the order in which they were queued, each at most once, whichever threads
  queued them. A stopped loop gives no such order: \<^verbatim>\<open>StopInLoop\<close> flushes the queue from inside a functor, ahead of the rest of
  the batch.\<close>

theorem functors_in_order:
  assumes "cap > 0" "calm_code ins" "calm_code progs" "(loop_step False)\<^sup>*\<^sup>* (loop_init cap ins progs) s"
  shows "\<exists>rest. queued s = ran s @ rest"
  using calm.reach_inv [OF assms(4)] loop_init_calm [OF assms(1-3)] init_wake [OF assms(1)] by (auto simp: calm_inv_def)

theorem functors_in_order_witness:
  "\<exists>s rest. (loop_step False)\<^sup>*\<^sup>* (loop_init 8 [] [[QueueInLoop (User 7 [])]]) s \<and> queued s = [User 7 []] \<and> queued s = ran s @ rest"
proof -
  let ?i = "loop_init 8 [] [[QueueInLoop (User 7 [])]]"
  obtain s where s: "run_schedule [(1, False, False), (1, False, False)] ?i = Some s" "queued s = [User 7 []]"
    by (simp add: loop_init_def thread_step_def)
  have "(loop_step False)\<^sup>*\<^sup>* ?i s" by (rule run_schedule_steps [OF s(1)]) (simp add: loop_init_def)
  with functors_in_order [of 8 "[]" "[[QueueInLoop (User 7 [])]]" s] s(2) show ?thesis by (auto simp: calm_code_def)
qed

text \<open>C16. In a loop that is never stopped (\<open>calm_code\<close>), either every functor that was queued has been called, the queue
  is empty and all other threads have finished, or some thread can make a step. After a stop it need not hold: functors queued once the
  loop has exited stay in the queue.\<close>

theorem functors_run_or_progress:
  assumes "cap > 0" "calm_code ins" "calm_code progs" "(loop_step False)\<^sup>*\<^sup>* (loop_init cap ins progs) s"
  shows "(ran s = queued s \<and> pending_functors s = [] \<and> inputs s = [] \<and>
      (\<forall>k \<in> set (stacks s). k = [] \<or> k = at_rest)) \<or> (\<exists>s'. loop_step False s s')"
proof (cases "\<exists>s'. loop_step False s s'")
  case False
  have i: "calm_inv s" "wake_inv s"
    using calm.reach_inv [OF assms(4)] loop_init_calm [OF assms(1-3)] init_wake [OF assms(1)] by auto
  note t = stuck_threads [OF i(1) False]
  have "\<forall>k \<in> set (stacks s). k = [] \<or> k = at_rest" using t(1,4) by (metis in_set_conv_nth neq0_conv)
  then show ?thesis using stuck_idle [OF i False] t(2) by simp
qed simp

theorem functors_run_or_progress_witness:
  "\<exists>s. (loop_step False)\<^sup>*\<^sup>* (loop_init 8 [] [[QueueInLoop (User 7 [])]]) s \<and> queued s = [User 7 []] \<and>
    ((ran s = queued s \<and> pending_functors s = [] \<and> inputs s = [] \<and> (\<forall>k \<in> set (stacks s). k = [] \<or> k = at_rest)) \<or>
     (\<exists>s'. loop_step False s s'))"
proof -
  let ?i = "loop_init 8 [] [[QueueInLoop (User 7 [])]]"
  obtain s where s: "run_schedule [(1, False, False), (1, False, False)] ?i = Some s" "queued s = [User 7 []]"
    by (simp add: loop_init_def thread_step_def)
  have "(loop_step False)\<^sup>*\<^sup>* ?i s" by (rule run_schedule_steps [OF s(1)]) (simp add: loop_init_def)
  with functors_run_or_progress [of 8 "[]" "[[QueueInLoop (User 7 [])]]" s] s(2) show ?thesis by (auto simp: calm_code_def)
qed

text \<open>C17. Every run of a loop that is not stopped is finite: it has at most \<open>loop_work\<close> steps, a number
  computed from the programs of the threads and the functors they queue. With the previous
  property, every functor that is queued is eventually called under any fair or unfair scheduling.\<close>

theorem loop_runs_end:
  assumes "cap > 0" "calm_code ins" "calm_code progs" "f 0 = loop_init cap ins progs"
    "\<forall>i < n. loop_step False (f i) (f (Suc i))"
  shows "n \<le> loop_work (loop_init cap ins progs)"
  using calm.bounded_runs [of f n] assms loop_init_calm [OF assms(1-3)] init_wake [OF assms(1)] by simp

theorem loop_runs_end_witness: "(1 :: nat) \<le> loop_work (loop_init 8 [] [[QueueInLoop (User 7 [])]])"
proof -
  let ?i = "loop_init 8 [] [[QueueInLoop (User 7 [])]]"
  obtain s where s: "run_schedule [(1, False, False)] ?i = Some s"
    by (simp add: loop_init_def thread_step_def)
  then have "loop_step False ?i s"
    by (intro loop_step.step [of 1 _ False _ False]) (auto simp: loop_init_def split: option.splits sum.splits)
  then show ?thesis
    using loop_runs_end [of 8 "[]" "[[QueueInLoop (User 7 [])]]" "\<lambda>i. if i = 0 then ?i else s" 1]
    by (simp add: calm_code_def)
qed

text \<open>\<^verbatim>\<open>pending_functor_count_\<close> is exact in every interleaving, also while the loop is being stopped:
  together with the functors queued but not yet counted it is the number of functors that wait in
  the queue or have been taken out of it and have not finished.\<close>

theorem pending_functor_count_exact:
  assumes "(loop_step weak)\<^sup>*\<^sup>* (loop_init cap ins progs) s"
  shows "pending_functor_count s + tot to_count s = int (length (pending_functors s)) + tot in_flight s"
  using count.reach_inv [OF assms init_count] by (simp add: count_inv_def)

theorem pending_functor_count_exact_witness:
  "\<exists>s. (loop_step True)\<^sup>*\<^sup>* (loop_init 8 [] [[QueueInLoop (User 7 [])]]) s \<and> pending_functors s = [User 7 []] \<and>
    pending_functor_count s + tot to_count s = 1"
proof -
  let ?i = "loop_init 8 [] [[QueueInLoop (User 7 [])]]"
  obtain s where s: "run_schedule [(1, False, False), (1, False, False)] ?i = Some s" "pending_functors s = [User 7 []]"
    "tot in_flight s = 0"
    by (simp add: loop_init_def thread_step_def tot_def)
  have "(loop_step True)\<^sup>*\<^sup>* ?i s" by (rule run_schedule_steps [OF s(1)]) (simp add: loop_init_def)
  with pending_functor_count_exact [OF this] s(2,3) show ?thesis by auto
qed

text \<open>\<^verbatim>\<open>QueueInLoop\<close> uses \<^verbatim>\<open>compare_exchange_weak\<close> without a loop. Where it can fail spuriously, a single
  failure leaves a functor in the queue that nobody will run: no thread can move any more.\<close>

theorem weak_cas_loses_wakeup:
  "\<exists>s. (loop_step True)\<^sup>*\<^sup>* (loop_init 8 [] [[QueueInLoop (User 7 [])]]) s \<and> pending_functors s = [User 7 []] \<and>
    \<not> (\<exists>s'. loop_step True s s')"
proof -
  let ?i = "loop_init 8 [] [[QueueInLoop (User 7 [])]]"
  let ?ss = "[(1, False, False), (1, False, False), (1, False, False), (1, True, False), (1, False, False),
    (0, False, False), (0, False, False), (0, False, False)]"
  obtain s where s: "run_schedule ?ss ?i = Some s" "pending_functors s = [User 7 []]" "stacks s = [at_rest, []]"
    "pipe s = 0" "inputs s = []" "\<not> exiting s"
    by (simp add: loop_init_def thread_step_def run_frames_def at_rest_def)
  have "(loop_step True)\<^sup>*\<^sup>* ?i s" by (rule run_schedule_steps [OF s(1)]) (simp add: loop_init_def)
  moreover have "\<not> (\<exists>s'. loop_step True s s')"
    using s(3-) by (auto elim!: loop_stepE simp: at_rest_def nth_Cons split: nat.splits if_splits)
  ultimately show ?thesis using s(2) by blast
qed

text \<open>\<^verbatim>\<open>QueueInLoop\<close> tests \<^verbatim>\<open>watcher_\<close> and then uses it, while the loop's thread resets it after the
  dispatcher returns. A thread that queues a functor while another one stops the loop can
  dereference the null pointer.\<close>

theorem Notify_after_reset:
  "\<exists>s. (loop_step False)\<^sup>*\<^sup>* (loop_init 8 [] [[QueueInLoop (User 7 [])], [Stop]]) s \<and>
    thread_step False False 1 s = Some (Inl NullPointer)"
proof -
  let ?i = "loop_init 8 [] [[QueueInLoop (User 7 [])], [Stop]]"
  let ?ss = "replicate 3 (0, False, False) @ replicate 8 (2, False, False) @ replicate 2 (0, False, False) @
    replicate 5 (1, False, False) @ replicate 19 (0, False, False)"
  obtain s where s: "run_schedule ?ss ?i = Some s" "thread_step False False 1 s = Some (Inl NullPointer)"
    by (simp add: loop_init_def thread_step_def run_frames_def flush_frames_def numeral_eq_Suc)
  have "(loop_step False)\<^sup>*\<^sup>* ?i s"
    by (rule run_schedule_steps [OF s(1)]) (auto simp: loop_init_def)
  then show ?thesis using s(2) by blast
qed

end
