(* ===== verification/Time_Slice.thy ===== *)
theory Time_Slice
  imports Prelude "HOL-Library.Signed_Division"
begin

text \<open>
  The value classes: \<^verbatim>\<open>Duration\<close> (duration_inline.hpp), \<^verbatim>\<open>Timestamp\<close> (timestamp_inline.hpp) and \<^verbatim>\<open>Slice\<close>
  (slice.hpp). Times are counts of nanoseconds in an \<^verbatim>\<open>int64_t\<close>: arithmetic that leaves its range is
  undefined and division truncates towards zero. Conversions to \<^verbatim>\<open>double\<close> are not modelled.
\<close>

section \<open>Signed 64-bit arithmetic\<close>

definition int64 :: "int \<Rightarrow> int result" where
  "int64 x = (if - (2 ^ 63) \<le> x \<and> x < 2 ^ 63 then Inr x else Inl SignedOverflow)"

abbreviation in64 :: "int \<Rightarrow> bool" where
  "in64 x \<equiv> - (2 ^ 63) \<le> x \<and> x < 2 ^ 63"

definition kMicrosecond :: int where "kMicrosecond = 1000"
definition kMillisecond :: int where "kMillisecond = 1000 * 1000"
definition kSecond :: int where "kSecond = 1000 * 1000 * 1000"
definition kMinute :: int where "kMinute = 60 * 1000 * 1000 * 1000"
definition kHour :: int where "kHour = 60 * 60 * 1000 * 1000 * 1000"

record timeval =
  tv_sec :: int
  tv_usec :: int

section \<open>Duration\<close>

record Duration =
  dur_ns :: int

definition Duration_zero :: Duration where
  "Duration_zero = \<lparr>dur_ns = 0\<rparr>"

definition Duration_of_ns :: "int \<Rightarrow> Duration" where
  "Duration_of_ns n = \<lparr>dur_ns = n\<rparr>"

definition Duration_of_timeval :: "timeval \<Rightarrow> Duration result" where
  "Duration_of_timeval t =
     ebind (int64 (tv_sec t * kSecond)) (\<lambda>a. ebind (int64 (tv_usec t * kMicrosecond)) (\<lambda>b.
     ebind (int64 (a + b)) (\<lambda>n. Inr \<lparr>dur_ns = n\<rparr>)))"

definition Duration_Nanoseconds :: "Duration \<Rightarrow> int" where
  "Duration_Nanoseconds d = dur_ns d"

definition Duration_IsZero :: "Duration \<Rightarrow> bool" where
  "Duration_IsZero d \<longleftrightarrow> dur_ns d = 0"

definition Duration_To :: "Duration \<Rightarrow> timeval" where
  "Duration_To d =
     \<lparr>tv_sec = dur_ns d sdiv kSecond, tv_usec = (dur_ns d smod kSecond) sdiv kMicrosecond\<rparr>"

definition Duration_TimeVal :: "Duration \<Rightarrow> timeval" where
  "Duration_TimeVal d = Duration_To d"

definition Duration_less :: "Duration \<Rightarrow> Duration \<Rightarrow> bool" where
  "Duration_less a b \<longleftrightarrow> dur_ns a < dur_ns b"

definition Duration_leq :: "Duration \<Rightarrow> Duration \<Rightarrow> bool" where
  "Duration_leq a b \<longleftrightarrow> dur_ns a \<le> dur_ns b"

definition Duration_greater :: "Duration \<Rightarrow> Duration \<Rightarrow> bool" where
  "Duration_greater a b \<longleftrightarrow> dur_ns a > dur_ns b"

definition Duration_geq :: "Duration \<Rightarrow> Duration \<Rightarrow> bool" where
  "Duration_geq a b \<longleftrightarrow> dur_ns a \<ge> dur_ns b"

definition Duration_eq :: "Duration \<Rightarrow> Duration \<Rightarrow> bool" where
  "Duration_eq a b \<longleftrightarrow> dur_ns a = dur_ns b"

definition Duration_add :: "Duration \<Rightarrow> Duration \<Rightarrow> Duration result" where
  "Duration_add a b = ebind (int64 (dur_ns a + dur_ns b)) (\<lambda>n. Inr (a\<lparr>dur_ns := n\<rparr>))"

definition Duration_sub :: "Duration \<Rightarrow> Duration \<Rightarrow> Duration result" where
  "Duration_sub a b = ebind (int64 (dur_ns a - dur_ns b)) (\<lambda>n. Inr (a\<lparr>dur_ns := n\<rparr>))"

definition Duration_mul :: "Duration \<Rightarrow> int \<Rightarrow> Duration result" where
  "Duration_mul a n = ebind (int64 (dur_ns a * n)) (\<lambda>n. Inr (a\<lparr>dur_ns := n\<rparr>))"

definition Duration_div :: "Duration \<Rightarrow> int \<Rightarrow> Duration result" where
  "Duration_div a n =
     (if n = 0 then Inl (Thrown ''SIGFPE'')
      else ebind (int64 (dur_ns a sdiv n)) (\<lambda>n. Inr (a\<lparr>dur_ns := n\<rparr>)))"

section \<open>Timestamp\<close>

record Timestamp =
  ts_ns :: int

definition Timestamp_zero :: Timestamp where
  "Timestamp_zero = \<lparr>ts_ns = 0\<rparr>"

definition Timestamp_of_ns :: "int \<Rightarrow> Timestamp" where
  "Timestamp_of_ns n = \<lparr>ts_ns = n\<rparr>"

definition Timestamp_of_timeval :: "timeval \<Rightarrow> Timestamp result" where
  "Timestamp_of_timeval t =
     ebind (int64 (tv_sec t * kSecond)) (\<lambda>a. ebind (int64 (tv_usec t * kMicrosecond)) (\<lambda>b.
     ebind (int64 (a + b)) (\<lambda>n. Inr \<lparr>ts_ns = n\<rparr>)))"

definition Timestamp_IsEpoch :: "Timestamp \<Rightarrow> bool" where
  "Timestamp_IsEpoch t \<longleftrightarrow> ts_ns t = 0"

definition Timestamp_To :: "Timestamp \<Rightarrow> timeval" where
  "Timestamp_To t = \<lparr>tv_sec = ts_ns t sdiv kSecond, tv_usec = (ts_ns t smod kSecond) sdiv kMicrosecond\<rparr>"

definition Timestamp_TimeVal :: "Timestamp \<Rightarrow> timeval" where
  "Timestamp_TimeVal t = Timestamp_To t"

definition Timestamp_Unix :: "Timestamp \<Rightarrow> int" where
  "Timestamp_Unix t = ts_ns t sdiv kSecond"

definition Timestamp_UnixNano :: "Timestamp \<Rightarrow> int" where
  "Timestamp_UnixNano t = ts_ns t"

definition Timestamp_UnixMicro :: "Timestamp \<Rightarrow> int" where
  "Timestamp_UnixMicro t = ts_ns t sdiv kMicrosecond"

definition Timestamp_less :: "Timestamp \<Rightarrow> Timestamp \<Rightarrow> bool" where
  "Timestamp_less a b \<longleftrightarrow> ts_ns a < ts_ns b"

definition Timestamp_eq :: "Timestamp \<Rightarrow> Timestamp \<Rightarrow> bool" where
  "Timestamp_eq a b \<longleftrightarrow> ts_ns a = ts_ns b"

definition Timestamp_Add :: "Duration \<Rightarrow> Timestamp \<Rightarrow> Timestamp result" where
  "Timestamp_Add d t = ebind (int64 (ts_ns t + Duration_Nanoseconds d)) (\<lambda>n. Inr (t\<lparr>ts_ns := n\<rparr>))"

definition Timestamp_plus :: "Timestamp \<Rightarrow> Duration \<Rightarrow> Timestamp result" where
  "Timestamp_plus t d = ebind (int64 (ts_ns t + Duration_Nanoseconds d)) (\<lambda>n. Inr (t\<lparr>ts_ns := n\<rparr>))"

definition Timestamp_minus :: "Timestamp \<Rightarrow> Duration \<Rightarrow> Timestamp result" where
  "Timestamp_minus t d = ebind (int64 (ts_ns t - Duration_Nanoseconds d)) (\<lambda>n. Inr (t\<lparr>ts_ns := n\<rparr>))"

definition Timestamp_diff :: "Timestamp \<Rightarrow> Timestamp \<Rightarrow> Duration result" where
  "Timestamp_diff a b = ebind (int64 (ts_ns a - ts_ns b)) (\<lambda>n. Inr (Duration_of_ns n))"

section \<open>Slice\<close>

text \<open>A slice points into memory owned by someone else: \<open>mem\<close> is that object, \<open>data_off\<close> the position of
  \<^verbatim>\<open>data_\<close> in it. \<^verbatim>\<open>memcmp\<close> compares bytes as \<^verbatim>\<open>unsigned char\<close>.\<close>

record Slice =
  mem :: "byte list"
  data_off :: nat
  sl_size :: size_t

definition Slice_empty_new :: Slice where
  "Slice_empty_new = \<lparr>mem = [], data_off = 0, sl_size = 0\<rparr>"

definition Slice_new :: "byte list \<Rightarrow> nat \<Rightarrow> size_t \<Rightarrow> Slice" where
  "Slice_new m off n = \<lparr>mem = m, data_off = off, sl_size = n\<rparr>"

definition Slice_of_string :: "byte list \<Rightarrow> Slice" where
  "Slice_of_string s = \<lparr>mem = s, data_off = 0, sl_size = of_nat (length s)\<rparr>"

definition Slice_size :: "Slice \<Rightarrow> size_t" where
  "Slice_size x = sl_size x"

definition Slice_empty :: "Slice \<Rightarrow> bool" where
  "Slice_empty x \<longleftrightarrow> sl_size x = 0"

definition Slice_nth :: "Slice \<Rightarrow> size_t \<Rightarrow> byte result" where
  "Slice_nth x n = asserting (n < sl_size x)
     (ebind (mem_read (data_off x + unat n) 1 (mem x)) (\<lambda>bs. Inr (hd bs)))"

definition Slice_clear :: "Slice \<Rightarrow> Slice" where
  "Slice_clear x = x\<lparr>mem := [], data_off := 0, sl_size := 0\<rparr>"

definition Slice_remove_prefix :: "size_t \<Rightarrow> Slice \<Rightarrow> Slice result" where
  "Slice_remove_prefix n x = asserting (n \<le> sl_size x)
     (Inr (x\<lparr>data_off := data_off x + unat n, sl_size := sl_size x - n\<rparr>))"

definition Slice_ToString :: "Slice \<Rightarrow> byte list result" where
  "Slice_ToString x = mem_read (data_off x) (unat (sl_size x)) (mem x)"

fun memcmp :: "byte list \<Rightarrow> byte list \<Rightarrow> int" where
  "memcmp (a # as) (b # bs) =
     (if a = b then memcmp as bs else if of_char a < (of_char b :: nat) then -1 else 1)"
| "memcmp _ _ = 0"

definition Slice_eq :: "Slice \<Rightarrow> Slice \<Rightarrow> bool result" where
  "Slice_eq x y =
     (if sl_size x = sl_size y then
        ebind (mem_read (data_off x) (unat (sl_size x)) (mem x)) (\<lambda>a.
        ebind (mem_read (data_off y) (unat (sl_size x)) (mem y)) (\<lambda>b. Inr (memcmp a b = 0)))
      else Inr False)"

definition Slice_neq :: "Slice \<Rightarrow> Slice \<Rightarrow> bool result" where
  "Slice_neq x y = ebind (Slice_eq x y) (\<lambda>b. Inr (\<not> b))"

definition Slice_compare :: "Slice \<Rightarrow> Slice \<Rightarrow> int result" where
  "Slice_compare x b =
     (let min_len = (if sl_size x < sl_size b then sl_size x else sl_size b) in
      ebind (mem_read (data_off x) (unat min_len) (mem x)) (\<lambda>s.
      ebind (mem_read (data_off b) (unat min_len) (mem b)) (\<lambda>t.
      let r = memcmp s t in
      Inr (if r = 0 then (if sl_size x < sl_size b then -1 else if sl_size x > sl_size b then 1 else r) else r))))"

definition Slice_less :: "Slice \<Rightarrow> Slice \<Rightarrow> bool result" where
  "Slice_less x y = ebind (Slice_compare x y) (\<lambda>r. Inr (r < 0))"

section \<open>Correctness of times\<close>

lemma int64_Inr [simp]: "int64 x = Inr y \<longleftrightarrow> in64 x \<and> y = x"
  by (auto simp: int64_def)

text \<open>The whole and the rest of a truncating division by a positive number have the sign of the
  dividend.\<close>

lemma sdiv_between:
  fixes a b :: int
  assumes "b > 0"
  shows "min 0 a \<le> a sdiv b * b \<and> a sdiv b * b \<le> max 0 a"
proof -
  have "0 \<le> \<bar>a\<bar> div b * b" "\<bar>a\<bar> div b * b \<le> \<bar>a\<bar>"
    using assms div_mult_mod_eq [of "\<bar>a\<bar>" b] pos_mod_sign [of b "\<bar>a\<bar>"]
    by (simp add: pos_imp_zdiv_nonneg_iff, linarith)
  then show ?thesis using assms by (auto simp: signed_divide_int_def sgn_if)
qed

lemma sdiv_mult_in64: "b > 0 \<Longrightarrow> in64 a \<Longrightarrow> in64 (a sdiv b * b)" for a :: int
  using sdiv_between [of b a] by (auto simp: min_def max_def split: if_splits)

lemma smod_in64: "b > 0 \<Longrightarrow> in64 a \<Longrightarrow> in64 (a smod b)" for a :: int
  using sdiv_between [of b a] sdiv_mult_smod_eq [of a b] by (auto simp: min_def max_def split: if_splits)

lemma timeval_ns:
  fixes n :: int
  assumes "in64 n"
  shows "in64 (n sdiv kSecond * kSecond)" "in64 ((n smod kSecond) sdiv kMicrosecond * kMicrosecond)"
    "n sdiv kSecond * kSecond + (n smod kSecond) sdiv kMicrosecond * kMicrosecond = n - n smod kMicrosecond"
proof -
  have s: "in64 (n smod kSecond)" using smod_in64 [of kSecond n] assms by (simp add: kSecond_def)
  show "in64 (n sdiv kSecond * kSecond)" "in64 ((n smod kSecond) sdiv kMicrosecond * kMicrosecond)"
    using sdiv_mult_in64 [of kSecond n] sdiv_mult_in64 [of kMicrosecond "n smod kSecond"] assms s
    by (simp_all add: kSecond_def kMicrosecond_def)
  have "(n smod kSecond) smod kMicrosecond = n smod kMicrosecond"
    by (auto simp: signed_modulo_int_def kSecond_def kMicrosecond_def abs_mult sgn_if mod_mod_cancel)
  then show "n sdiv kSecond * kSecond + (n smod kSecond) sdiv kMicrosecond * kMicrosecond = n - n smod kMicrosecond"
    using sdiv_mult_smod_eq [of n kSecond] sdiv_mult_smod_eq [of "n smod kSecond" kMicrosecond] by simp
qed

lemma Duration_timeval:
  "in64 (dur_ns d) \<Longrightarrow> Duration_of_timeval (Duration_To d) = Inr \<lparr>dur_ns = dur_ns d - dur_ns d smod kMicrosecond\<rparr>"
  using timeval_ns [of "dur_ns d"] sdiv_mult_in64 [of kMicrosecond "dur_ns d"] sdiv_mult_smod_eq [of "dur_ns d" kMicrosecond]
  by (simp add: Duration_of_timeval_def Duration_To_def int64_def kMicrosecond_def)

lemma Timestamp_timeval:
  "in64 (ts_ns t) \<Longrightarrow> Timestamp_of_timeval (Timestamp_To t) = Inr \<lparr>ts_ns = ts_ns t - ts_ns t smod kMicrosecond\<rparr>"
  using timeval_ns [of "ts_ns t"] sdiv_mult_in64 [of kMicrosecond "ts_ns t"] sdiv_mult_smod_eq [of "ts_ns t" kMicrosecond]
  by (simp add: Timestamp_of_timeval_def Timestamp_To_def int64_def kMicrosecond_def)

lemma Timestamp_plus_diff:
  "Timestamp_plus t d = Inr t' \<Longrightarrow> in64 (dur_ns d) \<Longrightarrow> Timestamp_diff t' t = Inr d"
  by (cases d, cases t) (auto simp: Timestamp_plus_def Timestamp_diff_def ebind_Inr_iff Duration_Nanoseconds_def Duration_of_ns_def)

section \<open>Correctness of slices\<close>

definition slice_ok :: "Slice \<Rightarrow> bool" where
  "slice_ok x \<longleftrightarrow> data_off x + unat (sl_size x) \<le> length (mem x)"

definition slice_bytes :: "Slice \<Rightarrow> byte list" where
  "slice_bytes x = take (unat (sl_size x)) (drop (data_off x) (mem x))"

lemma slice_read:
  "slice_ok x \<Longrightarrow> n \<le> unat (sl_size x) \<Longrightarrow> mem_read (data_off x) n (mem x) = Inr (take n (slice_bytes x))"
  by (simp add: mem_read_def slice_ok_def slice_bytes_def range_of_def min_def)

lemma length_slice_bytes: "slice_ok x \<Longrightarrow> length (slice_bytes x) = unat (sl_size x)"
  by (simp add: slice_ok_def slice_bytes_def)

text \<open>The lexicographic order of byte strings, as a three-way comparison.\<close>

fun bytes_compare :: "byte list \<Rightarrow> byte list \<Rightarrow> int" where
  "bytes_compare [] [] = 0"
| "bytes_compare [] (b # bs) = -1"
| "bytes_compare (a # as) [] = 1"
| "bytes_compare (a # as) (b # bs) =
     (if of_char a < (of_char b :: nat) then -1 else if of_char b < (of_char a :: nat) then 1 else bytes_compare as bs)"

lemma memcmp_compare:
  "(let n = min (length xs) (length ys); r = memcmp (take n xs) (take n ys) in
    if r = 0 then (if length xs < length ys then -1 else if length xs > length ys then 1 else 0) else r) = bytes_compare xs ys"
proof (induction xs ys rule: bytes_compare.induct)
  case (4 a as b bs)
  then show ?case by (auto simp: Let_def not_less le_less)
qed (auto simp: Let_def)

lemma Slice_compare_bytes:
  assumes "slice_ok x" "slice_ok y"
  shows "Slice_compare x y = Inr (bytes_compare (slice_bytes x) (slice_bytes y))"
proof -
  let ?n = "min (unat (sl_size x)) (unat (sl_size y))"
  have l: "unat (if sl_size x < sl_size y then sl_size x else sl_size y) = ?n"
    by (auto simp: size_less_iff min_def)
  have rd: "mem_read (data_off x) ?n (mem x) = Inr (take ?n (slice_bytes x))"
    "mem_read (data_off y) ?n (mem y) = Inr (take ?n (slice_bytes y))"
    using assms by (simp_all add: slice_read)
  have "Slice_compare x y = Inr (let r = memcmp (take ?n (slice_bytes x)) (take ?n (slice_bytes y)) in
      if r = 0 then (if unat (sl_size x) < unat (sl_size y) then -1 else if unat (sl_size x) > unat (sl_size y) then 1 else 0) else r)"
    unfolding Slice_compare_def Let_def l rd ebind_simps by (simp add: size_less_iff)
  then show ?thesis
    using memcmp_compare [of "slice_bytes x" "slice_bytes y"] by (simp only: Let_def length_slice_bytes assms)
qed

lemma bytes_compare_eq: "bytes_compare xs ys = 0 \<longleftrightarrow> xs = ys"
  by (induction xs ys rule: bytes_compare.induct) (auto simp: not_less le_less)

lemma memcmp_eq: "length xs = length ys \<Longrightarrow> memcmp xs ys = 0 \<longleftrightarrow> xs = ys"
  by (induction xs ys rule: list_induct2) auto

lemma Slice_eq_bytes:
  assumes "slice_ok x" "slice_ok y"
  shows "Slice_eq x y = Inr (slice_bytes x = slice_bytes y)"
proof (cases "sl_size x = sl_size y")
  case True
  then show ?thesis
    using slice_read [OF assms(1)] slice_read [OF assms(2)]
    by (simp add: Slice_eq_def length_slice_bytes assms memcmp_eq)
next
  case False
  then have "length (slice_bytes x) \<noteq> length (slice_bytes y)" using assms by (simp add: length_slice_bytes size_eq_iff)
  then show ?thesis using False by (auto simp: Slice_eq_def)
qed

lemma Slice_remove_prefix_bytes:
  assumes "slice_ok x" "n \<le> sl_size x"
  shows "\<exists>y. Slice_remove_prefix n x = Inr y \<and> slice_ok y \<and> slice_bytes y = drop (unat n) (slice_bytes x)"
proof -
  have "unat (sl_size x - n) = unat (sl_size x) - unat n" using assms(2) by (simp add: unat_sub_size size_le_iff)
  then show ?thesis
    using assms by (simp add: Slice_remove_prefix_def slice_ok_def slice_bytes_def size_le_iff drop_take add.commute)
qed

lemma Slice_ToString_bytes: "slice_ok x \<Longrightarrow> Slice_ToString x = Inr (slice_bytes x)"
  using slice_read [of x "unat (sl_size x)"] by (simp add: Slice_ToString_def length_slice_bytes)

section \<open>Properties\<close>

text \<open>A duration and a time stamp survive the conversion to a \<^verbatim>\<open>struct timeval\<close> and back to the
  microsecond: what is lost is the remainder below one microsecond, for negative values too, and
  no step overflows.\<close>

theorem timeval_roundtrip:
  assumes "in64 n"
  shows "Duration_of_timeval (Duration_To \<lparr>dur_ns = n\<rparr>) = Inr \<lparr>dur_ns = n - n smod kMicrosecond\<rparr> \<and>
    Timestamp_of_timeval (Timestamp_To \<lparr>ts_ns = n\<rparr>) = Inr \<lparr>ts_ns = n - n smod kMicrosecond\<rparr>"
  using Duration_timeval [of "\<lparr>dur_ns = n\<rparr>"] Timestamp_timeval [of "\<lparr>ts_ns = n\<rparr>"] assms by simp

theorem timeval_roundtrip_witness:
  "Duration_of_timeval (Duration_To \<lparr>dur_ns = -1500000999\<rparr>) = Inr \<lparr>dur_ns = -1500000000\<rparr>"
  using timeval_roundtrip [of "-1500000999"] by (simp add: kMicrosecond_def signed_modulo_int_def)

text \<open>\<^verbatim>\<open>Slice::compare\<close> is the lexicographic order of the bytes the slices refer to, bytes being
  unsigned and a proper prefix smaller, and \<^verbatim>\<open>operator==\<close> holds exactly when they refer to equal
  strings, as \<^verbatim>\<open>compare\<close> also says.\<close>

theorem Slice_compare_lexicographic:
  assumes "slice_ok x" "slice_ok y"
  shows "Slice_compare x y = Inr (bytes_compare (slice_bytes x) (slice_bytes y)) \<and>
    Slice_eq x y = Inr (slice_bytes x = slice_bytes y) \<and>
    (bytes_compare (slice_bytes x) (slice_bytes y) = 0) = (slice_bytes x = slice_bytes y)"
  using Slice_compare_bytes [OF assms] Slice_eq_bytes [OF assms] bytes_compare_eq by simp

theorem Slice_compare_lexicographic_witness:
  "Slice_compare (Slice_new ''xabc'' 1 2) (Slice_of_string ''abz'') = Inr (-1)"
  using Slice_compare_lexicographic [of "Slice_new ''xabc'' 1 2" "Slice_of_string ''abz''"]
  by (simp add: slice_ok_def slice_bytes_def Slice_new_def Slice_of_string_def take_Cons' of_nat_numeral)

end
