(* ===== verification/Sockets.thy ===== *)
theory Sockets
  imports Buffer_Props Time_Slice
begin

text \<open>
  Addresses and strings: \<^verbatim>\<open>StringSplit\<close> (utility.hpp) and the address functions of src/sockets.cpp. A
  \<^verbatim>\<open>struct sockaddr_storage\<close> is the list of its 128 bytes, so that the overlay of \<^verbatim>\<open>sockaddr_in\<close> and
  \<^verbatim>\<open>sockaddr_in6\<close> is what it is in memory. \<^verbatim>\<open>evutil_inet_pton\<close>, \<^verbatim>\<open>evutil_inet_ntop\<close> and the system calls
  are parameters.
\<close>

section \<open>Splitting strings\<close>

definition find_first_of :: "string \<Rightarrow> nat \<Rightarrow> string \<Rightarrow> nat option" where
  "find_first_of delims start s =
     (let i = length (takeWhile (\<lambda>c. c \<notin> set delims) (drop start s)) in
      if start + i < length s then Some (start + i) else None)"

lemma find_first_of_Some:
  "find_first_of delims start s = Some p \<Longrightarrow> start \<le> p \<and> p < length s"
  by (auto simp: find_first_of_def Let_def split: if_splits)

text \<open>The \<^verbatim>\<open>do\<close> loop of \<^verbatim>\<open>StringSplit\<close>; \<open>num\<close> is the \<^verbatim>\<open>unsigned int\<close> counter.\<close>

function split_loop :: "string \<Rightarrow> string \<Rightarrow> 32 word \<Rightarrow> nat \<Rightarrow> 32 word \<Rightarrow> string list \<Rightarrow> string list" where
  "split_loop str delims maxSplits start num ret =
     (case find_first_of delims start str of
        None \<Rightarrow> ret @ [drop start str]
      | Some pos \<Rightarrow>
          if pos = start then split_loop str delims maxSplits (pos + 1) (num + 1) (ret @ [[]])
          else if maxSplits \<noteq> 0 \<and> num + 1 = maxSplits then ret @ [drop start str]
          else split_loop str delims maxSplits (pos + 1) (num + 1) (ret @ [take (pos - start) (drop start str)]))"
  by pat_completeness auto
termination
  by (relation "measure (\<lambda>(str, _, _, start, _, _). length str + 1 - start)")
    (auto dest!: find_first_of_Some)

declare split_loop.simps [simp del]

definition StringSplit :: "string \<Rightarrow> string \<Rightarrow> 32 word \<Rightarrow> string list \<Rightarrow> string list" where
  "StringSplit str delims maxSplits ret =
     (if str = [] then ret else split_loop str delims maxSplits 0 0 ret)"

text \<open>The reference: the fields between the delimiters.\<close>

fun split_fields :: "string \<Rightarrow> string \<Rightarrow> string list" where
  "split_fields delims [] = [[]]"
| "split_fields delims (c # cs) =
     (if c \<in> set delims then [] # split_fields delims cs
      else (case split_fields delims cs of [] \<Rightarrow> [[c]] | f # fs \<Rightarrow> (c # f) # fs))"

lemma fields_nonempty: "split_fields delims s \<noteq> []"
  by (induction s) (auto split: list.splits)

lemma fields_split:
  assumes "\<forall>c \<in> set xs. c \<notin> set delims"
  shows "d \<in> set delims \<Longrightarrow> split_fields delims (xs @ d # ys) = xs # split_fields delims ys"
    and "split_fields delims xs = [xs]"
  using assms by (induction xs) auto

lemma find_first_of_cases:
  assumes "start \<le> length s"
  shows "(find_first_of delims start s = None \<and> (\<forall>c \<in> set (drop start s). c \<notin> set delims)) \<or>
    (\<exists>p. find_first_of delims start s = Some p \<and> start \<le> p \<and> p < length s \<and> s ! p \<in> set delims \<and>
       (\<forall>c \<in> set (take (p - start) (drop start s)). c \<notin> set delims))"
proof -
  let ?t = "takeWhile (\<lambda>c. c \<notin> set delims) (drop start s)"
  have t: "take (length ?t) (drop start s) = ?t" "length ?t \<le> length s - start"
    using length_takeWhile_le [of "\<lambda>c. c \<notin> set delims" "drop start s"] by (simp_all add: takeWhile_eq_take [symmetric])
  show ?thesis
  proof (cases "start + length ?t < length s")
    case True
    have "drop start s ! length ?t \<in> set delims"
      using nth_length_takeWhile [of "\<lambda>c. c \<notin> set delims" "drop start s"] True by simp
    then show ?thesis
      using True t(1) set_takeWhileD [of _ "\<lambda>c. c \<notin> set delims" "drop start s"] assms
      by (intro disjI2 exI [where x = "start + length ?t"]) (auto simp: find_first_of_def)
  next
    case False
    then have "length ?t = length (drop start s)" using t(2) assms by simp
    then have "?t = drop start s" using t(1) by simp
    then have "\<forall>c \<in> set (drop start s). c \<notin> set delims" by (simp only: takeWhile_eq_all_conv)
    then show ?thesis using False by (simp add: find_first_of_def)
  qed
qed

lemma split_loop_fields:
  assumes "start \<le> length str"
  shows "split_loop str delims 0 start num ret = ret @ split_fields delims (drop start str)"
  using assms
proof (induction "length str - start" arbitrary: start num ret rule: less_induct)
  case less
  from find_first_of_cases [OF less.prems, of delims] show ?case
  proof
    assume "find_first_of delims start str = None \<and> (\<forall>c \<in> set (drop start str). c \<notin> set delims)"
    then show ?thesis by (subst split_loop.simps) (simp add: fields_split(2))
  next
    assume "\<exists>p. find_first_of delims start str = Some p \<and> start \<le> p \<and> p < length str \<and> str ! p \<in> set delims \<and>
       (\<forall>c \<in> set (take (p - start) (drop start str)). c \<notin> set delims)"
    then obtain p where p: "find_first_of delims start str = Some p" "start \<le> p" "p < length str" "str ! p \<in> set delims"
      "\<forall>c \<in> set (take (p - start) (drop start str)). c \<notin> set delims" by blast
    have "drop start str = take (p - start) (drop start str) @ str ! p # drop (p + 1) str"
      using p(2,3) by (metis Cons_nth_drop_Suc Suc_eq_plus1 append_take_drop_id drop_drop le_add_diff_inverse2)
    then have f: "split_fields delims (drop start str) = take (p - start) (drop start str) # split_fields delims (drop (p + 1) str)"
      using fields_split(1) [OF p(5,4), of "drop (p + 1) str"] by simp
    have "split_loop str delims 0 (p + 1) (num + 1) r = r @ split_fields delims (drop (p + 1) str)" for r
      using less.hyps [of "p + 1"] p(2,3) by simp
    then show ?thesis using p(1) f by (subst split_loop.simps) (cases "p = start"; simp)
  qed
qed

section \<open>Host and port\<close>

definition isspace :: "char \<Rightarrow> bool" where
  "isspace c \<longleftrightarrow> (let n = (of_char c :: nat) in n = 32 \<or> (9 \<le> n \<and> n \<le> 13))"

definition isdigit :: "char \<Rightarrow> bool" where
  "isdigit c \<longleftrightarrow> 48 \<le> (of_char c :: nat) \<and> (of_char c :: nat) \<le> 57"

definition digits_value :: "string \<Rightarrow> int" where
  "digits_value s = foldl (\<lambda>v c. 10 * v + (of_char c - 48)) 0 s"

text \<open>\<^verbatim>\<open>std::atoi\<close>: white space, a sign, digits; the result has to be an \<^verbatim>\<open>int\<close>.\<close>

definition atoi :: "string \<Rightarrow> int result" where
  "atoi s =
     (let t = dropWhile isspace s;
          neg = (t \<noteq> [] \<and> hd t = CHR ''-'');
          u = (if t \<noteq> [] \<and> (hd t = CHR ''-'' \<or> hd t = CHR ''+'') then tl t else t);
          v = digits_value (takeWhile isdigit u);
          x = (if neg then - v else v) in
      if - (2 ^ 31) \<le> x \<and> x < 2 ^ 31 then Inr x else Inl SignedOverflow)"

text \<open>\<^verbatim>\<open>tolower\<close> in the C locale.\<close>

definition tolower_char :: "char \<Rightarrow> char" where
  "tolower_char c = (let n = of_char c in if 65 \<le> n \<and> n \<le> 90 then char_of (n + 32 :: nat) else c)"

definition rfind :: "char \<Rightarrow> string \<Rightarrow> nat option" where
  "rfind c s = (let n = length (takeWhile (\<lambda>x. x \<noteq> c) (rev s)) in
     if n < length s then Some (length s - 1 - n) else None)"

text \<open>The function fills in \<open>host\<close> and \<open>port\<close> also on some paths that return \<^verbatim>\<open>false\<close>. \<^verbatim>\<open>*host.rbegin()\<close> of an
  empty string reads before its first character.\<close>

definition SplitHostPort :: "string \<Rightarrow> string \<Rightarrow> int \<Rightarrow> (bool \<times> string \<times> int) result" where
  "SplitHostPort a host port =
     (if a = [] then Inr (False, host, port)
      else
        case rfind (CHR '':'') a of
          None \<Rightarrow> Inr (False, host, port)
        | Some index \<Rightarrow>
            if index = length a - 1 then Inr (False, host, port)
            else
              ebind (atoi (drop (index + 1) a)) (\<lambda>port1.
              let host1 = take index a in
              if host1 \<noteq> [] \<and> hd host1 = CHR ''['' \<and> last host1 \<noteq> CHR '']'' then Inr (False, host1, port1)
              else
                let host2 = (if host1 \<noteq> [] \<and> hd host1 = CHR ''['' then take (length host1 - 2) (drop 1 host1) else host1) in
                if host2 = [] then Inl OutOfBounds
                else Inr (True, if last host2 = CHR '']'' then butlast host2 else host2, port1)))"

section \<open>Socket addresses\<close>

definition AF_INET :: "16 word" where "AF_INET = 2"
definition AF_INET6 :: "16 word" where "AF_INET6 = 10"

type_synonym sockaddr_storage = "byte list"

definition zero_addr :: sockaddr_storage where
  "zero_addr = replicate 128 (CHR 0x00)"

text \<open>Field accesses through \<^verbatim>\<open>sockaddr_in*\<close> and \<^verbatim>\<open>sockaddr_in6*\<close>: the family is at offset 0, the port at 2,
  \<^verbatim>\<open>sin_addr\<close> at 4 and \<^verbatim>\<open>sin6_addr\<close> at 8.\<close>

definition ss_family :: "sockaddr_storage \<Rightarrow> 16 word" where
  "ss_family ss = word_of_le (range_of 0 2 ss)"

definition sin_port :: "sockaddr_storage \<Rightarrow> 16 word" where
  "sin_port ss = word_of_le (range_of 2 4 ss)"

definition ParseFromIPPort ::
  "(16 word \<Rightarrow> string \<Rightarrow> int \<times> byte list) \<Rightarrow> string \<Rightarrow> (bool \<times> sockaddr_storage) result" where
  "ParseFromIPPort pton address =
     (let ss = zero_addr in
      ebind (SplitHostPort address [] 0) (\<lambda>(ok, host, port).
      if \<not> ok then Inr (False, ss)
      else
        let family = (if CHR '':'' \<in> set host then AF_INET6 else AF_INET) in
        case pton family host of (rc, bytes) \<Rightarrow>
          if rc = 0 then Inr (False, ss)
          else if rc < 0 then Inr (False, ss)
          else
            ebind (mem_write 4 bytes ss) (\<lambda>ss1.
            ebind (mem_write 0 (le_bytes 2 family) ss1) (\<lambda>ss2.
            ebind (mem_write 2 (le_bytes 2 (htons (word_of_int port))) ss2) (\<lambda>ss3. Inr (True, ss3))))))"

definition ParseFromIPPort_value ::
  "(16 word \<Rightarrow> string \<Rightarrow> int \<times> byte list) \<Rightarrow> string \<Rightarrow> sockaddr_storage result" where
  "ParseFromIPPort_value pton address =
     ebind (ParseFromIPPort pton address) (\<lambda>(rc, ss). Inr (if rc then ss else zero_addr))"

definition IsZeroAddress :: "sockaddr_storage \<Rightarrow> bool" where
  "IsZeroAddress ss \<longleftrightarrow> list_all (\<lambda>c. c = CHR 0x00) ss"

text \<open>\<^verbatim>\<open>std::to_string\<close>.\<close>

fun to_string :: "nat \<Rightarrow> string" where
  "to_string n = (if n < 10 then [char_of (48 + n)] else to_string (n div 10) @ [char_of (48 + n mod 10)])"

declare to_string.simps [simp del]

definition ToIPPort :: "(16 word \<Rightarrow> byte list \<Rightarrow> string option) \<Rightarrow> sockaddr_storage \<Rightarrow> string" where
  "ToIPPort ntop ss =
     (if ss_family ss = AF_INET then
        (case ntop AF_INET (range_of 4 8 ss) of
           None \<Rightarrow> []
         | Some addr \<Rightarrow> if addr = [] then [] else addr @ '':'' @ to_string (unat (htons (sin_port ss))))
      else if ss_family ss = AF_INET6 then
        (case ntop AF_INET6 (range_of 8 24 ss) of
           None \<Rightarrow> []
         | Some addr \<Rightarrow> ''['' @ addr @ '']'' @ '':'' @ to_string (unat (htons (sin_port ss))))
      else [])"

definition ToIP :: "(16 word \<Rightarrow> byte list \<Rightarrow> string option) \<Rightarrow> sockaddr_storage \<Rightarrow> string" where
  "ToIP ntop ss =
     (if ss_family ss = AF_INET then (case ntop AF_INET (range_of 4 8 ss) of None \<Rightarrow> [] | Some addr \<Rightarrow> addr)
      else if ss_family ss = AF_INET6 then (case ntop AF_INET6 (range_of 8 24 ss) of None \<Rightarrow> [] | Some addr \<Rightarrow> addr)
      else [])"

definition GetLocalAddr :: "(int \<Rightarrow> sockaddr_storage option) \<Rightarrow> int \<Rightarrow> sockaddr_storage" where
  "GetLocalAddr getsockname sockfd = (case getsockname sockfd of None \<Rightarrow> zero_addr | Some laddr \<Rightarrow> laddr)"

section \<open>Descriptors\<close>

text \<open>The results of the system calls, and the descriptors the process has open.\<close>

record sock_env =
  sys_socket :: int
  make_nonblocking :: int
  sys_fcntl :: int
  sys_bind :: "sockaddr_storage \<Rightarrow> int"

definition INVALID_SOCKET :: int where "INVALID_SOCKET = -1"

definition CreateNonblockingSocket :: "sock_env \<Rightarrow> int list \<Rightarrow> int \<times> int list" where
  "CreateNonblockingSocket env fds =
     (let fd = sys_socket env in
      if fd = -1 then (INVALID_SOCKET, fds)
      else if make_nonblocking env < 0 then (INVALID_SOCKET, fds)
      else if sys_fcntl env = -1 then (INVALID_SOCKET, fds)
      else (fd, fds @ [fd]))"

definition CreateUDPServer ::
  "(16 word \<Rightarrow> string \<Rightarrow> int \<times> byte list) \<Rightarrow> sock_env \<Rightarrow> nat \<Rightarrow> int list \<Rightarrow> (int \<times> int list) result" where
  "CreateUDPServer pton env port fds =
     (let fd = sys_socket env in
      if fd = -1 then Inr (INVALID_SOCKET, fds)
      else
        ebind (ParseFromIPPort_value pton (''0.0.0.0:'' @ to_string port)) (\<lambda>local.
        if sys_bind env local \<noteq> 0 then Inr (INVALID_SOCKET, fds @ [fd])
        else Inr (fd, fds @ [fd])))"

text \<open>The \<^verbatim>\<open>struct timeval\<close> that \<^verbatim>\<open>SetTimeout\<close> passes to \<^verbatim>\<open>setsockopt\<close>.\<close>

definition SetTimeout_tv :: "32 word \<Rightarrow> timeval" where
  "SetTimeout_tv timeout_ms =
     \<lparr>tv_sec = uint (timeout_ms div 1000), tv_usec = uint ((timeout_ms mod 1000) * 1000)\<rparr>"

section \<open>Correctness of addresses\<close>

lemma digit_char: "n < 10 \<Longrightarrow> (of_char (char_of (48 + n) :: char) :: nat) = 48 + n"
  by simp

lemma digit_value: "n < 10 \<Longrightarrow> (of_char (char_of (48 + n) :: char) :: int) = 48 + int n"
proof -
  assume "n < 10"
  then have "int (of_char (char_of (48 + n) :: char)) = int (48 + n)" using digit_char [of n] by simp
  then show ?thesis by (simp only: of_nat_of_char of_nat_add of_nat_numeral)
qed

lemma to_string_digits: "list_all isdigit (to_string n)" "to_string n \<noteq> []"
proof (induction n rule: to_string.induct)
  case (1 n)
  {
    case 1
    show ?case using "1.IH"(1)
      by (cases "n < 10") (simp_all add: to_string.simps [of n] isdigit_def)
  next
    case 2
    show ?case by (simp add: to_string.simps [of n])
  }
qed

lemma digits_value_snoc: "digits_value (s @ [c]) = 10 * digits_value s + (of_char c - 48)"
  by (simp add: digits_value_def)

lemma digits_value_to_string: "digits_value (to_string n) = int n"
proof (induction n rule: to_string.induct)
  case (1 n)
  show ?case
  proof (cases "n < 10")
    case True
    then show ?thesis using digit_value [of n] by (simp add: to_string.simps [of n] digits_value_def)
  next
    case False
    have "(of_char (char_of (48 + n mod 10) :: char) :: int) = 48 + int (n mod 10)"
      by (rule digit_value) simp
    then have "digits_value (to_string n) = 10 * int (n div 10) + int (n mod 10)"
      using 1 False by (subst to_string.simps) (simp add: digits_value_snoc)
    also have "\<dots> = int (10 * (n div 10) + n mod 10)" by (simp only: of_nat_add of_nat_mult of_nat_numeral)
    finally show ?thesis by simp
  qed
qed

lemma isdigit_props: "isdigit c \<Longrightarrow> \<not> isspace c \<and> c \<noteq> CHR ''-'' \<and> c \<noteq> CHR ''+'' \<and> c \<noteq> CHR '':''"
  by (auto simp: isdigit_def isspace_def)

lemma atoi_to_string:
  assumes "int n < 2 ^ 31"
  shows "atoi (to_string n) = Inr (int n)"
proof -
  obtain c cs where cs: "to_string n = c # cs" "isdigit c" "list_all isdigit cs"
    using to_string_digits [of n] by (cases "to_string n") auto
  have tw: "takeWhile isdigit cs = cs" using cs by (simp add: list_all_iff takeWhile_eq_all_conv)
  show ?thesis
    using cs tw isdigit_props [OF cs(2)] digits_value_to_string [of n] assms by (simp add: atoi_def Let_def del: takeWhile_eq_all_conv)
qed

lemma rfind_last:
  assumes "c \<notin> set ys"
  shows "rfind c (xs @ c # ys) = Some (length xs)"
proof -
  have "takeWhile (\<lambda>x. x \<noteq> c) (rev ys @ c # rev xs) = rev ys"
    using assms by (subst takeWhile_append2) auto
  then show ?thesis by (simp add: rfind_def Let_def)
qed

lemma SplitHostPort_colon:
  assumes "int p < 2 ^ 31"
  shows "SplitHostPort (h @ '':'' @ to_string p) h0 p0 =
    (if h \<noteq> [] \<and> hd h = CHR ''['' \<and> last h \<noteq> CHR '']'' then Inr (False, h, int p)
     else let h2 = (if h \<noteq> [] \<and> hd h = CHR ''['' then take (length h - 2) (drop 1 h) else h) in
       if h2 = [] then Inl OutOfBounds else Inr (True, if last h2 = CHR '']'' then butlast h2 else h2, int p))"
proof -
  have nc: "CHR '':'' \<notin> set (to_string p)"
    using to_string_digits(1) [of p] isdigit_props by (auto simp: list_all_iff)
  have "rfind (CHR '':'') (h @ '':'' @ to_string p) = Some (length h)" using rfind_last [OF nc, of h] by simp
  moreover have "length h \<noteq> length (h @ '':'' @ to_string p) - 1" using to_string_digits(2) [of p] by simp
  ultimately show ?thesis
    using atoi_to_string [OF assms] by (simp add: SplitHostPort_def Let_def)
qed

text \<open>The three writes of \<^verbatim>\<open>ParseFromIPPort\<close> and what the accessors read back.\<close>

lemma parsed_fields:
  fixes q family :: "16 word"
  assumes "length bytes \<le> 16"
  defines "ss \<equiv> splice_at 2 (le_bytes 2 (htons q)) (splice_at 0 (le_bytes 2 family) (splice_at 4 bytes zero_addr))"
  shows "ss_family ss = family" "htons (sin_port ss) = q" "range_of 4 24 ss = bytes @ replicate (20 - length bytes) (CHR 0x00)"
proof -
  let ?a = "splice_at 4 bytes zero_addr"
  let ?b = "splice_at 0 (le_bytes 2 family) ?a"
  have la: "length ?a = 128" "length ?b = 128" using assms(1) by (simp_all add: zero_addr_def)
  have "range_of 0 2 ss = range_of 0 2 ?b"
    unfolding ss_def using la by (intro range_of_splice_before) simp_all
  also have "\<dots> = le_bytes 2 family" using range_of_splice_same [of 0 "le_bytes 2 family" ?a] la by (simp add: numeral_2_eq_2)
  finally show "ss_family ss = family" by (simp add: ss_family_def word_of_le_bytes)
  have "range_of 2 4 ss = le_bytes 2 (htons q)"
    unfolding ss_def using range_of_splice_same [of 2 "le_bytes 2 (htons q)" ?b] la by simp
  then show "htons (sin_port ss) = q" by (simp add: sin_port_def word_of_le_bytes)
  have "range_of 4 24 ss = range_of 4 24 ?a"
    unfolding ss_def using la by (simp add: range_of_splice_after)
  also have "\<dots> = bytes @ replicate (20 - length bytes) (CHR 0x00)"
    using assms(1) by (simp add: range_of_def splice_at_def zero_addr_def)
  finally show "range_of 4 24 ss = bytes @ replicate (20 - length bytes) (CHR 0x00)" .
qed

lemma ParseFromIPPort_ok:
  assumes "SplitHostPort a [] 0 = Inr (True, host, port)" "pton (if CHR '':'' \<in> set host then AF_INET6 else AF_INET) host = (rc, bytes)"
    "rc > 0" "length bytes \<le> 16"
  shows "\<exists>ss. ParseFromIPPort pton a = Inr (True, ss) \<and>
    ss_family ss = (if CHR '':'' \<in> set host then AF_INET6 else AF_INET) \<and> htons (sin_port ss) = word_of_int port \<and>
    range_of 4 24 ss = bytes @ replicate (20 - length bytes) (CHR 0x00)"
proof -
  let ?f = "if CHR '':'' \<in> set host then AF_INET6 else AF_INET"
  let ?ss = "splice_at 2 (le_bytes 2 (htons (word_of_int port))) (splice_at 0 (le_bytes 2 ?f) (splice_at 4 bytes zero_addr))"
  have "ParseFromIPPort pton a = Inr (True, ?ss)"
    using assms by (simp add: ParseFromIPPort_def Let_def mem_write_def zero_addr_def)
  then show ?thesis using parsed_fields [OF assms(4), of "word_of_int port" ?f] by blast
qed

lemma range_of_range_of: "i + k \<le> j \<Longrightarrow> range_of (a + i) (a + i + k) m = take k (drop i (range_of a (a + j) m))"
  by (simp add: range_of_def drop_take min_def add.commute)

section \<open>Properties\<close>

text \<open>\<^verbatim>\<open>StringSplit\<close> without a limit appends the fields between the delimiters, empty ones included, of
  any string that is not empty; the loop ends for every limit.\<close>

theorem StringSplit_fields:
  assumes "str \<noteq> []"
  shows "StringSplit str delims 0 ret = ret @ split_fields delims str"
  using assms split_loop_fields [of 0 str delims 0 ret] by (simp add: StringSplit_def)

theorem StringSplit_fields_witness: "StringSplit ''80,,81,'' '','' 0 [] = [''80'', [], ''81'', []]"
  using StringSplit_fields [of "''80,,81,''" "'',''" "[]"] by simp

text \<open>An IPv4 address in the form \<open>host:port\<close> survives the way through the socket address:
  \<^verbatim>\<open>ToIPPort(ParseFromIPPort(a))\<close> is \<open>a\<close>, for every port of 16 bits, provided the library's two
  conversions are inverse on this host.\<close>

theorem IPv4_roundtrip:
  assumes "pton AF_INET h = (1, bytes)" "length bytes = 4" "ntop AF_INET bytes = Some h"
    "h \<noteq> []" "CHR '':'' \<notin> set h" "hd h \<noteq> CHR ''[''" "last h \<noteq> CHR '']''" "p < 2 ^ 16"
  shows "\<exists>ss. ParseFromIPPort pton (h @ '':'' @ to_string p) = Inr (True, ss) \<and>
    ToIPPort ntop ss = h @ '':'' @ to_string p"
proof -
  have "SplitHostPort (h @ '':'' @ to_string p) [] 0 = Inr (True, h, int p)"
    using assms(4,6,7,8) by (subst SplitHostPort_colon) simp_all
  from ParseFromIPPort_ok [OF this, of pton 1 bytes] obtain ss where
    ss: "ParseFromIPPort pton (h @ '':'' @ to_string p) = Inr (True, ss)" "ss_family ss = AF_INET"
      "htons (sin_port ss) = word_of_int (int p)" "range_of 4 24 ss = bytes @ replicate 16 (CHR 0x00)"
    using assms(1,2,5) by auto
  have "range_of 4 8 ss = bytes" using range_of_range_of [of 0 4 20 4 ss] ss(4) assms(2) by simp
  moreover have "unat (word_of_int (int p) :: 16 word) = p" using assms(8) by (simp add: unat_of_nat)
  ultimately show ?thesis using ss assms(3,4) by (simp add: ToIPPort_def)
qed

definition sample_pton :: "16 word \<Rightarrow> string \<Rightarrow> int \<times> byte list" where
  "sample_pton family h = (1, if family = AF_INET then ''abcd'' else ''0123456789abcdef'')"

theorem IPv4_roundtrip_witness:
  "\<exists>ss. ParseFromIPPort sample_pton (''1.2.3.4'' @ '':'' @ to_string 8080) = Inr (True, ss) \<and>
    ToIPPort (\<lambda>_ _. Some ''1.2.3.4'') ss = ''1.2.3.4'' @ '':'' @ to_string 8080"
  by (rule IPv4_roundtrip [of _ _ "''abcd''"]) (simp_all add: sample_pton_def)

text \<open>An IPv6 address is stored at the place of the IPv4 address, four bytes before \<^verbatim>\<open>sin6_addr\<close>: what
  \<^verbatim>\<open>ToIPPort\<close>, \<^verbatim>\<open>bind\<close> or \<^verbatim>\<open>connect\<close> read there lacks the first four bytes of the address.\<close>

theorem IPv6_misplaced:
  assumes "pton AF_INET6 h = (1, bytes)" "length bytes = 16" "CHR '':'' \<in> set h" "last h \<noteq> CHR '']''" "p < 2 ^ 16"
  shows "\<exists>ss. ParseFromIPPort pton (''['' @ h @ '']:'' @ to_string p) = Inr (True, ss) \<and> ss_family ss = AF_INET6 \<and>
    range_of 8 24 ss = drop 4 bytes @ replicate 4 (CHR 0x00)"
proof -
  have "h \<noteq> []" using assms(3) by auto
  then have "SplitHostPort ((''['' @ h @ '']'') @ '':'' @ to_string p) [] 0 = Inr (True, h, int p)"
    using assms(4,5) by (subst SplitHostPort_colon) simp_all
  then have "SplitHostPort (''['' @ h @ '']:'' @ to_string p) [] 0 = Inr (True, h, int p)" by simp
  from ParseFromIPPort_ok [OF this, of pton 1 bytes] obtain ss where
    ss: "ParseFromIPPort pton (''['' @ h @ '']:'' @ to_string p) = Inr (True, ss)" "ss_family ss = AF_INET6"
      "range_of 4 24 ss = bytes @ replicate 4 (CHR 0x00)"
    using assms(1,2,3) by auto
  have "range_of 8 24 ss = take 16 (drop 4 (bytes @ replicate 4 (CHR 0x00)))"
    using range_of_range_of [of 4 16 20 4 ss] ss(3) by simp
  then show ?thesis using ss(1,2) assms(2) by simp
qed

theorem IPv6_misplaced_witness:
  "\<exists>ss. ParseFromIPPort sample_pton (''['' @ ''::1'' @ '']:'' @ to_string 80) = Inr (True, ss) \<and> ss_family ss = AF_INET6 \<and>
    range_of 8 24 ss = ''456789abcdef'' @ replicate 4 (CHR 0x00)"
  using IPv6_misplaced [of sample_pton "''::1''" "''0123456789abcdef''" 80]
  by (simp add: sample_pton_def AF_INET_def AF_INET6_def)

text \<open>\<^verbatim>\<open>SplitHostPort\<close> of an address with an empty host, \<open>:port\<close> or \<open>[]:port\<close>, reads the last character of
  an empty string.\<close>

theorem SplitHostPort_empty_host:
  assumes "p < 2 ^ 16"
  shows "SplitHostPort ('':'' @ to_string p) host port = Inl OutOfBounds \<and>
    SplitHostPort (''[]:'' @ to_string p) host port = Inl OutOfBounds"
  using SplitHostPort_colon [of p "[]" host port] SplitHostPort_colon [of p "''[]''" host port] assms by simp

theorem SplitHostPort_empty_host_witness:
  "SplitHostPort ('':'' @ to_string 80) [] 0 = Inl OutOfBounds"
  using SplitHostPort_empty_host [of 80 "[]" 0] by simp

end
