(* ===== verification/Event_Watcher.thy ===== *)
theory Event_Watcher
  imports Time_Slice
begin

text \<open>
  \<^verbatim>\<open>eventpp::EventWatcher\<close> with its three kinds, the pipe, the timer and the signal watcher
  (include/eventpp/event_watcher.hpp, src/event_watcher.cpp), and \<^verbatim>\<open>InvokeTimer\<close> (src/invoke_timer.cpp), which
  owns a timer watcher and holds itself alive until it has fired or was cancelled. libevent and the
  socket calls are parameters.
\<close>

named_theorems watcher_ops \<open>the kinds of watchers\<close>

section \<open>Watchers\<close>

datatype watcher_kind = PipeWatcher | TimerWatcher Duration | SignalWatcher int

text \<open>\<open>ew_event\<close> is \<^verbatim>\<open>event_\<close>: \<open>None\<close> when null, otherwise whether the event base holds it. \<open>pipe_fds\<close> are the
  two descriptors of \<^verbatim>\<open>pipe_\<close>, 0 when there is none; \<open>closed\<close> lists the descriptors closed so far.\<close>

record EventWatcher =
  ew_kind :: watcher_kind
  ew_event :: "bool option"
  ew_attached :: bool
  ew_cancel_callback :: bool
  pipe_fds :: "int \<times> int"
  ew_closed :: "int list"

record watch_env =
  we_socketpair :: "(int \<times> int) option"
  we_nonblocking :: "int \<Rightarrow> bool"
  we_assign :: bool
  we_add :: "timeval option \<Rightarrow> bool"

definition EventWatcher_new :: "watcher_kind \<Rightarrow> EventWatcher result" where
  "EventWatcher_new k = asserting (case k of SignalWatcher signo \<Rightarrow> signo \<noteq> 0 | _ \<Rightarrow> True)
     (Inr \<lparr>ew_kind = k, ew_event = Some False, ew_attached = False, ew_cancel_callback = False,
           pipe_fds = (0, 0), ew_closed = []\<rparr>)"

definition DoClose :: "EventWatcher \<Rightarrow> EventWatcher" where
  "DoClose w =
     (if ew_kind w = PipeWatcher \<and> fst (pipe_fds w) > 0
      then w\<lparr>ew_closed := ew_closed w @ [fst (pipe_fds w), snd (pipe_fds w)], pipe_fds := (0, 0)\<rparr>
      else w)"

definition Pipe_DoInit :: "watch_env \<Rightarrow> EventWatcher \<Rightarrow> (bool \<times> EventWatcher) result" where
  "Pipe_DoInit env w =
     asserting (fst (pipe_fds w) = 0)
       (case we_socketpair env of
          None \<Rightarrow> Inr (False, DoClose w)
        | Some (a, b) \<Rightarrow>
            let w1 = w\<lparr>pipe_fds := (a, b)\<rparr> in
            if \<not> we_nonblocking env a \<or> \<not> we_nonblocking env b then Inr (False, DoClose w1)
            else if ew_event w1 = None then Inl NullPointer
            else Inr (we_assign env, w1))"

definition Timer_DoInit :: "watch_env \<Rightarrow> EventWatcher \<Rightarrow> (bool \<times> EventWatcher) result" where
  [watcher_ops]: "Timer_DoInit env w = (if ew_event w = None then Inl NullPointer else Inr (we_assign env, w))"

definition Signal_DoInit :: "watch_env \<Rightarrow> int \<Rightarrow> EventWatcher \<Rightarrow> (bool \<times> EventWatcher) result" where
  [watcher_ops]: "Signal_DoInit env signo w =
     asserting (signo \<noteq> 0) (if ew_event w = None then Inl NullPointer else Inr (we_assign env, w))"

definition DoInit :: "watch_env \<Rightarrow> EventWatcher \<Rightarrow> (bool \<times> EventWatcher) result" where
  [watcher_ops]: "DoInit env w =
     (case ew_kind w of
        PipeWatcher \<Rightarrow> Pipe_DoInit env w
      | TimerWatcher t \<Rightarrow> Timer_DoInit env w
      | SignalWatcher signo \<Rightarrow> Signal_DoInit env signo w)"

definition Watcher_Init :: "watch_env \<Rightarrow> EventWatcher \<Rightarrow> (bool \<times> EventWatcher) result" where
  "Watcher_Init env w =
     ebind (DoInit env w) (\<lambda>(ok, w1). Inr (if ok then (True, w1) else (False, DoClose w1)))"

definition Watch :: "watch_env \<Rightarrow> Duration \<Rightarrow> EventWatcher \<Rightarrow> (bool \<times> EventWatcher) result" where
  "Watch env timeout w =
     (let tv = (if Duration_Nanoseconds timeout > 0 then Some (Duration_To timeout) else None) in
      case ew_event w of
        None \<Rightarrow> Inl NullPointer
      | Some _ \<Rightarrow>
          let w1 = (if ew_attached w then w\<lparr>ew_event := Some False, ew_attached := False\<rparr> else w) in
          asserting (\<not> ew_attached w1)
            (Inr (if we_add env tv then (True, w1\<lparr>ew_event := Some True, ew_attached := True\<rparr>) else (False, w1))))"

definition Pipe_AsyncWait :: "watch_env \<Rightarrow> EventWatcher \<Rightarrow> (bool \<times> EventWatcher) result" where
  [watcher_ops]: "Pipe_AsyncWait env w = Watch env Duration_zero w"

definition Timer_AsyncWait :: "watch_env \<Rightarrow> Duration \<Rightarrow> EventWatcher \<Rightarrow> (bool \<times> EventWatcher) result" where
  [watcher_ops]: "Timer_AsyncWait env timeout w = Watch env timeout w"

definition Signal_AsyncWait :: "watch_env \<Rightarrow> EventWatcher \<Rightarrow> (bool \<times> EventWatcher) result" where
  [watcher_ops]: "Signal_AsyncWait env w = Watch env Duration_zero w"

definition AsyncWait :: "watch_env \<Rightarrow> EventWatcher \<Rightarrow> (bool \<times> EventWatcher) result" where
  [watcher_ops]: "AsyncWait env w =
     (case ew_kind w of
        PipeWatcher \<Rightarrow> Pipe_AsyncWait env w
      | TimerWatcher timeout \<Rightarrow> Timer_AsyncWait env timeout w
      | SignalWatcher _ \<Rightarrow> Signal_AsyncWait env w)"

definition FreeEvent :: "EventWatcher \<Rightarrow> EventWatcher" where
  "FreeEvent w = (if ew_event w \<noteq> None then w\<lparr>ew_attached := False, ew_event := None\<rparr> else w)"

definition SetCancelCallback :: "EventWatcher \<Rightarrow> EventWatcher" where
  "SetCancelCallback w = w\<lparr>ew_cancel_callback := True\<rparr>"

text \<open>\<^verbatim>\<open>Cancel\<close> also tells whether the cancel callback is to be called.\<close>

definition Watcher_Cancel :: "EventWatcher \<Rightarrow> (bool \<times> EventWatcher) result" where
  "Watcher_Cancel w =
     asserting (ew_event w \<noteq> None) (let w1 = FreeEvent w in Inr (ew_cancel_callback w1, w1))"

text \<open>The destructor of a pipe watcher closes the pipe first; in the destructor of the base class
  \<^verbatim>\<open>DoClose\<close> is the empty one.\<close>

definition Watcher_delete :: "EventWatcher \<Rightarrow> EventWatcher" where
  "Watcher_delete w = FreeEvent (DoClose w)"

section \<open>Timers\<close>

datatype timer_task = StartTask | CancelTask

text \<open>\<open>self_held\<close> is \<^verbatim>\<open>self_\<close>, \<open>user_held\<close> tells whether the caller kept the pointer that \<^verbatim>\<open>RunAfter\<close> returned;
  the timer is destroyed when neither holds. \<open>fired\<close> and \<open>cancelled\<close> count the calls of the functor and of
  the cancel callback.\<close>

record InvokeTimer =
  it_timeout :: Duration
  it_periodic :: bool
  it_timer :: "EventWatcher option"
  it_cancel_callback :: bool
  self_held :: bool
  user_held :: bool
  it_tasks :: "timer_task list"
  fired :: nat
  cancelled :: nat

definition InvokeTimer_Create :: "Duration \<Rightarrow> bool \<Rightarrow> bool \<Rightarrow> InvokeTimer" where
  "InvokeTimer_Create timeout periodic cb =
     \<lparr>it_timeout = timeout, it_periodic = periodic, it_timer = None, it_cancel_callback = cb, self_held = True,
      user_held = True, it_tasks = [], fired = 0, cancelled = 0\<rparr>"

definition start_in_loop :: "watch_env \<Rightarrow> InvokeTimer \<Rightarrow> InvokeTimer result" where
  "start_in_loop env t =
     ebind (EventWatcher_new (TimerWatcher (it_timeout t))) (\<lambda>w.
     ebind (Watcher_Init env (SetCancelCallback w)) (\<lambda>(_, w1).
     ebind (AsyncWait env w1) (\<lambda>(_, w2). Inr (t\<lparr>it_timer := Some w2\<rparr>))))"

definition OnCanceled :: "InvokeTimer \<Rightarrow> InvokeTimer" where
  "OnCanceled t =
     t\<lparr>it_periodic := False, cancelled := cancelled t + (if it_cancel_callback t then 1 else 0),
       it_timer := None, self_held := False\<rparr>"

text \<open>The functor of \<^verbatim>\<open>Cancel\<close> holds a weak pointer: it does nothing when the timer is gone.\<close>

definition cancel_in_loop :: "InvokeTimer \<Rightarrow> InvokeTimer result" where
  "cancel_in_loop t =
     (if \<not> (self_held t \<or> user_held t) then Inr t
      else
        case it_timer t of
          None \<Rightarrow> Inr t
        | Some w \<Rightarrow>
            ebind (Watcher_Cancel w) (\<lambda>(cb, w1).
            let t1 = t\<lparr>it_timer := Some w1\<rparr> in Inr (if cb then OnCanceled t1 else t1)))"

text \<open>\<^verbatim>\<open>RunInLoop\<close> calls the functor at once when it runs in the loop's thread, otherwise queues it.\<close>

definition InvokeTimer_Start :: "watch_env \<Rightarrow> bool \<Rightarrow> InvokeTimer \<Rightarrow> InvokeTimer result" where
  "InvokeTimer_Start env now t =
     (if now then start_in_loop env t else Inr (t\<lparr>it_tasks := it_tasks t @ [StartTask]\<rparr>))"

definition InvokeTimer_Cancel :: "bool \<Rightarrow> InvokeTimer \<Rightarrow> InvokeTimer result" where
  "InvokeTimer_Cancel now t =
     (if now then cancel_in_loop t else Inr (t\<lparr>it_tasks := it_tasks t @ [CancelTask]\<rparr>))"

text \<open>The functor of the timer is user code; \<open>cancels\<close> tells whether it cancels its own timer, in the
  loop's thread.\<close>

definition OnTimerTriggered :: "watch_env \<Rightarrow> bool \<Rightarrow> InvokeTimer \<Rightarrow> InvokeTimer result" where
  "OnTimerTriggered env cancels t =
     (let t1 = t\<lparr>fired := fired t + 1\<rparr> in
      ebind (if cancels then InvokeTimer_Cancel True t1 else Inr t1) (\<lambda>t2.
      if it_periodic t2 then
        (case it_timer t2 of
           None \<Rightarrow> Inl NullPointer
         | Some w \<Rightarrow> ebind (AsyncWait env w) (\<lambda>(_, w1). Inr (t2\<lparr>it_timer := Some w1\<rparr>)))
      else Inr (t2\<lparr>it_timer := None, self_held := False\<rparr>)))"

text \<open>What happens to a timer: the time is up, when its event is with the event base (a timer event is
  removed before its callback runs), a queued functor runs, someone cancels it, or the caller drops
  its pointer.\<close>

datatype timer_event = Fires bool | RunTimerTask | UserCancels bool | UserDrops

definition timer_step :: "watch_env \<Rightarrow> timer_event \<Rightarrow> InvokeTimer \<Rightarrow> InvokeTimer result" where
  "timer_step env e t =
     (case e of
        Fires cancels \<Rightarrow>
          (case it_timer t of
             Some w \<Rightarrow>
               if ew_event w = Some True
               then OnTimerTriggered env cancels (t\<lparr>it_timer := Some (w\<lparr>ew_event := Some False\<rparr>)\<rparr>)
               else Inr t
           | None \<Rightarrow> Inr t)
      | RunTimerTask \<Rightarrow>
          (case it_tasks t of
             [] \<Rightarrow> Inr t
           | StartTask # ts \<Rightarrow> start_in_loop env (t\<lparr>it_tasks := ts\<rparr>)
           | CancelTask # ts \<Rightarrow> cancel_in_loop (t\<lparr>it_tasks := ts\<rparr>))
      | UserCancels now \<Rightarrow> if user_held t then InvokeTimer_Cancel now t else Inr t
      | UserDrops \<Rightarrow> Inr (t\<lparr>user_held := False\<rparr>))"

fun timer_run :: "watch_env \<Rightarrow> timer_event list \<Rightarrow> InvokeTimer \<Rightarrow> InvokeTimer result" where
  "timer_run env [] t = Inr t"
| "timer_run env (e # es) t = ebind (timer_step env e t) (timer_run env es)"

section \<open>Descriptors of a pipe watcher\<close>

text \<open>Whatever fails, a pipe watcher closes each descriptor it was given exactly once: those of \<open>pipe_fds\<close> are still open, those
  in \<open>ew_closed\<close> are not.\<close>

lemma Pipe_Init_descriptors:
  assumes "we_socketpair env = Some (a, b)" "a > 0" "ew_kind w = PipeWatcher" "ew_event w \<noteq> None" "pipe_fds w = (0, 0)"
  shows "\<exists>ok w'. Watcher_Init env w = Inr (ok, w') \<and> ew_closed (Watcher_delete w') = ew_closed w @ [a, b] \<and>
    pipe_fds (Watcher_delete w') = (0, 0)"
  using assms
  by (auto simp: Watcher_Init_def watcher_ops Pipe_DoInit_def DoClose_def Watcher_delete_def FreeEvent_def Let_def)

section \<open>A timer fires once\<close>

definition armed :: "InvokeTimer \<Rightarrow> bool" where
  "armed t \<longleftrightarrow> (\<exists>w. it_timer t = Some w \<and> ew_event w \<noteq> None \<and> ew_cancel_callback w)"

text \<open>\<open>p\<close> and \<open>cb\<close> are what the timer was created with: whether it is periodic, and whether it has a cancel callback.\<close>

definition timer_inv :: "bool \<Rightarrow> bool \<Rightarrow> InvokeTimer \<Rightarrow> bool" where
  "timer_inv p cb t \<longleftrightarrow> (it_periodic t \<longrightarrow> p) \<and> it_cancel_callback t = cb \<and>
     (self_held t \<and> it_periodic t = p \<and> fired t = 0 \<and> cancelled t = 0 \<and> it_timer t = None \<and>
        count_list (it_tasks t) StartTask = 1 \<or>
      self_held t \<and> it_periodic t = p \<and> (p \<or> fired t = 0) \<and> cancelled t = 0 \<and> armed t \<and>
        count_list (it_tasks t) StartTask = 0 \<or>
      \<not> self_held t \<and> it_timer t = None \<and> count_list (it_tasks t) StartTask = 0 \<and> (p \<or> fired t \<le> 1) \<and>
        cancelled t \<le> of_bool cb)"

lemma timer_Init:
  assumes "ew_kind w = TimerWatcher d" "ew_event w \<noteq> None"
  shows "Watcher_Init env w = Inr (we_assign env, w)"
  using assms by (auto simp: Watcher_Init_def watcher_ops DoClose_def)

lemma Watch_event:
  assumes "ew_event w \<noteq> None"
  shows "\<exists>ok w'. Watch env d w = Inr (ok, w') \<and> ew_event w' \<noteq> None \<and> ew_cancel_callback w' = ew_cancel_callback w"
  using assms by (auto simp: Watch_def Let_def)

lemma start_in_loop_armed:
  "\<exists>w. start_in_loop env t = Inr (t\<lparr>it_timer := Some w\<rparr>) \<and> ew_event w \<noteq> None \<and> ew_cancel_callback w"
proof -
  define w where "w = SetCancelCallback \<lparr>ew_kind = TimerWatcher (it_timeout t), ew_event = Some False, ew_attached = False,
    ew_cancel_callback = False, pipe_fds = (0, 0), ew_closed = []\<rparr>"
  have w: "ew_kind w = TimerWatcher (it_timeout t)" "ew_event w \<noteq> None" "ew_cancel_callback w"
    by (simp_all add: w_def SetCancelCallback_def)
  obtain ok w' where w': "AsyncWait env w = Inr (ok, w')" "ew_event w' \<noteq> None" "ew_cancel_callback w'"
    using Watch_event [OF w(2)] w(3) by (fastforce simp: watcher_ops split: watcher_kind.splits)
  have "start_in_loop env t = Inr (t\<lparr>it_timer := Some w'\<rparr>)"
    using timer_Init [OF w(1,2), of env] w'(1)
    by (simp add: start_in_loop_def EventWatcher_new_def w_def)
  then show ?thesis using w'(2,3) by blast
qed

lemma cancel_in_loop_cases:
  assumes "it_timer t = None \<or> armed t"
  shows "cancel_in_loop t = Inr t \<and> it_timer t = None \<or> (\<exists>w. cancel_in_loop t = Inr (OnCanceled (t\<lparr>it_timer := Some w\<rparr>))) \<or>
    \<not> (self_held t \<or> user_held t)"
  using assms by (auto simp: cancel_in_loop_def armed_def Watcher_Cancel_def FreeEvent_def Let_def split: option.splits)

lemma cancel_inv:
  assumes "timer_inv p cb t"
  shows "\<exists>t'. cancel_in_loop t = Inr t' \<and> timer_inv p cb t'"
proof -
  have "it_timer t = None \<or> armed t" using assms by (auto simp: timer_inv_def)
  from cancel_in_loop_cases [OF this] show ?thesis
    using assms by (auto simp: timer_inv_def cancel_in_loop_def OnCanceled_def armed_def Watcher_Cancel_def FreeEvent_def
        Let_def split: option.splits)
qed

lemma trigger_inv:
  assumes inv: "timer_inv p cb t" and w: "it_timer t = Some w" "ew_event w = Some True"
  shows "\<exists>t'. OnTimerTriggered env cancels (t\<lparr>it_timer := Some (w\<lparr>ew_event := Some False\<rparr>)\<rparr>) = Inr t' \<and> timer_inv p cb t'"
proof (cases "\<not> cancels \<and> p")
  case True
  obtain ok w' where w': "AsyncWait env (w\<lparr>ew_event := Some False\<rparr>) = Inr (ok, w')" "ew_event w' \<noteq> None"
      "ew_cancel_callback w' = ew_cancel_callback w"
    using Watch_event [of "w\<lparr>ew_event := Some False\<rparr>" env] by (fastforce simp: watcher_ops split: watcher_kind.splits)
  have "it_periodic t" "ew_cancel_callback w" using True inv w by (auto simp: timer_inv_def armed_def)
  then have "OnTimerTriggered env cancels (t\<lparr>it_timer := Some (w\<lparr>ew_event := Some False\<rparr>)\<rparr>) =
      Inr (t\<lparr>it_timer := Some w', fired := fired t + 1\<rparr>)"
    using True w' by (simp add: OnTimerTriggered_def Let_def)
  then show ?thesis using inv w w' True by (auto simp: timer_inv_def armed_def)
next
  case False
  then show ?thesis
    using inv w
    by (auto simp: OnTimerTriggered_def timer_inv_def armed_def InvokeTimer_Cancel_def cancel_in_loop_def
        Watcher_Cancel_def FreeEvent_def OnCanceled_def Let_def)
qed

lemma timer_step_inv:
  assumes "timer_inv p cb t"
  shows "\<exists>t'. timer_step env e t = Inr t' \<and> timer_inv p cb t'"
proof (cases e)
  case (Fires cancels)
  show ?thesis
  proof (cases "\<exists>w. it_timer t = Some w \<and> ew_event w = Some True")
    case True
    then obtain w where w: "it_timer t = Some w" "ew_event w = Some True" by blast
    then show ?thesis using trigger_inv [OF assms w] Fires by (simp add: timer_step_def)
  next
    case False
    then show ?thesis using assms Fires by (auto simp: timer_step_def split: option.splits)
  qed
next
  case RunTimerTask
  show ?thesis
  proof (cases "it_tasks t")
    case Nil
    then show ?thesis using assms RunTimerTask by (simp add: timer_step_def)
  next
    case (Cons x xs)
    show ?thesis
    proof (cases x)
      case StartTask
      obtain w where "start_in_loop env (t\<lparr>it_tasks := xs\<rparr>) = Inr (t\<lparr>it_tasks := xs, it_timer := Some w\<rparr>)"
        "ew_event w \<noteq> None" "ew_cancel_callback w"
        using start_in_loop_armed [of env "t\<lparr>it_tasks := xs\<rparr>"] by auto
      then show ?thesis
        using assms RunTimerTask Cons StartTask by (auto simp: timer_step_def timer_inv_def armed_def)
    next
      case CancelTask
      have "timer_inv p cb (t\<lparr>it_tasks := xs\<rparr>)" using assms Cons CancelTask by (auto simp: timer_inv_def armed_def)
      then show ?thesis using cancel_inv RunTimerTask Cons CancelTask by (simp add: timer_step_def)
    qed
  qed
next
  case (UserCancels now)
  have "timer_inv p cb (t\<lparr>it_tasks := it_tasks t @ [CancelTask]\<rparr>)" using assms by (auto simp: timer_inv_def armed_def)
  then show ?thesis using UserCancels assms cancel_inv by (auto simp: timer_step_def InvokeTimer_Cancel_def)
next
  case UserDrops
  then show ?thesis using assms by (auto simp: timer_step_def timer_inv_def armed_def)
qed

lemma timer_run_inv: "timer_inv p cb t \<Longrightarrow> \<exists>t'. timer_run env es t = Inr t' \<and> timer_inv p cb t'"
proof (induction es arbitrary: t)
  case (Cons e es)
  then show ?case using timer_step_inv [OF Cons.prems, of env e] by auto
qed simp

lemma started_inv: "\<exists>t'. InvokeTimer_Start env now (InvokeTimer_Create d p cb) = Inr t' \<and> timer_inv p cb t'"
proof (cases now)
  case True
  obtain w where "start_in_loop env (InvokeTimer_Create d p cb) = Inr ((InvokeTimer_Create d p cb)\<lparr>it_timer := Some w\<rparr>)"
    "ew_event w \<noteq> None" "ew_cancel_callback w" using start_in_loop_armed by blast
  then show ?thesis using True by (auto simp: InvokeTimer_Start_def timer_inv_def armed_def InvokeTimer_Create_def)
qed (simp add: InvokeTimer_Start_def timer_inv_def InvokeTimer_Create_def)

text \<open>A timer never fails, calls its cancel callback at most once and, unless it is periodic, its functor
  at most once; once it was cancelled, or a one-shot timer has fired, it is disarmed and no longer holds itself, whatever
  the order of firing, cancelling in any thread or in the functor itself, and dropping the pointer.\<close>

theorem InvokeTimer_once:
  "\<exists>t. ebind (InvokeTimer_Start env now (InvokeTimer_Create d periodic cb)) (timer_run env es) = Inr t \<and>
    (periodic \<or> fired t \<le> 1) \<and> cancelled t \<le> of_bool cb \<and>
    (cancelled t = 0 \<and> (periodic \<or> fired t = 0) \<or> it_timer t = None \<and> \<not> self_held t)"
proof -
  obtain t0 where t0: "InvokeTimer_Start env now (InvokeTimer_Create d periodic cb) = Inr t0" "timer_inv periodic cb t0"
    using started_inv by blast
  obtain t where "timer_run env es t0 = Inr t" "timer_inv periodic cb t" using timer_run_inv [OF t0(2)] by blast
  then show ?thesis using t0(1) by (auto simp: timer_inv_def)
qed

text \<open>A cancellation can be lost: when the timer was started in another thread and is cancelled in the
  loop's thread before the queued start has run, \<^verbatim>\<open>Cancel\<close> finds no watcher and does nothing, and the
  timer fires nevertheless.\<close>

theorem Cancel_before_start_lost:
  assumes "\<And>tv. we_add env tv" "we_assign env"
  shows "\<exists>t. ebind (InvokeTimer_Start env False (InvokeTimer_Create d False True))
      (timer_run env [UserCancels True, RunTimerTask, Fires False]) = Inr t \<and> fired t = 1 \<and> cancelled t = 0"
  using assms
  by (simp add: InvokeTimer_Start_def InvokeTimer_Create_def timer_step_def InvokeTimer_Cancel_def cancel_in_loop_def
      start_in_loop_def EventWatcher_new_def Watcher_Init_def watcher_ops SetCancelCallback_def watcher_ops Watch_def
      OnTimerTriggered_def Let_def)

definition sample_watch_env :: watch_env where
  "sample_watch_env = \<lparr>we_socketpair = Some (7, 8), we_nonblocking = (\<lambda>_. True), we_assign = True, we_add = (\<lambda>_. True)\<rparr>"

theorem Cancel_before_start_lost_witness:
  "\<exists>t. ebind (InvokeTimer_Start sample_watch_env False (InvokeTimer_Create (Duration_of_ns 1000000) False True))
      (timer_run sample_watch_env [UserCancels True, RunTimerTask, Fires False]) = Inr t \<and> fired t = 1 \<and> cancelled t = 0"
  by (rule Cancel_before_start_lost) (simp_all add: sample_watch_env_def)

end
