(* ===== verification/Loop_Pool.thy ===== *)
theory Loop_Pool
  imports Server_Status Step_System
begin

text \<open>
  \<^verbatim>\<open>eventpp::EventLoopThread\<close> and \<^verbatim>\<open>EventLoopThreadPool\<close> (src/event_loop_thread.cpp, src/event_loop_thread_pool.cpp):
  worker threads with an event loop each, and the pool that starts them, waits for them, hands out
  their loops and stops them. The thread that owns the pool and the workers interleave at every access
  to an atomic variable, as in \<open>Event_Loop\<close>; a loop that polls a status with \<^verbatim>\<open>usleep\<close> is a step that waits. Of
  a worker's event loop only the status matters here: it runs the functors queued before \<^verbatim>\<open>Run\<close> and
  leaves \<^verbatim>\<open>Run\<close> after \<^verbatim>\<open>Stop\<close>.
\<close>

section \<open>State\<close>

text \<open>The points of \<^verbatim>\<open>EventLoopThread::Run\<close> with the functors \<^verbatim>\<open>prefn\<close> and \<^verbatim>\<open>postfn\<close> the pool gives it:
  \<open>WFn\<close> is the queued functor, \<open>WPre\<close> and \<open>WPost\<close> the \<^verbatim>\<open>fetch_add\<close> of the two counters, whose results \<open>WStarted\<close> and
  \<open>WExiting\<close> carry.\<close>

datatype worker_pc = WRun | WFn | WPre | WStarted nat | WLoop | WPost | WExiting nat | WCallback | WLast | WExited

record EventLoopThread =
  et_status :: server_status
  et_loop :: server_status
  et_pc :: worker_pc

text \<open>The points of the owner: \<open>PStart\<close>, \<open>PStop\<close> and \<open>PJoin\<close> are calls to be made, the others the rest of
  a call under way.\<close>

datatype pool_pc =
    PStart bool | Spawn nat bool | WaitThread nat | PushBack nat | WaitRunning | AssertRunning
  | PStop bool bool | SetCallback bool | StopThread nat bool | StopLoop nat | ScanStopped nat | StoreStopped
  | PJoin | JoinThread nat | ClearThreads

text \<open>\<open>threads\<close> are all threads ever created; \<^verbatim>\<open>threads_\<close> are the first \<open>pushed\<close> of them. \<open>cb_calls\<close> counts the
  calls of the callback given to \<^verbatim>\<open>Stop\<close>.\<close>

record EventLoopThreadPool =
  pl_status :: server_status
  thread_num :: nat
  threads :: "EventLoopThread list"
  pushed :: nat
  next_loop :: "64 word"
  started_count :: nat
  exited_count :: nat
  stopped_cb :: bool
  cb_calls :: nat
  owner :: "pool_pc list"

definition Pool_new :: "nat \<Rightarrow> pool_pc list \<Rightarrow> EventLoopThreadPool" where
  "Pool_new n prog =
     \<lparr>pl_status = kNull, thread_num = n, threads = [], pushed = 0, next_loop = 0, started_count = 0, exited_count = 0,
      stopped_cb = False, cb_calls = 0, owner = prog\<rparr>"

section \<open>A worker\<close>

definition Thread_Start :: EventLoopThread where
  "Thread_Start = \<lparr>et_status = kStarting, et_loop = kInitialized, et_pc = WRun\<rparr>"

definition OnThreadStarted :: "nat \<Rightarrow> EventLoopThreadPool \<Rightarrow> EventLoopThreadPool" where
  "OnThreadStarted count p = (if count = thread_num p then p\<lparr>pl_status := kRunning\<rparr> else p)"

text \<open>\<^verbatim>\<open>OnThreadExited\<close>: the status is stored first, then the callback is called.\<close>

definition OnThreadExited :: "nat \<Rightarrow> EventLoopThreadPool \<Rightarrow> worker_pc \<times> EventLoopThreadPool" where
  "OnThreadExited count p =
     (if count = thread_num p then (WCallback, p\<lparr>pl_status := kStopped\<rparr>) else (WLast, p))"

definition call_stopped_cb :: "EventLoopThreadPool \<Rightarrow> EventLoopThreadPool" where
  "call_stopped_cb p = (if stopped_cb p then p\<lparr>cb_calls := cb_calls p + 1, stopped_cb := False\<rparr> else p)"

definition Thread_Run :: "EventLoopThread \<Rightarrow> EventLoopThreadPool \<Rightarrow> (EventLoopThread \<times> EventLoopThreadPool) result option" where
  "Thread_Run t p =
     (case et_pc t of
        WRun \<Rightarrow> Some (Inr (t\<lparr>et_loop := kRunning, et_pc := WFn\<rparr>, p))
      | WFn \<Rightarrow> Some (Inr (t\<lparr>et_status := kRunning, et_pc := WPre\<rparr>, p))
      | WPre \<Rightarrow> Some (Inr (t\<lparr>et_pc := WStarted (started_count p + 1)\<rparr>, p\<lparr>started_count := started_count p + 1\<rparr>))
      | WStarted count \<Rightarrow> Some (Inr (t\<lparr>et_pc := WLoop\<rparr>, OnThreadStarted count p))
      | WLoop \<Rightarrow> if et_loop t = kStopping then Some (Inr (t\<lparr>et_loop := kStopped, et_pc := WPost\<rparr>, p)) else None
      | WPost \<Rightarrow> Some (Inr (t\<lparr>et_pc := WExiting (exited_count p + 1)\<rparr>, p\<lparr>exited_count := exited_count p + 1\<rparr>))
      | WExiting count \<Rightarrow> Some (Inr (case OnThreadExited count p of (pc, p1) \<Rightarrow> (t\<lparr>et_pc := pc\<rparr>, p1)))
      | WCallback \<Rightarrow> Some (Inr (t\<lparr>et_pc := WLast\<rparr>, call_stopped_cb p))
      | WLast \<Rightarrow> Some (asserting (et_loop t = kStopped) (Inr (t\<lparr>et_status := kStopped, et_pc := WExited\<rparr>, p)))
      | WExited \<Rightarrow> None)"

definition worker_step :: "nat \<Rightarrow> EventLoopThreadPool \<Rightarrow> EventLoopThreadPool result option" where
  "worker_step i p =
     map_option (\<lambda>r. ebind r (\<lambda>(t, p1). Inr (p1\<lparr>threads := (threads p)[i := t]\<rparr>))) (Thread_Run (threads p ! i) p)"

section \<open>The owner\<close>

definition Pool_Start :: "bool \<Rightarrow> EventLoopThreadPool \<Rightarrow> pool_pc list \<times> EventLoopThreadPool" where
  "Pool_Start wait p = (if thread_num p = 0 then [] else [Spawn 0 wait], p\<lparr>pl_status := (if thread_num p = 0 then kRunning else kStarting)\<rparr>)"

definition spawn_thread :: "nat \<Rightarrow> bool \<Rightarrow> EventLoopThreadPool \<Rightarrow> pool_pc list \<times> EventLoopThreadPool" where
  "spawn_thread i wait p =
     (if i < thread_num p
      then ((if wait then [WaitThread i] else []) @ [PushBack i, Spawn (i + 1) wait], p\<lparr>threads := threads p @ [Thread_Start]\<rparr>)
      else (if wait then [WaitRunning, AssertRunning] else [], p))"

definition Pool_Stop :: "bool \<Rightarrow> bool \<Rightarrow> EventLoopThreadPool \<Rightarrow> pool_pc list \<times> EventLoopThreadPool" where
  "Pool_Stop wait cb p =
     (if thread_num p = 0 then [StoreStopped, SetCallback cb] else [SetCallback cb, StopThread 0 wait],
      p\<lparr>pl_status := kStopping\<rparr>)"

text \<open>\<^verbatim>\<open>EventLoopThread::Stop\<close> has two steps, the status of the thread and that of its loop.\<close>

definition Thread_Stop :: "EventLoopThread \<Rightarrow> EventLoopThread result" where
  "Thread_Stop t = asserting (et_status t = kRunning \<and> et_loop t = kRunning) (Inr (t\<lparr>et_status := kStopping\<rparr>))"

definition stop_thread :: "nat \<Rightarrow> bool \<Rightarrow> EventLoopThreadPool \<Rightarrow> (pool_pc list \<times> EventLoopThreadPool) result" where
  "stop_thread i wait p =
     (if i < pushed p
      then ebind (Thread_Stop (threads p ! i)) (\<lambda>t. Inr ([StopLoop i, StopThread (i + 1) wait], p\<lparr>threads := (threads p)[i := t]\<rparr>))
      else Inr ((if wait then [ScanStopped 0] else []) @ [StoreStopped], p))"

definition stop_loop :: "nat \<Rightarrow> EventLoopThreadPool \<Rightarrow> EventLoopThreadPool" where
  "stop_loop i p =
     (let t = threads p ! i in
      if et_loop t = kRunning then p\<lparr>threads := (threads p)[i := t\<lparr>et_loop := kStopping\<rparr>]\<rparr> else p)"

fun owner_exec :: "pool_pc \<Rightarrow> EventLoopThreadPool \<Rightarrow> (pool_pc list \<times> EventLoopThreadPool) result option" where
  "owner_exec (PStart wait) p = Some (Inr (Pool_Start wait p))"
| "owner_exec (Spawn i wait) p = Some (Inr (spawn_thread i wait p))"
| "owner_exec (WaitThread i) p = (if et_status (threads p ! i) < kRunning then None else Some (Inr ([], p)))"
| "owner_exec (PushBack i) p = Some (Inr ([], p\<lparr>pushed := pushed p + 1\<rparr>))"
| "owner_exec WaitRunning p = (if pl_status p = kRunning then Some (Inr ([], p)) else None)"
| "owner_exec AssertRunning p = Some (asserting (pl_status p = kRunning) (Inr ([], p)))"
| "owner_exec (PStop wait cb) p = Some (Inr (Pool_Stop wait cb p))"
| "owner_exec (SetCallback cb) p =
     Some (Inr ([], if thread_num p = 0 then (if cb then p\<lparr>cb_calls := cb_calls p + 1\<rparr> else p) else p\<lparr>stopped_cb := cb\<rparr>))"
| "owner_exec (StopThread i wait) p = Some (stop_thread i wait p)"
| "owner_exec (StopLoop i) p = Some (Inr ([], stop_loop i p))"
| "owner_exec (ScanStopped i) p =
     (if i < pushed p then (if et_status (threads p ! i) = kStopped then Some (Inr ([ScanStopped (i + 1)], p)) else None)
      else Some (Inr ([], p)))"
| "owner_exec StoreStopped p = Some (Inr ([], p\<lparr>pl_status := kStopped\<rparr>))"
| "owner_exec PJoin p = Some (Inr ([JoinThread 0], p))"
| "owner_exec (JoinThread i) p =
     (if i < pushed p then (if et_pc (threads p ! i) = WExited then Some (Inr ([JoinThread (i + 1)], p)) else None)
      else Some (Inr ([ClearThreads], p)))"
| "owner_exec ClearThreads p = Some (Inr ([], p\<lparr>pushed := 0\<rparr>))"

definition owner_step :: "EventLoopThreadPool \<Rightarrow> EventLoopThreadPool result option" where
  "owner_step p =
     (case owner p of
        [] \<Rightarrow> None
      | fr # k \<Rightarrow> map_option (\<lambda>r. ebind r (\<lambda>(new, p1). Inr (p1\<lparr>owner := new @ k\<rparr>))) (owner_exec fr p))"

inductive pool_step :: "EventLoopThreadPool \<Rightarrow> EventLoopThreadPool \<Rightarrow> bool" where
  by_owner: "owner_step p = Some (Inr p') \<Longrightarrow> pool_step p p'"
| by_worker: "i < length (threads p) \<Longrightarrow> worker_step i p = Some (Inr p') \<Longrightarrow> pool_step p p'"

section \<open>Choosing a loop\<close>

text \<open>The loops are numbered as in \<^verbatim>\<open>threads_\<close>; \<open>None\<close> is \<^verbatim>\<open>base_loop_\<close>. The counter is a signed 64-bit integer, converted
  to unsigned by the operator \<^verbatim>\<open>%\<close>.\<close>

definition Pool_GetNextLoop :: "EventLoopThreadPool \<Rightarrow> nat option \<times> EventLoopThreadPool" where
  "Pool_GetNextLoop p =
     (if pl_status p = kRunning \<and> pushed p \<noteq> 0
      then (Some (unat (next_loop p mod of_nat (pushed p))), p\<lparr>next_loop := next_loop p + 1\<rparr>)
      else (None, p))"

definition GetNextLoopWithHash :: "64 word \<Rightarrow> EventLoopThreadPool \<Rightarrow> nat option" where
  "GetNextLoopWithHash hash p =
     (if pl_status p = kRunning \<and> pushed p \<noteq> 0 then Some (unat (hash mod of_nat (pushed p))) else None)"

end
