(* ===== verification/Loop_Pool_Props.thy ===== *)
theory Loop_Pool_Props
  imports Loop_Pool "HOL-Library.Multiset"
begin

text \<open>
  The life of a thread pool that is started with \<^verbatim>\<open>Start(true)\<close>, stopped and joined: every step of the owner
  has a phase, which says what it may rely on about the workers, and the workers keep each phase.
\<close>

section \<open>Workers\<close>

definition worker_ok :: "EventLoopThread \<Rightarrow> bool" where
  "worker_ok t \<longleftrightarrow>
     (et_status t, et_loop t) \<in>
       (case et_pc t of
          WRun \<Rightarrow> {(kStarting, kInitialized)}
        | WFn \<Rightarrow> {(kStarting, kRunning)}
        | WPre \<Rightarrow> {(kRunning, kRunning), (kStopping, kRunning), (kStopping, kStopping)}
        | WStarted _ \<Rightarrow> {(kRunning, kRunning), (kStopping, kRunning), (kStopping, kStopping)}
        | WLoop \<Rightarrow> {(kRunning, kRunning), (kStopping, kRunning), (kStopping, kStopping)}
        | WExited \<Rightarrow> {(kStopped, kStopped)}
        | _ \<Rightarrow> {(kStopping, kStopped)})"

text \<open>What the owner knows of a worker; the other threads cannot make it false.\<close>

datatype knowledge = CStarting | CRunning | CHalf | CStopping | CStopped

fun known :: "knowledge \<Rightarrow> EventLoopThread \<Rightarrow> bool" where
  "known CStarting t \<longleftrightarrow> et_status t \<in> {kStarting, kRunning}"
| "known CRunning t \<longleftrightarrow> et_status t = kRunning"
| "known CHalf t \<longleftrightarrow> et_status t = kStopping \<and> et_loop t = kRunning"
| "known CStopping t \<longleftrightarrow> et_status t \<in> {kStopping, kStopped} \<and> et_loop t \<noteq> kRunning"
| "known CStopped t \<longleftrightarrow> et_status t = kStopped"

lemma Thread_Run_ok:
  assumes "Thread_Run t p = Some r" "worker_ok t"
  shows "\<exists>t' p1. r = Inr (t', p1) \<and> worker_ok t' \<and> (known c t \<longrightarrow> known c t')"
  using assms
  by (cases c; cases "et_pc t") (auto simp: Thread_Run_def worker_ok_def OnThreadExited_def split: if_splits)

lemma Thread_Run_blocked:
  assumes "Thread_Run t p = None" "worker_ok t"
  shows "et_status t = kStopped \<or> et_pc t = WLoop \<and> et_loop t = kRunning \<and> et_status t \<in> {kRunning, kStopping}"
  using assms by (cases "et_pc t") (auto simp: Thread_Run_def worker_ok_def split: if_splits)

lemma stopped_exited: "worker_ok t \<Longrightarrow> et_status t = kStopped \<longleftrightarrow> et_pc t = WExited"
  by (cases "et_pc t") (auto simp: worker_ok_def split: if_splits)

section \<open>Counting\<close>

fun has_started :: "EventLoopThread \<Rightarrow> int" where
  "has_started t = of_bool (et_pc t \<notin> {WRun, WFn, WPre})"

fun has_exited :: "EventLoopThread \<Rightarrow> int" where
  "has_exited t = (case et_pc t of WExiting _ \<Rightarrow> 1 | WCallback \<Rightarrow> 1 | WLast \<Rightarrow> 1 | WExited \<Rightarrow> 1 | _ \<Rightarrow> 0)"

fun last_started :: "nat \<Rightarrow> EventLoopThread \<Rightarrow> int" where
  "last_started n t = of_bool (et_pc t = WStarted n)"

fun last_exiting :: "nat \<Rightarrow> EventLoopThread \<Rightarrow> int" where
  "last_exiting n t = of_bool (et_pc t = WExiting n \<or> et_pc t = WCallback)"

abbreviation count :: "(EventLoopThread \<Rightarrow> int) \<Rightarrow> EventLoopThreadPool \<Rightarrow> int" where
  "count w p \<equiv> sum_list (map w (threads p))"

definition started_done :: "EventLoopThreadPool \<Rightarrow> bool" where
  "started_done p \<longleftrightarrow> started_count p = thread_num p \<and> count (last_started (thread_num p)) p = 0"

definition exited_done :: "EventLoopThreadPool \<Rightarrow> bool" where
  "exited_done p \<longleftrightarrow> exited_count p = thread_num p \<and> count (last_exiting (thread_num p)) p = 0"

definition counts_ok :: "EventLoopThreadPool \<Rightarrow> bool" where
  "counts_ok p \<longleftrightarrow> length (threads p) \<le> thread_num p \<and>
     int (started_count p) = count has_started p \<and> int (exited_count p) = count has_exited p \<and>
     count (last_started (thread_num p)) p \<le> of_bool (started_count p = thread_num p) \<and>
     count (last_exiting (thread_num p)) p \<le> of_bool (exited_count p = thread_num p)"

section \<open>Phases of the owner\<close>

datatype stage = New | Starting | Up | Down | Ended

fun stage_ok :: "stage \<Rightarrow> EventLoopThreadPool \<Rightarrow> bool" where
  "stage_ok New p \<longleftrightarrow> pl_status p = kNull \<and> started_count p = 0"
| "stage_ok Starting p \<longleftrightarrow> pl_status p \<in> {kStarting, kRunning} \<and> (pl_status p = kRunning \<longleftrightarrow> started_done p)"
| "stage_ok Up p \<longleftrightarrow> pl_status p = kRunning \<and> started_done p"
| "stage_ok Down p \<longleftrightarrow> pl_status p \<in> {kStopping, kStopped} \<and> started_done p"
| "stage_ok Ended p \<longleftrightarrow> pl_status p = kStopped \<and> started_done p"

definition cb_ok :: "bool \<Rightarrow> bool \<Rightarrow> EventLoopThreadPool \<Rightarrow> bool" where
  "cb_ok cb given p \<longleftrightarrow>
     (if given then stopped_cb p = (cb \<and> \<not> exited_done p) \<and> cb_calls p = of_bool (cb \<and> exited_done p)
      else \<not> stopped_cb p \<and> cb_calls p = 0 \<and> exited_count p = 0)"

abbreviation final :: "bool \<Rightarrow> knowledge" where
  "final we \<equiv> if we then CStopped else CStopping"

text \<open>\<open>we\<close> and \<open>cb\<close> are the arguments of \<^verbatim>\<open>Stop\<close>: whether it waits, and whether there is a callback. A phase
  relates the owner's program points to what it knows of each worker, to the length of \<^verbatim>\<open>threads_\<close>, the stage
  of the pool and whether the callback is in place.\<close>

inductive phase :: "bool \<Rightarrow> bool \<Rightarrow> nat \<Rightarrow> pool_pc list \<Rightarrow> knowledge list \<Rightarrow> nat \<Rightarrow> stage \<Rightarrow> bool \<Rightarrow> bool"
  for we cb n where
  new: "phase we cb n [PStart True, PStop we cb, PJoin] [] 0 New False"
| spawn: "0 < n \<Longrightarrow> i \<le> n \<Longrightarrow> phase we cb n [Spawn i True, PStop we cb, PJoin] (replicate i CRunning) i Starting False"
| spawned: "i < n \<Longrightarrow> phase we cb n [WaitThread i, PushBack i, Spawn (Suc i) True, PStop we cb, PJoin]
    (replicate i CRunning @ [CStarting]) i Starting False"
| started: "i < n \<Longrightarrow> phase we cb n [PushBack i, Spawn (Suc i) True, PStop we cb, PJoin]
    (replicate i CRunning @ [CRunning]) i Starting False"
| all_started: "0 < n \<Longrightarrow> phase we cb n [WaitRunning, AssertRunning, PStop we cb, PJoin] (replicate n CRunning) n Starting False"
| running: "0 < n \<Longrightarrow> phase we cb n [AssertRunning, PStop we cb, PJoin] (replicate n CRunning) n Up False"
| up: "phase we cb n [PStop we cb, PJoin] (replicate n CRunning) n Up False"
| stopping: "0 < n \<Longrightarrow> phase we cb n [SetCallback cb, StopThread 0 we, PJoin] (replicate n CRunning) n Down False"
| stop: "0 < n \<Longrightarrow> i \<le> n \<Longrightarrow> phase we cb n [StopThread i we, PJoin]
    (replicate i CStopping @ replicate (n - i) CRunning) n Down True"
| stop_half: "i < n \<Longrightarrow> phase we cb n [StopLoop i, StopThread (Suc i) we, PJoin]
    (replicate i CStopping @ CHalf # replicate (n - Suc i) CRunning) n Down True"
| scan: "we \<Longrightarrow> 0 < n \<Longrightarrow> i \<le> n \<Longrightarrow> phase we cb n [ScanStopped i, StoreStopped, PJoin]
    (replicate i CStopped @ replicate (n - i) CStopping) n Down True"
| store: "0 < n \<Longrightarrow> phase we cb n [StoreStopped, PJoin] (replicate n (final we)) n Down True"
| no_threads: "n = 0 \<Longrightarrow> phase we cb n [StoreStopped, SetCallback cb, PJoin] [] 0 Down False"
| no_threads_cb: "n = 0 \<Longrightarrow> phase we cb n [SetCallback cb, PJoin] [] 0 Ended False"
| stopped: "phase we cb n [PJoin] (replicate n (final we)) n Ended True"
| join: "i \<le> n \<Longrightarrow> phase we cb n [JoinThread i] (replicate i CStopped @ replicate (n - i) (final we)) n Ended True"
| clear: "phase we cb n [ClearThreads] (replicate n CStopped) n Ended True"
| finished: "phase we cb n [] (replicate n CStopped) 0 Ended True"

definition pool_inv :: "bool \<Rightarrow> bool \<Rightarrow> EventLoopThreadPool \<Rightarrow> bool" where
  "pool_inv we cb p \<longleftrightarrow>
     (\<exists>ks st given. phase we cb (thread_num p) (owner p) ks (pushed p) st given \<and> list_all2 known ks (threads p) \<and>
        list_all worker_ok (threads p) \<and> counts_ok p \<and> stage_ok st p \<and> cb_ok cb given p)"

lemma phase_early:
  "phase we cb n k ks l st given \<Longrightarrow> st \<notin> {Down, Ended} \<or> \<not> given \<Longrightarrow> set ks \<subseteq> {CStarting, CRunning}"
  by (erule phase.cases) auto

lemma phase_new: "phase we cb n k ks l New given \<Longrightarrow> ks = []"
  by (erule phase.cases) auto

section \<open>Steps of a worker\<close>

lemma count_update:
  assumes "i < length (threads p)"
  shows "count w (p1\<lparr>threads := (threads p)[i := t]\<rparr>) = count w p + w t - w (threads p ! i)"
  using assms by (simp add: map_update sum_list_upd)

lemma count_bounds: "count (last_started n) p \<ge> 0" "count (last_exiting n) p \<ge> 0"
  by (intro sum_list_map_nonneg; simp)+

lemma count_le_length:
  assumes "\<And>t. w t \<le> 1"
  shows "count w p \<le> int (length (threads p))"
proof -
  have "sum_list (map w (threads p)) \<le> sum_list (map (\<lambda>_. 1) (threads p))" using assms by (intro sum_list_mono)
  then show ?thesis by (simp add: sum_list_triv)
qed

lemma Thread_Run_frame:
  assumes "Thread_Run t p = Some (Inr (t', p1))"
  shows "thread_num p1 = thread_num p \<and> owner p1 = owner p \<and> pushed p1 = pushed p \<and> threads p1 = threads p"
  using assms
  by (cases "et_pc t")
    (auto simp: Thread_Run_def OnThreadStarted_def OnThreadExited_def call_stopped_cb_def split: if_splits)

lemma count_less:
  assumes "i < length (threads p)" "w (threads p ! i) = 0" "\<And>t. w t \<le> 1"
  shows "count w p < int (length (threads p))"
proof -
  have "\<exists>t \<in> set (threads p). 1 - w t > 0" using assms(1,2) by (intro bexI [of _ "threads p ! i"]) auto
  then have "sum_list (map (\<lambda>t. 1 - w t) (threads p)) > 0" using assms(3) by (subst sum_list_map_pos) auto
  then show ?thesis by (simp add: sum_list_subtractf sum_list_triv)
qed

lemma count_const: "\<forall>t \<in> set (threads p). w t = c \<Longrightarrow> count w p = c * int (length (threads p))"
proof -
  assume "\<forall>t \<in> set (threads p). w t = c"
  then have "map w (threads p) = map (\<lambda>_. c) (threads p)" by simp
  then show ?thesis by (simp only: sum_list_triv) simp
qed

lemma has_le_one: "has_started t \<le> 1" "has_exited t \<le> 1"
  by (simp_all split: worker_pc.splits)

lemma last_unique:
  assumes "i < length (threads p)" "counts_ok p"
  shows "et_pc (threads p ! i) = WStarted (thread_num p) \<Longrightarrow>
      count (last_started (thread_num p)) p = 1 \<and> started_count p = thread_num p"
    and "last_exiting (thread_num p) (threads p ! i) = 1 \<Longrightarrow>
      count (last_exiting (thread_num p)) p = 1 \<and> exited_count p = thread_num p"
proof -
  assume "et_pc (threads p ! i) = WStarted (thread_num p)"
  then have "count (last_started (thread_num p)) p > 0"
    using assms(1) by (subst sum_list_map_pos) (auto intro!: bexI [of _ "threads p ! i"])
  then show "count (last_started (thread_num p)) p = 1 \<and> started_count p = thread_num p"
    using assms(2) by (cases "started_count p = thread_num p") (auto simp: counts_ok_def)
next
  assume "last_exiting (thread_num p) (threads p ! i) = 1"
  then have "count (last_exiting (thread_num p)) p > 0"
    using assms(1) by (subst sum_list_map_pos) (auto intro!: bexI [of _ "threads p ! i"])
  then show "count (last_exiting (thread_num p)) p = 1 \<and> exited_count p = thread_num p"
    using assms(2) by (cases "exited_count p = thread_num p") (auto simp: counts_ok_def)
qed

lemma Thread_RunE:
  assumes "Thread_Run t p = Some (Inr (t', p1))"
  obtains (pre) "et_pc t = WPre" "et_pc t' = WStarted (started_count p + 1)" "p1 = p\<lparr>started_count := started_count p + 1\<rparr>"
  | (started) c where "et_pc t = WStarted c" "et_pc t' = WLoop" "p1 = OnThreadStarted c p"
  | (post) "et_pc t = WPost" "et_pc t' = WExiting (exited_count p + 1)" "p1 = p\<lparr>exited_count := exited_count p + 1\<rparr>"
  | (exiting) c where "et_pc t = WExiting c" "(et_pc t', p1) = OnThreadExited c p"
  | (callback) "et_pc t = WCallback" "et_pc t' = WLast" "p1 = call_stopped_cb p"
  | (plain) "(et_pc t, et_pc t') \<in> {(WRun, WFn), (WFn, WPre), (WLoop, WPost), (WLast, WExited)}" "p1 = p"
  using assms
  by (cases "et_pc t") (auto simp: Thread_Run_def split: if_splits prod.splits)

lemma worker_counts:
  assumes run: "Thread_Run (threads p ! i) p = Some (Inr (t', p1))" and i: "i < length (threads p)" and c: "counts_ok p"
  shows "counts_ok (p1\<lparr>threads := (threads p)[i := t']\<rparr>)"
proof -
  let ?t = "threads p ! i" and ?p = "p1\<lparr>threads := (threads p)[i := t']\<rparr>"
  have u: "count w ?p = count w p + w t' - w ?t" for w using count_update [OF i] by blast
  have num: "thread_num p1 = thread_num p" using Thread_Run_frame [OF run] by blast
  have s: "et_pc ?t = WPre \<Longrightarrow> count has_started p < int (thread_num p)"
    using count_less [where w = has_started, OF i _ has_le_one(1)] c by (auto simp: counts_ok_def)
  have e: "et_pc ?t = WPost \<Longrightarrow> count has_exited p < int (thread_num p)"
    using count_less [where w = has_exited, OF i _ has_le_one(2)] c by (auto simp: counts_ok_def)
  have c4: "int (started_count p) = count has_started p" "int (exited_count p) = count has_exited p"
    "count (last_started (thread_num p)) p \<le> of_bool (started_count p = thread_num p)"
    "count (last_exiting (thread_num p)) p \<le> of_bool (exited_count p = thread_num p)" "length (threads p) \<le> thread_num p"
    using c by (simp_all add: counts_ok_def)
  from run show ?thesis
  proof (cases rule: Thread_RunE)
    case pre
    then show ?thesis using s c4 count_bounds [of "thread_num p" p] unfolding counts_ok_def u by auto
  next
    case (started c)
    then show ?thesis using c4 count_bounds [of "thread_num p" p] unfolding counts_ok_def u by (auto simp: OnThreadStarted_def)
  next
    case post
    then show ?thesis using e c4 count_bounds [of "thread_num p" p] unfolding counts_ok_def u by auto
  next
    case (exiting c)
    then show ?thesis using c4 count_bounds [of "thread_num p" p] unfolding counts_ok_def u
      by (auto simp: OnThreadExited_def split: if_splits)
  next
    case callback
    then show ?thesis using c4 count_bounds [of "thread_num p" p] unfolding counts_ok_def u by (auto simp: call_stopped_cb_def)
  next
    case plain
    then have "has_started t' = has_started ?t" "has_exited t' = has_exited ?t"
      "last_started n t' = last_started n ?t" "last_exiting n t' = last_exiting n ?t" for n by auto
    then show ?thesis using c4 plain(2) unfolding counts_ok_def u by simp
  qed
qed

lemma worker_stage:
  assumes run: "Thread_Run (threads p ! i) p = Some (Inr (t', p1))" and i: "i < length (threads p)" and c: "counts_ok p"
    and st: "stage_ok st p" "st \<noteq> New" "known CStopping (threads p ! i) \<Longrightarrow> st \<in> {Down, Ended}" and ok: "worker_ok (threads p ! i)"
  shows "stage_ok st (p1\<lparr>threads := (threads p)[i := t']\<rparr>)"
proof -
  let ?t = "threads p ! i" and ?p = "p1\<lparr>threads := (threads p)[i := t']\<rparr>"
  have u: "count w ?p = count w p + w t' - w ?t" for w using count_update [OF i] by blast
  have c4: "int (started_count p) = count has_started p" "length (threads p) \<le> thread_num p"
    "count (last_started (thread_num p)) p \<le> of_bool (started_count p = thread_num p)"
    using c by (simp_all add: counts_ok_def)
  have d: "started_done ?p \<longleftrightarrow> started_count p1 = thread_num p1 \<and>
      count (last_started (thread_num p1)) p + last_started (thread_num p1) t' - last_started (thread_num p1) ?t = 0"
    unfolding started_done_def u by simp
  have s: "et_pc ?t = WPre \<Longrightarrow> \<not> started_done p"
    using count_less [where w = has_started, OF i _ has_le_one(1)] c4 by (auto simp: started_done_def)
  note w = last_unique(1) [OF i c]
  note cb = count_bounds [of "thread_num p" p]
  from run show ?thesis
  proof (cases rule: Thread_RunE)
    case pre
    then have "\<not> started_done p" "\<not> started_done ?p" using s d cb by (auto simp: started_done_def)
    then show ?thesis using st(1,2) pre by (cases st) auto
  next
    case (started c)
    show ?thesis
    proof (cases "c = thread_num p")
      case True
      then have "\<not> started_done p" "started_done ?p"
        using started w c4(3) cb d by (auto simp: started_done_def OnThreadStarted_def split: if_splits)
      then show ?thesis using st(1,2) started True by (cases st) (auto simp: OnThreadStarted_def)
    next
      case False
      then have "started_done ?p = started_done p" using started d by (auto simp: started_done_def OnThreadStarted_def)
      then show ?thesis using st(1,2) started False by (cases st) (auto simp: OnThreadStarted_def)
    qed
  next
    case post
    then have "started_done ?p = started_done p" using d by (auto simp: started_done_def)
    then show ?thesis using st(1,2) post by (cases st) auto
  next
    case (exiting c)
    then have "started_done ?p = started_done p" "st \<in> {Down, Ended}"
      using d st(3) ok by (auto simp: started_done_def OnThreadExited_def worker_ok_def split: if_splits)
    then show ?thesis using st(1,2) exiting by (cases st) (auto simp: OnThreadExited_def split: if_splits)
  next
    case callback
    then have "started_done ?p = started_done p" using d by (auto simp: started_done_def call_stopped_cb_def)
    then show ?thesis using st(1,2) callback by (cases st) (auto simp: call_stopped_cb_def)
  next
    case plain
    then have "started_done ?p = started_done p" using d by (auto simp: started_done_def)
    then show ?thesis using st(1,2) plain by (cases st) auto
  qed
qed

lemma worker_cb:
  assumes run: "Thread_Run (threads p ! i) p = Some (Inr (t', p1))" and i: "i < length (threads p)" and c: "counts_ok p"
    and cb: "cb_ok cb given p" "known CStopping (threads p ! i) \<Longrightarrow> given" and ok: "worker_ok (threads p ! i)"
  shows "cb_ok cb given (p1\<lparr>threads := (threads p)[i := t']\<rparr>)"
proof -
  let ?t = "threads p ! i" and ?p = "p1\<lparr>threads := (threads p)[i := t']\<rparr>"
  have u: "count w ?p = count w p + w t' - w ?t" for w using count_update [OF i] by blast
  have c4: "int (exited_count p) = count has_exited p" "length (threads p) \<le> thread_num p"
    "count (last_exiting (thread_num p)) p \<le> of_bool (exited_count p = thread_num p)"
    using c by (simp_all add: counts_ok_def)
  have d: "exited_done ?p \<longleftrightarrow> exited_count p1 = thread_num p1 \<and>
      count (last_exiting (thread_num p1)) p + last_exiting (thread_num p1) t' - last_exiting (thread_num p1) ?t = 0"
    unfolding exited_done_def u by simp
  have s: "et_pc ?t = WPost \<Longrightarrow> \<not> exited_done p"
    using count_less [where w = has_exited, OF i _ has_le_one(2)] c4 by (auto simp: exited_done_def)
  note w = last_unique(2) [OF i c]
  note cn = count_bounds [of "thread_num p" p]
  from run show ?thesis
  proof (cases rule: Thread_RunE)
    case pre
    then have "exited_done ?p = exited_done p" using d by (auto simp: exited_done_def)
    then show ?thesis using cb(1) pre by (auto simp: cb_ok_def)
  next
    case (started c)
    then have "exited_done ?p = exited_done p" using d by (auto simp: exited_done_def OnThreadStarted_def)
    then show ?thesis using cb(1) started by (auto simp: cb_ok_def OnThreadStarted_def)
  next
    case post
    then have "\<not> exited_done p" "\<not> exited_done ?p" "given" using s d cn cb(2) ok by (auto simp: exited_done_def worker_ok_def)
    then show ?thesis using cb(1) post by (auto simp: cb_ok_def)
  next
    case (exiting c)
    then have "exited_done ?p = exited_done p" "given"
      using d w cb(2) ok by (auto simp: exited_done_def OnThreadExited_def worker_ok_def split: if_splits)
    then show ?thesis using cb(1) exiting by (auto simp: cb_ok_def OnThreadExited_def split: if_splits)
  next
    case callback
    then have "\<not> exited_done p" "exited_done ?p" "given"
      using w c4(3) cn d cb(2) ok by (auto simp: exited_done_def call_stopped_cb_def worker_ok_def split: if_splits)
    then show ?thesis using cb(1) callback by (auto simp: cb_ok_def call_stopped_cb_def)
  next
    case plain
    then have "exited_done ?p = exited_done p" using d by (auto simp: exited_done_def)
    then show ?thesis using cb(1) plain by (auto simp: cb_ok_def)
  qed
qed

lemma worker_step_inv:
  assumes inv: "pool_inv we cb p" and i: "i < length (threads p)" and step: "worker_step i p = Some r"
  shows "\<exists>p'. r = Inr p' \<and> pool_inv we cb p'"
proof -
  let ?t = "threads p ! i"
  obtain ks st given where ph: "phase we cb (thread_num p) (owner p) ks (pushed p) st given" "list_all2 known ks (threads p)"
    "list_all worker_ok (threads p)" "counts_ok p" "stage_ok st p" "cb_ok cb given p"
    using inv by (auto simp: pool_inv_def)
  obtain r1 where r1: "Thread_Run ?t p = Some r1" "r = ebind r1 (\<lambda>(t, p1). Inr (p1\<lparr>threads := (threads p)[i := t]\<rparr>))"
    using step by (auto simp: worker_step_def)
  have ok: "worker_ok ?t" and kn: "known (ks ! i) ?t" and len: "length ks = length (threads p)"
    using ph(2,3) i by (auto simp: list_all_length list_all2_conv_all_nth)
  obtain t' p1 where t': "r1 = Inr (t', p1)" "worker_ok t'" "known (ks ! i) t'"
    using Thread_Run_ok [OF r1(1) ok, of "ks ! i"] kn by blast
  have run: "Thread_Run ?t p = Some (Inr (t', p1))" using r1(1) t'(1) by simp
  let ?p = "p1\<lparr>threads := (threads p)[i := t']\<rparr>"
  have early: "st \<notin> {Down, Ended} \<or> \<not> given \<Longrightarrow> \<not> known CStopping ?t"
    using phase_early [OF ph(1)] kn i len nth_mem [of i ks] by fastforce
  have nn: "st \<noteq> New" using phase_new ph(1) i len by force
  have "pool_inv we cb ?p"
    unfolding pool_inv_def
  proof (intro exI conjI)
    show "phase we cb (thread_num ?p) (owner ?p) ks (pushed ?p) st given" using ph(1) Thread_Run_frame [OF run] by simp
    show "list_all2 known ks (threads ?p)" using list_all2_update_cong [OF ph(2) t'(3), of i] by simp
    show "list_all worker_ok (threads ?p)" using ph(3) t'(2) i by (auto simp: list_all_length nth_list_update)
    show "counts_ok ?p" by (rule worker_counts [OF run i ph(4)])
    show "stage_ok st ?p" by (rule worker_stage [OF run i ph(4,5) nn _ ok]) (use early in blast)
    show "cb_ok cb given ?p" by (rule worker_cb [OF run i ph(4,6) _ ok]) (use early in blast)
  qed
  then show ?thesis using r1(2) t'(1) by simp
qed

section \<open>Steps of the owner\<close>

text \<open>The counters only depend on where the workers are.\<close>

definition same_points :: "EventLoopThreadPool \<Rightarrow> EventLoopThreadPool \<Rightarrow> bool" where
  "same_points p p' \<longleftrightarrow> thread_num p' = thread_num p \<and> map et_pc (threads p') = map et_pc (threads p) \<and>
     started_count p' = started_count p \<and> exited_count p' = exited_count p"

lemma same_points_count:
  assumes "map et_pc ts' = map et_pc ts"
  shows "map has_started ts' = map has_started ts" "map has_exited ts' = map has_exited ts"
    "map (last_started n) ts' = map (last_started n) ts" "map (last_exiting n) ts' = map (last_exiting n) ts"
    "length ts' = length ts"
proof -
  show len: "length ts' = length ts" using assms by (rule map_eq_imp_length_eq)
  have "et_pc (ts' ! i) = et_pc (ts ! i)" if "i < length ts" for i
    using arg_cong [OF assms, of "\<lambda>xs. xs ! i"] that len by simp
  then show "map has_started ts' = map has_started ts" "map has_exited ts' = map has_exited ts"
    "map (last_started n) ts' = map (last_started n) ts" "map (last_exiting n) ts' = map (last_exiting n) ts"
    using len by (auto intro!: nth_equalityI)
qed

lemma same_points_done:
  assumes "same_points p p'"
  shows "started_done p' = started_done p" "exited_done p' = exited_done p" "counts_ok p' = counts_ok p"
  using assms same_points_count [of "threads p'" "threads p"]
  by (auto simp: same_points_def started_done_def exited_done_def counts_ok_def)

lemma pool_invI:
  assumes "counts_ok p" "same_points p p'" "list_all worker_ok (threads p')"
    "phase we cb (thread_num p) (owner p') ks (pushed p') st given" "list_all2 known ks (threads p')" "stage_ok st p'" "cb_ok cb given p'"
  shows "pool_inv we cb p'"
  using assms same_points_done(3) [OF assms(2)] unfolding pool_inv_def same_points_def by metis

lemma Thread_Stop_ok:
  assumes "worker_ok t" "known CRunning t"
  shows "\<exists>t'. Thread_Stop t = Inr t' \<and> worker_ok t' \<and> known CHalf t' \<and> et_pc t' = et_pc t"
  using assms by (cases "et_pc t") (auto simp: Thread_Stop_def worker_ok_def)

lemma stop_loop_ok:
  assumes "worker_ok t" "known CHalf t"
  shows "worker_ok (t\<lparr>et_loop := kStopping\<rparr>) \<and> known CStopping (t\<lparr>et_loop := kStopping\<rparr>)"
  using assms by (cases "et_pc t") (auto simp: worker_ok_def)

lemma known_stopped: "worker_ok t \<Longrightarrow> known CStopped t \<Longrightarrow> known CStopping t"
  by (cases "et_pc t") (auto simp: worker_ok_def)

lemma spawn_counts:
  assumes "counts_ok p" "length (threads p) < thread_num p"
  shows "counts_ok (p\<lparr>threads := threads p @ [Thread_Start]\<rparr>)"
    "started_done (p\<lparr>threads := threads p @ [Thread_Start]\<rparr>) = started_done p"
    "exited_done (p\<lparr>threads := threads p @ [Thread_Start]\<rparr>) = exited_done p"
  using assms by (auto simp: counts_ok_def started_done_def exited_done_def Thread_Start_def)

lemma replicate_upd:
  "i < n \<Longrightarrow> (replicate i a @ replicate (n - i) b)[i := c] = replicate i a @ c # replicate (n - Suc i) b"
  "(replicate i a @ c # xs)[i := d] = replicate i a @ d # xs"
  "replicate i a @ a # xs = replicate (Suc i) a @ xs"
proof -
  show "i < n \<Longrightarrow> (replicate i a @ replicate (n - i) b)[i := c] = replicate i a @ c # replicate (n - Suc i) b"
    by (cases "n - i") (auto simp: list_update_append)
  show "(replicate i a @ c # xs)[i := d] = replicate i a @ d # xs" by (simp add: list_update_append)
  show "replicate i a @ a # xs = replicate (Suc i) a @ xs" by (simp add: replicate_app_Cons_same)
qed

lemmas owner_simps = owner_step_def Pool_Start_def spawn_thread_def Pool_Stop_def stop_thread_def

text \<open>What an invariant state provides, for a given phase.\<close>

definition in_phase :: "bool \<Rightarrow> bool \<Rightarrow> EventLoopThreadPool \<Rightarrow> knowledge list \<Rightarrow> stage \<Rightarrow> bool \<Rightarrow> bool" where
  "in_phase we cb p ks st given \<longleftrightarrow> list_all2 known ks (threads p) \<and> list_all worker_ok (threads p) \<and> counts_ok p \<and>
     stage_ok st p \<and> cb_ok cb given p"

lemma in_phaseD:
  assumes "in_phase we cb p ks st given"
  shows "list_all2 known ks (threads p)" "list_all worker_ok (threads p)" "counts_ok p" "stage_ok st p" "cb_ok cb given p"
    "length (threads p) = length ks"
  using assms by (auto simp: in_phase_def list_all2_lengthD)

text \<open>A step of the owner that leaves the workers alone.\<close>

lemma owner_only:
  assumes d: "in_phase we cb p ks st given" and step: "owner_step p = Some r"
    and ph: "phase we cb n k ks' l st' given'" and ks': "list_all2 known ks' (threads p)"
    and p': "case r of Inl e \<Rightarrow> False | Inr p' \<Rightarrow> same_points p p' \<and> threads p' = threads p \<and> thread_num p = n \<and> owner p' = k \<and>
      pushed p' = l \<and> stage_ok st' p' \<and> cb_ok cb given' p'"
  shows "\<exists>p'. r = Inr p' \<and> pool_inv we cb p'"
proof (cases r)
  case (Inr p1)
  then have "pool_inv we cb p1"
    using p' ph ks' in_phaseD(2) [OF d] by (auto intro!: pool_invI [OF in_phaseD(3) [OF d]])
  then show ?thesis using Inr by blast
qed (use p' in simp)

lemma done_update [simp]:
  "started_done (p\<lparr>owner := k\<rparr>) = started_done p" "started_done (p\<lparr>pushed := l\<rparr>) = started_done p"
  "started_done (p\<lparr>pl_status := x\<rparr>) = started_done p" "started_done (p\<lparr>stopped_cb := b\<rparr>) = started_done p"
  "started_done (p\<lparr>cb_calls := c\<rparr>) = started_done p"
  "exited_done (p\<lparr>owner := k\<rparr>) = exited_done p" "exited_done (p\<lparr>pushed := l\<rparr>) = exited_done p"
  "exited_done (p\<lparr>pl_status := x\<rparr>) = exited_done p" "exited_done (p\<lparr>stopped_cb := b\<rparr>) = exited_done p"
  "exited_done (p\<lparr>cb_calls := c\<rparr>) = exited_done p"
  by (simp_all add: started_done_def exited_done_def)

lemma done_trivial:
  "thread_num p = 0 \<Longrightarrow> threads p = [] \<Longrightarrow> exited_count p = 0 \<Longrightarrow> exited_done p"
  "thread_num p = 0 \<Longrightarrow> threads p = [] \<Longrightarrow> started_count p = 0 \<Longrightarrow> started_done p"
  "thread_num p > 0 \<Longrightarrow> started_count p = 0 \<Longrightarrow> \<not> started_done p" "thread_num p > 0 \<Longrightarrow> exited_count p = 0 \<Longrightarrow> \<not> exited_done p"
  by (simp_all add: started_done_def exited_done_def)

lemma owner_spawn:
  assumes "in_phase we cb p (replicate i CRunning) Starting False" "i < thread_num p"
    "owner p = [Spawn i True, PStop we cb, PJoin]" "pushed p = i"
  shows "\<exists>p'. owner_step p = Some (Inr p') \<and> pool_inv we cb p'"
proof -
  let ?q = "p\<lparr>threads := threads p @ [Thread_Start]\<rparr>"
  let ?p = "?q\<lparr>owner := [WaitThread i, PushBack i, Spawn (Suc i) True, PStop we cb, PJoin]\<rparr>"
  note d = in_phaseD [OF assms(1)]
  have len: "length (threads p) < thread_num p" using d(6) assms(2) by simp
  note q = spawn_counts [OF d(3) len]
  have "pool_inv we cb ?p"
  proof (rule pool_invI [OF q(1)])
    show "same_points ?q ?p" by (simp add: same_points_def)
    show "list_all worker_ok (threads ?p)" using d(2) by (simp add: Thread_Start_def worker_ok_def)
    show "phase we cb (thread_num ?q) (owner ?p) (replicate i CRunning @ [CStarting]) (pushed ?p) Starting False"
      using phase.spawned [OF assms(2)] assms(4) by simp
    show "list_all2 known (replicate i CRunning @ [CStarting]) (threads ?p)"
      using d(1,6) by (simp add: list_all2_appendI Thread_Start_def)
    have "started_done ?p = started_done p" "exited_done ?p = exited_done p"
      using q(2,3) by (simp_all add: started_done_def exited_done_def)
    then show "stage_ok Starting ?p" "cb_ok cb False ?p" using d(4,5) by (auto simp: cb_ok_def)
  qed
  then show ?thesis using assms(2,3) by (simp add: owner_simps)
qed

lemma owner_stop:
  assumes "in_phase we cb p (replicate i CStopping @ replicate (thread_num p - i) CRunning) Down True" "i < thread_num p"
    "owner p = [StopThread i we, PJoin]" "pushed p = thread_num p"
  shows "\<exists>p'. owner_step p = Some (Inr p') \<and> pool_inv we cb p'"
proof -
  let ?n = "thread_num p"
  note d = in_phaseD [OF assms(1)]
  have t: "worker_ok (threads p ! i)" "known CRunning (threads p ! i)" "i < length (threads p)"
    using d(1,2,6) assms(2) by (auto simp: list_all2_conv_all_nth list_all_length nth_append dest!: spec [of _ i])
  obtain t' where t': "Thread_Stop (threads p ! i) = Inr t'" "worker_ok t'" "known CHalf t'" "et_pc t' = et_pc (threads p ! i)"
    using Thread_Stop_ok [OF t(1,2)] by blast
  let ?p = "p\<lparr>threads := (threads p)[i := t'], owner := [StopLoop i, StopThread (Suc i) we, PJoin]\<rparr>"
  have sp: "same_points p ?p" using t'(4) t(3) by (simp add: same_points_def map_update list_update_same_conv)
  have "pool_inv we cb ?p"
  proof (rule pool_invI [OF d(3) sp])
    show "list_all worker_ok (threads ?p)" using d(2) t'(2) t(3) by (auto simp: list_all_length nth_list_update)
    show "phase we cb ?n (owner ?p) (replicate i CStopping @ CHalf # replicate (?n - Suc i) CRunning) (pushed ?p) Down True"
      using phase.stop_half [OF assms(2)] assms(4) by simp
    show "list_all2 known (replicate i CStopping @ CHalf # replicate (?n - Suc i) CRunning) (threads ?p)"
      using list_all2_update_cong [OF d(1) t'(3), of i] unfolding replicate_upd(1) [OF assms(2)] by simp
    show "stage_ok Down ?p" "cb_ok cb True ?p" using d(4,5) same_points_done [OF sp] by (auto simp: cb_ok_def)
  qed
  then show ?thesis using assms(2-4) t'(1) by (simp add: owner_simps)
qed

lemma owner_stop_half:
  assumes "in_phase we cb p (replicate i CStopping @ CHalf # replicate (thread_num p - Suc i) CRunning) Down True" "i < thread_num p"
    "owner p = [StopLoop i, StopThread (Suc i) we, PJoin]" "pushed p = thread_num p"
  shows "\<exists>p'. owner_step p = Some (Inr p') \<and> pool_inv we cb p'"
proof -
  let ?n = "thread_num p" and ?t = "(threads p ! i)\<lparr>et_loop := kStopping\<rparr>"
  note d = in_phaseD [OF assms(1)]
  have t: "worker_ok (threads p ! i)" "known CHalf (threads p ! i)" "i < length (threads p)"
    using d(1,2,6) assms(2) by (auto simp: list_all2_conv_all_nth list_all_length nth_append dest!: spec [of _ i])
  note t' = stop_loop_ok [OF t(1,2)]
  let ?p = "p\<lparr>threads := (threads p)[i := ?t], owner := [StopThread (Suc i) we, PJoin]\<rparr>"
  have sp: "same_points p ?p" using t(3) by (simp add: same_points_def map_update list_update_same_conv)
  have "pool_inv we cb ?p"
  proof (rule pool_invI [OF d(3) sp])
    show "list_all worker_ok (threads ?p)" using d(2) t' t(3) by (auto simp: list_all_length nth_list_update)
    show "phase we cb ?n (owner ?p) (replicate (Suc i) CStopping @ replicate (?n - Suc i) CRunning) (pushed ?p) Down True"
      using phase.stop [of ?n "Suc i"] assms(2,4) by simp
    show "list_all2 known (replicate (Suc i) CStopping @ replicate (?n - Suc i) CRunning) (threads ?p)"
      using list_all2_update_cong [OF d(1) conjunct2 [OF t'], of i] unfolding replicate_upd(2) replicate_upd(3) by simp
    show "stage_ok Down ?p" "cb_ok cb True ?p" using d(4,5) same_points_done [OF sp] by (auto simp: cb_ok_def)
  qed
  then show ?thesis using assms(3) t(2) by (simp add: owner_simps stop_loop_def Let_def)
qed

lemma known_weaken:
  assumes "list_all2 known ks ts" "list_all worker_ok ts" "length ks' = length ks"
    "\<And>i. i < length ks \<Longrightarrow> ks' ! i = ks ! i \<or> ks ! i = CStopped \<and> ks' ! i = CStopping \<or> known (ks' ! i) (ts ! i)"
  shows "list_all2 known ks' ts"
  using assms known_stopped unfolding list_all2_conv_all_nth list_all_length by metis

lemma known_nth:
  assumes "list_all2 known ks ts" "list_all worker_ok ts" "i < length ks"
  shows "known (ks ! i) (ts ! i)" "worker_ok (ts ! i)" "i < length ts"
  using assms by (auto simp: list_all2_conv_all_nth list_all_length)

text \<open>A polling step of the owner that succeeds learns more about one worker.\<close>

lemma known_learn:
  assumes "list_all2 known (replicate i a @ replicate (n - i) b) ts" "i < n" "known a (ts ! i)"
  shows "list_all2 known (replicate (Suc i) a @ replicate (n - Suc i) b) ts"
  using list_all2_update_cong [OF assms(1,3), of i] unfolding replicate_upd(1) [OF assms(2)] replicate_upd(3) by simp

lemma owner_starting:
  assumes ph: "phase we cb (thread_num p) (owner p) ks (pushed p) st given" and d: "in_phase we cb p ks st given"
    and step: "owner_step p = Some r" and st: "st \<in> {New, Starting, Up}"
  shows "\<exists>p'. r = Inr p' \<and> pool_inv we cb p'"
  using ph
proof cases
  case new
  show ?thesis
  proof (cases "thread_num p = 0")
    case True
    with new step in_phaseD [OF d] show ?thesis
      by (intro owner_only [OF d step phase.up])
        (auto simp: owner_simps same_points_def cb_ok_def done_trivial)
  next
    case False
    with new step in_phaseD [OF d] show ?thesis
      by (intro owner_only [OF d step phase.spawn [of _ 0]])
        (auto simp: owner_simps same_points_def cb_ok_def done_trivial)
  qed
next
  case spawn
  let ?i = "pushed p"
  show ?thesis
  proof (cases "?i < thread_num p")
    case True
    then show ?thesis using owner_spawn [of we cb p ?i] spawn d step by auto
  next
    case False
    with spawn step in_phaseD [OF d] show ?thesis
      by (intro owner_only [OF d step phase.all_started])
        (auto simp: owner_simps same_points_def cb_ok_def done_trivial)
  qed
next
  case spawned
  let ?i = "pushed p"
  have len: "length ks = Suc ?i" "ks ! ?i = CStarting" using spawned by (simp_all add: nth_append)
  note k = known_nth [OF in_phaseD(1,2) [OF d], of ?i]
  have "list_all2 known (replicate ?i CRunning @ [CRunning]) (threads p)" if "et_status (threads p ! ?i) = kRunning"
    using list_all2_update_cong [OF in_phaseD(1) [OF d], of CRunning "threads p ! ?i" ?i] that spawned
    by (simp add: list_update_append)
  moreover have "et_status (threads p ! ?i) \<in> {kStarting, kRunning}" using k(1) len by simp
  ultimately show ?thesis using spawned step in_phaseD [OF d]
    by (intro owner_only [OF d step phase.started])
      (auto simp: owner_simps same_points_def cb_ok_def done_trivial less_server_status_def split: if_splits)
next
  case started
  with step in_phaseD [OF d] show ?thesis
    by (intro owner_only [OF d step phase.spawn [of "thread_num p" "Suc (pushed p)"]])
      (auto simp: owner_simps same_points_def cb_ok_def done_trivial replicate_append_same)
next
  case all_started
  with step in_phaseD [OF d] show ?thesis
    by (intro owner_only [OF d step phase.running])
      (auto simp: owner_simps same_points_def cb_ok_def done_trivial split: if_splits)
next
  case running
  with step in_phaseD [OF d] show ?thesis
    by (intro owner_only [OF d step phase.up])
      (auto simp: owner_simps same_points_def cb_ok_def done_trivial)
next
  case up
  show ?thesis
  proof (cases "thread_num p = 0")
    case True
    with up step in_phaseD [OF d] show ?thesis
      by (intro owner_only [OF d step phase.no_threads])
        (auto simp: owner_simps same_points_def cb_ok_def done_trivial)
  next
    case False
    with up step in_phaseD [OF d] show ?thesis
      by (intro owner_only [OF d step phase.stopping])
        (auto simp: owner_simps same_points_def cb_ok_def done_trivial)
  qed
qed (use st in auto)

lemma owner_stopping:
  assumes ph: "phase we cb (thread_num p) (owner p) ks (pushed p) st given" and d: "in_phase we cb p ks st given"
    and step: "owner_step p = Some r" and st: "st = Down"
  shows "\<exists>p'. r = Inr p' \<and> pool_inv we cb p'"
  using ph
proof cases
  case stopping
  with step in_phaseD [OF d] show ?thesis
    by (intro owner_only [OF d step phase.stop [of "thread_num p" 0]])
      (auto simp: owner_simps same_points_def cb_ok_def done_trivial)
next
  case (stop i)
  show ?thesis
  proof (cases "i < thread_num p")
    case True
    then show ?thesis using owner_stop [of we cb p i] stop d step by auto
  next
    case False
    show ?thesis
    proof (cases we)
      case True
      with False stop step in_phaseD [OF d] show ?thesis
        by (intro owner_only [OF d step phase.scan [of _ "thread_num p" 0]])
          (auto simp: owner_simps same_points_def cb_ok_def done_trivial)
    next
      case we: False
      with False stop step in_phaseD [OF d] show ?thesis
        by (intro owner_only [OF d step phase.store])
          (auto simp: owner_simps same_points_def cb_ok_def done_trivial)
    qed
  qed
next
  case (stop_half i)
  then show ?thesis using owner_stop_half [of we cb p i] d step by auto
next
  case (scan i)
  show ?thesis
  proof (cases "i < thread_num p")
    case True
    then have "et_status (threads p ! i) = kStopped" using scan step by (auto simp: owner_simps split: if_splits)
    then have "list_all2 known (replicate (Suc i) CStopped @ replicate (thread_num p - Suc i) CStopping) (threads p)"
      using known_learn [of i CStopped "thread_num p" CStopping "threads p"] in_phaseD(1) [OF d] scan True by auto
    with True scan step in_phaseD [OF d] show ?thesis
      by (intro owner_only [OF d step phase.scan [of _ "thread_num p" "Suc i"]])
        (auto simp: owner_simps same_points_def cb_ok_def done_trivial split: if_splits)
  next
    case False
    with scan step in_phaseD [OF d] show ?thesis
      by (intro owner_only [OF d step phase.store])
        (auto simp: owner_simps same_points_def cb_ok_def done_trivial)
  qed
next
  case store
  with step in_phaseD [OF d] show ?thesis
    by (intro owner_only [OF d step phase.stopped])
      (auto simp: owner_simps same_points_def cb_ok_def done_trivial)
next
  case no_threads
  with step in_phaseD [OF d] show ?thesis
    by (intro owner_only [OF d step phase.no_threads_cb])
      (auto simp: owner_simps same_points_def cb_ok_def done_trivial)
qed (use st in auto)

lemma owner_ended:
  assumes ph: "phase we cb (thread_num p) (owner p) ks (pushed p) st given" and d: "in_phase we cb p ks st given"
    and step: "owner_step p = Some r" and st: "st = Ended"
  shows "\<exists>p'. r = Inr p' \<and> pool_inv we cb p'"
  using ph
proof cases
  case no_threads_cb
  with step in_phaseD [OF d] show ?thesis
    by (intro owner_only [OF d step phase.stopped])
      (auto simp: owner_simps same_points_def cb_ok_def done_trivial)
next
  case stopped
  with step in_phaseD [OF d] show ?thesis
    by (intro owner_only [OF d step phase.join [of 0]])
      (auto simp: owner_simps same_points_def cb_ok_def done_trivial)
next
  case (join i)
  show ?thesis
  proof (cases "i < thread_num p")
    case True
    then have "et_pc (threads p ! i) = WExited" "i < length ks" using join step by (auto simp: owner_simps split: if_splits)
    then have "et_status (threads p ! i) = kStopped" using stopped_exited known_nth(2) [OF in_phaseD(1,2) [OF d], of i] by blast
    then have "list_all2 known (replicate (Suc i) CStopped @ replicate (thread_num p - Suc i) (final we)) (threads p)"
      using known_learn [of i CStopped "thread_num p" "final we" "threads p"] in_phaseD(1) [OF d] join True by auto
    with True join step in_phaseD [OF d] show ?thesis
      by (intro owner_only [OF d step phase.join [of "Suc i" "thread_num p"]])
        (auto simp: owner_simps same_points_def cb_ok_def done_trivial split: if_splits)
  next
    case False
    with join step in_phaseD [OF d] show ?thesis
      by (intro owner_only [OF d step phase.clear])
        (auto simp: owner_simps same_points_def cb_ok_def done_trivial)
  qed
next
  case clear
  with step in_phaseD [OF d] show ?thesis
    by (intro owner_only [OF d step phase.finished])
      (auto simp: owner_simps same_points_def cb_ok_def done_trivial)
next
  case finished
  then show ?thesis using step by (simp add: owner_step_def)
qed (use st in auto)

lemma owner_step_inv:
  assumes "pool_inv we cb p" "owner_step p = Some r"
  shows "\<exists>p'. r = Inr p' \<and> pool_inv we cb p'"
proof -
  obtain ks st given where ph: "phase we cb (thread_num p) (owner p) ks (pushed p) st given" "in_phase we cb p ks st given"
    using assms(1) by (auto simp: pool_inv_def in_phase_def)
  show ?thesis
    using owner_starting [OF ph assms(2)] owner_stopping [OF ph assms(2)] owner_ended [OF ph assms(2)] by (cases st) auto
qed

lemma pool_step_inv:
  assumes "pool_step p p'" "pool_inv we cb p"
  shows "pool_inv we cb p'"
  using assms(1)
proof cases
  case by_owner
  then show ?thesis using owner_step_inv [OF assms(2)] by fastforce
next
  case (by_worker i)
  then show ?thesis using worker_step_inv [OF assms(2)] by fastforce
qed

section \<open>Termination\<close>

fun pc_work :: "worker_pc \<Rightarrow> nat" where
  "pc_work WRun = 9"
| "pc_work WFn = 8"
| "pc_work WPre = 7"
| "pc_work (WStarted c) = 6"
| "pc_work WLoop = 5"
| "pc_work WPost = 4"
| "pc_work (WExiting c) = 3"
| "pc_work WCallback = 2"
| "pc_work WLast = 1"
| "pc_work WExited = 0"

fun owner_work :: "nat \<Rightarrow> pool_pc \<Rightarrow> nat" where
  "owner_work n (PStart wait) = 12 * n + 4"
| "owner_work n (Spawn i wait) = 12 * (n - i) + 3"
| "owner_work n (PStop wait cb) = 3 * n + 5"
| "owner_work n (StopThread i wait) = 2 * (n - i) + n + 3"
| "owner_work n (ScanStopped i) = n - i + 1"
| "owner_work n PJoin = n + 3"
| "owner_work n (JoinThread i) = n - i + 2"
| "owner_work n _ = 1"

definition pool_work :: "EventLoopThreadPool \<Rightarrow> nat" where
  "pool_work p = sum_list (map (\<lambda>t. pc_work (et_pc t)) (threads p)) + sum_list (map (owner_work (thread_num p)) (owner p))"

lemma phase_pushed: "phase we cb n k ks l st given \<Longrightarrow> l \<le> n \<and> l \<le> length ks"
  by (erule phase.cases) auto

lemma sum_list_map_upd:
  fixes f :: "'b \<Rightarrow> nat"
  assumes "i < length xs"
  shows "sum_list (map f (xs[i := x])) + f (xs ! i) = sum_list (map f xs) + f x"
  using assms by (induction xs arbitrary: i) (auto split: nat.splits)

lemma owner_exec_work:
  assumes "owner_exec fr p = Some (Inr (new, p1))" "pushed p \<le> thread_num p" "pushed p \<le> length (threads p)"
    "\<And>i wait. fr = StopThread i wait \<Longrightarrow> i < pushed p \<Longrightarrow> i < length (threads p)" "\<And>i. fr = StopLoop i \<Longrightarrow> i < length (threads p)"
  shows "thread_num p1 = thread_num p \<and>
    sum_list (map (\<lambda>t. pc_work (et_pc t)) (threads p1)) + sum_list (map (owner_work (thread_num p)) new) <
    sum_list (map (\<lambda>t. pc_work (et_pc t)) (threads p)) + owner_work (thread_num p) fr"
proof (cases fr)
  case (StopThread i wait)
  then show ?thesis
    using assms sum_list_map_upd [of i "threads p" "\<lambda>t. pc_work (et_pc t)" "(threads p ! i)\<lparr>et_status := kStopping\<rparr>"]
    by (auto simp: stop_thread_def Thread_Stop_def ebind_Inr_iff split: if_splits)
next
  case (StopLoop i)
  then show ?thesis
    using assms sum_list_map_upd [of i "threads p" "\<lambda>t. pc_work (et_pc t)" "(threads p ! i)\<lparr>et_loop := kStopping\<rparr>"]
    by (auto simp: stop_loop_def Let_def)
qed (use assms in \<open>auto simp: Pool_Start_def spawn_thread_def Pool_Stop_def Thread_Start_def split: if_splits\<close>)

lemma pool_work_step:
  assumes "pool_step p p'" "pool_inv we cb p"
  shows "pool_work p' < pool_work p"
proof -
  obtain ks st given where ph: "phase we cb (thread_num p) (owner p) ks (pushed p) st given" "in_phase we cb p ks st given"
    using assms(2) by (auto simp: pool_inv_def in_phase_def)
  have l: "pushed p \<le> thread_num p" "pushed p \<le> length (threads p)" using phase_pushed [OF ph(1)] in_phaseD(6) [OF ph(2)] by simp_all
  have lp: "i < length (threads p)" if "StopLoop i \<in> set (owner p)" for i
    using ph(1) that in_phaseD(6) [OF ph(2)] by (auto elim!: phase.cases)
  from assms(1) show ?thesis
  proof cases
    case by_owner
    then obtain fr k new p1 where st: "owner p = fr # k" "owner_exec fr p = Some (Inr (new, p1))" "p' = p1\<lparr>owner := new @ k\<rparr>"
      by (auto simp: owner_step_def ebind_Inr_iff split: list.splits)
    have "thread_num p1 = thread_num p \<and>
      sum_list (map (\<lambda>t. pc_work (et_pc t)) (threads p1)) + sum_list (map (owner_work (thread_num p)) new) <
      sum_list (map (\<lambda>t. pc_work (et_pc t)) (threads p)) + owner_work (thread_num p) fr"
      by (rule owner_exec_work [OF st(2) l]) (use l(2) lp st(1) in auto)
    then show ?thesis using st(1,3) by (simp add: pool_work_def)
  next
    case (by_worker i)
    then obtain t' p1 where st: "Thread_Run (threads p ! i) p = Some (Inr (t', p1))" "p' = p1\<lparr>threads := (threads p)[i := t']\<rparr>"
      by (auto simp: worker_step_def ebind_Inr_iff)
    have "pc_work (et_pc t') < pc_work (et_pc (threads p ! i))"
      using st(1) by (cases rule: Thread_RunE) (auto simp: OnThreadExited_def split: if_splits)
    then show ?thesis
      using sum_list_map_upd [OF by_worker(1), of "\<lambda>t. pc_work (et_pc t)" t'] Thread_Run_frame [OF st(1)] st(2)
      by (simp add: pool_work_def)
  qed
qed

interpretation pool: measured_system pool_step "pool_inv we cb" pool_work
  for we cb
  by unfold_locales (auto intro: pool_step_inv pool_work_step)

section \<open>Progress\<close>

lemma worker_moves:
  assumes "i < length (threads p)" "Thread_Run (threads p ! i) p \<noteq> None" "pool_inv we cb p"
  shows "\<exists>p'. pool_step p p'"
proof -
  obtain r where "worker_step i p = Some r" using assms(2) by (auto simp: worker_step_def)
  then show ?thesis using worker_step_inv [OF assms(3,1)] pool_step.by_worker [OF assms(1)] by blast
qed

lemma worker_waits:
  assumes "\<not> (\<exists>p'. pool_step p p')" "pool_inv we cb p" "t \<in> set (threads p)"
  shows "et_status t = kStopped \<or> et_pc t = WLoop \<and> et_loop t = kRunning \<and> et_status t \<in> {kRunning, kStopping}"
proof -
  obtain i where i: "i < length (threads p)" "t = threads p ! i" using assms(3) by (auto simp: in_set_conv_nth)
  have "worker_ok t" using assms(2,3) by (auto simp: pool_inv_def list_all_iff)
  then show ?thesis using Thread_Run_blocked worker_moves [OF i(1) _ assms(2)] assms(1) i(2) by blast
qed

lemma stuck_finished:
  assumes stuck: "\<not> (\<exists>p'. pool_step p p')" and inv: "pool_inv we cb p"
  shows "owner p = []"
proof -
  obtain ks st given where ph: "phase we cb (thread_num p) (owner p) ks (pushed p) st given" "in_phase we cb p ks st given"
    using inv by (auto simp: pool_inv_def in_phase_def)
  note d = in_phaseD [OF ph(2)]
  note w = worker_waits [OF stuck inv]
  have none: "owner_step p = None"
    using owner_step_inv [OF inv] pool_step.by_owner stuck by (cases "owner_step p") blast+
  have kn: "known (ks ! i) (threads p ! i)" "threads p ! i \<in> set (threads p)" if "i < length ks" for i
    using known_nth [OF d(1,2) that] by simp_all
  show ?thesis
    using ph(1)
  proof cases
    case spawned
    then show ?thesis using none kn [of "pushed p"] w
      by (force simp: owner_simps nth_append less_server_status_def split: if_splits)
  next
    case all_started
    then have "pl_status p = kStarting" "\<not> started_done p" using none d(4) by (auto simp: owner_simps split: if_splits)
    moreover have "\<forall>t \<in> set (threads p). et_pc t = WLoop"
      using w d(1) all_started by (fastforce simp: list_all2_conv_all_nth in_set_conv_nth)
    then have "count has_started p = 1 * int (length (threads p))" "count (last_started (thread_num p)) p = 0 * int (length (threads p))"
      by (intro count_const; simp)+
    ultimately show ?thesis using d(3,6) all_started by (simp add: started_done_def counts_ok_def)
  next
    case (scan i)
    then show ?thesis using none kn [of i] w by (force simp: owner_simps nth_append split: if_splits)
  next
    case (join i)
    then show ?thesis using none kn [of i] w stopped_exited known_nth(2) [OF d(1,2), of i]
      by (force simp: owner_simps nth_append split: if_splits)
  qed (use none in \<open>auto simp: owner_simps\<close>)
qed

section \<open>Choosing a loop\<close>

primrec next_loops :: "nat \<Rightarrow> EventLoopThreadPool \<Rightarrow> nat option list" where
  "next_loops 0 p = []"
| "next_loops (Suc k) p = fst (Pool_GetNextLoop p) # next_loops k (snd (Pool_GetNextLoop p))"

lemma next_loops_map:
  assumes "pl_status p = kRunning" "0 < pushed p"
  shows "next_loops k p = map (\<lambda>j. Some (unat ((next_loop p + of_nat j) mod of_nat (pushed p)))) [0..<k]"
  using assms
proof (induction k arbitrary: p)
  case (Suc k)
  have "map f [0..<Suc k] = f 0 # map (\<lambda>j. f (Suc j)) [0..<k]" for f :: "nat \<Rightarrow> nat option"
    by (simp only: upt_conv_Cons map_Suc_upt [symmetric] list.map comp_def map_map zero_less_Suc)
  then show ?case using Suc.prems Suc.IH [of "snd (Pool_GetNextLoop p)"] by (simp add: Pool_GetNextLoop_def add.assoc del: upt_Suc)
qed simp

lemma mset_shifted:
  assumes "0 < m"
  shows "mset (map (\<lambda>j. (n + j) mod m) [0..<m]) = mset [0..<m]"
proof -
  have inj: "inj_on (\<lambda>j. (n + j) mod m) {0..<m}"
  proof (rule linorder_inj_onI)
    fix a b assume "a < b" "a \<in> {0..<m}" "b \<in> {0..<m}"
    then have "\<not> m dvd (n + b) - (n + a)" by (auto dest: dvd_imp_le)
    then show "(n + a) mod m \<noteq> (n + b) mod m" using \<open>a < b\<close> by (metis mod_eq_dvd_iff_nat add_left_mono less_imp_le)
  qed auto
  have "(\<lambda>j. (n + j) mod m) ` {0..<m} \<subseteq> {0..<m}" using assms by auto
  then have "(\<lambda>j. (n + j) mod m) ` {0..<m} = {0..<m}" using inj by (simp add: card_image card_subset_eq)
  then show ?thesis
    using inj by (subst set_eq_iff_mset_eq_distinct [symmetric]) (auto simp: distinct_map)
qed

section \<open>Properties\<close>

abbreviation pool_life :: "bool \<Rightarrow> bool \<Rightarrow> pool_pc list" where
  "pool_life we cb \<equiv> [PStart True, PStop we cb, PJoin]"

lemma Pool_new_inv: "pool_inv we cb (Pool_new n (pool_life we cb))"
  unfolding pool_inv_def
  by (rule exI [of _ "[]"], rule exI [of _ New], rule exI [of _ False])
    (auto simp: Pool_new_def counts_ok_def cb_ok_def intro: phase.new)

lemma stopped_threads:
  assumes "in_phase we cb p (replicate (thread_num p) CStopped) st True"
  shows "\<forall>t \<in> set (threads p). et_pc t = WExited" "length (threads p) = thread_num p" "cb_calls p = of_bool cb"
proof -
  note d = in_phaseD [OF assms]
  show e: "\<forall>t \<in> set (threads p). et_pc t = WExited"
    using d(1,2) stopped_exited by (fastforce simp: list_all2_conv_all_nth in_set_conv_nth list_all_length)
  show len: "length (threads p) = thread_num p" using d(6) by simp
  have "count has_exited p = 1 * int (length (threads p))" "count (last_exiting (thread_num p)) p = 0 * int (length (threads p))"
    using e by (intro count_const; simp)+
  then have "exited_done p" using d(3) len by (simp add: exited_done_def counts_ok_def)
  then show "cb_calls p = of_bool cb" using d(5) by (simp add: cb_ok_def)
qed

text \<open>What a caller of \<^verbatim>\<open>Start(true)\<close> finds when it returns.\<close>

lemma Start_returns:
  assumes "pool_step\<^sup>*\<^sup>* (Pool_new n (pool_life we cb)) p" "owner p = [PStop we cb, PJoin]"
  shows "pl_status p = kRunning \<and> pushed p = thread_num p"
proof -
  have inv: "pool_inv we cb p" by (rule pool.reach_inv [OF assms(1) Pool_new_inv])
  obtain ks st given where ph: "phase we cb (thread_num p) (owner p) ks (pushed p) st given" "in_phase we cb p ks st given"
    using inv by (auto simp: pool_inv_def in_phase_def)
  from ph(1) assms(2) have "pushed p = thread_num p" "st = Up" by (auto elim: phase.cases)
  then show ?thesis using in_phaseD(4) [OF ph(2)] by simp
qed

text \<open>Runs of a given schedule: 0 is the owner, \<open>Suc i\<close> the worker \<open>i\<close>.\<close>

definition sched_step :: "nat \<Rightarrow> EventLoopThreadPool \<Rightarrow> EventLoopThreadPool result option" where
  "sched_step i p = (case i of 0 \<Rightarrow> owner_step p | Suc j \<Rightarrow> if j < length (threads p) then worker_step j p else None)"

fun run_pool :: "nat list \<Rightarrow> EventLoopThreadPool \<Rightarrow> EventLoopThreadPool option" where
  "run_pool [] p = Some p"
| "run_pool (i # is) p = (case sched_step i p of Some (Inr p') \<Rightarrow> run_pool is p' | _ \<Rightarrow> None)"

lemma sched_step_pool: "sched_step i p = Some (Inr p') \<Longrightarrow> pool_step p p'"
  by (auto simp: sched_step_def split: nat.splits if_splits intro: pool_step.intros)

lemma run_pool_steps: "run_pool is p = Some p' \<Longrightarrow> pool_step\<^sup>*\<^sup>* p p'"
proof (induction "is" arbitrary: p)
  case (Cons i "is")
  then obtain q where "pool_step p q" "run_pool is q = Some p'"
    by (auto split: option.splits sum.splits dest: sched_step_pool)
  then show ?case using Cons.IH by (meson converse_rtranclp_into_rtranclp)
qed simp

lemmas pool_run_simps = sched_step_def worker_step_def Thread_Run_def OnThreadStarted_def OnThreadExited_def
  call_stopped_cb_def Thread_Start_def Thread_Stop_def stop_loop_def Pool_new_def owner_simps less_server_status_def

text \<open>One worker, up to the end of \<^verbatim>\<open>Stop(true)\<close>.\<close>

definition sample_schedule :: "nat list" where
  "sample_schedule = [0, 0, 1, 1, 0, 0, 0, 1, 1, 0, 0, 0, 0, 0, 0, 0, 1, 1, 1, 1, 1, 0, 0, 0]"

lemma sample_run:
  "\<exists>p. run_pool sample_schedule (Pool_new 1 (pool_life True True)) = Some p \<and> owner p = [PJoin] \<and> length (threads p) = 1"
  by (simp add: sample_schedule_def pool_run_simps)



text \<open>\<^verbatim>\<open>Stop(true)\<close> returns only after every worker thread has left its loop and the callback has run.\<close>

theorem Stop_waits:
  assumes "pool_step\<^sup>*\<^sup>* (Pool_new n (pool_life True cb)) p" "owner p = [PJoin]"
  shows "(\<forall>t \<in> set (threads p). et_pc t = WExited) \<and> pl_status p = kStopped \<and> cb_calls p = of_bool cb"
proof -
  have inv: "pool_inv True cb p" by (rule pool.reach_inv [OF assms(1) Pool_new_inv])
  obtain ks st given where ph: "phase True cb (thread_num p) (owner p) ks (pushed p) st given" "in_phase True cb p ks st given"
    using inv by (auto simp: pool_inv_def in_phase_def)
  from ph(1) assms(2) have "ks = replicate (thread_num p) CStopped" "st = Ended" "given" by (auto elim: phase.cases)
  then show ?thesis using stopped_threads [of True cb p st] in_phaseD(4) [OF ph(2)] ph(2) by simp
qed

theorem Stop_waits_witness:
  "\<exists>p. pool_step\<^sup>*\<^sup>* (Pool_new 1 (pool_life True True)) p \<and> owner p = [PJoin] \<and> length (threads p) = 1 \<and>
    (\<forall>t \<in> set (threads p). et_pc t = WExited) \<and> pl_status p = kStopped \<and> cb_calls p = 1"
proof -
  obtain p where p: "run_pool sample_schedule (Pool_new 1 (pool_life True True)) = Some p" "owner p = [PJoin]" "length (threads p) = 1"
    using sample_run by blast
  show ?thesis using Stop_waits [OF run_pool_steps [OF p(1)] p(2)] run_pool_steps [OF p(1)] p(2,3) by auto
qed

text \<open>Starting, stopping and joining a pool of \<open>n\<close> threads takes at most \<open>16 n + 12\<close> steps of all threads together,
  not counting the polls of a status that has not changed: none of the three calls waits forever.\<close>

theorem pool_runs_end:
  assumes "f 0 = Pool_new n (pool_life we cb)" "\<forall>i < k. pool_step (f i) (f (Suc i))"
  shows "k \<le> 16 * n + 12"
  using pool.bounded_runs [of we cb f k] assms Pool_new_inv [of we cb n] by (simp add: pool_work_def Pool_new_def)


theorem pool_runs_end_witness: "\<exists>q. pool_step (Pool_new 3 (pool_life True True)) q \<and> (1 :: nat) \<le> 16 * 3 + 12"
proof -
  let ?p = "Pool_new 3 (pool_life True True)"
  obtain q where q: "sched_step 0 ?p = Some (Inr q)" by (simp add: pool_run_simps)
  show ?thesis
    using pool_runs_end [of "\<lambda>i. if i = 0 then ?p else q" 3 True True 1] sched_step_pool [OF q] by auto
qed

text \<open>In a pool whose workers run, the loop that \<^verbatim>\<open>GetNextLoop\<close> returns is always one of theirs, whatever the value of
  the counter, and as long as the counter does not wrap around, as many consecutive calls as there
  are workers return every worker's loop once.\<close>

theorem GetNextLoop_round_robin:
  assumes "pl_status p = kRunning" "0 < pushed p" "pushed p < 2 ^ 64"
  shows "(\<exists>i. fst (Pool_GetNextLoop p) = Some i \<and> i < pushed p) \<and>
    (unat (next_loop p) + pushed p \<le> 2 ^ 64 \<longrightarrow> mset (next_loops (pushed p) p) = mset (map Some [0..<pushed p]))"
proof
  have u: "unat (of_nat (pushed p) :: 64 word) = pushed p" using assms(3) by (simp add: size_simps)
  show "\<exists>i. fst (Pool_GetNextLoop p) = Some i \<and> i < pushed p"
    using assms(1,2) u by (auto simp: Pool_GetNextLoop_def unat_mod)
  show "unat (next_loop p) + pushed p \<le> 2 ^ 64 \<longrightarrow> mset (next_loops (pushed p) p) = mset (map Some [0..<pushed p])"
  proof
    assume w: "unat (next_loop p) + pushed p \<le> 2 ^ 64"
    have "unat ((next_loop p + of_nat j) mod of_nat (pushed p)) = (unat (next_loop p) + j) mod pushed p" if "j < pushed p" for j
      using that w assms(3) by (simp add: unat_mod u size_simps)
    then have "next_loops (pushed p) p = map (\<lambda>j. Some ((unat (next_loop p) + j) mod pushed p)) [0..<pushed p]"
      using next_loops_map [OF assms(1,2)] by simp
    then show "mset (next_loops (pushed p) p) = mset (map Some [0..<pushed p])"
      using arg_cong [OF mset_shifted [OF assms(2), of "unat (next_loop p)"], of "image_mset Some"]
      by (simp add: multiset.map_comp comp_def)
  qed
qed

theorem GetNextLoop_round_robin_witness:
  "mset (next_loops 3 ((Pool_new 3 [])\<lparr>pl_status := kRunning, pushed := 3, next_loop := 7\<rparr>)) = mset [Some 0, Some 1, Some 2]"
  using GetNextLoop_round_robin [of "(Pool_new 3 [])\<lparr>pl_status := kRunning, pushed := 3, next_loop := 7\<rparr>"]
  by (simp add: Pool_new_def upt_rec)

text \<open>A pool that was started with \<^verbatim>\<open>Start(false)\<close> cannot be stopped right away: \<^verbatim>\<open>Stop\<close> asserts that the first worker
  runs, while it may not even have started.\<close>

theorem Stop_before_running:
  "\<exists>p. pool_step\<^sup>*\<^sup>* (Pool_new 1 [PStart False, PStop True cb]) p \<and> owner_step p = Some (Inl AssertFail)"
proof -
  obtain p where p: "run_pool (replicate 6 0) (Pool_new 1 [PStart False, PStop True cb]) = Some p" "owner_step p = Some (Inl AssertFail)"
    by (simp add: pool_run_simps numeral_eq_Suc)
  then show ?thesis using run_pool_steps by blast
qed

text \<open>\<^verbatim>\<open>Stop(false)\<close> makes the pool report that it is stopped while its workers still run.\<close>

theorem Stop_reports_early:
  "\<exists>p. pool_step\<^sup>*\<^sup>* (Pool_new 1 (pool_life False False)) p \<and> owner p = [PJoin] \<and> pl_status p = kStopped \<and>
    map et_pc (threads p) = [WLoop]"
proof -
  have "\<exists>p. run_pool (take 16 sample_schedule @ [0]) (Pool_new 1 (pool_life False False)) = Some p \<and> owner p = [PJoin] \<and>
      pl_status p = kStopped \<and> map et_pc (threads p) = [WLoop]"
    by (simp add: sample_schedule_def pool_run_simps)
  then obtain p where p: "run_pool (take 16 sample_schedule @ [0]) (Pool_new 1 (pool_life False False)) = Some p"
    "owner p = [PJoin]" "pl_status p = kStopped" "map et_pc (threads p) = [WLoop]" by metis
  show ?thesis using run_pool_steps [OF p(1)] p(2-4) by metis
qed

end
