(* ===== verification/Tcp_Server.thy ===== *)
theory Tcp_Server
  imports Fd_Channel Loop_Pool Sockets
begin

text \<open>
  \<^verbatim>\<open>eventpp::Listener\<close> (src/listener.cpp) and \<^verbatim>\<open>eventpp::TCPServer\<close> (src/tcp/tcp_server.cpp): accepting
  connections, the map of connections, and stopping. The server uses a connection only through the operations of
  \<open>conn_api\<close>; \<open>Tcp_Server_Props\<close> plugs in those of \<^verbatim>\<open>TCPConn\<close>. Functors and handlers of the listening loop
  and of the worker loops run one at a time, in any order the loops' queues allow.
\<close>

section \<open>Listening\<close>

record Listener =
  ls_fd :: int
  ls_addr :: string
  ls_chan :: "FdChannel option"
  new_conn_fn :: bool

definition Listener_new :: "string \<Rightarrow> Listener" where
  "Listener_new addr = \<lparr>ls_fd = -1, ls_addr = addr, ls_chan = None, new_conn_fn = False\<rparr>"

text \<open>\<open>fds\<close> are the open descriptors; \<open>sys_listen\<close> is the result of \<^verbatim>\<open>listen\<close>.\<close>

definition Listener_Listen ::
  "(16 word \<Rightarrow> string \<Rightarrow> int \<times> byte list) \<Rightarrow> sock_env \<Rightarrow> int \<Rightarrow> Listener \<Rightarrow> int list \<Rightarrow> (bool \<times> Listener \<times> int list) result" where
  "Listener_Listen pton env sys_listen l fds =
     (case CreateNonblockingSocket env fds of
        (fd, fds1) \<Rightarrow>
          let l1 = l\<lparr>ls_fd := fd\<rparr> in
          if fd < 0 then Inr (False, l1, fds1)
          else
            ebind (ParseFromIPPort_value pton (ls_addr l1)) (\<lambda>addr.
            if sys_bind env addr < 0 then Inr (False, l1, fds1) else Inr (sys_listen = 0, l1, fds1)))"

text \<open>\<^verbatim>\<open>Accept\<close> makes the channel; attaching it to the loop is a functor.\<close>

definition Listener_Accept :: "Listener \<Rightarrow> Listener result" where
  "Listener_Accept l = ebind (FdChannel_new (ls_fd l) True False) (\<lambda>ch. Inr (l\<lparr>ls_chan := Some (SetReadCallback ch)\<rparr>))"

definition listener_attach :: "loop_env \<Rightarrow> Listener \<Rightarrow> Listener result" where
  "listener_attach env l =
     (case ls_chan l of
        None \<Rightarrow> Inl NullPointer
      | Some ch \<Rightarrow> ebind (AttachToLoop env ch) (\<lambda>ch1. Inr (l\<lparr>ls_chan := Some ch1\<rparr>)))"

definition Listener_Stop :: "loop_env \<Rightarrow> Listener \<Rightarrow> Listener result" where
  "Listener_Stop env l =
     asserting (in_loop_thread env)
       (case ls_chan l of
          None \<Rightarrow> Inl NullPointer
        | Some ch \<Rightarrow>
            ebind (DisableAllEvent env ch) (\<lambda>ch1. ebind (FdChannel_Close ch1) (\<lambda>ch2. Inr (l\<lparr>ls_chan := Some ch2\<rparr>))))"

definition Listener_delete :: "Listener \<Rightarrow> int list \<Rightarrow> int list result" where
  "Listener_delete l fds =
     ebind (case ls_chan l of None \<Rightarrow> Inr () | Some ch \<Rightarrow> FdChannel_delete ch) (\<lambda>_. Inr (remove1 (ls_fd l) fds))"

section \<open>The server\<close>

text \<open>What the server does with a connection \<open>'c\<close>: it makes it, attaches it in the loop of a worker, asks
  whether it is connected, and closes it. \<open>c_event\<close> is anything else that happens to the connection
  in its loop; \<open>c_closed\<close> tells whether it has called its close callback.\<close>

record ('c, 'e) conn_api =
  c_new :: "string \<Rightarrow> int \<Rightarrow> string \<Rightarrow> string \<Rightarrow> 64 word \<Rightarrow> 'c result"
  c_attach :: "'c \<Rightarrow> 'c result"
  c_event :: "'e \<Rightarrow> 'c \<Rightarrow> 'c result"
  c_close :: "'c \<Rightarrow> 'c"
  c_connected :: "'c \<Rightarrow> bool"
  c_closed :: "'c \<Rightarrow> bool"

datatype server_task = AttachListener | StopInLoop bool | RemoveConn "64 word"

text \<open>\<open>connections\<close> are the keys of \<^verbatim>\<open>connections_\<close>; \<open>conns\<close> holds every connection ever made and \<open>conn_loop\<close>
  its loop, \<open>None\<close> for the listening loop. \<open>unattached\<close> are the connections whose \<^verbatim>\<open>OnAttachedToLoop\<close> waits in a
  worker's queue, \<open>sv_tasks\<close> the functors in the queue of the listening loop, \<open>done_calls\<close> counts the calls of the callback
  given to \<^verbatim>\<open>Stop\<close>, and \<open>sv_fds\<close> are the descriptors that are open and not owned by a connection.\<close>

record 'c TCPServer =
  sv_status :: server_status
  sv_substatus :: sub_status
  sv_policy :: Policy
  listen_addr :: string
  sv_listener :: "Listener option"
  tpool :: "EventLoopThreadPool option"
  sv_stopped_cb :: bool
  next_conn_id :: "64 word"
  connections :: "64 word list"
  conns :: "64 word \<Rightarrow> 'c option"
  conn_loop :: "64 word \<Rightarrow> nat option"
  unattached :: "64 word list"
  sv_tasks :: "server_task list"
  done_calls :: nat
  sv_fds :: "int list"

definition TCPServer_new :: "string \<Rightarrow> nat \<Rightarrow> Policy \<Rightarrow> 'c TCPServer" where
  "TCPServer_new laddr n policy =
     \<lparr>sv_status = kNull, sv_substatus = kSubStatusNull, sv_policy = policy, listen_addr = laddr, sv_listener = None,
      tpool = Some (Pool_new n []), sv_stopped_cb = False, next_conn_id = 0, connections = [],
      conns = (\<lambda>_. None), conn_loop = (\<lambda>_. None), unattached = [], sv_tasks = [], done_calls = 0, sv_fds = []\<rparr>"

definition TCPServer_Init ::
  "(16 word \<Rightarrow> string \<Rightarrow> int \<times> byte list) \<Rightarrow> sock_env \<Rightarrow> int \<Rightarrow> 'c TCPServer \<Rightarrow> (bool \<times> 'c TCPServer) result" where
  "TCPServer_Init pton env sys_listen s =
     asserting (sv_status s = kNull) (
     ebind (Listener_Listen pton env sys_listen (Listener_new (listen_addr s)) (sv_fds s)) (\<lambda>(_, l, fds).
       Inr (True, s\<lparr>sv_listener := Some l, sv_status := kInitialized, sv_fds := fds\<rparr>)))"

text \<open>The pool after \<^verbatim>\<open>Start(true)\<close> and after \<^verbatim>\<open>Stop(true)\<close> have returned.\<close>

definition started_pool :: "EventLoopThreadPool \<Rightarrow> EventLoopThreadPool" where
  "started_pool p = p\<lparr>pl_status := kRunning, pushed := thread_num p\<rparr>"

definition stopped_pool :: "EventLoopThreadPool \<Rightarrow> EventLoopThreadPool" where
  "stopped_pool p = p\<lparr>pl_status := kStopped\<rparr>"

definition TCPServer_Start :: "'c TCPServer \<Rightarrow> (bool \<times> 'c TCPServer) result" where
  "TCPServer_Start s =
     asserting (sv_status s = kInitialized) (
     case (sv_listener s, tpool s) of
       (Some l, Some p) \<Rightarrow>
         let p1 = started_pool p in
         asserting (pl_status p1 = kRunning) (
         ebind (Listener_Accept (l\<lparr>new_conn_fn := True\<rparr>)) (\<lambda>l1.
           Inr (True, s\<lparr>sv_status := kRunning, tpool := Some p1, sv_listener := Some l1, sv_tasks := sv_tasks s @ [AttachListener]\<rparr>)))
     | (None, _) \<Rightarrow> Inl AssertFail
     | (_, None) \<Rightarrow> Inl NullPointer)"

section \<open>Stopping\<close>

definition StopThreadPool :: "'c TCPServer \<Rightarrow> 'c TCPServer result" where
  "StopThreadPool s =
     asserting (sv_status s = kStopping)
       (case tpool s of
          None \<Rightarrow> Inl NullPointer
        | Some p \<Rightarrow>
            asserting (pl_status (stopped_pool p) = kStopped)
              (Inr (s\<lparr>sv_substatus := kSubStatusNull, tpool := None\<rparr>)))"

definition close_connected :: "('c, 'e) conn_api \<Rightarrow> 'c TCPServer \<Rightarrow> 'c TCPServer" where
  "close_connected api s =
     s\<lparr>conns := (\<lambda>i. if i \<in> set (connections s)
        then map_option (\<lambda>c. if c_connected api c then c_close api c else c) (conns s i) else conns s i)\<rparr>"

definition TCPServer_StopInLoop :: "('c, 'e) conn_api \<Rightarrow> loop_env \<Rightarrow> bool \<Rightarrow> 'c TCPServer \<Rightarrow> 'c TCPServer result" where
  "TCPServer_StopInLoop api env cb s =
     asserting (in_loop_thread env)
       (case sv_listener s of
          None \<Rightarrow> Inl NullPointer
        | Some l \<Rightarrow>
            ebind (Listener_Stop env l) (\<lambda>l1.
            ebind (Listener_delete l1 (sv_fds s)) (\<lambda>fds.
            let s1 = s\<lparr>sv_listener := None, sv_fds := fds\<rparr> in
            if connections s1 = []
            then ebind (StopThreadPool s1) (\<lambda>s2.
              Inr (s2\<lparr>done_calls := done_calls s2 + of_bool cb, sv_status := kStopped\<rparr>))
            else Inr ((close_connected api s1)\<lparr>sv_stopped_cb := cb\<rparr>))))"

text \<open>\<open>now\<close> tells whether \<^verbatim>\<open>Stop\<close> is called in the listening loop's thread.\<close>

definition TCPServer_Stop :: "('c, 'e) conn_api \<Rightarrow> loop_env \<Rightarrow> bool \<Rightarrow> bool \<Rightarrow> 'c TCPServer \<Rightarrow> 'c TCPServer result" where
  "TCPServer_Stop api env cb now s =
     asserting (sv_status s = kRunning)
       (let s1 = s\<lparr>sv_status := kStopping, sv_substatus := kStoppingListener\<rparr> in
        if now then TCPServer_StopInLoop api env cb s1 else Inr (s1\<lparr>sv_tasks := sv_tasks s1 @ [StopInLoop cb]\<rparr>))"

section \<open>Connections\<close>

text \<open>The functor of \<^verbatim>\<open>RemoveConnection\<close>.\<close>

definition remove_in_loop :: "64 word \<Rightarrow> 'c TCPServer \<Rightarrow> 'c TCPServer result" where
  "remove_in_loop i s =
     (let s1 = s\<lparr>connections := filter (\<lambda>j. j \<noteq> i) (connections s)\<rparr> in
      if sv_status s1 = kStopping \<and> connections s1 = []
      then
        asserting (sv_substatus s1 = kStoppingListener) (
        ebind (StopThreadPool s1) (\<lambda>s2.
          Inr (s2\<lparr>done_calls := done_calls s2 + of_bool (sv_stopped_cb s2), sv_stopped_cb := False, sv_status := kStopped\<rparr>)))
      else Inr s1)"

definition RemoveConnection :: "64 word \<Rightarrow> 'c TCPServer \<Rightarrow> 'c TCPServer result" where
  "RemoveConnection i s =
     (if conn_loop s i = None then remove_in_loop i s else Inr (s\<lparr>sv_tasks := sv_tasks s @ [RemoveConn i]\<rparr>))"

text \<open>A step of a connection in its loop; its close callback is \<^verbatim>\<open>RemoveConnection\<close>.\<close>

definition conn_does :: "('c, 'e) conn_api \<Rightarrow> ('c \<Rightarrow> 'c result) \<Rightarrow> 64 word \<Rightarrow> 'c TCPServer \<Rightarrow> 'c TCPServer result" where
  "conn_does api f i s =
     (case conns s i of
        None \<Rightarrow> Inr s
      | Some c \<Rightarrow>
          ebind (f c) (\<lambda>c1.
          let s1 = s\<lparr>conns := (conns s)(i \<mapsto> c1)\<rparr> in
          if c_closed api c1 \<and> \<not> c_closed api c then RemoveConnection i s1 else Inr s1))"

definition TCPServer_GetNextLoop :: "64 word \<Rightarrow> 'c TCPServer \<Rightarrow> (nat option \<times> 'c TCPServer) result" where
  "TCPServer_GetNextLoop raddr s =
     (case tpool s of
        None \<Rightarrow> Inl NullPointer
      | Some p \<Rightarrow>
          Inr (case sv_policy s of
                 kRoundRobin \<Rightarrow> (case Pool_GetNextLoop p of (l, p1) \<Rightarrow> (l, s\<lparr>tpool := Some p1\<rparr>))
               | kIPAddressHashing \<Rightarrow> (GetNextLoopWithHash raddr p, s)))"

definition HandleNewConn :: "('c, 'e) conn_api \<Rightarrow> int \<Rightarrow> string \<Rightarrow> 64 word \<Rightarrow> 'c TCPServer \<Rightarrow> 'c TCPServer result" where
  "HandleNewConn api sockfd remote raddr s =
     (if sv_status s = kStopping then Inr s
      else
        asserting (sv_status s = kRunning) (
        ebind (TCPServer_GetNextLoop raddr s) (\<lambda>(io_loop, s1).
        let i = next_conn_id s1 + 1 in
        ebind (c_new api remote sockfd (listen_addr s1) remote i) (\<lambda>c.
        let s2 = s1\<lparr>next_conn_id := i, conns := (conns s1)(i \<mapsto> c), conn_loop := (conn_loop s1)(i := io_loop)\<rparr> in
        ebind (if io_loop = None then conn_does api (c_attach api) i s2 else Inr (s2\<lparr>unattached := unattached s2 @ [i]\<rparr>)) (\<lambda>s3.
          Inr (s3\<lparr>connections := filter (\<lambda>j. j \<noteq> i) (connections s3) @ [i]\<rparr>))))))"

text \<open>What \<^verbatim>\<open>HandleAccept\<close> gets from the system: the result of \<^verbatim>\<open>accept\<close>, whether the descriptor could be made
  non-blocking, its remote address as a string and the IPv4 address in it.\<close>

record accepted =
  ac_fd :: int
  ac_nonblocking :: bool
  ac_remote :: string
  ac_raddr :: "64 word"

definition HandleAccept :: "('c, 'e) conn_api \<Rightarrow> loop_env \<Rightarrow> accepted \<Rightarrow> Listener \<Rightarrow> 'c TCPServer \<Rightarrow> 'c TCPServer result" where
  "HandleAccept api env a l s =
     asserting (in_loop_thread env)
       (if ac_fd a = -1 then Inr s
        else if \<not> ac_nonblocking a then Inr s
        else if ac_remote a = [] then Inr s
        else if new_conn_fn l then HandleNewConn api (ac_fd a) (ac_remote a) (ac_raddr a) s
        else Inr (s\<lparr>sv_fds := sv_fds s @ [ac_fd a]\<rparr>))"

section \<open>Events\<close>

datatype 'e server_event =
    Accept accepted | RunServerTask | AttachConn "64 word" | ConnEvent "64 word" 'e | StopServer bool bool

definition server_step :: "('c, 'e) conn_api \<Rightarrow> loop_env \<Rightarrow> 'e server_event \<Rightarrow> 'c TCPServer \<Rightarrow> 'c TCPServer result" where
  "server_step api env e s =
     (case e of
        Accept a \<Rightarrow>
          (case sv_listener s of
             Some l \<Rightarrow> if Option.bind (ls_chan l) watched \<noteq> None then HandleAccept api env a l s else Inr s
           | None \<Rightarrow> Inr s)
      | RunServerTask \<Rightarrow>
          (case sv_tasks s of
             [] \<Rightarrow> Inr s
           | t # ts \<Rightarrow>
               let s1 = s\<lparr>sv_tasks := ts\<rparr> in
               (case t of
                  AttachListener \<Rightarrow>
                    (case sv_listener s1 of
                       None \<Rightarrow> Inl NullPointer
                     | Some l \<Rightarrow> ebind (listener_attach env l) (\<lambda>l1. Inr (s1\<lparr>sv_listener := Some l1\<rparr>)))
                | StopInLoop cb \<Rightarrow> TCPServer_StopInLoop api env cb s1
                | RemoveConn i \<Rightarrow> remove_in_loop i s1))
      | AttachConn i \<Rightarrow>
          if i \<in> set (unattached s)
          then conn_does api (c_attach api) i (s\<lparr>unattached := filter (\<lambda>j. j \<noteq> i) (unattached s)\<rparr>) else Inr s
      | ConnEvent i ev \<Rightarrow> if i \<in> set (unattached s) then Inr s else conn_does api (c_event api ev) i s
      | StopServer cb now \<Rightarrow> TCPServer_Stop api env cb now s)"

fun server_run :: "('c, 'e) conn_api \<Rightarrow> loop_env \<Rightarrow> 'e server_event list \<Rightarrow> 'c TCPServer \<Rightarrow> 'c TCPServer result" where
  "server_run api env [] s = Inr s"
| "server_run api env (e # es) s = ebind (server_step api env e s) (server_run api env es)"

text \<open>The life of a server: it is initialised and started before its loop runs.\<close>

definition server_life ::
  "('c, 'e) conn_api \<Rightarrow> (16 word \<Rightarrow> string \<Rightarrow> int \<times> byte list) \<Rightarrow> sock_env \<Rightarrow> int \<Rightarrow> loop_env \<Rightarrow> string \<Rightarrow> nat \<Rightarrow> Policy \<Rightarrow>
    'e server_event list \<Rightarrow> 'c TCPServer result" where
  "server_life api pton senv sys_listen env laddr n policy es =
     ebind (TCPServer_Init pton senv sys_listen (TCPServer_new laddr n policy)) (\<lambda>(_, s).
     ebind (TCPServer_Start s) (\<lambda>(_, s1). server_run api env es s1))"

text \<open>The destructor.\<close>

definition TCPServer_delete :: "'c TCPServer \<Rightarrow> unit result" where
  "TCPServer_delete s =
     asserting (connections s = []) (asserting (sv_listener s = None)
       (case tpool s of None \<Rightarrow> Inr () | Some p \<Rightarrow> asserting (pl_status p = kStopped) (Inr ())))"

end
