(* ===== verification/Tcp_Server_Inv.thy ===== *)
theory Tcp_Server_Inv
  imports Tcp_Server
begin

text \<open>
  The server's invariant, for any kind of connection that keeps the contract \<open>conn_provider\<close>.
\<close>

section \<open>Invariant\<close>

text \<open>\<open>fresh\<close> and \<open>live\<close> are the states of a connection before and after it was attached, with the number of
  events it can still take. A connection is in \<^verbatim>\<open>connections_\<close> until its removal has run, which is queued
  when it closes.\<close>

definition conn_ok ::
  "('c, 'e) conn_api \<Rightarrow> (nat \<Rightarrow> 'c \<Rightarrow> bool) \<Rightarrow> (nat \<Rightarrow> 'c \<Rightarrow> bool) \<Rightarrow> nat \<Rightarrow> 'c TCPServer \<Rightarrow> 64 word \<Rightarrow> bool" where
  "conn_ok api fresh live n s i \<longleftrightarrow>
     (case conns s i of
        None \<Rightarrow> i \<notin> set (unattached s) \<and> i \<notin> set (connections s) \<and> RemoveConn i \<notin> set (sv_tasks s)
      | Some c \<Rightarrow>
          (if i \<in> set (unattached s) then fresh n c else live n c) \<and> conn_loop s i \<noteq> None \<and>
          unat i \<le> unat (next_conn_id s) \<and>
          (i \<in> set (connections s) \<longleftrightarrow> \<not> c_closed api c \<or> RemoveConn i \<in> set (sv_tasks s)) \<and>
          (RemoveConn i \<in> set (sv_tasks s) \<longrightarrow> c_closed api c))"

definition conns_ok ::
  "('c, 'e) conn_api \<Rightarrow> (nat \<Rightarrow> 'c \<Rightarrow> bool) \<Rightarrow> (nat \<Rightarrow> 'c \<Rightarrow> bool) \<Rightarrow> nat \<Rightarrow> 'c TCPServer \<Rightarrow> bool" where
  "conns_ok api fresh live n s \<longleftrightarrow> (\<forall>i. conn_ok api fresh live n s i) \<and> distinct (sv_tasks s) \<and>
     set (sv_tasks s) \<subseteq> range RemoveConn \<and> unat (next_conn_id s) + n < 2 ^ 64"

definition pool_ready :: "'c TCPServer \<Rightarrow> bool" where
  "pool_ready s \<longleftrightarrow> (\<exists>p. tpool s = Some p \<and> pl_status p = kRunning \<and> pushed p > 0)"

definition server_up :: "'c TCPServer \<Rightarrow> bool" where
  "server_up s \<longleftrightarrow> sv_status s = kRunning \<and> pool_ready s \<and> \<not> sv_stopped_cb s \<and> done_calls s = 0 \<and>
     (\<exists>l ch. sv_listener s = Some l \<and> ls_chan l = Some ch \<and> chan_sync ch \<and> new_conn_fn l)"

definition server_down :: "bool \<Rightarrow> 'c TCPServer \<Rightarrow> bool" where
  "server_down cb s \<longleftrightarrow> sv_status s = kStopping \<and> sv_substatus s = kStoppingListener \<and> sv_listener s = None \<and> pool_ready s \<and>
     connections s \<noteq> [] \<and> sv_stopped_cb s = cb \<and> done_calls s = 0"

definition server_off :: "bool \<Rightarrow> 'c TCPServer \<Rightarrow> bool" where
  "server_off cb s \<longleftrightarrow> sv_status s = kStopped \<and> sv_listener s = None \<and> tpool s = None \<and> connections s = [] \<and>
     done_calls s = of_bool cb"

definition server_inv :: "bool \<Rightarrow> 'c TCPServer \<Rightarrow> bool" where
  "server_inv cb s \<longleftrightarrow> server_up s \<or> server_down cb s \<or> server_off cb s"

text \<open>What may happen to a server besides being stopped: \<^verbatim>\<open>accept\<close> fails or returns a descriptor, and the events of connections are fine.\<close>

fun server_event_ok :: "('e \<Rightarrow> bool) \<Rightarrow> 'e server_event \<Rightarrow> bool" where
  "server_event_ok ok_event (Accept a) = (ac_fd a = -1 \<or> ac_fd a > 0)"
| "server_event_ok ok_event (ConnEvent i e) = ok_event e"
| "server_event_ok ok_event (StopServer cb now) = False"
| "server_event_ok ok_event _ = True"

lemma Listener_Stop_ok:
  assumes "ls_chan l = Some ch" "chan_sync ch" "libevent_ok env"
  shows "\<exists>l1. Listener_Stop env l = Inr l1 \<and> Listener_delete l1 fds = Inr (remove1 (ls_fd l) fds)"
proof -
  obtain ch1 where ch1: "DisableAllEvent env ch = Inr ch1" "chan_sync ch1" "events ch1 = kNone"
    using switch_sync(5) [OF assms(2,3)] by blast
  then obtain ch2 where "FdChannel_Close ch1 = Inr ch2" "ch_event ch2 = None"
    by (auto simp: FdChannel_Close_def chan_sync_def)
  then show ?thesis
    using assms(1,3) ch1(1) by (simp add: Listener_Stop_def Listener_delete_def FdChannel_delete_def libevent_ok_def)
qed

section \<open>Any connection\<close>

locale conn_provider =
  fixes api :: "('c, 'e) conn_api" and fresh live :: "nat \<Rightarrow> 'c \<Rightarrow> bool" and ok_event :: "'e \<Rightarrow> bool" and budget :: nat
  assumes new: "sockfd > 0 \<Longrightarrow> n \<le> budget \<Longrightarrow> \<exists>c. c_new api nm sockfd la ra i = Inr c \<and> fresh n c"
    and fresh_closed: "fresh n c \<Longrightarrow> \<not> c_closed api c \<and> \<not> c_connected api c"
    and attach: "fresh (Suc n) c \<Longrightarrow> \<exists>c'. c_attach api c = Inr c' \<and> live n c'"
    and event: "live (Suc n) c \<Longrightarrow> ok_event e \<Longrightarrow>
      \<exists>c'. c_event api e c = Inr c' \<and> live n c' \<and> (c_closed api c \<longrightarrow> c_closed api c')"
    and close: "live n c \<Longrightarrow> c_connected api c \<Longrightarrow> live n (c_close api c) \<and> c_closed api (c_close api c) = c_closed api c"
    and fresh_mono: "fresh (Suc n) c \<Longrightarrow> fresh n c"
    and live_mono: "live (Suc n) c \<Longrightarrow> live n c"
begin

abbreviation ok :: "nat \<Rightarrow> 'c TCPServer \<Rightarrow> bool" where
  "ok \<equiv> conns_ok api fresh live"

lemma conn_ok_mono: "conn_ok api fresh live (Suc n) s i \<Longrightarrow> conn_ok api fresh live n s i"
  by (auto simp: conn_ok_def dest: fresh_mono live_mono split: option.splits if_splits)

lemma ok_mono: "ok (Suc n) s \<Longrightarrow> ok n s"
  using conn_ok_mono by (auto simp: conns_ok_def)

text \<open>The invariant on the connections only depends on the fields that concern them.\<close>

definition same_conns :: "'c TCPServer \<Rightarrow> 'c TCPServer \<Rightarrow> bool" where
  "same_conns s s' \<longleftrightarrow> conns s' = conns s \<and> unattached s' = unattached s \<and> connections s' = connections s \<and>
     sv_tasks s' = sv_tasks s \<and> conn_loop s' = conn_loop s \<and> next_conn_id s' = next_conn_id s"

lemma ok_same: "ok n s \<Longrightarrow> same_conns s s' \<Longrightarrow> ok n s'"
  unfolding conns_ok_def conn_ok_def same_conns_def by (elim conjE) (simp only: simp_thms)

lemma okD:
  assumes "ok n s" "conns s i = Some c"
  shows "i \<in> set (unattached s) \<Longrightarrow> fresh n c" "i \<notin> set (unattached s) \<Longrightarrow> live n c" "conn_loop s i \<noteq> None"
    "unat i \<le> unat (next_conn_id s)" "i \<in> set (connections s) \<longleftrightarrow> \<not> c_closed api c \<or> RemoveConn i \<in> set (sv_tasks s)"
    "RemoveConn i \<in> set (sv_tasks s) \<Longrightarrow> c_closed api c"
proof -
  have "conn_ok api fresh live n s i" using assms(1) by (simp add: conns_ok_def)
  then show "i \<in> set (unattached s) \<Longrightarrow> fresh n c" "i \<notin> set (unattached s) \<Longrightarrow> live n c" "conn_loop s i \<noteq> None"
    "unat i \<le> unat (next_conn_id s)" "i \<in> set (connections s) \<longleftrightarrow> \<not> c_closed api c \<or> RemoveConn i \<in> set (sv_tasks s)"
    "RemoveConn i \<in> set (sv_tasks s) \<Longrightarrow> c_closed api c"
    using assms(2) by (simp_all add: conn_ok_def)
qed

lemma ok_None:
  assumes "ok n s" "conns s i = None"
  shows "i \<notin> set (unattached s)" "i \<notin> set (connections s)" "RemoveConn i \<notin> set (sv_tasks s)"
proof -
  have "conn_ok api fresh live n s i" using assms(1) by (simp add: conns_ok_def)
  then show "i \<notin> set (unattached s)" "i \<notin> set (connections s)" "RemoveConn i \<notin> set (sv_tasks s)"
    using assms(2) by (simp_all add: conn_ok_def)
qed

text \<open>A change that concerns one connection only.\<close>

lemma ok_change:
  assumes "ok n s" "conn_ok api fresh live n s' i"
    "\<And>j. j \<noteq> i \<Longrightarrow> conns s' j = conns s j \<and> conn_loop s' j = conn_loop s j \<and> (j \<in> set (unattached s') \<longleftrightarrow> j \<in> set (unattached s)) \<and>
      (j \<in> set (connections s') \<longleftrightarrow> j \<in> set (connections s)) \<and> (RemoveConn j \<in> set (sv_tasks s') \<longleftrightarrow> RemoveConn j \<in> set (sv_tasks s))"
    "unat (next_conn_id s) \<le> unat (next_conn_id s')" "unat (next_conn_id s') + n < 2 ^ 64"
    "distinct (sv_tasks s')" "set (sv_tasks s') \<subseteq> range RemoveConn"
  shows "ok n s'"
proof -
  have "conn_ok api fresh live n s' j" for j
  proof (cases "j = i")
    case False
    have "conn_ok api fresh live n s j" using assms(1) by (simp add: conns_ok_def)
    then show ?thesis using assms(3) [OF False] assms(4) unfolding conn_ok_def by (auto split: option.splits if_splits)
  qed (use assms(2) in simp)
  then show ?thesis using assms(5-7) by (simp add: conns_ok_def)
qed

section \<open>Removing\<close>

lemma StopThreadPool_ok:
  assumes "sv_status s = kStopping" "pool_ready s"
  shows "StopThreadPool s = Inr (s\<lparr>sv_substatus := kSubStatusNull, tpool := None\<rparr>)"
  using assms by (auto simp: StopThreadPool_def pool_ready_def stopped_pool_def)

lemma remove_inv:
  assumes o: "ok n s" and t: "sv_tasks s = RemoveConn i # ts" and inv: "server_inv cb s"
  shows "\<exists>s'. remove_in_loop i (s\<lparr>sv_tasks := ts\<rparr>) = Inr s' \<and> ok n s' \<and> server_inv cb s' \<and> (server_up s' \<longleftrightarrow> server_up s)"
proof -
  let ?s1 = "s\<lparr>sv_tasks := ts, connections := filter (\<lambda>j. j \<noteq> i) (connections s)\<rparr>"
  have ts: "RemoveConn i \<notin> set ts" "distinct ts" "set ts \<subseteq> range RemoveConn" using o t by (auto simp: conns_ok_def)
  have o1: "ok n ?s1"
  proof (rule ok_change [OF o, where i = i])
    have "conn_ok api fresh live n s i" using o by (simp add: conns_ok_def)
    then show "conn_ok api fresh live n ?s1 i" using t ts(1) by (auto simp: conn_ok_def split: option.splits if_splits)
  qed (use o t ts in \<open>auto simp: conns_ok_def\<close>)
  consider (up) "server_up s" | (down) "server_down cb s" | (off) "server_off cb s" using inv by (auto simp: server_inv_def)
  then show ?thesis
  proof cases
    case up
    then have "server_up ?s1" by (simp add: server_up_def pool_ready_def)
    then show ?thesis using up o1 by (simp add: remove_in_loop_def Let_def server_inv_def server_up_def)
  next
    case down
    show ?thesis
    proof (cases "connections ?s1 = []")
      case True
      let ?s2 = "?s1\<lparr>sv_substatus := kSubStatusNull, tpool := None, done_calls := of_bool cb, sv_stopped_cb := False, sv_status := kStopped\<rparr>"
      have "StopThreadPool ?s1 = Inr (?s1\<lparr>sv_substatus := kSubStatusNull, tpool := None\<rparr>)"
        using down by (intro StopThreadPool_ok) (simp_all add: server_down_def pool_ready_def)
      then have "remove_in_loop i (s\<lparr>sv_tasks := ts\<rparr>) = Inr ?s2"
        using down True by (simp add: remove_in_loop_def Let_def server_down_def)
      moreover have "ok n ?s2" by (rule ok_same [OF o1]) (simp add: same_conns_def)
      moreover have "server_off cb ?s2" using down True by (simp add: server_off_def server_down_def)
      ultimately show ?thesis using down by (auto simp: server_inv_def server_up_def server_down_def)
    next
      case False
      then have "server_down cb ?s1" using down by (simp add: server_down_def pool_ready_def)
      then show ?thesis using down False o1
        by (auto simp: remove_in_loop_def Let_def server_inv_def server_up_def server_down_def)
    qed
  next
    case off
    then have "server_off cb ?s1" by (simp add: server_off_def)
    then show ?thesis using off o1 by (auto simp: remove_in_loop_def Let_def server_inv_def server_up_def server_off_def)
  qed
qed

section \<open>A step of a connection\<close>

lemma conn_does_inv:
  assumes o: "ok (Suc n) s" and inv: "server_inv cb s" and c: "conns s i = Some c" "f c = Inr c'" "live n c'"
    and cl: "c_closed api c \<longrightarrow> c_closed api c'" and un: "unattached s' = filter (\<lambda>j. j \<noteq> i) (unattached s)"
    and s': "conns s' = conns s" "connections s' = connections s" "sv_tasks s' = sv_tasks s" "conn_loop s' = conn_loop s"
      "next_conn_id s' = next_conn_id s" "server_inv cb s'"
  shows "\<exists>s1. conn_does api f i s' = Inr s1 \<and> ok n s1 \<and> server_inv cb s1 \<and> (server_up s1 \<longleftrightarrow> server_up s')"
proof -
  note o1 = ok_mono [OF o]
  note d = okD [OF o1 c(1)]
  let ?s1 = "s'\<lparr>conns := (conns s)(i \<mapsto> c')\<rparr>" and ?ts = "sv_tasks s @ [RemoveConn i]"
  have un': "i \<notin> set (unattached s')" using un by simp
  show ?thesis
  proof (cases "c_closed api c' \<and> \<not> c_closed api c")
    case True
    let ?s2 = "?s1\<lparr>sv_tasks := ?ts\<rparr>"
    have nt: "RemoveConn i \<notin> set (sv_tasks s)" using d(6) True by blast
    have "ok n ?s2"
      by (rule ok_change [OF o1, where i = i])
        (use o1 c(3) d un un' s' nt True in \<open>auto simp: conns_ok_def conn_ok_def\<close>)
    moreover have "conn_does api f i s' = Inr ?s2"
      using c True d(3) s' by (auto simp: conn_does_def RemoveConnection_def Let_def)
    moreover have "server_inv cb ?s2" "server_up ?s2 \<longleftrightarrow> server_up s'"
      using s'(6) by (auto simp: server_inv_def server_up_def server_down_def server_off_def pool_ready_def)
    ultimately show ?thesis by blast
  next
    case False
    then have same: "c_closed api c' = c_closed api c" using cl by blast
    have "ok n ?s1"
      by (rule ok_change [OF o1, where i = i])
        (use o1 c(3) d un un' s' same in \<open>auto simp: conns_ok_def conn_ok_def\<close>)
    moreover have "conn_does api f i s' = Inr ?s1" using c(1,2) False s' by (auto simp: conn_does_def Let_def)
    moreover have "server_inv cb ?s1" "server_up ?s1 \<longleftrightarrow> server_up s'"
      using s'(6) by (auto simp: server_inv_def server_up_def server_down_def server_off_def pool_ready_def)
    ultimately show ?thesis by blast
  qed
qed

section \<open>A new connection\<close>

lemma GetNextLoop_ready:
  assumes "pool_ready s"
  shows "\<exists>k s1. TCPServer_GetNextLoop raddr s = Inr (Some k, s1) \<and> same_conns s s1 \<and> sv_status s1 = sv_status s \<and> pool_ready s1 \<and>
    (server_up s1 \<longleftrightarrow> server_up s)"
  using assms
  by (cases "sv_policy s")
    (auto simp: TCPServer_GetNextLoop_def pool_ready_def Pool_GetNextLoop_def GetNextLoopWithHash_def same_conns_def server_up_def)

lemma HandleNewConn_inv:
  assumes o: "ok (Suc n) s" and up: "server_up s" and a: "sockfd > 0" "Suc n \<le> budget"
  shows "\<exists>s'. HandleNewConn api sockfd remote raddr s = Inr s' \<and> ok n s' \<and> server_up s'"
proof -
  obtain k s1 where s1: "TCPServer_GetNextLoop raddr s = Inr (Some k, s1)" "same_conns s s1" "server_up s1" "sv_status s1 = sv_status s"
    using GetNextLoop_ready up by (metis server_up_def)
  have o1: "ok (Suc n) s1" by (rule ok_same [OF o s1(2)])
  let ?i = "next_conn_id s1 + 1"
  obtain c where c: "c_new api remote sockfd (listen_addr s1) remote ?i = Inr c" "fresh n c"
    using new [OF a(1), of n] a(2) by (meson Suc_leD)
  have i: "unat ?i = Suc (unat (next_conn_id s1))"
    using o1 by (auto simp: conns_ok_def unat_word_ariths)
  have none: "conns s1 ?i = None"
    using okD(4) [OF o1, of ?i] i by (cases "conns s1 ?i") fastforce+
  note nn = ok_None [OF o1 none]
  let ?s' = "s1\<lparr>next_conn_id := ?i, conns := (conns s1)(?i \<mapsto> c), conn_loop := (conn_loop s1)(?i := Some k),
    unattached := unattached s1 @ [?i], connections := filter (\<lambda>j. j \<noteq> ?i) (connections s1) @ [?i]\<rparr>"
  have "ok n ?s'"
    by (rule ok_change [OF ok_mono [OF o1], where i = ?i])
      (use o1 i nn c(2) fresh_closed [OF c(2)] in \<open>auto simp: conns_ok_def conn_ok_def\<close>)
  moreover have "server_up ?s'" using s1(3) by (simp add: server_up_def pool_ready_def)
  ultimately show ?thesis using s1 c(1) up by (simp add: HandleNewConn_def Let_def server_up_def)
qed

section \<open>Stopping\<close>

lemma close_connected_ok:
  assumes "ok n s"
  shows "ok n (close_connected api s)"
proof -
  have "conn_ok api fresh live n (close_connected api s) i" for i
  proof (cases "conns s i")
    case None
    then show ?thesis using ok_None [OF assms None] by (auto simp: conn_ok_def close_connected_def)
  next
    case (Some c)
    note d = okD [OF assms Some]
    show ?thesis
      using d fresh_closed [of n c] close [of n c] Some by (auto simp: conn_ok_def close_connected_def split: if_splits)
  qed
  then show ?thesis using assms by (simp add: conns_ok_def close_connected_def)
qed

lemma Stop_inv:
  assumes o: "ok n s" and up: "server_up s" and env: "libevent_ok env"
  shows "\<exists>s'. TCPServer_Stop api env cb True s = Inr s' \<and> ok n s' \<and> (server_down cb s' \<or> server_off cb s')"
proof -
  obtain l ch where l: "sv_listener s = Some l" "ls_chan l = Some ch" "chan_sync ch" using up by (auto simp: server_up_def)
  obtain l1 where l1: "Listener_Stop env l = Inr l1" "Listener_delete l1 (sv_fds s) = Inr (remove1 (ls_fd l) (sv_fds s))"
    using Listener_Stop_ok [OF l(2,3) env] by blast
  let ?s = "s\<lparr>sv_status := kStopping, sv_substatus := kStoppingListener\<rparr>"
  let ?s1 = "?s\<lparr>sv_listener := None, sv_fds := remove1 (ls_fd l) (sv_fds s)\<rparr>"
  have in_loop: "in_loop_thread env" using env by (simp add: libevent_ok_def)
  have o1: "ok n ?s1" by (rule ok_same [OF o]) (simp add: same_conns_def)
  have u: "sv_status s = kRunning" "pool_ready s" "done_calls s = 0" using up by (simp_all add: server_up_def)
  show ?thesis
  proof (cases "connections s = []")
    case True
    let ?s2 = "?s1\<lparr>sv_substatus := kSubStatusNull, tpool := None, done_calls := of_bool cb, sv_status := kStopped\<rparr>"
    have "StopThreadPool ?s1 = Inr (?s1\<lparr>sv_substatus := kSubStatusNull, tpool := None\<rparr>)"
      using u by (intro StopThreadPool_ok) (simp_all add: pool_ready_def)
    then have "TCPServer_Stop api env cb True s = Inr ?s2"
      using u l(1) l1 True in_loop by (simp add: TCPServer_Stop_def TCPServer_StopInLoop_def Let_def)
    moreover have "ok n ?s2" by (rule ok_same [OF o1]) (simp add: same_conns_def)
    moreover have "server_off cb ?s2" using True by (simp add: server_off_def)
    ultimately show ?thesis by blast
  next
    case False
    let ?s2 = "(close_connected api ?s1)\<lparr>sv_stopped_cb := cb\<rparr>"
    have "TCPServer_Stop api env cb True s = Inr ?s2"
      using u l(1) l1 False in_loop by (simp add: TCPServer_Stop_def TCPServer_StopInLoop_def Let_def)
    moreover have "ok n ?s2" by (rule ok_same [OF close_connected_ok [OF o1]]) (simp add: same_conns_def)
    moreover have "server_down cb ?s2" using u False by (simp add: server_down_def close_connected_def pool_ready_def)
    ultimately show ?thesis by blast
  qed
qed

section \<open>Runs\<close>

lemma server_step_inv:
  assumes o: "ok (Suc n) s" and inv: "server_inv cb s" and env: "libevent_ok env" and e: "server_event_ok ok_event e"
    and b: "Suc n \<le> budget"
  shows "\<exists>s'. server_step api env e s = Inr s' \<and> ok n s' \<and> server_inv cb s' \<and> (server_up s' \<longleftrightarrow> server_up s)"
proof -
  have stay: "?thesis" if "server_step api env e s = Inr s" using that ok_mono [OF o] inv by blast
  have in_loop: "in_loop_thread env" using env by (simp add: libevent_ok_def)
  show ?thesis
  proof (cases e)
    case (Accept a)
    show ?thesis
    proof (cases "server_up s")
      case True
      then obtain l where l: "sv_listener s = Some l" "new_conn_fn l" by (auto simp: server_up_def)
      show ?thesis
      proof (cases "Option.bind (ls_chan l) watched \<noteq> None \<and> ac_fd a \<noteq> -1 \<and> ac_nonblocking a \<and> ac_remote a \<noteq> []")
        case True
        then show ?thesis
          using HandleNewConn_inv [OF o \<open>server_up s\<close>, of "ac_fd a" "ac_remote a" "ac_raddr a"] e Accept l b in_loop \<open>server_up s\<close>
          by (auto simp: server_step_def HandleAccept_def server_inv_def)
      next
        case False
        then show ?thesis using l Accept in_loop by (intro stay) (auto simp: server_step_def HandleAccept_def)
      qed
    next
      case False
      then have "sv_listener s = None" using inv by (auto simp: server_inv_def server_down_def server_off_def)
      then show ?thesis using Accept by (intro stay) (simp add: server_step_def)
    qed
  next
    case RunServerTask
    show ?thesis
    proof (cases "sv_tasks s")
      case (Cons t ts)
      then obtain i where t: "t = RemoveConn i" using o by (auto simp: conns_ok_def)
      then show ?thesis
        using remove_inv [OF ok_mono [OF o], of i ts cb] inv Cons RunServerTask by (simp add: server_step_def Let_def)
    qed (use RunServerTask stay in \<open>simp add: server_step_def\<close>)
  next
    case (AttachConn i)
    show ?thesis
    proof (cases "i \<in> set (unattached s)")
      case True
      then obtain c where c: "conns s i = Some c" "fresh (Suc n) c"
        using ok_None(1) [OF o, of i] okD(1) [OF o, of i] by (cases "conns s i") auto
      obtain c' where c': "c_attach api c = Inr c'" "live n c'" using attach [OF c(2)] by blast
      let ?s = "s\<lparr>unattached := filter (\<lambda>j. j \<noteq> i) (unattached s)\<rparr>"
      have up: "server_inv cb ?s" "server_up ?s \<longleftrightarrow> server_up s"
        using inv by (auto simp: server_inv_def server_up_def server_down_def server_off_def pool_ready_def)
      have "\<exists>s1. conn_does api (c_attach api) i ?s = Inr s1 \<and> ok n s1 \<and> server_inv cb s1 \<and> (server_up s1 \<longleftrightarrow> server_up ?s)"
        by (rule conn_does_inv [where f = "c_attach api", OF o inv c(1) c']) (use fresh_closed [OF c(2)] up in auto)
      then show ?thesis using AttachConn True up by (auto simp: server_step_def)
    qed (use AttachConn stay in \<open>simp add: server_step_def\<close>)
  next
    case (ConnEvent i ev)
    show ?thesis
    proof (cases "i \<notin> set (unattached s) \<and> conns s i \<noteq> None")
      case True
      then obtain c where c: "conns s i = Some c" "live (Suc n) c" using okD(2) [OF o, of i] by auto
      obtain c' where c': "c_event api ev c = Inr c'" "live n c'" "c_closed api c \<longrightarrow> c_closed api c'"
        using event [OF c(2)] e ConnEvent by auto
      have un: "filter (\<lambda>j. j \<noteq> i) (unattached s) = unattached s" using True by (auto simp: filter_id_conv)
      have "\<exists>s1. conn_does api (c_event api ev) i s = Inr s1 \<and> ok n s1 \<and> server_inv cb s1 \<and> (server_up s1 \<longleftrightarrow> server_up s)"
        by (rule conn_does_inv [where f = "c_event api ev", OF o inv c(1) c'(1,2)]) (use c'(3) inv un in auto)
      then show ?thesis using ConnEvent True by (simp add: server_step_def)
    qed (use ConnEvent stay in \<open>auto simp: server_step_def conn_does_def\<close>)
  qed (use e in simp)
qed

lemma server_run_inv:
  assumes "ok (length es + n) s" "server_inv cb s" "libevent_ok env" "list_all (server_event_ok ok_event) es" "length es + n \<le> budget"
  shows "\<exists>s'. server_run api env es s = Inr s' \<and> ok n s' \<and> server_inv cb s' \<and> (server_up s' \<longleftrightarrow> server_up s)"
  using assms
proof (induction es arbitrary: s)
  case (Cons e es)
  obtain s1 where "server_step api env e s = Inr s1" "ok (length es + n) s1" "server_inv cb s1" "server_up s1 \<longleftrightarrow> server_up s"
    using server_step_inv [of "length es + n" s cb env e] Cons.prems by auto
  moreover from this obtain s' where "server_run api env es s1 = Inr s'" "ok n s'" "server_inv cb s'" "server_up s' \<longleftrightarrow> server_up s1"
    using Cons by auto
  ultimately show ?case by auto
qed simp

lemma server_run_append: "server_run api env (xs @ ys) s = ebind (server_run api env xs s) (server_run api env ys)"
proof (induction xs arbitrary: s)
  case (Cons x xs)
  then show ?case by (cases "server_step api env x s") simp_all
qed simp

text \<open>A run in which the server is stopped once.\<close>

lemma server_stop_run:
  assumes "ok (length es + length es' + 1) s" "server_up s" "libevent_ok env" "list_all (server_event_ok ok_event) es"
    "list_all (server_event_ok ok_event) es'" "length es + length es' + 1 \<le> budget"
  shows "\<exists>s'. server_run api env (es @ StopServer cb True # es') s = Inr s' \<and> ok 0 s' \<and> (server_down cb s' \<or> server_off cb s')"
proof -
  obtain s1 where s1: "server_run api env es s = Inr s1" "ok (length es' + 1) s1" "server_up s1"
    using server_run_inv [of es "length es' + 1" s cb env] assms by (auto simp: server_inv_def)
  have o: "ok (length es') s1" using ok_mono s1(2) by simp
  obtain s2 where s2: "TCPServer_Stop api env cb True s1 = Inr s2" "ok (length es') s2" "server_down cb s2 \<or> server_off cb s2"
    using Stop_inv [OF o s1(3) assms(3)] by blast
  then have "\<not> server_up s2" by (auto simp: server_up_def server_down_def server_off_def)
  obtain s3 where s3: "server_run api env es' s2 = Inr s3" "ok 0 s3" "server_inv cb s3"
    using server_run_inv [of es' 0 s2 cb env] s2 assms by (auto simp: server_inv_def)
  then have "\<not> server_up s3" using server_run_inv [of es' 0 s2 cb env] s2 assms \<open>\<not> server_up s2\<close> by (auto simp: server_inv_def)
  then have "server_down cb s3 \<or> server_off cb s3" using s3(3) by (simp add: server_inv_def)
  moreover have "server_run api env (es @ StopServer cb True # es') s = Inr s3"
    using s1(1) s2(1) s3(1) by (simp add: server_run_append server_step_def)
  ultimately show ?thesis using s3(2) by blast
qed

end

end
