(* ===== verification/Tcp_Server_Props.thy ===== *)
theory Tcp_Server_Props
  imports Tcp_Server_Inv Tcp_Conn_Props Loop_Pool_Props
begin

text \<open>
  The server with real connections: \<^verbatim>\<open>TCPConn\<close> keeps the contract the server relies on, hence the server stops exactly when
  its last connection is gone; and four situations in which it does not.
\<close>

section \<open>TCPConn as a connection of the server\<close>

text \<open>What \<^verbatim>\<open>HandleNewConn\<close> does with the new object is part of \<open>c_new\<close>; \<open>answers\<close> are the kernel's answers to \<^verbatim>\<open>send\<close> on each
  connection.\<close>

definition tcp_api :: "user_code \<Rightarrow> loop_env \<Rightarrow> (64 word \<Rightarrow> (int + nat) list) \<Rightarrow> (TCPConn, conn_event) conn_api" where
  "tcp_api user env answers =
     \<lparr>c_new = (\<lambda>nm sockfd laddr raddr i.
        ebind (TCPConn_new nm sockfd laddr raddr i (answers i)) (\<lambda>c.
          asserting (tc_type c = kIncoming) (Inr (SetCloseCallback (SetConnectionCallback (SetMessageCallback c)))))),
      c_attach = OnAttachedToLoop user env, c_event = conn_step user env, c_close = TCPConn_Close,
      c_connected = (\<lambda>c. tc_status c = kConnected), c_closed = (\<lambda>c. CloseFn \<in> set (calls c))\<rparr>"

definition conn_fresh :: "TCPConn \<Rightarrow> bool" where
  "conn_fresh c \<longleftrightarrow> conn_new_ok (tc_fd c) c \<and> conn_fns c"

lemma conn_closed_gone: "conn_inv c \<Longrightarrow> CloseFn \<in> set (calls c) \<longleftrightarrow> conn_gone c"
  using count_list_0_iff [of "calls c" CloseFn] by (auto simp: conn_inv_def conn_open_def conn_owing_def conn_gone_def)

lemma fits_mono: "fits m k (Suc n) c \<Longrightarrow> fits m k n c"
  by (auto simp: fits_def)

lemma tcp_new:
  assumes "sockfd > 0" "16 + 3 * (n * max m k) < 2 ^ 63"
  shows "\<exists>c. c_new (tcp_api user env answers) nm sockfd la ra i = Inr c \<and> conn_fresh c \<and> fits m k n c"
proof -
  obtain c where c: "TCPConn_new nm sockfd la ra i (answers i) = Inr c" "conn_new_ok sockfd c"
    using TCPConn_new_fresh [OF assms(1)] by blast
  let ?c = "SetCloseCallback (SetConnectionCallback (SetMessageCallback c))"
  have le: "n * m \<le> n * max m k" "n * k \<le> n * max m k" by (rule mult_le_mono2, simp)+
  have "conn_fresh ?c"
    using c(2) by (auto simp: conn_fresh_def conn_new_ok_def conn_fns_def conn_bufs_def out_bytes_def in_bytes_def
        SetCloseCallback_def SetConnectionCallback_def SetMessageCallback_def)
  moreover from this have e: "out_bytes ?c = []" "in_bytes ?c = []" "tasks ?c = []" by (simp_all add: conn_fresh_def conn_new_ok_def)
  have "16 + 3 * (n * m) < 2 ^ 63" "16 + 3 * (n * k) < 2 ^ 63" using assms(2) le by linarith+
  then have "fits m k n ?c" by (simp add: fits_def sends_def e)
  ultimately show ?thesis using c by (simp add: tcp_api_def conn_new_ok_def)
qed

lemma tcp_close:
  assumes "conn_inv c" "tc_status c = kConnected"
  shows "conn_inv (TCPConn_Close c)" "calls (TCPConn_Close c) = calls c" "fits m k n c \<Longrightarrow> fits m k n (TCPConn_Close c)"
proof -
  have "conn_open c" using assms by (auto simp: conn_inv_def conn_gone_def)
  then show "conn_inv (TCPConn_Close c)"
    by (auto simp: conn_inv_def conn_open_def conn_owing_def conn_bufs_def conn_fns_def out_bytes_def TCPConn_Close_def QueueTask_def)
qed (auto simp: TCPConn_Close_def QueueTask_def fits_def out_bytes_def in_bytes_def sends_def)

lemma tcp_attach:
  assumes "libevent_ok env" "civil m prog" "conn_fresh c" "fits m k (Suc n) c"
  shows "\<exists>c'. OnAttachedToLoop (user_at env prog (Suc (Suc 0))) env c = Inr c' \<and> conn_inv c' \<and> fits m k n c'"
proof -
  obtain ch where ch: "tc_chan c = Some ch" "chan_sync ch" "ch_fd ch = tc_fd c" "read_fn ch" "write_fn ch" "\<not> IsWritable ch"
    using assms(3) by (auto simp: conn_fresh_def conn_new_ok_def)
  have "\<exists>c'. OnAttachedToLoop (user_at env prog (Suc (Suc 0))) env c = Inr c' \<and> kept m c c'"
    using assms(3) ch fits_room [OF assms(4)]
    by (intro live_user.OnAttachedToLoop_inv [OF live_user_at [OF assms(1,2)]]) (auto simp: conn_fresh_def conn_new_ok_def)
  then show ?thesis using fits_grew [OF assms(4)] kept_grew grew_mono [of m 0 c _ m k] by (force simp: kept_def)
qed

lemma tcp_event:
  assumes "libevent_ok env" "civil m prog" "conn_inv c" "fits m k (Suc n) c" "event_ok m k e"
  shows "\<exists>c'. conn_step (user_at env prog (Suc (Suc 0))) env e c = Inr c' \<and> conn_inv c' \<and> fits m k n c' \<and>
    (CloseFn \<in> set (calls c) \<longrightarrow> CloseFn \<in> set (calls c'))"
proof -
  note L = live_user_at [OF assms(1,2), of 0]
  obtain c' where c': "conn_step (user_at env prog (Suc (Suc 0))) env e c = Inr c'" "conn_inv c'" "fits m k n c'"
    using live_user.conn_step_inv [OF L assms(3-5)] by blast
  then show ?thesis
    using live_user.conn_step_gone [OF L _ assms(4,5) c'(1)] conn_closed_gone [OF assms(3)] conn_closed_gone [OF c'(2)] by blast
qed

lemma tcp_provider:
  assumes "libevent_ok env" "civil m prog" "16 + 3 * (budget * max m k) < 2 ^ 63"
  shows "conn_provider (tcp_api (user_at env prog (Suc (Suc 0))) env answers) (\<lambda>n c. conn_fresh c \<and> fits m k n c)
    (\<lambda>n c. conn_inv c \<and> fits m k n c) (event_ok m k) budget" (is "conn_provider ?api _ _ _ _")
proof (rule conn_provider.intro)
  show "\<exists>c. c_new ?api nm sockfd la ra i = Inr c \<and> conn_fresh c \<and> fits m k n c" if "0 < sockfd" "n \<le> budget" for nm sockfd la ra i n
  proof (rule tcp_new [OF that(1)])
    show "16 + 3 * (n * max m k) < 2 ^ 63" using mult_le_mono1 [OF that(2), of "max m k"] assms(3) by linarith
  qed
  show "\<not> c_closed ?api c \<and> \<not> c_connected ?api c" if "conn_fresh c \<and> fits m k n c" for n c
    using that by (simp add: tcp_api_def conn_fresh_def conn_new_ok_def)
  show "\<exists>c'. c_attach ?api c = Inr c' \<and> conn_inv c' \<and> fits m k n c'" if "conn_fresh c \<and> fits m k (Suc n) c" for n c
    using tcp_attach [OF assms(1,2)] that by (simp add: tcp_api_def del: user_at.simps)
  show "\<exists>c'. c_event ?api e c = Inr c' \<and> (conn_inv c' \<and> fits m k n c') \<and> (c_closed ?api c \<longrightarrow> c_closed ?api c')"
    if "conn_inv c \<and> fits m k (Suc n) c" "event_ok m k e" for n c e
    using tcp_event [OF assms(1,2)] that by (simp add: tcp_api_def del: user_at.simps)
  show "(conn_inv (c_close ?api c) \<and> fits m k n (c_close ?api c)) \<and> c_closed ?api (c_close ?api c) = c_closed ?api c"
    if "conn_inv c \<and> fits m k n c" "c_connected ?api c" for n c
    using tcp_close(1,2) [of c] tcp_close(3) [of c m k n] that by (simp add: tcp_api_def)
qed (use fits_mono in blast)+

section \<open>Starting\<close>

text \<open>What starting needs of the system: a socket, and an address the library can parse; \<^verbatim>\<open>bind\<close> and \<^verbatim>\<open>listen\<close> may fail.\<close>

definition can_listen :: "(16 word \<Rightarrow> string \<Rightarrow> int \<times> byte list) \<Rightarrow> sock_env \<Rightarrow> string \<Rightarrow> bool" where
  "can_listen pton senv laddr \<longleftrightarrow> sys_socket senv > 0 \<and> make_nonblocking senv \<ge> 0 \<and> sys_fcntl senv \<noteq> -1 \<and>
     (\<exists>a. ParseFromIPPort_value pton laddr = Inr a)"

lemma server_starts:
  assumes "can_listen pton senv laddr"
  shows "\<exists>s l ch. ebind (TCPServer_Init pton senv sl (TCPServer_new laddr n policy)) (\<lambda>(_, s). TCPServer_Start s) = Inr (True, s) \<and>
    sv_status s = kRunning \<and> tpool s = Some (started_pool (Pool_new n [])) \<and> \<not> sv_stopped_cb s \<and> done_calls s = 0 \<and>
    sv_listener s = Some l \<and> new_conn_fn l \<and> ls_chan l = Some ch \<and> ch_event ch \<noteq> None \<and> \<not> attached ch \<and> events ch = kReadable \<and>
    sv_tasks s = [AttachListener] \<and> conns s = (\<lambda>_. None) \<and> connections s = [] \<and> unattached s = [] \<and> next_conn_id s = 0 \<and> listen_addr s = laddr"
  using assms
  by (auto simp: can_listen_def TCPServer_Init_def TCPServer_new_def Listener_Listen_def CreateNonblockingSocket_def Listener_new_def
      TCPServer_Start_def started_pool_def Listener_Accept_def FdChannel_new_def SetReadCallback_def Let_def kNone_def)

lemma listener_attached:
  assumes "ls_chan l = Some ch" "ch_event ch \<noteq> None" "\<not> attached ch" "events ch = kReadable" "libevent_ok env"
  shows "\<exists>ch'. listener_attach env l = Inr (l\<lparr>ls_chan := Some ch'\<rparr>) \<and> chan_sync ch' \<and> watched ch' \<noteq> None"
  using assms
  by (auto simp: listener_attach_def AttachToLoop_def libevent_ok_def event_assign_def IsNoneEvent_def chan_sync_def watched_def chan_consts)

definition just_started :: "string \<Rightarrow> 'c TCPServer \<Rightarrow> bool" where
  "just_started laddr s \<longleftrightarrow> listen_addr s = laddr \<and> sv_tasks s = [] \<and> conns s = (\<lambda>_. None) \<and> connections s = [] \<and> unattached s = [] \<and> next_conn_id s = 0 \<and>
     (\<exists>l. sv_listener s = Some l \<and> Option.bind (ls_chan l) watched \<noteq> None)"

lemma server_life_start:
  fixes api :: "('c, 'e) conn_api"
  assumes "can_listen pton senv laddr" "libevent_ok env" "0 < n" "N < 2 ^ 64"
  shows "\<exists>s. server_life api pton senv sl env laddr n policy (RunServerTask # es) = server_run api env es s \<and> server_up s \<and>
    conns_ok api fresh live N s \<and> just_started laddr s"
proof -
  obtain s :: "'c TCPServer" and l ch where s: "ebind (TCPServer_Init pton senv sl (TCPServer_new laddr n policy)) (\<lambda>(_, s). TCPServer_Start s) = Inr (True, s)"
    "sv_status s = kRunning" "tpool s = Some (started_pool (Pool_new n []))" "\<not> sv_stopped_cb s" "done_calls s = 0"
    "sv_listener s = Some l" "new_conn_fn l" "ls_chan l = Some ch" "ch_event ch \<noteq> None" "\<not> attached ch" "events ch = kReadable"
    "sv_tasks s = [AttachListener]" "conns s = (\<lambda>_. None)" "connections s = []" "unattached s = []" "next_conn_id s = 0" "listen_addr s = laddr"
    using server_starts [OF assms(1)] by blast
  obtain ch' where ch': "listener_attach env l = Inr (l\<lparr>ls_chan := Some ch'\<rparr>)" "chan_sync ch'" "watched ch' \<noteq> None"
    using listener_attached [OF s(8-11) assms(2)] by blast
  let ?s = "s\<lparr>sv_tasks := [], sv_listener := Some (l\<lparr>ls_chan := Some ch'\<rparr>)\<rparr>"
  have "server_life api pton senv sl env laddr n policy (RunServerTask # es) = server_run api env es ?s"
    using s(1,6,12) ch'(1)
    by (auto simp: server_life_def server_step_def Let_def ebind_Inr_iff split: prod.splits)
  moreover have "server_up ?s"
    using s assms(3) ch'(2) by (simp add: server_up_def pool_ready_def started_pool_def Pool_new_def)
  moreover have "conns_ok api fresh live N ?s" using s assms(4) by (simp add: conns_ok_def conn_ok_def)
  moreover have "just_started laddr ?s" using s ch'(3) by (simp add: just_started_def)
  ultimately show ?thesis by blast
qed

lemma server_life_started:
  assumes "can_listen pton senv laddr" "libevent_ok env" "0 < n"
  shows "\<exists>s. server_life api pton senv sl env laddr n policy (RunServerTask # es) = server_run api env es s \<and> server_up s \<and>
    just_started laddr s"
  using server_life_start [OF assms, where N = 0 and api = api and es = es and sl = sl and policy = policy and
      fresh = "\<lambda>_ _. True" and live = "\<lambda>_ _. True"] by auto

section \<open>Properties\<close>

text \<open>What the properties assume: libevent works, the application is civil, the socket can be made, there is at least
  one worker, and \<open>N\<close> events together fill neither the address space nor the numbers of connections.\<close>

definition server_admissible ::
  "loop_env \<Rightarrow> nat \<Rightarrow> nat \<Rightarrow> (callback \<Rightarrow> TCPConn \<Rightarrow> api_call list) \<Rightarrow> (16 word \<Rightarrow> string \<Rightarrow> int \<times> byte list) \<Rightarrow> sock_env \<Rightarrow>
    string \<Rightarrow> nat \<Rightarrow> nat \<Rightarrow> bool" where
  "server_admissible env m k prog pton senv laddr n N \<longleftrightarrow> libevent_ok env \<and> civil m prog \<and> can_listen pton senv laddr \<and> 0 < n \<and>
     16 + 3 * (N * max m k) < 2 ^ 63 \<and> N < 2 ^ 64"

abbreviation tcp_server :: "loop_env \<Rightarrow> (callback \<Rightarrow> TCPConn \<Rightarrow> api_call list) \<Rightarrow> (64 word \<Rightarrow> (int + nat) list) \<Rightarrow>
    (TCPConn, conn_event) conn_api" where
  "tcp_server env prog answers \<equiv> tcp_api (user_at env prog (Suc (Suc 0))) env answers"

text \<open>The connections and \<^verbatim>\<open>connections_\<close> agree: a connection is in the map until its removal has run, which is
  queued as soon as it closes.\<close>

definition map_exact :: "TCPConn TCPServer \<Rightarrow> bool" where
  "map_exact s \<longleftrightarrow> (\<forall>i. i \<in> set (connections s) \<longleftrightarrow>
     (\<exists>c. conns s i = Some c \<and> (CloseFn \<notin> set (calls c) \<or> RemoveConn i \<in> set (sv_tasks s))))"

lemma ok_map_exact:
  assumes "conns_ok (tcp_server env prog answers) fresh live n s"
  shows "map_exact s"
  unfolding map_exact_def
proof
  fix i
  have "conn_ok (tcp_server env prog answers) fresh live n s i" using assms by (simp add: conns_ok_def)
  then show "i \<in> set (connections s) \<longleftrightarrow>
     (\<exists>c. conns s i = Some c \<and> (CloseFn \<notin> set (calls c) \<or> RemoveConn i \<in> set (sv_tasks s)))"
    by (auto simp: conn_ok_def tcp_api_def split: option.splits simp del: user_at.simps)
qed

text \<open>C8. A server with at least one worker thread never fails an assertion and never dereferences a null pointer while it runs, whatever is
  accepted and whatever happens on its connections, and its map holds exactly the connections that are not closed or whose removal is still
  queued to its loop.\<close>

theorem TCPServer_running:
  assumes "server_admissible env m k prog pton senv laddr n (length es)" "list_all (server_event_ok (event_ok m k)) es"
  shows "\<exists>s. server_life (tcp_server env prog answers) pton senv sl env laddr n policy (RunServerTask # es) = Inr s \<and>
    sv_status s = kRunning \<and> map_exact s"
proof -
  have a: "libevent_ok env" "civil m prog" "can_listen pton senv laddr" "0 < n" "16 + 3 * (length es * max m k) < 2 ^ 63"
    "length es < 2 ^ 64" using assms(1) by (simp_all add: server_admissible_def)
  note P = tcp_provider [OF a(1,2,5), of answers]
  obtain s where s: "server_life (tcp_server env prog answers) pton senv sl env laddr n policy (RunServerTask # es) =
      server_run (tcp_server env prog answers) env es s" "server_up s"
    "conns_ok (tcp_server env prog answers) (\<lambda>n c. conn_fresh c \<and> fits m k n c) (\<lambda>n c. conn_inv c \<and> fits m k n c) (length es) s"
    using server_life_start [OF a(3,1,4,6)] by blast
  from conn_provider.server_run_inv [OF P, of es 0 s False env] s(2,3) a(1) assms(2)
  obtain s' where s': "server_run (tcp_server env prog answers) env es s = Inr s'" "server_up s'"
    "conns_ok (tcp_server env prog answers) (\<lambda>n c. conn_fresh c \<and> fits m k n c) (\<lambda>n c. conn_inv c \<and> fits m k n c) 0 s'"
    by (auto simp: server_inv_def simp del: user_at.simps)
  show ?thesis using s(1) s' ok_map_exact [OF s'(3)] by (auto simp: server_up_def simp del: user_at.simps)
qed


section \<open>A server with an application\<close>

definition quiet_prog :: "callback \<Rightarrow> TCPConn \<Rightarrow> api_call list" where
  "quiet_prog f c = []"

lemma quiet_civil: "civil m quiet_prog"
  by (simp add: civil_def quiet_prog_def)

interpretation echo_server: conn_provider "tcp_server good_env echo_prog answers" "\<lambda>n c. conn_fresh c \<and> fits 100 5 n c"
  "\<lambda>n c. conn_inv c \<and> fits 100 5 n c" "event_ok 100 5" 1000
  for answers
  by (rule tcp_provider [OF good_env_ok echo_civil]) simp

definition sample_senv :: sock_env where
  "sample_senv = \<lparr>sys_socket = 3, make_nonblocking = 0, sys_fcntl = 0, sys_bind = (\<lambda>_. 0)\<rparr>"

definition sample_laddr :: string where
  "sample_laddr = ''0.0.0.0'' @ '':'' @ to_string 9099"

lemma sample_can_listen: "can_listen sample_pton sample_senv sample_laddr"
proof -
  have "SplitHostPort sample_laddr [] 0 = Inr (True, ''0.0.0.0'', 9099)"
    unfolding sample_laddr_def by (subst SplitHostPort_colon) (simp_all add: Let_def)
  then obtain ss where "ParseFromIPPort sample_pton sample_laddr = Inr (True, ss)"
    using ParseFromIPPort_ok [of sample_laddr "''0.0.0.0''" 9099 sample_pton 1 "''abcd''"] by (auto simp: sample_pton_def)
  then show ?thesis by (simp add: can_listen_def sample_senv_def ParseFromIPPort_value_def)
qed

lemma sample_admissible: "N \<le> 1000 \<Longrightarrow> server_admissible good_env 100 5 echo_prog sample_pton sample_senv sample_laddr 2 N"
  using mult_le_mono1 [of N 1000 100] by (simp add: server_admissible_def good_env_ok echo_civil sample_can_listen)

definition sample_accept :: accepted where
  "sample_accept = \<lparr>ac_fd = 7, ac_nonblocking = True, ac_remote = ''10.0.0.1:99'', ac_raddr = 42\<rparr>"

section \<open>One connection\<close>

text \<open>The server has accepted its first connection.\<close>

definition one_conn :: "bool \<Rightarrow> 'c \<Rightarrow> 'c TCPServer \<Rightarrow> bool" where
  "one_conn fresh c s \<longleftrightarrow> connections s = [1] \<and> conns s 1 = Some c \<and> unattached s = (if fresh then [1] else []) \<and> sv_tasks s = [] \<and>
     conn_loop s 1 \<noteq> None"

lemma first_accept:
  assumes "server_up s" "just_started laddr s" "in_loop_thread env" "ac_fd a > 0" "ac_nonblocking a" "ac_remote a \<noteq> []"
    "c_new api (ac_remote a) (ac_fd a) laddr (ac_remote a) 1 = Inr c"
  shows "\<exists>s1. server_step api env (Accept a) s = Inr s1 \<and> server_up s1 \<and> one_conn True c s1"
proof -
  obtain l p where l: "sv_listener s = Some l" "new_conn_fn l" "Option.bind (ls_chan l) watched \<noteq> None" "tpool s = Some p"
    "pl_status p = kRunning" "pushed p > 0" "sv_status s = kRunning"
    using assms(1,2) by (auto simp: server_up_def just_started_def pool_ready_def)
  show ?thesis
    using assms l
    by (cases "sv_policy s")
      (auto simp: server_step_def HandleAccept_def HandleNewConn_def TCPServer_GetNextLoop_def Pool_GetNextLoop_def
        GetNextLoopWithHash_def Let_def just_started_def one_conn_def server_up_def pool_ready_def)
qed

text \<open>A connection that is accepted, attached, and closed by the application.\<close>

lemma sample_conn_steps:
  "\<exists>c c1 c2 c3. c_new (tcp_server good_env quiet_prog (\<lambda>_. [])) ''10.0.0.1:99'' 7 sample_laddr ''10.0.0.1:99'' 1 = Inr c \<and>
    tc_status c = kDisconnected \<and> calls c = [] \<and>
    OnAttachedToLoop (user_at good_env quiet_prog (Suc (Suc 0))) good_env c = Inr c1 \<and> CloseFn \<notin> set (calls c1) \<and>
    conn_step (user_at good_env quiet_prog (Suc (Suc 0))) good_env (Call CloseIfOpen) c1 = Inr c2 \<and> CloseFn \<notin> set (calls c2) \<and>
    conn_step (user_at good_env quiet_prog (Suc (Suc 0))) good_env RunTask c2 = Inr c3 \<and> CloseFn \<in> set (calls c3)"
proof -
  have "unat kInitialSize + unat kCheapPrependSize < 2 ^ 63" by (simp add: kInitialSize_def kCheapPrependSize_def)
  then obtain b where b: "Buffer_new kInitialSize kCheapPrependSize = Inr b" using Buffer_new_inv by blast
  show ?thesis
    by (simp add: tcp_api_def TCPConn_new_def b FdChannel_new_def Fd_Channel.SetReadCallback_def Fd_Channel.SetWriteCallback_def
        SetCloseCallback_def SetConnectionCallback_def SetMessageCallback_def OnAttachedToLoop_def with_chan_def good_env_def
        EnableReadEvent_def set_events_def FdChannel_Update_def IsNoneEvent_def AttachToLoop_def event_assign_def invoke_def
        quiet_prog_def conn_step_def api_exec_def TCPConn_Close_def QueueTask_def run_task_def HandleClose_def DisableAllEvent_def
        DetachFromLoop_def FdChannel_Close_def chan_consts Let_def)
qed

lemma sample_accept_simps [simp]:
  "ac_fd sample_accept = 7" "ac_nonblocking sample_accept" "ac_remote sample_accept = ''10.0.0.1:99''"
  by (simp_all add: sample_accept_def)

text \<open>\<^verbatim>\<open>Stop\<close> does not close a connection that was accepted but is not attached to its loop yet, because it is not
  connected yet. The connection then comes up as usual, nothing will ever close it, and the server
  stays in the middle of stopping with an empty queue.\<close>

theorem Stop_misses_unattached:
  assumes "can_listen pton senv laddr" "libevent_ok env" "0 < n" "ac_fd a > 0" "ac_nonblocking a" "ac_remote a \<noteq> []"
    "c_new api (ac_remote a) (ac_fd a) laddr (ac_remote a) 1 = Inr c" "\<not> c_connected api c" "\<not> c_closed api c"
    "c_attach api c = Inr c'" "\<not> c_closed api c'"
  shows "\<exists>s. server_life api pton senv sl env laddr n policy [RunServerTask, Accept a, StopServer cb True, AttachConn 1] = Inr s \<and>
    sv_status s = kStopping \<and> one_conn False c' s \<and> done_calls s = 0"
proof -
  obtain s where s: "server_life api pton senv sl env laddr n policy [RunServerTask, Accept a, StopServer cb True, AttachConn 1] =
      server_run api env [Accept a, StopServer cb True, AttachConn 1] s" "server_up s" "just_started laddr s"
    using server_life_started [OF assms(1-3)] by blast
  have in_loop: "in_loop_thread env" using assms(2) by (simp add: libevent_ok_def)
  obtain s1 where s1: "server_step api env (Accept a) s = Inr s1" "server_up s1" "one_conn True c s1"
    using first_accept [OF s(2,3) in_loop assms(4-6) assms(7)] by blast
  obtain l ch where l: "sv_listener s1 = Some l" "ls_chan l = Some ch" "chan_sync ch" using s1(2) by (auto simp: server_up_def)
  obtain l1 where l1: "Listener_Stop env l = Inr l1" "Listener_delete l1 (sv_fds s1) = Inr (remove1 (ls_fd l) (sv_fds s1))"
    using Listener_Stop_ok [OF l(2,3) assms(2)] by blast
  show ?thesis
    using s(1) s1 l(1) l1 in_loop assms(8-11)
    by (auto simp: server_step_def TCPServer_Stop_def TCPServer_StopInLoop_def close_connected_def conn_does_def Let_def one_conn_def
        server_up_def)
qed

theorem Stop_misses_unattached_witness:
  "\<exists>s c. server_life (tcp_server good_env quiet_prog (\<lambda>_. [])) sample_pton sample_senv 0 good_env sample_laddr 2 kRoundRobin
      [RunServerTask, Accept sample_accept, StopServer True True, AttachConn 1] = Inr s \<and>
    sv_status s = kStopping \<and> one_conn False c s \<and> done_calls s = 0 \<and> CloseFn \<notin> set (calls c)"
proof -
  obtain c c1 where c: "c_new (tcp_server good_env quiet_prog (\<lambda>_. [])) ''10.0.0.1:99'' 7 sample_laddr ''10.0.0.1:99'' 1 = Inr c"
    "tc_status c = kDisconnected" "calls c = []" "OnAttachedToLoop (user_at good_env quiet_prog (Suc (Suc 0))) good_env c = Inr c1"
    "CloseFn \<notin> set (calls c1)" using sample_conn_steps by auto
  have "\<exists>s. server_life (tcp_server good_env quiet_prog (\<lambda>_. [])) sample_pton sample_senv 0 good_env sample_laddr 2 kRoundRobin
      [RunServerTask, Accept sample_accept, StopServer True True, AttachConn 1] = Inr s \<and>
    sv_status s = kStopping \<and> one_conn False c1 s \<and> done_calls s = 0"
    by (rule Stop_misses_unattached [OF sample_can_listen good_env_ok, where c = c])
      (use c in \<open>simp_all add: tcp_api_def del: user_at.simps\<close>)
  then show ?thesis using c(5) by blast
qed

text \<open>\<^verbatim>\<open>Stop\<close> called in another thread, while the removal of the last connection waits in the queue of the listening
  loop, aborts the process: the removal finds the server stopping without connections and stops it
  for good, then the queued \<^verbatim>\<open>StopInLoop\<close> stops the thread pool again and fails its assertion.\<close>

theorem Stop_races_with_removal:
  assumes "can_listen pton senv laddr" "libevent_ok env" "0 < n" "ac_fd a > 0" "ac_nonblocking a" "ac_remote a \<noteq> []"
    "c_new api (ac_remote a) (ac_fd a) laddr (ac_remote a) 1 = Inr c" "\<not> c_closed api c"
    "c_attach api c = Inr c1" "\<not> c_closed api c1" "c_event api e1 c1 = Inr c2" "\<not> c_closed api c2"
    "c_event api e2 c2 = Inr c3" "c_closed api c3"
  shows "server_life api pton senv sl env laddr n policy [RunServerTask, Accept a, AttachConn 1, ConnEvent 1 e1, ConnEvent 1 e2,
    StopServer cb False, RunServerTask, RunServerTask] = Inl AssertFail"
proof -
  let ?es = "[AttachConn 1, ConnEvent 1 e1, ConnEvent 1 e2, StopServer cb False, RunServerTask, RunServerTask]"
  obtain s where s: "server_life api pton senv sl env laddr n policy (RunServerTask # Accept a # ?es) =
      server_run api env (Accept a # ?es) s" "server_up s" "just_started laddr s"
    using server_life_started [OF assms(1-3)] by blast
  have in_loop: "in_loop_thread env" using assms(2) by (simp add: libevent_ok_def)
  obtain s1 where s1: "server_step api env (Accept a) s = Inr s1" "server_up s1" "one_conn True c s1"
    using first_accept [OF s(2,3) in_loop assms(4-6) assms(7)] by blast
  obtain l ch p where l: "sv_listener s1 = Some l" "ls_chan l = Some ch" "chan_sync ch" "tpool s1 = Some p" "sv_status s1 = kRunning"
    using s1(2) by (auto simp: server_up_def pool_ready_def)
  obtain l1 where l1: "Listener_Stop env l = Inr l1" "Listener_delete l1 (sv_fds s1) = Inr (remove1 (ls_fd l) (sv_fds s1))"
    using Listener_Stop_ok [OF l(2,3) assms(2)] by blast
  have "server_run api env ?es s1 = Inl AssertFail"
    using s1(3) l(1,4,5) l1 in_loop assms(8-14)
    by (auto simp: server_step_def TCPServer_Stop_def TCPServer_StopInLoop_def conn_does_def RemoveConnection_def remove_in_loop_def
        StopThreadPool_def stopped_pool_def Let_def one_conn_def)
  then show ?thesis using s(1) s1(1) by simp
qed

theorem Stop_races_with_removal_witness:
  "server_life (tcp_server good_env quiet_prog (\<lambda>_. [])) sample_pton sample_senv 0 good_env sample_laddr 2 kRoundRobin
    [RunServerTask, Accept sample_accept, AttachConn 1, ConnEvent 1 (Call CloseIfOpen), ConnEvent 1 RunTask, StopServer True False,
     RunServerTask, RunServerTask] = Inl AssertFail"
proof -
  obtain c c1 c2 c3 where c: "c_new (tcp_server good_env quiet_prog (\<lambda>_. [])) ''10.0.0.1:99'' 7 sample_laddr ''10.0.0.1:99'' 1 = Inr c"
    "calls c = []" "OnAttachedToLoop (user_at good_env quiet_prog (Suc (Suc 0))) good_env c = Inr c1"
    "CloseFn \<notin> set (calls c1)" "conn_step (user_at good_env quiet_prog (Suc (Suc 0))) good_env (Call CloseIfOpen) c1 = Inr c2"
    "CloseFn \<notin> set (calls c2)" "conn_step (user_at good_env quiet_prog (Suc (Suc 0))) good_env RunTask c2 = Inr c3"
    "CloseFn \<in> set (calls c3)" using sample_conn_steps by auto
  show ?thesis
    by (rule Stop_races_with_removal [OF sample_can_listen good_env_ok, where c = c and ?c1.0 = c1 and ?c2.0 = c2 and ?c3.0 = c3])
      (use c in \<open>simp_all add: tcp_api_def del: user_at.simps\<close>)
qed

text \<open>\<^verbatim>\<open>Init\<close> ignores the result of \<^verbatim>\<open>Listen\<close>: when \<^verbatim>\<open>bind\<close> fails, because the port is in use, \<^verbatim>\<open>Init\<close> and \<^verbatim>\<open>Start\<close> nevertheless
  return true, although \<^verbatim>\<open>Init\<close> is documented to return false if anything is wrong.\<close>

theorem Init_ignores_failure:
  assumes "can_listen pton senv laddr" "\<And>addr. sys_bind senv addr < 0"
  shows "\<exists>l fds s s1. Listener_Listen pton senv sl (Listener_new laddr) [] = Inr (False, l, fds) \<and>
    TCPServer_Init pton senv sl (TCPServer_new laddr n policy :: TCPConn TCPServer) = Inr (True, s) \<and> TCPServer_Start s = Inr (True, s1)"
proof -
  obtain addr where a: "ParseFromIPPort_value pton laddr = Inr addr" using assms(1) by (auto simp: can_listen_def)
  have "\<exists>l fds. Listener_Listen pton senv sl (Listener_new laddr) [] = Inr (False, l, fds)"
    using assms a by (simp add: can_listen_def Listener_Listen_def CreateNonblockingSocket_def Listener_new_def Let_def)
  moreover have "\<exists>s s1. TCPServer_Init pton senv sl (TCPServer_new laddr n policy :: TCPConn TCPServer) = Inr (True, s) \<and>
      TCPServer_Start s = Inr (True, s1)"
    using assms a
    by (simp add: can_listen_def TCPServer_Init_def TCPServer_new_def Listener_Listen_def CreateNonblockingSocket_def Listener_new_def
      TCPServer_Start_def started_pool_def Listener_Accept_def FdChannel_new_def Let_def)
  ultimately show ?thesis by blast
qed

theorem Init_ignores_failure_witness:
  "\<exists>l fds s s1. Listener_Listen sample_pton (sample_senv\<lparr>sys_bind := (\<lambda>_. -1)\<rparr>) 0 (Listener_new sample_laddr) [] = Inr (False, l, fds) \<and>
    TCPServer_Init sample_pton (sample_senv\<lparr>sys_bind := (\<lambda>_. -1)\<rparr>) 0 (TCPServer_new sample_laddr 2 kRoundRobin :: TCPConn TCPServer) =
      Inr (True, s) \<and> TCPServer_Start s = Inr (True, s1)"
  by (rule Init_ignores_failure) (use sample_can_listen in \<open>simp_all add: can_listen_def\<close>)

text \<open>Without worker threads a connection that closes while it is being attached is removed from the map
  before it is put into it, and stays there.\<close>

lemma connection_leaks_without_workers:
  assumes "sv_status s = kRunning" "tpool s = Some p" "pushed p = 0" "i = next_conn_id s + 1"
    "c_new api remote sockfd (listen_addr s) remote i = Inr c" "\<not> c_closed api c" "c_attach api c = Inr c1" "c_closed api c1"
  shows "\<exists>s'. HandleNewConn api sockfd remote raddr s = Inr s' \<and> i \<in> set (connections s') \<and> conns s' i = Some c1 \<and>
    sv_tasks s' = sv_tasks s \<and> unattached s' = unattached s"
  using assms
  by (cases "sv_policy s")
    (auto simp: HandleNewConn_def TCPServer_GetNextLoop_def Pool_GetNextLoop_def GetNextLoopWithHash_def conn_does_def
      RemoveConnection_def remove_in_loop_def Let_def)

text \<open>The positive properties at work.\<close>

theorem TCPServer_running_witness:
  "\<exists>s. server_life (tcp_server good_env echo_prog (\<lambda>_. [Inr 3])) sample_pton sample_senv 0 good_env sample_laddr 2 kRoundRobin
      [RunServerTask, Accept sample_accept, AttachConn 1, ConnEvent 1 (Ready kReadable hello_readv), Accept sample_accept] = Inr s \<and>
    sv_status s = kRunning \<and> map_exact s"
  by (rule TCPServer_running [OF sample_admissible]) simp_all


end
