(* ===== verification/Http_Response.thy ===== *)
theory Http_Response
  imports Http_Request Sockets Tcp_Conn_Props
begin

text \<open>
  \<^verbatim>\<open>evpphttp::HttpResponse\<close> (include/eventpp/evpphttp/http_response.hpp, src/evpphttp/http_response.cpp): the
  answer to a request is printed into a buffer and sent over the connection, with a Content-Length, in one chunk,
  or up to the end of the connection. The clock, as \<^verbatim>\<open>strftime\<close> prints it, is a parameter: \<open>None\<close> when it
  prints nothing. A \<^verbatim>\<open>std::map\<close> of header fields is the list of its entries in the order of iteration.
\<close>

section \<open>Printing\<close>

type_synonym header_fields = "(string \<times> string) list"

abbreviation CRLF :: string where "CRLF \<equiv> [CR, LF]"

text \<open>\<^verbatim>\<open>%d\<close> and \<^verbatim>\<open>%x\<close>, and \<^verbatim>\<open>snprintf\<close> into an array of \<open>n\<close> bytes, which keeps the last one for the terminating zero.\<close>

definition print_int :: "int \<Rightarrow> string" where
  "print_int i = (if i < 0 then CHR ''-'' # to_string (nat (- i)) else to_string (nat i))"

definition hex_char :: "nat \<Rightarrow> char" where
  "hex_char n = (if n < 10 then char_of (48 + n) else char_of (87 + n))"

fun to_hex :: "nat \<Rightarrow> string" where
  "to_hex n = (if n < 16 then [hex_char n] else to_hex (n div 16) @ [hex_char (n mod 16)])"

definition snprintf :: "nat \<Rightarrow> string \<Rightarrow> string" where
  "snprintf n s = take (n - 1) s"

definition http_status_code :: "(int \<times> string) list" where
  "http_status_code = [
     (100, ''Continue''), (101, ''Switching Protocols''), (200, ''OK''), (201, ''Created''), (202, ''Accepted''),
     (203, ''Non-Authoritative Information''), (204, ''No Content''), (205, ''Reset Content''),
     (206, ''Partial Content''), (300, ''Multiple Choices''), (301, ''Moved Permanently''), (302, ''Found''),
     (303, ''See Other''), (304, ''Not Modified''), (305, ''Use Proxy''), (307, ''Temporary Redirect''),
     (400, ''Bad Request''), (401, ''Unauthorized''), (402, ''Payment Required''), (403, ''Forbidden''),
     (404, ''Not Found''), (405, ''Method Not Allowed''), (406, ''Not Acceptable''),
     (407, ''Proxy Authentication Required''), (408, ''Request Time-out''), (409, ''Conflict''), (410, ''Gone''),
     (411, ''Length Required''), (412, ''Precondition Failed''), (413, ''Request Entity Too Large''),
     (414, ''Request-URI Too Large''), (415, ''Unsupported Media Type''),
     (416, ''Requested range not satisfiable''), (417, ''Expectation Failed''), (500, ''Internal Server Error''),
     (501, ''Not Implemented''), (502, ''Bad Gateway''), (503, ''Service Unavailable''), (504, ''Gateway Time-out''),
     (505, ''HTTP Version not supported''), (808, ''UnKnown'')]"

text \<open>\<^verbatim>\<open>find(response_code)\<close>, or the entry 808 when there is none.\<close>

definition find_status :: "int \<Rightarrow> int \<times> string" where
  "find_status code =
     (case map_of http_status_code code of
        Some reason \<Rightarrow> (code, reason)
      | None \<Rightarrow> (808, the (map_of http_status_code 808)))"

section \<open>The response\<close>

record HttpResponse =
  rs_close :: bool
  rs_keep_alive :: bool
  rs_chunked :: bool
  rs_hp :: http_parser

text \<open>The macro \<^verbatim>\<open>is_connection_xx(name, key)\<close> compares with the spelling of the tokens of \<open>key\<close>.\<close>

definition is_connection :: "string \<Rightarrow> (string \<rightharpoonup> string) \<Rightarrow> bool" where
  "is_connection key field_value =
     (case field_value ''Connection'' of
        None \<Rightarrow> False
      | Some v \<Rightarrow> map tolower_char v = key)"

definition is_connection_close :: "(string \<rightharpoonup> string) \<Rightarrow> bool" where
  "is_connection_close = is_connection ''close''"

definition is_connection_keep_alive :: "(string \<rightharpoonup> string) \<Rightarrow> bool" where
  "is_connection_keep_alive = is_connection ''keep - alive''"

definition HttpResponse_new :: "http_request \<Rightarrow> HttpResponse" where
  "HttpResponse_new hr =
     (let hp = hr_parser hr;
          hp1 = (if http_major hp > 9 \<or> http_minor hp > 9 then hp\<lparr>http_major := 1, http_minor := 1\<rparr> else hp) in
      \<lparr>rs_close = is_connection_close (hr_field_value hr),
       rs_keep_alive = is_connection_keep_alive (hr_field_value hr), rs_chunked = False, rs_hp = hp1\<rparr>)"

definition need_body :: "int \<Rightarrow> bool" where
  "need_body code \<longleftrightarrow> code \<noteq> 204 \<and> code \<noteq> 304 \<and> (code < 100 \<or> code \<ge> 200)"

definition add_content_len :: "int \<Rightarrow> buffer \<Rightarrow> buffer result" where
  "add_content_len sz buf = Buffer_Append (snprintf 42 (''Content-Length:'' @ print_int sz @ CRLF)) buf"

definition add_date :: "string option \<Rightarrow> buffer \<Rightarrow> buffer result" where
  "add_date date buf = (case date of None \<Rightarrow> Inr buf | Some d \<Rightarrow> Buffer_Append d buf)"

definition append_status :: "HttpResponse \<Rightarrow> int \<times> string \<Rightarrow> buffer \<Rightarrow> buffer result" where
  "append_status resp status buf =
     ebind (Buffer_Append (snprintf 16 (''HTTP/'' @ print_int (uint (http_major (rs_hp resp))) @ ''.'' @
        print_int (uint (http_minor (rs_hp resp))) @ '' '' @ print_int (fst status) @ '' '')) buf)
       (Buffer_Append (snd status))"

fun append_fields :: "header_fields \<Rightarrow> buffer \<Rightarrow> buffer result" where
  "append_fields [] buf = Inr buf"
| "append_fields ((k, v) # fs) buf =
     ebind (Buffer_Append k buf) (\<lambda>b1. ebind (Buffer_Append '':'' b1) (\<lambda>b2.
     ebind (Buffer_Append v b2) (\<lambda>b3. ebind (Buffer_Append CRLF b3) (append_fields fs))))"

text \<open>The part of \<^verbatim>\<open>MakeHttpResponse\<close> for HTTP/1.x: the date, and how the body ends.\<close>

definition append_framing ::
  "string option \<Rightarrow> int \<Rightarrow> header_fields \<Rightarrow> HttpResponse \<Rightarrow> buffer \<Rightarrow> (HttpResponse \<times> buffer) result" where
  "append_framing date body_size hdrs resp buf =
     ebind (if http_minor (rs_hp resp) \<ge> 1 \<and> map_of hdrs ''Date'' = None then add_date date buf else Inr buf) (\<lambda>b1.
     let resp1 = (if map_of hdrs ''Transfer-Encoding'' = Some ''chunked'' then resp\<lparr>rs_chunked := True\<rparr> else resp) in
     if rs_close resp1 \<or> http_minor (rs_hp resp1) = 0 \<and> \<not> rs_keep_alive resp1
     then ebind (Buffer_Append (''Connection:close'' @ CRLF) b1) (\<lambda>b2. Inr (resp1\<lparr>rs_close := True\<rparr>, b2))
     else if \<not> rs_chunked resp1 then ebind (add_content_len body_size b1) (\<lambda>b2. Inr (resp1, b2))
     else Inr (resp1, b1))"

definition MakeHttpResponse ::
  "string option \<Rightarrow> int \<Rightarrow> int \<Rightarrow> header_fields \<Rightarrow> HttpResponse \<Rightarrow> buffer \<Rightarrow> (HttpResponse \<times> buffer) result" where
  "MakeHttpResponse date code body_size hdrs resp buf =
     ebind (append_status resp (find_status code) buf) (\<lambda>b1.
     ebind (Buffer_Append CRLF b1) (\<lambda>b2.
     if code = 400 then ebind (Buffer_Append CRLF b2) (\<lambda>b3. Inr (resp\<lparr>rs_close := True\<rparr>, b3))
     else
       ebind (if http_major (rs_hp resp) = 1 then append_framing date body_size hdrs resp b2 else Inr (resp, b2)) (\<lambda>(resp1, b3).
       ebind (if need_body code \<and> map_of hdrs ''Content-Type'' = None
              then Buffer_Append (''Content-Type:text/html; charset=ISO-8859-1'' @ CRLF) b3 else Inr b3) (\<lambda>b4.
       ebind (append_fields hdrs b4) (\<lambda>b5.
       ebind (Buffer_Append CRLF b5) (\<lambda>b6. Inr (resp1, b6)))))))"

definition SendContinue :: "user_code \<Rightarrow> loop_env \<Rightarrow> HttpResponse \<Rightarrow> TCPConn \<Rightarrow> TCPConn result" where
  "SendContinue user env resp c =
     ebind (Buffer_new kInitialSize kCheapPrependSize) (\<lambda>buf.
     ebind (append_status resp (100, the (map_of http_status_code 100)) buf) (\<lambda>b1.
     ebind (Buffer_Append (CRLF @ CRLF) b1) (\<lambda>b2.
     ebind (Send_buffer user env b2 c) (\<lambda>(_, c1). Inr c1))))"

text \<open>The body after the head. \<^verbatim>\<open>int(size)\<close> printed by \<^verbatim>\<open>%x\<close> is the size modulo $2^{32}$.\<close>

definition send_body :: "user_code \<Rightarrow> loop_env \<Rightarrow> bool \<Rightarrow> string \<Rightarrow> TCPConn \<Rightarrow> TCPConn result" where
  "send_body user env chunk body c =
     (if length body > 0 then
        ebind (if chunk then Send_data user env (snprintf 32 (to_hex (length body mod 2 ^ 32) @ CRLF)) c else Inr c) (\<lambda>c1.
        ebind (Send_string user env body c1) (\<lambda>c2.
        if chunk then Send_data user env CRLF c2 else Inr c2))
      else Inr c)"

definition SendReply ::
  "user_code \<Rightarrow> loop_env \<Rightarrow> string option \<Rightarrow> int \<Rightarrow> header_fields \<Rightarrow> string \<Rightarrow> HttpResponse \<times> TCPConn \<Rightarrow>
   (HttpResponse \<times> TCPConn) result" where
  "SendReply user env date code hdrs body = (\<lambda>(resp, c).
     if tc_status c \<noteq> kConnected then Inr (resp, c)
     else if code = 100 then ebind (SendContinue user env resp c) (\<lambda>c1. Inr (resp, c1))
     else
       ebind (Buffer_new kInitialSize kCheapPrependSize) (\<lambda>buf.
       ebind (MakeHttpResponse date code (int (length body)) hdrs resp buf) (\<lambda>(resp1, b1).
       ebind (Send_buffer user env b1 c) (\<lambda>(_, c1).
       ebind (send_body user env (rs_chunked resp1) body c1) (\<lambda>c2.
       ebind (if rs_chunked resp1 then Send_data user env (''0'' @ CRLF @ CRLF) c2 else Inr c2) (\<lambda>c3.
         Inr (resp1, if rs_close resp1 then TCPConn_Close c3 else c3)))))))"

end
