(* ===== verification/Http_Response_Props.thy ===== *)
theory Http_Response_Props
  imports Http_Response
begin

text \<open>
  What a reply puts on the connection: the status line, the header fields, and a body whose end the client can find.
\<close>

section \<open>Sending in pieces\<close>

text \<open>\<open>ready n c\<close>: the connection is up and has room for \<open>n\<close> more bytes, or it has ended. \<open>sent d c c'\<close>: after
  sending \<open>d\<close> it has accepted these bytes, or it has ended.\<close>

definition ready :: "nat \<Rightarrow> TCPConn \<Rightarrow> bool" where
  "ready n c \<longleftrightarrow> conn_gone c \<or> conn_open c \<and> tc_status c = kConnected \<and> room n c"

definition sent :: "byte list \<Rightarrow> TCPConn \<Rightarrow> TCPConn \<Rightarrow> bool" where
  "sent d c c' \<longleftrightarrow> conn_gone c' \<or> conn_open c' \<and> tc_status c' = kConnected \<and> accepted c' = accepted c @ d \<and>
     length (out_bytes c') \<le> length (out_bytes c) + length d"

lemma sent_trans: "sent d c c1 \<Longrightarrow> conn_gone c1 \<longrightarrow> conn_gone c2 \<Longrightarrow> sent e c1 c2 \<Longrightarrow> sent (d @ e) c c2"
  by (auto simp: sent_def)

lemma sent_nil: "ready n c \<Longrightarrow> sent [] c c"
  by (auto simp: sent_def ready_def)

lemma ready_sent: "ready (length d + n) c \<Longrightarrow> sent d c c' \<Longrightarrow> conn_gone c \<longrightarrow> conn_gone c' \<Longrightarrow> ready n c'"
  by (auto simp: ready_def sent_def room_def)

lemma queue_rest_accepted:
  "queue_rest env d c = Inr c' \<Longrightarrow> accepted c' = accepted c \<and> tc_status c' = tc_status c"
  by (auto simp: queue_rest_def Let_def with_chan_def QueueTask_def ebind_Inr_iff split: if_splits option.splits)

lemma HandleError_status: "HandleError user env c = Inr c' \<Longrightarrow> tc_status c' = kDisconnected"
  by (auto simp: HandleError_def HandleClose_def Let_def ebind_Inr_iff split: if_splits)

lemma sys_send_fields: "sys_send d c = (r, c1) \<Longrightarrow> accepted c1 = accepted c \<and> tc_status c1 = tc_status c"
  by (auto simp: sys_send_def split: list.splits sum.splits)

lemma SendInLoop_accepted:
  assumes "SendInLoop user env d c = Inr c'" "tc_status c' \<noteq> kDisconnected"
  shows "accepted c' = accepted c @ d \<and> tc_status c' = tc_status c"
  using assms HandleError_status sys_send_fields
  by (fastforce simp: SendInLoop_def Let_def with_chan_def ebind_Inr_iff QueueTask_def dest!: queue_rest_accepted
      split: if_splits option.splits sum.splits prod.splits)

context closing_user begin

lemma SendInLoop_sent:
  assumes "ready (length d) c"
  shows "\<exists>c'. SendInLoop user env d c = Inr c' \<and> sent d c c' \<and> (conn_gone c \<longrightarrow> conn_gone c')"
proof (cases "conn_gone c")
  case True
  then show ?thesis by (simp add: SendInLoop_def sent_def conn_gone_def)
next
  case False
  then have o: "conn_open c" "room (length d) c" "tc_status c = kConnected" using assms by (auto simp: ready_def)
  obtain c' where c': "SendInLoop user env d c = Inr c'" "kept (length d) c c'" using SendInLoop_open [OF o(1,2)] by blast
  have "conn_open c' \<longrightarrow> tc_status c' \<noteq> kDisconnected" by (auto simp: conn_open_def conn_owing_def)
  then show ?thesis using c' SendInLoop_accepted [OF c'(1)] False o by (auto simp: sent_def kept_def conn_inv_def)
qed

lemma Send_data_sent:
  "ready (length d) c \<Longrightarrow> \<exists>c'. Send_data user env d c = Inr c' \<and> sent d c c' \<and> (conn_gone c \<longrightarrow> conn_gone c')"
  using SendInLoop_sent by (simp add: Send_data_def)

lemma Send_string_sent:
  assumes "ready (length d) c"
  shows "\<exists>c'. Send_string user env d c = Inr c' \<and> sent d c c' \<and> (conn_gone c \<longrightarrow> conn_gone c')"
proof (cases "tc_status c = kConnected")
  case True
  then show ?thesis using SendInLoop_sent [OF assms] by (simp add: Send_string_def)
next
  case False
  then have "conn_gone c" using assms by (auto simp: ready_def)
  then show ?thesis using False by (simp add: Send_string_def sent_def)
qed

lemma Send_buffer_sent:
  assumes "ready (length (contents b)) c" "buf_inv b"
  shows "\<exists>b' c'. Send_buffer user env b c = Inr (b', c') \<and> sent (contents b) c c' \<and> (conn_gone c \<longrightarrow> conn_gone c') \<and>
    (tc_status c = kConnected \<longrightarrow> SendInLoop user env (contents b) c = Inr c')"
proof (cases "tc_status c = kConnected")
  case True
  then show ?thesis using SendInLoop_sent [OF assms(1)] Buffer_ToSlice_inv [OF assms(2)] by (auto simp: Send_buffer_def)
next
  case False
  then have "conn_gone c" using assms by (auto simp: ready_def)
  then show ?thesis using False by (simp add: Send_buffer_def sent_def)
qed

end

section \<open>Printing into a buffer\<close>

text \<open>\<open>holds N b xs\<close>: the buffer \<open>b\<close> contains \<open>xs\<close> and may grow to \<open>N\<close> bytes.\<close>

definition holds :: "nat \<Rightarrow> buffer \<Rightarrow> byte list \<Rightarrow> bool" where
  "holds N b xs \<longleftrightarrow> buf_inv b \<and> buf_reserved b = kCheapPrependSize \<and> contents b = xs \<and> 16 + 3 * N < 2 ^ 63"

lemma holds_new: "16 + 3 * N < 2 ^ 63 \<Longrightarrow> \<exists>b. Buffer_new kInitialSize kCheapPrependSize = Inr b \<and> holds N b []"
  using Buffer_new_inv [of kInitialSize kCheapPrependSize] by (auto simp: holds_def kInitialSize_def kCheapPrependSize_def)

lemma holds_append:
  assumes "holds N b xs" "length (xs @ ys) \<le> N"
  shows "\<exists>b'. Buffer_Append ys b = Inr b' \<and> holds N b' (xs @ ys)"
proof -
  have "can_grow b (length ys)" using assms by (auto simp: holds_def can_grow_def kCheapPrependSize_def)
  from Buffer_Write_inv [OF _ this] show ?thesis using assms(1) by (auto simp: holds_def Buffer_Append_def)
qed

definition printed :: "nat \<Rightarrow> (buffer \<Rightarrow> buffer result) \<Rightarrow> byte list \<Rightarrow> bool" where
  "printed N f ys \<longleftrightarrow> (\<forall>b xs. holds N b xs \<longrightarrow> length (xs @ ys) \<le> N \<longrightarrow> (\<exists>b'. f b = Inr b' \<and> holds N b' (xs @ ys)))"

lemma printedD: "printed N f ys \<Longrightarrow> holds N b xs \<Longrightarrow> length (xs @ ys) \<le> N \<Longrightarrow> \<exists>b'. f b = Inr b' \<and> holds N b' (xs @ ys)"
  by (auto simp: printed_def)

lemma printed_append [intro!, simp]: "printed N (Buffer_Append ys) ys"
  using holds_append by (auto simp: printed_def)

lemma printed_Inr [intro!, simp]: "printed N Inr []"
  by (auto simp: printed_def)

lemma printed_bind [intro]:
  assumes "printed N f ys" "printed N g zs"
  shows "printed N (\<lambda>b. ebind (f b) g) (ys @ zs)"
  unfolding printed_def
proof (intro allI impI)
  fix b xs assume b: "holds N b xs" "length (xs @ ys @ zs) \<le> N"
  then obtain b1 where b1: "f b = Inr b1" "holds N b1 (xs @ ys)" using printedD [OF assms(1), of b xs] by auto
  then show "\<exists>b'. ebind (f b) g = Inr b' \<and> holds N b' (xs @ ys @ zs)"
    using printedD [OF assms(2), of b1 "xs @ ys"] b(2) by auto
qed

lemma printed_if: "(c \<Longrightarrow> printed N f ys) \<Longrightarrow> (\<not> c \<Longrightarrow> printed N g zs) \<Longrightarrow> printed N (\<lambda>b. if c then f b else g b) (if c then ys else zs)"
  by simp

definition field_bytes :: "header_fields \<Rightarrow> byte list" where
  "field_bytes hdrs = concat (map (\<lambda>(k, v). k @ '':'' @ v @ CRLF) hdrs)"

lemma append_fields_printed: "printed N (append_fields hdrs) (field_bytes hdrs)"
proof (induction hdrs)
  case Nil
  then show ?case by (simp add: field_bytes_def flip: append_fields.simps(1)) (simp add: printed_def)
next
  case (Cons h hs)
  obtain k v where h: "h = (k, v)" by fastforce
  have "append_fields (h # hs) = (\<lambda>b. ebind (Buffer_Append k b) (\<lambda>b1. ebind (Buffer_Append '':'' b1) (\<lambda>b2.
     ebind (Buffer_Append v b2) (\<lambda>b3. ebind (Buffer_Append CRLF b3) (append_fields hs)))))"
    by (rule ext) (simp add: h)
  moreover have "printed N \<dots> (k @ '':'' @ v @ CRLF @ field_bytes hs)"
    by (intro printed_bind printed_append Cons.IH)
  ultimately show ?case by (simp add: field_bytes_def h)
qed

section \<open>Numbers\<close>

lemma length_to_string: "n < 10 ^ k \<Longrightarrow> 0 < k \<Longrightarrow> length (to_string n) \<le> k"
proof (induction k arbitrary: n)
  case (Suc k)
  show ?case
  proof (cases "n < 10")
    case True
    then show ?thesis by (simp add: to_string.simps)
  next
    case False
    then have "0 < k" "n div 10 < 10 ^ k" using Suc.prems by (cases k; simp; fail)+
    then show ?thesis using Suc.IH [of "n div 10"] False by (simp add: to_string.simps [of n])
  qed
qed simp

lemma length_print_int: "0 \<le> i \<Longrightarrow> i < 10 ^ k \<Longrightarrow> 0 < k \<Longrightarrow> length (print_int i) \<le> k"
  using length_to_string [of "nat i" k] by (simp add: print_int_def nat_less_iff)

lemma length_to_hex: "n < 16 ^ k \<Longrightarrow> 0 < k \<Longrightarrow> length (to_hex n) \<le> k"
proof (induction k arbitrary: n)
  case (Suc k)
  show ?case
  proof (cases "n < 16")
    case True
    then show ?thesis by simp
  next
    case False
    then have "0 < k" "n div 16 < 16 ^ k" using Suc.prems by (cases k; simp; fail)+
    then show ?thesis using Suc.IH [of "n div 16"] False by (simp add: to_hex.simps [of n])
  qed
qed simp

declare to_hex.simps [simp del]

section \<open>The bytes of a reply\<close>

definition small_version :: "HttpResponse \<Rightarrow> bool" where
  "small_version resp \<longleftrightarrow> http_major (rs_hp resp) \<le> 9 \<and> http_minor (rs_hp resp) \<le> 9"

lemma new_small_version: "small_version (HttpResponse_new hr)"
  by (auto simp: small_version_def HttpResponse_new_def Let_def)

definition status_bytes :: "HttpResponse \<Rightarrow> int \<times> string \<Rightarrow> byte list" where
  "status_bytes resp st = ''HTTP/'' @ print_int (uint (http_major (rs_hp resp))) @ ''.'' @
     print_int (uint (http_minor (rs_hp resp))) @ '' '' @ print_int (fst st) @ '' '' @ snd st"

text \<open>Whether the connection ends with the reply, and whether its body is a chunk.\<close>

definition closes :: "int \<Rightarrow> HttpResponse \<Rightarrow> bool" where
  "closes code resp \<longleftrightarrow> rs_close resp \<or> code = 400 \<or>
     http_major (rs_hp resp) = 1 \<and> http_minor (rs_hp resp) = 0 \<and> \<not> rs_keep_alive resp"

definition chunks :: "int \<Rightarrow> header_fields \<Rightarrow> HttpResponse \<Rightarrow> bool" where
  "chunks code hdrs resp \<longleftrightarrow> rs_chunked resp \<or>
     code \<noteq> 400 \<and> http_major (rs_hp resp) = 1 \<and> map_of hdrs ''Transfer-Encoding'' = Some ''chunked''"

definition framing_bytes :: "string option \<Rightarrow> int \<Rightarrow> nat \<Rightarrow> header_fields \<Rightarrow> HttpResponse \<Rightarrow> byte list" where
  "framing_bytes date code n hdrs resp =
     (if http_minor (rs_hp resp) \<ge> 1 \<and> map_of hdrs ''Date'' = None then case_option [] id date else []) @
     (if closes code resp then ''Connection:close'' @ CRLF
      else if chunks code hdrs resp then [] else ''Content-Length:'' @ to_string n @ CRLF)"

definition head_bytes :: "string option \<Rightarrow> int \<Rightarrow> nat \<Rightarrow> header_fields \<Rightarrow> HttpResponse \<Rightarrow> byte list" where
  "head_bytes date code n hdrs resp = status_bytes resp (find_status code) @ CRLF @
     (if code = 400 then []
      else (if http_major (rs_hp resp) = 1 then framing_bytes date code n hdrs resp else []) @
        (if need_body code \<and> map_of hdrs ''Content-Type'' = None
         then ''Content-Type:text/html; charset=ISO-8859-1'' @ CRLF else []) @ field_bytes hdrs) @ CRLF"

definition body_bytes :: "bool \<Rightarrow> byte list \<Rightarrow> byte list" where
  "body_bytes chunk body =
     (if chunk then (if body = [] then [] else to_hex (length body) @ CRLF @ body @ CRLF) @ ''0'' @ CRLF @ CRLF else body)"

lemma find_status_range: "100 \<le> fst (find_status code) \<and> fst (find_status code) < 10 ^ 3"
proof (cases "map_of http_status_code code")
  case (Some r)
  have "\<forall>i \<in> set (map fst http_status_code). 100 \<le> i \<and> i < 1000" unfolding http_status_code_def by simp
  moreover have "code \<in> set (map fst http_status_code)" using Some by (force dest: map_of_SomeD)
  ultimately show ?thesis using Some by (auto simp: find_status_def)
qed (simp add: find_status_def)

lemma append_status_printed:
  assumes "small_version resp" "100 \<le> fst st" "fst st < 10 ^ 3"
  shows "printed N (append_status resp st) (status_bytes resp st)"
proof -
  have v: "uint (http_major (rs_hp resp)) < 10 ^ 1" "uint (http_minor (rs_hp resp)) < 10 ^ 1"
    using assms(1) by (auto simp: small_version_def word_le_def)
  let ?l = "''HTTP/'' @ print_int (uint (http_major (rs_hp resp))) @ ''.'' @ print_int (uint (http_minor (rs_hp resp))) @ '' '' @
    print_int (fst st) @ '' ''"
  have "length ?l \<le> 15"
    using length_print_int [OF _ v(1)] length_print_int [OF _ v(2)] length_print_int [OF _ assms(3)] assms(2) by simp
  then have "snprintf 16 ?l = ?l" by (simp add: snprintf_def)
  then have "append_status resp st = (\<lambda>b. ebind (Buffer_Append ?l b) (Buffer_Append (snd st)))"
    by (simp add: append_status_def fun_eq_iff)
  moreover have "printed N \<dots> (?l @ snd st)" by (intro printed_bind printed_append)
  ultimately show ?thesis by (simp add: status_bytes_def)
qed

lemma add_content_len_printed:
  assumes "n < 10 ^ 19"
  shows "printed N (add_content_len (int n)) (''Content-Length:'' @ to_string n @ CRLF)"
proof -
  have "length (to_string n) \<le> 19" using length_to_string [OF assms] by simp
  then have "add_content_len (int n) = Buffer_Append (''Content-Length:'' @ to_string n @ CRLF)"
    by (simp add: add_content_len_def snprintf_def print_int_def fun_eq_iff)
  then show ?thesis by simp
qed

definition answered :: "int \<Rightarrow> header_fields \<Rightarrow> HttpResponse \<Rightarrow> HttpResponse" where
  "answered code hdrs resp = resp\<lparr>rs_close := closes code resp, rs_chunked := chunks code hdrs resp\<rparr>"

lemma append_framing_holds:
  assumes "holds N b xs" "length (xs @ framing_bytes date code n hdrs resp) \<le> N" "n < 10 ^ 19" "code \<noteq> 400"
    "http_major (rs_hp resp) = 1"
  shows "\<exists>b'. append_framing date (int n) hdrs resp b = Inr (answered code hdrs resp, b') \<and>
    holds N b' (xs @ framing_bytes date code n hdrs resp)"
proof -
  let ?d = "if http_minor (rs_hp resp) \<ge> 1 \<and> map_of hdrs ''Date'' = None then case_option [] id date else []"
  define r where "r = (if map_of hdrs ''Transfer-Encoding'' = Some ''chunked'' then resp\<lparr>rs_chunked := True\<rparr> else resp)"
  have rf: "rs_close r = rs_close resp" "rs_keep_alive r = rs_keep_alive resp" "rs_hp r = rs_hp resp"
    "rs_chunked r = chunks code hdrs resp" using assms(4,5) by (auto simp: chunks_def r_def)
  have a: "answered code hdrs resp = r\<lparr>rs_close := closes code resp\<rparr>"
    using assms(4,5) by (simp add: answered_def chunks_def r_def)
  have c: "closes code resp \<longleftrightarrow> rs_close resp \<or> http_minor (rs_hp resp) = 0 \<and> \<not> rs_keep_alive resp"
    using assms(4,5) by (auto simp: closes_def)
  have "printed N (\<lambda>b. if http_minor (rs_hp resp) \<ge> 1 \<and> map_of hdrs ''Date'' = None then add_date date b else Inr b) ?d"
    by (intro printed_if) (auto simp: add_date_def printed_def split: option.splits intro: holds_append)
  from printedD [OF this assms(1)] obtain b1 where b1:
    "(if http_minor (rs_hp resp) \<ge> 1 \<and> map_of hdrs ''Date'' = None then add_date date b else Inr b) = Inr b1"
    "holds N b1 (xs @ ?d)" using assms(2) by (auto simp: framing_bytes_def split: if_splits)
  have eq: "append_framing date (int n) hdrs resp b =
      (if closes code resp then ebind (Buffer_Append (''Connection:close'' @ CRLF) b1) (\<lambda>b2. Inr (r\<lparr>rs_close := True\<rparr>, b2))
       else if chunks code hdrs resp then Inr (r, b1) else ebind (add_content_len (int n) b1) (\<lambda>b2. Inr (r, b2)))"
    using rf c unfolding append_framing_def Let_def b1(1) r_def [symmetric] by simp
  have a': "\<not> closes code resp \<Longrightarrow> answered code hdrs resp = r" using a c rf(1) by (cases r) auto
  consider (cl) "closes code resp" | (ch) "\<not> closes code resp" "chunks code hdrs resp"
    | (len) "\<not> closes code resp" "\<not> chunks code hdrs resp" by blast
  then show ?thesis
  proof cases
    case cl
    then obtain b2 where "Buffer_Append (''Connection:close'' @ CRLF) b1 = Inr b2" "holds N b2 (xs @ framing_bytes date code n hdrs resp)"
      using holds_append [OF b1(2), of "''Connection:close'' @ CRLF"] assms(2) by (auto simp: framing_bytes_def)
    then show ?thesis using cl eq a by simp
  next
    case ch
    then show ?thesis using eq a' b1(2) by (simp add: framing_bytes_def)
  next
    case len
    then obtain b2 where "add_content_len (int n) b1 = Inr b2" "holds N b2 (xs @ framing_bytes date code n hdrs resp)"
      using printedD [OF add_content_len_printed [OF assms(3)] b1(2)] assms(2) by (auto simp: framing_bytes_def)
    then show ?thesis using len eq a' by simp
  qed
qed

lemma MakeHttpResponse_holds:
  assumes "holds N b []" "length (head_bytes date code n hdrs resp) \<le> N" "n < 10 ^ 19" "small_version resp"
  shows "\<exists>b'. MakeHttpResponse date code (int n) hdrs resp b = Inr (answered code hdrs resp, b') \<and>
    holds N b' (head_bytes date code n hdrs resp)"
proof -
  let ?s = "status_bytes resp (find_status code)"
  have len: "length (?s @ CRLF) \<le> N" using assms(2) by (simp add: head_bytes_def)
  obtain b1 where b1: "append_status resp (find_status code) b = Inr b1" "holds N b1 ?s"
    using printedD [OF append_status_printed [OF assms(4), of "find_status code"] assms(1)] find_status_range [of code] len
    by (auto simp del: split_paired_All)
  obtain b2 where b2: "Buffer_Append CRLF b1 = Inr b2" "holds N b2 (?s @ CRLF)" using holds_append [OF b1(2)] len by blast
  show ?thesis
  proof (cases "code = 400")
    case True
    then obtain b3 where "Buffer_Append CRLF b2 = Inr b3" "holds N b3 (head_bytes date code n hdrs resp)"
      using holds_append [OF b2(2), of CRLF] assms(2) by (auto simp: head_bytes_def)
    moreover have "answered code hdrs resp = resp\<lparr>rs_close := True\<rparr>"
      using True by (cases resp) (simp add: answered_def closes_def chunks_def)
    ultimately show ?thesis using True b1(1) b2(1) by (simp add: MakeHttpResponse_def)
  next
    case False
    let ?f = "if http_major (rs_hp resp) = 1 then framing_bytes date code n hdrs resp else []"
    let ?t = "if need_body code \<and> map_of hdrs ''Content-Type'' = None
         then ''Content-Type:text/html; charset=ISO-8859-1'' @ CRLF else []"
    have h: "head_bytes date code n hdrs resp = ?s @ CRLF @ ?f @ ?t @ field_bytes hdrs @ CRLF"
      using False by (simp add: head_bytes_def)
    have "\<exists>b3. (if http_major (rs_hp resp) = 1 then append_framing date (int n) hdrs resp b2 else Inr (resp, b2)) =
        Inr (answered code hdrs resp, b3) \<and> holds N b3 ((?s @ CRLF) @ ?f)"
    proof (cases "http_major (rs_hp resp) = 1")
      case True
      then show ?thesis
        using append_framing_holds [OF b2(2) _ assms(3) False True, of date hdrs] h assms(2) by auto
    next
      case v: False
      then have "answered code hdrs resp = resp"
        using False by (cases resp) (simp add: answered_def closes_def chunks_def)
      then show ?thesis using v b2(2) by simp
    qed
    then obtain b3 where b3: "(if http_major (rs_hp resp) = 1 then append_framing date (int n) hdrs resp b2 else Inr (resp, b2)) =
        Inr (answered code hdrs resp, b3)" "holds N b3 ((?s @ CRLF) @ ?f)" by blast
    have "printed N (\<lambda>b. if need_body code \<and> map_of hdrs ''Content-Type'' = None
              then Buffer_Append (''Content-Type:text/html; charset=ISO-8859-1'' @ CRLF) b else Inr b) ?t"
      by (intro printed_if) (simp_all only: printed_append printed_Inr)
    moreover have "length (((?s @ CRLF) @ ?f) @ ?t) \<le> N" using assms(2) unfolding h by simp
    ultimately obtain b4 where b4: "(if need_body code \<and> map_of hdrs ''Content-Type'' = None
              then Buffer_Append (''Content-Type:text/html; charset=ISO-8859-1'' @ CRLF) b3 else Inr b3) = Inr b4"
      "holds N b4 (((?s @ CRLF) @ ?f) @ ?t)" using printedD [OF _ b3(2)] by blast
    have "length ((((?s @ CRLF) @ ?f) @ ?t) @ field_bytes hdrs) \<le> N" using assms(2) unfolding h by simp
    then obtain b5 where b5: "append_fields hdrs b4 = Inr b5" "holds N b5 ((((?s @ CRLF) @ ?f) @ ?t) @ field_bytes hdrs)"
      using printedD [OF append_fields_printed b4(2)] by blast
    have e: "((((?s @ CRLF) @ ?f) @ ?t) @ field_bytes hdrs) @ CRLF = head_bytes date code n hdrs resp" unfolding h by simp
    obtain b6 where b6: "Buffer_Append CRLF b5 = Inr b6" "holds N b6 (head_bytes date code n hdrs resp)"
      using holds_append [OF b5(2), of CRLF] assms(2) unfolding e by blast
    have "MakeHttpResponse date code (int n) hdrs resp b = Inr (answered code hdrs resp, b6)"
      unfolding MakeHttpResponse_def using b1(1) b2(1) False b3(1) b4(1) b5(1) b6(1) by simp
    then show ?thesis using b6(2) by blast
  qed
qed

context closing_user begin

lemma send_body_sent:
  assumes "ready (length (if chunk then to_hex (length body) @ CRLF @ body @ CRLF else body)) c" "length body < 2 ^ 31" "body \<noteq> []"
  shows "\<exists>c'. send_body user env chunk body c = Inr c' \<and>
    sent (if chunk then to_hex (length body) @ CRLF @ body @ CRLF else body) c c' \<and> (conn_gone c \<longrightarrow> conn_gone c')"
proof (cases chunk)
  case False
  then show ?thesis using Send_string_sent [of body c] assms by (auto simp: send_body_def)
next
  case True
  let ?h = "to_hex (length body) @ CRLF"
  have "length (to_hex (length body)) \<le> 8" using length_to_hex [of "length body" 8] assms(2) by simp
  then have h: "snprintf 32 (to_hex (length body mod 2 ^ 32) @ CRLF) = ?h" using assms(2) by (simp add: snprintf_def)
  have r: "ready (length ?h + (length body + length CRLF)) c" using assms(1) True by simp
  have r0: "ready (length ?h) c" using r by (auto simp: ready_def room_def)
  obtain c1 where c1: "Send_data user env ?h c = Inr c1" "sent ?h c c1" "conn_gone c \<longrightarrow> conn_gone c1"
    using Send_data_sent [OF r0] by blast
  have r1: "ready (length body + length CRLF) c1" by (rule ready_sent [OF r c1(2,3)])
  then have r1': "ready (length body) c1" by (auto simp: ready_def room_def)
  obtain c2 where c2: "Send_string user env body c1 = Inr c2" "sent body c1 c2" "conn_gone c1 \<longrightarrow> conn_gone c2"
    using Send_string_sent [OF r1'] by blast
  have r2: "ready (length CRLF) c2" by (rule ready_sent [OF r1 c2(2,3)])
  obtain c3 where c3: "Send_data user env CRLF c2 = Inr c3" "sent CRLF c2 c3" "conn_gone c2 \<longrightarrow> conn_gone c3"
    using Send_data_sent [OF r2] by blast
  have "sent (?h @ body @ CRLF) c c3"
    using sent_trans [OF c1(2) _ sent_trans [OF c2(2) c3(3) c3(2)]] c2(3) c3(3) by blast
  then show ?thesis
    using True h c1 c2 c3 assms(3) by (simp add: send_body_def)
qed

lemma ready_le: "ready n c \<Longrightarrow> m \<le> n \<Longrightarrow> ready m c"
  by (auto simp: ready_def room_def)

lemma send_all_sent:
  assumes "ready (length (body_bytes chunk body)) c" "length body < 2 ^ 31"
  shows "\<exists>c'. ebind (send_body user env chunk body c) (\<lambda>c2. if chunk then Send_data user env (''0'' @ CRLF @ CRLF) c2 else Inr c2) = Inr c' \<and>
    sent (body_bytes chunk body) c c' \<and> (conn_gone c \<longrightarrow> conn_gone c')"
proof -
  let ?p = "if body = [] then [] else if chunk then to_hex (length body) @ CRLF @ body @ CRLF else body"
  let ?q = "if chunk then ''0'' @ CRLF @ CRLF else []"
  have b: "body_bytes chunk body = ?p @ ?q" by (simp add: body_bytes_def)
  have r: "ready (length ?p + length ?q) c" using assms(1) unfolding b by simp
  have "\<exists>c1. send_body user env chunk body c = Inr c1 \<and> sent ?p c c1 \<and> (conn_gone c \<longrightarrow> conn_gone c1)"
  proof (cases "body = []")
    case True
    then show ?thesis using sent_nil [OF assms(1)] by (simp add: send_body_def)
  next
    case False
    then show ?thesis using send_body_sent [OF _ assms(2) False, of chunk c] ready_le [OF r] by (simp add: max_def)
  qed
  then obtain c1 where c1: "send_body user env chunk body c = Inr c1" "sent ?p c c1" "conn_gone c \<longrightarrow> conn_gone c1" by blast
  have r1: "ready (length ?q) c1" by (rule ready_sent [OF r c1(2,3)])
  obtain c2 where c2: "(if chunk then Send_data user env (''0'' @ CRLF @ CRLF) c1 else Inr c1) = Inr c2" "sent ?q c1 c2"
    "conn_gone c1 \<longrightarrow> conn_gone c2"
  proof (cases chunk)
    case True
    then show ?thesis using Send_data_sent [of "''0'' @ CRLF @ CRLF" c1] r1 that by auto
  next
    case False
    then show ?thesis using sent_nil [OF r1] that by simp
  qed
  have "sent (?p @ ?q) c c2" by (rule sent_trans [OF c1(2) c2(3) c2(2)])
  then show ?thesis using c1 c2 unfolding b by simp
qed

end

section \<open>Properties\<close>

definition reply_bytes :: "string option \<Rightarrow> int \<Rightarrow> header_fields \<Rightarrow> byte list \<Rightarrow> HttpResponse \<Rightarrow> byte list" where
  "reply_bytes date code hdrs body resp =
     head_bytes date code (length body) hdrs resp @ body_bytes (chunks code hdrs resp) body"

context closing_user begin

lemma SendReply_sent:
  assumes "conn_open c" "tc_status c = kConnected" "small_version resp" "code \<noteq> 100" "length body < 2 ^ 31"
    "room (length (reply_bytes date code hdrs body resp)) c"
  shows "\<exists>c'. SendReply user env date code hdrs body (resp, c) =
      Inr (answered code hdrs resp, if closes code resp then TCPConn_Close c' else c') \<and>
    sent (reply_bytes date code hdrs body resp) c c' \<and>
    (\<forall>c1. SendInLoop user env (head_bytes date code (length body) hdrs resp) c = Inr c1 \<longrightarrow> conn_gone c1 \<longrightarrow> conn_gone c')"
proof -
  let ?h = "head_bytes date code (length body) hdrs resp" and ?b = "body_bytes (chunks code hdrs resp) body"
  have r: "ready (length ?h + length ?b) c" using assms(1,2,6) by (simp add: ready_def reply_bytes_def)
  have "16 + 3 * length ?h < 2 ^ 63" using assms(6) by (simp add: room_def reply_bytes_def)
  then obtain b where b: "Buffer_new kInitialSize kCheapPrependSize = Inr b" "holds (length ?h) b []" using holds_new by blast
  obtain b1 where b1: "MakeHttpResponse date code (int (length body)) hdrs resp b = Inr (answered code hdrs resp, b1)"
    "holds (length ?h) b1 ?h" using MakeHttpResponse_holds [OF b(2) _ _ assms(3)] assms(5) by force
  have "ready (length (contents b1)) c" "buf_inv b1" using b1(2) ready_le [OF r] by (simp_all add: holds_def)
  then obtain b2 c1 where c1: "Send_buffer user env b1 c = Inr (b2, c1)" "sent ?h c c1" "conn_gone c \<longrightarrow> conn_gone c1"
    "SendInLoop user env ?h c = Inr c1"
    using Send_buffer_sent b1(2) assms(2) by (force simp: holds_def)
  have r1: "ready (length ?b) c1" by (rule ready_sent [OF r c1(2,3)])
  obtain c2 where c2: "ebind (send_body user env (chunks code hdrs resp) body c1)
      (\<lambda>c2. if chunks code hdrs resp then Send_data user env (''0'' @ CRLF @ CRLF) c2 else Inr c2) = Inr c2"
    "sent ?b c1 c2" "conn_gone c1 \<longrightarrow> conn_gone c2" using send_all_sent [OF r1 assms(5)] by blast
  obtain c3 where c3: "send_body user env (chunks code hdrs resp) body c1 = Inr c3"
    "(if chunks code hdrs resp then Send_data user env (''0'' @ CRLF @ CRLF) c3 else Inr c3) = Inr c2"
    using c2(1) unfolding ebind_Inr_iff by blast
  have a: "rs_chunked (answered code hdrs resp) = chunks code hdrs resp" "rs_close (answered code hdrs resp) = closes code resp"
    by (simp_all add: answered_def)
  have "SendReply user env date code hdrs body (resp, c) =
      Inr (answered code hdrs resp, if closes code resp then TCPConn_Close c2 else c2)"
    unfolding SendReply_def using assms(2,4) b(1) b1(1) c1(1) a c3 by simp
  moreover have "sent (?h @ ?b) c c2" by (rule sent_trans [OF c1(2) c2(3) c2(2)])
  ultimately show ?thesis using c1(4) c2(3) by (auto simp: reply_bytes_def)
qed

end

text \<open>C23. A reply on a connection that is up puts exactly its status line, its header fields and its body on the
  stream, the body with its length announced, in one chunk, or up to the end of the connection; the
  connection is then closed exactly when the reply announces that, unless the peer was found gone meanwhile.\<close>

theorem SendReply_bytes:
  assumes "libevent_ok env" "civil m prog" "conn_open c" "tc_status c = kConnected" "code \<noteq> 100" "length body < 2 ^ 31"
    "room (length (reply_bytes date code hdrs body (HttpResponse_new hr))) c"
  shows "\<exists>resp c'. SendReply (user_at env prog (Suc (Suc 0))) env date code hdrs body (HttpResponse_new hr, c) = Inr (resp, c') \<and>
    (chan_gone c' \<or> accepted c' = accepted c @ reply_bytes date code hdrs body (HttpResponse_new hr) \<and>
      tc_status c' = (if closes code (HttpResponse_new hr) then kDisconnecting else kConnected))"
proof -
  let ?r = "HttpResponse_new hr"
  obtain c' where c': "SendReply (user_at env prog (Suc (Suc 0))) env date code hdrs body (?r, c) =
      Inr (answered code hdrs ?r, if closes code ?r then TCPConn_Close c' else c')"
    "sent (reply_bytes date code hdrs body ?r) c c'"
    using closing_user.SendReply_sent [OF closing_user_at [OF assms(1,2)] assms(3,4) new_small_version assms(5-7)] by blast
  show ?thesis
  proof (intro exI conjI)
    show "chan_gone (if closes code ?r then TCPConn_Close c' else c') \<or>
      accepted (if closes code ?r then TCPConn_Close c' else c') = accepted c @ reply_bytes date code hdrs body ?r \<and>
      tc_status (if closes code ?r then TCPConn_Close c' else c') = (if closes code ?r then kDisconnecting else kConnected)"
      using c'(2) gone_chan_gone [of c'] by (auto simp: sent_def TCPConn_Close_def QueueTask_def chan_gone_def)
  qed (rule c'(1))
qed

text \<open>A reply that closes the connection brings the process down when the peer has already reset it: the
  \<^verbatim>\<open>Send\<close> of the head meets \<^verbatim>\<open>EPIPE\<close> and closes the connection, and \<^verbatim>\<open>Close\<close> after it is the misuse shown in
  \<open>Close_after_failed_Send\<close>.\<close>

theorem reply_to_gone_peer:
  assumes "libevent_ok env" "civil m prog" "conn_open c" "tc_status c = kConnected" "contents (output_buffer c) = []"
    "send_results c = Inl EPIPE # rs" "code \<noteq> 100" "length body < 2 ^ 31" "closes code (HttpResponse_new hr)"
    "room (length (reply_bytes date code hdrs body (HttpResponse_new hr))) c"
  shows "ebind (SendReply (user_at env prog (Suc (Suc 0))) env date code hdrs body (HttpResponse_new hr, c))
      (\<lambda>(_, c'). run_task (user_at env prog (Suc (Suc 0))) env TaskClose c') = Inl AssertFail"
proof -
  have inl: "in_loop_thread env" using assms(1) by (simp add: libevent_ok_def)
  obtain c1 where "SendInLoop (user_at env prog (Suc (Suc 0))) env (head_bytes date code (length body) hdrs (HttpResponse_new hr)) c = Inr c1"
    "conn_gone c1" using SendInLoop_peer_gone [OF assms(1-3,5,6)] by blast
  then obtain c' where "SendReply (user_at env prog (Suc (Suc 0))) env date code hdrs body (HttpResponse_new hr, c) =
      Inr (answered code hdrs (HttpResponse_new hr), TCPConn_Close c')" "conn_gone c'"
    using closing_user.SendReply_sent [OF closing_user_at [OF assms(1,2)] assms(3,4) new_small_version assms(7,8,10)] assms(9)
    by (auto simp del: user_at.simps)
  then show ?thesis using close_gone_aborts [OF _ inl] by (simp del: user_at.simps)
qed

definition sample_hr :: http_request where
  "sample_hr = sample_request\<lparr>hr_parser := blank_parser\<lparr>http_major := 1, http_minor := 1\<rparr>\<rparr>"

lemma sample_reply:
  "reply_bytes None 200 [(''Transfer-Encoding'', ''chunked'')] ''hello, world'' (HttpResponse_new sample_hr) =
    ''HTTP/1.1 200 OK'' @ CRLF @ ''Content-Type:text/html; charset=ISO-8859-1'' @ CRLF @
    ''Transfer-Encoding:chunked'' @ CRLF @ CRLF @ ''c'' @ CRLF @ ''hello, world'' @ CRLF @ ''0'' @ CRLF @ CRLF"
  by code_simp

lemma sample_bad_request: "reply_bytes None 400 [] [] (HttpResponse_new sample_hr) = ''HTTP/1.1 400 Bad Request'' @ CRLF @ CRLF"
  by code_simp

lemma sample_closes: "\<not> closes 200 (HttpResponse_new sample_hr)" "closes 400 (HttpResponse_new sample_hr)"
  by code_simp+

definition healthy_conn :: TCPConn where
  "healthy_conn = idle_conn\<lparr>send_results := [Inr 1000, Inr 2]\<rparr>"

lemma healthy_conn_open: "conn_open healthy_conn"
  using idle_conn_open
  by (simp add: healthy_conn_def conn_open_def conn_owing_def conn_bufs_def conn_fns_def out_bytes_def)

theorem SendReply_bytes_witness:
  "\<exists>resp c'. SendReply (user_at good_env echo_prog (Suc (Suc 0))) good_env None 200 [(''Transfer-Encoding'', ''chunked'')] ''hello, world''
      (HttpResponse_new sample_hr, healthy_conn) = Inr (resp, c') \<and>
    (chan_gone c' \<or> accepted c' = ''xHTTP/1.1 200 OK'' @ CRLF @ ''Content-Type:text/html; charset=ISO-8859-1'' @ CRLF @
      ''Transfer-Encoding:chunked'' @ CRLF @ CRLF @ ''c'' @ CRLF @ ''hello, world'' @ CRLF @ ''0'' @ CRLF @ CRLF \<and>
      tc_status c' = kConnected)"
proof -
  have r: "room (length (reply_bytes None 200 [(''Transfer-Encoding'', ''chunked'')] ''hello, world'' (HttpResponse_new sample_hr))) healthy_conn"
    unfolding sample_reply by (simp add: room_def out_bytes_def healthy_conn_def idle_conn_def)
  have "tc_status healthy_conn = kConnected" "accepted healthy_conn = ''x''" by (simp_all add: healthy_conn_def idle_conn_def sample_conn_def)
  then show ?thesis
    using SendReply_bytes [OF good_env_ok echo_civil healthy_conn_open _ _ _ r] sample_closes(1)
    unfolding sample_reply by (simp del: user_at.simps)
qed

theorem reply_to_gone_peer_witness:
  "ebind (SendReply (user_at good_env echo_prog (Suc (Suc 0))) good_env None 400 [] [] (HttpResponse_new sample_hr, idle_conn))
      (\<lambda>(_, c'). run_task (user_at good_env echo_prog (Suc (Suc 0))) good_env TaskClose c') = Inl AssertFail"
proof -
  have r: "room (length (reply_bytes None 400 [] [] (HttpResponse_new sample_hr))) idle_conn"
    unfolding sample_bad_request by (simp add: room_def out_bytes_def idle_conn_def)
  show ?thesis
    by (rule reply_to_gone_peer [OF good_env_ok echo_civil idle_conn_open _ _ _ _ _ sample_closes(2) r])
      (simp_all add: idle_conn_def sample_conn_def)
qed

end
