(* ===== verification/Http_Reply_Parse.thy ===== *)
theory Http_Reply_Parse
  imports Http_Response_Props Http_Request_Props Http_Chunk_Props
begin

text \<open>
  The printer and the parser fit together: the parser reads back the chunk that \<^verbatim>\<open>HttpResponse::SendReply\<close> makes of a
  body, and the length it announces.
\<close>

section \<open>Hexadecimal numbers\<close>

lemma hex_digit_char: "k < 16 \<Longrightarrow> hex_digit (hex_char k) = int k"
proof -
  assume "k < 16"
  then have "k = 0 \<or> k = 1 \<or> k = 2 \<or> k = 3 \<or> k = 4 \<or> k = 5 \<or> k = 6 \<or> k = 7 \<or> k = 8 \<or> k = 9 \<or> k = 10 \<or> k = 11 \<or>
    k = 12 \<or> k = 13 \<or> k = 14 \<or> k = 15" by presburger
  then show ?thesis by (elim disjE) (simp_all add: hex_digit_def hex_char_def unhex_def)
qed

lemma hex_append:
  "hex_from v (xs @ ys) = hex_from (hex_from v xs) ys"
  "hex_fits v (xs @ ys) \<longleftrightarrow> hex_fits v xs \<and> hex_fits (hex_from v xs) ys"
  by (induction xs arbitrary: v) auto

lemma to_hex_reads:
  "hex_from 0 (to_hex n) = int n \<and> list_all is_hex (to_hex n) \<and> (int n \<le> INT64_MAX \<longrightarrow> hex_fits 0 (to_hex n))"
proof (induction n rule: to_hex.induct)
  case (1 n)
  have d: "hex_digit (hex_char (n mod 16)) = int (n mod 16)" "is_hex (hex_char (n mod 16))"
    using hex_digit_char [of "n mod 16"] by (simp_all add: is_hex_def)
  show ?case
  proof (cases "n < 16")
    case True
    then show ?thesis using d by (simp add: to_hex.simps [of n] INT64_MAX_def)
  next
    case False
    have "int n = int (n div 16) * 16 + int (n mod 16)" by presburger
    moreover from this have "int n \<le> INT64_MAX \<Longrightarrow> int (n div 16) \<le> INT64_MAX" by linarith
    ultimately show ?thesis using 1 [OF False] False d
      by (simp add: to_hex.simps [of n] hex_append mult.commute)
  qed
qed

lemma to_hex_not_nil: "to_hex n \<noteq> []"
  by (simp add: to_hex.simps [of n])

section \<open>Chunks\<close>

text \<open>\<open>at st v m ds r e\<close>: the parser of a chunked request is in state \<open>st\<close> with \<open>v\<close> in its counter, the body marked at \<open>m\<close>,
  the bytes \<open>ds\<close> before it and the request \<open>r\<close> as its data.\<close>

definition at :: "byte list \<Rightarrow> state \<Rightarrow> int \<Rightarrow> nat option \<Rightarrow> byte list \<Rightarrow> http_request \<Rightarrow> http_request exec \<Rightarrow> bool" where
  "at data st v m ds r e \<longleftrightarrow> ex_state e = st \<and> has_flag F_CHUNKED (ex_parser e) \<and> http_errno (ex_parser e) = HPE_OK \<and>
     p_type (ex_parser e) = HTTP_REQUEST \<and> content_length (ex_parser e) = v \<and> ex_marks e FOR_body = m \<and>
     drop (ex_p e) data = ds \<and> ex_user e = r"

lemma byte_step:
  assumes "drop (ex_p e) data = c # ds" "exec_switch S data (e\<lparr>ex_ch := c\<rparr>) = Break e'"
  shows "exec_loop S data e = exec_loop S data (e'\<lparr>ex_p := ex_p e' + 1\<rparr>)" "drop (ex_p e + 1) data = ds"
proof -
  have p: "ex_p e < length data" "data ! ex_p e = c"
    using assms(1) by (metis drop_all list.distinct(1) not_less, metis nth_via_drop)
  show "drop (ex_p e + 1) data = ds" using assms(1) by (metis Suc_eq_plus1 drop_Suc list.sel(3) tl_drop)
  have "exec_byte S data (e\<lparr>ex_ch := data ! ex_p e\<rparr>) = Break e'" using assms(2) p by (simp add: exec_byte.simps)
  then show "exec_loop S data e = exec_loop S data (e'\<lparr>ex_p := ex_p e' + 1\<rparr>)" using exec_loop_Break [OF p(1)] by simp
qed

lemmas chunk_simps = at_def exec_switch_def assert_chunked_def set_content_length_def Let_def CALLBACK_NOTIFY_def
  CALLBACK_DATA_def callback_data_def callback_notify_def set_parser_def set_state_def store_state_def request_settings_def EmptyCB_def OnBody_def
  MARK_def CR_def LF_def INT64_MAX_def

lemma step_to:
  assumes "at data st v m (c # ds) r e" "\<exists>e'. exec_switch S data (e\<lparr>ex_ch := c\<rparr>) = Break e' \<and> ex_p e' = ex_p e \<and>
    at data st' v' m' (c # ds) r' e'"
  shows "\<exists>e'. exec_loop S data e = exec_loop S data e' \<and> at data st' v' m' ds r' e' \<and> ex_p e' = ex_p e + 1"
proof -
  from assms(2) obtain e' where e': "exec_switch S data (e\<lparr>ex_ch := c\<rparr>) = Break e'" "ex_p e' = ex_p e" "at data st' v' m' (c # ds) r' e'"
    by blast
  have "drop (ex_p e) data = c # ds" using assms(1) by (simp add: at_def)
  note s = byte_step [OF this e'(1)]
  show ?thesis using s e'(2,3) by (intro exI [of _ "e'\<lparr>ex_p := ex_p e' + 1\<rparr>"]) (simp add: at_def)
qed

lemma chunk_CR:
  assumes "at data s_chunk_size v m (CR # ds) r e"
  shows "\<exists>e'. exec_loop request_settings data e = exec_loop request_settings data e' \<and> at data s_chunk_size_almost_done v m ds r e' \<and> ex_p e' = ex_p e + 1"
  by (rule step_to [OF assms]) (use assms in \<open>simp add: chunk_simps case_chunk_size_def\<close>)

lemma chunk_LF:
  assumes "at data s_chunk_size_almost_done v m (LF # ds) r e" "0 < v"
  shows "\<exists>e'. exec_loop request_settings data e = exec_loop request_settings data e' \<and> at data s_chunk_data v m ds r e' \<and> ex_p e' = ex_p e + 1"
  by (rule step_to [OF assms(1)]) (use assms in \<open>auto simp: chunk_simps case_chunk_size_almost_done_def\<close>)

lemma chunk_first:
  assumes "at data s_chunk_size_start v m (c # ds) r e" "is_hex c"
  shows "\<exists>e'. exec_loop request_settings data e = exec_loop request_settings data e' \<and> at data s_chunk_size (hex_digit c) m ds r e' \<and> ex_p e' = ex_p e + 1"
proof (rule step_to [OF assms(1)])
  have "0 \<le> hex_digit c" "hex_digit c \<le> 15" "hex_digit c \<noteq> -1" using hex_digit_range [OF assms(2)] by auto
  then show "\<exists>e'. exec_switch request_settings data (e\<lparr>ex_ch := c\<rparr>) = Break e' \<and> ex_p e' = ex_p e \<and> at data s_chunk_size (hex_digit c) m (c # ds) r e'"
    using assms(1) by (simp add: chunk_simps case_chunk_size_start_def hex_digit_def)
qed

lemma chunk_size_read:
  assumes "at data s_chunk_size_start v m (to_hex n @ CR # LF # ds) r e" "int n \<le> INT64_MAX"
  shows "\<exists>e'. exec_loop request_settings data e = exec_loop request_settings data e' \<and> at data s_chunk_size_almost_done (int n) m (LF # ds) r e'"
proof -
  obtain h t where h: "to_hex n = h # t" using to_hex_not_nil by (cases "to_hex n") auto
  have t: "hex_from (hex_digit h) t = int n" "list_all is_hex t" "is_hex h" "hex_fits (hex_digit h) t"
    using to_hex_reads [of n] assms(2) by (simp_all add: h)
  obtain e1 where e1: "exec_loop request_settings data e = exec_loop request_settings data e1" "at data s_chunk_size (hex_digit h) m (t @ CR # LF # ds) r e1"
    using chunk_first [of data v m h _ r e] assms(1) t(3) by (auto simp: h)
  let ?e2 = "e1\<lparr>ex_parser := (ex_parser e1)\<lparr>content_length := int n\<rparr>, ex_p := ex_p e1 + length t\<rparr>"
  have "reading_chunk e1" "drop (ex_p e1) data = t @ CR # LF # ds" "content_length (ex_parser e1) = hex_digit h"
    using e1(2) hex_digit_range [OF t(3)] by (simp_all add: at_def reading_chunk_def chunked_def)
  from chunk_digits_exec [OF this(1) t(2) _ this(2), of request_settings] this(3) t(1,4)
  have "exec_loop request_settings data e1 = exec_loop request_settings data ?e2" by simp
  moreover have "at data s_chunk_size (int n) m (CR # LF # ds) r ?e2"
    using e1(2) by (simp add: at_def add.commute [of "ex_p e1"] flip: drop_drop)
  ultimately show ?thesis using chunk_CR e1(1) by metis
qed

lemma chunk_data_marked:
  assumes "at data s_chunk_data (int (length body)) None (body @ CR # ds) r e" "body \<noteq> []" "int (length body) \<le> INT64_MAX"
  shows "\<exists>e'. exec_loop request_settings data e = exec_loop request_settings data e' \<and>
    at data s_chunk_data_almost_done 0 (Some (ex_p e)) (CR # ds) r e' \<and> ex_p e' = ex_p e + length body"
proof -
  obtain c cs where c: "body = c # cs" using assms(2) by (cases body) auto
  have d: "drop (ex_p e) data = c # cs @ CR # ds" using assms(1) c by (simp add: at_def)
  then have "length data - ex_p e = length body + length (CR # ds)" using c by (metis append_Cons length_append length_drop)
  then have l: "min (int (length body)) (int (length data - ex_p e)) = int (length body)" by simp
  let ?e' = "e\<lparr>ex_ch := c, ex_marks := (ex_marks e)(FOR_body \<mapsto> ex_p e), ex_parser := (ex_parser e)\<lparr>content_length := 0\<rparr>,
    ex_p := ex_p e + length body - 1, ex_state := s_chunk_data_almost_done\<rparr>"
  have "exec_switch request_settings data (e\<lparr>ex_ch := c\<rparr>) = Break ?e'"
    using assms(1,3) l c unfolding at_def exec_switch_def by (simp add: case_chunk_data_def chunk_simps)
  from byte_step(1) [OF d this] c
  have "exec_loop request_settings data e = exec_loop request_settings data (?e'\<lparr>ex_p := ex_p e + length body\<rparr>)" by simp
  moreover have "drop (ex_p e + length body) data = CR # ds"
  proof -
    have "drop (length body) (drop (ex_p e) data) = CR # ds" using d c by simp
    then show ?thesis by (simp add: add.commute)
  qed
  ultimately show ?thesis
    using assms(1) by (intro exI [of _ "?e'\<lparr>ex_p := ex_p e + length body\<rparr>"]) (simp add: at_def has_flag_def)
qed

lemma chunk_delivered:
  assumes "at data s_chunk_data_almost_done 0 (Some p) (CR # ds) r e" "drop p data = body @ CR # ds" "ex_p e = p + length body"
    "Buffer_Append body (hr_body r) = Inr b"
  shows "\<exists>e'. exec_loop request_settings data e = exec_loop request_settings data e' \<and>
    at data s_chunk_data_done 0 None ds (r\<lparr>hr_body := b\<rparr>) e' \<and> ex_p e' = ex_p e + 1"
proof (rule step_to [OF assms(1)])
  have "range_of p (p + length body) data = body" using assms(2) by (simp add: range_of_def)
  moreover have "p + length body \<le> length data"
    using assms(1,3) by (metis at_def drop_all list.distinct(1) nat_le_linear)
  ultimately show "\<exists>e'. exec_switch request_settings data (e\<lparr>ex_ch := CR\<rparr>) = Break e' \<and> ex_p e' = ex_p e \<and>
      at data s_chunk_data_done 0 None (CR # ds) (r\<lparr>hr_body := b\<rparr>) e'"
    using assms by (simp add: chunk_simps case_chunk_data_almost_done_def has_flag_def)
qed

lemma chunk_ended:
  assumes "at data s_chunk_data_done v m (LF # ds) r e"
  shows "\<exists>e'. exec_loop request_settings data e = exec_loop request_settings data e' \<and> at data s_chunk_size_start v m ds r e' \<and> ex_p e' = ex_p e + 1"
  by (rule step_to [OF assms]) (use assms in \<open>simp add: chunk_simps case_chunk_data_done_def has_flag_def\<close>)

lemma chunk_read:
  assumes "at data s_chunk_size_start v None (to_hex (length body) @ CRLF @ body @ CRLF @ ds) r e" "body \<noteq> []"
    "int (length body) \<le> INT64_MAX" "Buffer_Append body (hr_body r) = Inr b"
  shows "\<exists>e'. exec_loop request_settings data e = exec_loop request_settings data e' \<and> at data s_chunk_size_start 0 None ds (r\<lparr>hr_body := b\<rparr>) e'"
proof -
  obtain e1 where e1: "exec_loop request_settings data e = exec_loop request_settings data e1"
    "at data s_chunk_size_almost_done (int (length body)) None (LF # body @ CR # LF # ds) r e1"
    using chunk_size_read [of data v None "length body" "body @ CR # LF # ds" r e] assms(1,3) by auto
  obtain e2 where e2: "exec_loop request_settings data e1 = exec_loop request_settings data e2"
    "at data s_chunk_data (int (length body)) None (body @ CR # LF # ds) r e2"
    using chunk_LF [OF e1(2)] assms(2) by auto
  obtain e3 where e3: "exec_loop request_settings data e2 = exec_loop request_settings data e3"
    "at data s_chunk_data_almost_done 0 (Some (ex_p e2)) (CR # LF # ds) r e3" "ex_p e3 = ex_p e2 + length body"
    using chunk_data_marked [OF e2(2) assms(2,3)] by blast
  have "drop (ex_p e2) data = body @ CR # LF # ds" using e2(2) by (simp add: at_def)
  then obtain e4 where e4: "exec_loop request_settings data e3 = exec_loop request_settings data e4"
    "at data s_chunk_data_done 0 None (LF # ds) (r\<lparr>hr_body := b\<rparr>) e4"
    using chunk_delivered [OF e3(2) _ e3(3) assms(4)] by blast
  show ?thesis using chunk_ended [OF e4(2)] e1(1) e2(1) e3(1) e4(1) by auto
qed

text \<open>The chunk of size 0 ends the message: the request is complete and the parser paused.\<close>

lemma last_chunk_LF:
  assumes "at data s_chunk_size_almost_done 0 m (LF # ds) r e"
  shows "\<exists>e'. exec_loop request_settings data e = exec_loop request_settings data e' \<and> at data s_header_field_start 0 m ds r e' \<and>
    has_flag F_TRAILING (ex_parser e')"
proof -
  have d: "drop (ex_p e) data = LF # ds" using assms by (simp add: at_def)
  let ?e' = "e\<lparr>ex_ch := LF, ex_parser := (ex_parser e)\<lparr>flags := flags (ex_parser e) OR F_TRAILING, p_state := s_header_field_start\<rparr>,
    ex_state := s_header_field_start\<rparr>"
  have "exec_switch request_settings data (e\<lparr>ex_ch := LF\<rparr>) = Break ?e'"
    using assms by (simp add: chunk_simps case_chunk_size_almost_done_def)
  note b = byte_step [OF d this]
  have "has_flag F_TRAILING (ex_parser ?e')" "has_flag F_CHUNKED (ex_parser ?e')"
    using assms by (simp_all add: has_flag_def at_def bit.conj_disj_distrib2 or_eq_0_iff F_TRAILING_def F_CHUNKED_def)
  then show ?thesis using b assms by (intro exI [of _ "?e'\<lparr>ex_p := ex_p e + 1\<rparr>"]) (simp add: at_def)
qed

lemma last_chunk_read:
  assumes "at data s_chunk_size_start v None (''0'' @ CRLF @ CRLF) r e"
  shows "\<exists>q. exec_result (exec_loop request_settings data e) = Inr (length data, q, r\<lparr>hr_completed := True\<rparr>) \<and>
    http_errno q = HPE_PAUSED \<and> p_state q = s_pre_start_req"
proof -
  have z: "to_hex 0 = ''0''" by code_simp
  obtain e1 where e1: "exec_loop request_settings data e = exec_loop request_settings data e1"
    "at data s_chunk_size_almost_done 0 None (LF # CRLF) r e1"
    using chunk_size_read [of data v None 0 CRLF r e] assms z by (auto simp: INT64_MAX_def)
  obtain e2 where e2: "exec_loop request_settings data e1 = exec_loop request_settings data e2"
    "at data s_header_field_start 0 None CRLF r e2" "has_flag F_TRAILING (ex_parser e2)" using last_chunk_LF [OF e1(2)] by blast
  let ?e3 = "e2\<lparr>ex_ch := CR, ex_state := s_headers_almost_done, ex_p := ex_p e2 + 1\<rparr>"
  have d2: "drop (ex_p e2) data = CR # [LF]" using e2(2) by (simp add: at_def)
  have "exec_switch request_settings data (e2\<lparr>ex_ch := CR\<rparr>) = Break (e2\<lparr>ex_ch := CR, ex_state := s_headers_almost_done\<rparr>)"
    using e2(2) by (simp add: at_def exec_switch_def case_header_field_start_def set_state_def)
  from byte_step [OF d2 this]
  have e3: "exec_loop request_settings data e2 = exec_loop request_settings data ?e3" "drop (ex_p ?e3) data = [LF]" by simp_all
  have p: "ex_p ?e3 < length data" "data ! ex_p ?e3 = LF" "ex_p ?e3 + 1 = length data"
    using e3(2) by (metis drop_all list.distinct(1) not_less, metis nth_via_drop, metis One_nat_def Suc_eq_plus1 diff_add_inverse2 diff_is_0_eq length_Cons length_drop list.size(3) nat_le_linear not_one_le_zero le_add_diff_inverse2 add.commute)
  let ?q = "(ex_parser e2)\<lparr>p_state := s_pre_start_req, nread := 0, http_errno := HPE_PAUSED\<rparr>"
  have q: "http_errno (ex_parser e2) = HPE_OK" "p_type (ex_parser e2) = HTTP_REQUEST" "ex_user e2 = r" using e2(2) by (simp_all add: at_def)
  let ?e4 = "?e3\<lparr>ex_ch := LF, ex_parser := (ex_parser e2)\<lparr>p_state := s_message_done\<rparr>, ex_state := s_message_done\<rparr>"
  have s1: "exec_switch request_settings data (?e3\<lparr>ex_ch := LF\<rparr>) = Reexec ?e4"
    using e2(3) q by (simp add: exec_switch_def case_headers_almost_done_def CALLBACK_NOTIFY_NOADVANCE_def callback_notify_def
        set_state_def store_state_def set_parser_def Let_def request_settings_def EmptyCB_def has_flag_def)
  obtain e5 where s2: "exec_switch request_settings data ?e4 = Return e5 (ex_p e2 + 2)" "ex_parser e5 = ?q" "ex_user e5 = r\<lparr>hr_completed := True\<rparr>"
    using q by (simp add: exec_switch_def case_message_done_def CALLBACK_NOTIFY_def callback_notify_def Let_def
        set_parser_def set_state_def store_state_def NEW_MESSAGE_def request_settings_def OnMessageEnd_def http_parser_pause_def)
  have "exec_byte request_settings data (?e3\<lparr>ex_ch := LF\<rparr>) = Return e5 (ex_p e2 + 2)"
    using exec_byte.simps [of request_settings data "?e3\<lparr>ex_ch := LF\<rparr>"] exec_byte.simps [of request_settings data ?e4] s1 s2 p(1) by simp
  then have "exec_loop request_settings data ?e3 = Return e5 (ex_p e2 + 2)"
    using p by (subst exec_loop.simps) simp
  then show ?thesis using e1(1) e2(1) e3(1) s2 p(3) by (simp add: exec_result_def)
qed

section \<open>Properties\<close>

text \<open>C24. The body that a chunked reply sends is read back by the library's own parser: given these bytes after the headers
  of a chunked message, it hands exactly the original body to the request, consumes all of them and completes the message.\<close>

theorem chunked_body_roundtrip:
  assumes "p_state q = s_chunk_size_start" "has_flag F_CHUNKED q" "http_errno q = HPE_OK" "p_type q = HTTP_REQUEST"
    "buf_inv (hr_body r)" "can_grow (hr_body r) (length body)"
  shows "\<exists>q' b. http_parser_execute request_settings (body_bytes True body) q r =
      Inr (length (body_bytes True body), q', r\<lparr>hr_body := b, hr_completed := True\<rparr>) \<and>
    contents b = contents (hr_body r) @ body \<and> http_errno q' = HPE_PAUSED \<and> p_state q' = s_pre_start_req"
proof -
  let ?d = "body_bytes True body"
  have m: "initial_marks s_chunk_size_start = (\<lambda>_. None)" by (auto simp: initial_marks_def split: data_for.split)
  have a0: "at ?d s_chunk_size_start (content_length q) None ?d r (exec_init q r)"
    using assms m by (simp add: at_def exec_init_def)
  have "\<exists>e v b. exec_loop request_settings ?d (exec_init q r) = exec_loop request_settings ?d e \<and>
      at ?d s_chunk_size_start v None (''0'' @ CRLF @ CRLF) (r\<lparr>hr_body := b\<rparr>) e \<and> contents b = contents (hr_body r) @ body"
  proof (cases "body = []")
    case True
    then have "?d = ''0'' @ CRLF @ CRLF" by (simp add: body_bytes_def)
    then show ?thesis using a0 True by (intro exI [of _ "exec_init q r"] exI [of _ "content_length q"] exI [of _ "hr_body r"]) simp
  next
    case False
    obtain b where b: "Buffer_Append body (hr_body r) = Inr b" "contents b = contents (hr_body r) @ body"
      using Buffer_Write_inv [OF assms(5,6)] by (auto simp: Buffer_Append_def)
    have "int (length body) \<le> INT64_MAX" using assms(6) by (simp add: can_grow_def INT64_MAX_def)
    moreover have "?d = to_hex (length body) @ CRLF @ body @ CRLF @ ''0'' @ CRLF @ CRLF" using False by (simp add: body_bytes_def)
    ultimately show ?thesis using chunk_read [of ?d "content_length q" body "''0'' @ CRLF @ CRLF" r "exec_init q r" b] a0 False b by auto
  qed
  then obtain e v b where e: "exec_loop request_settings ?d (exec_init q r) = exec_loop request_settings ?d e"
    "at ?d s_chunk_size_start v None (''0'' @ CRLF @ CRLF) (r\<lparr>hr_body := b\<rparr>) e" "contents b = contents (hr_body r) @ body" by blast
  obtain q' where q': "exec_result (exec_loop request_settings ?d e) = Inr (length ?d, q', (r\<lparr>hr_body := b\<rparr>)\<lparr>hr_completed := True\<rparr>)"
    "http_errno q' = HPE_PAUSED" "p_state q' = s_pre_start_req" using last_chunk_read [OF e(2)] by blast
  have i: "(exec_init q r)\<lparr>ex_marks := (\<lambda>_. None)\<rparr> = exec_init q r" by (simp add: exec_init_def)
  have "?d \<noteq> []" by (simp add: body_bytes_def)
  then have "http_parser_execute request_settings ?d q r = Inr (length ?d, q', r\<lparr>hr_body := b, hr_completed := True\<rparr>)"
    using q'(1) e(1) assms i by (simp add: http_parser_execute_def Let_def m)
  then show ?thesis using e(3) q'(2,3) by blast
qed

theorem chunked_body_roundtrip_witness:
  "\<exists>q' b. http_parser_execute request_settings (''c'' @ CRLF @ ''hello, world'' @ CRLF @ ''0'' @ CRLF @ CRLF)
      (blank_parser\<lparr>p_type := HTTP_REQUEST, p_state := s_chunk_size_start, flags := F_CHUNKED\<rparr>) sample_request =
      Inr (22, q', sample_request\<lparr>hr_body := b, hr_completed := True\<rparr>) \<and>
    contents b = ''abchello, world'' \<and> http_errno q' = HPE_PAUSED"
proof -
  let ?q = "blank_parser\<lparr>p_type := HTTP_REQUEST, p_state := s_chunk_size_start, flags := F_CHUNKED\<rparr>"
  have b: "body_bytes True ''hello, world'' = ''c'' @ CRLF @ ''hello, world'' @ CRLF @ ''0'' @ CRLF @ CRLF" by code_simp
  have "p_state ?q = s_chunk_size_start" "has_flag F_CHUNKED ?q" "http_errno ?q = HPE_OK" "p_type ?q = HTTP_REQUEST"
    "buf_inv (hr_body sample_request)" "can_grow (hr_body sample_request) (length ''hello, world'')"
    "contents (hr_body sample_request) = ''abc''"
    by (simp_all add: blank_parser_def has_flag_def F_CHUNKED_def sample_request_def can_grow_def)
  then show ?thesis using chunked_body_roundtrip [of ?q sample_request "''hello, world''"] unfolding b by auto
qed

end
