(* ===== verification/Http_Progress.thy ===== *)
theory Http_Progress
  imports Http_Request_Props
begin

text \<open>
  The parser does not go back: a call that returns reports a position at or after every byte it has looked at. Hence a call of \<^verbatim>\<open>HttpRequest::Parse\<close>
  that completes a new request has taken bytes out of the buffer.
\<close>

definition later :: "nat \<Rightarrow> 'u outcome \<Rightarrow> bool" where
  "later p r = (case r of
     Break e \<Rightarrow> p \<le> ex_p e | Reexec e \<Rightarrow> p \<le> ex_p e | Error e \<Rightarrow> p \<le> ex_p e | Return e n \<Rightarrow> p \<le> n | Abort x \<Rightarrow> True)"

lemma later_simps [simp]:
  "later p (Break e) \<longleftrightarrow> p \<le> ex_p e" "later p (Reexec e) \<longleftrightarrow> p \<le> ex_p e" "later p (Error e) \<longleftrightarrow> p \<le> ex_p e"
  "later p (Return e n) \<longleftrightarrow> p \<le> n" "later p (Abort x)" "later p (RETURN n e) \<longleftrightarrow> p \<le> n" "later p (fail_with m e) \<longleftrightarrow> p \<le> ex_p e"
  by (simp_all add: later_def RETURN_def fail_with_def)

lemma later_callback [simp]:
  assumes "\<And>e'. ex_p e' = ex_p e \<Longrightarrow> later p (k e')" "p \<le> ex_p e"
  shows "later p (CALLBACK_NOTIFY S F e k)" "later p (CALLBACK_NOTIFY_NOADVANCE S F e k)"
    "later p (CALLBACK_DATA S d D e k)" "later p (CALLBACK_DATA_NOADVANCE S d D e k)"
    "later p (CALLBACK_SPACE S e k)" "later p (set_content_length n e k)"
  using assms
  by (auto simp: CALLBACK_NOTIFY_def CALLBACK_NOTIFY_NOADVANCE_def callback_notify_def
      CALLBACK_DATA_def CALLBACK_DATA_NOADVANCE_def callback_data_def CALLBACK_SPACE_def
      set_content_length_def Let_def split: prod.splits option.splits)

lemma later_data: "(\<And>e'. ex_p e' = ex_p e \<Longrightarrow> later p (k e')) \<Longrightarrow> p \<le> er \<Longrightarrow> later p (callback_data S d D q er e k)"
  by (auto simp: callback_data_def Let_def split: prod.splits option.splits)

lemma notatoken_later: "p \<le> ex_p e' \<Longrightarrow> later p (notatoken S data e')"
  by (auto simp: notatoken_def Let_def split: option.splits)

lemma match_header_later: "p \<le> ex_p e \<Longrightarrow> later p (match_header n m c e)"
  by (auto simp: match_header_def Let_def split: sum.splits)

lemma case_header_field_later:
  assumes "ex_p e < length data"
  shows "later (ex_p e) (case_header_field S data e)"
  using assms
  by (auto simp: case_header_field_def fast_forward_field_def Let_def match_header_later notatoken_later
      dest!: MOVE_THE_HEAD_Goto MOVE_THE_HEAD_Through split: header_states.splits moved.splits if_splits)

lemma header_value_other_later: "p \<le> ex_p e' \<Longrightarrow> later p (header_value_other h e')"
  by (auto simp: header_value_other_def header_value_digit_def match_header_def Let_def
      split: header_states.splits sum.splits)

lemma case_header_value_later:
  assumes "p \<le> ex_p e" "ex_p e < length data"
  shows "later p (case_header_value S data e)"
  using assms
proof (induction S data e rule: case_header_value.induct)
  case (1 S data e')
  have g: "later p (case_header_value S data e2)"
    if "fast_forward_value data e' = Goto e2" "header_state (ex_parser e') = h_general"
      "ex_ch e' \<noteq> CR" "ex_ch e' \<noteq> LF" "IS_HEADER_CHAR (ex_ch e')" for e2
    using that 1 fast_forward_value_Goto [OF that(1)] by auto
  show ?case
    using 1(2-3) g fast_forward_value_Through [of data e']
    by (subst case_header_value.simps) (auto simp: Let_def header_value_other_later split: moved.splits)
qed

lemma case_body_later:
  assumes "ex_p e < length data"
  shows "later (ex_p e) (case_body_identity S data e)" "later (ex_p e) (case_chunk_data data e)"
  using to_read_bounds [OF assms, of "content_length (ex_parser e)"]
  by (auto simp: case_body_identity_def case_chunk_data_def assert_chunked_def set_content_length_def Let_def
      intro!: later_data simp del: of_nat_diff)

lemma exec_switch_later:
  assumes "ex_p e < length data"
  shows "later (ex_p e) (exec_switch S data e)"
  using assms
  by (cases "ex_state e")
    (auto simp: exec_switch_def case_header_field_later case_header_value_later case_body_later
      case_defs assert_chunked_def Let_def
      split: option.splits sum.splits bool.splits header_states.splits prod.splits)

lemma later_mono: "later p r \<Longrightarrow> q \<le> p \<Longrightarrow> later q r"
  by (auto simp: later_def split: outcome.splits)

lemma exec_byte_later: "later (ex_p e) (exec_byte S data e)"
proof (induction S data e rule: exec_byte.induct)
  case (1 S data e)
  show ?case
  proof (cases "ex_p e < length data")
    case True
    then show ?thesis
      using 1 exec_switch_later [OF True, of S] by (subst exec_byte.simps) (auto intro: later_mono split: outcome.splits)
  qed (simp add: exec_byte.simps)
qed

lemma exec_error_later: "p \<le> ex_p e \<Longrightarrow> later p (exec_error e)"
  by (simp add: exec_error_def Let_def)

lemma exec_loop_later: "ex_p e \<le> length data \<Longrightarrow> later (ex_p e) (exec_loop S data e)"
proof (induction S data e rule: exec_loop.induct)
  case (1 S data e)
  note b = exec_byte_later [of "e\<lparr>ex_ch := data ! ex_p e\<rparr>" S data]
  show ?case
  proof (cases "ex_p e = length data")
    case True
    then show ?thesis
      by (subst exec_loop.simps) (auto simp: exec_finish_def exec_leftover_def exec_error_later Let_def)
  next
    case False
    then show ?thesis
      using 1 b exec_byte_Break [of S data "e\<lparr>ex_ch := data ! ex_p e\<rparr>"]
      by (subst exec_loop.simps) (fastforce intro: later_mono exec_error_later split: outcome.splits)
  qed
qed

section \<open>New requests\<close>

lemma start_req_outcome:
  "(\<exists>e'. case_start_req e = Break e') \<or> (\<exists>e'. case_start_req e = Error e' \<and> http_errno (ex_parser e') = HPE_INVALID_METHOD)"
  by (cases "IS_ALPHA (ex_ch e)"; cases "start_method (ex_ch e)")
    (auto simp: case_start_req_def Let_def fail_with_def SET_ERRNO_def set_parser_def)

lemma new_request_progress:
  assumes "p_state q = s_pre_start_req" "http_errno q = HPE_OK" "data \<noteq> []"
    "http_parser_execute request_settings data q r = Inr (n, q', r')"
  shows "0 < n \<or> http_errno q' = HPE_INVALID_METHOD"
proof -
  let ?S = request_settings
  let ?e = "(exec_init q r)\<lparr>ex_ch := data ! 0\<rparr>"
  have m: "initial_marks s_pre_start_req = (\<lambda>_. None)" by (auto simp: initial_marks_def split: data_for.split)
  have i: "(exec_init q r)\<lparr>ex_marks := (\<lambda>_. None)\<rparr> = exec_init q r" by (simp add: exec_init_def)
  have l: "exec_result (exec_loop ?S data (exec_init q r)) = Inr (n, q', r')"
    using assms i by (simp add: http_parser_execute_def Let_def m)
  have p: "0 < length data" "ex_p ?e = 0" using assms(3) by (simp_all add: exec_init_def)
  have on: "0 < n" if "exec_byte ?S data ?e = Break e'" for e'
  proof -
    have "later 1 (exec_loop ?S data (e'\<lparr>ex_p := ex_p e' + 1\<rparr>))"
      by (rule later_mono [OF exec_loop_later]) (use exec_byte_Break [OF that] in auto)
    moreover have "exec_loop ?S data (exec_init q r) = exec_loop ?S data (e'\<lparr>ex_p := ex_p e' + 1\<rparr>)"
      using that p by (subst exec_loop.simps) (simp add: exec_init_def)
    ultimately show ?thesis using l by (auto simp: exec_result_def later_def split: outcome.splits)
  qed
  show ?thesis
  proof (cases "data ! 0 = CR \<or> data ! 0 = LF")
    case True
    then have "exec_switch ?S data ?e = Break ?e"
      using assms(1) by (simp add: exec_switch_def exec_init_def case_pre_start_req_def)
    then have "exec_byte ?S data ?e = Break ?e" using p by (subst exec_byte.simps) simp
    then show ?thesis using on by blast
  next
    case False
    let ?e1 = "?e\<lparr>ex_parser := q\<lparr>p_state := s_start_req\<rparr>, ex_state := s_start_req\<rparr>"
    have "exec_switch ?S data ?e = Reexec ?e1"
      using assms(1,2) False by (simp add: exec_switch_def exec_init_def case_pre_start_req_def CALLBACK_NOTIFY_NOADVANCE_def
          callback_notify_def set_state_def store_state_def set_parser_def Let_def request_settings_def OnMessageBegin_def)
    then have b: "exec_byte ?S data ?e = exec_byte ?S data ?e1" using p by (subst exec_byte.simps) simp
    consider (br) e' where "exec_switch ?S data ?e1 = Break e'"
      | (er) e' where "exec_switch ?S data ?e1 = Error e'" "http_errno (ex_parser e') = HPE_INVALID_METHOD"
      using start_req_outcome [of ?e1] by (auto simp: exec_switch_def)
    then show ?thesis
    proof cases
      case br
      then have "exec_byte ?S data ?e1 = Break e'" using p by (subst exec_byte.simps) simp
      then show ?thesis using on b by simp
    next
      case er
      then have "exec_byte ?S data ?e1 = Error e'" using p by (subst exec_byte.simps) simp
      then have "exec_loop ?S data (exec_init q r) = exec_error e'"
        using b p by (subst exec_loop.simps) (simp add: exec_init_def)
      then show ?thesis using l er(2) by (auto simp: exec_error_def exec_result_def RETURN_def store_state_def set_parser_def Let_def)
    qed
  qed
qed

lemma Parse_consumes:
  assumes "buf_inv buf" "contents buf \<noteq> []" "p_state (hr_parser r) = s_pre_start_req" "http_errno (hr_parser r) = HPE_OK"
    "parser_inv (hr_parser r)" "HttpRequest_Parse buf r = Inr (HPE_OK, r', buf')"
  shows "buf_inv buf' \<and> length (contents buf') < length (contents buf)"
proof -
  obtain n q u where x: "http_parser_execute request_settings (contents buf) (hr_parser r) r = Inr (n, q, u)"
    using assms(6) Buffer_ToSlice_inv [OF assms(1)] by (auto simp: HttpRequest_Parse_def ebind_Inr_iff)
  then have y: "http_errno q = HPE_OK \<or> http_errno q = HPE_PAUSED" "Buffer_Retrieve (of_nat n) buf = Inr buf'"
    using assms(6) Buffer_ToSlice_inv [OF assms(1)]
    by (auto simp: HttpRequest_Parse_def ebind_Inr_iff Let_def split: option.splits if_splits)
  have "0 < n" using new_request_progress [OF assms(3,4,2) x] y(1) by auto
  moreover have "n \<le> length (contents buf)" using req.execute_safe [OF assms(5), of "contents buf" r] x assms(2) by auto
  moreover have "length (contents buf) < 2 ^ 64" using buf_inv_index [OF assms(1)] unat_size_bound [of "write_index buf"] by simp
  ultimately have "unat (of_nat n :: size_t) = n" "0 < n" by (simp_all add: unat_of_nat_size)
  then show ?thesis using Buffer_Skip_inv [OF assms(1), of "of_nat n"] y(2) assms(2) by (auto simp: Buffer_Retrieve_def)
qed

end
