(* ===== verification/Http_Service.thy ===== *)
theory Http_Service
  imports Http_Response_Props Http_Request_Props Tcp_Server_Props
begin

text \<open>
  \<^verbatim>\<open>evpphttp::Service\<close> (include/eventpp/evpphttp/service.hpp, src/evpphttp/service.cpp): the message callback of the
  server's connections parses requests out of the input buffer and hands them to the callback registered for
  their path. A callback is given as the replies it makes before it returns; one that it makes later is a call of \<open>SendReply\<close> with the
  response of the request. The context of a connection, a \<^verbatim>\<open>std::any\<close>, is kept beside it.
\<close>

section \<open>Requests\<close>

type_synonym http_reply = "int \<times> header_fields \<times> string"

type_synonym http_handler = "http_request \<Rightarrow> http_reply list"

text \<open>\<^verbatim>\<open>std::any\<close>: empty, a pointer to a request, or something of another type.\<close>

datatype conn_context = NoContext | RequestContext http_request | OtherContext

text \<open>The replies of a callback; each goes through the same copy of the response.\<close>

fun run_replies :: "user_code \<Rightarrow> loop_env \<Rightarrow> string option \<Rightarrow> http_reply list \<Rightarrow> HttpResponse \<times> TCPConn \<Rightarrow>
    (HttpResponse \<times> TCPConn) result" where
  "run_replies user env date [] rc = Inr rc"
| "run_replies user env date ((code, hdrs, body) # rs) rc =
     ebind (SendReply user env date code hdrs body rc) (run_replies user env date rs)"

text \<open>\<^verbatim>\<open>evutil_ascii_strcasecmp\<close>, by whether its result is not zero.\<close>

definition strcasecmp_differs :: "string \<Rightarrow> string \<Rightarrow> bool" where
  "strcasecmp_differs a b \<longleftrightarrow> map tolower_char a \<noteq> map tolower_char b"

definition default_handler :: http_handler where
  "default_handler hr = [(404, [], [])]"

text \<open>The result is \<open>-1\<close> after an error, \<open>0\<close> after a complete request and \<open>1\<close> when more bytes are needed. \<^verbatim>\<open>buf\<close> is the
  input buffer of the connection.\<close>

definition RequestHandler ::
  "(string \<rightharpoonup> http_handler) \<Rightarrow> http_handler \<Rightarrow> user_code \<Rightarrow> loop_env \<Rightarrow> string option \<Rightarrow> http_request \<Rightarrow> TCPConn \<Rightarrow>
   (int \<times> http_request \<times> TCPConn) result" where
  "RequestHandler callbacks default_cb user env date hr c =
     ebind (HttpRequest_Parse (input_buffer c) hr) (\<lambda>(err, hr1, buf).
     let c1 = c\<lparr>input_buffer := buf\<rparr> in
     if err \<noteq> HPE_OK then
       ebind (SendReply user env date 400 [] [] (HttpResponse_new hr1, c1)) (\<lambda>(_, c2). Inr (-1, hr1, c2))
     else if hr_completed hr1 then
       ebind (url_path hr1) (\<lambda>path.
       let cb = (case callbacks path of None \<Rightarrow> default_cb | Some f \<Rightarrow> f) in
       ebind (run_replies user env date (cb hr1) (HttpResponse_new hr1, c1)) (\<lambda>(_, c2). Inr (0, hr1, c2)))
     else if hr_field_value hr1 ''Expect'' \<noteq> None \<and> \<not> hr_send_continue hr1 \<and> strcasecmp_differs ''Expect'' ''100-continue'' then
       ebind (SendReply user env date 100 [] [] (HttpResponse_new hr1, c1)) (\<lambda>(_, c2). Inr (1, set_continue hr1, c2))
     else Inr (1, hr1, c1))"

text \<open>The loop of \<^verbatim>\<open>OnMessage\<close>; \<open>p\<close> and \<open>u\<close> are what the uninitialised members of a new request hold. The first
  number bounds the turns; \<^term>\<open>None\<close> means that it was used up before the loop ended, and \<open>message_loop_ends\<close> shows that one
  more than the number of bytes in the buffer is always enough.\<close>

fun message_loop ::
  "(string \<rightharpoonup> http_handler) \<Rightarrow> http_handler \<Rightarrow> user_code \<Rightarrow> loop_env \<Rightarrow> string option \<Rightarrow> http_parser \<Rightarrow> http_parser_url \<Rightarrow>
   nat \<Rightarrow> conn_context \<times> TCPConn \<Rightarrow> (conn_context \<times> TCPConn) result option" where
  "message_loop callbacks default_cb user env date p u 0 (ctx, c) = None"
| "message_loop callbacks default_cb user env date p u (Suc n) (ctx, c) =
     (case Buffer_length (input_buffer c) of
        Inl x \<Rightarrow> Some (Inl x)
      | Inr l \<Rightarrow>
          if l = 0 then Some (Inr (ctx, c))
          else
            case ebind (HttpRequest_new p u) (\<lambda>hr.
                RequestHandler callbacks default_cb user env date (set_remote_ip (remote_addr c) hr) c) of
              Inl x \<Rightarrow> Some (Inl x)
            | Inr (ret, hr1, c1) \<Rightarrow>
                if ret < 0 then Some (Inr (ctx, c1))
                else if ret > 0 then Some (Inr (RequestContext hr1, c1))
                else message_loop callbacks default_cb user env date p u n (ctx, c1))"

definition any_cast :: "conn_context \<Rightarrow> http_request result" where
  "any_cast ctx = (case ctx of RequestContext hr \<Rightarrow> Inr hr | _ \<Rightarrow> Inl (Thrown ''std::bad_any_cast''))"

definition OnMessage ::
  "(string \<rightharpoonup> http_handler) \<Rightarrow> http_handler \<Rightarrow> user_code \<Rightarrow> loop_env \<Rightarrow> string option \<Rightarrow> http_parser \<Rightarrow> http_parser_url \<Rightarrow>
   conn_context \<times> TCPConn \<Rightarrow> (conn_context \<times> TCPConn) result" where
  "OnMessage callbacks default_cb user env date p u = (\<lambda>(ctx, c).
     let loop = (\<lambda>(ctx, c).
           case message_loop callbacks default_cb user env date p u (Suc (length (contents (input_buffer c)))) (ctx, c) of
             None \<Rightarrow> Inl StackOverflow
           | Some r \<Rightarrow> r) in
     if ctx = NoContext then
       ebind (any_cast ctx) (\<lambda>hr.
       ebind (RequestHandler callbacks default_cb user env date hr c) (\<lambda>(ret, hr1, c1).
       if ret \<noteq> 0 then Inr (RequestContext hr1, c1) else loop (NoContext, c1)))
     else loop (ctx, c))"

section \<open>The service\<close>

text \<open>\<open>listen_loop\<close> and \<open>listen_thr\<close> tell whether the pointers are set; the thread is never joined or detached.\<close>

record Service =
  svc_addr :: string
  svc_threads :: nat
  listen_loop :: bool
  tcp_srv :: "TCPConn TCPServer option"
  listen_thr :: bool
  svc_callbacks :: "string \<rightharpoonup> http_handler"
  svc_default :: http_handler
  svc_stopped :: bool

definition Service_new :: "string \<Rightarrow> nat \<Rightarrow> Service" where
  "Service_new addr n = \<lparr>svc_addr = addr, svc_threads = n, listen_loop = False, tcp_srv = None, listen_thr = False,
     svc_callbacks = Map.empty, svc_default = default_handler, svc_stopped = False\<rparr>"

definition RegisterHandler :: "string \<Rightarrow> http_handler \<Rightarrow> Service \<Rightarrow> Service" where
  "RegisterHandler uri f s = s\<lparr>svc_callbacks := (svc_callbacks s)(uri \<mapsto> f)\<rparr>"

definition Service_Init ::
  "(16 word \<Rightarrow> string \<Rightarrow> int \<times> byte list) \<Rightarrow> sock_env \<Rightarrow> int \<Rightarrow> Service \<Rightarrow> (bool \<times> Service) result" where
  "Service_Init pton senv sys_listen s =
     ebind (TCPServer_Init pton senv sys_listen (TCPServer_new (svc_addr s) (svc_threads s) kRoundRobin)) (\<lambda>(ok, srv).
     let s1 = s\<lparr>listen_loop := True, tcp_srv := Some srv\<rparr> in
     if \<not> ok then Inr (False, s1\<lparr>svc_stopped := True\<rparr>) else Inr (True, s1))"

definition Service_Start :: "Service \<Rightarrow> (bool \<times> Service) result" where
  "Service_Start s =
     (if svc_stopped s then Inr (False, s)
      else
        let s1 = s\<lparr>listen_thr := True\<rparr> in
        case tcp_srv s1 of
          None \<Rightarrow> Inl NullPointer
        | Some srv \<Rightarrow> ebind (TCPServer_Start srv) (\<lambda>(ok, srv1). Inr (ok, s1\<lparr>tcp_srv := Some srv1\<rparr>)))"

text \<open>\<open>now\<close> tells whether \<^verbatim>\<open>Stop\<close> is called in the listening loop's thread. The listening loop is told to stop too.\<close>

definition Service_Stop :: "(TCPConn, conn_event) conn_api \<Rightarrow> loop_env \<Rightarrow> bool \<Rightarrow> Service \<Rightarrow> Service result" where
  "Service_Stop api env now s =
     (case tcp_srv s of
        None \<Rightarrow> Inl NullPointer
      | Some srv \<Rightarrow>
          ebind (TCPServer_Stop api env False now srv) (\<lambda>srv1.
          if \<not> listen_loop s then Inl NullPointer
          else Inr (s\<lparr>tcp_srv := Some srv1, svc_callbacks := Map.empty, svc_stopped := True\<rparr>)))"

text \<open>Deleting a \<^verbatim>\<open>std::thread\<close> that has been neither joined nor detached calls \<^verbatim>\<open>std::terminate\<close>.\<close>

definition Service_delete :: "(TCPConn, conn_event) conn_api \<Rightarrow> loop_env \<Rightarrow> bool \<Rightarrow> Service \<Rightarrow> unit result" where
  "Service_delete api env now s =
     ebind (if svc_stopped s then Inr s else Service_Stop api env now s) (\<lambda>s1.
     if listen_thr s1 then Inl (Thrown ''std::terminate'')
     else case tcp_srv s1 of None \<Rightarrow> Inr () | Some srv \<Rightarrow> TCPServer_delete srv)"

end
