(* ===== verification/Http_Service_Props.thy ===== *)
theory Http_Service_Props
  imports Http_Service Http_Progress
begin

text \<open>
  The service: a request is answered by the callback of its path, a malformed one by an error that closes the connection,
  the loop over the requests in the input buffer ends; and the defects that keep the service from working at all.
\<close>

section \<open>The loop ends\<close>

text \<open>Whatever is sent, nothing is put into the input buffer.\<close>

definition shrinks :: "TCPConn \<Rightarrow> TCPConn \<Rightarrow> bool" where
  "shrinks c c' \<longleftrightarrow> (buf_inv (input_buffer c) \<longrightarrow>
     buf_inv (input_buffer c') \<and> length (contents (input_buffer c')) \<le> length (contents (input_buffer c)))"

definition tame :: "user_code \<Rightarrow> bool" where
  "tame user \<longleftrightarrow> (\<forall>f c c'. user f c = Inr c' \<longrightarrow> shrinks c c')"

lemma shrinks_refl: "input_buffer c' = input_buffer c \<Longrightarrow> shrinks c c'"
  by (simp add: shrinks_def)

lemma shrinks_trans: "shrinks a b \<Longrightarrow> shrinks b c \<Longrightarrow> shrinks a c"
  by (auto simp: shrinks_def)

lemma shrinks_cong: "shrinks a b \<Longrightarrow> input_buffer a' = input_buffer a \<Longrightarrow> input_buffer b' = input_buffer b \<Longrightarrow> shrinks a' b'"
  by (simp add: shrinks_def)

lemma invoke_shrinks: "tame user \<Longrightarrow> invoke user f c = Inr c' \<Longrightarrow> shrinks c c'"
  unfolding tame_def invoke_def by (rule shrinks_cong [of "c\<lparr>calls := calls c @ [f]\<rparr>" c']) auto

lemma HandleClose_shrinks:
  assumes "tame user" "HandleClose user env c = Inr c'"
  shows "shrinks c c'"
proof (cases "tc_status c = kDisconnected")
  case True
  then show ?thesis using assms(2) by (simp add: HandleClose_def shrinks_refl)
next
  case False
  then show ?thesis
    using assms(2)
    by (auto simp: HandleClose_def ebind_Inr_iff Let_def shrinks_def dest!: invoke_shrinks [OF assms(1)] split: if_splits)
qed

lemma queue_rest_shrinks: "queue_rest env d c = Inr c' \<Longrightarrow> shrinks c c'"
  by (rule shrinks_refl)
    (auto simp: queue_rest_def Let_def with_chan_def QueueTask_def ebind_Inr_iff split: if_splits option.splits)

lemma sys_send_input: "sys_send d c = (r, c1) \<Longrightarrow> input_buffer c1 = input_buffer c"
  by (auto simp: sys_send_def split: list.splits sum.splits)

lemma SendInLoop_shrinks:
  assumes "tame user" "SendInLoop user env d c = Inr c'"
  shows "shrinks c c'"
proof -
  have q: "shrinks c c'" if "queue_rest env x c1 = Inr c'" "input_buffer c1 = input_buffer c" for x c1
    using queue_rest_shrinks [OF that(1)] that(2) by (auto intro: shrinks_cong)
  have h: "shrinks c c'" if "HandleError user env c1 = Inr c'" "input_buffer c1 = input_buffer c" for c1
    using HandleClose_shrinks [OF assms(1), of env "c1\<lparr>tc_status := kDisconnecting\<rparr>" c'] that
    by (simp add: HandleError_def shrinks_def)
  obtain r c1 where s: "sys_send d (c\<lparr>accepted := accepted c @ d\<rparr>) = (r, c1)" by fastforce
  have i: "input_buffer c1 = input_buffer c" using sys_send_input [OF s] by simp
  show ?thesis
    using assms(2) s i q h
    by (auto simp: SendInLoop_def Let_def with_chan_def ebind_Inr_iff QueueTask_def shrinks_refl
        split: if_splits option.splits sum.splits)
qed

lemma Send_shrinks:
  assumes "tame user"
  shows "Send_string user env d c = Inr c' \<Longrightarrow> shrinks c c'" "Send_data user env d c = Inr c' \<Longrightarrow> shrinks c c'"
    "Send_buffer user env b c = Inr (b', c') \<Longrightarrow> shrinks c c'"
  using SendInLoop_shrinks [OF assms]
  by (auto simp: Send_string_def Send_data_def Send_buffer_def QueueTask_def shrinks_refl ebind_Inr_iff split: if_splits prod.splits)

lemma api_exec_shrinks:
  assumes "tame user" "api_exec user env a c = Inr c'"
  shows "shrinks c c'"
proof (cases a)
  case (Consume n)
  then show ?thesis
    using assms(2) Buffer_Next_inv [of "input_buffer c" n] by (auto simp: api_exec_def ebind_Inr_iff shrinks_def)
qed (use assms Send_shrinks [OF assms(1)] in \<open>auto simp: api_exec_def TCPConn_Close_def QueueTask_def shrinks_refl split: if_splits\<close>)

lemma api_run_shrinks: "tame user \<Longrightarrow> api_run user env as c = Inr c' \<Longrightarrow> shrinks c c'"
  by (induction as arbitrary: c) (auto simp: shrinks_refl ebind_Inr_iff intro: shrinks_trans api_exec_shrinks)

lemma user_at_tame: "tame (user_at env prog n)"
  by (induction n) (auto simp: tame_def intro: api_run_shrinks)

lemma send_body_shrinks:
  assumes "tame user" "send_body user env chunk body c = Inr c'"
  shows "shrinks c c'"
  using assms(2)
  by (auto simp: send_body_def ebind_Inr_iff shrinks_refl intro: shrinks_trans dest!: Send_shrinks [OF assms(1)] split: if_splits)

lemma SendReply_shrinks:
  assumes "tame user" "SendReply user env date code hdrs body (resp, c) = Inr (resp', c')"
  shows "shrinks c c'"
  using assms(2)
  by (auto simp: SendReply_def SendContinue_def ebind_Inr_iff shrinks_def TCPConn_Close_def QueueTask_def
      dest!: Send_shrinks [OF assms(1)] send_body_shrinks [OF assms(1)] split: if_splits)

lemma run_replies_shrinks: "tame user \<Longrightarrow> run_replies user env date rs (resp, c) = Inr (resp', c') \<Longrightarrow> shrinks c c'"
proof (induction rs arbitrary: resp c)
  case Nil
  then show ?case by (simp add: shrinks_refl)
next
  case (Cons x rs)
  obtain code hdrs body where x: "x = (code, hdrs, body)" by (cases x)
  then obtain r1 c1 where "SendReply user env date code hdrs body (resp, c) = Inr (r1, c1)"
    "run_replies user env date rs (r1, c1) = Inr (resp', c')" using Cons.prems(2) by (auto simp: ebind_Inr_iff)
  then show ?case using Cons SendReply_shrinks shrinks_trans by metis
qed

text \<open>A turn of the loop takes at least one byte out of the input buffer.\<close>

lemma RequestHandler_consumes:
  assumes "tame user" "buf_inv (input_buffer c)" "contents (input_buffer c) \<noteq> []"
    "p_state (hr_parser hr) = s_pre_start_req" "http_errno (hr_parser hr) = HPE_OK" "parser_inv (hr_parser hr)"
    "RequestHandler callbacks default_cb user env date hr c = Inr (0, hr1, c1)"
  shows "buf_inv (input_buffer c1) \<and> length (contents (input_buffer c1)) < length (contents (input_buffer c))"
proof -
  obtain h buf rs resp' where p: "HttpRequest_Parse (input_buffer c) hr = Inr (HPE_OK, h, buf)"
    "run_replies user env date rs (HttpResponse_new h, c\<lparr>input_buffer := buf\<rparr>) = Inr (resp', c1)"
    using assms(7) by (auto simp: RequestHandler_def ebind_Inr_iff Let_def split: if_splits)
  have "buf_inv buf \<and> length (contents buf) < length (contents (input_buffer c))" by (rule Parse_consumes [OF assms(2-6) p(1)])
  moreover have "shrinks (c\<lparr>input_buffer := buf\<rparr>) c1" by (rule run_replies_shrinks [OF assms(1) p(2)])
  ultimately show ?thesis by (auto simp: shrinks_def)
qed

definition sane_parser :: "http_parser \<Rightarrow> bool" where
  "sane_parser p \<longleftrightarrow> - (2 ^ 63) \<le> content_length p \<and> content_length p \<le> INT64_MAX"

lemma new_request_ready:
  assumes "sane_parser p" "HttpRequest_new p u = Inr hr"
  shows "p_state (hr_parser hr) = s_pre_start_req" "http_errno (hr_parser hr) = HPE_OK" "parser_inv (hr_parser hr)"
  using assms by (auto simp: HttpRequest_new_def ebind_Inr_iff http_parser_init_def parser_inv_def state_inv_def sane_parser_def)

lemma message_loop_returns:
  assumes "tame user" "sane_parser p" "buf_inv (input_buffer c)"
  shows "\<exists>r. \<forall>n. length (contents (input_buffer c)) < n \<longrightarrow>
    message_loop callbacks default_cb user env date p u n (ctx, c) = Some r"
  using assms(3)
proof (induction "length (contents (input_buffer c))" arbitrary: c rule: less_induct)
  case less
  let ?loop = "message_loop callbacks default_cb user env date p u"
  let ?h = "ebind (HttpRequest_new p u) (\<lambda>hr. RequestHandler callbacks default_cb user env date (set_remote_ip (remote_addr c) hr) c)"
  have l: "Buffer_length (input_buffer c) = Inr (write_index (input_buffer c) - read_index (input_buffer c))"
    "write_index (input_buffer c) - read_index (input_buffer c) = 0 \<longleftrightarrow> contents (input_buffer c) = []"
    using Buffer_length_inv [OF less.prems] unat_length_inv [OF less.prems] by (auto simp: size_eq_iff)
  have step: "\<exists>r. \<forall>n. length (contents (input_buffer c)) < n \<longrightarrow> ?loop n (ctx, c) = Some r"
    if "\<exists>r. \<forall>m \<ge> length (contents (input_buffer c)). ?loop (Suc m) (ctx, c) = Some r"
    using that by (metis less_Suc_eq_le less_imp_Suc_add)
  consider (empty) "contents (input_buffer c) = []" | (throws) x where "contents (input_buffer c) \<noteq> []" "?h = Inl x"
    | (ended) ret hr1 c1 where "contents (input_buffer c) \<noteq> []" "?h = Inr (ret, hr1, c1)" "ret \<noteq> 0"
    | (again) hr1 c1 where "contents (input_buffer c) \<noteq> []" "?h = Inr (0, hr1, c1)"
    by (metis sum.exhaust prod_cases3)
  then show ?case
  proof cases
    case again
    then obtain hr where hr: "HttpRequest_new p u = Inr hr"
      "RequestHandler callbacks default_cb user env date (set_remote_ip (remote_addr c) hr) c = Inr (0, hr1, c1)"
      by (auto simp: ebind_Inr_iff)
    have s: "buf_inv (input_buffer c1)" "length (contents (input_buffer c1)) < length (contents (input_buffer c))"
      using RequestHandler_consumes [OF assms(1) less.prems again(1) _ _ _ hr(2)] new_request_ready [OF assms(2) hr(1)]
      by (simp_all add: set_remote_ip_def)
    obtain r where "\<forall>n. length (contents (input_buffer c1)) < n \<longrightarrow> ?loop n (ctx, c1) = Some r"
      using less.hyps [OF s(2,1)] by blast
    then show ?thesis using s(2) again l by (intro step exI [of _ r]) simp
  next
    case ended
    then show ?thesis using l by (intro step exI [of _ "Inr (if ret < 0 then ctx else RequestContext hr1, c1)"]) simp
  qed (use l in \<open>intro step, simp\<close>)+
qed

section \<open>Answers\<close>

lemma Parse_reserved: "HttpRequest_Parse b r = Inr (err, r', b') \<Longrightarrow> buf_reserved b' = buf_reserved b"
  by (auto simp: HttpRequest_Parse_def ebind_Inr_iff Let_def Buffer_Retrieve_def dest: Buffer_Skip_reserved
      split: option.splits if_splits)

lemma open_parsed:
  assumes "conn_open c" "parser_inv (hr_parser hr)" "hr_thrown hr = None"
    "HttpRequest_Parse (input_buffer c) hr = Inr (err, hr1, buf)"
  shows "conn_open (c\<lparr>input_buffer := buf\<rparr>)"
proof -
  have b: "buf_inv (input_buffer c)" using assms(1) by (simp add: conn_open_def conn_owing_def conn_bufs_def)
  have "buf_inv buf" using HttpRequest_Parse_ok [OF b assms(2,3)] assms(4) by (auto simp: parse_result_def)
  then show ?thesis using assms(1) Parse_reserved [OF assms(4)]
    by (simp add: conn_open_def conn_owing_def conn_bufs_def conn_fns_def out_bytes_def)
qed

text \<open>What \<^verbatim>\<open>100 Continue\<close> and every other reply put on the connection, and whether the connection ends with it.\<close>

definition wire_bytes :: "string option \<Rightarrow> http_reply \<Rightarrow> HttpResponse \<Rightarrow> byte list" where
  "wire_bytes date reply resp = (case reply of (code, hdrs, body) \<Rightarrow>
     if code = 100 then status_bytes resp (100, ''Continue'') @ CRLF @ CRLF else reply_bytes date code hdrs body resp)"

definition last_reply :: "http_reply \<Rightarrow> HttpResponse \<Rightarrow> bool" where
  "last_reply reply resp \<longleftrightarrow> fst reply \<noteq> 100 \<and> closes (fst reply) resp"

context closing_user begin

lemma SendContinue_sent:
  assumes "conn_open c" "tc_status c = kConnected" "small_version resp"
    "room (length (status_bytes resp (100, ''Continue'') @ CRLF @ CRLF)) c"
  shows "\<exists>c'. SendContinue user env resp c = Inr c' \<and> sent (status_bytes resp (100, ''Continue'') @ CRLF @ CRLF) c c'"
proof -
  let ?s = "status_bytes resp (100, ''Continue'')" and ?N = "length (status_bytes resp (100, ''Continue'') @ CRLF @ CRLF)"
  have m: "the (map_of http_status_code 100) = ''Continue''" by (simp add: http_status_code_def)
  have "16 + 3 * ?N < 2 ^ 63" using assms(4) by (simp add: room_def)
  then obtain b where b: "Buffer_new kInitialSize kCheapPrependSize = Inr b" "holds ?N b []" using holds_new by blast
  obtain b1 where b1: "append_status resp (100, ''Continue'') b = Inr b1" "holds ?N b1 ?s"
    using printedD [OF append_status_printed [OF assms(3), of "(100, ''Continue'')"] b(2)] by auto
  obtain b2 where b2: "Buffer_Append (CRLF @ CRLF) b1 = Inr b2" "holds ?N b2 (?s @ CRLF @ CRLF)"
    using holds_append [OF b1(2), of "CRLF @ CRLF"] by blast
  have "ready (length (contents b2)) c" "buf_inv b2" using b2(2) assms(1,2,4) by (simp_all add: holds_def ready_def)
  then obtain b3 c' where "Send_buffer user env b2 c = Inr (b3, c')" "sent (contents b2) c c'" using Send_buffer_sent by blast
  then show ?thesis using b(1) b1(1) b2 m by (simp add: SendContinue_def holds_def)
qed

lemma any_reply_sent:
  assumes "conn_open c" "tc_status c = kConnected" "length body < 2 ^ 31"
    "room (length (wire_bytes date (code, hdrs, body) (HttpResponse_new hr))) c"
  shows "\<exists>resp c'. SendReply user env date code hdrs body (HttpResponse_new hr, c) = Inr (resp, c') \<and>
    (chan_gone c' \<or> accepted c' = accepted c @ wire_bytes date (code, hdrs, body) (HttpResponse_new hr) \<and>
      tc_status c' = (if last_reply (code, hdrs, body) (HttpResponse_new hr) then kDisconnecting else kConnected))"
proof (cases "code = 100")
  case True
  then obtain c' where "SendContinue user env (HttpResponse_new hr) c = Inr c'"
    "sent (wire_bytes date (code, hdrs, body) (HttpResponse_new hr)) c c'"
    using SendContinue_sent [OF assms(1,2) new_small_version] assms(4) by (auto simp: wire_bytes_def)
  then show ?thesis
    using True assms(2) gone_chan_gone [of c'] by (auto simp: SendReply_def sent_def last_reply_def)
next
  case False
  let ?r = "HttpResponse_new hr"
  obtain c' where c': "SendReply user env date code hdrs body (?r, c) =
      Inr (answered code hdrs ?r, if closes code ?r then TCPConn_Close c' else c')" "sent (reply_bytes date code hdrs body ?r) c c'"
    using SendReply_sent [OF assms(1,2) new_small_version False assms(3), of date hdrs hr] assms(4) False
    by (auto simp: wire_bytes_def)
  let ?d = "if closes code ?r then TCPConn_Close c' else c'"
  have "chan_gone ?d \<or> accepted ?d = accepted c @ reply_bytes date code hdrs body ?r \<and>
      tc_status ?d = (if closes code ?r then kDisconnecting else kConnected)"
    using c'(2) gone_chan_gone [of c'] by (auto simp: sent_def TCPConn_Close_def QueueTask_def chan_gone_def)
  then show ?thesis using c'(1) False by (simp add: wire_bytes_def last_reply_def)
qed

end

text \<open>The reply that a parsed request gets, if any, what \<^verbatim>\<open>RequestHandler\<close> returns and the request it leaves: an error, a
  complete request whose callback makes at most one reply before it returns, and an incomplete one.\<close>

definition answers_with ::
  "(string \<rightharpoonup> http_handler) \<Rightarrow> http_handler \<Rightarrow> http_errno \<Rightarrow> http_request \<Rightarrow> http_reply option \<Rightarrow> int \<Rightarrow> http_request \<Rightarrow> bool" where
  "answers_with callbacks default_cb err hr reply ret hr' \<longleftrightarrow>
     (if err \<noteq> HPE_OK then reply = Some (400, [], []) \<and> ret = -1 \<and> hr' = hr
      else if hr_completed hr then
        ret = 0 \<and> hr' = hr \<and> (\<exists>path. url_path hr = Inr path \<and>
          (case callbacks path of None \<Rightarrow> default_cb | Some f \<Rightarrow> f) hr = (case reply of None \<Rightarrow> [] | Some r \<Rightarrow> [r]))
      else if hr_field_value hr ''Expect'' \<noteq> None \<and> \<not> hr_send_continue hr then
        reply = Some (100, [], []) \<and> ret = 1 \<and> hr' = hr\<lparr>hr_send_continue := True\<rparr>
      else reply = None \<and> ret = 1 \<and> hr' = hr)"

lemma Expect_differs: "strcasecmp_differs ''Expect'' ''100-continue''"
  by (simp add: strcasecmp_differs_def)

lemma RequestHandler_silent:
  assumes "HttpRequest_Parse (input_buffer c) hr = Inr (err, hr1, buf)" "answers_with callbacks default_cb err hr1 None ret hr2"
  shows "RequestHandler callbacks default_cb user env date hr c = Inr (ret, hr2, c\<lparr>input_buffer := buf\<rparr>)"
  using assms Expect_differs
  by (auto simp: RequestHandler_def answers_with_def Let_def split: if_splits option.splits)

lemma RequestHandler_SendReply:
  assumes "HttpRequest_Parse (input_buffer c) hr = Inr (err, hr1, buf)"
    "answers_with callbacks default_cb err hr1 (Some (code, hdrs, body)) ret hr2"
    "SendReply user env date code hdrs body (HttpResponse_new hr1, c\<lparr>input_buffer := buf\<rparr>) = Inr (resp, c')"
  shows "RequestHandler callbacks default_cb user env date hr c = Inr (ret, hr2, c')"
  using assms Expect_differs
  by (auto simp: RequestHandler_def answers_with_def Let_def set_continue_def split: if_splits option.splits)

section \<open>Properties\<close>

text \<open>C34. A call of \<^verbatim>\<open>RequestHandler\<close> whose bytes parse: a malformed request is answered by \<^verbatim>\<open>400 Bad Request\<close> and gives
  \<open>-1\<close>; a complete one is answered by the callback registered for its path, or by the default one, and gives \<open>0\<close>; an
  incomplete one gives \<open>1\<close>, answered by \<^verbatim>\<open>100 Continue\<close>, once, when it has an Expect field, and not at all otherwise. The
  bytes of the one reply, and nothing else, go on the connection, unless the peer is found gone, and the connection is closed
  exactly when the reply says so; without a reply the connection changes only by the bytes taken from its input buffer. A
  callback is taken to make at most one reply before it returns.\<close>

theorem RequestHandler_answers:
  assumes "libevent_ok env" "civil m prog" "conn_open c" "tc_status c = kConnected" "parser_inv (hr_parser hr)" "hr_thrown hr = None"
    "HttpRequest_Parse (input_buffer c) hr = Inr (err, hr1, buf)" "answers_with callbacks default_cb err hr1 reply ret hr2"
    "\<And>code hdrs body. reply = Some (code, hdrs, body) \<Longrightarrow>
      length body < 2 ^ 31 \<and> room (length (wire_bytes date (code, hdrs, body) (HttpResponse_new hr1))) c"
  shows "\<exists>c'. RequestHandler callbacks default_cb (user_at env prog (Suc (Suc 0))) env date hr c = Inr (ret, hr2, c') \<and>
    (case reply of
       None \<Rightarrow> c' = c\<lparr>input_buffer := buf\<rparr>
     | Some r \<Rightarrow> chan_gone c' \<or> accepted c' = accepted c @ wire_bytes date r (HttpResponse_new hr1) \<and>
         tc_status c' = (if last_reply r (HttpResponse_new hr1) then kDisconnecting else kConnected))"
proof (cases reply)
  case None
  then show ?thesis using RequestHandler_silent [OF assms(7)] assms(8) by simp
next
  case (Some r)
  obtain code hdrs body where r: "r = (code, hdrs, body)" by (cases r)
  let ?c = "c\<lparr>input_buffer := buf\<rparr>" and ?r = "HttpResponse_new hr1"
  have l: "length body < 2 ^ 31" "room (length (wire_bytes date (code, hdrs, body) ?r)) c" using assms(9) Some r by blast+
  have c: "conn_open ?c" "tc_status ?c = kConnected" "room (length (wire_bytes date (code, hdrs, body) ?r)) ?c"
    using open_parsed [OF assms(3,5-7)] assms(4) l(2) by (simp_all add: room_def out_bytes_def)
  obtain resp c' where c': "SendReply (user_at env prog (Suc (Suc 0))) env date code hdrs body (?r, ?c) = Inr (resp, c')"
    "chan_gone c' \<or> accepted c' = accepted ?c @ wire_bytes date (code, hdrs, body) ?r \<and>
      tc_status c' = (if last_reply (code, hdrs, body) ?r then kDisconnecting else kConnected)"
    using closing_user.any_reply_sent [OF closing_user_at [OF assms(1,2)] c(1,2) l(1) c(3)] by blast
  then show ?thesis
    using RequestHandler_SendReply [OF assms(7) _ c'(1)] assms(8) Some r by (simp del: user_at.simps)
qed

text \<open>A connection whose input buffer holds given bytes.\<close>

definition receiving :: "byte list \<Rightarrow> TCPConn" where
  "receiving d = healthy_conn\<lparr>input_buffer := bytes_buffer d\<rparr>"

lemma receiving_facts:
  assumes "length d < 1000"
  shows "conn_open (receiving d)" "tc_status (receiving d) = kConnected" "accepted (receiving d) = ''x''"
    "input_buffer (receiving d) = bytes_buffer d" "n < 1000 \<Longrightarrow> room n (receiving d)"
proof -
  show "conn_open (receiving d)"
    using healthy_conn_open bytes_buffer_facts(1) [OF assms]
    by (simp add: receiving_def conn_open_def conn_owing_def conn_bufs_def conn_fns_def out_bytes_def)
      (simp add: bytes_buffer_def kCheapPrependSize_def)
qed (simp_all add: receiving_def healthy_conn_def idle_conn_def sample_conn_def room_def out_bytes_def)

lemma parsed_get:
  "case HttpRequest_Parse (bytes_buffer get_bytes) sample_request of Inl x \<Rightarrow> False
   | Inr (err, r, b) \<Rightarrow> err = HPE_OK \<and> hr_completed r \<and> url_path r = Inr ''/a'' \<and> \<not> closes 404 (HttpResponse_new r) \<and>
       reply_bytes None 404 [] [] (HttpResponse_new r) = ''HTTP/1.1 404 Not Found'' @ CRLF @ ''Content-Length:0'' @ CRLF @
         ''Content-Type:text/html; charset=ISO-8859-1'' @ CRLF @ CRLF"
  by code_simp

definition part_bytes :: "byte list" where
  "part_bytes = ''POST / HTTP/1.1'' @ CRLF @ ''Content-Length:1'' @ CRLF @ CRLF"

lemma parsed_part:
  "case HttpRequest_Parse (bytes_buffer part_bytes) sample_request of Inl x \<Rightarrow> False
   | Inr (err, r, b) \<Rightarrow> err = HPE_OK \<and> \<not> hr_completed r \<and> Option.is_none (hr_field_value r ''Expect'') \<and> contents b = []"
  by code_simp

definition post_bytes :: "byte list" where
  "post_bytes = ''POST / HTTP/1.1'' @ CRLF @ ''Expect:y'' @ CRLF @ ''Content-Length:1'' @ CRLF @ CRLF"

lemma parsed_post:
  "case HttpRequest_Parse (bytes_buffer post_bytes) sample_request of Inl x \<Rightarrow> False
   | Inr (err, r, b) \<Rightarrow> err = HPE_OK \<and> \<not> hr_completed r \<and> \<not> Option.is_none (hr_field_value r ''Expect'') \<and>
       \<not> hr_send_continue r \<and> status_bytes (HttpResponse_new r) (100, ''Continue'') = ''HTTP/1.1 100 Continue''"
  by code_simp

lemma parsed_abc:
  "case HttpRequest_Parse (bytes_buffer ''abc'') sample_request of Inl x \<Rightarrow> False
   | Inr (err, r, b) \<Rightarrow> err = HPE_INVALID_METHOD \<and> reply_bytes None 400 [] [] (HttpResponse_new r) =
       ''HTTP/0.0 400 Bad Request'' @ CRLF @ CRLF"
  by code_simp

definition handle :: "byte list \<Rightarrow> (int \<times> http_request \<times> TCPConn) result" where
  "handle d = RequestHandler Map.empty default_handler (user_at good_env echo_prog (Suc (Suc 0))) good_env None sample_request (receiving d)"

theorem RequestHandler_answers_witness:
  "(\<exists>hr c'. handle ''abc'' = Inr (-1, hr, c') \<and> (chan_gone c' \<or>
      accepted c' = ''xHTTP/0.0 400 Bad Request'' @ CRLF @ CRLF \<and> tc_status c' = kDisconnecting)) \<and>
    (\<exists>hr c'. handle get_bytes = Inr (0, hr, c') \<and> (chan_gone c' \<or> tc_status c' = kConnected \<and>
      accepted c' = ''xHTTP/1.1 404 Not Found'' @ CRLF @ ''Content-Length:0'' @ CRLF @
         ''Content-Type:text/html; charset=ISO-8859-1'' @ CRLF @ CRLF)) \<and>
    (\<exists>hr c'. handle post_bytes = Inr (1, hr, c') \<and> hr_send_continue hr \<and> (chan_gone c' \<or>
      accepted c' = ''xHTTP/1.1 100 Continue'' @ CRLF @ CRLF \<and> tc_status c' = kConnected)) \<and>
    (\<exists>hr b. handle part_bytes = Inr (1, hr, (receiving part_bytes)\<lparr>input_buffer := b\<rparr>) \<and> contents b = [])"
    (is "?A \<and> ?B \<and> ?C \<and> ?D")
proof -
  have p: "parser_inv (hr_parser sample_request)" "hr_thrown sample_request = None" by (simp_all add: sample_request_def init_inv)
  have l: "length ''abc'' < 1000" "length get_bytes < 1000" "length post_bytes < 1000" "length part_bytes < 1000"
    by (simp_all add: get_bytes_def post_bytes_def part_bytes_def)
  note answers = RequestHandler_answers [OF good_env_ok echo_civil _ _ p]
  have ?A
  proof -
    obtain r b where r: "HttpRequest_Parse (input_buffer (receiving ''abc'')) sample_request = Inr (HPE_INVALID_METHOD, r, b)"
      "reply_bytes None 400 [] [] (HttpResponse_new r) = ''HTTP/0.0 400 Bad Request'' @ CRLF @ CRLF"
      using parsed_abc receiving_facts(4) [OF l(1)] by (auto split: sum.splits)
    have a: "answers_with Map.empty default_handler HPE_INVALID_METHOD r (Some (400, [], [])) (-1) r" by (simp add: answers_with_def)
    show ?thesis
      using answers [OF receiving_facts(1,2) [OF l(1)] r(1) a, of None] receiving_facts(3,5) [OF l(1)]
      by (auto simp: handle_def wire_bytes_def r(2) last_reply_def closes_def simp del: user_at.simps)
  qed
  moreover have ?B
  proof -
    obtain r b where r: "HttpRequest_Parse (input_buffer (receiving get_bytes)) sample_request = Inr (HPE_OK, r, b)"
      "hr_completed r" "url_path r = Inr ''/a''" "\<not> closes 404 (HttpResponse_new r)"
      "reply_bytes None 404 [] [] (HttpResponse_new r) = ''HTTP/1.1 404 Not Found'' @ CRLF @ ''Content-Length:0'' @ CRLF @
         ''Content-Type:text/html; charset=ISO-8859-1'' @ CRLF @ CRLF"
      using parsed_get receiving_facts(4) [OF l(2)] by (auto split: sum.splits)
    have a: "answers_with Map.empty default_handler HPE_OK r (Some (404, [], [])) 0 r"
      using r(2,3) by (simp add: answers_with_def default_handler_def)
    show ?thesis
      using answers [OF receiving_facts(1,2) [OF l(2)] r(1) a, of None] receiving_facts(3,5) [OF l(2)] r(4)
      by (auto simp: handle_def wire_bytes_def r(5) last_reply_def simp del: user_at.simps)
  qed
  moreover have ?C
  proof -
    obtain r b where r: "HttpRequest_Parse (input_buffer (receiving post_bytes)) sample_request = Inr (HPE_OK, r, b)"
      "\<not> hr_completed r" "hr_field_value r ''Expect'' \<noteq> None" "\<not> hr_send_continue r"
      "status_bytes (HttpResponse_new r) (100, ''Continue'') = ''HTTP/1.1 100 Continue''"
      using parsed_post receiving_facts(4) [OF l(3)] by (auto simp: Option.is_none_def split: sum.splits)
    have a: "answers_with Map.empty default_handler HPE_OK r (Some (100, [], [])) 1 (r\<lparr>hr_send_continue := True\<rparr>)"
      using r(2-4) by (simp add: answers_with_def)
    show ?thesis
      using answers [OF receiving_facts(1,2) [OF l(3)] r(1) a, of None] receiving_facts(3,5) [OF l(3)]
      by (auto simp: handle_def wire_bytes_def r(5) last_reply_def simp del: user_at.simps)
  qed
  moreover have ?D
  proof -
    obtain r b where r: "HttpRequest_Parse (input_buffer (receiving part_bytes)) sample_request = Inr (HPE_OK, r, b)"
      "\<not> hr_completed r" "hr_field_value r ''Expect'' = None" "contents b = []"
      using parsed_part receiving_facts(4) [OF l(4)] by (auto simp: Option.is_none_def split: sum.splits)
    have a: "answers_with Map.empty default_handler HPE_OK r None 1 r" using r(2,3) by (simp add: answers_with_def)
    show ?thesis
      using answers [OF receiving_facts(1,2) [OF l(4)] r(1) a, of None] r(4) by (auto simp: handle_def simp del: user_at.simps)
  qed
  ultimately show ?thesis by blast
qed

text \<open>C37. The loop over the requests in the input buffer ends, whatever the bytes are and whatever the callbacks reply: each
  turn that goes on has removed at least one byte, so that after at most one turn more than there are bytes in the buffer the
  loop has returned, with a result that does not depend on the bound; and that result is what \<^verbatim>\<open>OnMessage\<close> returns
  on a connection with a context.\<close>

theorem message_loop_ends:
  assumes "sane_parser p" "buf_inv (input_buffer c)"
  shows "\<exists>r. (\<forall>n. length (contents (input_buffer c)) < n \<longrightarrow>
      message_loop callbacks default_cb (user_at env prog k) env date p u n (ctx, c) = Some r) \<and>
    (ctx \<noteq> NoContext \<longrightarrow> OnMessage callbacks default_cb (user_at env prog k) env date p u (ctx, c) = r)"
  using message_loop_returns [OF user_at_tame assms] by (fastforce simp: OnMessage_def)

theorem message_loop_ends_witness:
  "\<exists>r. message_loop Map.empty default_handler (user_at good_env echo_prog 2) good_env None blank_parser blank_url 4
      (OtherContext, idle_conn) = Some r \<and>
    OnMessage Map.empty default_handler (user_at good_env echo_prog 2) good_env None blank_parser blank_url (OtherContext, idle_conn) = r"
proof -
  have "sane_parser blank_parser" "buf_inv (input_buffer idle_conn)" "length (contents (input_buffer idle_conn)) < 4"
    by (simp_all add: sane_parser_def blank_parser_def INT64_MAX_def idle_conn_def sample_conn_def)
  then show ?thesis
    using message_loop_ends [of blank_parser idle_conn Map.empty default_handler good_env echo_prog 2 None blank_url OtherContext]
    by fastforce
qed

text \<open>The message callback of the service, on a connection without a context.\<close>

definition service_user :: "Service \<Rightarrow> user_code \<Rightarrow> loop_env \<Rightarrow> string option \<Rightarrow> http_parser \<Rightarrow> http_parser_url \<Rightarrow> user_code" where
  "service_user s user env date p u f c =
     (if f = MsgFn then ebind (OnMessage (svc_callbacks s) (svc_default s) user env date p u (NoContext, c)) (\<lambda>(_, c1). Inr c1)
      else user f c)"

text \<open>C38. The first bytes that arrive on any connection of the service end in an uncaught exception: \<^verbatim>\<open>OnMessage\<close> casts the
  context to a request exactly when there is none.\<close>

theorem first_message_throws:
  assumes "conn_open c" "in_loop_thread env" "readv_within k readv" "16 + 3 * (length (in_bytes c) + k) < 2 ^ 63"
    "\<And>n m. \<exists>bs. readv n m = Inr bs \<and> (0 < n + m \<longrightarrow> bs \<noteq> [])"
  shows "HandleRead (service_user s user env date p u) env readv c = Inl (Thrown ''std::bad_any_cast'')"
proof -
  have b: "conn_bufs c" "msg_fn c" "\<exists>ch. tc_chan c = Some ch" using assms(1) by (auto simp: conn_open_def conn_owing_def conn_fns_def)
  let ?w = "unat (capacity (input_buffer c)) - unat (write_index (input_buffer c))"
  let ?x = "if ?w < extrabuf_size then extrabuf_size else 0"
  have "0 < ?w + ?x" by (auto simp: extrabuf_size_def)
  then obtain bs where bs: "readv ?w ?x = Inr bs" "bs \<noteq> []" using assms(5) [of ?w ?x] by (metis (no_types))
  have i: "buf_inv (input_buffer c)" "readv_ok readv" using b(1) assms(3) by (simp_all add: conn_bufs_def readv_within_def)
  have "can_grow (input_buffer c) (length bs)"
  proof -
    have "length bs \<le> k" using assms(3) bs(1) unfolding readv_within_def by metis
    then show ?thesis using b(1) assms(4) by (simp add: can_grow_def conn_bufs_def kCheapPrependSize_def in_bytes_def)
  qed
  from Buffer_ReadFromFD_inv [OF i(1) this i(2) bs(1)] obtain ib where
    ib: "Buffer_ReadFromFD readv (input_buffer c) = Inr (Inr (length bs), ib)" by blast
  obtain ch where "tc_chan c = Some ch" using b(3) by blast
  then show ?thesis
    using b(2) assms(2) ib bs(2) by (simp add: HandleRead_def with_chan_def Let_def invoke_def service_user_def OnMessage_def any_cast_def)
qed

theorem first_message_throws_witness:
  "HandleRead (service_user (Service_new ''0.0.0.0:80'' 2) (\<lambda>f. Inr) good_env None blank_parser blank_url) good_env hello_readv idle_conn =
    Inl (Thrown ''std::bad_any_cast'')"
proof (rule first_message_throws [OF idle_conn_open])
  show "\<And>n m. \<exists>bs. hello_readv n m = Inr bs \<and> (0 < n + m \<longrightarrow> bs \<noteq> [])" by (auto simp: hello_readv_def)
  show "16 + 3 * (length (in_bytes idle_conn) + 5) < 2 ^ 63" by (simp add: idle_conn_def sample_conn_def in_bytes_def)
qed (simp_all add: good_env_def)

text \<open>A service that was started cannot be destroyed: its thread is neither joined nor detached, so that the destructor
  calls \<^verbatim>\<open>std::terminate\<close>.\<close>

theorem Service_delete_terminates:
  assumes "can_listen pton senv addr"
  shows "ebind (Service_Init pton senv sl (Service_new addr n)) (\<lambda>(_, s). ebind (Service_Start s) (\<lambda>(_, s1).
    Service_delete api env False s1)) = Inl (Thrown ''std::terminate'')"
proof -
  obtain srv1 :: "TCPConn TCPServer" where x: "ebind (TCPServer_Init pton senv sl (TCPServer_new addr n kRoundRobin)) (\<lambda>(_, s). TCPServer_Start s) = Inr (True, srv1)"
    "sv_status srv1 = kRunning" using server_starts [OF assms] by blast
  obtain ok srv where y: "TCPServer_Init pton senv sl (TCPServer_new addr n kRoundRobin) = Inr (ok, srv)" "TCPServer_Start srv = Inr (True, srv1)"
    using x(1) by (auto simp: ebind_Inr_iff)
  have ok using y(1) by (auto simp: TCPServer_Init_def ebind_Inr_iff)
  with y x(2) show ?thesis
    by (simp add: Service_Init_def Service_Start_def Service_delete_def Service_Stop_def Service_new_def TCPServer_Stop_def Let_def)
qed

theorem Service_delete_terminates_witness:
  "ebind (Service_Init sample_pton sample_senv 0 (Service_new sample_laddr 2)) (\<lambda>(_, s). ebind (Service_Start s) (\<lambda>(_, s1).
    Service_delete (tcp_server good_env echo_prog (\<lambda>_. [])) good_env False s1)) = Inl (Thrown ''std::terminate'')"
  by (rule Service_delete_terminates [OF sample_can_listen])

end
