(* ===== verification/Dns_Resolver.thy ===== *)
theory Dns_Resolver
  imports Event_Watcher Fd_Channel
begin

text \<open>
  \<^verbatim>\<open>eventpp::DNSResolver\<close> (include/eventpp/dns_resolver.hpp, src/dns_resolver.cpp): an asynchronous query of evdns
  under a timer. The answer, the time-out and a cancellation come in any order, and evdns reports a
  cancelled query later once more; the resolver calls its functor once. evdns is a library: of a query the model keeps whether it is
  out and whether it was cancelled.
\<close>

section \<open>State\<close>

definition EVUTIL_EAI_CANCEL :: int where "EVUTIL_EAI_CANCEL = -90001"

text \<open>What evdns knows of the query: there is none (or it has reported), it is out, or it is out and cancelled.\<close>

datatype evdns_query = NoQuery | QueryOut | QueryCancelled

text \<open>\<open>dr_functor\<close> tells whether \<^verbatim>\<open>functor_\<close> is set, \<open>dr_base\<close> and \<open>dr_req\<close> whether the pointers are; \<open>dr_calls\<close> are the calls of
  the functor so far. Addresses are the four bytes of an \<^verbatim>\<open>in_addr\<close>.\<close>

record DNSResolver =
  dr_base :: bool
  dr_req :: bool
  dr_host :: string
  dr_timeout :: Duration
  dr_functor :: bool
  dr_err :: int
  dr_timer :: "EventWatcher option"
  dr_addrs :: "byte list list"
  dr_query :: evdns_query
  dr_calls :: "(byte list list \<times> int) list"

definition DNSResolver_new :: "string \<Rightarrow> Duration \<Rightarrow> DNSResolver" where
  "DNSResolver_new h timeout = \<lparr>dr_base = False, dr_req = False, dr_host = h, dr_timeout = timeout, dr_functor = True, dr_err = 0,
     dr_timer = None, dr_addrs = [], dr_query = NoQuery, dr_calls = []\<rparr>"

definition DNSResolver_delete :: "DNSResolver \<Rightarrow> unit result" where
  "DNSResolver_delete r = asserting (\<not> dr_base r) (asserting (dr_timer r = None) (Inr ()))"

section \<open>Operations\<close>

definition evdns_getaddrinfo_cancel :: "DNSResolver \<Rightarrow> DNSResolver result" where
  "evdns_getaddrinfo_cancel r =
     (if \<not> dr_req r then Inl NullPointer
      else if dr_query r = NoQuery then Inl OutOfBounds
      else Inr (r\<lparr>dr_query := QueryCancelled\<rparr>))"

definition evdns_base_free :: "DNSResolver \<Rightarrow> DNSResolver result" where
  "evdns_base_free r = (if dr_base r then Inr (r\<lparr>dr_base := False\<rparr>) else Inl NullPointer)"

definition Dns_OnCanceled :: "DNSResolver \<Rightarrow> DNSResolver result" where
  "Dns_OnCanceled r =
     ebind (evdns_getaddrinfo_cancel (r\<lparr>dr_err := EVUTIL_EAI_CANCEL\<rparr>)) (\<lambda>r1. Inr (r1\<lparr>dr_req := False\<rparr>))"

definition Dns_Cancel :: "loop_env \<Rightarrow> DNSResolver \<Rightarrow> DNSResolver result" where
  "Dns_Cancel env r =
     asserting (in_loop_thread env) (
     ebind (case dr_timer r of
              None \<Rightarrow> Inr r
            | Some w \<Rightarrow>
                ebind (Watcher_Cancel w) (\<lambda>(cb, w1).
                ebind (if cb then Dns_OnCanceled (r\<lparr>dr_timer := Some w1\<rparr>) else Inr r) (\<lambda>r1. Inr (r1\<lparr>dr_timer := None\<rparr>)))) (\<lambda>r1.
       Inr (r1\<lparr>dr_functor := False\<rparr>)))"

definition ClearTimer :: "DNSResolver \<Rightarrow> DNSResolver result" where
  "ClearTimer r =
     (case dr_timer r of
        None \<Rightarrow> Inl NullPointer
      | Some w \<Rightarrow> ebind (Watcher_Cancel (w\<lparr>ew_cancel_callback := False\<rparr>)) (\<lambda>_. Inr (r\<lparr>dr_timer := None\<rparr>)))"

text \<open>\<open>cancels\<close> tells whether the functor cancels its resolver, as that of a \<^verbatim>\<open>Connector\<close> does when it gives up.\<close>

definition call_functor :: "loop_env \<Rightarrow> bool \<Rightarrow> DNSResolver \<Rightarrow> DNSResolver result" where
  "call_functor env cancels r =
     (if dr_functor r then
        let r1 = r\<lparr>dr_calls := dr_calls r @ [(dr_addrs r, dr_err r)]\<rparr> in
        ebind (if cancels then Dns_Cancel env r1 else Inr r1) (\<lambda>r2. Inr (r2\<lparr>dr_functor := False\<rparr>))
      else Inr r)"

text \<open>The address of an \<^verbatim>\<open>addrinfo\<close> is read as a \<^verbatim>\<open>sockaddr_in\<close> whatever its family.\<close>

definition sin_addr :: "byte list \<Rightarrow> byte list" where
  "sin_addr sa = range_of 4 8 sa"

definition collect_addrs :: "byte list list \<Rightarrow> DNSResolver \<Rightarrow> DNSResolver" where
  "collect_addrs answer r =
     r\<lparr>dr_addrs := dr_addrs r @ filter (\<lambda>a. a \<noteq> replicate 4 (CHR 0x00)) (map sin_addr answer)\<rparr>"

text \<open>The callback of the query. \<open>addr\<close> is the list of answers, \<open>None\<close> when the pointer is null.\<close>

definition Dns_OnResolved :: "loop_env \<Rightarrow> bool \<Rightarrow> int \<Rightarrow> byte list list option \<Rightarrow> DNSResolver \<Rightarrow> DNSResolver result" where
  "Dns_OnResolved env cancels errcode addr r =
     (let r0 = r\<lparr>dr_err := errcode\<rparr> in
      if errcode \<noteq> 0 then
        ebind (if errcode \<noteq> EVUTIL_EAI_CANCEL then ClearTimer r0 else Inr r0) (\<lambda>r1.
        ebind (evdns_base_free r1) (call_functor env cancels))
      else
        case addr of
          None \<Rightarrow> ebind (evdns_base_free r0) (\<lambda>r1. ebind (ClearTimer r1) (call_functor env cancels))
        | Some answer \<Rightarrow>
            ebind (ClearTimer (collect_addrs answer r0)) (\<lambda>r1. ebind (evdns_base_free r1) (call_functor env cancels)))"

definition Dns_OnTimeout :: "loop_env \<Rightarrow> bool \<Rightarrow> DNSResolver \<Rightarrow> DNSResolver result" where
  "Dns_OnTimeout env cancels r =
     ebind (evdns_getaddrinfo_cancel (r\<lparr>dr_err := EVUTIL_EAI_CANCEL\<rparr>)) (\<lambda>r1.
     ebind (ClearTimer (r1\<lparr>dr_req := False\<rparr>)) (call_functor env cancels))"

definition Dns_AsyncWait :: "watch_env \<Rightarrow> DNSResolver \<Rightarrow> DNSResolver result" where
  "Dns_AsyncWait wenv r =
     ebind (EventWatcher_new (TimerWatcher (dr_timeout r))) (\<lambda>w.
     ebind (Watcher_Init wenv (SetCancelCallback w)) (\<lambda>(_, w1).
     ebind (AsyncWait wenv w1) (\<lambda>(_, w2). Inr (r\<lparr>dr_timer := Some w2\<rparr>))))"

text \<open>\<^verbatim>\<open>evdns_getaddrinfo\<close> may answer before it returns (a name of the hosts file), \<open>at_once\<close>; then it returns a null pointer.
  \<open>base\<close> tells whether \<^verbatim>\<open>evdns_base_new\<close> gives a base.\<close>

definition AsyncDNSResolve ::
  "watch_env \<Rightarrow> loop_env \<Rightarrow> bool \<Rightarrow> bool \<Rightarrow> (int \<times> byte list list option) option \<Rightarrow> DNSResolver \<Rightarrow> DNSResolver result" where
  "AsyncDNSResolve wenv env base cancels at_once r =
     ebind (Dns_AsyncWait wenv r) (\<lambda>r1.
     let r2 = r1\<lparr>dr_base := base\<rparr> in
     asserting (dr_base r2)
      (case at_once of
         Some (errcode, addr) \<Rightarrow> ebind (Dns_OnResolved env cancels errcode addr r2) (\<lambda>r3. Inr (r3\<lparr>dr_req := False\<rparr>))
       | None \<Rightarrow> Inr (r2\<lparr>dr_req := True, dr_query := QueryOut\<rparr>)))"

text \<open>The blocking variant, for a libevent without \<^verbatim>\<open>evdns_getaddrinfo\<close>; \<open>err\<close> and \<open>answer\<close> are what \<^verbatim>\<open>getaddrinfo\<close> gives.\<close>

definition SyncDNSResolve :: "loop_env \<Rightarrow> bool \<Rightarrow> int \<Rightarrow> byte list list \<Rightarrow> DNSResolver \<Rightarrow> DNSResolver result" where
  "SyncDNSResolve env cancels err answer r =
     (let r1 = r\<lparr>dr_err := err\<rparr> in call_functor env cancels (if err = 0 then collect_addrs answer r1 else r1))"

text \<open>\<^verbatim>\<open>Start\<close> in the loop's thread.\<close>

definition DNSResolver_Start ::
  "watch_env \<Rightarrow> loop_env \<Rightarrow> bool \<Rightarrow> bool \<Rightarrow> (int \<times> byte list list option) option \<Rightarrow> DNSResolver \<Rightarrow> DNSResolver result" where
  "DNSResolver_Start wenv env base cancels at_once r =
     asserting (in_loop_thread env) (AsyncDNSResolve wenv env base cancels at_once (r\<lparr>dr_err := EVUTIL_EAI_CANCEL\<rparr>))"

section \<open>Events\<close>

text \<open>evdns reports on a query that is out, the time is up, or the owner cancels. A cancelled query is reported with
  \<^verbatim>\<open>EVUTIL_EAI_CANCEL\<close>, and only such a one. After its report a query is gone.\<close>

datatype dns_event = QueryReports bool int "byte list list option" | DnsTimeUp bool | DnsCancel

definition dns_step :: "loop_env \<Rightarrow> dns_event \<Rightarrow> DNSResolver \<Rightarrow> DNSResolver result" where
  "dns_step env e r =
     (case e of
        QueryReports cancels errcode addr \<Rightarrow>
          (case dr_query r of
             NoQuery \<Rightarrow> Inr r
           | QueryOut \<Rightarrow>
               if errcode = EVUTIL_EAI_CANCEL then Inr r
               else Dns_OnResolved env cancels errcode addr (r\<lparr>dr_query := NoQuery\<rparr>)
           | QueryCancelled \<Rightarrow> Dns_OnResolved env cancels EVUTIL_EAI_CANCEL None (r\<lparr>dr_query := NoQuery\<rparr>))
      | DnsTimeUp cancels \<Rightarrow>
          (case dr_timer r of
             None \<Rightarrow> Inr r
           | Some w \<Rightarrow>
               if ew_event w = Some True then Dns_OnTimeout env cancels (r\<lparr>dr_timer := Some (w\<lparr>ew_event := Some False\<rparr>)\<rparr>)
               else Inr r)
      | DnsCancel \<Rightarrow> Dns_Cancel env r)"

fun dns_run :: "loop_env \<Rightarrow> dns_event list \<Rightarrow> DNSResolver \<Rightarrow> DNSResolver result" where
  "dns_run env [] r = Inr r"
| "dns_run env (e # es) r = ebind (dns_step env e r) (dns_run env es)"

section \<open>The functor is called once\<close>

definition dns_armed :: "bool \<Rightarrow> DNSResolver \<Rightarrow> bool" where
  "dns_armed t r \<longleftrightarrow>
     (case dr_timer r of
        None \<Rightarrow> False
      | Some w \<Rightarrow> ew_event w \<noteq> None \<and> (t \<longrightarrow> ew_event w = Some True) \<and> ew_cancel_callback w)"

text \<open>\<open>t\<close> tells whether the event base has taken the timer, \<open>c\<close> whether the owner has cancelled.\<close>

definition dns_inv :: "bool \<Rightarrow> bool \<Rightarrow> DNSResolver \<Rightarrow> bool" where
  "dns_inv t c r \<longleftrightarrow>
     (if dr_query r = QueryOut then dr_base r \<and> dr_req r \<and> dr_functor r \<and> dr_calls r = [] \<and> dr_addrs r = [] \<and> dns_armed t r
      else \<not> dr_functor r \<and> dr_timer r = None \<and> (dr_base r \<longleftrightarrow> dr_query r = QueryCancelled) \<and>
        (if c then length (dr_calls r) \<le> 1 else length (dr_calls r) = 1)) \<and>
     (\<forall>(addrs, err) \<in> set (dr_calls r). replicate 4 (CHR 0x00) \<notin> set addrs \<and> (addrs \<noteq> [] \<longrightarrow> err = 0))"

lemmas dns_defs = dns_inv_def dns_armed_def Dns_OnResolved_def Dns_OnTimeout_def Dns_OnCanceled_def Dns_Cancel_def ClearTimer_def
  call_functor_def collect_addrs_def evdns_getaddrinfo_cancel_def evdns_base_free_def Watcher_Cancel_def FreeEvent_def Let_def

lemma dns_step_inv:
  assumes "dns_inv t c r" "in_loop_thread env"
  shows "yields (dns_step env e r) (dns_inv t (c \<or> e = DnsCancel))"
proof (cases e)
  case (QueryReports cancels errcode addr)
  then show ?thesis using assms
    by (cases "dr_query r") (auto simp: dns_step_def dns_defs EVUTIL_EAI_CANCEL_def split: option.splits if_splits)
next
  case (DnsTimeUp cancels)
  then show ?thesis using assms
    by (auto simp: dns_step_def dns_defs split: option.splits if_splits)
next
  case DnsCancel
  then show ?thesis using assms
    by (cases "dr_query r") (auto simp: dns_step_def dns_defs split: option.splits if_splits)
qed

lemma dns_run_inv:
  assumes "dns_inv t c r" "in_loop_thread env"
  shows "yields (dns_run env es r) (dns_inv t (c \<or> DnsCancel \<in> set es))"
  using assms(1)
proof (induction es arbitrary: c r)
  case (Cons e es)
  have "yields (dns_step env e r) (\<lambda>r'. yields (dns_run env es r') (dns_inv t ((c \<or> e = DnsCancel) \<or> DnsCancel \<in> set es)))"
    by (rule yields_mono [OF dns_step_inv [OF Cons.prems assms(2)]]) (rule Cons.IH)
  then show ?case by (simp add: disj_assoc eq_commute [of DnsCancel])
qed simp

lemma dns_run_append: "dns_run env (es @ es') r = ebind (dns_run env es r) (dns_run env es')"
  by (induction es arbitrary: r) (auto simp: ebind_def split: sum.splits)

lemma time_up_over:
  assumes "dns_inv True c r" "in_loop_thread env"
  shows "yields (dns_step env (DnsTimeUp b) r) (\<lambda>r'. dr_query r' \<noteq> QueryOut)"
  using assms by (auto simp: dns_step_def dns_defs split: option.splits if_splits)

text \<open>\<^verbatim>\<open>Start\<close> arms the timer, as an \<^verbatim>\<open>InvokeTimer\<close> does.\<close>

lemma Dns_AsyncWait_armed:
  "yields (Dns_AsyncWait wenv r) (\<lambda>r'. \<exists>w. r' = r\<lparr>dr_timer := Some w\<rparr> \<and> ew_event w \<noteq> None \<and> ew_cancel_callback w \<and>
    ((\<forall>tv. we_add wenv tv) \<longrightarrow> ew_event w = Some True))"
  by (fastforce simp: Dns_AsyncWait_def EventWatcher_new_def SetCancelCallback_def timer_Init watcher_ops Watch_def Let_def)

lemma Start_inv:
  assumes "in_loop_thread env" "\<And>a. at_once \<noteq> Some (EVUTIL_EAI_CANCEL, a)"
  shows "yields (DNSResolver_Start wenv env True b at_once (DNSResolver_new h d)) (dns_inv (\<forall>tv. we_add wenv tv) False)"
proof (cases at_once)
  case None
  then show ?thesis using assms(1)
    by (auto simp: DNSResolver_Start_def AsyncDNSResolve_def DNSResolver_new_def dns_inv_def dns_armed_def
        intro!: yields_mono [OF Dns_AsyncWait_armed])
next
  case (Some p)
  obtain errcode addr where p: "p = (errcode, addr)" by fastforce
  have "errcode \<noteq> EVUTIL_EAI_CANCEL" using assms(2) Some p by auto
  then show ?thesis using assms(1) Some p
    by (auto simp: DNSResolver_Start_def AsyncDNSResolve_def DNSResolver_new_def dns_defs EVUTIL_EAI_CANCEL_def split: option.splits
        intro!: yields_mono [OF Dns_AsyncWait_armed])
qed

lemma Start_run_inv:
  assumes "in_loop_thread env" "\<And>a. at_once \<noteq> Some (EVUTIL_EAI_CANCEL, a)"
  shows "yields (ebind (DNSResolver_Start wenv env True b at_once (DNSResolver_new h d)) (dns_run env es))
    (dns_inv (\<forall>tv. we_add wenv tv) (DnsCancel \<in> set es))"
proof -
  have "yields (DNSResolver_Start wenv env True b at_once (DNSResolver_new h d))
      (\<lambda>r. yields (dns_run env es r) (dns_inv (\<forall>tv. we_add wenv tv) (False \<or> DnsCancel \<in> set es)))"
    by (rule yields_mono [OF Start_inv [OF assms]]) (rule dns_run_inv [OF _ assms(1)])
  then show ?thesis by simp
qed

lemma Start_without_base:
  assumes "in_loop_thread env"
  shows "DNSResolver_Start wenv env False b at_once r = Inl AssertFail"
proof -
  obtain r1 where "Dns_AsyncWait wenv (r\<lparr>dr_err := EVUTIL_EAI_CANCEL\<rparr>) = Inr r1"
    using Dns_AsyncWait_armed yieldsE by blast
  then show ?thesis using assms by (simp add: DNSResolver_Start_def AsyncDNSResolve_def)
qed

section \<open>Properties\<close>

text \<open>C27. Provided \<^verbatim>\<open>evdns_base_new\<close> gives a base (otherwise \<^verbatim>\<open>Start\<close> fails on its assertion): however the report of the
  query, the time-out and cancellations are ordered, and whether or not evdns answers at once, nothing fails and the functor is
  called at most once, exactly once when the owner does not cancel and the query is over. Addresses it is given are
  not zero. When the query is gone the resolver can be destroyed.\<close>

theorem DNSResolver_calls_once:
  assumes "in_loop_thread env" "\<And>a. at_once \<noteq> Some (EVUTIL_EAI_CANCEL, a)"
  shows "if base then
      yields (ebind (DNSResolver_Start wenv env base b at_once (DNSResolver_new h d)) (dns_run env es)) (\<lambda>r.
        length (dr_calls r) \<le> 1 \<and>
        (dr_query r \<noteq> QueryOut \<and> DnsCancel \<notin> set es \<longrightarrow> length (dr_calls r) = 1) \<and>
        (\<forall>(addrs, err) \<in> set (dr_calls r). replicate 4 (CHR 0x00) \<notin> set addrs \<and> (addrs \<noteq> [] \<longrightarrow> err = 0)) \<and>
        (dr_query r = NoQuery \<longrightarrow> DNSResolver_delete r = Inr ()))
    else DNSResolver_Start wenv env base b at_once (DNSResolver_new h d) = Inl AssertFail"
proof (cases base)
  case True
  have "yields (ebind (DNSResolver_Start wenv env True b at_once (DNSResolver_new h d)) (dns_run env es)) (\<lambda>r.
      length (dr_calls r) \<le> 1 \<and>
      (dr_query r \<noteq> QueryOut \<and> DnsCancel \<notin> set es \<longrightarrow> length (dr_calls r) = 1) \<and>
      (\<forall>(addrs, err) \<in> set (dr_calls r). replicate 4 (CHR 0x00) \<notin> set addrs \<and> (addrs \<noteq> [] \<longrightarrow> err = 0)) \<and>
      (dr_query r = NoQuery \<longrightarrow> DNSResolver_delete r = Inr ()))"
    by (rule yields_mono [OF Start_run_inv [OF assms]]) (auto simp: dns_inv_def DNSResolver_delete_def split: if_splits)
  then show ?thesis using True by (simp only: if_True)
next
  case False
  then show ?thesis using Start_without_base [OF assms(1)] by simp
qed

definition dns_env :: loop_env where
  "dns_env = \<lparr>in_loop_thread = True, event_add = (\<lambda>_ _. 0), event_del = (\<lambda>_. 0)\<rparr>"

definition dns_watch_env :: watch_env where
  "dns_watch_env = \<lparr>we_socketpair = None, we_nonblocking = (\<lambda>_. True), we_assign = True, we_add = (\<lambda>_. True)\<rparr>"

text \<open>The query is out; the time is up; evdns reports the cancelled query.\<close>

lemma dns_sample_over:
  "case ebind (DNSResolver_Start dns_watch_env dns_env True False None (DNSResolver_new ''db'' (Duration_of_ns 5)))
      (dns_run dns_env [DnsTimeUp False, QueryReports False 0 None]) of Inl x \<Rightarrow> False | Inr r \<Rightarrow> dr_query r = NoQuery"
  by code_simp

theorem DNSResolver_calls_once_witness:
  "(\<exists>r. ebind (DNSResolver_Start dns_watch_env dns_env True False None (DNSResolver_new ''db'' (Duration_of_ns 5)))
      (dns_run dns_env [DnsTimeUp False, QueryReports False 0 None]) = Inr r \<and> length (dr_calls r) = 1 \<and>
      DNSResolver_delete r = Inr ()) \<and>
   DNSResolver_Start dns_watch_env dns_env False False None (DNSResolver_new ''db'' (Duration_of_ns 5)) = Inl AssertFail"
proof -
  let ?run = "\<lambda>base. DNSResolver_Start dns_watch_env dns_env base False None (DNSResolver_new ''db'' (Duration_of_ns 5))"
  have e: "in_loop_thread dns_env" by (simp add: dns_env_def)
  have "yields (ebind (?run True) (dns_run dns_env [DnsTimeUp False, QueryReports False 0 None]))
      (\<lambda>r. dr_query r = NoQuery \<longrightarrow> length (dr_calls r) = 1 \<and> DNSResolver_delete r = Inr ())"
    by (rule yields_mono [OF DNSResolver_calls_once [OF e, where base = True, unfolded if_True]]) simp_all
  moreover have "?run False = Inl AssertFail"
    by (rule DNSResolver_calls_once [OF e, where base = False, unfolded if_False]) simp
  ultimately show ?thesis using dns_sample_over by (fastforce elim: yieldsE)
qed

text \<open>A query cannot leave its owner waiting: when the time is up at the latest the functor has been called, unless the owner
  has cancelled.\<close>

theorem DNSResolver_answers:
  assumes "in_loop_thread env" "\<And>a. at_once \<noteq> Some (EVUTIL_EAI_CANCEL, a)" "\<And>tv. we_add wenv tv" "DnsCancel \<notin> set es"
  shows "yields (ebind (DNSResolver_Start wenv env True b at_once (DNSResolver_new h d)) (dns_run env (es @ [DnsTimeUp b']))) (\<lambda>r.
    length (dr_calls r) = 1)"
proof -
  let ?start = "DNSResolver_Start wenv env True b at_once (DNSResolver_new h d)"
  have "yields (ebind ?start (dns_run env es)) (\<lambda>r. yields (dns_step env (DnsTimeUp b') r)
      (\<lambda>r'. dr_query r' \<noteq> QueryOut))"
    by (rule yields_mono [OF Start_run_inv [OF assms(1,2)]]) (use assms in \<open>auto intro: time_up_over\<close>)
  then have over: "yields (ebind ?start (dns_run env (es @ [DnsTimeUp b']))) (\<lambda>r. dr_query r \<noteq> QueryOut)"
    by (simp add: dns_run_append ebind_def [of _ Inr] cong: sum.case_cong)
  have inv: "yields (ebind ?start (dns_run env (es @ [DnsTimeUp b']))) (dns_inv True False)"
    using Start_run_inv [OF assms(1,2), where es = "es @ [DnsTimeUp b']" and wenv = wenv and b = b and h = h and d = d]
      assms(3,4) by (simp del: yields_simps)
  show ?thesis using yields_conj [OF over inv] by (rule yields_mono) (simp add: dns_inv_def)
qed

theorem DNSResolver_answers_witness:
  "yields (ebind (DNSResolver_Start dns_watch_env dns_env True False None (DNSResolver_new ''db'' (Duration_of_ns 5)))
      (dns_run dns_env ([QueryReports True 0 (Some [])] @ [DnsTimeUp False]))) (\<lambda>r. length (dr_calls r) = 1)"
  by (rule DNSResolver_answers) (simp_all add: dns_env_def dns_watch_env_def)

end
