(* ===== verification/Tcp_Client.thy ===== *)
theory Tcp_Client
  imports Sockets Dns_Resolver Tcp_Conn_Props
begin

text \<open>
  \<^verbatim>\<open>eventpp::Connector\<close> (src/tcp/connector.cpp) and \<^verbatim>\<open>eventpp::TCPClient\<close> (src/tcp/tcp_client.cpp): connecting,
  resolving the host, time-outs, retries and reconnecting, all in one loop's thread. A \<^verbatim>\<open>Connector\<close> is shared by the
  client, by its own timer, channel and resolver and by the functor of a later \<^verbatim>\<open>Start\<close>; it lives in a store and is
  destroyed when the last of them lets go of it. The answers of the system to an attempt to connect are arguments,
  as is the application's connection callback \<open>app\<close>, in so far as it acts on the client.
\<close>

section \<open>State\<close>

datatype connector_status = CnDisconnected | CnDNSResolving | CnDNSResolved | CnConnecting | CnConnected

text \<open>Of \<^verbatim>\<open>dns_resolver_\<close> the model keeps whether it is set and whether it still has its functor, which \<open>Dns_Resolver\<close> shows to be
  called once and then released. \<open>cn_timer\<close> tells whether \<^verbatim>\<open>timer_\<close> is set; a timer that is set is armed.\<close>

datatype dns_ref = NoResolver | Resolving | Answered

record Connector =
  cn_status :: connector_status
  cn_remote_host :: string
  cn_remote_port :: int
  cn_raddr :: sockaddr_storage
  cn_fd :: int
  cn_own_fd :: bool
  cn_chan :: "FdChannel option"
  cn_timer :: bool
  cn_dns :: dns_ref

text \<open>What the application is told: a connection could not be made, or it is up, or it ends.\<close>

datatype notice = ConnectFailed | ConnectionUp | ConnectionDown

text \<open>\<open>cl_heap\<close> is the store of the connectors and \<open>cl_next\<close> its next free address; \<open>cl_restarts\<close> are the pending calls
  of \<^verbatim>\<open>Connector::Start\<close>; \<open>cl_held\<close> the connectors that a local \<^verbatim>\<open>self\<close> keeps alive; \<open>cl_fds\<close> are the open descriptors that belong to connectors; \<open>cl_notices\<close> is what the application was told.\<close>

record TCPClient =
  cl_local_addr :: string
  cl_remote_addr :: string
  cl_name :: string
  auto_reconnect :: bool
  cl_conn :: "TCPConn option"
  cl_connector :: "nat option"
  cl_heap :: "nat \<Rightarrow> Connector option"
  cl_next :: nat
  cl_next_id :: "64 word"
  cl_restarts :: "nat list"
  cl_held :: "nat list"
  cl_fds :: "int list"
  cl_notices :: "notice list"

type_synonym app_code = "notice \<Rightarrow> TCPClient \<Rightarrow> TCPClient result"

text \<open>The system's answers to an attempt: the socket, \<^verbatim>\<open>bind\<close> and \<^verbatim>\<open>connect\<close> by their \<^verbatim>\<open>errno\<close>, which is 0 on success; the addresses of the
  host, with the value of \<^verbatim>\<open>errno\<close> then, when the resolver answers at once; and what \<^verbatim>\<open>raddr_\<close> of a new connector holds before it is written.\<close>

record attempt =
  at_sock :: sock_env
  at_bind :: int
  at_connect :: int
  at_dns :: "(byte list list \<times> int) option"
  at_junk :: sockaddr_storage

definition EINPROGRESS :: int where "EINPROGRESS = 115"
definition ECONNREFUSED :: int where "ECONNREFUSED = 111"
definition ETIMEDOUT :: int where "ETIMEDOUT = 110"

definition EVUTIL_ERR_CONNECT_RETRIABLE :: "int \<Rightarrow> bool" where
  "EVUTIL_ERR_CONNECT_RETRIABLE e \<longleftrightarrow> e = EINTR \<or> e = EINPROGRESS"

definition TCPClient_new :: "string \<Rightarrow> string \<Rightarrow> TCPClient" where
  "TCPClient_new raddr n = \<lparr>cl_local_addr = [], cl_remote_addr = raddr, cl_name = n, auto_reconnect = True, cl_conn = None,
     cl_connector = None, cl_heap = (\<lambda>_. None), cl_next = 0, cl_next_id = 0, cl_restarts = [], cl_held = [], cl_fds = [], cl_notices = []\<rparr>"

definition Client_Bind :: "string \<Rightarrow> TCPClient \<Rightarrow> TCPClient" where
  "Client_Bind addr s = s\<lparr>cl_local_addr := addr\<rparr>"

definition set_auto_reconnect :: "bool \<Rightarrow> TCPClient \<Rightarrow> TCPClient" where
  "set_auto_reconnect v s = s\<lparr>auto_reconnect := v\<rparr>"

section \<open>The store\<close>

text \<open>A connector that has been destroyed must not be used.\<close>

definition with_cn :: "nat \<Rightarrow> TCPClient \<Rightarrow> (Connector \<Rightarrow> 'a result) \<Rightarrow> 'a result" where
  "with_cn i s f = (case cl_heap s i of None \<Rightarrow> Inl OutOfBounds | Some c \<Rightarrow> f c)"

definition put_cn :: "nat \<Rightarrow> Connector \<Rightarrow> TCPClient \<Rightarrow> TCPClient" where
  "put_cn i c s = s\<lparr>cl_heap := (cl_heap s)(i \<mapsto> c)\<rparr>"

text \<open>Who holds a \<^verbatim>\<open>shared_ptr\<close> of a connector.\<close>

definition cn_shared :: "nat \<Rightarrow> Connector \<Rightarrow> TCPClient \<Rightarrow> bool" where
  "cn_shared i c s \<longleftrightarrow> cl_connector s = Some i \<or> i \<in> set (cl_restarts s) \<or> i \<in> set (cl_held s) \<or> cn_timer c \<or> cn_dns c = Resolving \<or>
     (case cn_chan c of None \<Rightarrow> False | Some ch \<Rightarrow> write_fn ch)"

definition Connector_delete :: "loop_env \<Rightarrow> nat \<Rightarrow> TCPClient \<Rightarrow> TCPClient result" where
  "Connector_delete env i s =
     with_cn i s (\<lambda>c.
     asserting (in_loop_thread env) (
     ebind (if cn_status c = CnDNSResolving then
              asserting (cn_chan c = None) (asserting (cn_dns c = NoResolver) (asserting (\<not> cn_timer c) (Inr (cn_fd c, cl_fds s))))
            else if cn_status c \<noteq> CnConnected then
              asserting (cn_own_fd c)
                (case cn_chan c of
                   None \<Rightarrow> Inl NullPointer
                 | Some ch \<Rightarrow> asserting (ch_fd ch = cn_fd c) (Inr (INVALID_SOCKET, remove1 (cn_fd c) (cl_fds s))))
            else Inr (cn_fd c, cl_fds s)) (\<lambda>(f, fds).
     asserting (f < 0) (
     ebind (case cn_chan c of None \<Rightarrow> Inr () | Some ch \<Rightarrow> FdChannel_delete ch) (\<lambda>_.
       Inr (s\<lparr>cl_heap := (cl_heap s)(i := None), cl_fds := fds\<rparr>))))))"

text \<open>\<open>drop_ref\<close> is what follows when a \<^verbatim>\<open>shared_ptr\<close> is given up.\<close>

definition drop_ref :: "loop_env \<Rightarrow> nat \<Rightarrow> TCPClient \<Rightarrow> TCPClient result" where
  "drop_ref env i s =
     (case cl_heap s i of
        None \<Rightarrow> Inr s
      | Some c \<Rightarrow> if cn_shared i c s then Inr s else Connector_delete env i s)"

section \<open>TCPClient: callbacks of the connector\<close>

text \<open>The application is told, and acts.\<close>

definition notify :: "app_code \<Rightarrow> notice \<Rightarrow> TCPClient \<Rightarrow> TCPClient result" where
  "notify app n s = app n (s\<lparr>cl_notices := cl_notices s @ [n]\<rparr>)"

text \<open>\<^verbatim>\<open>OnConnection\<close> of an attempt that failed.\<close>

definition OnConnection_failed :: "app_code \<Rightarrow> int \<Rightarrow> string \<Rightarrow> TCPClient \<Rightarrow> TCPClient result" where
  "OnConnection_failed app sockfd laddr s =
     ebind (TCPConn_new [] sockfd laddr (cl_remote_addr s) 0 []) (\<lambda>_. notify app ConnectFailed s)"

section \<open>Connector\<close>

definition Connector_new :: "(16 word \<Rightarrow> string \<Rightarrow> int \<times> byte list) \<Rightarrow> sockaddr_storage \<Rightarrow> string \<Rightarrow> Connector result" where
  "Connector_new pton junk addr =
     ebind (SplitHostPort addr [] 0) (\<lambda>(ok, host, port).
     ebind (if ok then ParseFromIPPort_value pton addr else Inr junk) (\<lambda>ra.
       Inr \<lparr>cn_status = CnDisconnected, cn_remote_host = host, cn_remote_port = port, cn_raddr = ra, cn_fd = INVALID_SOCKET,
            cn_own_fd = False, cn_chan = None, cn_timer = False, cn_dns = NoResolver\<rparr>))"

definition close_chan :: "loop_env \<Rightarrow> FdChannel \<Rightarrow> FdChannel result" where
  "close_chan env ch = ebind (DisableAllEvent env ch) FdChannel_Close"

definition Connector_HandleError ::
  "loop_env \<Rightarrow> app_code \<Rightarrow> int \<Rightarrow> nat \<Rightarrow> TCPClient \<Rightarrow> TCPClient result" where
  "Connector_HandleError env app serrno i s =
     asserting (in_loop_thread env) (with_cn i s (\<lambda>c.
     ebind (case cn_chan c of
              None \<Rightarrow> Inr None
            | Some ch \<Rightarrow> asserting (cn_fd c > 0) (ebind (close_chan env ch) (\<lambda>ch1. Inr (Some ch1)))) (\<lambda>chan.
     if \<not> cn_timer c then Inl NullPointer
     else
       let s1 = put_cn i (c\<lparr>cn_status := CnDisconnected, cn_chan := chan, cn_timer := False, cn_dns := NoResolver\<rparr>)
                  (s\<lparr>cl_held := i # cl_held s\<rparr>) in
       ebind (if serrno = ECONNREFUSED \<or> \<not> auto_reconnect s1 then OnConnection_failed app (-1) [] s1 else Inr s1) (\<lambda>s2.
       if auto_reconnect s2 then
         with_cn i s2 (\<lambda>c2.
         ebind (if cn_fd c2 > 0
                then asserting (cn_own_fd c2) (Inr (put_cn i (c2\<lparr>cn_fd := INVALID_SOCKET\<rparr>) (s2\<lparr>cl_fds := remove1 (cn_fd c2) (cl_fds s2)\<rparr>)))
                else Inr s2) (\<lambda>s3.
           Inr (s3\<lparr>cl_restarts := cl_restarts s3 @ [i], cl_held := remove1 i (cl_held s3)\<rparr>)))
       else Inr (s2\<lparr>cl_held := remove1 i (cl_held s2)\<rparr>)))))"

definition Connector_Connect ::
  "(16 word \<Rightarrow> string \<Rightarrow> int \<times> byte list) \<Rightarrow> loop_env \<Rightarrow> app_code \<Rightarrow> attempt \<Rightarrow> nat \<Rightarrow> TCPClient \<Rightarrow> TCPClient result" where
  "Connector_Connect pton env app a i s =
     with_cn i s (\<lambda>c.
     asserting (cn_fd c = INVALID_SOCKET) (
     case CreateNonblockingSocket (at_sock a) (cl_fds s) of (fd, fds) \<Rightarrow>
       let c1 = c\<lparr>cn_fd := fd, cn_own_fd := True\<rparr>; s1 = put_cn i c1 (s\<lparr>cl_fds := fds\<rparr>) in
       asserting (fd \<ge> 0) (
       ebind (if cl_local_addr s1 = [] then Inr False
              else ebind (ParseFromIPPort_value pton (cl_local_addr s1)) (\<lambda>_. Inr (at_bind a \<noteq> 0))) (\<lambda>bind_failed.
       if bind_failed then Connector_HandleError env app (at_bind a) i s1
       else if at_connect a \<noteq> 0 \<and> \<not> EVUTIL_ERR_CONNECT_RETRIABLE (at_connect a)
       then Connector_HandleError env app (at_connect a) i s1
       else
         ebind (FdChannel_new fd False True) (\<lambda>ch.
         ebind (case cn_chan c1 of None \<Rightarrow> Inr () | Some old \<Rightarrow> FdChannel_delete old) (\<lambda>_.
         ebind (AttachToLoop env (SetWriteCallback ch)) (\<lambda>ch1.
           Inr (put_cn i (c1\<lparr>cn_status := CnConnecting, cn_chan := Some ch1\<rparr>) s1))))))))"

text \<open>The address of the host with the port, as a \<^verbatim>\<open>sockaddr_in\<close>; \<open>serrno\<close> is what \<^verbatim>\<open>errno\<close> happens to be.\<close>

definition OnDNSResolved ::
  "(16 word \<Rightarrow> string \<Rightarrow> int \<times> byte list) \<Rightarrow> loop_env \<Rightarrow> app_code \<Rightarrow> attempt \<Rightarrow> int \<Rightarrow> byte list list \<Rightarrow> nat \<Rightarrow> TCPClient \<Rightarrow>
   TCPClient result" where
  "OnDNSResolved pton env app a serrno addrs i s =
     (if addrs = [] then Connector_HandleError env app serrno i s
      else
        with_cn i s (\<lambda>c.
          let ra = splice_at 0 (le_bytes 2 AF_INET @ le_bytes 2 (htons (word_of_int (cn_remote_port c)) :: 16 word) @ hd addrs) (cn_raddr c) in
          Connector_Connect pton env app a i (put_cn i (c\<lparr>cn_raddr := ra, cn_status := CnDNSResolved\<rparr>) s)))"

text \<open>The resolver releases its functor when the functor has returned.\<close>

definition functor_returned :: "nat \<Rightarrow> TCPClient \<Rightarrow> TCPClient" where
  "functor_returned i s =
     (case cl_heap s i of
        None \<Rightarrow> s
      | Some c \<Rightarrow> if cn_dns c = Resolving then put_cn i (c\<lparr>cn_dns := Answered\<rparr>) s else s)"

definition Connector_resolved ::
  "(16 word \<Rightarrow> string \<Rightarrow> int \<times> byte list) \<Rightarrow> loop_env \<Rightarrow> app_code \<Rightarrow> attempt \<Rightarrow> int \<Rightarrow> byte list list \<Rightarrow> nat \<Rightarrow> TCPClient \<Rightarrow>
   TCPClient result" where
  "Connector_resolved pton env app a serrno addrs i s =
     ebind (OnDNSResolved pton env app a serrno addrs i s) (\<lambda>s1. Inr (functor_returned i s1))"

definition Connector_Start ::
  "(16 word \<Rightarrow> string \<Rightarrow> int \<times> byte list) \<Rightarrow> loop_env \<Rightarrow> app_code \<Rightarrow> attempt \<Rightarrow> nat \<Rightarrow> TCPClient \<Rightarrow> TCPClient result" where
  "Connector_Start pton env app a i s =
     asserting (in_loop_thread env) (with_cn i s (\<lambda>c.
     let c1 = c\<lparr>cn_timer := True\<rparr> in
     if \<not> IsZeroAddress (cn_raddr c1) then Connector_Connect pton env app a i (put_cn i c1 s)
     else
       let s1 = put_cn i (c1\<lparr>cn_status := CnDNSResolving, cn_dns := Resolving\<rparr>) s in
       case at_dns a of
         None \<Rightarrow> Inr s1
       | Some (addrs, serrno) \<Rightarrow> Connector_resolved pton env app a serrno addrs i s1))"

definition Connector_Cancel :: "loop_env \<Rightarrow> app_code \<Rightarrow> nat \<Rightarrow> TCPClient \<Rightarrow> TCPClient result" where
  "Connector_Cancel env app i s =
     asserting (in_loop_thread env) (with_cn i s (\<lambda>c.
     asserting (cn_timer c) (
     let c1 = c\<lparr>cn_dns := NoResolver, cn_timer := False\<rparr>; s1 = put_cn i c1 s in
     ebind (if cn_status c1 = CnDNSResolving then asserting (cn_chan c1 = None) (OnConnection_failed app (-1) [] s1) else Inr s1) (\<lambda>s2.
     with_cn i s2 (\<lambda>c2.
     case cn_chan c2 of
       None \<Rightarrow> Inr s2
     | Some ch \<Rightarrow>
         asserting (cn_status c2 \<noteq> CnDNSResolving) (
         ebind (close_chan env ch) (\<lambda>ch1. Inr (put_cn i (c2\<lparr>cn_chan := Some ch1\<rparr>) s2))))))))"

definition OnConnectTimeout :: "loop_env \<Rightarrow> app_code \<Rightarrow> nat \<Rightarrow> TCPClient \<Rightarrow> TCPClient result" where
  "OnConnectTimeout env app i s =
     with_cn i s (\<lambda>c.
     asserting (cn_status c = CnConnecting \<or> cn_status c = CnDNSResolving) (Connector_HandleError env app ETIMEDOUT i s))"

section \<open>TCPClient\<close>

definition Client_Connect ::
  "(16 word \<Rightarrow> string \<Rightarrow> int \<times> byte list) \<Rightarrow> loop_env \<Rightarrow> app_code \<Rightarrow> attempt \<Rightarrow> TCPClient \<Rightarrow> TCPClient result" where
  "Client_Connect pton env app a s =
     asserting (in_loop_thread env) (
     ebind (Connector_new pton (at_junk a) (cl_remote_addr s)) (\<lambda>c.
     let i = cl_next s; s1 = put_cn i c (s\<lparr>cl_connector := Some i, cl_next := i + 1\<rparr>) in
     ebind (case cl_connector s of None \<Rightarrow> Inr s1 | Some j \<Rightarrow> drop_ref env j s1) (\<lambda>s2.
       Connector_Start pton env app a i s2)))"

text \<open>\<^verbatim>\<open>OnRemoveConnection\<close> with \<^verbatim>\<open>Reconnect\<close>.\<close>

definition OnRemoveConnection ::
  "(16 word \<Rightarrow> string \<Rightarrow> int \<times> byte list) \<Rightarrow> loop_env \<Rightarrow> app_code \<Rightarrow> attempt \<Rightarrow> TCPClient \<Rightarrow> TCPClient result" where
  "OnRemoveConnection pton env app a s =
     asserting (in_loop_thread env) (
     let s1 = s\<lparr>cl_conn := None\<rparr> in
     if auto_reconnect s1 then Client_Connect pton env app a s1 else Inr s1)"

text \<open>\<open>answers\<close> are the kernel's answers to \<^verbatim>\<open>send\<close> on the new connection. \<^verbatim>\<open>OnAttachedToLoop\<close> ends with the connection
  callback, after which \<open>app\<close> acts on the client; when the connection is closed before it returns, \<^verbatim>\<open>OnRemoveConnection\<close> has
  been called and the client connects again, attempt \<open>a\<close>.\<close>

definition OnConnection ::
  "(16 word \<Rightarrow> string \<Rightarrow> int \<times> byte list) \<Rightarrow> user_code \<Rightarrow> loop_env \<Rightarrow> app_code \<Rightarrow> attempt \<Rightarrow> (int + nat) list \<Rightarrow> int \<Rightarrow> string \<Rightarrow>
   TCPClient \<Rightarrow> TCPClient result" where
  "OnConnection pton user env app a answers sockfd laddr s =
     (if sockfd < 0 then OnConnection_failed app sockfd laddr s
      else
        asserting (in_loop_thread env) (
        ebind (TCPConn_new (cl_name s) sockfd laddr (cl_remote_addr s) (cl_next_id s) answers) (\<lambda>c.
        let c1 = SetCloseCallback (SetConnectionCallback (SetMessageCallback (set_type kOutgoing c))) in
        ebind (OnAttachedToLoop user env c1) (\<lambda>c2.
        ebind (notify app ConnectionUp (s\<lparr>cl_next_id := cl_next_id s + 1, cl_conn := Some c2\<rparr>))
          (\<lambda>s1. if CloseFn \<in> set (calls c2)
            then ebind (notify app ConnectionDown s1) (OnRemoveConnection pton env app a) else Inr s1)))))"

text \<open>\<open>err\<close> is what \<^verbatim>\<open>SO_ERROR\<close> says, \<open>laddr\<close> the local address of the new connection. The connection callback runs in the middle:
  what follows uses the timer and the channel again. Closing the channel drops the functor that \<^verbatim>\<open>HandleWrite\<close> was called through; if
  no one else holds the connector it is destroyed there, before its last assignments.\<close>

definition Connector_HandleWrite ::
  "(16 word \<Rightarrow> string \<Rightarrow> int \<times> byte list) \<Rightarrow> user_code \<Rightarrow> loop_env \<Rightarrow> app_code \<Rightarrow> attempt \<Rightarrow> (int + nat) list \<Rightarrow> int \<Rightarrow> string \<Rightarrow> nat \<Rightarrow> TCPClient \<Rightarrow> TCPClient result" where
  "Connector_HandleWrite pton user env app a answers err laddr i s =
     with_cn i s (\<lambda>c.
     if cn_status c = CnDisconnected then Inr s
     else
       asserting (cn_status c = CnConnecting)
         (case cn_chan c of
            None \<Rightarrow> Inl NullPointer
          | Some ch \<Rightarrow>
              if err \<noteq> 0 then Connector_HandleError env app err i s
              else
                asserting (cn_fd c = ch_fd ch) (
                ebind (OnConnection pton user env app a answers (ch_fd ch) laddr s) (\<lambda>s1.
                with_cn i s1 (\<lambda>c1.
                if \<not> cn_timer c1 then Inl NullPointer
                else
                  case cn_chan c1 of
                    None \<Rightarrow> Inl NullPointer
                  | Some ch1 \<Rightarrow>
                      ebind (close_chan env ch1) (\<lambda>ch2.
                      let c2 = c1\<lparr>cn_timer := False, cn_chan := Some ch2\<rparr> in
                      if \<not> cn_shared i c2 s1 then Inl OutOfBounds
                      else
                        Inr (put_cn i (c2\<lparr>cn_own_fd := False, cn_fd := INVALID_SOCKET, cn_status := CnConnected\<rparr>)
                          (s1\<lparr>cl_fds := remove1 (cn_fd c2) (cl_fds s1)\<rparr>))))))))"

definition DisconnectInLoop :: "loop_env \<Rightarrow> app_code \<Rightarrow> TCPClient \<Rightarrow> TCPClient result" where
  "DisconnectInLoop env app s =
     asserting (in_loop_thread env) (
     let s0 = s\<lparr>auto_reconnect := False\<rparr> in
     ebind (case cl_conn s0 of
              Some c \<Rightarrow>
                asserting (tc_status c \<noteq> kDisconnected \<and> tc_status c \<noteq> kDisconnecting) (Inr (s0\<lparr>cl_conn := Some (TCPConn_Close c)\<rparr>))
            | None \<Rightarrow>
                (case cl_connector s0 of
                   None \<Rightarrow> Inl AssertFail
                 | Some i \<Rightarrow> with_cn i s0 (\<lambda>c. asserting (cn_status c \<noteq> CnConnected) (Inr s0)))) (\<lambda>s1.
     case cl_connector s1 of
       None \<Rightarrow> Inl NullPointer
     | Some i \<Rightarrow>
         with_cn i s1 (\<lambda>c.
         ebind (if cn_status c = CnConnected \<or> cn_status c = CnDisconnected then Inr s1 else Connector_Cancel env app i s1) (\<lambda>s2.
           drop_ref env i (s2\<lparr>cl_connector := None\<rparr>)))))"

text \<open>The destructor; the result is the connection that lives on until its queued functor has run, without its close callback.\<close>

definition TCPClient_delete :: "TCPClient \<Rightarrow> TCPConn option result" where
  "TCPClient_delete s =
     asserting (cl_connector s = None)
       (case cl_conn s of
          None \<Rightarrow> Inr None
        | Some c \<Rightarrow>
            asserting (tc_status c = kDisconnected \<or> tc_status c = kDisconnecting)
              (if tc_status c = kDisconnecting
               then asserting (tasks c \<noteq> [] \<or> delay_close_timer c) (Inr (Some (c\<lparr>close_fn := False\<rparr>)))
               else Inr None))"

section \<open>Events\<close>

text \<open>What happens to a client in its loop: the application connects or disconnects; the channel of connector \<open>i\<close>
  becomes writable; its timer fires; its resolver answers; a pending start is due; or something happens to the connection.\<close>

datatype client_event =
    DoConnect attempt | DoDisconnect | Writable nat attempt "(int + nat) list" int string | Timeout nat
  | Resolved nat attempt int "byte list list" | RestartDue attempt | ConnHappens attempt conn_event

definition on_connector :: "nat \<Rightarrow> (Connector \<Rightarrow> bool) \<Rightarrow> TCPClient \<Rightarrow> bool" where
  "on_connector i P s \<longleftrightarrow> (case cl_heap s i of None \<Rightarrow> False | Some c \<Rightarrow> P c)"

text \<open>The close callback of the connection is \<^verbatim>\<open>OnRemoveConnection\<close>. It runs before the connection is done with closing;
  the model lets it follow.\<close>

definition client_step ::
  "(16 word \<Rightarrow> string \<Rightarrow> int \<times> byte list) \<Rightarrow> user_code \<Rightarrow> loop_env \<Rightarrow> app_code \<Rightarrow> client_event \<Rightarrow> TCPClient \<Rightarrow> TCPClient result" where
  "client_step pton user env app e s =
     (case e of
        DoConnect a \<Rightarrow> Client_Connect pton env app a s
      | DoDisconnect \<Rightarrow> DisconnectInLoop env app s
      | Writable i a answers err laddr \<Rightarrow>
          if on_connector i (\<lambda>c. Option.bind (cn_chan c) watched \<noteq> None) s
          then ebind (Connector_HandleWrite pton user env app a answers err laddr i s) (drop_ref env i) else Inr s
      | Timeout i \<Rightarrow> if on_connector i cn_timer s then ebind (OnConnectTimeout env app i s) (drop_ref env i) else Inr s
      | Resolved i a serrno addrs \<Rightarrow>
          if on_connector i (\<lambda>c. cn_dns c = Resolving) s then ebind (Connector_resolved pton env app a serrno addrs i s) (drop_ref env i) else Inr s
      | RestartDue a \<Rightarrow>
          (case cl_restarts s of
             [] \<Rightarrow> Inr s
           | i # _ \<Rightarrow>
               ebind (Connector_Start pton env app a i s) (\<lambda>s1. drop_ref env i (s1\<lparr>cl_restarts := remove1 i (cl_restarts s1)\<rparr>)))
      | ConnHappens a ev \<Rightarrow>
          (case cl_conn s of
             None \<Rightarrow> Inr s
           | Some c \<Rightarrow>
               ebind (conn_step user env ev c) (\<lambda>c1.
               let s1 = s\<lparr>cl_conn := Some c1\<rparr> in
               if CloseFn \<in> set (calls c1) \<and> CloseFn \<notin> set (calls c)
               then ebind (notify app ConnectionDown s1) (OnRemoveConnection pton env app a) else Inr s1)))"

fun client_run ::
  "(16 word \<Rightarrow> string \<Rightarrow> int \<times> byte list) \<Rightarrow> user_code \<Rightarrow> loop_env \<Rightarrow> app_code \<Rightarrow> client_event list \<Rightarrow> TCPClient \<Rightarrow> TCPClient result" where
  "client_run pton user env app [] s = Inr s"
| "client_run pton user env app (e # es) s = ebind (client_step pton user env app e s) (client_run pton user env app es)"

end
