(* ===== verification/Tcp_Client_Inv.thy ===== *)
theory Tcp_Client_Inv
  imports Tcp_Client Tcp_Server_Props
begin

text \<open>
  The invariant of a client whose attempts to connect are answered later, by the event base: it is connecting, resolving, waiting to
  try again, connected or disconnected, with the timers, references and descriptors that go with it, and every event keeps this.
\<close>

section \<open>Phases\<close>

definition idle_app :: app_code where
  "idle_app n s = Inr s"

definition addr_ok :: "(16 word \<Rightarrow> string \<Rightarrow> int \<times> byte list) \<Rightarrow> string \<Rightarrow> bool" where
  "addr_ok pton a \<longleftrightarrow> (\<exists>ss. ParseFromIPPort_value pton a = Inr ss)"

text \<open>An attempt whose outcome is not known when \<^verbatim>\<open>connect\<close> returns.\<close>

definition good_attempt :: "attempt \<Rightarrow> bool" where
  "good_attempt a \<longleftrightarrow> sys_socket (at_sock a) > 0 \<and> make_nonblocking (at_sock a) \<ge> 0 \<and> sys_fcntl (at_sock a) \<noteq> -1 \<and>
     at_bind a = 0 \<and> (at_connect a = 0 \<or> EVUTIL_ERR_CONNECT_RETRIABLE (at_connect a))"

definition chan_waits :: "int \<Rightarrow> FdChannel \<Rightarrow> bool" where
  "chan_waits fd ch \<longleftrightarrow> chan_sync ch \<and> events ch = kWritable \<and> ch_fd ch = fd \<and> write_fn ch"

definition chan_past :: "FdChannel option \<Rightarrow> bool" where
  "chan_past ch \<longleftrightarrow> (case ch of None \<Rightarrow> True | Some ch \<Rightarrow> chan_closed ch)"

text \<open>\<open>R\<close> are further pending starts: there are none, except while one of them runs.\<close>

definition connecting :: "nat list \<Rightarrow> Connector \<Rightarrow> TCPClient \<Rightarrow> bool" where
  "connecting R c s \<longleftrightarrow> cn_status c = CnConnecting \<and> cn_timer c \<and> cn_own_fd c \<and> cn_fd c > 0 \<and> \<not> IsZeroAddress (cn_raddr c) \<and>
     (case cn_chan c of None \<Rightarrow> False | Some ch \<Rightarrow> chan_waits (cn_fd c) ch) \<and> cl_fds s = [cn_fd c] \<and> cl_restarts s = R \<and>
     cl_conn s = None"

definition resolving :: "nat list \<Rightarrow> Connector \<Rightarrow> TCPClient \<Rightarrow> bool" where
  "resolving R c s \<longleftrightarrow> cn_status c = CnDNSResolving \<and> cn_timer c \<and> cn_dns c = Resolving \<and> cn_fd c = INVALID_SOCKET \<and>
     cn_chan c = None \<and> cl_fds s = [] \<and> cl_restarts s = R \<and> cl_conn s = None"

definition waiting :: "nat list \<Rightarrow> nat \<Rightarrow> Connector \<Rightarrow> TCPClient \<Rightarrow> bool" where
  "waiting R i c s \<longleftrightarrow> cn_status c = CnDisconnected \<and> \<not> cn_timer c \<and> cn_dns c = NoResolver \<and> cn_fd c = INVALID_SOCKET \<and>
     chan_past (cn_chan c) \<and> (IsZeroAddress (cn_raddr c) \<longrightarrow> cn_chan c = None) \<and> cl_fds s = [] \<and> cl_restarts s = R @ [i] \<and>
     cl_conn s = None"

definition connected :: "nat \<Rightarrow> nat \<Rightarrow> nat \<Rightarrow> Connector \<Rightarrow> TCPClient \<Rightarrow> bool" where
  "connected m k n c s \<longleftrightarrow> cn_status c = CnConnected \<and> \<not> cn_timer c \<and> cn_dns c \<noteq> Resolving \<and> cn_fd c = INVALID_SOCKET \<and>
     (case cn_chan c of None \<Rightarrow> False | Some ch \<Rightarrow> chan_closed ch) \<and> cl_fds s = [] \<and> cl_restarts s = [] \<and>
     (case cl_conn s of None \<Rightarrow> False | Some tc \<Rightarrow> conn_inv tc \<and> fits m k n tc \<and> CloseFn \<notin> set (calls tc))"

text \<open>The client has one connector, its own.\<close>

definition sole :: "(16 word \<Rightarrow> string \<Rightarrow> int \<times> byte list) \<Rightarrow> nat \<Rightarrow> Connector \<Rightarrow> TCPClient \<Rightarrow> bool" where
  "sole pton i c s \<longleftrightarrow> auto_reconnect s \<and> cl_held s = [] \<and> cl_connector s = Some i \<and> cl_heap s = [i \<mapsto> c] \<and> i < cl_next s \<and>
     addr_ok pton (cl_local_addr s) \<and> addr_ok pton (cl_remote_addr s)"

definition client_on :: "(16 word \<Rightarrow> string \<Rightarrow> int \<times> byte list) \<Rightarrow> nat \<Rightarrow> nat \<Rightarrow> nat \<Rightarrow> TCPClient \<Rightarrow> bool" where
  "client_on pton m k n s \<longleftrightarrow> (\<exists>i c. sole pton i c s \<and>
     (connecting [] c s \<and> cn_dns c \<noteq> Resolving \<or> resolving [] c s \<or> waiting [] i c s \<or> connected m k n c s))"

text \<open>After \<^verbatim>\<open>Disconnect\<close>: at most the connection is left, and it is closing.\<close>

definition client_off :: "nat \<Rightarrow> nat \<Rightarrow> nat \<Rightarrow> TCPClient \<Rightarrow> bool" where
  "client_off m k n s \<longleftrightarrow> \<not> auto_reconnect s \<and> cl_held s = [] \<and> cl_connector s = None \<and> cl_heap s = Map.empty \<and> cl_fds s = [] \<and>
     cl_restarts s = [] \<and> (case cl_conn s of None \<Rightarrow> True | Some tc \<Rightarrow> conn_inv tc \<and> fits m k n tc \<and> CloseFn \<notin> set (calls tc))"

lemmas phase_defs = connecting_def resolving_def waiting_def connected_def sole_def chan_past_def

lemma singleton_heap_eq [simp]: "[i \<mapsto> x] = [i \<mapsto> y] \<longleftrightarrow> x = y"
  by (auto dest: map_upd_eqD1)

section \<open>Channels\<close>

lemma close_chan_waits:
  assumes "chan_waits fd ch" "libevent_ok env"
  shows "yields (close_chan env ch) (\<lambda>ch'. chan_closed ch' \<and> ch_fd ch' = fd)"
proof -
  obtain ch1 where "DisableAllEvent env ch = Inr ch1" "chan_sync ch1" "events ch1 = kNone" "same_ends ch ch1"
    using switch_sync(5) [OF _ assms(2), of ch] assms(1) by (auto simp: chan_waits_def)
  then show ?thesis using FdChannel_Close_sync [of ch1] assms(1) by (auto simp: close_chan_def chan_waits_def same_ends_def)
qed

lemma new_chan_waits:
  assumes "fd > 0" "libevent_ok env"
  shows "yields (ebind (FdChannel_new fd False True) (\<lambda>ch. AttachToLoop env (SetWriteCallback ch))) (chan_waits fd)"
  using assms
  by (auto simp: FdChannel_new_def AttachToLoop_def SetWriteCallback_def event_assign_def IsNoneEvent_def libevent_ok_def chan_waits_def
      chan_sync_def watched_def chan_consts)

lemma closed_delete: "chan_closed ch \<Longrightarrow> FdChannel_delete ch = Inr ()"
  by (simp add: chan_closed_def FdChannel_delete_def)

lemma past_delete: "chan_past ch \<Longrightarrow> (case ch of None \<Rightarrow> Inr () | Some old \<Rightarrow> FdChannel_delete old) = Inr ()"
  by (auto simp: chan_past_def closed_delete split: option.splits)

section \<open>The connector\<close>

lemma failed_conn: "OnConnection_failed idle_app (-1) [] s = Inr (s\<lparr>cl_notices := cl_notices s @ [ConnectFailed]\<rparr>)"
proof -
  obtain b where "Buffer_new kInitialSize kCheapPrependSize = Inr b"
    using Buffer_new_inv [of kInitialSize kCheapPrependSize] by (auto simp: kInitialSize_def kCheapPrependSize_def)
  then show ?thesis by (simp add: OnConnection_failed_def TCPConn_new_def notify_def idle_app_def)
qed

lemma HandleError_waits:
  assumes "libevent_ok env" "sole pton i c s" "connecting R c s \<or> resolving R c s"
  shows "yields (Connector_HandleError env idle_app e i s) (\<lambda>s'. \<exists>c'. sole pton i c' s' \<and> waiting R i c' s')"
proof (cases "cn_chan c")
  case None
  then show ?thesis using assms
    by (auto simp: Connector_HandleError_def with_cn_def put_cn_def failed_conn libevent_ok_def phase_defs INVALID_SOCKET_def Let_def)
next
  case (Some ch)
  then have "chan_waits (cn_fd c) ch" using assms(3) by (auto simp: phase_defs)
  then obtain ch1 where "close_chan env ch = Inr ch1" "chan_closed ch1" "ch_fd ch1 = cn_fd c"
    using close_chan_waits [OF _ assms(1)] by (fastforce elim: yieldsE)
  then show ?thesis using assms Some
    by (auto simp: Connector_HandleError_def with_cn_def put_cn_def failed_conn libevent_ok_def phase_defs INVALID_SOCKET_def Let_def)
qed

text \<open>A connector about to connect.\<close>

definition about_to :: "nat list \<Rightarrow> Connector \<Rightarrow> TCPClient \<Rightarrow> bool" where
  "about_to R c s \<longleftrightarrow> cn_fd c = INVALID_SOCKET \<and> chan_past (cn_chan c) \<and> cl_fds s = [] \<and> cl_restarts s = R \<and> cl_conn s = None"

lemma Connect_pending:
  assumes "libevent_ok env" "good_attempt a" "cl_heap s i = Some c" "cn_fd c = INVALID_SOCKET" "chan_past (cn_chan c)" "cl_fds s = []"
    "addr_ok pton (cl_local_addr s)"
  defines "fd \<equiv> sys_socket (at_sock a)"
  shows "\<exists>ch. Connector_Connect pton env app a i s =
      Inr (put_cn i (c\<lparr>cn_fd := fd, cn_own_fd := True, cn_status := CnConnecting, cn_chan := Some ch\<rparr>) (s\<lparr>cl_fds := [fd]\<rparr>)) \<and>
    chan_waits fd ch \<and> fd > 0"
proof -
  obtain ch ch1 where ch: "FdChannel_new fd False True = Inr ch" "AttachToLoop env (SetWriteCallback ch) = Inr ch1" "chan_waits fd ch1"
    using new_chan_waits [OF _ assms(1), of fd] assms(2) by (auto simp: good_attempt_def fd_def elim!: yieldsE)
  have sock: "CreateNonblockingSocket (at_sock a) (cl_fds s) = (fd, [fd])" "fd > 0"
    using assms(2,6) by (auto simp: good_attempt_def CreateNonblockingSocket_def fd_def Let_def)
  have "\<exists>ss. ParseFromIPPort_value pton (cl_local_addr s) = Inr ss" using assms(7) by (simp add: addr_ok_def)
  then show ?thesis using ch sock assms(2-4) past_delete [OF assms(5)]
    by (auto simp: Connector_Connect_def with_cn_def put_cn_def good_attempt_def Let_def)
qed

lemma Connect_connecting:
  assumes "libevent_ok env" "good_attempt a" "sole pton i c s" "about_to R c s" "cn_timer c" "\<not> IsZeroAddress (cn_raddr c)"
  shows "yields (Connector_Connect pton env app a i s) (\<lambda>s'. \<exists>c'. sole pton i c' s' \<and> connecting R c' s' \<and> cn_dns c' = cn_dns c)"
proof -
  have "cl_heap s i = Some c" "cn_fd c = INVALID_SOCKET" "chan_past (cn_chan c)" "cl_fds s = []" "addr_ok pton (cl_local_addr s)"
    using assms(3,4) by (simp_all add: sole_def about_to_def)
  from Connect_pending [OF assms(1,2) this, of app] show ?thesis
    using assms(3-6) by (auto simp: sole_def about_to_def connecting_def put_cn_def)
qed

lemma resolved_address: "\<not> IsZeroAddress (splice_at 0 (le_bytes 2 AF_INET @ rest) ra)"
proof -
  have "le_bytes 2 AF_INET = [CHR 0x02, CHR 0x00]" by code_simp
  then show ?thesis by (simp add: IsZeroAddress_def splice_at_def)
qed

lemma resolved_phase:
  assumes "libevent_ok env" "good_attempt a" "sole pton i c s" "resolving R c s"
  shows "yields (Connector_resolved pton env idle_app a e addrs i s) (\<lambda>s'. \<exists>c'. sole pton i c' s' \<and>
    (if addrs = [] then waiting R i c' s' else connecting R c' s' \<and> cn_dns c' \<noteq> Resolving))"
proof (cases "addrs = []")
  case True
  have "functor_returned i s' = s'" if "sole pton i c' s'" "waiting R i c' s'" for c' s'
    using that by (simp add: functor_returned_def phase_defs)
  then show ?thesis using HandleError_waits [OF assms(1,3), where R = R and e = e] assms(4) True
    by (auto simp: Connector_resolved_def OnDNSResolved_def elim!: yields_mono)
next
  case False
  let ?ra = "splice_at 0 (le_bytes 2 AF_INET @ le_bytes 2 (htons (word_of_int (cn_remote_port c)) :: 16 word) @ hd addrs) (cn_raddr c)"
  let ?c = "c\<lparr>cn_raddr := ?ra, cn_status := CnDNSResolved\<rparr>"
  have pre: "sole pton i ?c (put_cn i ?c s)" "about_to R ?c (put_cn i ?c s)" "cn_timer ?c"
    using assms(3,4) by (simp_all add: phase_defs put_cn_def about_to_def)
  have "\<exists>c''. sole pton i c'' (functor_returned i s') \<and> connecting R c'' (functor_returned i s') \<and> cn_dns c'' \<noteq> Resolving"
    if "sole pton i c' s'" "connecting R c' s'" "cn_dns c' = Resolving" for c' s'
    using that by (auto simp: functor_returned_def phase_defs put_cn_def split: option.splits)
  then show ?thesis
    using Connect_connecting [OF assms(1,2) pre, of idle_app] resolved_address assms(3,4) False
    by (auto simp: Connector_resolved_def OnDNSResolved_def with_cn_def sole_def resolving_def Let_def elim!: yields_mono)
qed

text \<open>What \<^verbatim>\<open>Start\<close> leads to.\<close>

definition under_way :: "(16 word \<Rightarrow> string \<Rightarrow> int \<times> byte list) \<Rightarrow> nat list \<Rightarrow> nat \<Rightarrow> TCPClient \<Rightarrow> bool" where
  "under_way pton R i s \<longleftrightarrow>
     (\<exists>c. sole pton i c s \<and> (connecting R c s \<and> cn_dns c \<noteq> Resolving \<or> resolving R c s \<or> waiting R i c s))"

lemma under_wayI:
  "sole pton i c s \<Longrightarrow> connecting R c s \<Longrightarrow> cn_dns c \<noteq> Resolving \<Longrightarrow> under_way pton R i s"
  "sole pton i c s \<Longrightarrow> resolving R c s \<Longrightarrow> under_way pton R i s"
  "sole pton i c s \<Longrightarrow> waiting R i c s \<Longrightarrow> under_way pton R i s"
  unfolding under_way_def by blast+

lemma Start_under_way:
  assumes "libevent_ok env" "good_attempt a" "sole pton i c s" "about_to R c s" "cn_dns c \<noteq> Resolving"
    "IsZeroAddress (cn_raddr c) \<longrightarrow> cn_chan c = None"
  shows "yields (Connector_Start pton env idle_app a i s) (under_way pton R i)"
proof (cases "IsZeroAddress (cn_raddr c)")
  case True
  let ?c = "c\<lparr>cn_timer := True, cn_status := CnDNSResolving, cn_dns := Resolving\<rparr>"
  have "sole pton i ?c (put_cn i ?c s)" "resolving R ?c (put_cn i ?c s)"
    using assms(3,4,6) True by (simp_all add: phase_defs put_cn_def about_to_def)
  note res = this resolved_phase [OF assms(1,2) this]
  have "yields (Connector_resolved pton env idle_app a e addrs i (put_cn i ?c s)) (under_way pton R i)" for e addrs
    using res(3) [of e addrs] by (auto simp: under_way_def elim!: yields_mono split: if_splits)
  then show ?thesis
    using res(1,2) assms(1,3) True
    by (auto simp: Connector_Start_def under_way_def [of _ _ _ "put_cn i _ _"] with_cn_def sole_def libevent_ok_def Let_def split: option.splits)
next
  case False
  let ?c = "c\<lparr>cn_timer := True\<rparr>"
  have "sole pton i ?c (put_cn i ?c s)" "about_to R ?c (put_cn i ?c s)"
    using assms(3,4) by (simp_all add: phase_defs put_cn_def about_to_def)
  then have "yields (Connector_Connect pton env idle_app a i (put_cn i ?c s)) (under_way pton R i)"
    using Connect_connecting [OF assms(1,2), of pton i ?c "put_cn i ?c s" R idle_app] assms(5) False
    by (auto intro: under_wayI elim!: yields_mono)
  then show ?thesis using assms(1,3) False
    by (simp add: Connector_Start_def with_cn_def sole_def libevent_ok_def)
qed

lemma Connector_new_ok:
  assumes "addr_ok pton addr"
  shows "\<exists>host port ra. Connector_new pton junk addr = Inr \<lparr>cn_status = CnDisconnected, cn_remote_host = host, cn_remote_port = port,
    cn_raddr = ra, cn_fd = INVALID_SOCKET, cn_own_fd = False, cn_chan = None, cn_timer = False, cn_dns = NoResolver\<rparr>"
proof -
  obtain ss where ss: "ParseFromIPPort_value pton addr = Inr ss" using assms by (auto simp: addr_ok_def)
  obtain ok host port where "SplitHostPort addr [] 0 = Inr (ok, host, port)"
    using ss by (cases "SplitHostPort addr [] 0") (auto simp: ParseFromIPPort_value_def ParseFromIPPort_def Let_def)
  then show ?thesis using ss by (cases ok) (simp_all add: Connector_new_def)
qed

lemma drop_ref_kept:
  assumes "cl_heap s i = None \<or> (\<exists>c. cl_heap s i = Some c \<and> cn_shared i c s)"
  shows "drop_ref env i s = Inr s"
  using assms by (auto simp: drop_ref_def)

lemma under_way_kept: "under_way pton R i s \<Longrightarrow> drop_ref env i s = Inr s"
  by (rule drop_ref_kept) (auto simp: under_way_def sole_def cn_shared_def)

text \<open>A connector without resources of its own is destroyed with its last reference.\<close>

definition spent :: "Connector \<Rightarrow> bool" where
  "spent c \<longleftrightarrow> cn_status c = CnConnected \<and> cn_fd c = INVALID_SOCKET \<and> \<not> cn_timer c \<and> cn_dns c \<noteq> Resolving \<and>
     (case cn_chan c of None \<Rightarrow> False | Some ch \<Rightarrow> chan_closed ch)"

lemma drop_spent:
  assumes "spent c" "cl_heap s i = Some c" "cl_connector s \<noteq> Some i" "i \<notin> set (cl_restarts s)" "i \<notin> set (cl_held s)" "libevent_ok env"
  shows "drop_ref env i s = Inr (s\<lparr>cl_heap := (cl_heap s)(i := None)\<rparr>)"
  using assms
  by (auto simp: drop_ref_def cn_shared_def spent_def Connector_delete_def with_cn_def libevent_ok_def INVALID_SOCKET_def chan_closed_def
      closed_delete split: option.splits)

lemma Client_Connect_under_way:
  assumes "libevent_ok env" "good_attempt a" "auto_reconnect s" "cl_held s = []" "addr_ok pton (cl_local_addr s)"
    "addr_ok pton (cl_remote_addr s)" "cl_fds s = []" "cl_restarts s = []" "cl_conn s = None"
    "cl_connector s = None \<and> cl_heap s = Map.empty \<or> (\<exists>i c. cl_connector s = Some i \<and> cl_heap s = [i \<mapsto> c] \<and> i < cl_next s \<and> spent c)"
  shows "yields (Client_Connect pton env idle_app a s) (under_way pton [] (cl_next s))"
proof -
  obtain c where c: "Connector_new pton (at_junk a) (cl_remote_addr s) = Inr c" "cn_fd c = INVALID_SOCKET" "cn_chan c = None"
      "cn_dns c = NoResolver"
    using Connector_new_ok [OF assms(6)] by fastforce
  let ?s = "s\<lparr>cl_connector := Some (cl_next s), cl_next := cl_next s + 1, cl_heap := [cl_next s \<mapsto> c]\<rparr>"
  have "Client_Connect pton env idle_app a s = Connector_Start pton env idle_app a (cl_next s) ?s"
    using assms(10)
  proof
    assume "\<exists>i c. cl_connector s = Some i \<and> cl_heap s = [i \<mapsto> c] \<and> i < cl_next s \<and> spent c"
    then obtain i c0 where i: "cl_connector s = Some i" "cl_heap s = [i \<mapsto> c0]" "i < cl_next s" "spent c0" by blast
    then have "[i \<mapsto> c0, cl_next s \<mapsto> c](i := None) = [cl_next s \<mapsto> c]" by (auto simp: fun_eq_iff)
    then show ?thesis using i c(1) assms(1,4,8)
      by (simp add: Client_Connect_def put_cn_def Let_def libevent_ok_def drop_spent [OF i(4) _ _ _ _ assms(1)])
  qed (use c(1) assms(1) in \<open>simp add: Client_Connect_def put_cn_def Let_def libevent_ok_def\<close>)
  then show ?thesis
    using Start_under_way [OF assms(1,2), of pton "cl_next s" c ?s "[]"] assms c
    by (simp add: sole_def about_to_def chan_past_def)
qed

section \<open>The connection\<close>

text \<open>An application that leaves a new connection alone in the callback that announces it.\<close>

definition patient :: "(callback \<Rightarrow> TCPConn \<Rightarrow> api_call list) \<Rightarrow> bool" where
  "patient prog \<longleftrightarrow> (\<forall>c. tc_status c = kConnected \<longrightarrow> prog ConnFn c = [])"

lemma outgoing_attached:
  assumes "libevent_ok env" "civil m prog" "patient prog" "16 + 3 * (Suc n * max m k) < 2 ^ 63" "conn_new_ok fd c0"
  defines "c \<equiv> SetCloseCallback (SetConnectionCallback (SetMessageCallback (set_type kOutgoing c0)))"
  shows "\<exists>c'. OnAttachedToLoop (user_at env prog (Suc (Suc 0))) env c = Inr c' \<and> conn_inv c' \<and> fits m k n c' \<and> CloseFn \<notin> set (calls c') \<and>
    tc_status c' = kConnected"
proof -
  have c: "conn_bufs c" "conn_fns c" "tc_fd c = fd" "out_bytes c = []" "in_bytes c = []" "accepted c = wire c" "calls c = []"
      "tasks c = []" "tc_chan c = tc_chan c0" "conn_fn c"
    using assms(5)
    by (auto simp: c_def conn_new_ok_def conn_fns_def conn_bufs_def out_bytes_def in_bytes_def
        SetCloseCallback_def SetConnectionCallback_def SetMessageCallback_def set_type_def)
  obtain ch where ch: "tc_chan c = Some ch" "chan_sync ch" "ch_fd ch = tc_fd c" "read_fn ch" "write_fn ch" "\<not> IsWritable ch"
    using assms(5) c by (auto simp: conn_new_ok_def)
  have le: "Suc n * m \<le> Suc n * max m k" "Suc n * k \<le> Suc n * max m k" by (rule mult_le_mono2, simp)+
  then have "16 + 3 * (Suc n * m) < 2 ^ 63" "16 + 3 * (Suc n * k) < 2 ^ 63" using assms(4) by linarith+
  then have f: "fits m k (Suc n) c" using c by (simp add: fits_def sends_def)
  then obtain c' where c': "OnAttachedToLoop (user_at env prog (Suc (Suc 0))) env c = Inr c'" "kept m c c'"
    using live_user.OnAttachedToLoop_inv [OF live_user_at [OF assms(1,2)] c(1,2) ch c(4,6-8) fits_room [OF f]] by blast
  have "calls c' = calls c @ [ConnFn]" "tc_status c' = kConnected"
    using c'(1) assms(3) c(10) by (auto simp: OnAttachedToLoop_def invoke_def patient_def ebind_Inr_iff Let_def)
  then show ?thesis using c' c(7) fits_grew [OF f] kept_grew grew_mono [of m 0 c _ m k] by (force simp: kept_def)
qed

lemma ebind_Inr_right: "ebind r (\<lambda>x. Inr x) = r"
  by (cases r) simp_all

lemma OnConnection_new:
  assumes "libevent_ok env" "civil m prog" "patient prog" "16 + 3 * (Suc n * max m k) < 2 ^ 63" "sockfd > 0"
  shows "\<exists>tc. OnConnection pton (user_at env prog (Suc (Suc 0))) env app a answers sockfd laddr s =
      notify app ConnectionUp (s\<lparr>cl_next_id := cl_next_id s + 1, cl_conn := Some tc\<rparr>) \<and>
    conn_inv tc \<and> fits m k n tc \<and> CloseFn \<notin> set (calls tc) \<and> tc_status tc = kConnected"
proof -
  obtain c where c: "TCPConn_new (cl_name s) sockfd laddr (cl_remote_addr s) (cl_next_id s) answers = Inr c" "conn_new_ok sockfd c"
    using TCPConn_new_fresh [OF assms(5)] by blast
  obtain c' where c': "OnAttachedToLoop (user_at env prog (Suc (Suc 0))) env
      (SetCloseCallback (SetConnectionCallback (SetMessageCallback (set_type kOutgoing c)))) = Inr c'"
      "conn_inv c'" "fits m k n c'" "CloseFn \<notin> set (calls c')" "tc_status c' = kConnected"
    using outgoing_attached [OF assms(1-4) c(2)] by blast
  then have "OnConnection pton (user_at env prog (Suc (Suc 0))) env app a answers sockfd laddr s =
      notify app ConnectionUp (s\<lparr>cl_next_id := cl_next_id s + 1, cl_conn := Some c'\<rparr>)"
    using c(1) assms(1,5) by (simp add: OnConnection_def ebind_Inr_right libevent_ok_def del: user_at.simps)
  then show ?thesis using c' by blast
qed

lemma OnConnection_up:
  assumes "libevent_ok env" "civil m prog" "patient prog" "16 + 3 * (Suc n * max m k) < 2 ^ 63" "sockfd > 0"
  shows "\<exists>tc nt. OnConnection pton (user_at env prog (Suc (Suc 0))) env idle_app a answers sockfd laddr s =
      Inr (s\<lparr>cl_next_id := cl_next_id s + 1, cl_conn := Some tc, cl_notices := nt\<rparr>) \<and>
    conn_inv tc \<and> fits m k n tc \<and> CloseFn \<notin> set (calls tc)"
  using OnConnection_new [OF assms, of pton idle_app a answers laddr s] by (auto simp: notify_def idle_app_def simp del: user_at.simps)

lemma HandleWrite_connected:
  assumes "libevent_ok env" "civil m prog" "patient prog" "16 + 3 * (Suc n * max m k) < 2 ^ 63"
    "sole pton i c s" "connecting [] c s" "cn_dns c \<noteq> Resolving"
  shows "yields (Connector_HandleWrite pton (user_at env prog (Suc (Suc 0))) env idle_app a answers 0 laddr i s)
    (\<lambda>s'. \<exists>c'. sole pton i c' s' \<and> connected m k n c' s')"
proof -
  obtain ch where ch: "cn_chan c = Some ch" "chan_waits (cn_fd c) ch" "cn_fd c > 0"
    using assms(6) by (auto simp: connecting_def split: option.splits)
  then have fd: "ch_fd ch = cn_fd c" by (simp add: chan_waits_def)
  obtain ch1 where "close_chan env ch = Inr ch1" "chan_closed ch1" "ch_fd ch1 = cn_fd c"
    using close_chan_waits [OF ch(2) assms(1)] by (fastforce elim: yieldsE)
  moreover obtain tc nt where "OnConnection pton (user_at env prog (Suc (Suc 0))) env idle_app a answers (cn_fd c) laddr s =
      Inr (s\<lparr>cl_next_id := cl_next_id s + 1, cl_conn := Some tc, cl_notices := nt\<rparr>)" "conn_inv tc" "fits m k n tc" "CloseFn \<notin> set (calls tc)"
    using OnConnection_up [OF assms(1-4) ch(3), of pton a answers laddr s] by blast
  ultimately show ?thesis using assms(5-7) ch(1) fd
    by (simp add: Connector_HandleWrite_def with_cn_def put_cn_def phase_defs cn_shared_def INVALID_SOCKET_def Let_def del: user_at.simps)
qed

section \<open>Steps\<close>

lemma client_onI:
  "under_way pton [] i s \<Longrightarrow> client_on pton m k n s"
  "sole pton i c s \<Longrightarrow> connected m k n c s \<Longrightarrow> client_on pton m k n s"
  unfolding client_on_def under_way_def by blast+

lemmas on_intros = client_onI(1) [OF under_wayI(1)] client_onI(1) [OF under_wayI(2)] client_onI(1) [OF under_wayI(3)] client_onI(2)

lemma sole_kept: "sole pton i c s \<Longrightarrow> drop_ref env i s = Inr s"
  by (rule drop_ref_kept) (simp add: sole_def cn_shared_def)

lemma sole_heap: "sole pton i c s \<Longrightarrow> on_connector j P s \<longleftrightarrow> j = i \<and> P c"
  by (simp add: sole_def on_connector_def)

lemma waits_watched: "chan_waits fd ch \<Longrightarrow> watched ch \<noteq> None"
  by (simp add: chan_waits_def chan_sync_def chan_consts)

lemma closed_unwatched: "chan_closed ch \<Longrightarrow> watched ch = None"
  by (simp add: chan_closed_def watched_def)

lemma start_done:
  assumes "under_way pton [i] i s"
  shows "under_way pton [] i (s\<lparr>cl_restarts := remove1 i (cl_restarts s)\<rparr>)"
  using assms by (auto simp: under_way_def phase_defs split: option.splits)

text \<open>What an application does that waits for the outcome of an attempt before it disconnects, and what the system answers.\<close>

definition polite :: "nat \<Rightarrow> nat \<Rightarrow> client_event \<Rightarrow> TCPClient \<Rightarrow> bool" where
  "polite m k e s \<longleftrightarrow>
     (case e of
        DoConnect _ \<Rightarrow> False
      | DoDisconnect \<Rightarrow>
          cl_connector s \<noteq> None \<and> cl_restarts s = [] \<and> (case cl_conn s of None \<Rightarrow> True | Some tc \<Rightarrow> tc_status tc = kConnected)
      | Writable _ a _ _ _ \<Rightarrow> good_attempt a
      | Timeout _ \<Rightarrow> True
      | Resolved _ a _ _ \<Rightarrow> good_attempt a
      | RestartDue a \<Rightarrow> good_attempt a
      | ConnHappens a ev \<Rightarrow> good_attempt a \<and> event_ok m k ev)"

lemma Disconnect_off:
  assumes "libevent_ok env" "client_on pton m k n s" "polite m k DoDisconnect s"
  shows "yields (DisconnectInLoop env idle_app s) (client_off m k n)"
proof -
  have env: "in_loop_thread env" using assms(1) by (simp add: libevent_ok_def)
  obtain i c where c: "sole pton i c s" "connecting [] c s \<and> cn_dns c \<noteq> Resolving \<or> resolving [] c s \<or> connected m k n c s"
    using assms(2,3) by (auto simp: client_on_def polite_def waiting_def)
  then consider "connecting [] c s" | "resolving [] c s" | "connected m k n c s" by blast
  then show ?thesis
  proof cases
    case 1
    then obtain ch where ch: "cn_chan c = Some ch" "chan_waits (cn_fd c) ch" by (auto simp: connecting_def split: option.splits)
    obtain ch1 where "close_chan env ch = Inr ch1" "chan_closed ch1" "ch_fd ch1 = cn_fd c"
      using close_chan_waits [OF ch(2) assms(1)] by (fastforce elim: yieldsE)
    then show ?thesis using 1 c(1) ch(1) env
      by (simp add: DisconnectInLoop_def Connector_Cancel_def with_cn_def put_cn_def drop_ref_def cn_shared_def Connector_delete_def
          closed_delete chan_closed_def INVALID_SOCKET_def client_off_def connecting_def sole_def Let_def)
  next
    case 2
    then show ?thesis using c(1) env
      by (simp add: DisconnectInLoop_def Connector_Cancel_def with_cn_def put_cn_def drop_ref_def cn_shared_def Connector_delete_def
          failed_conn INVALID_SOCKET_def client_off_def resolving_def sole_def Let_def)
  next
    case 3
    then obtain tc where tc: "cl_conn s = Some tc" "conn_inv tc" "fits m k n tc" "CloseFn \<notin> set (calls tc)" "tc_status tc = kConnected"
      using assms(3) by (auto simp: connected_def polite_def split: option.splits)
    have sp: "spent c" using 3 by (simp add: connected_def spent_def)
    let ?s = "s\<lparr>auto_reconnect := False, cl_conn := Some (TCPConn_Close tc), cl_connector := None\<rparr>"
    have "drop_ref env i ?s = Inr (?s\<lparr>cl_heap := (cl_heap ?s)(i := None)\<rparr>)"
      using c(1) 3 by (intro drop_spent [OF sp _ _ _ _ assms(1)]) (simp_all add: sole_def connected_def)
    then show ?thesis using 3 tc c(1) env tcp_close [OF tc(2,5)]
      by (simp add: DisconnectInLoop_def with_cn_def client_off_def connected_def sole_def Let_def)
  qed
qed

lemma conn_happens_on:
  assumes "libevent_ok env" "civil m prog" "sole pton i c s" "connected m k (Suc n) c s" "good_attempt a" "event_ok m k ev"
  shows "yields (client_step pton (user_at env prog (Suc (Suc 0))) env idle_app (ConnHappens a ev) s) (client_on pton m k n)"
proof -
  obtain tc where tc: "cl_conn s = Some tc" "conn_inv tc" "fits m k (Suc n) tc" "CloseFn \<notin> set (calls tc)"
    using assms(4) by (auto simp: connected_def split: option.splits)
  obtain tc' where tc': "conn_step (user_at env prog (Suc (Suc 0))) env ev tc = Inr tc'" "conn_inv tc'" "fits m k n tc'"
    using tcp_event [OF assms(1,2) tc(2,3) assms(6)] by blast
  show ?thesis
  proof (cases "CloseFn \<in> set (calls tc')")
    case True
    let ?s = "s\<lparr>cl_notices := cl_notices s @ [ConnectionDown], cl_conn := None\<rparr>"
    have "spent c" using assms(4) by (simp add: connected_def spent_def)
    then have "yields (Client_Connect pton env idle_app a ?s) (under_way pton [] (cl_next ?s))"
      using assms(3,4) by (intro Client_Connect_under_way [OF assms(1,5)]) (auto simp: sole_def connected_def)
    then have "yields (Client_Connect pton env idle_app a ?s) (client_on pton m k n)" by (rule yields_mono) (rule client_onI)
    then show ?thesis using True tc tc' assms(1,3)
      by (simp add: client_step_def notify_def idle_app_def OnRemoveConnection_def libevent_ok_def sole_def Let_def del: user_at.simps)
  next
    case False
    have "sole pton i c (s\<lparr>cl_conn := Some tc'\<rparr>)" "connected m k n c (s\<lparr>cl_conn := Some tc'\<rparr>)"
      using assms(3,4) tc' False by (simp_all add: sole_def connected_def)
    then show ?thesis using client_onI(2) tc tc' False by (simp add: client_step_def Let_def del: user_at.simps)
  qed
qed

lemma error_on:
  assumes "libevent_ok env" "sole pton i c s" "connecting [] c s \<or> resolving [] c s"
  shows "yields (ebind (Connector_HandleError env idle_app e i s) (drop_ref env i)) (client_on pton m k n)"
  using HandleError_waits [OF assms, of e]
  by (auto simp: sole_kept intro: on_intros elim!: yields_mono)

lemma writable_on:
  assumes "libevent_ok env" "civil m prog" "patient prog" "16 + 3 * (Suc n * max m k) < 2 ^ 63" "sole pton i c s" "connecting [] c s"
    "cn_dns c \<noteq> Resolving"
  shows "yields (ebind (Connector_HandleWrite pton (user_at env prog (Suc (Suc 0))) env idle_app a answers err laddr i s) (drop_ref env i))
    (client_on pton m k n)"
proof (cases "err = 0")
  case True
  show ?thesis
    using HandleWrite_connected [OF assms, of a answers laddr] True
    by (auto simp: sole_kept intro: client_onI elim!: yields_mono simp del: user_at.simps)
next
  case False
  have "Connector_HandleWrite pton (user_at env prog (Suc (Suc 0))) env idle_app a answers err laddr i s = Connector_HandleError env idle_app err i s"
    using assms(5,6) False by (auto simp: Connector_HandleWrite_def with_cn_def sole_def connecting_def split: option.splits)
  then show ?thesis using error_on [OF assms(1,5)] assms(6) by (simp del: user_at.simps)
qed

lemma restart_on:
  assumes "libevent_ok env" "good_attempt a" "sole pton i c s" "waiting [] i c s"
  shows "yields (client_step pton user env idle_app (RestartDue a) s) (client_on pton m k n)"
proof -
  have "yields (Connector_Start pton env idle_app a i s) (under_way pton [i] i)"
    using assms(4) by (intro Start_under_way [OF assms(1-3)]) (auto simp: waiting_def about_to_def)
  then show ?thesis using assms(4)
    by (auto simp: client_step_def waiting_def under_way_kept [OF start_done] intro: client_onI(1) [OF start_done] elim!: yields_mono)
qed

lemma client_on_mono: "client_on pton m k (Suc n) s \<Longrightarrow> client_on pton m k n s"
  unfolding client_on_def connected_def using fits_mono by (fastforce split: option.splits)

lemma client_step_on:
  assumes "libevent_ok env" "civil m prog" "patient prog" "16 + 3 * (Suc n * max m k) < 2 ^ 63" "client_on pton m k (Suc n) s" "polite m k e s"
  shows "yields (client_step pton (user_at env prog (Suc (Suc 0))) env idle_app e s) (\<lambda>s'. client_on pton m k n s' \<or> client_off m k n s')"
proof -
  let ?user = "user_at env prog (Suc (Suc 0))" and ?ok = "\<lambda>s'. client_on pton m k n s' \<or> client_off m k n s'"
  obtain i c where c: "sole pton i c s" "connecting [] c s \<and> cn_dns c \<noteq> Resolving \<or> resolving [] c s \<or> waiting [] i c s \<or> connected m k (Suc n) c s"
    using assms(5) by (auto simp: client_on_def)
  have here: "yields (Inr s) ?ok" using client_on_mono [OF assms(5)] by simp
  have on: "yields r (client_on pton m k n) \<Longrightarrow> yields r ?ok" for r by (erule yields_mono) simp
  show ?thesis
  proof (cases e)
    case (DoConnect a)
    then show ?thesis using assms(6) by (simp add: polite_def)
  next
    case DoDisconnect
    then show ?thesis
      using Disconnect_off [OF assms(1) client_on_mono [OF assms(5)]] assms(6) by (auto simp: client_step_def elim!: yields_mono)
  next
    case (Writable j a answers err laddr)
    show ?thesis
    proof (cases "on_connector j (\<lambda>c. Option.bind (cn_chan c) watched \<noteq> None) s")
      case True
      then have "j = i" "connecting [] c s" "cn_dns c \<noteq> Resolving"
        using c by (auto simp: sole_heap phase_defs closed_unwatched split: option.splits)
      then show ?thesis
        using on [OF writable_on [OF assms(1-4) c(1)]] True Writable by (simp add: client_step_def del: user_at.simps yields_simps)
    qed (use here Writable in \<open>simp add: client_step_def\<close>)
  next
    case (Timeout j)
    show ?thesis
    proof (cases "on_connector j cn_timer s")
      case True
      then have j: "j = i" "connecting [] c s \<or> resolving [] c s" using c by (auto simp: sole_heap phase_defs)
      then have "OnConnectTimeout env idle_app i s = Connector_HandleError env idle_app ETIMEDOUT i s"
        using c(1) by (auto simp: OnConnectTimeout_def with_cn_def phase_defs)
      then show ?thesis using on [OF error_on [OF assms(1) c(1) j(2)]] j(1) True Timeout by (simp add: client_step_def del: yields_simps)
    qed (use here Timeout in \<open>simp add: client_step_def\<close>)
  next
    case (Resolved j a serrno addrs)
    show ?thesis
    proof (cases "on_connector j (\<lambda>c. cn_dns c = Resolving) s")
      case True
      then have j: "j = i" "resolving [] c s" using c by (auto simp: sole_heap phase_defs)
      have "good_attempt a" using assms(6) Resolved by (simp add: polite_def)
      from resolved_phase [OF assms(1) this c(1) j(2), of serrno addrs]
      have "yields (ebind (Connector_resolved pton env idle_app a serrno addrs i s) (drop_ref env i)) (client_on pton m k n)"
        by (auto simp: sole_kept intro: on_intros elim!: yields_mono split: if_splits)
      then show ?thesis using on j(1) True Resolved by (simp add: client_step_def del: yields_simps)
    qed (use here Resolved in \<open>simp add: client_step_def\<close>)
  next
    case (RestartDue a)
    have g: "good_attempt a" using assms(6) RestartDue by (simp add: polite_def)
    show ?thesis
    proof (cases "cl_restarts s")
      case Nil
      then show ?thesis using here RestartDue by (simp add: client_step_def)
    next
      case (Cons j js)
      then have "waiting [] i c s" using c by (auto simp: phase_defs)
      then show ?thesis using on [OF restart_on [OF assms(1) g c(1)]] RestartDue by simp
    qed
  next
    case (ConnHappens a ev)
    show ?thesis
    proof (cases "cl_conn s")
      case None
      then show ?thesis using here ConnHappens by (simp add: client_step_def)
    next
      case (Some tc)
      then have "connected m k (Suc n) c s" using c by (auto simp: phase_defs)
      then show ?thesis
        using on [OF conn_happens_on [OF assms(1,2) c(1)]] assms(6) ConnHappens by (simp add: polite_def del: user_at.simps)
    qed
  qed
qed

lemma client_step_off:
  assumes "libevent_ok env" "civil m prog" "client_off m k (Suc n) s" "polite m k e s"
  shows "yields (client_step pton (user_at env prog (Suc (Suc 0))) env idle_app e s) (client_off m k n)"
proof (cases "\<exists>a ev tc. e = ConnHappens a ev \<and> cl_conn s = Some tc")
  case True
  then obtain a ev tc where e: "e = ConnHappens a ev" "cl_conn s = Some tc" by blast
  have tc: "conn_inv tc" "fits m k (Suc n) tc" "event_ok m k ev" "CloseFn \<notin> set (calls tc)"
    using e assms(3,4) by (simp_all add: client_off_def polite_def)
  obtain tc' where "conn_step (user_at env prog (Suc (Suc 0))) env ev tc = Inr tc'" "conn_inv tc'" "fits m k n tc'"
    using tcp_event [OF assms(1,2) tc(1-3)] by blast
  then show ?thesis using e tc assms(1,3)
    by (simp add: client_step_def client_off_def notify_def idle_app_def OnRemoveConnection_def libevent_ok_def Let_def del: user_at.simps)
next
  case False
  then have "client_step pton (user_at env prog (Suc (Suc 0))) env idle_app e s = Inr s"
    using assms(3,4) by (cases e) (auto simp: client_step_def polite_def client_off_def on_connector_def split: option.splits)
  then show ?thesis using assms(3) fits_mono by (auto simp: client_off_def split: option.splits)
qed

end
