(* ===== verification/Tcp_Client_Props.thy ===== *)
theory Tcp_Client_Props
  imports Tcp_Client_Inv Step_System
begin

text \<open>
  A client never fails, is never stuck and can always become connected, as long as attempts to connect are answered later and the application
  disconnects while connecting or connected. Then four situations that bring the process down.
\<close>

section \<open>Runs\<close>

definition client_setting ::
  "(16 word \<Rightarrow> string \<Rightarrow> int \<times> byte list) \<Rightarrow> loop_env \<Rightarrow> nat \<Rightarrow> (callback \<Rightarrow> TCPConn \<Rightarrow> api_call list) \<Rightarrow> bool" where
  "client_setting pton env m prog \<longleftrightarrow> libevent_ok env \<and> civil m prog \<and> patient prog"

text \<open>The states carry the number of events that may still come, which bounds the bytes in the buffers.\<close>

definition client_trans ::
  "(16 word \<Rightarrow> string \<Rightarrow> int \<times> byte list) \<Rightarrow> loop_env \<Rightarrow> nat \<Rightarrow> nat \<Rightarrow> (callback \<Rightarrow> TCPConn \<Rightarrow> api_call list) \<Rightarrow>
   nat \<times> TCPClient \<Rightarrow> nat \<times> TCPClient \<Rightarrow> bool" where
  "client_trans pton env m k prog = (\<lambda>(n, s) (n', s'). n = Suc n' \<and>
     (\<exists>e. polite m k e s \<and> client_step pton (user_at env prog (Suc (Suc 0))) env idle_app e s = Inr s'))"

definition client_inv ::
  "(16 word \<Rightarrow> string \<Rightarrow> int \<times> byte list) \<Rightarrow> loop_env \<Rightarrow> nat \<Rightarrow> nat \<Rightarrow> (callback \<Rightarrow> TCPConn \<Rightarrow> api_call list) \<Rightarrow> nat \<times> TCPClient \<Rightarrow> bool" where
  "client_inv pton env m k prog = (\<lambda>(n, s). client_setting pton env m prog \<and> 16 + 3 * (n * max m k) < 2 ^ 63 \<and>
     (client_on pton m k n s \<or> client_off m k n s))"

lemma client_step_ok:
  assumes "client_inv pton env m k prog (Suc n, s)" "polite m k e s"
  shows "yields (client_step pton (user_at env prog (Suc (Suc 0))) env idle_app e s) (\<lambda>s'. client_inv pton env m k prog (n, s'))"
proof -
  have e: "libevent_ok env" "civil m prog" "patient prog" and n: "16 + 3 * (Suc n * max m k) < 2 ^ 63"
    and s: "client_on pton m k (Suc n) s \<or> client_off m k (Suc n) s"
    using assms(1) by (simp_all add: client_inv_def client_setting_def)
  have "16 + 3 * (n * max m k) < 2 ^ 63" using n by simp
  then show ?thesis
    using s client_step_on [OF e n _ assms(2), of pton] client_step_off [OF e(1,2) _ assms(2), of n pton] e
    by (auto simp: client_inv_def client_setting_def elim!: yields_mono simp del: user_at.simps)
qed

interpretation client: step_system "client_trans pton env m k prog" "client_inv pton env m k prog"
  for pton env m k prog
proof
  show "client_inv pton env m k prog s'" if "client_trans pton env m k prog s s'" "client_inv pton env m k prog s" for s s'
    using that client_step_ok by (fastforce simp: client_trans_def simp del: user_at.simps)
qed

lemma connect_starts:
  assumes "libevent_ok env" "good_attempt a" "addr_ok pton laddr" "addr_ok pton raddr"
  shows "yields (Client_Connect pton env idle_app a (Client_Bind laddr (TCPClient_new raddr nm))) (client_on pton m k n)"
  by (rule yields_mono [OF Client_Connect_under_way [OF assms(1,2)] client_onI(1)])
    (use assms in \<open>simp_all add: Client_Bind_def TCPClient_new_def\<close>)

section \<open>Properties\<close>


definition sample_attempt :: attempt where
  "sample_attempt = \<lparr>at_sock = sample_senv, at_bind = 0, at_connect = EINPROGRESS, at_dns = None, at_junk = zero_addr\<rparr>"

lemma sample_good: "good_attempt sample_attempt"
  by (simp add: good_attempt_def sample_attempt_def sample_senv_def EVUTIL_ERR_CONNECT_RETRIABLE_def)

lemma sample_setting: "client_setting sample_pton good_env 100 echo_prog"
  by (simp add: client_setting_def good_env_ok echo_civil patient_def echo_prog_def)

lemma sample_addr: "addr_ok sample_pton sample_laddr" "addr_ok sample_pton []"
proof -
  show "addr_ok sample_pton sample_laddr" using sample_can_listen by (simp add: addr_ok_def can_listen_def)
  show "addr_ok sample_pton []" by (simp add: addr_ok_def ParseFromIPPort_value_def ParseFromIPPort_def SplitHostPort_def Let_def)
qed


section \<open>Becoming connected\<close>

text \<open>Without an immediate answer of the resolver \<^verbatim>\<open>Start\<close> leaves the connector connecting or resolving.\<close>

lemma Start_pending:
  assumes "libevent_ok env" "good_attempt a" "at_dns a = None" "sole pton i c s" "about_to R c s"
  shows "yields (Connector_Start pton env idle_app a i s) (\<lambda>s'. cl_restarts s' = R)"
proof (cases "IsZeroAddress (cn_raddr c)")
  case True
  then show ?thesis using assms
    by (simp add: Connector_Start_def with_cn_def put_cn_def sole_def about_to_def libevent_ok_def Let_def)
next
  case False
  let ?c = "c\<lparr>cn_timer := True\<rparr>"
  have "sole pton i ?c (put_cn i ?c s)" "about_to R ?c (put_cn i ?c s)"
    using assms(4,5) by (simp_all add: phase_defs put_cn_def about_to_def)
  then have "yields (Connector_Connect pton env idle_app a i (put_cn i ?c s)) (\<lambda>s'. cl_restarts s' = R)"
    using Connect_connecting [OF assms(1,2), of pton i ?c "put_cn i ?c s" R idle_app] False
    by (auto simp: connecting_def elim!: yields_mono)
  then show ?thesis using assms(1,4) False by (simp add: Connector_Start_def with_cn_def sole_def libevent_ok_def)
qed

definition active :: "(16 word \<Rightarrow> string \<Rightarrow> int \<times> byte list) \<Rightarrow> nat \<Rightarrow> nat \<Rightarrow> nat \<Rightarrow> nat \<Rightarrow> bool \<Rightarrow> TCPClient \<Rightarrow> bool" where
  "active pton m k n i r s \<longleftrightarrow> (\<exists>c. sole pton i c s \<and>
     (connecting [] c s \<and> cn_dns c \<noteq> Resolving \<or> r \<and> resolving [] c s \<or> connected m k n c s))"

lemma restart_active:
  assumes "libevent_ok env" "good_attempt a" "at_dns a = None" "client_on pton m k n s" "cl_connector s = Some i"
  shows "yields (client_step pton user env idle_app (RestartDue a) s) (active pton m k n i True)"
proof -
  obtain c where c: "sole pton i c s" "connecting [] c s \<and> cn_dns c \<noteq> Resolving \<or> resolving [] c s \<or> waiting [] i c s \<or> connected m k n c s"
    using assms(4,5) by (auto simp: client_on_def sole_def)
  show ?thesis
  proof (cases "waiting [] i c s")
    case True
    have a: "about_to [i] c s" "cn_dns c \<noteq> Resolving" "IsZeroAddress (cn_raddr c) \<longrightarrow> cn_chan c = None"
      using True by (auto simp: waiting_def about_to_def)
    have "yields (Connector_Start pton env idle_app a i s) (\<lambda>s'. under_way pton [i] i s' \<and> cl_restarts s' = [i])"
      by (rule yields_conj [OF Start_under_way [OF assms(1,2) c(1) a] Start_pending [OF assms(1-3) c(1) a(1)]])
    moreover have "active pton m k n i True (s'\<lparr>cl_restarts := []\<rparr>)" if "under_way pton [i] i s'" "cl_restarts s' = [i]" for s'
      using that by (auto simp: under_way_def active_def phase_defs split: option.splits)
    moreover have "drop_ref env i (s'\<lparr>cl_restarts := []\<rparr>) = Inr (s'\<lparr>cl_restarts := []\<rparr>)" if "under_way pton [i] i s'" for s'
      using that by (auto simp: under_way_def sole_def cn_shared_def intro: drop_ref_kept)
    ultimately show ?thesis using True by (auto simp: client_step_def waiting_def elim!: yields_mono)
  next
    case False
    then have "cl_restarts s = []" using c(2) by (auto simp: phase_defs)
    then show ?thesis using c False by (auto simp: client_step_def active_def)
  qed
qed

lemma resolved_active:
  assumes "libevent_ok env" "good_attempt a" "addrs \<noteq> []" "active pton m k n i True s"
  shows "yields (client_step pton user env idle_app (Resolved i a e addrs) s) (active pton m k n i False)"
proof -
  obtain c where c: "sole pton i c s" "connecting [] c s \<and> cn_dns c \<noteq> Resolving \<or> resolving [] c s \<or> connected m k n c s"
    using assms(4) by (auto simp: active_def)
  show ?thesis
  proof (cases "resolving [] c s")
    case True
    have "yields (Connector_resolved pton env idle_app a e addrs i s) (\<lambda>s'. active pton m k n i False s' \<and> drop_ref env i s' = Inr s')"
      by (rule yields_mono [OF resolved_phase [OF assms(1,2) c(1) True]]) (use assms(3) sole_kept in \<open>auto simp: active_def\<close>)
    then show ?thesis using True c(1) by (auto simp: client_step_def sole_heap resolving_def elim!: yields_mono)
  next
    case False
    then have "cn_dns c \<noteq> Resolving" using c(2) by (auto simp: phase_defs)
    then show ?thesis using c False by (auto simp: client_step_def sole_heap active_def)
  qed
qed

lemma writable_active:
  assumes "client_setting pton env m prog" "16 + 3 * (Suc n * max m k) < 2 ^ 63" "active pton m k n i False s"
  shows "yields (client_step pton (user_at env prog (Suc (Suc 0))) env idle_app (Writable i a answers 0 laddr) s)
    (\<lambda>s'. \<exists>c. sole pton i c s' \<and> connected m k n c s')"
proof -
  have e: "libevent_ok env" "civil m prog" "patient prog" using assms(1) by (simp_all add: client_setting_def)
  obtain c where c: "sole pton i c s" "connecting [] c s \<and> cn_dns c \<noteq> Resolving \<or> connected m k n c s"
    using assms(3) by (auto simp: active_def)
  show ?thesis
  proof (cases "connected m k n c s")
    case True
    then have "Option.bind (cn_chan c) watched = None" by (auto simp: connected_def closed_unwatched split: option.splits)
    then show ?thesis using c(1) True by (auto simp: client_step_def sole_heap simp del: user_at.simps)
  next
    case False
    then have cg: "connecting [] c s" "cn_dns c \<noteq> Resolving" using c(2) by auto
    then have "Option.bind (cn_chan c) watched \<noteq> None" using waits_watched by (auto simp: connecting_def split: option.splits)
    moreover have "yields (Connector_HandleWrite pton (user_at env prog (Suc (Suc 0))) env idle_app a answers 0 laddr i s)
        (\<lambda>s'. yields (drop_ref env i s') (\<lambda>s'. \<exists>c. sole pton i c s' \<and> connected m k n c s'))"
      by (rule yields_mono [OF HandleWrite_connected [OF e assms(2) c(1) cg]]) (auto simp: sole_kept)
    ultimately show ?thesis using c(1) by (simp add: client_step_def sole_heap del: user_at.simps)
  qed
qed

text \<open>C26. From every state of \<open>client_on\<close>, that is connecting, resolving, waiting to try again or connected, with its connector there and
  \<^verbatim>\<open>Disconnect\<close> not called, three events make a client connected: the pending start, the resolver's answer with at least one address and a
  write event without an error, those that do not apply having no effect. So such a client gets back to a server that answers. The attempts
  are \<open>good_attempt\<close>s, the resolver does not answer before it returns, and the application's callbacks for the client do nothing
  (\<open>idle_app\<close>). After \<^verbatim>\<open>Disconnect\<close> nothing of this holds, as the section on failures shows.\<close>

theorem TCPClient_can_connect:
  assumes "client_setting pton env m prog" "16 + 3 * (Suc n * max m k) < 2 ^ 63" "client_on pton m k n s" "cl_connector s = Some i"
    "good_attempt a" "at_dns a = None" "addrs \<noteq> []"
  shows "yields (client_run pton (user_at env prog (Suc (Suc 0))) env idle_app
      [RestartDue a, Resolved i a e addrs, Writable i a answers 0 laddr] s)
    (\<lambda>s'. \<exists>c. sole pton i c s' \<and> connected m k n c s')"
proof -
  have env: "libevent_ok env" using assms(1) by (simp add: client_setting_def)
  let ?step = "client_step pton (user_at env prog (Suc (Suc 0))) env idle_app"
  have w: "yields (?step (Resolved i a e addrs) s1) (\<lambda>s2. yields (?step (Writable i a answers 0 laddr) s2)
      (\<lambda>s'. \<exists>c. sole pton i c s' \<and> connected m k n c s'))" if "active pton m k n i True s1" for s1
    by (rule yields_mono [OF resolved_active [OF env assms(5,7) that] writable_active [OF assms(1,2)]])
  have "yields (?step (RestartDue a) s) (\<lambda>s1. yields (?step (Resolved i a e addrs) s1) (\<lambda>s2.
      yields (?step (Writable i a answers 0 laddr) s2) (\<lambda>s'. \<exists>c. sole pton i c s' \<and> connected m k n c s')))"
    by (rule yields_mono [OF restart_active [OF env assms(5,6,3,4)] w])
  then show ?thesis by (simp del: user_at.simps)
qed

theorem TCPClient_can_connect_witness:
  "\<exists>s0 i. Client_Connect sample_pton good_env idle_app sample_attempt (Client_Bind [] (TCPClient_new sample_laddr ''client'')) = Inr s0 \<and>
    yields (client_run sample_pton (user_at good_env echo_prog (Suc (Suc 0))) good_env idle_app
      [RestartDue sample_attempt, Resolved i sample_attempt 0 [''abcd''], Writable i sample_attempt [] 0 ''here''] s0)
    (\<lambda>s'. \<exists>c. sole sample_pton i c s' \<and> connected 100 5 1000 c s')"
proof -
  obtain s0 where s0: "Client_Connect sample_pton good_env idle_app sample_attempt (Client_Bind [] (TCPClient_new sample_laddr ''client'')) = Inr s0"
      "client_on sample_pton 100 5 1000 s0"
    using yieldsE [OF connect_starts [OF good_env_ok sample_good sample_addr(2,1)]] by blast
  then obtain i where i: "cl_connector s0 = Some i" by (auto simp: client_on_def sole_def)
  have "yields (client_run sample_pton (user_at good_env echo_prog (Suc (Suc 0))) good_env idle_app
      [RestartDue sample_attempt, Resolved i sample_attempt 0 [''abcd''], Writable i sample_attempt [] 0 ''here''] s0)
    (\<lambda>s'. \<exists>c. sole sample_pton i c s' \<and> connected 100 5 1000 c s')"
    by (rule TCPClient_can_connect [OF sample_setting _ s0(2) i sample_good]) (simp_all add: sample_attempt_def)
  then show ?thesis using s0(1) by blast
qed

section \<open>Failures\<close>

text \<open>An attempt that times out leaves its closed channel behind.\<close>

lemma timed_out:
  assumes "libevent_ok env" "sole pton i c s" "connecting [] c s"
  shows "yields (client_step pton user env idle_app (Timeout i) s)
    (\<lambda>s'. \<exists>c'. sole pton i c' s' \<and> waiting [] i c' s' \<and> cn_chan c' \<noteq> None \<and> cn_raddr c' = cn_raddr c)"
proof -
  obtain ch where ch: "cn_chan c = Some ch" "chan_waits (cn_fd c) ch" using assms(3) by (auto simp: connecting_def split: option.splits)
  obtain ch1 where ch1: "close_chan env ch = Inr ch1" "chan_closed ch1" "ch_fd ch1 = cn_fd c"
    using close_chan_waits [OF ch(2) assms(1)] by (fastforce elim: yieldsE)
  have "yields (Connector_HandleError env idle_app ETIMEDOUT i s)
      (\<lambda>s'. \<exists>c'. sole pton i c' s' \<and> waiting [] i c' s' \<and> cn_chan c' \<noteq> None \<and> cn_raddr c' = cn_raddr c)"
    using assms ch(1) ch1
    by (auto simp: Connector_HandleError_def with_cn_def put_cn_def failed_conn libevent_ok_def phase_defs INVALID_SOCKET_def
        ETIMEDOUT_def ECONNREFUSED_def Let_def)
  moreover have "on_connector i cn_timer s" "OnConnectTimeout env idle_app i s = Connector_HandleError env idle_app ETIMEDOUT i s"
    using assms(2,3) by (auto simp: sole_heap OnConnectTimeout_def with_cn_def phase_defs)
  ultimately show ?thesis by (force simp: client_step_def sole_kept elim!: yields_mono)
qed

text \<open>A closed channel cannot be closed again.\<close>

lemma close_closed: "chan_closed ch \<Longrightarrow> close_chan env ch = Inl AssertFail"
  by (simp add: close_chan_def DisableAllEvent_def FdChannel_Close_def chan_closed_def)

text \<open>An attempt for which \<^verbatim>\<open>connect\<close> fails at once, for example because the network is down.\<close>

definition failing_attempt :: "attempt \<Rightarrow> bool" where
  "failing_attempt a \<longleftrightarrow> sys_socket (at_sock a) > 0 \<and> make_nonblocking (at_sock a) \<ge> 0 \<and> sys_fcntl (at_sock a) \<noteq> -1 \<and>
     at_bind a = 0 \<and> at_connect a \<noteq> 0 \<and> \<not> EVUTIL_ERR_CONNECT_RETRIABLE (at_connect a)"

text \<open>A retry for which \<^verbatim>\<open>connect\<close> fails at once aborts the process when an earlier attempt timed out: \<^verbatim>\<open>HandleError\<close> closes the channel of
  that attempt a second time.\<close>

theorem retry_fails_at_once:
  assumes "libevent_ok env" "sole pton i c s" "connecting [] c s" "failing_attempt a"
  shows "client_run pton user env idle_app [Timeout i, RestartDue a] s = Inl AssertFail"
proof -
  obtain s' c' where s': "client_step pton user env idle_app (Timeout i) s = Inr s'" "sole pton i c' s'" "waiting [] i c' s'"
      "cn_chan c' \<noteq> None" "cn_raddr c' = cn_raddr c"
    using timed_out [OF assms(1-3), of user] by (auto elim!: yieldsE)
  then obtain ch where ch: "cn_chan c' = Some ch" "chan_closed ch" by (auto simp: waiting_def chan_past_def)
  obtain ss where "ParseFromIPPort_value pton (cl_local_addr s') = Inr ss" using s'(2) by (auto simp: sole_def addr_ok_def)
  then have "client_step pton user env idle_app (RestartDue a) s' = Inl AssertFail"
    using s'(2,3,5) ch assms(1,3,4) close_closed [OF ch(2)]
    by (auto simp: client_step_def Connector_Start_def Connector_Connect_def Connector_HandleError_def with_cn_def put_cn_def
        failing_attempt_def CreateNonblockingSocket_def sole_def waiting_def connecting_def libevent_ok_def Let_def)
  then show ?thesis using s'(1) by simp
qed

text \<open>The client of the examples: connecting to port 9099.\<close>

lemma zero_family: "IsZeroAddress ss \<Longrightarrow> ss_family ss = 0"
proof -
  have "list_all (\<lambda>c. c = CHR 0x00) bs \<Longrightarrow> word_of_le bs = (0 :: 16 word)" for bs by (induction bs) simp_all
  moreover assume "IsZeroAddress ss"
  then have "list_all (\<lambda>c. c = CHR 0x00) (range_of 0 2 ss)"
    by (auto simp: IsZeroAddress_def range_of_def list_all_iff dest: in_set_takeD in_set_dropD)
  ultimately show ?thesis by (simp add: ss_family_def)
qed

lemma sample_connector:
  "\<exists>c. Connector_new sample_pton junk sample_laddr = Inr c \<and> cn_fd c = INVALID_SOCKET \<and> cn_chan c = None \<and> cn_dns c = NoResolver \<and>
     \<not> IsZeroAddress (cn_raddr c)"
proof -
  have "SplitHostPort sample_laddr [] 0 = Inr (True, ''0.0.0.0'', 9099)"
    unfolding sample_laddr_def by (subst SplitHostPort_colon) (simp_all add: Let_def)
  moreover from this obtain ss where "ParseFromIPPort sample_pton sample_laddr = Inr (True, ss)" "ss_family ss = AF_INET"
    using ParseFromIPPort_ok [of sample_laddr "''0.0.0.0''" 9099 sample_pton 1 "''abcd''"] by (auto simp: sample_pton_def)
  moreover from this(2) have "\<not> IsZeroAddress ss" using zero_family by (force simp: AF_INET_def)
  ultimately show ?thesis by (simp add: Connector_new_def ParseFromIPPort_value_def)
qed

lemma sample_connecting:
  "\<exists>s0 c. Client_Connect sample_pton good_env idle_app sample_attempt (Client_Bind [] (TCPClient_new sample_laddr ''client'')) = Inr s0 \<and>
     sole sample_pton 0 c s0 \<and> connecting [] c s0 \<and> cn_dns c \<noteq> Resolving"
proof -
  let ?s = "Client_Bind [] (TCPClient_new sample_laddr ''client'')"
  obtain c where c: "Connector_new sample_pton (at_junk sample_attempt) sample_laddr = Inr c" "cn_fd c = INVALID_SOCKET" "cn_chan c = None"
      "cn_dns c = NoResolver" "\<not> IsZeroAddress (cn_raddr c)"
    using sample_connector by blast
  define c1 s1 where "c1 = c\<lparr>cn_timer := True\<rparr>" and "s1 = put_cn 0 c1 (?s\<lparr>cl_connector := Some 0, cl_next := 1\<rparr>)"
  have "Client_Connect sample_pton good_env idle_app sample_attempt ?s = Connector_Connect sample_pton good_env idle_app sample_attempt 0 s1"
    using c(1,5) good_env_ok
    by (simp add: Client_Connect_def Client_Bind_def TCPClient_new_def Connector_Start_def with_cn_def put_cn_def libevent_ok_def c1_def
        s1_def Let_def)
  moreover have "sole sample_pton 0 c1 s1" "about_to [] c1 s1" "cn_timer c1" "\<not> IsZeroAddress (cn_raddr c1)"
    using c sample_addr by (simp_all add: sole_def about_to_def chan_past_def Client_Bind_def TCPClient_new_def put_cn_def c1_def s1_def)
  ultimately show ?thesis
    using Connect_connecting [OF good_env_ok sample_good, of sample_pton 0 c1 s1 "[]" idle_app] c(4) by (force simp: c1_def elim!: yieldsE)
qed

theorem retry_fails_at_once_witness:
  "\<exists>s0. Client_Connect sample_pton good_env idle_app sample_attempt (Client_Bind [] (TCPClient_new sample_laddr ''client'')) = Inr s0 \<and>
     client_run sample_pton (\<lambda>_ c. Inr c) good_env idle_app [Timeout 0, RestartDue (sample_attempt\<lparr>at_connect := 101\<rparr>)] s0 = Inl AssertFail"
proof -
  have "failing_attempt (sample_attempt\<lparr>at_connect := 101\<rparr>)"
    by (simp add: failing_attempt_def sample_attempt_def sample_senv_def EVUTIL_ERR_CONNECT_RETRIABLE_def EINTR_def EINPROGRESS_def)
  then show ?thesis using sample_connecting retry_fails_at_once [OF good_env_ok] by blast
qed

text \<open>C40. \<^verbatim>\<open>Disconnect\<close> while the client waits to try again does not cancel the pending start: the client connects again, and when the attempt
  succeeds the connector is destroyed while it handles this, because no one but its own channel holds it.\<close>

theorem Disconnect_while_waiting:
  assumes "client_setting pton env m prog" "16 + 3 * (Suc n * max m k) < 2 ^ 63" "sole pton i c s" "connecting [] c s" "good_attempt a"
  shows "client_run pton (user_at env prog (Suc (Suc 0))) env idle_app [Timeout i, DoDisconnect, RestartDue a, Writable i a answers 0 laddr] s =
    Inl OutOfBounds"
proof -
  have e: "libevent_ok env" "civil m prog" "patient prog" using assms(1) by (simp_all add: client_setting_def)
  let ?user = "user_at env prog (Suc (Suc 0))" and ?fd = "sys_socket (at_sock a)"
  obtain s1 c1 where s1: "client_step pton ?user env idle_app (Timeout i) s = Inr s1" "sole pton i c1 s1" "waiting [] i c1 s1"
      "cn_raddr c1 = cn_raddr c"
    using timed_out [OF e(1) assms(3,4), of ?user] by (auto elim!: yieldsE)
  define s2 where "s2 = s1\<lparr>auto_reconnect := False, cl_connector := None\<rparr>"
  have s2: "client_step pton ?user env idle_app DoDisconnect s1 = Inr s2"
    using s1(2,3) e(1)
    by (auto simp: client_step_def DisconnectInLoop_def with_cn_def sole_def waiting_def drop_ref_def cn_shared_def libevent_ok_def s2_def Let_def)
  define c3 s3 where "c3 = c1\<lparr>cn_timer := True\<rparr>" and "s3 = put_cn i c3 s2"
  obtain ch where ch: "Connector_Connect pton env idle_app a i s3 =
      Inr (put_cn i (c3\<lparr>cn_fd := ?fd, cn_own_fd := True, cn_status := CnConnecting, cn_chan := Some ch\<rparr>) (s3\<lparr>cl_fds := [?fd]\<rparr>))"
      "chan_waits ?fd ch" "?fd > 0"
    using Connect_pending [OF e(1) assms(5), of s3 i c3 pton idle_app] s1(2,3)
    by (auto simp: sole_def waiting_def s2_def s3_def c3_def put_cn_def)
  define c4 s4 where "c4 = c3\<lparr>cn_fd := ?fd, cn_own_fd := True, cn_status := CnConnecting, cn_chan := Some ch\<rparr>"
    and "s4 = put_cn i c4 (s3\<lparr>cl_fds := [?fd], cl_restarts := []\<rparr>)"
  have "client_step pton ?user env idle_app (RestartDue a) s2 = Inr s4"
    using s1(2-4) assms(4) e(1) ch(1)
    by (auto simp: client_step_def Connector_Start_def with_cn_def sole_def waiting_def connecting_def drop_ref_def cn_shared_def
        libevent_ok_def s2_def s3_def c3_def c4_def s4_def put_cn_def Let_def)
  moreover obtain ch1 where "close_chan env ch = Inr ch1" "chan_closed ch1"
    using close_chan_waits [OF ch(2) e(1)] by (fastforce elim: yieldsE)
  moreover obtain tc nt where "OnConnection pton ?user env idle_app a answers ?fd laddr s4 =
      Inr (s4\<lparr>cl_next_id := cl_next_id s4 + 1, cl_conn := Some tc, cl_notices := nt\<rparr>)"
    using OnConnection_up [OF e assms(2) ch(3), of pton a answers laddr s4] by blast
  moreover have "watched ch \<noteq> None" "ch_fd ch = ?fd" using waits_watched [OF ch(2)] ch(2) by (simp_all add: chan_waits_def)
  ultimately have "client_step pton ?user env idle_app (Writable i a answers 0 laddr) s4 = Inl OutOfBounds"
    using s1(2,3)
    by (auto simp: client_step_def on_connector_def Connector_HandleWrite_def with_cn_def cn_shared_def chan_closed_def sole_def waiting_def
        s2_def s3_def c3_def c4_def s4_def put_cn_def Let_def simp del: user_at.simps)
  then show ?thesis using s1(1) s2 \<open>client_step pton ?user env idle_app (RestartDue a) s2 = Inr s4\<close> by (simp del: user_at.simps)
qed

theorem Disconnect_while_waiting_witness:
  "\<exists>s0. Client_Connect sample_pton good_env idle_app sample_attempt (Client_Bind [] (TCPClient_new sample_laddr ''client'')) = Inr s0 \<and>
     client_run sample_pton (user_at good_env echo_prog (Suc (Suc 0))) good_env idle_app
       [Timeout 0, DoDisconnect, RestartDue sample_attempt, Writable 0 sample_attempt [] 0 ''here''] s0 = Inl OutOfBounds"
proof -
  obtain s0 c where s0: "Client_Connect sample_pton good_env idle_app sample_attempt (Client_Bind [] (TCPClient_new sample_laddr ''client'')) = Inr s0"
      "sole sample_pton 0 c s0" "connecting [] c s0"
    using sample_connecting by blast
  have "client_run sample_pton (user_at good_env echo_prog (Suc (Suc 0))) good_env idle_app
       [Timeout 0, DoDisconnect, RestartDue sample_attempt, Writable 0 sample_attempt [] 0 ''here''] s0 = Inl OutOfBounds"
    by (rule Disconnect_while_waiting [OF sample_setting _ s0(2,3) sample_good, where n = 1 and k = 1]) simp
  then show ?thesis using s0(1) by blast
qed

text \<open>A client that does not reconnect and whose connection is lost can neither be disconnected nor destroyed: its connector is still
  there, connected, although the connection is gone.\<close>

theorem lost_connection_traps:
  assumes "in_loop_thread env" "cl_connector s = Some i" "cl_heap s i = Some c" "cn_status c = CnConnected" "cl_conn s = Some tc"
    "conn_step user env ev tc = Inr tc'" "CloseFn \<notin> set (calls tc)" "CloseFn \<in> set (calls tc')"
  shows "\<exists>s'. client_step pton user env idle_app (ConnHappens a ev) (set_auto_reconnect False s) = Inr s' \<and>
    DisconnectInLoop env idle_app s' = Inl AssertFail \<and> TCPClient_delete s' = Inl AssertFail"
  using assms
  by (simp add: client_step_def set_auto_reconnect_def OnRemoveConnection_def notify_def idle_app_def DisconnectInLoop_def with_cn_def
      TCPClient_delete_def Let_def)

theorem lost_connection_traps_witness:
  "\<exists>s tc s'. cl_conn s = Some tc \<and>
     client_step sample_pton (user_at good_env quiet_prog (Suc (Suc 0))) good_env idle_app (ConnHappens sample_attempt RunTask)
       (set_auto_reconnect False s) = Inr s' \<and>
     DisconnectInLoop good_env idle_app s' = Inl AssertFail \<and> TCPClient_delete s' = Inl AssertFail"
proof -
  obtain tc tc' where tc: "conn_step (user_at good_env quiet_prog (Suc (Suc 0))) good_env RunTask tc = Inr tc'"
      "CloseFn \<notin> set (calls tc)" "CloseFn \<in> set (calls tc')"
    using sample_conn_steps by blast
  obtain c where "Connector_new sample_pton [] sample_laddr = Inr c" using sample_connector by blast
  let ?s = "(TCPClient_new sample_laddr ''client'')\<lparr>cl_connector := Some 0, cl_heap := [0 \<mapsto> c\<lparr>cn_status := CnConnected\<rparr>], cl_conn := Some tc\<rparr>"
  have "in_loop_thread good_env" using good_env_ok by (simp add: libevent_ok_def)
  from lost_connection_traps [OF this _ _ _ _ tc, of ?s 0 "c\<lparr>cn_status := CnConnected\<rparr>" sample_pton sample_attempt]
  obtain s' where "client_step sample_pton (user_at good_env quiet_prog (Suc (Suc 0))) good_env idle_app (ConnHappens sample_attempt RunTask)
      (set_auto_reconnect False ?s) = Inr s'" "DisconnectInLoop good_env idle_app s' = Inl AssertFail" "TCPClient_delete s' = Inl AssertFail"
    by auto
  then show ?thesis by (intro exI [of _ ?s] exI [of _ tc] exI [of _ s']) (simp del: user_at.simps)
qed

text \<open>An application that disconnects in the callback that announces the connection destroys the connector that is calling it, whose
  destructor also closes the descriptor of the new connection.\<close>

definition hasty_app :: "loop_env \<Rightarrow> app_code" where
  "hasty_app env n s = (if n = ConnectionUp then DisconnectInLoop env idle_app s else Inr s)"

theorem Disconnect_in_callback:
  assumes "client_setting pton env m prog" "16 + 3 * (Suc n * max m k) < 2 ^ 63" "sole pton i c s" "connecting [] c s" "cn_dns c \<noteq> Resolving"
  shows "client_step pton (user_at env prog (Suc (Suc 0))) env (hasty_app env) (Writable i a answers 0 laddr) s = Inl OutOfBounds"
proof -
  have e: "libevent_ok env" "civil m prog" "patient prog" using assms(1) by (simp_all add: client_setting_def)
  obtain ch where ch: "cn_chan c = Some ch" "chan_waits (cn_fd c) ch" "cn_fd c > 0"
    using assms(4) by (auto simp: connecting_def split: option.splits)
  then have fd: "ch_fd ch = cn_fd c" "watched ch \<noteq> None" using waits_watched by (simp_all add: chan_waits_def)
  obtain ch1 where ch1: "close_chan env ch = Inr ch1" "chan_closed ch1" "ch_fd ch1 = cn_fd c"
    using close_chan_waits [OF ch(2) e(1)] by (fastforce elim: yieldsE)
  obtain tc where tc: "OnConnection pton (user_at env prog (Suc (Suc 0))) env (hasty_app env) a answers (cn_fd c) laddr s =
      notify (hasty_app env) ConnectionUp (s\<lparr>cl_next_id := cl_next_id s + 1, cl_conn := Some tc\<rparr>)" "tc_status tc = kConnected"
    using OnConnection_new [OF e assms(2) ch(3), of pton "hasty_app env" a answers laddr s] by blast
  have "\<exists>s'. notify (hasty_app env) ConnectionUp (s\<lparr>cl_next_id := cl_next_id s + 1, cl_conn := Some tc\<rparr>) = Inr s' \<and> cl_heap s' i = None"
    using assms(3-5) ch(1) ch1 tc(2) e(1)
    by (simp add: notify_def hasty_app_def DisconnectInLoop_def Connector_Cancel_def with_cn_def put_cn_def drop_ref_def cn_shared_def
        Connector_delete_def FdChannel_delete_def chan_closed_def INVALID_SOCKET_def sole_def connecting_def libevent_ok_def Let_def)
  then show ?thesis using assms(3,4) ch(1) fd tc(1)
    by (auto simp: client_step_def sole_heap Connector_HandleWrite_def with_cn_def sole_def connecting_def simp del: user_at.simps)
qed

end
