(* ===== verification/Url_Parser.thy ===== *)
theory Url_Parser
  imports Sockets Buffer_Props
begin

text \<open>
  \<^verbatim>\<open>httpc::URLParser\<close> (include/eventpp/httpc/url_parser.hpp, src/httpc/url_parser.cpp): the parts of a URL. The iterators of
  the source are positions in the string.
\<close>

record URLParser =
  up_schema :: string
  up_host :: string
  up_port :: int
  up_path :: string
  up_query :: string

definition equal_key :: "char \<Rightarrow> bool" where
  "equal_key v \<longleftrightarrow> v = CHR '':'' \<or> v = CHR ''/'' \<or> v = CHR ''?'' \<or> v = CHR ''#''"

definition is_question_or_sharp :: "char \<Rightarrow> bool" where
  "is_question_or_sharp v \<longleftrightarrow> v = CHR ''?'' \<or> v = CHR ''#''"

text \<open>\<^verbatim>\<open>std::find_if\<close> from position \<open>i\<close> to the end.\<close>

definition find_if_from :: "(char \<Rightarrow> bool) \<Rightarrow> nat \<Rightarrow> string \<Rightarrow> nat" where
  "find_if_from p i s = i + length (takeWhile (\<lambda>c. \<not> p c) (drop i s))"

definition url_port :: "string \<Rightarrow> nat \<Rightarrow> int \<Rightarrow> (nat \<times> int) result" where
  "url_port s it port =
     (if s ! it = CHR '':'' \<and> it + 1 \<noteq> length s
      then ebind (atoi (drop (it + 1) s)) (\<lambda>p. Inr (find_if_from equal_key (it + 1) s, p))
      else Inr (if s ! it = CHR '':'' then it + 1 else it, port))"

definition URLParser_parse :: "string \<Rightarrow> URLParser \<Rightarrow> URLParser result" where
  "URLParser_parse s u =
     (let it = std_search ''://'' s;
          (u1, last_it) = (if it \<noteq> length s then (u\<lparr>up_schema := up_schema u @ map tolower_char (take it s)\<rparr>, it + 3) else (u, 0));
          it1 = find_if_from equal_key last_it s;
          u2 = u1\<lparr>up_host := up_host u1 @ map tolower_char (range_of last_it it1 s)\<rparr> in
      if it1 = length s then Inr u2
      else
        ebind (url_port s it1 (up_port u2)) (\<lambda>(it2, port).
        let u3 = u2\<lparr>up_port := port\<rparr>;
            it3 = (if it2 \<noteq> length s \<and> s ! it2 = CHR ''/'' then find_if_from is_question_or_sharp it2 s else it2);
            u4 = (if it2 \<noteq> length s \<and> s ! it2 = CHR ''/'' then u3\<lparr>up_path := range_of it2 it3 s\<rparr> else u3) in
        Inr (if it3 \<noteq> length s \<and> s ! it3 = CHR ''?'' \<and> it3 + 1 \<noteq> length s
             then u4\<lparr>up_query := range_of (it3 + 1) (length s) s\<rparr> else u4)))"

definition URLParser_new :: "string \<Rightarrow> URLParser result" where
  "URLParser_new url = URLParser_parse url \<lparr>up_schema = [], up_host = [], up_port = 80, up_path = [], up_query = []\<rparr>"

section \<open>Scanning\<close>

lemma std_search_first: "hd pat \<notin> set s \<Longrightarrow> pat \<noteq> [] \<Longrightarrow> std_search pat (s @ pat @ r) = length s"
proof (induction s)
  case Nil
  then show ?case by (cases pat) auto
next
  case (Cons c s)
  then have "take (length pat) ((c # s) @ pat @ r) \<noteq> pat" by (cases pat) auto
  then show ?case using Cons by simp
qed

lemma find_if_stop:
  assumes "\<And>c. c \<in> set w \<Longrightarrow> \<not> p c" "r = [] \<or> p (hd r)"
  shows "find_if_from p (length s) (s @ w @ r) = length s + length w"
proof -
  have "takeWhile (\<lambda>c. \<not> p c) r = []" using assms(2) by (cases r) auto
  then show ?thesis using assms(1) by (simp add: find_if_from_def takeWhile_append)
qed

lemma range_of_middle: "range_of (length s) (length s + length w) (s @ w @ r) = w"
  by (simp add: range_of_def)

lemma atoi_prefix:
  assumes "int n < 2 ^ 31" "r = [] \<or> \<not> isdigit (hd r)"
  shows "atoi (to_string n @ r) = Inr (int n)"
proof -
  obtain c cs where cs: "to_string n = c # cs" "isdigit c" "list_all isdigit cs"
    using to_string_digits [of n] by (cases "to_string n") auto
  have "takeWhile isdigit r = []" using assms(2) by (cases r) auto
  then have "takeWhile isdigit (c # cs @ r) = c # cs" using cs by (simp add: list_all_iff takeWhile_append)
  then show ?thesis
    using cs isdigit_props [OF cs(2)] digits_value_to_string [of n] assms(1) by (simp add: atoi_def Let_def)
qed

section \<open>Properties\<close>

text \<open>C31. A URL put together from a schema, a host, a port, a path and a query is taken apart into the same parts, schema and host in
  lower case. A fragment, which follows the query, is returned as part of it.\<close>

theorem URLParser_components:
  assumes "CHR '':'' \<notin> set sch" "\<And>c. c \<in> set h \<Longrightarrow> \<not> equal_key c" "p < 2 ^ 31" "path \<noteq> []" "hd path = CHR ''/''"
    "\<And>c. c \<in> set path \<Longrightarrow> \<not> is_question_or_sharp c" "query \<noteq> []"
  shows "URLParser_new (sch @ ''://'' @ h @ '':'' @ to_string p @ path @ ''?'' @ query) =
    Inr \<lparr>up_schema = map tolower_char sch, up_host = map tolower_char h, up_port = int p, up_path = path, up_query = query\<rparr>"
proof -
  let ?url = "sch @ ''://'' @ h @ '':'' @ to_string p @ path @ ''?'' @ query"
  define A B C where "A = sch @ ''://''" and "B = A @ h @ '':''" and "C = B @ to_string p"
  have url: "?url = A @ h @ ('':'' @ to_string p @ path @ ''?'' @ query)" "?url = B @ to_string p @ (path @ ''?'' @ query)"
      "?url = C @ path @ (''?'' @ query)"
    by (simp_all add: A_def B_def C_def)
  have len: "length A = length sch + 3" "length B = length A + length h + 1" "length C = length B + length (to_string p)"
    by (simp_all add: A_def B_def C_def)
  have dig: "isdigit c \<Longrightarrow> \<not> equal_key c" for c using isdigit_props by (auto simp: equal_key_def isdigit_def)
  have it: "std_search ''://'' ?url = length sch" using std_search_first [of "''://''" sch] assms(1) by simp
  have it1: "find_if_from equal_key (length A) ?url = length A + length h"
    unfolding url(1) by (rule find_if_stop) (use assms(2) in \<open>auto simp: equal_key_def\<close>)
  have h: "range_of (length A) (length A + length h) ?url = h" unfolding url(1) by (rule range_of_middle)
  have it2: "find_if_from equal_key (length B) ?url = length C"
    unfolding url(2) len(3) by (rule find_if_stop)
      (use to_string_digits(1) [of p] dig assms(4,5) in \<open>auto simp: list_all_iff equal_key_def\<close>)
  have "atoi (to_string p @ path @ ''?'' @ query) = Inr (int p)"
    using assms(3-5) by (intro atoi_prefix) (auto simp: isdigit_def)
  moreover have "drop (length B) ?url = to_string p @ path @ ''?'' @ query" unfolding url(2) by simp
  ultimately have port: "atoi (drop (length B) ?url) = Inr (int p)" by simp
  have it3: "find_if_from is_question_or_sharp (length C) ?url = length C + length path"
    unfolding url(3) by (rule find_if_stop) (use assms(6) in \<open>auto simp: is_question_or_sharp_def\<close>)
  have path: "range_of (length C) (length C + length path) ?url = path" unfolding url(3) by (rule range_of_middle)
  have at: "?url ! (length A + length h) = CHR '':''" "?url ! length C = CHR ''/''" "?url ! (length C + length path) = CHR ''?''"
    unfolding url using assms(4,5) by (simp_all add: nth_append len hd_conv_nth)
  have query: "range_of (length C + length path + 1) (length ?url) ?url = query" unfolding url(3) by (simp add: range_of_def)
  have ne: "length sch \<noteq> length ?url" "length A + length h \<noteq> length ?url" "length B \<noteq> length ?url" "length C \<noteq> length ?url"
      "length C + length path \<noteq> length ?url" "length C + length path + 1 \<noteq> length ?url" "take (length sch) ?url = sch"
    using assms(4,7) by (simp_all add: A_def B_def C_def)
  have "url_port ?url (length A + length h) 80 = Inr (length C, int p)"
    using at(1) port it2 ne(3) len(2) by (simp add: url_port_def)
  then show ?thesis
    using it it1 h it3 path at query ne len(1)
    by (simp only: URLParser_new_def URLParser_parse_def Let_def) simp
qed

theorem URLParser_components_witness:
  "URLParser_new (''HTTP'' @ ''://'' @ ''Example.org'' @ '':'' @ to_string 8080 @ ''/a/b'' @ ''?'' @ ''x=1#top'') =
    Inr \<lparr>up_schema = map tolower_char ''HTTP'', up_host = map tolower_char ''Example.org'', up_port = int 8080, up_path = ''/a/b'', up_query = ''x=1#top''\<rparr>"
  by (rule URLParser_components) (auto simp: equal_key_def is_question_or_sharp_def)

text \<open>The separator is searched in the whole string, so a URL without a schema whose query holds a URL is taken apart at the wrong place.\<close>

lemma schema_found_in_query:
  "URLParser_new ''a.org/go?to=http://b.org/'' =
    Inr \<lparr>up_schema = ''a.org/go?to=http'', up_host = ''b.org'', up_port = 80, up_path = ''/'', up_query = []\<rparr>"
  by code_simp

end
