(* ===== verification/Http_Client.thy ===== *)
theory Http_Client
  imports Url_Parser "HOL-Library.AList" "HOL-Library.Char_ord" "HOL-Library.List_Lexorder"
begin

text \<open>
  The HTTP client (src/httpc/): \<^verbatim>\<open>Conn\<close>, the pool of connections \<^verbatim>\<open>ConnPool\<close>, \<^verbatim>\<open>Request\<close> with its retries and \<^verbatim>\<open>Response\<close>, in the build
  without SSL. Loops are numbered, and \<open>here\<close> is the loop whose thread runs the code. A connection is a value that moves between
  the pool and a request; \<open>hc_id\<close> identifies it. evhttp is a library: whether its calls succeed and what is received are
  arguments.
\<close>

section \<open>Connections\<close>

record Conn =
  hc_id :: nat
  hc_loop :: nat
  hc_host :: string
  hc_port :: int
  hc_timeout :: Duration
  hc_open :: bool
  hc_tv :: "timeval option"

definition Conn_new :: "nat \<Rightarrow> nat \<Rightarrow> string \<Rightarrow> int \<Rightarrow> Duration \<Rightarrow> bool \<Rightarrow> Conn result" where
  "Conn_new ident l h p t enable_ssl =
     (if enable_ssl then Inl (Thrown ''std::runtime_error'')
      else Inr \<lparr>hc_id = ident, hc_loop = l, hc_host = h, hc_port = p, hc_timeout = t, hc_open = False, hc_tv = None\<rparr>)"

text \<open>\<open>avail\<close> tells whether \<^verbatim>\<open>evhttp_connection_base_new\<close> succeeds.\<close>

definition Conn_Init :: "bool \<Rightarrow> Conn \<Rightarrow> bool \<times> Conn" where
  "Conn_Init avail c =
     (if hc_open c then (True, c)
      else if \<not> avail then (False, c)
      else (True, c\<lparr>hc_open := True, hc_tv := if Duration_IsZero (hc_timeout c) then None else Some (Duration_TimeVal (hc_timeout c))\<rparr>))"

definition Conn_Close :: "nat \<Rightarrow> Conn \<Rightarrow> Conn result" where
  "Conn_Close here c = (if hc_open c then asserting (here = hc_loop c) (Inr (c\<lparr>hc_open := False, hc_tv := None\<rparr>)) else Inr c)"

section \<open>The pool\<close>

text \<open>\<open>cp_next\<close> numbers the connections made, \<open>cp_tasks\<close> are the calls of \<^verbatim>\<open>Conn::Close\<close> handed to loops, \<open>cp_dropped\<close> the connections
  that were not taken back.\<close>

record ConnPool =
  cp_host :: string
  cp_port :: int
  cp_timeout :: Duration
  max_pool_size :: nat
  cp_pool :: "(nat \<times> Conn list) list"
  cp_next :: nat
  cp_tasks :: "(nat \<times> Conn) list"
  cp_dropped :: "Conn list"

definition ConnPool_new :: "string \<Rightarrow> int \<Rightarrow> Duration \<Rightarrow> bool \<Rightarrow> nat \<Rightarrow> ConnPool result" where
  "ConnPool_new h p t enable_ssl sz =
     (if enable_ssl then Inl (Thrown ''std::runtime_error'')
      else Inr \<lparr>cp_host = h, cp_port = p, cp_timeout = t, max_pool_size = sz, cp_pool = [], cp_next = 0, cp_tasks = [], cp_dropped = []\<rparr>)"

definition ConnPool_delete :: "ConnPool \<Rightarrow> unit result" where
  "ConnPool_delete p = asserting (cp_pool p = []) (Inr ())"

definition ConnPool_enable_ssl :: "ConnPool \<Rightarrow> bool" where
  "ConnPool_enable_ssl p = False"

text \<open>The constructor of a connection that belongs to a pool.\<close>

definition Conn_of_pool :: "nat \<Rightarrow> ConnPool \<Rightarrow> nat \<Rightarrow> Conn result" where
  "Conn_of_pool ident p l =
     (if ConnPool_enable_ssl p then Inl (Thrown ''std::runtime_error'')
      else Inr \<lparr>hc_id = ident, hc_loop = l, hc_host = cp_host p, hc_port = cp_port p, hc_timeout = cp_timeout p, hc_open = False, hc_tv = None\<rparr>)"

definition ConnPool_Get :: "nat \<Rightarrow> nat \<Rightarrow> ConnPool \<Rightarrow> (Conn \<times> ConnPool) result" where
  "ConnPool_Get here l p =
     asserting (here = l) (
     let p1 = (if map_of (cp_pool p) l = None then p\<lparr>cp_pool := AList.update l [] (cp_pool p)\<rparr> else p) in
     case map_of (cp_pool p1) l of
       None \<Rightarrow> Inl AssertFail
     | Some cs \<Rightarrow>
         if cs = [] then
           ebind (Conn_of_pool (cp_next p1) p1 l) (\<lambda>c. Inr (c, p1\<lparr>cp_next := cp_next p1 + 1\<rparr>))
         else Inr (last cs, p1\<lparr>cp_pool := AList.update l (butlast cs) (cp_pool p1)\<rparr>))"

definition ConnPool_Put :: "nat \<Rightarrow> Conn \<Rightarrow> ConnPool \<Rightarrow> ConnPool result" where
  "ConnPool_Put here c p =
     asserting (here = hc_loop c)
       (case map_of (cp_pool p) (hc_loop c) of
          None \<Rightarrow> Inl AssertFail
        | Some cs \<Rightarrow>
            if length cs \<ge> max_pool_size p then Inr (p\<lparr>cp_dropped := cp_dropped p @ [c]\<rparr>)
            else Inr (p\<lparr>cp_pool := AList.update (hc_loop c) (cs @ [c]) (cp_pool p)\<rparr>))"

definition ConnPool_Clear :: "ConnPool \<Rightarrow> ConnPool" where
  "ConnPool_Clear p =
     (if cp_pool p = [] then p
      else p\<lparr>cp_tasks := cp_tasks p @ concat (map (\<lambda>(l, cs). map (Pair l) cs) (cp_pool p)), cp_pool := []\<rparr>)"

section \<open>Responses\<close>

record evhttp_reply =
  er_code :: int
  er_body :: "byte list"
  er_headers :: "(string \<times> string) list"

record Response =
  rp_evreq :: "evhttp_reply option"
  http_code :: int
  rp_body :: "byte list"
  had_ssl_error :: bool

definition Response_new :: "evhttp_reply option \<Rightarrow> bool \<Rightarrow> Response" where
  "Response_new evreq ssl =
     (case evreq of
        None \<Rightarrow> \<lparr>rp_evreq = None, http_code = 0, rp_body = [], had_ssl_error = ssl\<rparr>
      | Some e \<Rightarrow> \<lparr>rp_evreq = Some e, http_code = er_code e, rp_body = er_body e, had_ssl_error = ssl\<rparr>)"

text \<open>\<open>find_header\<close> is \<^verbatim>\<open>evhttp_find_header\<close>.\<close>

definition FindHeader ::
  "((string \<times> string) list \<Rightarrow> string \<Rightarrow> string option) \<Rightarrow> string \<Rightarrow> Response \<Rightarrow> string option result" where
  "FindHeader find_header key r =
     (if http_code r > 0 then
        (case rp_evreq r of None \<Rightarrow> Inl AssertFail | Some e \<Rightarrow> Inr (find_header (er_headers e) key))
      else Inr None)"

section \<open>Requests\<close>

datatype evhttp_cmd = EVHTTP_REQ_GET | EVHTTP_REQ_POST

record http_call =
  hq_cmd :: evhttp_cmd
  hq_uri :: string
  hq_headers :: "(string \<times> string) list"
  hq_body :: string

text \<open>\<open>rq_pooled\<close> tells whether \<^verbatim>\<open>pool_\<close> is set; the pool is passed beside the request. \<open>rq_headers\<close> is ordered by its keys, as a
  \<^verbatim>\<open>std::map\<close>. The last four fields are the environment: the requests handed to evhttp, whether evhttp owes a reply, the
  timers that will call \<^verbatim>\<open>ExecuteInLoop\<close>, and the responses the handler was called with.\<close>

record Request =
  rq_pooled :: bool
  rq_loop :: nat
  rq_host :: string
  rq_port :: int
  rq_uri :: string
  rq_headers :: "(string \<times> string) list"
  rq_body :: string
  rq_conn :: "Conn option"
  rq_handler :: bool
  retried :: int
  retry_number :: int
  retry_interval :: Duration
  rq_calls :: "http_call list"
  rq_pending :: bool
  rq_timers :: nat
  rq_responses :: "Response list"

definition Request_new :: "ConnPool \<Rightarrow> nat \<Rightarrow> string \<Rightarrow> string \<Rightarrow> Request" where
  "Request_new p l uri body =
     \<lparr>rq_pooled = True, rq_loop = l, rq_host = cp_host p, rq_port = cp_port p, rq_uri = uri, rq_headers = [], rq_body = body, rq_conn = None,
      rq_handler = False, retried = 0, retry_number = 2, retry_interval = Duration_of_ns 1000000, rq_calls = [], rq_pending = False,
      rq_timers = 0, rq_responses = []\<rparr>"

text \<open>A URL taken apart by \<^verbatim>\<open>evhttp_uri_parse\<close>, which rejects some; accessors return null for a host, query or scheme that is not there.\<close>

record evhttp_uri =
  eu_scheme :: "string option"
  eu_host :: "string option"
  eu_port :: int
  eu_path :: string
  eu_query :: "string option"

definition Request_of_url ::
  "(string \<Rightarrow> evhttp_uri option) \<Rightarrow> nat \<Rightarrow> nat \<Rightarrow> string \<Rightarrow> string \<Rightarrow> Duration \<Rightarrow> Request result" where
  "Request_of_url uri_parse ident l http_url body timeout =
     (case uri_parse http_url of
        None \<Rightarrow> Inl NullPointer
      | Some u \<Rightarrow>
          let uri = (if eu_path u = [] then ''/'' else eu_path u);
              uri1 = (case eu_query u of None \<Rightarrow> uri | Some q \<Rightarrow> if q = [] then uri else uri @ ''?'' @ q) in
          case eu_host u of
            None \<Rightarrow> Inl NullPointer
          | Some h \<Rightarrow>
              if (case eu_scheme u of None \<Rightarrow> False | Some sch \<Rightarrow> map tolower_char sch = ''https'') then Inl (Thrown ''std::runtime_error'')
              else
                let port = (if eu_port u < 0 then 80 else eu_port u) in
                ebind (Conn_new ident l h port timeout False) (\<lambda>c.
                  Inr \<lparr>rq_pooled = False, rq_loop = l, rq_host = h, rq_port = port, rq_uri = uri1, rq_headers = [], rq_body = body,
                    rq_conn = Some c, rq_handler = False, retried = 0, retry_number = 2, retry_interval = Duration_of_ns 1000000,
                    rq_calls = [], rq_pending = False, rq_timers = 0, rq_responses = []\<rparr>))"

text \<open>The same with \<^verbatim>\<open>URLParser\<close>, for a libevent without \<^verbatim>\<open>evhttp_uri_parse\<close>.\<close>

definition Request_of_url_compat :: "nat \<Rightarrow> nat \<Rightarrow> string \<Rightarrow> string \<Rightarrow> Duration \<Rightarrow> Request result" where
  "Request_of_url_compat ident l http_url body timeout =
     ebind (URLParser_new http_url) (\<lambda>u.
     ebind (Conn_new ident l (up_host u) (up_port u) timeout False) (\<lambda>c.
       Inr \<lparr>rq_pooled = False, rq_loop = l, rq_host = up_host u, rq_port = up_port u,
         rq_uri = (if up_query u = [] then up_path u else up_path u @ ''?'' @ up_query u), rq_headers = [], rq_body = body,
         rq_conn = Some c, rq_handler = False, retried = 0, retry_number = 2, retry_interval = Duration_of_ns 1000000,
         rq_calls = [], rq_pending = False, rq_timers = 0, rq_responses = []\<rparr>))"

definition Request_delete :: "nat \<Rightarrow> Request \<Rightarrow> unit result" where
  "Request_delete here r =
     asserting (here = rq_loop r)
       (case rq_conn r of None \<Rightarrow> Inr () | Some c \<Rightarrow> ebind (Conn_Close here c) (\<lambda>_. Inr ()))"

fun add_header :: "string \<Rightarrow> string \<Rightarrow> (string \<times> string) list \<Rightarrow> (string \<times> string) list" where
  "add_header k v [] = [(k, v)]"
| "add_header k v ((k', v') # hs) =
     (if k = k' then (k, v) # hs else if k < k' then (k, v) # (k', v') # hs else (k', v') # add_header k v hs)"

definition AddHeader :: "string \<Rightarrow> string \<Rightarrow> Request \<Rightarrow> Request" where
  "AddHeader header val r = r\<lparr>rq_headers := add_header header val (rq_headers r)\<rparr>"

definition set_retry_number :: "int \<Rightarrow> Request \<Rightarrow> Request" where
  "set_retry_number v r = r\<lparr>retry_number := v\<rparr>"

definition set_retry_interval :: "Duration \<Rightarrow> Request \<Rightarrow> Request" where
  "set_retry_interval d r = r\<lparr>retry_interval := d\<rparr>"

text \<open>Whether evhttp's calls succeed in one execution.\<close>

record evhttp_env =
  ev_conn :: bool
  ev_req :: bool
  ev_header :: "string \<Rightarrow> string \<Rightarrow> bool"
  ev_body :: bool
  ev_make :: bool

text \<open>\<^verbatim>\<open>ExecuteInLoop\<close> up to the label \<^verbatim>\<open>failed\<close>; the result tells whether the request is on its way. \<open>send_request\<close> is the part after the connection was
  found.\<close>

definition send_request :: "evhttp_env \<Rightarrow> Conn \<Rightarrow> Request \<Rightarrow> bool \<times> Request" where
  "send_request e c r =
     (let c1 = snd (Conn_Init (ev_conn e) c);
          r1 = r\<lparr>rq_conn := Some c1\<rparr>;
          hs = (''host'', hc_host c1) # rq_headers r1 in
      if \<not> fst (Conn_Init (ev_conn e) c) then (False, r1)
      else if \<not> ev_req e then (False, r1)
      else if \<not> list_all (\<lambda>(k, v). ev_header e k v) hs then (False, r1)
      else if rq_body r1 \<noteq> [] \<and> \<not> ev_body e then (False, r1)
      else if \<not> ev_make e then (False, r1)
      else (True, r1\<lparr>rq_pending := True, rq_calls := rq_calls r1 @ [\<lparr>hq_cmd = if rq_body r1 = [] then EVHTTP_REQ_GET else EVHTTP_REQ_POST,
        hq_uri = rq_uri r1, hq_headers = hs, hq_body = rq_body r1\<rparr>]\<rparr>))"

definition attempt_request :: "nat \<Rightarrow> evhttp_env \<Rightarrow> Request \<times> ConnPool \<Rightarrow> (bool \<times> Request \<times> ConnPool) result" where
  "attempt_request here e = (\<lambda>(r, p).
     asserting (here = rq_loop r) (
     ebind (case rq_conn r of
              Some c \<Rightarrow> asserting (\<not> rq_pooled r) (Inr (c, p))
            | None \<Rightarrow> asserting (rq_pooled r) (ConnPool_Get here (rq_loop r) p)) (\<lambda>(c, p1).
       Inr (fst (send_request e c r), snd (send_request e c r), p1))))"

definition recycle :: "nat \<Rightarrow> Request \<times> ConnPool \<Rightarrow> (Request \<times> ConnPool) result" where
  "recycle here = (\<lambda>(r, p).
     if rq_pooled r then
       (case rq_conn r of
          None \<Rightarrow> Inl NullPointer
        | Some c \<Rightarrow> ebind (ConnPool_Put here c p) (\<lambda>p1. Inr (r\<lparr>rq_conn := None\<rparr>, p1)))
     else Inr (r, p))"

definition call_handler :: "Response \<Rightarrow> Request \<times> ConnPool \<Rightarrow> (Request \<times> ConnPool) result" where
  "call_handler resp = (\<lambda>(r, p).
     if rq_handler r then Inr (r\<lparr>rq_responses := rq_responses r @ [resp]\<rparr>, p) else Inl (Thrown ''std::bad_function_call''))"

text \<open>What neither part changes.\<close>

definition same_request :: "Request \<Rightarrow> Request \<Rightarrow> bool" where
  "same_request r r' \<longleftrightarrow> retried r' = retried r \<and> retry_number r' = retry_number r \<and> retry_interval r' = retry_interval r \<and>
     rq_pooled r' = rq_pooled r \<and> rq_loop r' = rq_loop r \<and> rq_handler r' = rq_handler r \<and> rq_timers r' = rq_timers r \<and>
     rq_responses r' = rq_responses r"

lemma send_request_same: "same_request r (snd (send_request e c r))"
  by (simp add: send_request_def same_request_def Let_def)

lemma attempt_request_same:
  assumes "attempt_request here e (r, p) = Inr (ok, r1, p1)"
  shows "same_request r r1"
  using assms send_request_same by (auto simp: attempt_request_def ebind_Inr_iff)

lemma recycle_same:
  assumes "recycle here (r, p) = Inr (r1, p1)"
  shows "same_request r r1"
  using assms by (auto simp: recycle_def same_request_def ebind_Inr_iff split: if_splits option.splits)

text \<open>\<open>envs n\<close> is the environment of the execution after \<open>n\<close> retries. A failed execution is repeated as \<^verbatim>\<open>Retry\<close> says: at once, or by a timer.\<close>

function ExecuteInLoop :: "nat \<Rightarrow> (int \<Rightarrow> evhttp_env) \<Rightarrow> Request \<times> ConnPool \<Rightarrow> (Request \<times> ConnPool) result" where
  "ExecuteInLoop here envs (r, p) =
     ebind (attempt_request here (envs (retried r)) (r, p)) (\<lambda>(ok, r1, p1).
     if ok then Inr (r1, p1)
     else if retried r1 < retry_number r1 then
       ebind (recycle here (r1\<lparr>retried := retried r1 + 1\<rparr>, p1)) (\<lambda>(r2, p2).
       if Duration_IsZero (retry_interval r2) then ExecuteInLoop here envs (r2, p2)
       else Inr (r2\<lparr>rq_timers := rq_timers r2 + 1\<rparr>, p2))
     else call_handler (Response_new None False) (r1, p1))"
  by pat_completeness auto

termination
  by (relation "measure (\<lambda>(here, envs, r, p). nat (retry_number r - retried r))")
    (auto dest!: attempt_request_same recycle_same simp: same_request_def)

declare ExecuteInLoop.simps [simp del]

definition Request_Retry :: "nat \<Rightarrow> (int \<Rightarrow> evhttp_env) \<Rightarrow> Request \<times> ConnPool \<Rightarrow> (Request \<times> ConnPool) result" where
  "Request_Retry here envs = (\<lambda>(r, p).
     ebind (recycle here (r\<lparr>retried := retried r + 1\<rparr>, p)) (\<lambda>(r1, p1).
     if Duration_IsZero (retry_interval r1) then ExecuteInLoop here envs (r1, p1)
     else Inr (r1\<lparr>rq_timers := rq_timers r1 + 1\<rparr>, p1)))"

lemma ExecuteInLoop_Retry:
  "ExecuteInLoop here envs (r, p) =
     ebind (attempt_request here (envs (retried r)) (r, p)) (\<lambda>(ok, r1, p1).
     if ok then Inr (r1, p1)
     else if retried r1 < retry_number r1 then Request_Retry here envs (r1, p1)
     else call_handler (Response_new None False) (r1, p1))"
  by (subst ExecuteInLoop.simps) (rule ebind_cong, auto simp: Request_Retry_def)

text \<open>\<^verbatim>\<open>Execute\<close> in the loop's thread.\<close>

definition Request_Execute :: "nat \<Rightarrow> (int \<Rightarrow> evhttp_env) \<Rightarrow> Request \<times> ConnPool \<Rightarrow> (Request \<times> ConnPool) result" where
  "Request_Execute here envs = (\<lambda>(r, p). ExecuteInLoop here envs (r\<lparr>rq_handler := True\<rparr>, p))"

definition server_error :: "evhttp_reply option \<Rightarrow> bool" where
  "server_error reply \<longleftrightarrow> (case reply of None \<Rightarrow> True | Some e \<Rightarrow> er_code e \<ge> 500 \<and> er_code e < 600)"

definition HandleResponse ::
  "nat \<Rightarrow> (int \<Rightarrow> evhttp_env) \<Rightarrow> evhttp_reply option \<Rightarrow> Request \<times> ConnPool \<Rightarrow> (Request \<times> ConnPool) result" where
  "HandleResponse here envs reply = (\<lambda>(r, p).
     asserting (here = rq_loop r)
       (if reply \<noteq> None \<and> (\<not> server_error reply \<or> retried r \<ge> retry_number r)
        then ebind (recycle here (r, p)) (call_handler (Response_new reply False))
        else if retried r < retry_number r then Request_Retry here envs (r, p)
        else ebind (recycle here (r, p)) (call_handler (Response_new reply False))))"

section \<open>Events\<close>

text \<open>evhttp calls back with a reply or, after a failure, without one; a timer is due; or others use the pool.\<close>

datatype request_event = Replies "evhttp_reply option" | RetryDue | OthersUse ConnPool

definition request_step ::
  "nat \<Rightarrow> (int \<Rightarrow> evhttp_env) \<Rightarrow> request_event \<Rightarrow> Request \<times> ConnPool \<Rightarrow> (Request \<times> ConnPool) result" where
  "request_step here envs e = (\<lambda>(r, p).
     case e of
       Replies reply \<Rightarrow> if rq_pending r then HandleResponse here envs reply (r\<lparr>rq_pending := False\<rparr>, p) else Inr (r, p)
     | RetryDue \<Rightarrow> if rq_timers r > 0 then ExecuteInLoop here envs (r\<lparr>rq_timers := rq_timers r - 1\<rparr>, p) else Inr (r, p)
     | OthersUse p' \<Rightarrow> Inr (r, p'))"

fun request_run ::
  "nat \<Rightarrow> (int \<Rightarrow> evhttp_env) \<Rightarrow> request_event list \<Rightarrow> Request \<times> ConnPool \<Rightarrow> (Request \<times> ConnPool) result" where
  "request_run here envs [] rp = Inr rp"
| "request_run here envs (e # es) rp = ebind (request_step here envs e rp) (request_run here envs es)"

end
