(* ===== verification/Http_Client_Props.thy ===== *)
theory Http_Client_Props
  imports Http_Client
begin

text \<open>
  The pool of connections as one bounded stack per loop, connections that are never shared, the retries of a request, and three
  failures.
\<close>

lemma yields_pair: "yields r (\<lambda>(x, y). P x y) \<Longrightarrow> (\<And>x y. P x y \<Longrightarrow> Q x y) \<Longrightarrow> yields r (\<lambda>(x, y). Q x y)"
  by (erule yields_mono) auto

lemma yields_triple: "yields r (\<lambda>(x, y, z). P x y z) \<Longrightarrow> (\<And>x y z. P x y z \<Longrightarrow> Q x y z) \<Longrightarrow> yields r (\<lambda>(x, y, z). Q x y z)"
  by (erule yields_mono) auto

section \<open>The pool\<close>

definition stack :: "ConnPool \<Rightarrow> nat \<Rightarrow> Conn list" where
  "stack p l = (case map_of (cp_pool p) l of None \<Rightarrow> [] | Some cs \<Rightarrow> cs)"

definition has_entry :: "nat \<Rightarrow> ConnPool \<Rightarrow> bool" where
  "has_entry l p \<longleftrightarrow> map_of (cp_pool p) l \<noteq> None"

text \<open>Every connection is kept for its own loop, and no loop has too many.\<close>

definition homes :: "ConnPool \<Rightarrow> bool" where
  "homes p \<longleftrightarrow> (\<forall>l. \<forall>c \<in> set (stack p l). hc_loop c = l)"

definition bounded :: "nat \<Rightarrow> ConnPool \<Rightarrow> bool" where
  "bounded n p \<longleftrightarrow> max_pool_size p = n \<and> (\<forall>l. length (stack p l) \<le> n)"

lemma Get_stack:
  "yields (ConnPool_Get l l p) (\<lambda>(c, p'). has_entry l p' \<and> (\<forall>l'. has_entry l' p \<longrightarrow> has_entry l' p') \<and> max_pool_size p' = max_pool_size p \<and>
     stack p' = (stack p)(l := butlast (stack p l)) \<and>
     (if stack p l = [] then hc_id c = cp_next p \<and> hc_loop c = l \<and> cp_next p' = Suc (cp_next p)
      else c = last (stack p l) \<and> cp_next p' = cp_next p))"
  by (auto simp: ConnPool_Get_def Conn_of_pool_def ConnPool_enable_ssl_def stack_def has_entry_def Let_def update_conv fun_eq_iff split: option.splits)

lemma Put_stack:
  assumes "has_entry (hc_loop c) p"
  shows "yields (ConnPool_Put (hc_loop c) c p) (\<lambda>p'. (\<forall>l'. has_entry l' p \<longrightarrow> has_entry l' p') \<and> max_pool_size p' = max_pool_size p \<and> cp_next p' = cp_next p \<and>
    stack p' = (if length (stack p (hc_loop c)) < max_pool_size p then (stack p)(hc_loop c := stack p (hc_loop c) @ [c]) else stack p))"
  using assms by (auto simp: ConnPool_Put_def stack_def has_entry_def update_conv fun_eq_iff split: option.splits)

text \<open>Users of the pool take connections out and bring them back; \<open>outs\<close> are those that are out.\<close>

datatype pool_call = OpGet nat | OpPut nat

definition pool_use :: "pool_call \<Rightarrow> ConnPool \<times> Conn list \<Rightarrow> (ConnPool \<times> Conn list) result" where
  "pool_use op = (\<lambda>(p, outs).
     case op of
       OpGet l \<Rightarrow> ebind (ConnPool_Get l l p) (\<lambda>(c, p'). Inr (p', outs @ [c]))
     | OpPut i \<Rightarrow>
         if i < length outs
         then ebind (ConnPool_Put (hc_loop (outs ! i)) (outs ! i) p) (\<lambda>p'. Inr (p', take i outs @ drop (Suc i) outs))
         else Inr (p, outs))"

fun pool_uses :: "pool_call list \<Rightarrow> ConnPool \<times> Conn list \<Rightarrow> (ConnPool \<times> Conn list) result" where
  "pool_uses [] s = Inr s"
| "pool_uses (op # ops) s = ebind (pool_use op s) (pool_uses ops)"

text \<open>Places hold identities below \<open>n\<close>: \<open>None\<close> stands for the connections that are out, \<open>Some l\<close> for the stack of loop \<open>l\<close>. No identity
  is at two places, nor twice at one.\<close>

definition apart :: "nat \<Rightarrow> (nat option \<Rightarrow> nat list) \<Rightarrow> bool" where
  "apart n F \<longleftrightarrow> (\<forall>k. distinct (F k)) \<and> (\<forall>k k' i. i \<in> set (F k) \<longrightarrow> i \<in> set (F k') \<longrightarrow> k = k') \<and> (\<forall>k. \<forall>i \<in> set (F k). i < n)"

lemma apart_drop:
  assumes "apart n F" "F a = xs @ i # ys"
  shows "apart n (F(a := xs @ ys))" and "i \<notin> set ((F(a := xs @ ys)) k)" and "i < n"
proof -
  have sub: "set ((F(a := xs @ ys)) k) \<subseteq> set (F k)" for k using assms(2) by auto
  have d: "distinct (F k)" for k using assms(1) by (simp add: apart_def)
  then have di: "distinct (xs @ i # ys)" using assms(2) by metis
  then have "distinct ((F(a := xs @ ys)) k)" for k using d by simp
  moreover have "k = k'" if "j \<in> set ((F(a := xs @ ys)) k)" "j \<in> set ((F(a := xs @ ys)) k')" for k k' j
    using that sub assms(1) unfolding apart_def by blast
  ultimately show "apart n (F(a := xs @ ys))" using sub assms(1) unfolding apart_def by blast
  show "i \<notin> set ((F(a := xs @ ys)) k)"
  proof
    assume i: "i \<in> set ((F(a := xs @ ys)) k)"
    have "k = a" using i sub [of k] assms unfolding apart_def by (metis in_set_conv_decomp subsetD)
    then show False using i di by auto
  qed
  show "i < n" using assms unfolding apart_def by (metis in_set_conv_decomp)
qed

lemma apart_add: "apart n F \<Longrightarrow> \<forall>k. i \<notin> set (F k) \<Longrightarrow> i < n \<Longrightarrow> apart n (F(a := F a @ [i]))"
  unfolding apart_def by (auto split: if_splits)

lemma apart_fresh: "apart n F \<Longrightarrow> apart (Suc n) (F(a := F a @ [n]))"
  by (rule apart_add) (force simp: apart_def)+

lemma apart_move:
  assumes "apart n F" "F a = xs @ i # ys" "a \<noteq> b"
  shows "apart n (F(a := xs @ ys, b := F b @ [i]))"
  using apart_add [OF apart_drop(1) [OF assms(1,2)], of i b] apart_drop(2,3) [OF assms(1,2)] assms(3) by simp

definition places :: "ConnPool \<Rightarrow> Conn list \<Rightarrow> nat option \<Rightarrow> nat list" where
  "places p outs k = (case k of None \<Rightarrow> map hc_id outs | Some l \<Rightarrow> map hc_id (stack p l))"

lemma places_upd:
  assumes "stack p' = (stack p)(l := cs)"
  shows "places p' outs' = (places p outs)(Some l := map hc_id cs, None := map hc_id outs')"
  using assms by (simp add: places_def fun_eq_iff split: option.splits)

lemma places_simps [simp]: "places p outs None = map hc_id outs" "places p outs (Some l) = map hc_id (stack p l)"
  by (simp_all add: places_def)

definition unshared :: "nat \<Rightarrow> ConnPool \<times> Conn list \<Rightarrow> bool" where
  "unshared n = (\<lambda>(p, outs). homes p \<and> bounded n p \<and> apart (cp_next p) (places p outs) \<and> (\<forall>c \<in> set outs. has_entry (hc_loop c) p))"

lemma Get_unshared:
  assumes "unshared n (p, outs)"
  shows "yields (pool_use (OpGet l) (p, outs)) (unshared n)"
proof -
  note u = assms [unfolded unshared_def prod.case]
  have "unshared n (p', outs @ [c])" if g: "has_entry l p'" "\<forall>l'. has_entry l' p \<longrightarrow> has_entry l' p'" "max_pool_size p' = max_pool_size p"
      "stack p' = (stack p)(l := butlast (stack p l))"
      "if stack p l = [] then hc_id c = cp_next p \<and> hc_loop c = l \<and> cp_next p' = Suc (cp_next p)
       else c = last (stack p l) \<and> cp_next p' = cp_next p" for c p'
  proof -
    note pl = places_upd [OF g(4), of "outs @ [c]" outs]
    have loop: "hc_loop c = l" using u g(5) by (auto simp: homes_def split: if_splits)
    have "apart (cp_next p') (places p' (outs @ [c]))"
    proof (cases "stack p l = []")
      case True
      then have "(places p outs)(Some l := map hc_id (butlast (stack p l)), None := map hc_id (outs @ [c])) =
          (places p outs)(None := places p outs None @ [cp_next p])"
        using g(5) by (simp add: fun_eq_iff)
      then show ?thesis using pl apart_fresh [of "cp_next p" "places p outs" None] u g(5) True by simp
    next
      case False
      then have "places p outs (Some l) = map hc_id (butlast (stack p l)) @ hc_id c # []"
        using g(5) append_butlast_last_id [OF False] by (metis list.simps(8,9) map_append places_simps(2))
      from apart_move [where F = "places p outs", OF _ this, of "cp_next p" None] show ?thesis using pl u g(5) False by simp
    qed
    then show ?thesis using u g(1-4) loop unfolding unshared_def homes_def bounded_def
      by (auto dest: in_set_butlastD intro: le_trans [OF diff_le_self])
  qed
  then show ?thesis using Get_stack [of l p] by (auto simp: pool_use_def elim!: yields_mono)
qed

lemma Put_unshared:
  assumes "unshared n (p, outs)"
  shows "yields (pool_use (OpPut i) (p, outs)) (unshared n)"
proof (cases "i < length outs")
  case True
  define c ys zs where "c = outs ! i" and "ys = take i outs" and "zs = drop (Suc i) outs"
  have outs: "outs = ys @ c # zs" unfolding c_def ys_def zs_def using True by (simp add: Cons_nth_drop_Suc)
  note u = assms [unfolded unshared_def prod.case]
  have kn: "has_entry (hc_loop c) p" using u outs by simp
  have "unshared n (p', ys @ zs)" if g: "\<forall>l'. has_entry l' p \<longrightarrow> has_entry l' p'" "max_pool_size p' = max_pool_size p" "cp_next p' = cp_next p"
      "stack p' = (if length (stack p (hc_loop c)) < max_pool_size p then (stack p)(hc_loop c := stack p (hc_loop c) @ [c]) else stack p)" for p'
  proof -
    have out: "places p outs None = map hc_id ys @ hc_id c # map hc_id zs" using outs by simp
    have "apart (cp_next p') (places p' (ys @ zs))"
    proof (cases "length (stack p (hc_loop c)) < max_pool_size p")
      case True
      then have "stack p' = (stack p)(hc_loop c := stack p (hc_loop c) @ [c])" using g(4) by simp
      note pl = places_upd [OF this, of "ys @ zs" outs]
      from apart_move [where F = "places p outs", OF _ out, of "cp_next p" "Some (hc_loop c)"] show ?thesis using pl u g(3) by (simp add: fun_upd_twist)
    next
      case False
      then have "stack p' = (stack p)(0 := stack p 0)" using g(4) by simp
      note pl = places_upd [OF this, of "ys @ zs" outs]
      have "(places p outs)(Some 0 := map hc_id (stack p 0), None := map hc_id (ys @ zs)) = (places p outs)(None := map hc_id ys @ map hc_id zs)"
        by (simp add: fun_eq_iff)
      then show ?thesis using pl apart_drop(1) [where F = "places p outs", OF _ out, of "cp_next p"] u g(3) by simp
    qed
    then show ?thesis using u g outs unfolding unshared_def homes_def bounded_def by auto
  qed
  then have "yields (ConnPool_Put (hc_loop c) c p) (\<lambda>p'. unshared n (p', ys @ zs))"
    by (intro yields_mono [OF Put_stack [OF kn]]) blast
  then show ?thesis using True by (simp add: pool_use_def c_def ys_def zs_def)
qed (use assms in \<open>simp add: pool_use_def\<close>)

text \<open>C28. Whatever the order in which users take connections out of a pool and bring them back, nothing fails, no connection is ever in two
  hands or in a hand and in the pool, each is kept for its own loop, and no loop has more than \<^verbatim>\<open>max_pool_size_\<close>.\<close>

theorem ConnPool_no_sharing:
  "yields (ebind (ConnPool_new h port t False n) (\<lambda>p. pool_uses ops (p, []))) (\<lambda>(p, outs).
     distinct (map hc_id outs) \<and> (\<forall>l. length (stack p l) \<le> n \<and> distinct (map hc_id (stack p l)) \<and> (\<forall>c \<in> set (stack p l). hc_loop c = l \<and>
       (\<forall>c' \<in> set outs. hc_id c' \<noteq> hc_id c))))"
proof -
  have step: "yields (pool_use op s) (unshared n)" if "unshared n s" for op s
    using that Get_unshared Put_unshared by (cases op; cases s) auto
  have run: "yields (pool_uses ops s) (unshared n)" if "unshared n s" for s
    using that by (induction ops arbitrary: s) (auto intro: yields_mono [OF step])
  have "unshared n (\<lparr>cp_host = h, cp_port = port, cp_timeout = t, max_pool_size = n, cp_pool = [], cp_next = 0, cp_tasks = [], cp_dropped = []\<rparr>, [])"
    by (simp add: unshared_def homes_def bounded_def apart_def places_def stack_def split: option.splits)
  from run [OF this] have "yields (ebind (ConnPool_new h port t False n) (\<lambda>p. pool_uses ops (p, []))) (unshared n)"
    by (simp add: ConnPool_new_def)
  then show ?thesis
  proof (rule yields_mono)
    fix s :: "ConnPool \<times> Conn list"
    assume u: "unshared n s"
    obtain p outs where s: "s = (p, outs)" by fastforce
    have a: "distinct (places p outs k)" "i \<in> set (places p outs k) \<Longrightarrow> i \<in> set (places p outs k') \<Longrightarrow> k = k'" for k k' i
      using u s by (auto simp: unshared_def apart_def)
    have "hc_id c' \<noteq> hc_id c" if "c \<in> set (stack p l)" "c' \<in> set outs" for c c' l
    proof
      assume "hc_id c' = hc_id c"
      then have "hc_id c \<in> set (places p outs None)" using imageI [OF that(2), of hc_id] by simp
      then show False using a(2) [of "hc_id c" None "Some l"] that(1) by simp
    qed
    then show "case s of (p, outs) \<Rightarrow> distinct (map hc_id outs) \<and> (\<forall>l. length (stack p l) \<le> n \<and> distinct (map hc_id (stack p l)) \<and>
        (\<forall>c \<in> set (stack p l). hc_loop c = l \<and> (\<forall>c' \<in> set outs. hc_id c' \<noteq> hc_id c)))"
      using u s a(1) [of None] a(1) [of "Some _"] by (auto simp: unshared_def homes_def bounded_def)
  qed
qed

theorem ConnPool_no_sharing_witness:
  "yields (ebind (ConnPool_new ''a.org'' 80 Duration_zero False 1) (\<lambda>p. pool_uses [OpGet 1, OpGet 1, OpPut 0, OpGet 2, OpPut 0] (p, [])))
    (\<lambda>(p, outs). distinct (map hc_id outs) \<and> (\<forall>l. length (stack p l) \<le> 1 \<and> distinct (map hc_id (stack p l)) \<and>
      (\<forall>c \<in> set (stack p l). hc_loop c = l \<and> (\<forall>c' \<in> set outs. hc_id c' \<noteq> hc_id c))))"
  by (rule ConnPool_no_sharing)

text \<open>A connection that is brought back is the next one its loop gets, unless the loop has enough of them.\<close>

theorem ConnPool_Put_Get:
  assumes "has_entry (hc_loop c) p" "length (stack p (hc_loop c)) < max_pool_size p"
  shows "yields (ebind (ConnPool_Put (hc_loop c) c p) (ConnPool_Get (hc_loop c) (hc_loop c))) (\<lambda>(c', p'). c' = c \<and> stack p' = stack p)"
proof -
  have "yields (ConnPool_Get (hc_loop c) (hc_loop c) p1) (\<lambda>(c', p'). c' = c \<and> stack p' = stack p)"
    if "stack p1 = (stack p)(hc_loop c := stack p (hc_loop c) @ [c])" for p1
    by (rule yields_mono [OF Get_stack]) (use that in \<open>auto simp: fun_eq_iff\<close>)
  then show ?thesis using assms Put_stack [OF assms(1)] by (auto elim!: yields_mono)
qed

theorem ConnPool_Put_Get_witness:
  "\<exists>c p. has_entry (hc_loop c) p \<and>
     yields (ebind (ConnPool_Put (hc_loop c) c p) (ConnPool_Get (hc_loop c) (hc_loop c))) (\<lambda>(c', p'). c' = c \<and> stack p' = stack p)"
proof -
  define c where "c = \<lparr>hc_id = 0, hc_loop = 3, hc_host = ''a'', hc_port = 80, hc_timeout = Duration_zero, hc_open = True, hc_tv = None\<rparr>"
  define p where "p = \<lparr>cp_host = ''a'', cp_port = 80, cp_timeout = Duration_zero, max_pool_size = 1, cp_pool = [(3, [])], cp_next = 1,
    cp_tasks = [], cp_dropped = []\<rparr>"
  have "has_entry (hc_loop c) p" "length (stack p (hc_loop c)) < max_pool_size p" by (simp_all add: has_entry_def stack_def c_def p_def)
  from this(1) ConnPool_Put_Get [OF this] show ?thesis by blast
qed

section \<open>Requests\<close>

text \<open>A request that is about to be executed: pooled without a connection, or with its own.\<close>

definition ready :: "nat \<Rightarrow> Request \<Rightarrow> bool" where
  "ready here r \<longleftrightarrow> rq_loop r = here \<and> rq_handler r \<and> \<not> rq_pending r \<and> rq_timers r = 0 \<and> rq_responses r = [] \<and> 0 \<le> retried r \<and>
     retried r \<le> max 0 (retry_number r) \<and> int (length (rq_calls r)) \<le> retried r \<and> (rq_conn r = None \<longleftrightarrow> rq_pooled r)"

text \<open>The pool is usable for the request's loop.\<close>

definition pool_for :: "nat \<Rightarrow> Request \<Rightarrow> ConnPool \<Rightarrow> bool" where
  "pool_for here r p \<longleftrightarrow> rq_pooled r \<longrightarrow> homes p \<and> has_entry here p"

text \<open>A request under way: evhttp owes a reply, a timer is set, or the handler has been called.\<close>

definition started :: "nat \<Rightarrow> Request \<Rightarrow> bool" where
  "started here r \<longleftrightarrow> rq_loop r = here \<and> rq_handler r \<and> 0 \<le> retried r \<and> retried r \<le> max 0 (retry_number r) \<and>
     int (length (rq_calls r)) \<le> retried r + 1 \<and>
     (if rq_pending r then rq_timers r = 0 \<and> rq_responses r = [] \<and> (case rq_conn r of None \<Rightarrow> False | Some c \<Rightarrow> rq_pooled r \<longrightarrow> hc_loop c = here)
      else if rq_timers r > 0 then rq_timers r = 1 \<and> ready here (r\<lparr>rq_timers := 0\<rparr>)
      else length (rq_responses r) = 1)"

lemma send_request_fields:
  "\<not> rq_pending r \<Longrightarrow> rq_pending (snd (send_request e c r)) = fst (send_request e c r)"
  "rq_conn (snd (send_request e c r)) = Some (snd (Conn_Init (ev_conn e) c))"
  "length (rq_calls (snd (send_request e c r))) = length (rq_calls r) + of_bool (fst (send_request e c r))"
  by (simp_all add: send_request_def Let_def)

lemma Conn_Init_loop: "hc_loop (snd (Conn_Init b c)) = hc_loop c"
  by (simp add: Conn_Init_def)

lemma Get_home:
  assumes "homes p"
  shows "yields (ConnPool_Get l l p) (\<lambda>(c, p'). hc_loop c = l \<and> homes p' \<and> has_entry l p')"
  by (rule yields_mono [OF Get_stack]) (use assms in_set_butlastD in \<open>fastforce simp: homes_def split: if_splits\<close>)

lemma attempt_ready:
  assumes "ready here r" "rq_pooled r \<longrightarrow> homes p"
  shows "yields (attempt_request here e (r, p)) (\<lambda>(ok, r1, p1). same_request r r1 \<and> pool_for here r1 p1 \<and> rq_pending r1 = ok \<and>
    length (rq_calls r1) = length (rq_calls r) + of_bool ok \<and>
    (case rq_conn r1 of None \<Rightarrow> False | Some c \<Rightarrow> rq_pooled r1 \<longrightarrow> hc_loop c = here))"
proof (cases "rq_conn r")
  case None
  then have r: "rq_pooled r" "rq_loop r = here" "\<not> rq_pending r" using assms(1) by (simp_all add: ready_def)
  have "yields (ConnPool_Get here here p) (\<lambda>(c, p1). hc_loop c = here \<and> homes p1 \<and> has_entry here p1)"
    using Get_home assms(2) r(1) by simp
  then show ?thesis
    using None r send_request_same [of r]
    by (auto simp: attempt_request_def pool_for_def same_request_def Conn_Init_loop send_request_fields elim!: yields_mono)
next
  case (Some c)
  then have r: "\<not> rq_pooled r" "rq_loop r = here" "\<not> rq_pending r" using assms(1) by (simp_all add: ready_def)
  then show ?thesis
    using Some send_request_same [of r e c]
    by (auto simp: attempt_request_def pool_for_def same_request_def send_request_fields)
qed

lemma recycle_ok:
  assumes "case rq_conn r of None \<Rightarrow> False | Some c \<Rightarrow> rq_pooled r \<longrightarrow> hc_loop c = here" "pool_for here r p"
  shows "yields (recycle here (r, p)) (\<lambda>(r1, p1). pool_for here r1 p1 \<and> (r1 = (if rq_pooled r then r\<lparr>rq_conn := None\<rparr> else r)))"
proof (cases "rq_pooled r")
  case True
  then obtain c where c: "rq_conn r = Some c" "hc_loop c = here" using assms(1) by (auto split: option.splits)
  have kn: "has_entry (hc_loop c) p" "homes p" using assms(2) True c(2) by (simp_all add: pool_for_def)
  have "yields (ConnPool_Put here c p) (\<lambda>p1. homes p1 \<and> has_entry here p1)"
    using kn c(2) by (intro yields_mono [OF Put_stack [OF kn(1), unfolded c(2)]]) (auto simp: homes_def split: if_splits)
  then show ?thesis using True c(1) by (auto simp: recycle_def pool_for_def elim!: yields_mono)
qed (use assms in \<open>simp add: recycle_def\<close>)

text \<open>The outcome of an execution: the request is under way, and the pool can still be used.\<close>

definition going :: "nat \<Rightarrow> int \<Rightarrow> Request \<times> ConnPool \<Rightarrow> bool" where
  "going here n = (\<lambda>(r, p). started here r \<and> pool_for here r p \<and> retry_number r = n)"

text \<open>A request between two executions.\<close>

definition between :: "nat \<Rightarrow> Request \<Rightarrow> bool" where
  "between here r \<longleftrightarrow> rq_loop r = here \<and> rq_handler r \<and> \<not> rq_pending r \<and> rq_timers r = 0 \<and> rq_responses r = [] \<and> 0 \<le> retried r \<and>
     retried r \<le> max 0 (retry_number r) \<and> int (length (rq_calls r)) \<le> retried r + 1 \<and>
     (case rq_conn r of None \<Rightarrow> False | Some c \<Rightarrow> rq_pooled r \<longrightarrow> hc_loop c = here)"

lemma Retry_going:
  assumes "between here r" "pool_for here r p" "retried r < retry_number r"
    and exec: "\<And>r' p'. ready here r' \<Longrightarrow> rq_pooled r' \<longrightarrow> homes p' \<Longrightarrow> retried r' = retried r + 1 \<Longrightarrow> retry_number r' = retry_number r \<Longrightarrow>
      yields (ExecuteInLoop here envs (r', p')) (going here (retry_number r))"
  shows "yields (Request_Retry here envs (r, p)) (going here (retry_number r))"
proof -
  let ?r = "r\<lparr>retried := retried r + 1\<rparr>"
  have rec: "yields (recycle here (?r, p)) (\<lambda>(r1, p1). pool_for here r1 p1 \<and> (r1 = (if rq_pooled ?r then ?r\<lparr>rq_conn := None\<rparr> else ?r)))"
    using assms(1,2) by (intro recycle_ok) (auto simp: between_def pool_for_def split: option.splits)
  have "yields (if Duration_IsZero (retry_interval r1) then ExecuteInLoop here envs (r1, p1) else Inr (r1\<lparr>rq_timers := rq_timers r1 + 1\<rparr>, p1))
      (going here (retry_number r))"
    if r1: "pool_for here r1 p1" "r1 = (if rq_pooled ?r then ?r\<lparr>rq_conn := None\<rparr> else ?r)" for r1 p1
  proof -
    have rdy: "ready here r1" "retried r1 = retried r + 1" "retry_number r1 = retry_number r"
      using assms(1,3) r1(2) by (auto simp: between_def ready_def split: option.splits)
    then have "going here (retry_number r) (r1\<lparr>rq_timers := rq_timers r1 + 1\<rparr>, p1)"
      using r1(1) by (auto simp: going_def started_def pool_for_def ready_def)
    then show ?thesis using exec [OF rdy(1) _ rdy(2,3)] r1(1) by (simp add: pool_for_def)
  qed
  then have "yields (recycle here (?r, p)) (\<lambda>(r1, p1). yields (if Duration_IsZero (retry_interval r1) then ExecuteInLoop here envs (r1, p1)
      else Inr (r1\<lparr>rq_timers := rq_timers r1 + 1\<rparr>, p1)) (going here (retry_number r)))"
    by (intro yields_pair [OF rec]) blast
  then show ?thesis by (simp add: Request_Retry_def split_def)
qed

lemma handler_going:
  assumes "between here (r\<lparr>rq_conn := c\<rparr>) \<or> between here r" "pool_for here r p"
  shows "yields (call_handler resp (r, p)) (going here (retry_number r))"
  using assms by (auto simp: call_handler_def going_def started_def between_def pool_for_def)

lemma Execute_going:
  assumes "ready here r" "rq_pooled r \<longrightarrow> homes p"
  shows "yields (ExecuteInLoop here envs (r, p)) (going here (retry_number r))"
  using assms
proof (induction "nat (retry_number r - retried r)" arbitrary: r p rule: less_induct)
  case less
  let ?n = "retry_number r"
  have "yields (if ok then Inr (r1, p1)
       else if retried r1 < retry_number r1 then Request_Retry here envs (r1, p1)
       else call_handler (Response_new None False) (r1, p1)) (going here ?n)"
    if a: "same_request r r1" "pool_for here r1 p1" "rq_pending r1 = ok" "length (rq_calls r1) = length (rq_calls r) + of_bool ok"
      "case rq_conn r1 of None \<Rightarrow> False | Some c \<Rightarrow> rq_pooled r1 \<longrightarrow> hc_loop c = here" for ok r1 p1
  proof -
    have n: "retry_number r1 = ?n" using a(1) by (simp add: same_request_def)
    show ?thesis
    proof (cases ok)
      case True
      then show ?thesis using a less.prems(1) by (auto simp: going_def started_def same_request_def ready_def split: option.splits)
    next
      case False
      then have b: "between here r1" using a less.prems(1) by (auto simp: between_def same_request_def ready_def)
      have "yields (Request_Retry here envs (r1, p1)) (going here (retry_number r1))" if "retried r1 < retry_number r1"
      proof (rule Retry_going [OF b a(2) that])
        fix r' p'
        assume r': "ready here r'" "rq_pooled r' \<longrightarrow> homes p'" "retried r' = retried r1 + 1" "retry_number r' = retry_number r1"
        then have "nat (retry_number r' - retried r') < nat (retry_number r - retried r)" using a(1) that by (simp add: same_request_def)
        from less.hyps [OF this r'(1,2)] show "yields (ExecuteInLoop here envs (r', p')) (going here (retry_number r1))" using r'(4) by simp
      qed
      then show ?thesis using False n handler_going [OF disjI2 [OF b] a(2)] by auto
    qed
  qed
  then have "yields (attempt_request here (envs (retried r)) (r, p)) (\<lambda>(ok, r1, p1). yields
      (if ok then Inr (r1, p1)
       else if retried r1 < retry_number r1 then Request_Retry here envs (r1, p1)
       else call_handler (Response_new None False) (r1, p1)) (going here ?n))"
    by (intro yields_triple [OF attempt_ready [OF less.prems]]) blast
  then show ?case by (simp add: ExecuteInLoop_Retry split_def)
qed

lemma HandleResponse_going:
  assumes "between here r" "pool_for here r p"
  shows "yields (HandleResponse here envs reply (r, p)) (going here (retry_number r))"
proof -
  have "yields (recycle here (r, p)) (\<lambda>(r1, p1). yields (call_handler (Response_new reply False) (r1, p1)) (going here (retry_number r)))"
  proof (rule yields_pair [OF recycle_ok [OF _ assms(2)]])
    fix r1 p1
    assume r1: "pool_for here r1 p1 \<and> r1 = (if rq_pooled r then r\<lparr>rq_conn := None\<rparr> else r)"
    then have b: "between here (r1\<lparr>rq_conn := rq_conn r\<rparr>)" "retry_number r1 = retry_number r" using assms(1) by auto
    show "yields (call_handler (Response_new reply False) (r1, p1)) (going here (retry_number r))"
      by (rule handler_going [OF disjI1 [OF b(1)] conjunct1 [OF r1], unfolded b(2)])
  qed (use assms(1) in \<open>simp add: between_def\<close>)
  moreover have "yields (Request_Retry here envs (r, p)) (going here (retry_number r))" if "retried r < retry_number r"
    by (rule Retry_going [OF assms that]) (use Execute_going in metis)
  moreover have "here = rq_loop r" using assms(1) by (simp add: between_def)
  ultimately show ?thesis by (auto simp: HandleResponse_def split_def)
qed

text \<open>Others that use the pool keep its connections at their loops and do not clear it.\<close>

definition pool_kept :: "nat \<Rightarrow> request_event \<Rightarrow> bool" where
  "pool_kept here e \<longleftrightarrow> (case e of OthersUse p \<Rightarrow> homes p \<and> has_entry here p | _ \<Rightarrow> True)"

lemma step_going:
  assumes "going here n (r, p)" "pool_kept here e"
  shows "yields (request_step here envs e (r, p)) (going here n)"
proof (cases e)
  case (Replies reply)
  have "between here (r\<lparr>rq_pending := False\<rparr>)" "pool_for here (r\<lparr>rq_pending := False\<rparr>) p" "retry_number r = n" if "rq_pending r"
    using assms(1) that by (auto simp: going_def started_def between_def pool_for_def split: option.splits)
  then show ?thesis
    using HandleResponse_going [of here "r\<lparr>rq_pending := False\<rparr>" p envs reply] Replies assms(1) by (auto simp: request_step_def)
next
  case RetryDue
  have "ready here (r\<lparr>rq_timers := rq_timers r - 1\<rparr>)" "retry_number r = n" "rq_pooled r \<longrightarrow> homes p" if "rq_timers r > 0"
    using assms(1) that by (auto simp: going_def started_def pool_for_def split: if_splits)
  then show ?thesis
    using Execute_going [of here "r\<lparr>rq_timers := rq_timers r - 1\<rparr>" p envs] RetryDue assms(1) by (auto simp: request_step_def)
next
  case (OthersUse p')
  then show ?thesis using assms by (auto simp: request_step_def going_def pool_for_def pool_kept_def)
qed

lemma run_going:
  assumes "going here n rp" "list_all (pool_kept here) es"
  shows "yields (request_run here envs es rp) (going here n)"
  using assms
proof (induction es arbitrary: rp)
  case (Cons e es)
  then have "yields (request_step here envs e rp) (going here n)" by (cases rp) (auto intro: step_going)
  then show ?case using Cons by (auto elim!: yields_mono)
qed simp

text \<open>C29. Whether evhttp's calls succeed or fail, whatever it replies and whatever others do with the pool short of clearing it, a request
  never fails an assertion; its handler is called at most once; until then a reply or a timer is outstanding; and it is handed to evhttp at most
  \<^verbatim>\<open>retry_number_\<close> + 1 times.\<close>

theorem Request_handler_once:
  assumes "homes p" "list_all (pool_kept l) es"
  shows "yields (ebind (Request_Execute l envs (set_retry_number n (Request_new p l uri body), p)) (request_run l envs es)) (\<lambda>(r, p').
    length (rq_responses r) \<le> 1 \<and> (rq_responses r = [] \<longleftrightarrow> rq_pending r \<or> rq_timers r > 0) \<and> int (length (rq_calls r)) \<le> max 0 n + 1)"
proof -
  let ?r = "(set_retry_number n (Request_new p l uri body))\<lparr>rq_handler := True\<rparr>"
  have "ready l ?r" "rq_pooled ?r \<longrightarrow> homes p" "retry_number ?r = n"
    using assms(1) by (simp_all add: ready_def Request_new_def set_retry_number_def)
  then have "yields (ExecuteInLoop l envs (?r, p)) (going l n)" using Execute_going by metis
  then have "yields (ExecuteInLoop l envs (?r, p)) (\<lambda>rp. yields (request_run l envs es rp) (going l n))"
    by (rule yields_mono) (rule run_going [OF _ assms(2)])
  then have "yields (ebind (Request_Execute l envs (set_retry_number n (Request_new p l uri body), p)) (request_run l envs es)) (going l n)"
    by (simp add: Request_Execute_def)
  then show ?thesis by (rule yields_mono) (auto simp: going_def started_def ready_def split: if_splits)
qed

definition good_evhttp :: evhttp_env where
  "good_evhttp = \<lparr>ev_conn = True, ev_req = True, ev_header = (\<lambda>_ _. True), ev_body = True, ev_make = True\<rparr>"

definition sample_pool :: ConnPool where
  "sample_pool = \<lparr>cp_host = ''a.org'', cp_port = 80, cp_timeout = Duration_zero, max_pool_size = 2, cp_pool = [], cp_next = 0,
     cp_tasks = [], cp_dropped = []\<rparr>"

theorem Request_handler_once_witness:
  "yields (ebind (Request_Execute 3 (\<lambda>_. good_evhttp) (set_retry_number 1 (Request_new sample_pool 3 ''/'' []), sample_pool))
      (request_run 3 (\<lambda>_. good_evhttp) [Replies None, RetryDue, Replies None]))
    (\<lambda>(r, p'). length (rq_responses r) \<le> 1 \<and> (rq_responses r = [] \<longleftrightarrow> rq_pending r \<or> rq_timers r > 0) \<and> int (length (rq_calls r)) \<le> max 0 1 + 1)"
  by (rule Request_handler_once) (simp_all add: homes_def stack_def sample_pool_def pool_kept_def)

section \<open>The reply that counts\<close>

definition always_sends :: "(int \<Rightarrow> evhttp_env) \<Rightarrow> bool" where
  "always_sends envs \<longleftrightarrow> (\<forall>n. ev_conn (envs n) \<and> ev_req (envs n) \<and> (\<forall>k v. ev_header (envs n) k v) \<and> ev_body (envs n) \<and> ev_make (envs n))"

text \<open>A request that waits for a reply, with \<open>n\<close> retries left.\<close>

definition waits :: "nat \<Rightarrow> nat \<Rightarrow> Request \<times> ConnPool \<Rightarrow> bool" where
  "waits here n = (\<lambda>(r, p). between here (r\<lparr>rq_pending := False\<rparr>) \<and> pool_for here r p \<and> rq_pending r \<and> nat (retry_number r - retried r) = n)"

lemma Execute_waits:
  assumes "always_sends envs" "ready here r" "rq_pooled r \<longrightarrow> homes p"
  shows "yields (ExecuteInLoop here envs (r, p)) (waits here (nat (retry_number r - retried r)))"
proof -
  have ok: "fst (send_request (envs n) c r)" for n c
    using assms(1) by (auto simp: always_sends_def send_request_def Conn_Init_def Let_def list_all_iff)
  have "yields (attempt_request here (envs (retried r)) (r, p)) (\<lambda>(ok, r1, p1). ok)"
  proof (rule yieldsE [OF attempt_ready [OF assms(2,3), of "envs (retried r)"]])
    fix x
    assume x: "attempt_request here (envs (retried r)) (r, p) = Inr x"
    then have "fst x" using ok by (auto simp: attempt_request_def ebind_Inr_iff)
    then show ?thesis using x by (simp add: split_def)
  qed
  from yields_conj [OF attempt_ready [OF assms(2,3)] this]
  have "yields (attempt_request here (envs (retried r)) (r, p)) (\<lambda>(ok, r1, p1). ok \<and> waits here (nat (retry_number r - retried r)) (r1, p1))"
    by (rule yields_mono) (use assms(2) in \<open>auto simp: waits_def between_def ready_def same_request_def split: option.splits\<close>)
  then show ?thesis by (auto simp: ExecuteInLoop_Retry split_def elim!: yields_mono)
qed

text \<open>The first reply that is not a server error, or the last one that is waited for.\<close>

fun final_reply :: "nat \<Rightarrow> evhttp_reply option list \<Rightarrow> evhttp_reply option" where
  "final_reply n [] = None"
| "final_reply 0 (x # xs) = x"
| "final_reply (Suc n) (x # xs) = (if server_error x then final_reply n xs else x)"

definition reply_events :: "evhttp_reply option list \<Rightarrow> request_event list" where
  "reply_events xs = concat (map (\<lambda>x. [Replies x, RetryDue]) xs)"

text \<open>Once the handler has been called, further events have no effect.\<close>

definition finished :: "evhttp_reply option \<Rightarrow> Request \<times> ConnPool \<Rightarrow> bool" where
  "finished x = (\<lambda>(r, p). rq_responses r = [Response_new x False] \<and> \<not> rq_pending r \<and> rq_timers r = 0)"

lemma finished_run: "finished x rp \<Longrightarrow> yields (request_run here envs (reply_events xs) rp) (finished x)"
  by (induction xs) (auto simp: reply_events_def finished_def request_step_def split: prod.splits)

lemma reply_final:
  assumes "waits here n (r, p)" "\<not> server_error x \<or> n = 0"
  shows "yields (request_step here envs (Replies x) (r, p)) (finished x)"
proof -
  let ?r = "r\<lparr>rq_pending := False\<rparr>"
  have b: "between here ?r" "pool_for here ?r p" "rq_pending r" "nat (retry_number r - retried r) = n"
    using assms(1) by (simp_all add: waits_def pool_for_def)
  have "yields (recycle here (?r, p)) (\<lambda>(r1, p1). yields (call_handler (Response_new x False) (r1, p1)) (finished x))"
    by (rule yields_pair [OF recycle_ok [OF _ b(2)]])
      (use b(1) in \<open>auto simp: between_def call_handler_def finished_def\<close>)
  then show ?thesis using b assms(2)
    by (auto simp: request_step_def HandleResponse_def between_def split_def server_error_def)
qed

lemma RetryDue_waits: "waits here n rp \<Longrightarrow> yields (request_step here envs RetryDue rp) (waits here n)"
  by (auto simp: request_step_def waits_def between_def split: prod.splits)

lemma Retry_waits:
  assumes "always_sends envs" "between here r" "pool_for here r p" "nat (retry_number r - retried r) = Suc n"
  shows "yields (Request_Retry here envs (r, p)) (\<lambda>rp. yields (request_step here envs RetryDue rp) (waits here n))"
proof -
  let ?r = "r\<lparr>retried := retried r + 1\<rparr>"
  let ?Q = "\<lambda>rp. yields (request_step here envs RetryDue rp) (waits here n)"
  have rec: "yields (recycle here (?r, p)) (\<lambda>(r1, p1). pool_for here r1 p1 \<and> (r1 = (if rq_pooled ?r then ?r\<lparr>rq_conn := None\<rparr> else ?r)))"
    using assms(2,3) by (intro recycle_ok) (auto simp: between_def pool_for_def split: option.splits)
  have "yields (if Duration_IsZero (retry_interval r1) then ExecuteInLoop here envs (r1, p1) else Inr (r1\<lparr>rq_timers := rq_timers r1 + 1\<rparr>, p1)) ?Q"
    if r1: "pool_for here r1 p1" "r1 = (if rq_pooled ?r then ?r\<lparr>rq_conn := None\<rparr> else ?r)" for r1 p1
  proof -
    have rdy: "ready here r1" "nat (retry_number r1 - retried r1) = n" "rq_timers r1 = 0"
      using assms(2,4) r1(2) by (auto simp: between_def ready_def split: option.splits)
    have ex: "yields (ExecuteInLoop here envs (r1, p1)) (waits here n)"
      using Execute_waits [OF assms(1) rdy(1), of p1] r1(1) rdy(2) by (simp add: pool_for_def)
    have "request_step here envs RetryDue (r1\<lparr>rq_timers := rq_timers r1 + 1\<rparr>, p1) = ExecuteInLoop here envs (r1, p1)"
      using rdy(3) by (cases r1) (simp add: request_step_def)
    then have "?Q (r1\<lparr>rq_timers := rq_timers r1 + 1\<rparr>, p1)" using ex by simp
    then show ?thesis using yields_mono [OF ex RetryDue_waits] by simp
  qed
  then have "yields (recycle here (?r, p)) (\<lambda>(r1, p1). yields (if Duration_IsZero (retry_interval r1) then ExecuteInLoop here envs (r1, p1)
      else Inr (r1\<lparr>rq_timers := rq_timers r1 + 1\<rparr>, p1)) ?Q)"
    by (intro yields_pair [OF rec]) blast
  then show ?thesis by (simp add: Request_Retry_def split_def)
qed

lemma reply_retried:
  assumes "always_sends envs" "waits here (Suc n) (r, p)" "server_error x"
  shows "yields (request_step here envs (Replies x) (r, p)) (\<lambda>rp. yields (request_step here envs RetryDue rp) (waits here n))"
proof -
  let ?r = "r\<lparr>rq_pending := False\<rparr>"
  have b: "between here ?r" "pool_for here ?r p" "rq_pending r" "nat (retry_number ?r - retried ?r) = Suc n"
    using assms(2) by (simp_all add: waits_def pool_for_def)
  then have "request_step here envs (Replies x) (r, p) = Request_Retry here envs (?r, p)"
    using assms(3) by (auto simp: request_step_def HandleResponse_def between_def)
  then show ?thesis using Retry_waits [OF assms(1) b(1,2,4)] by simp
qed

lemma waits_run:
  assumes "always_sends envs" "waits here n rp" "n < length xs"
  shows "yields (request_run here envs (reply_events xs) rp) (finished (final_reply n xs))"
  using assms(2,3)
proof (induction xs arbitrary: n rp)
  case (Cons x xs)
  obtain r p where rp: "rp = (r, p)" by fastforce
  have ev: "request_run here envs (reply_events (x # xs)) rp =
      ebind (request_step here envs (Replies x) rp) (\<lambda>s. ebind (request_step here envs RetryDue s) (request_run here envs (reply_events xs)))"
    by (simp add: reply_events_def cong: ebind_cong)
  have due: "yields (request_step here envs RetryDue s) (finished x)" if "finished x s" for s
    using that by (auto simp: request_step_def finished_def split: prod.splits)
  show ?case
  proof (cases "server_error x \<and> n \<noteq> 0")
    case True
    then obtain m where n: "n = Suc m" by (cases n) auto
    have w: "yields (request_run here envs (reply_events xs) s) (finished (final_reply n (x # xs)))" if "waits here m s" for s
      using Cons.IH [OF that] Cons.prems(2) True n by simp
    have st: "yields (request_step here envs (Replies x) rp) (\<lambda>s. yields (request_step here envs RetryDue s) (waits here m))"
      using reply_retried [OF assms(1)] Cons.prems(1) True n rp by blast
    have "yields (request_step here envs (Replies x) rp) (\<lambda>s. yields (request_step here envs RetryDue s)
        (\<lambda>s. yields (request_run here envs (reply_events xs) s) (finished (final_reply n (x # xs)))))"
      by (rule yields_mono [OF st]) (rule yields_mono, assumption, rule w)
    then show ?thesis unfolding ev by simp
  next
    case False
    then have f: "final_reply n (x # xs) = x" by (cases n) auto
    have st: "yields (request_step here envs (Replies x) rp) (finished x)" using reply_final Cons.prems(1) False rp by blast
    have "yields (request_step here envs (Replies x) rp) (\<lambda>s. yields (request_step here envs RetryDue s)
        (\<lambda>s. yields (request_run here envs (reply_events xs) s) (finished x)))"
      by (rule yields_mono [OF st]) (rule yields_mono [OF due], assumption, rule finished_run)
    then show ?thesis unfolding ev f by simp
  qed
qed simp

text \<open>C30. When evhttp takes every request, the handler gets the first reply that is not a server error (5xx or none at all), or the last
  one if the retries are used up.\<close>

theorem Request_final_reply:
  assumes "always_sends envs" "homes p" "n < length replies"
  shows "yields (ebind (Request_Execute l envs (set_retry_number (int n) (Request_new p l uri body), p)) (request_run l envs (reply_events replies)))
    (\<lambda>(r, p'). rq_responses r = [Response_new (final_reply n replies) False])"
proof -
  let ?r = "(set_retry_number (int n) (Request_new p l uri body))\<lparr>rq_handler := True\<rparr>"
  have r: "ready l ?r" "rq_pooled ?r \<longrightarrow> homes p" "nat (retry_number ?r - retried ?r) = n"
    using assms(2) by (simp_all add: ready_def Request_new_def set_retry_number_def)
  have "yields (ExecuteInLoop l envs (?r, p)) (waits l n)" using Execute_waits [OF assms(1) r(1,2)] r(3) by simp
  then have "yields (ExecuteInLoop l envs (?r, p)) (\<lambda>rp. yields (request_run l envs (reply_events replies) rp) (finished (final_reply n replies)))"
    by (rule yields_mono) (rule waits_run [OF assms(1) _ assms(3)])
  then have "yields (ebind (Request_Execute l envs (set_retry_number (int n) (Request_new p l uri body), p)) (request_run l envs (reply_events replies)))
      (finished (final_reply n replies))"
    by (simp add: Request_Execute_def)
  then show ?thesis by (rule yields_mono) (auto simp: finished_def)
qed

theorem Request_final_reply_witness:
  "yields (ebind (Request_Execute 3 (\<lambda>_. good_evhttp) (set_retry_number (int 1) (Request_new sample_pool 3 ''/'' []), sample_pool))
      (request_run 3 (\<lambda>_. good_evhttp) (reply_events [None, Some \<lparr>er_code = 200, er_body = ''h'', er_headers = []\<rparr>])))
    (\<lambda>(r, p'). rq_responses r = [Response_new (final_reply 1 [None, Some \<lparr>er_code = 200, er_body = ''h'', er_headers = []\<rparr>]) False])"
  by (rule Request_final_reply) (simp_all add: always_sends_def good_evhttp_def homes_def stack_def sample_pool_def)

section \<open>A pool cleared too early\<close>

lemma Execute_pooled:
  assumes "ExecuteInLoop here envs (r, p) = Inr (r', p')"
  shows "rq_pooled r' = rq_pooled r"
  using assms
proof (induction "nat (retry_number r - retried r)" arbitrary: r p rule: less_induct)
  case less
  from less.prems obtain ok r1 p1 where a: "attempt_request here (envs (retried r)) (r, p) = Inr (ok, r1, p1)"
    by (subst (asm) ExecuteInLoop.simps) (auto simp: ebind_Inr_iff)
  note s = attempt_request_same [OF a, unfolded same_request_def]
  show ?case
  proof (cases "\<not> ok \<and> retried r1 < retry_number r1")
    case True
    then obtain r2 p2 where b: "recycle here (r1\<lparr>retried := retried r1 + 1\<rparr>, p1) = Inr (r2, p2)"
      and c: "ExecuteInLoop here envs (r2, p2) = Inr (r', p') \<or> r' = r2\<lparr>rq_timers := rq_timers r2 + 1\<rparr>"
      using less.prems a by (subst (asm) ExecuteInLoop.simps) (auto simp: ebind_Inr_iff split: if_splits)
    note s2 = recycle_same [OF b, unfolded same_request_def]
    have "nat (retry_number r2 - retried r2) < nat (retry_number r - retried r)" using s s2 True by simp
    from less.hyps [OF this] show ?thesis using c s s2 by auto
  next
    case False
    then show ?thesis using less.prems a s
      by (subst (asm) ExecuteInLoop.simps) (auto simp: call_handler_def split: if_splits)
  qed
qed

text \<open>When the pool is cleared while a pooled request waits for its reply, the reply fails the assertion of
  \<^verbatim>\<open>ConnPool::Put\<close> that the loop has an entry: the connection is never given back and the handler is never called.\<close>

theorem Clear_during_request:
  assumes "going here n (r, p)" "rq_pending r" "rq_pooled r"
  shows "request_run here envs [OthersUse (ConnPool_Clear p), Replies reply] (r, p) = Inl AssertFail"
proof -
  obtain c where c: "rq_conn r = Some c" "hc_loop c = here" "rq_loop r = here"
    using assms by (auto simp: going_def started_def split: option.splits)
  have "cp_pool (ConnPool_Clear p) = []" by (simp add: ConnPool_Clear_def)
  then have "recycle here (r', ConnPool_Clear p) = Inl AssertFail" if "rq_conn r' = Some c" "rq_pooled r'" for r'
    using that c(2) by (simp add: recycle_def ConnPool_Put_def asserting_def)
  then show ?thesis using assms(2,3) c by (simp add: request_step_def HandleResponse_def Request_Retry_def)
qed

theorem Clear_during_request_witness:
  "\<exists>r p. ExecuteInLoop 3 (\<lambda>_. good_evhttp) ((Request_new sample_pool 3 ''/'' [])\<lparr>rq_handler := True\<rparr>, sample_pool) = Inr (r, p) \<and>
     request_run 3 (\<lambda>_. good_evhttp) [OthersUse (ConnPool_Clear p), Replies None] (r, p) = Inl AssertFail"
proof -
  let ?r = "(Request_new sample_pool 3 ''/'' [])\<lparr>rq_handler := True\<rparr>"
  have "ready 3 ?r" "rq_pooled ?r \<longrightarrow> homes sample_pool" "always_sends (\<lambda>_. good_evhttp)"
    by (simp_all add: ready_def Request_new_def homes_def stack_def sample_pool_def always_sends_def good_evhttp_def)
  from yields_conj [OF Execute_waits [OF this(3,1,2)] Execute_going [OF this(1,2)]]
  obtain r p where e: "ExecuteInLoop 3 (\<lambda>_. good_evhttp) (?r, sample_pool) = Inr (r, p)" and w: "rq_pending r" "going 3 2 (r, p)"
    by (rule yieldsE) (auto simp: waits_def Request_new_def)
  moreover have "rq_pooled r" using Execute_pooled [OF e] by (simp add: Request_new_def)
  ultimately show ?thesis using Clear_during_request by blast
qed

lemma Request_rejected_url:
  "uri_parse url = None \<Longrightarrow> Request_of_url uri_parse ident l url body timeout = Inl NullPointer"
  by (simp add: Request_of_url_def)

end
