(* ===== verification/Udp_Server.thy ===== *)
theory Udp_Server
  imports Loop_Pool Sockets
begin

text \<open>
  UDP (src/udp/udp_server.cpp, udp_message.hpp): \<^verbatim>\<open>udp::Message\<close>, and \<^verbatim>\<open>udp::Server\<close> with a receiving thread per port. The thread that
  owns the server and the receiving threads interleave at every access to a status; a loop that polls a status with \<^verbatim>\<open>usleep\<close> is a step
  that waits. Each receiving thread carries the answers its calls of \<^verbatim>\<open>recvfrom\<close> will get; when they are used up, the calls time out.
\<close>

section \<open>Messages\<close>

record Message =
  msg_buf :: buffer
  msg_addr :: sockaddr_storage
  msg_fd :: int

text \<open>\<^verbatim>\<open>remote_addr_\<close> is a \<^verbatim>\<open>sockaddr_in\<close>, 16 bytes.\<close>

definition Message_new :: "int \<Rightarrow> size_t \<Rightarrow> Message result" where
  "Message_new fd buffer_size =
     ebind (Buffer_new buffer_size kCheapPrependSize) (\<lambda>b.
       Inr \<lparr>msg_buf = b, msg_addr = replicate 16 (CHR 0x00), msg_fd = fd\<rparr>)"

definition set_remote_addr :: "sockaddr_storage \<Rightarrow> Message \<Rightarrow> Message" where
  "set_remote_addr raddr m = m\<lparr>msg_addr := raddr\<rparr>"

definition remote_ip :: "(16 word \<Rightarrow> byte list \<Rightarrow> string option) \<Rightarrow> Message \<Rightarrow> string" where
  "remote_ip ntop m = ToIP ntop (msg_addr m)"

text \<open>\<open>sendto\<close> takes descriptor, address and bytes; it returns the number of bytes sent or -1.\<close>

definition SendMessage_data :: "(int \<Rightarrow> sockaddr_storage \<Rightarrow> byte list \<Rightarrow> int) \<Rightarrow> int \<Rightarrow> sockaddr_storage \<Rightarrow> byte list \<Rightarrow> bool" where
  "SendMessage_data sendto fd addr d = (if length d = 0 then True else sendto fd addr d = int (length d))"

definition SendMessage :: "(int \<Rightarrow> sockaddr_storage \<Rightarrow> byte list \<Rightarrow> int) \<Rightarrow> Message \<Rightarrow> bool result" where
  "SendMessage sendto m = ebind (Buffer_ToSlice (msg_buf m)) (\<lambda>d. Inr (SendMessage_data sendto (msg_fd m) (msg_addr m) d))"

section \<open>State\<close>

datatype Status = uRunning | uPaused | uStopping | uStopped

text \<open>The points of \<^verbatim>\<open>RecvingLoop\<close>.\<close>

datatype recv_pc = LBegin | LTestPaused | LTestRunning | LRecv | LEnd | LExited

text \<open>An answer of \<^verbatim>\<open>recvfrom\<close>: an errno, or a datagram and where it came from.\<close>

type_synonym recv_answer = "int + byte list \<times> sockaddr_storage"

record RecvThread =
  rt_fd :: int
  rt_port :: int
  rt_status :: Status
  rt_pc :: "recv_pc option"
  rt_in :: "recv_answer list"

text \<open>What the owner still has to do: calls to be made and the rest of a call under way.\<close>

datatype udp_pc =
    UStart | URun nat | UScanRunning nat
  | UStop bool | UStopThread nat bool | UStopPaused nat | UStoreStopping nat | UScanStopped nat
  | UPause | UPauseThread nat | UStorePaused nat
  | UContinue | UContinueThread nat | UStoreRunning nat
  | UDelete | UClose nat | UJoin nat

datatype udp_target = NoLoop | BaseLoop | PoolLoop nat

text \<open>\<open>us_handed\<close> are the calls of the message handler, made at once or handed to a loop, with the number of the receiving thread; \<open>us_closed\<close> are
  the descriptors that were closed.\<close>

record udp_Server =
  recv_threads :: "RecvThread list"
  message_handler :: bool
  tpool :: "EventLoopThreadPool option"
  us_policy :: Policy
  recv_buf_size :: size_t
  us_handed :: "(nat \<times> udp_target \<times> Message) list"
  us_closed :: "int list"
  us_owner :: "udp_pc list"

definition udp_Server_new :: "Policy \<Rightarrow> udp_Server" where
  "udp_Server_new policy = \<lparr>recv_threads = [], message_handler = False, tpool = None, us_policy = policy, recv_buf_size = 1472,
     us_handed = [], us_closed = [], us_owner = []\<rparr>"

section \<open>Initialisation\<close>

definition RecvThread_new :: RecvThread where
  "RecvThread_new = \<lparr>rt_fd = INVALID_SOCKET, rt_port = -1, rt_status = uStopped, rt_pc = None, rt_in = []\<rparr>"

text \<open>\<open>fds\<close> are the descriptors the process has open. Ports are not negative.\<close>

definition RecvThread_Listen ::
  "(16 word \<Rightarrow> string \<Rightarrow> int \<times> byte list) \<Rightarrow> sock_env \<Rightarrow> nat \<Rightarrow> RecvThread \<times> int list \<Rightarrow> (bool \<times> RecvThread \<times> int list) result" where
  "RecvThread_Listen pton env p = (\<lambda>(t, fds).
     ebind (CreateUDPServer pton env p fds) (\<lambda>(fd, fds1).
       Inr (fd \<ge> 0, t\<lparr>rt_port := int p, rt_fd := fd\<rparr>, fds1)))"

definition Server_Init_port ::
  "(16 word \<Rightarrow> string \<Rightarrow> int \<times> byte list) \<Rightarrow> (nat \<Rightarrow> sock_env) \<Rightarrow> nat \<Rightarrow> udp_Server \<times> int list \<Rightarrow> (bool \<times> udp_Server \<times> int list) result" where
  "Server_Init_port pton envs port = (\<lambda>(s, fds).
     ebind (RecvThread_Listen pton (envs port) port (RecvThread_new, fds)) (\<lambda>(ret, t, fds1).
     asserting ret (Inr (ret, s\<lparr>recv_threads := recv_threads s @ [t]\<rparr>, fds1))))"

fun Server_Init_ports ::
  "(16 word \<Rightarrow> string \<Rightarrow> int \<times> byte list) \<Rightarrow> (nat \<Rightarrow> sock_env) \<Rightarrow> nat list \<Rightarrow> udp_Server \<times> int list \<Rightarrow> (bool \<times> udp_Server \<times> int list) result" where
  "Server_Init_ports pton envs [] sf = Inr (True, sf)"
| "Server_Init_ports pton envs (p # ps) sf =
     ebind (Server_Init_port pton envs p sf) (\<lambda>(ok, sf1). if \<not> ok then Inr (False, sf1) else Server_Init_ports pton envs ps sf1)"

text \<open>The loop that converts the fields; \<open>None\<close> is a field that is not a positive number.\<close>

fun convert_ports :: "string list \<Rightarrow> nat list option result" where
  "convert_ports [] = Inr (Some [])"
| "convert_ports (f # fs) =
     ebind (atoi f) (\<lambda>i. if i \<le> 0 then Inr None else ebind (convert_ports fs) (\<lambda>v. Inr (map_option (Cons (nat i)) v)))"

definition Server_Init ::
  "(16 word \<Rightarrow> string \<Rightarrow> int \<times> byte list) \<Rightarrow> (nat \<Rightarrow> sock_env) \<Rightarrow> string \<Rightarrow> udp_Server \<times> int list \<Rightarrow> (bool \<times> udp_Server \<times> int list) result" where
  "Server_Init pton envs listen_ports sf =
     ebind (convert_ports (StringSplit listen_ports '','' 0 [])) (\<lambda>v.
       case v of None \<Rightarrow> Inr (False, sf) | Some ps \<Rightarrow> Server_Init_ports pton envs ps sf)"

section \<open>A receiving thread\<close>

text \<open>A datagram that does not fit into the buffer is cut off by the kernel.\<close>

definition recv_message :: "size_t \<Rightarrow> int \<Rightarrow> byte list \<times> sockaddr_storage \<Rightarrow> Message result" where
  "recv_message n fd = (\<lambda>(data, addr).
     ebind (Message_new fd n) (\<lambda>m.
     let b = msg_buf m; bs = take (unat n) data in
     ebind (mem_write (unat (write_index b)) (map Some bs) (storage b)) (\<lambda>st.
     ebind (Buffer_WriteBytes (of_nat (length bs)) (b\<lparr>storage := st\<rparr>)) (\<lambda>b1.
       Inr (set_remote_addr addr (m\<lparr>msg_buf := b1\<rparr>))))))"

definition s_addr :: "sockaddr_storage \<Rightarrow> 32 word" where
  "s_addr addr = word_of_le (range_of 4 8 addr)"

definition loop_target :: "nat option \<Rightarrow> udp_target" where
  "loop_target l = (case l of None \<Rightarrow> BaseLoop | Some i \<Rightarrow> PoolLoop i)"

text \<open>A pool without threads hands out its base loop; the application is taken to have made the pool with one.\<close>

definition hand_over :: "nat \<Rightarrow> Message \<Rightarrow> udp_Server \<Rightarrow> udp_Server" where
  "hand_over i m s =
     (case tpool s of
        None \<Rightarrow> s\<lparr>us_handed := us_handed s @ [(i, NoLoop, m)]\<rparr>
      | Some p \<Rightarrow>
          if us_policy s = kRoundRobin then
            (case Pool_GetNextLoop p of (l, p1) \<Rightarrow> s\<lparr>tpool := Some p1, us_handed := us_handed s @ [(i, loop_target l, m)]\<rparr>)
          else s\<lparr>us_handed := us_handed s @ [(i, loop_target (GetNextLoopWithHash (ucast (s_addr (msg_addr m))) p), m)]\<rparr>)"

definition set_thread :: "nat \<Rightarrow> RecvThread \<Rightarrow> udp_Server \<Rightarrow> udp_Server" where
  "set_thread i t s = s\<lparr>recv_threads := (recv_threads s)[i := t]\<rparr>"

text \<open>A failed \<^verbatim>\<open>recvfrom\<close> leads to the next turn of the loop whether it may be retried or not; it fails when the descriptor is closed. A handler that has
  been destroyed must not be called.\<close>

definition RecvingLoop :: "nat \<Rightarrow> udp_Server \<Rightarrow> udp_Server result option" where
  "RecvingLoop i s =
     (let t = recv_threads s ! i in
      case rt_pc t of
        None \<Rightarrow> None
      | Some LBegin \<Rightarrow> Some (Inr (set_thread i (t\<lparr>rt_status := uRunning, rt_pc := Some LTestPaused\<rparr>) s))
      | Some LTestPaused \<Rightarrow> if rt_status t = uPaused then None else Some (Inr (set_thread i (t\<lparr>rt_pc := Some LTestRunning\<rparr>) s))
      | Some LTestRunning \<Rightarrow> Some (Inr (set_thread i (t\<lparr>rt_pc := Some (if rt_status t = uRunning then LRecv else LEnd)\<rparr>) s))
      | Some LRecv \<Rightarrow>
          (if rt_fd t = INVALID_SOCKET then Some (Inr (set_thread i (t\<lparr>rt_pc := Some LTestPaused\<rparr>) s))
           else
             let s1 = set_thread i (t\<lparr>rt_pc := Some LTestPaused, rt_in := tl (rt_in t)\<rparr>) s in
             case rt_in t of
               Inr d # _ \<Rightarrow> Some (ebind (recv_message (recv_buf_size s) (rt_fd t) d) (\<lambda>m.
                 if message_handler s then Inr (hand_over i m s1) else Inl OutOfBounds))
             | _ \<Rightarrow> Some (Inr s1))
      | Some LEnd \<Rightarrow> Some (Inr (set_thread i (t\<lparr>rt_status := uStopped, rt_pc := Some LExited\<rparr>) s))
      | Some LExited \<Rightarrow> None)"

section \<open>The owner\<close>

text \<open>\<^verbatim>\<open>reset\<close> destroys a \<^verbatim>\<open>std::thread\<close> of an earlier \<^verbatim>\<open>Start\<close>, which may not be joinable then.\<close>

definition RecvThread_Run :: "RecvThread \<Rightarrow> RecvThread result" where
  "RecvThread_Run t = (if rt_pc t \<noteq> None then Inl (Thrown ''std::terminate'') else Inr (t\<lparr>rt_pc := Some LBegin\<rparr>))"

definition thread_status :: "nat \<Rightarrow> udp_Server \<Rightarrow> Status" where
  "thread_status i s = rt_status (recv_threads s ! i)"

definition SetStatus :: "nat \<Rightarrow> Status \<Rightarrow> udp_Server \<Rightarrow> udp_Server" where
  "SetStatus i st s = set_thread i ((recv_threads s ! i)\<lparr>rt_status := st\<rparr>) s"

text \<open>\<^verbatim>\<open>Stop\<close>, \<^verbatim>\<open>Pause\<close> and \<^verbatim>\<open>Continue\<close> of a thread: the assertion, and what is left to be done, the second test of \<^verbatim>\<open>Stop\<close>'s assertion and the
  assignments.\<close>

definition RecvThread_Stop :: "nat \<Rightarrow> udp_Server \<Rightarrow> udp_pc list result" where
  [simp]: "RecvThread_Stop i s = Inr (if thread_status i s = uRunning then [UStoreStopping i] else [UStopPaused i])"

definition RecvThread_Pause :: "nat \<Rightarrow> udp_Server \<Rightarrow> udp_pc list result" where
  [simp]: "RecvThread_Pause i s = asserting (thread_status i s = uRunning) (Inr [UStorePaused i])"

definition RecvThread_Continue :: "nat \<Rightarrow> udp_Server \<Rightarrow> udp_pc list result" where
  [simp]: "RecvThread_Continue i s = asserting (thread_status i s = uPaused) (Inr [UStoreRunning i])"

text \<open>The destructor of a thread, up to the \<^verbatim>\<open>join\<close>.\<close>

definition RecvThread_delete :: "nat \<Rightarrow> udp_Server \<Rightarrow> udp_pc list \<times> udp_Server" where
  [simp]: "RecvThread_delete i s =
     ([UJoin i], (set_thread i ((recv_threads s ! i)\<lparr>rt_fd := INVALID_SOCKET\<rparr>) s)\<lparr>us_closed := us_closed s @ [rt_fd (recv_threads s ! i)]\<rparr>)"

text \<open>The destructor of the server destroys the handler and its reference to the pool first, then the receiving threads one after the other, which
  close their descriptors and join.\<close>

fun udp_exec :: "udp_pc \<Rightarrow> udp_Server \<Rightarrow> (udp_pc list \<times> udp_Server) result option" where
  "udp_exec UStart s = Some (Inr (if message_handler s then [URun 0] else [], s))"
| "udp_exec (URun i) s =
     Some (if i < length (recv_threads s)
           then ebind (RecvThread_Run (recv_threads s ! i)) (\<lambda>t. Inr ([URun (Suc i)], set_thread i t s))
           else Inr ([UScanRunning 0], s))"
| "udp_exec (UScanRunning i) s =
     (if i < length (recv_threads s) then (if thread_status i s = uRunning then Some (Inr ([UScanRunning (Suc i)], s)) else None)
      else Some (Inr ([], s)))"
| "udp_exec (UStop wait_thread_exit) s = Some (Inr ([UStopThread 0 wait_thread_exit], s))"
| "udp_exec (UStopThread i w) s =
     Some (if i < length (recv_threads s) then ebind (RecvThread_Stop i s) (\<lambda>k. Inr (k @ [UStopThread (Suc i) w], s))
           else Inr (if w then [UScanStopped 0] else [], s))"
| "udp_exec (UStopPaused i) s = Some (asserting (thread_status i s = uPaused) (Inr ([UStoreStopping i], s)))"
| "udp_exec (UStoreStopping i) s = Some (Inr ([], SetStatus i uStopping s))"
| "udp_exec (UScanStopped i) s =
     (if i < length (recv_threads s) then (if thread_status i s = uStopped then Some (Inr ([UScanStopped (Suc i)], s)) else None)
      else Some (Inr ([], s)))"
| "udp_exec UPause s = Some (Inr ([UPauseThread 0], s))"
| "udp_exec (UPauseThread i) s =
     Some (if i < length (recv_threads s)
           then ebind (RecvThread_Pause i s) (\<lambda>k. Inr (k @ [UPauseThread (Suc i)], s)) else Inr ([], s))"
| "udp_exec (UStorePaused i) s = Some (Inr ([], SetStatus i uPaused s))"
| "udp_exec UContinue s = Some (Inr ([UContinueThread 0], s))"
| "udp_exec (UContinueThread i) s =
     Some (if i < length (recv_threads s)
           then ebind (RecvThread_Continue i s) (\<lambda>k. Inr (k @ [UContinueThread (Suc i)], s)) else Inr ([], s))"
| "udp_exec (UStoreRunning i) s = Some (Inr ([], SetStatus i uRunning s))"
| "udp_exec UDelete s = Some (Inr ([UClose 0], s\<lparr>message_handler := False, tpool := None\<rparr>))"
| "udp_exec (UClose i) s =
     Some (Inr (if i < length (recv_threads s) then (case RecvThread_delete i s of (k, s1) \<Rightarrow> (k @ [UClose (Suc i)], s1)) else ([], s)))"
| "udp_exec (UJoin i) s =
     (if rt_pc (recv_threads s ! i) = None \<or> rt_pc (recv_threads s ! i) = Some LExited then Some (Inr ([], s)) else None)"

definition owner_turn :: "udp_Server \<Rightarrow> udp_Server result option" where
  "owner_turn s =
     (case us_owner s of
        [] \<Rightarrow> None
      | fr # k \<Rightarrow> map_option (\<lambda>r. ebind r (\<lambda>(new, s1). Inr (s1\<lparr>us_owner := new @ k\<rparr>))) (udp_exec fr s))"

section \<open>Schedules\<close>

text \<open>\<open>None\<close> is the owner, \<open>Some i\<close> a receiving thread. A process that cannot step passes its turn.\<close>

definition process_step :: "nat option \<Rightarrow> udp_Server \<Rightarrow> udp_Server result option" where
  "process_step p s = (case p of None \<Rightarrow> owner_turn s | Some i \<Rightarrow> if i < length (recv_threads s) then RecvingLoop i s else None)"

definition turn :: "nat option \<Rightarrow> udp_Server \<Rightarrow> udp_Server result" where
  "turn p s = (case process_step p s of None \<Rightarrow> Inr s | Some r \<Rightarrow> r)"

end
