(* ===== verification/Udp_Server_Props.thy ===== *)
theory Udp_Server_Props
  imports Udp_Server Buffer_Props
begin

text \<open>
  The life of a UDP server that is started, stopped with \<^verbatim>\<open>Stop(true)\<close> and destroyed, under every schedule; what reaches the message
  handler; and failures of \<^verbatim>\<open>Pause\<close> and \<^verbatim>\<open>Stop(false)\<close>.
\<close>

section \<open>Messages\<close>

lemma recv_message_ok:
  assumes "unat n < 2 ^ 62"
  shows "yields (recv_message n fd (data, addr)) (\<lambda>m. buf_inv (msg_buf m) \<and> contents (msg_buf m) = take (unat n) data \<and> msg_addr m = addr)"
proof -
  have "unat n + unat kCheapPrependSize < 2 ^ 63" using assms by (simp add: kCheapPrependSize_def)
  from Buffer_new_inv [OF this] obtain b where b: "Buffer_new n kCheapPrependSize = Inr b" "buf_inv b" "contents b = []"
    "unat (capacity b) = unat kCheapPrependSize + unat n" "read_index b = kCheapPrependSize" by blast
  let ?bs = "take (unat n) data"
  have wi: "unat (write_index b) = unat kCheapPrependSize" using buf_inv_index [OF b(2)] b(3,5) by simp
  then have w: "unat (write_index b) + length ?bs \<le> unat (capacity b)" using b(4) by simp
  note st = store_inv [OF b(2) w]
  define b1 where "b1 = b\<lparr>storage := splice_at (unat (write_index b)) (map Some ?bs) (storage b)\<rparr>"
  have "Buffer_WritableBytes b1 = Buffer_WritableBytes b" by (simp add: Buffer_WritableBytes_def b1_def)
  then have wr: "Buffer_WritableBytes b1 = Inr (capacity b - write_index b)" using Buffer_WritableBytes_inv [OF b(2)] by simp
  have u: "unat (of_nat (length ?bs) :: size_t) = length ?bs" by (rule unat_of_nat_size) (use assms in simp)
  have "(of_nat (length ?bs) :: size_t) \<le> capacity b - write_index b"
    using wi b(4) unat_writable_inv [OF b(2)] unfolding word_le_nat_alt u by simp
  then show ?thesis
    using b(1,3) st wr by (simp add: recv_message_def Message_new_def Let_def Buffer_WriteBytes_def b1_def set_remote_addr_def)
qed

section \<open>What the owner knows of a receiving thread\<close>

datatype thread_phase = TNew | TSpawned | TUp | THalting | TGone

abbreviation looping :: "RecvThread \<Rightarrow> bool" where
  "looping t \<equiv> rt_pc t \<in> {Some LTestPaused, Some LTestRunning, Some LRecv}"

fun thread_in :: "thread_phase \<Rightarrow> RecvThread \<Rightarrow> bool" where
  "thread_in TNew t \<longleftrightarrow> rt_pc t = None \<and> rt_status t = uStopped"
| "thread_in TSpawned t \<longleftrightarrow> rt_pc t = Some LBegin \<and> rt_status t = uStopped \<or> rt_status t = uRunning \<and> looping t"
| "thread_in TUp t \<longleftrightarrow> rt_status t = uRunning \<and> looping t"
| "thread_in THalting t \<longleftrightarrow> rt_status t = uStopping \<and> (looping t \<or> rt_pc t = Some LEnd) \<or> rt_status t = uStopped \<and> rt_pc t = Some LExited"
| "thread_in TGone t \<longleftrightarrow> rt_status t = uStopped \<and> rt_pc t = Some LExited"

text \<open>The owner's program points, the phase of each thread, the first \<open>i\<close> of which are ahead of the others, and whether the handler is still there.\<close>

definition below :: "nat \<Rightarrow> thread_phase \<Rightarrow> thread_phase \<Rightarrow> nat \<Rightarrow> thread_phase" where
  "below i a b j = (if j < i then a else b)"

lemma below_Suc: "below (Suc i) a b i = a" "j \<noteq> i \<Longrightarrow> below (Suc i) a b j = below i a b j"
  by (auto simp: below_def)

inductive udp_phase :: "nat \<Rightarrow> udp_pc list \<Rightarrow> (nat \<Rightarrow> thread_phase) \<Rightarrow> bool \<Rightarrow> bool" for n where
  new: "udp_phase n [UStart, UStop True, UDelete] (\<lambda>_. TNew) True"
| run: "i \<le> n \<Longrightarrow> udp_phase n [URun i, UStop True, UDelete] (below i TSpawned TNew) True"
| wait_up: "i \<le> n \<Longrightarrow> udp_phase n [UScanRunning i, UStop True, UDelete] (below i TUp TSpawned) True"
| up: "udp_phase n [UStop True, UDelete] (\<lambda>_. TUp) True"
| stop: "i \<le> n \<Longrightarrow> udp_phase n [UStopThread i True, UDelete] (below i THalting TUp) True"
| stopping: "i < n \<Longrightarrow> udp_phase n [UStoreStopping i, UStopThread (Suc i) True, UDelete] (below i THalting TUp) True"
| wait_gone: "i \<le> n \<Longrightarrow> udp_phase n [UScanStopped i, UDelete] (below i TGone THalting) True"
| stopped: "udp_phase n [UDelete] (\<lambda>_. TGone) True"
| close: "i \<le> n \<Longrightarrow> udp_phase n [UClose i] (\<lambda>_. TGone) False"
| join: "i < n \<Longrightarrow> udp_phase n [UJoin i, UClose (Suc i)] (\<lambda>_. TGone) False"
| deleted: "udp_phase n [] (\<lambda>_. TGone) False"

definition udp_inv :: "nat \<Rightarrow> udp_Server \<Rightarrow> bool" where
  "udp_inv n s \<longleftrightarrow> length (recv_threads s) = n \<and> unat (recv_buf_size s) < 2 ^ 62 \<and>
     (\<exists>K. udp_phase n (us_owner s) K (message_handler s) \<and> (\<forall>j < n. thread_in (K j) (recv_threads s ! j)))"

section \<open>The measure\<close>

fun thread_rank :: "RecvThread \<Rightarrow> nat" where
  "thread_rank t =
     (case rt_pc t of
        None \<Rightarrow> 7 | Some LBegin \<Rightarrow> 6
      | Some pc \<Rightarrow> if rt_status t = uRunning then 5 else (case pc of LRecv \<Rightarrow> 4 | LTestPaused \<Rightarrow> 3 | LTestRunning \<Rightarrow> 2 | LEnd \<Rightarrow> 1 | _ \<Rightarrow> 0))"

declare thread_rank.simps [simp del]

fun owner_rank :: "nat \<Rightarrow> udp_pc \<Rightarrow> nat" where
  "owner_rank n UStart = 2 * n + 3"
| "owner_rank n (URun i) = (n - i) + n + 2"
| "owner_rank n (UScanRunning i) = n - i + 1"
| "owner_rank n (UStop w) = 3 * n + 3"
| "owner_rank n (UStopThread i w) = 2 * (n - i) + n + 2"
| "owner_rank n (UScanStopped i) = n - i + 1"
| "owner_rank n UDelete = 2 * n + 2"
| "owner_rank n (UClose i) = 2 * (n - i) + 1"
| "owner_rank n _ = 1"

definition udp_mu :: "nat \<Rightarrow> udp_Server \<Rightarrow> nat" where
  "udp_mu n s = sum_list (map (owner_rank n) (us_owner s)) + sum_list (map thread_rank (recv_threads s))"

text \<open>A process that would get on: an owner that does not wait, and a thread that leaves its loop or has not entered it.\<close>

definition helpful :: "nat option \<Rightarrow> udp_Server \<Rightarrow> bool" where
  "helpful p s \<longleftrightarrow>
     (case p of
        None \<Rightarrow> owner_turn s \<noteq> None
      | Some i \<Rightarrow> i < length (recv_threads s) \<and> rt_pc (recv_threads s ! i) \<notin> {None, Some LExited} \<and>
          (rt_pc (recv_threads s ! i) = Some LBegin \<or> rt_status (recv_threads s ! i) = uStopping))"

lemma sum_list_replace: "i < length xs \<Longrightarrow> sum_list (xs[i := x]) + xs ! i = sum_list xs + (x :: nat)"
  by (induction xs arbitrary: i) (auto split: nat.splits)

lemma inv_thread:
  assumes "udp_inv n s" "i < n"
  shows "\<exists>k. thread_in k (recv_threads s ! i)" and "looping (recv_threads s ! i) \<Longrightarrow> message_handler s"
proof -
  from assms obtain K where p: "udp_phase n (us_owner s) K (message_handler s)" and t: "thread_in (K i) (recv_threads s ! i)"
    by (auto simp: udp_inv_def)
  then show "\<exists>k. thread_in k (recv_threads s ! i)" by blast
  show "looping (recv_threads s ! i) \<Longrightarrow> message_handler s" using p t by cases auto
qed

text \<open>Every turn of a thread changes only this thread, besides what it hands over.\<close>

definition thread_moved :: "nat \<Rightarrow> udp_Server \<Rightarrow> udp_Server \<Rightarrow> bool" where
  "thread_moved i s s' \<longleftrightarrow> (\<exists>t'. recv_threads s' = (recv_threads s)[i := t'] \<and> us_owner s' = us_owner s \<and>
    message_handler s' = message_handler s \<and> recv_buf_size s' = recv_buf_size s \<and> (\<forall>k. thread_in k (recv_threads s ! i) \<longrightarrow> thread_in k t') \<and>
    thread_rank t' \<le> thread_rank (recv_threads s ! i) \<and> (helpful (Some i) s \<longrightarrow> thread_rank t' < thread_rank (recv_threads s ! i)))"

lemma thread_in_simps:
  "thread_in k t \<longleftrightarrow> (case k of
     TNew \<Rightarrow> rt_pc t = None \<and> rt_status t = uStopped
   | TSpawned \<Rightarrow> rt_pc t = Some LBegin \<and> rt_status t = uStopped \<or> rt_status t = uRunning \<and> looping t
   | TUp \<Rightarrow> rt_status t = uRunning \<and> looping t
   | THalting \<Rightarrow> rt_status t = uStopping \<and> (looping t \<or> rt_pc t = Some LEnd) \<or> rt_status t = uStopped \<and> rt_pc t = Some LExited
   | TGone \<Rightarrow> rt_status t = uStopped \<and> rt_pc t = Some LExited)"
  by (cases k) simp_all

lemma hand_over_fields [simp]:
  "recv_threads (hand_over i m s) = recv_threads s" "us_owner (hand_over i m s) = us_owner s"
  "message_handler (hand_over i m s) = message_handler s" "recv_buf_size (hand_over i m s) = recv_buf_size s"
  by (simp_all add: hand_over_def split: option.splits prod.splits)

lemma set_thread_fields [simp]:
  "recv_threads (set_thread i t s) = (recv_threads s)[i := t]" "us_owner (set_thread i t s) = us_owner s"
  "message_handler (set_thread i t s) = message_handler s" "recv_buf_size (set_thread i t s) = recv_buf_size s"
  "us_handed (set_thread i t s) = us_handed s" "us_closed (set_thread i t s) = us_closed s"
  by (simp_all add: set_thread_def)

lemma moved_set_thread:
  assumes "i < length (recv_threads s)" "\<forall>k. thread_in k (recv_threads s ! i) \<longrightarrow> thread_in k t'" "thread_rank t' \<le> thread_rank (recv_threads s ! i)"
    "helpful (Some i) s \<longrightarrow> thread_rank t' < thread_rank (recv_threads s ! i)"
  shows "thread_moved i s (set_thread i t' s)" "thread_moved i s (hand_over i m (set_thread i t' s))"
  using assms unfolding thread_moved_def by auto

lemma thread_turn:
  assumes "udp_inv n s" "i < n"
  shows "yields (turn (Some i) s) (thread_moved i s)"
proof -
  define t where "t = recv_threads s ! i"
  have i: "i < length (recv_threads s)" using assms by (simp add: udp_inv_def)
  obtain k0 where k0: "thread_in k0 t" using inv_thread(1) [OF assms] t_def by blast
  have np: "rt_status t \<noteq> uPaused" using k0 by (cases k0) auto
  have stay: "thread_moved i s s" if "\<not> helpful (Some i) s"
    unfolding thread_moved_def using that by (intro exI [of _ "recv_threads s ! i"]) simp
  show ?thesis
  proof (cases "rt_pc t")
    case None
    then show ?thesis using stay i by (simp add: turn_def process_step_def RecvingLoop_def t_def helpful_def)
  next
    case (Some pc)
    show ?thesis
    proof (cases pc)
      case LRecv
      have h: "message_handler s" using inv_thread(2) [OF assms] Some LRecv t_def by simp
      have sz: "unat (recv_buf_size s) < 2 ^ 62" using assms(1) by (simp add: udp_inv_def)
      have mv: "thread_moved i s (set_thread i (t\<lparr>rt_pc := Some LTestPaused\<rparr>) s)"
          "thread_moved i s (set_thread i (t\<lparr>rt_pc := Some LTestPaused, rt_in := x\<rparr>) s)"
          "thread_moved i s (hand_over i m (set_thread i (t\<lparr>rt_pc := Some LTestPaused, rt_in := x\<rparr>) s))" for x m
        using Some LRecv np i by (auto intro!: moved_set_thread simp: t_def [symmetric] helpful_def thread_in_simps thread_rank.simps split: thread_phase.splits)
      have "yields (recv_message (recv_buf_size s) (rt_fd t) d) (\<lambda>m. thread_moved i s (hand_over i m (set_thread i (t\<lparr>rt_pc := Some LTestPaused, rt_in := x\<rparr>) s)))"
        for d x using recv_message_ok [OF sz, of "rt_fd t" "fst d" "snd d"] mv(3) by (auto elim!: yields_mono)
      then show ?thesis using Some LRecv h i mv
        by (auto simp: turn_def process_step_def RecvingLoop_def t_def [symmetric] Let_def split: list.splits sum.splits)
    qed (use Some k0 np i stay in \<open>auto simp: turn_def process_step_def RecvingLoop_def t_def [symmetric] Let_def helpful_def thread_in_simps thread_rank.simps
       intro!: moved_set_thread split: thread_phase.splits\<close>)
  qed
qed

lemma mu_thread:
  assumes "recv_threads s' = (recv_threads s)[i := t']" "us_owner s' = us_owner s" "i < length (recv_threads s)"
  shows "udp_mu n s' + thread_rank (recv_threads s ! i) = udp_mu n s + thread_rank t'"
  using sum_list_replace [of i "map thread_rank (recv_threads s)" "thread_rank t'"] assms by (simp add: udp_mu_def map_update)

text \<open>A step of the owner keeps the invariant and uses up some of the measure.\<close>

lemma owner_phase:
  assumes "udp_inv n s" "us_owner s = fr # k" "udp_exec fr s = Some r"
  shows "yields r (\<lambda>(new, s'). udp_inv n (s'\<lparr>us_owner := new @ k\<rparr>) \<and> udp_mu n (s'\<lparr>us_owner := new @ k\<rparr>) < udp_mu n s)"
proof -
  from assms obtain K where p: "udp_phase n (fr # k) K (message_handler s)" and t: "\<forall>j < n. thread_in (K j) (recv_threads s ! j)"
    and n: "length (recv_threads s) = n" "unat (recv_buf_size s) < 2 ^ 62"
    by (auto simp: udp_inv_def)
  let ?P = "\<lambda>new s'. udp_inv n (s'\<lparr>us_owner := new @ k\<rparr>) \<and> udp_mu n (s'\<lparr>us_owner := new @ k\<rparr>) < udp_mu n s"
  have plain: "?P new s" if "udp_phase n (new @ k) K' (message_handler s)" "\<forall>j < n. thread_in (K' j) (recv_threads s ! j)"
      "sum_list (map (owner_rank n) new) < owner_rank n fr" for new K'
    using that n assms(2) by (auto simp: udp_inv_def udp_mu_def)
  have changed: "?P new (s\<lparr>recv_threads := (recv_threads s)[i := t'], us_closed := cl\<rparr>)"
    if "udp_phase n (new @ k) K' (message_handler s)" "i < n" "\<forall>j < n. j \<noteq> i \<longrightarrow> thread_in (K' j) (recv_threads s ! j)" "thread_in (K' i) t'"
      "thread_rank t' \<le> thread_rank (recv_threads s ! i)" "sum_list (map (owner_rank n) new) < owner_rank n fr" for new K' i t' cl
  proof -
    have "sum_list (map thread_rank ((recv_threads s)[i := t'])) \<le> sum_list (map thread_rank (recv_threads s))"
      using sum_list_replace [of i "map thread_rank (recv_threads s)" "thread_rank t'"] that(2,5) n by (simp add: map_update)
    then show ?thesis using that n assms(2) by (auto simp: udp_inv_def udp_mu_def nth_list_update)
  qed
  from p show ?thesis
  proof cases
    case new
    then show ?thesis using assms(3) t plain [of "[URun 0]"] udp_phase.run [of 0 n] by (auto simp: below_def)
  next
    case (run i)
    show ?thesis
    proof (cases "i < n")
      case True
      let ?t = "(recv_threads s ! i)\<lparr>rt_pc := Some LBegin\<rparr>"
      have o: "thread_in TNew (recv_threads s ! i)" using t [rule_format, of i] run True by (simp add: below_def)
      have "?P [URun (Suc i)] (s\<lparr>recv_threads := (recv_threads s)[i := ?t], us_closed := us_closed s\<rparr>)"
        using udp_phase.run [of "Suc i" n] run True t o
        by (intro changed [where K' = "below (Suc i) TSpawned TNew"]) (auto simp: below_Suc thread_rank.simps)
      then show ?thesis using assms(3) run True n o by (auto simp: RecvThread_Run_def set_thread_def)
    next
      case False
      then show ?thesis using assms(3) run t n plain [of "[UScanRunning 0]"] udp_phase.wait_up [of 0 n] by (auto simp: below_def)
    qed
  next
    case (wait_up i)
    show ?thesis
    proof (cases "i < n")
      case True
      have "thread_in TUp (recv_threads s ! i)" using t [rule_format, of i] wait_up True assms(3) n by (auto simp: below_def thread_status_def split: if_splits)
      then have "\<forall>j < n. thread_in (below (Suc i) TUp TSpawned j) (recv_threads s ! j)" using t wait_up below_Suc by metis
      then show ?thesis using assms(3) wait_up True n plain [of "[UScanRunning (Suc i)]"] udp_phase.wait_up [of "Suc i" n] by (auto split: if_splits)
    next
      case False
      then show ?thesis using assms(3) wait_up t n plain [of "[]"] udp_phase.up [of n] by (auto simp: below_def)
    qed
  next
    case up
    then show ?thesis using assms(3) t plain [of "[UStopThread 0 True]"] udp_phase.stop [of 0 n] by (auto simp: below_def)
  next
    case (stop i)
    show ?thesis
    proof (cases "i < n")
      case True
      have "thread_status i s = uRunning" using t [rule_format, of i] stop True by (auto simp: below_def thread_status_def)
      then show ?thesis using assms(3) stop True t n plain [of "[UStoreStopping i, UStopThread (Suc i) True]"] udp_phase.stopping [of i n] by auto
    next
      case False
      then show ?thesis using assms(3) stop t n plain [of "[UScanStopped 0]"] udp_phase.wait_gone [of 0 n] by (auto simp: below_def)
    qed
  next
    case (stopping i)
    let ?t = "(recv_threads s ! i)\<lparr>rt_status := uStopping\<rparr>"
    have "thread_in TUp (recv_threads s ! i)" using t [rule_format, of i] stopping by (auto simp: below_def)
    then have "?P [] (s\<lparr>recv_threads := (recv_threads s)[i := ?t], us_closed := us_closed s\<rparr>)"
      using udp_phase.stop [of "Suc i" n] stopping t
      by (intro changed [where K' = "below (Suc i) THalting TUp"]) (auto simp: below_Suc thread_rank.simps)
    then show ?thesis using assms(3) stopping by (auto simp: SetStatus_def set_thread_def)
  next
    case (wait_gone i)
    show ?thesis
    proof (cases "i < n")
      case True
      have "thread_in TGone (recv_threads s ! i)" using t [rule_format, of i] wait_gone True assms(3) n by (auto simp: below_def thread_status_def split: if_splits)
      then have "\<forall>j < n. thread_in (below (Suc i) TGone THalting j) (recv_threads s ! j)" using t wait_gone below_Suc by metis
      then show ?thesis using assms(3) wait_gone True n plain [of "[UScanStopped (Suc i)]"] udp_phase.wait_gone [of "Suc i" n] by (auto split: if_splits)
    next
      case False
      then show ?thesis using assms(3) wait_gone t n plain [of "[]"] udp_phase.stopped [of n] by (auto simp: below_def)
    qed
  next
    case stopped
    then show ?thesis using assms(2,3) t n udp_phase.close [of 0 n]
      by (auto simp: udp_inv_def udp_mu_def intro!: exI [of _ "\<lambda>_. TGone"])
  next
    case (close i)
    show ?thesis
    proof (cases "i < n")
      case True
      let ?t = "(recv_threads s ! i)\<lparr>rt_fd := INVALID_SOCKET\<rparr>"
      have "?P [UJoin i, UClose (Suc i)] (s\<lparr>recv_threads := (recv_threads s)[i := ?t], us_closed := us_closed s @ [rt_fd (recv_threads s ! i)]\<rparr>)"
        using udp_phase.join [of i n] close True t by (intro changed) (auto simp: thread_rank.simps)
      then show ?thesis using assms(3) close True n by (auto simp: set_thread_def)
    next
      case False
      then show ?thesis using assms(3) close t n plain [of "[]"] udp_phase.deleted [of n] by auto
    qed
  next
    case (join i)
    then show ?thesis using assms(3) t plain [of "[]"] udp_phase.close [of "Suc i" n] by (auto split: if_splits)
  qed
qed

lemma owner_moves:
  assumes "udp_inv n s"
  shows "yields (turn None s) (\<lambda>s'. if owner_turn s = None then s' = s else udp_inv n s' \<and> udp_mu n s' < udp_mu n s)"
proof (cases "owner_turn s")
  case (Some r)
  then obtain fr k r' where o: "us_owner s = fr # k" "udp_exec fr s = Some r'" "r = ebind r' (\<lambda>(new, s1). Inr (s1\<lparr>us_owner := new @ k\<rparr>))"
    by (auto simp: owner_turn_def split: list.splits)
  from owner_phase [OF assms o(1,2)] show ?thesis using Some o(3)
    by (auto simp: turn_def process_step_def split_def elim!: yields_mono)
qed (simp add: turn_def process_step_def)

lemma thread_moved_inv:
  assumes "udp_inv n s" "i < n" "thread_moved i s s'"
  shows "udp_inv n s'" and "udp_mu n s' \<le> udp_mu n s" and "helpful (Some i) s \<Longrightarrow> udp_mu n s' < udp_mu n s"
proof -
  obtain t' where t': "recv_threads s' = (recv_threads s)[i := t']" "us_owner s' = us_owner s" "message_handler s' = message_handler s"
      "recv_buf_size s' = recv_buf_size s" "\<forall>k. thread_in k (recv_threads s ! i) \<longrightarrow> thread_in k t'" "thread_rank t' \<le> thread_rank (recv_threads s ! i)"
      "helpful (Some i) s \<longrightarrow> thread_rank t' < thread_rank (recv_threads s ! i)"
    using assms(3) unfolding thread_moved_def by blast
  show "udp_inv n s'" using assms(1,2) t'(1-5) unfolding udp_inv_def by (auto simp: nth_list_update)
  have "i < length (recv_threads s)" using assms by (simp add: udp_inv_def)
  from mu_thread [OF t'(1,2) this, of n] show "udp_mu n s' \<le> udp_mu n s" and "helpful (Some i) s \<Longrightarrow> udp_mu n s' < udp_mu n s"
    using t'(6,7) by auto
qed

lemma idle_turn: "udp_inv n s \<Longrightarrow> \<not> i < n \<Longrightarrow> turn (Some i) s = Inr s"
  by (auto simp: turn_def process_step_def udp_inv_def)

lemma udp_someone:
  assumes "udp_inv n s" "udp_mu n s \<noteq> 0"
  shows "\<exists>p \<in> insert None (Some ` {..<n}). helpful p s"
proof -
  from assms(1) obtain K where p: "udp_phase n (us_owner s) K (message_handler s)" and t: "\<forall>j < n. thread_in (K j) (recv_threads s ! j)"
    and n: "length (recv_threads s) = n" by (auto simp: udp_inv_def)
  have "helpful None s \<or> (\<exists>i < n. helpful (Some i) s)" using p
  proof cases
    case (wait_up i)
    then show ?thesis using t [rule_format, of i] n
      by (cases "i < n") (auto simp: helpful_def owner_turn_def below_def thread_status_def)
  next
    case (wait_gone i)
    then show ?thesis using t [rule_format, of i] n
      by (cases "i < n") (auto simp: helpful_def owner_turn_def below_def thread_status_def)
  next
    case deleted
    then have "\<forall>x \<in> set (recv_threads s). thread_rank x = 0" using t n by (auto simp: in_set_conv_nth thread_rank.simps)
    then have "udp_mu n s = 0" using deleted by (simp add: udp_mu_def)
    then show ?thesis using assms(2) by simp
  qed (use t n in \<open>auto simp: helpful_def owner_turn_def\<close>)
  then show ?thesis by auto
qed

lemma owner_keeps_going:
  assumes "udp_inv n s" "helpful None s" "i < n" "thread_moved i s s'"
  shows "helpful None s'"
proof -
  from assms(1) obtain K where p: "udp_phase n (us_owner s) K (message_handler s)" and t: "\<forall>j < n. thread_in (K j) (recv_threads s ! j)"
    and n: "length (recv_threads s) = n" by (auto simp: udp_inv_def)
  from assms(4) obtain t' where t': "recv_threads s' = (recv_threads s)[i := t']" "us_owner s' = us_owner s"
      "\<And>k. thread_in k (recv_threads s ! i) \<Longrightarrow> thread_in k t'"
    unfolding thread_moved_def by blast
  have keep: "thread_in k (recv_threads s' ! j)" if "thread_in k (recv_threads s ! j)" "j < n" for j k
    using that t'(1,3) n by (cases "j = i") auto
  have n': "length (recv_threads s') = n" using t'(1) n by simp
  from p show ?thesis
  proof cases
    case (wait_up j)
    then show ?thesis using keep [of TUp j] t [rule_format, of j] n n' t'(2) assms(2)
      by (auto simp: helpful_def owner_turn_def below_def thread_status_def split: if_splits)
  next
    case (wait_gone j)
    then show ?thesis using keep [of TGone j] t [rule_format, of j] n n' t'(2) assms(2)
      by (auto simp: helpful_def owner_turn_def below_def thread_status_def split: if_splits)
  next
    case (join j)
    then show ?thesis using keep [of TGone j] t [rule_format, of j] t'(2) by (auto simp: helpful_def owner_turn_def)
  qed (use t'(2) n n' assms(2) in \<open>auto simp: helpful_def owner_turn_def\<close>)
qed

interpretation udp: fair_system turn "udp_inv n" "udp_mu n" helpful "insert None (Some ` {..<n})" for n
proof
  fix s p q
  assume i: "udp_inv n s"
  show "yields (turn p s) (\<lambda>s'. udp_inv n s' \<and> udp_mu n s' \<le> udp_mu n s)"
  proof (cases p)
    case None
    show ?thesis unfolding None by (rule yields_mono [OF owner_moves [OF i]]) (use i in \<open>auto split: if_splits\<close>)
  next
    case (Some j)
    show ?thesis
    proof (cases "j < n")
      case True
      show ?thesis unfolding Some by (rule yields_mono [OF thread_turn [OF i True]]) (use thread_moved_inv [OF i True] in blast)
    qed (use Some i idle_turn [OF i] in simp)
  qed
  show "udp_mu n s \<noteq> 0 \<Longrightarrow> \<exists>p \<in> insert None (Some ` {..<n}). helpful p s" using udp_someone [OF i] .
  assume h: "helpful p s"
  have j: "j < n" if "p = Some j" for j using h i that by (auto simp: helpful_def udp_inv_def)
  show "yields (turn p s) (\<lambda>s'. udp_mu n s' < udp_mu n s)"
  proof (cases p)
    case None
    show ?thesis unfolding None by (rule yields_mono [OF owner_moves [OF i]]) (use h None in \<open>auto simp: helpful_def split: if_splits\<close>)
  next
    case (Some j')
    show ?thesis unfolding Some by (rule yields_mono [OF thread_turn [OF i j [OF Some]]]) (use thread_moved_inv(3) [OF i j [OF Some]] h Some in blast)
  qed
  assume qp: "q \<noteq> p"
  show "yields (turn q s) (\<lambda>s'. udp_mu n s' < udp_mu n s \<or> helpful p s')"
  proof (cases q)
    case None
    show ?thesis unfolding None by (rule yields_mono [OF owner_moves [OF i]]) (use h in \<open>auto split: if_splits\<close>)
  next
    case (Some m)
    show ?thesis
    proof (cases "m < n")
      case True
      have "helpful p s'" if "thread_moved m s s'" for s'
      proof (cases p)
        case None
        then show ?thesis using owner_keeps_going [OF i _ True that] h by simp
      next
        case (Some j')
        then have "recv_threads s' ! j' = recv_threads s ! j'" "length (recv_threads s') = length (recv_threads s)"
          using that qp \<open>q = Some m\<close> by (auto simp: thread_moved_def)
        then show ?thesis using h Some by (simp add: helpful_def)
      qed
      then show ?thesis unfolding Some by (intro yields_mono [OF thread_turn [OF i True]]) blast
    qed (use Some i h idle_turn [OF i] in simp)
  qed
qed

section \<open>The life of a server\<close>

text \<open>A server that listens with \<open>n\<close> threads, which will receive \<open>ins\<close>.\<close>

definition listening :: "nat \<Rightarrow> udp_Server \<Rightarrow> bool" where
  "listening n s \<longleftrightarrow> length (recv_threads s) = n \<and> list_all (\<lambda>t. rt_pc t = None \<and> rt_status t = uStopped) (recv_threads s) \<and>
     message_handler s \<and> unat (recv_buf_size s) < 2 ^ 62 \<and> us_handed s = []"

definition live_and_die :: "udp_Server \<Rightarrow> udp_Server" where
  "live_and_die s = s\<lparr>us_owner := [UStart, UStop True, UDelete]\<rparr>"

lemma listening_inv: "listening n s \<Longrightarrow> udp_inv n (live_and_die s)"
  using udp_phase.new [of n] by (force simp: listening_def udp_inv_def live_and_die_def list_all_length)

lemma listening_mu: "listening n s \<Longrightarrow> udp_mu n (live_and_die s) = 14 * n + 8"
proof -
  assume "listening n s"
  then have "map thread_rank (recv_threads s) = replicate n 7"
    by (intro replicate_eqI) (auto simp: listening_def list_all_iff thread_rank.simps)
  then show ?thesis by (simp add: udp_mu_def live_and_die_def sum_list_replicate)
qed

text \<open>C32. A UDP server that is started, stopped with \<^verbatim>\<open>Stop(true)\<close> and destroyed fails no assertion however its threads interleave, and
  when every thread and the owner get a turn in each round it is done after at most 14 n + 8 rounds for n ports: every thread has
  exited.\<close>

theorem UDP_server_ends:
  assumes "listening n s" "\<forall>ps \<in> set rounds. None \<in> set ps \<and> (\<forall>i < n. Some i \<in> set ps)" "14 * n + 8 \<le> length rounds"
  shows "yields (run_all turn (concat rounds) (live_and_die s)) (\<lambda>s'. us_owner s' = [] \<and> (\<forall>i < n. rt_pc (recv_threads s' ! i) = Some LExited))"
proof -
  have "yields (run_all turn (concat rounds) (live_and_die s)) (\<lambda>s'. udp_inv n s' \<and> udp_mu n s' = 0)"
    using udp.rounds_end [of n "live_and_die s" rounds] assms listening_inv listening_mu by force
  then show ?thesis
  proof (rule yields_mono)
    fix s'
    assume e: "udp_inv n s' \<and> udp_mu n s' = 0"
    then obtain K where p: "udp_phase n (us_owner s') K (message_handler s')" and t: "\<forall>j < n. thread_in (K j) (recv_threads s' ! j)"
      by (auto simp: udp_inv_def)
    from p show "us_owner s' = [] \<and> (\<forall>i < n. rt_pc (recv_threads s' ! i) = Some LExited)"
      by cases (use e t in \<open>auto simp: udp_mu_def\<close>)
  qed
qed

definition sample_server :: udp_Server where
  "sample_server = (udp_Server_new kRoundRobin)\<lparr>message_handler := True,
     recv_threads := [\<lparr>rt_fd = 4, rt_port = 53, rt_status = uStopped, rt_pc = None, rt_in = [Inr (''ab'', replicate 16 (CHR 0x00)), Inl 11]\<rparr>,
       \<lparr>rt_fd = 5, rt_port = 54, rt_status = uStopped, rt_pc = None, rt_in = []\<rparr>]\<rparr>"

lemma sample_listening: "listening 2 sample_server"
  by (simp add: listening_def sample_server_def udp_Server_new_def)

theorem UDP_server_ends_witness:
  "yields (run_all turn (concat (replicate 36 [None, Some 0, Some 1])) (live_and_die sample_server))
    (\<lambda>s'. us_owner s' = [] \<and> (\<forall>i < 2. rt_pc (recv_threads s' ! i) = Some LExited))"
  by (rule UDP_server_ends [OF sample_listening]) (auto simp: less_Suc_eq numeral_2_eq_2)

section \<open>Delivery\<close>

text \<open>What a thread has received, and what is left to receive.\<close>

definition received :: "nat \<Rightarrow> udp_Server \<Rightarrow> (byte list \<times> sockaddr_storage) list" where
  "received i s = map (\<lambda>(_, _, m). (contents (msg_buf m), msg_addr m)) (filter (\<lambda>(j, _). j = i) (us_handed s))"

definition to_come :: "size_t \<Rightarrow> recv_answer list \<Rightarrow> (byte list \<times> sockaddr_storage) list" where
  "to_come n xs = concat (map (\<lambda>x. case x of Inl _ \<Rightarrow> [] | Inr (data, addr) \<Rightarrow> [(take (unat n) data, addr)]) xs)"

definition in_order :: "nat \<Rightarrow> size_t \<Rightarrow> (nat \<Rightarrow> recv_answer list) \<Rightarrow> udp_Server \<Rightarrow> bool" where
  "in_order n sz ins s \<longleftrightarrow> recv_buf_size s = sz \<and> (\<forall>i < n. received i s @ to_come sz (rt_in (recv_threads s ! i)) = to_come sz (ins i))"

lemma received_hand_over:
  "received j (hand_over i m s) = received j s @ (if j = i then [(contents (msg_buf m), msg_addr m)] else [])"
  by (auto simp: received_def hand_over_def split: option.splits prod.splits)

lemma received_set_thread [simp]: "received j (set_thread i t s) = received j s"
  by (simp add: received_def)

lemma thread_in_order:
  assumes "udp_inv n s" "i < n" "in_order n sz ins s"
  shows "yields (turn (Some i) s) (in_order n sz ins)"
proof -
  define t where "t = recv_threads s ! i"
  have i: "i < length (recv_threads s)" using assms by (simp add: udp_inv_def)
  have same: "in_order n sz ins (set_thread i t' s)" if "rt_in t' = rt_in t" for t'
    using assms(3) that i by (auto simp: in_order_def t_def nth_list_update)
  show ?thesis
  proof (cases "rt_pc t = Some LRecv \<and> rt_fd t \<noteq> INVALID_SOCKET")
    case False
    then show ?thesis using i same assms(3)
      by (auto simp: turn_def process_step_def RecvingLoop_def t_def [symmetric] Let_def split: option.splits recv_pc.splits)
  next
    case True
    have h: "message_handler s" using inv_thread(2) [OF assms(1,2)] True t_def by simp
    have sz: "unat (recv_buf_size s) < 2 ^ 62" "recv_buf_size s = sz" using assms(1,3) by (simp_all add: udp_inv_def in_order_def)
    let ?s = "set_thread i (t\<lparr>rt_pc := Some LTestPaused, rt_in := tl (rt_in t)\<rparr>) s"
    have skip: "in_order n sz ins ?s" if "to_come sz (rt_in t) = to_come sz (tl (rt_in t))"
      using assms(3) that i by (auto simp: in_order_def t_def nth_list_update)
    have take: "in_order n sz ins (hand_over i m ?s)"
      if "rt_in t = Inr (data, addr) # rest" "contents (msg_buf m) = take (unat sz) data \<and> msg_addr m = addr" for m data addr rest
    proof -
      have "to_come sz (rt_in (recv_threads s ! i)) = (contents (msg_buf m), msg_addr m) # to_come sz rest"
        using that by (simp add: to_come_def t_def)
      then show ?thesis using assms(3) that i by (auto simp: in_order_def nth_list_update received_hand_over)
    qed
    show ?thesis
    proof (cases "\<exists>data addr rest. rt_in t = Inr (data, addr) # rest")
      case True
      then obtain data addr rest where d: "rt_in t = Inr (data, addr) # rest" by blast
      have "yields (recv_message (recv_buf_size s) (rt_fd t) (data, addr)) (\<lambda>m. in_order n sz ins (hand_over i m ?s))"
        by (rule yields_mono [OF recv_message_ok [OF sz(1)]]) (use take [OF d] sz(2) in blast)
      then show ?thesis using \<open>rt_pc t = Some LRecv \<and> rt_fd t \<noteq> INVALID_SOCKET\<close> d h i
        by (simp add: turn_def process_step_def RecvingLoop_def t_def [symmetric] Let_def)
    next
      case False
      then have "to_come sz (rt_in t) = to_come sz (tl (rt_in t))" by (cases "rt_in t") (auto simp: to_come_def split: sum.splits)
      then show ?thesis using \<open>rt_pc t = Some LRecv \<and> rt_fd t \<noteq> INVALID_SOCKET\<close> False i skip
        by (auto simp: turn_def process_step_def RecvingLoop_def t_def [symmetric] Let_def split: list.splits sum.splits)
    qed
  qed
qed

text \<open>The owner never touches what is received.\<close>

lemma map_rt_in: "rt_in t' = rt_in (xs ! i) \<Longrightarrow> map rt_in (xs[i := t']) = map rt_in xs"
  by (cases "i < length xs") (simp_all add: map_update list_update_same_conv list_update_beyond)

lemma exec_same:
  assumes "udp_exec fr s = Some (Inr (new, s'))"
  shows "us_handed s' = us_handed s \<and> recv_buf_size s' = recv_buf_size s \<and> map rt_in (recv_threads s') = map rt_in (recv_threads s)"
  using assms
  by (cases fr) (auto simp: SetStatus_def RecvThread_Run_def set_thread_def ebind_Inr_iff map_rt_in split: if_splits)

lemma owner_in_order:
  assumes "udp_inv n s" "in_order n sz ins s"
  shows "yields (turn None s) (in_order n sz ins)"
proof (cases "owner_turn s")
  case (Some r)
  then obtain fr k r' where o: "us_owner s = fr # k" "udp_exec fr s = Some r'" "r = ebind r' (\<lambda>(new, s1). Inr (s1\<lparr>us_owner := new @ k\<rparr>))"
    by (auto simp: owner_turn_def split: list.splits)
  from owner_phase [OF assms(1) o(1,2)] obtain new s1 where r': "r' = Inr (new, s1)" by (auto elim!: yieldsE)
  have same: "us_handed s1 = us_handed s" "recv_buf_size s1 = recv_buf_size s" "map rt_in (recv_threads s1) = map rt_in (recv_threads s)"
    using exec_same o(2) r' by blast+
  have len: "length (recv_threads s1) = length (recv_threads s)" using same(3) by (metis length_map)
  have "rt_in (recv_threads s1 ! i) = rt_in (recv_threads s ! i)" if "i < n" for i
    using that same(3) assms(1) len by (metis nth_map udp_inv_def)
  then have "in_order n sz ins (s1\<lparr>us_owner := new @ k\<rparr>)"
    using assms(2) same(1,2) by (simp add: in_order_def received_def)
  then show ?thesis using Some o(3) r' by (simp add: turn_def process_step_def)
qed (use assms in \<open>simp add: turn_def process_step_def\<close>)

lemma turn_in_order:
  assumes "udp_inv n s" "in_order n sz ins s"
  shows "yields (turn p s) (\<lambda>s'. udp_inv n s' \<and> in_order n sz ins s')"
proof -
  have "yields (turn p s) (in_order n sz ins)"
  proof (cases p)
    case (Some i)
    then show ?thesis using thread_in_order [OF assms(1) _ assms(2)] idle_turn [OF assms(1)] assms(2) by (cases "i < n") auto
  qed (use owner_in_order assms in simp)
  from yields_conj [OF udp.keeps [OF assms(1), of p] this] show ?thesis by (rule yields_mono) blast
qed

lemma run_in_order:
  assumes "udp_inv n s" "in_order n sz ins s"
  shows "yields (run_all turn ps s) (\<lambda>s'. udp_inv n s' \<and> in_order n sz ins s')"
  using assms
proof (induction ps arbitrary: s)
  case (Cons p ps)
  have "yields (turn p s) (\<lambda>s'. yields (run_all turn ps s') (\<lambda>s''. udp_inv n s'' \<and> in_order n sz ins s''))"
    by (rule yields_mono [OF turn_in_order [OF Cons.prems]]) (use Cons.IH in blast)
  then show ?case by simp
qed simp

text \<open>C33. However the threads interleave, at every moment the datagrams of each port that have been handed to the message handler,
  followed by those the kernel still holds for it, are the datagrams that come to the port: they are handed over in the order in which they
  were received, none twice, and none that \<^verbatim>\<open>recvfrom\<close> returned is left out, each with its sender and cut off at
  \<^verbatim>\<open>recv_buf_size_\<close> bytes.\<close>

theorem UDP_delivery:
  assumes "listening n s"
  shows "yields (run_all turn ps (live_and_die s)) (\<lambda>s'. \<forall>i < n.
    received i s' @ to_come (recv_buf_size s) (rt_in (recv_threads s' ! i)) = to_come (recv_buf_size s) (rt_in (recv_threads s ! i)))"
proof -
  have "in_order n (recv_buf_size s) (\<lambda>i. rt_in (recv_threads s ! i)) (live_and_die s)"
    using assms by (simp add: in_order_def live_and_die_def received_def listening_def)
  from run_in_order [OF listening_inv [OF assms] this, of ps] show ?thesis
    by (rule yields_mono) (simp add: in_order_def)
qed

lemmas turn_simps = turn_def process_step_def owner_turn_def RecvingLoop_def SetStatus_def set_thread_def thread_status_def

text \<open>The owner starts the first thread, which takes its datagram.\<close>

lemma sample_taken:
  "\<exists>s'. run_all turn [None, None, Some 0, Some 0, Some 0, Some 0] (live_and_die sample_server) = Inr s' \<and>
    rt_in (recv_threads s' ! 0) = [Inl 11]"
proof -
  have "unat (1472 :: size_t) < 2 ^ 62" by simp
  from recv_message_ok [OF this, of 4 "''ab''" "replicate 16 (CHR 0x00)"] obtain m where
    "recv_message 1472 4 (''ab'', replicate 16 (CHR 0x00)) = Inr m" by (auto elim!: yieldsE)
  then show ?thesis
    by (simp add: turn_simps live_and_die_def sample_server_def udp_Server_new_def Let_def RecvThread_Run_def INVALID_SOCKET_def)
qed

theorem UDP_delivery_witness:
  "\<exists>s'. run_all turn [None, None, Some 0, Some 0, Some 0, Some 0] (live_and_die sample_server) = Inr s' \<and>
    received 0 s' = [(''ab'', replicate 16 (CHR 0x00))]"
proof -
  obtain s' where s': "run_all turn [None, None, Some 0, Some 0, Some 0, Some 0] (live_and_die sample_server) = Inr s'"
    "rt_in (recv_threads s' ! 0) = [Inl 11]" using sample_taken by blast
  have "received 0 s' @ to_come (recv_buf_size sample_server) (rt_in (recv_threads s' ! 0)) =
      to_come (recv_buf_size sample_server) (rt_in (recv_threads sample_server ! 0))"
    using UDP_delivery [OF sample_listening, of "[None, None, Some 0, Some 0, Some 0, Some 0]", unfolded s'(1)] by simp
  then have "received 0 s' = [(''ab'', replicate 16 (CHR 0x00))]"
    using s'(2) by (simp add: to_come_def sample_server_def udp_Server_new_def)
  then show ?thesis using s'(1) by blast
qed

section \<open>Failures\<close>

text \<open>\<^verbatim>\<open>Pause\<close> can end a receiving thread for good: when it stores the status between the two tests of \<^verbatim>\<open>RecvingLoop\<close>, the thread has seen that it
  is not paused, sees that it is not running and leaves. \<^verbatim>\<open>Continue\<close> and \<^verbatim>\<open>Stop\<close> then fail their assertions.\<close>

theorem Pause_ends_thread:
  assumes "i < length (recv_threads s)" "rt_pc (recv_threads s ! i) = Some LTestRunning" "us_owner s = UStorePaused i # k"
  shows "yields (run_all turn [None, Some i, Some i] s) (\<lambda>s'. us_owner s' = k \<and> rt_pc (recv_threads s' ! i) = Some LExited \<and>
    udp_exec (UContinueThread i) s' = Some (Inl AssertFail) \<and> udp_exec (UStopPaused i) s' = Some (Inl AssertFail))"
  using assms by (simp add: turn_simps Let_def)

definition pausing :: "udp_Server result" where
  "pausing = run_all turn ([None, None, None, None, Some 0, Some 1, None, None, None, None, None] @ [Some 0])
     (sample_server\<lparr>us_owner := [UStart, UPause, UContinue]\<rparr>)"

theorem Pause_ends_thread_witness:
  "yields pausing (\<lambda>s. us_owner s = [UStorePaused 0, UPauseThread 1, UContinue] \<and>
    yields (run_all turn [None, Some 0, Some 0] s) (\<lambda>s'. us_owner s' = [UPauseThread 1, UContinue] \<and> rt_pc (recv_threads s' ! 0) = Some LExited \<and>
      udp_exec (UContinueThread 0) s' = Some (Inl AssertFail) \<and> udp_exec (UStopPaused 0) s' = Some (Inl AssertFail)))"
proof -
  have "yields pausing (\<lambda>s. us_owner s = [UStorePaused 0, UPauseThread 1, UContinue] \<and> 0 < length (recv_threads s) \<and>
      rt_pc (recv_threads s ! 0) = Some LTestRunning)"
    by (simp add: pausing_def turn_simps sample_server_def udp_Server_new_def Let_def RecvThread_Run_def eval_nat_numeral)
  then show ?thesis by (rule yields_mono) (use Pause_ends_thread in blast)
qed

text \<open>After \<^verbatim>\<open>Stop(false)\<close> the server must not be destroyed: the destructor destroys the message handler before it joins the threads, and a thread that is
  about to receive calls it.\<close>

theorem Delete_without_waiting:
  assumes "i < length (recv_threads s)" "rt_pc (recv_threads s ! i) = Some LRecv" "rt_in (recv_threads s ! i) = Inr d # rest"
    "rt_fd (recv_threads s ! i) \<noteq> INVALID_SOCKET" "unat (recv_buf_size s) < 2 ^ 62" "us_owner s = UDelete # k"
  shows "run_all turn [None, Some i] s = Inl OutOfBounds"
proof -
  obtain m where "recv_message (recv_buf_size s) (rt_fd (recv_threads s ! i)) d = Inr m"
    using recv_message_ok [OF assms(5), of "rt_fd (recv_threads s ! i)" "fst d" "snd d"] by (auto elim!: yieldsE)
  then show ?thesis using assms by (simp add: turn_simps Let_def)
qed

definition leaving :: "udp_Server result" where
  "leaving = run_all turn ([None, None, None, None, Some 0, Some 1, None, None, None, Some 0, Some 0] @ [None, None, None, None, None, None])
     (sample_server\<lparr>us_owner := [UStart, UStop False, UDelete]\<rparr>)"

theorem Delete_without_waiting_witness:
  "yields leaving (\<lambda>s. us_owner s = [UDelete] \<and> run_all turn [None, Some 0] s = Inl OutOfBounds)"
proof -
  have "yields leaving (\<lambda>s. us_owner s = [UDelete] \<and> 0 < length (recv_threads s) \<and> rt_pc (recv_threads s ! 0) = Some LRecv \<and>
      rt_in (recv_threads s ! 0) = [Inr (''ab'', replicate 16 (CHR 0x00)), Inl 11] \<and> rt_fd (recv_threads s ! 0) \<noteq> INVALID_SOCKET \<and>
      recv_buf_size s = 1472)"
    by (simp add: leaving_def turn_simps sample_server_def udp_Server_new_def Let_def RecvThread_Run_def eval_nat_numeral INVALID_SOCKET_def)
  moreover have "unat (1472 :: size_t) < 2 ^ 62" by simp
  ultimately show ?thesis using Delete_without_waiting by (auto elim!: yields_mono)
qed

section \<open>Listening\<close>

fun port_list :: "nat list \<Rightarrow> string" where
  "port_list [] = []"
| "port_list [p] = to_string p"
| "port_list (p # ps) = to_string p @ '','' @ port_list ps"

lemma to_string_comma: "c \<in> set (to_string p) \<Longrightarrow> c \<notin> set '',''"
  using to_string_digits(1) [of p] by (auto simp: list_all_iff isdigit_def)

lemma port_fields: "ps \<noteq> [] \<Longrightarrow> split_fields '','' (port_list ps) = map to_string ps"
proof (induction ps rule: port_list.induct)
  case (2 p)
  then show ?case using fields_split(2) to_string_comma by simp
next
  case (3 p q ps)
  have "split_fields '','' (to_string p @ CHR '','' # port_list (q # ps)) = to_string p # split_fields '','' (port_list (q # ps))"
    by (rule fields_split(1)) (use to_string_comma in simp_all)
  then show ?case using 3 by simp
qed simp

lemma convert_port_list:
  assumes "\<forall>p \<in> set ps. 0 < p \<and> int p < 2 ^ 31"
  shows "convert_ports (map to_string ps) = Inr (Some ps)"
  using assms by (induction ps) (simp_all add: atoi_to_string)

text \<open>The ports the system lets us bind.\<close>

definition can_bind :: "(16 word \<Rightarrow> string \<Rightarrow> int \<times> byte list) \<Rightarrow> (nat \<Rightarrow> sock_env) \<Rightarrow> nat \<Rightarrow> bool" where
  "can_bind pton envs p \<longleftrightarrow> fst (pton AF_INET ''0.0.0.0'') = 1 \<and> length (snd (pton AF_INET ''0.0.0.0'')) = 4 \<and>
     sys_socket (envs p) \<ge> 0 \<and> (\<forall>a. sys_bind (envs p) a = 0)"

lemma CreateUDPServer_ok:
  assumes "can_bind pton envs p" "int p < 2 ^ 31"
  shows "CreateUDPServer pton (envs p) p fds = Inr (sys_socket (envs p), fds @ [sys_socket (envs p)])"
proof -
  obtain bytes where b: "pton AF_INET ''0.0.0.0'' = (1, bytes)" "length bytes = 4"
    using assms(1) by (cases "pton AF_INET ''0.0.0.0''") (auto simp: can_bind_def)
  have "SplitHostPort (''0.0.0.0:'' @ to_string p) [] 0 = Inr (True, ''0.0.0.0'', int p)"
    using SplitHostPort_colon [OF assms(2), of "''0.0.0.0''" "[]" 0] by simp
  from ParseFromIPPort_ok [OF this, of pton 1 bytes] b obtain ss where "ParseFromIPPort pton (''0.0.0.0:'' @ to_string p) = Inr (True, ss)"
    by auto
  then show ?thesis using assms(1) by (auto simp: CreateUDPServer_def ParseFromIPPort_value_def Let_def can_bind_def)
qed

lemma Init_ports_ok:
  assumes "\<forall>p \<in> set ps. can_bind pton envs p \<and> int p < 2 ^ 31"
  shows "yields (Server_Init_ports pton envs ps (s, fds)) (\<lambda>(ok, s', fds'). ok \<and> fds' = fds @ map (\<lambda>p. sys_socket (envs p)) ps \<and>
    recv_threads s' = recv_threads s @ map (\<lambda>p. RecvThread_new\<lparr>rt_port := int p, rt_fd := sys_socket (envs p)\<rparr>) ps)"
  using assms
proof (induction ps arbitrary: s fds)
  case (Cons p ps)
  have "sys_socket (envs p) \<ge> 0" using Cons.prems by (simp add: can_bind_def)
  then have st: "Server_Init_port pton envs p (s, fds) =
      Inr (True, s\<lparr>recv_threads := recv_threads s @ [RecvThread_new\<lparr>rt_port := int p, rt_fd := sys_socket (envs p)\<rparr>]\<rparr>, fds @ [sys_socket (envs p)])"
    using CreateUDPServer_ok [of pton envs p] Cons.prems by (simp add: Server_Init_port_def RecvThread_Listen_def)
  have "\<forall>p \<in> set ps. can_bind pton envs p \<and> int p < 2 ^ 31" using Cons.prems by simp
  from Cons.IH [OF this, of "s\<lparr>recv_threads := recv_threads s @ [RecvThread_new\<lparr>rt_port := int p, rt_fd := sys_socket (envs p)\<rparr>]\<rparr>" "fds @ [sys_socket (envs p)]"]
  show ?case using st by simp
qed simp

text \<open>\<^verbatim>\<open>Init\<close> with a list of ports in the documented form makes a receiving thread for each port, in the order of the list, with the
  socket that is bound to it.\<close>

theorem Server_Init_listens:
  assumes "ps \<noteq> []" "\<forall>p \<in> set ps. can_bind pton envs p \<and> 0 < p \<and> int p < 2 ^ 31"
  shows "yields (Server_Init pton envs (port_list ps) (udp_Server_new policy, fds)) (\<lambda>(ok, s, fds'). ok \<and>
    fds' = fds @ map (\<lambda>p. sys_socket (envs p)) ps \<and> map rt_port (recv_threads s) = map int ps \<and>
    map rt_fd (recv_threads s) = map (\<lambda>p. sys_socket (envs p)) ps)"
proof -
  have ne: "port_list ps \<noteq> []" using assms(1) to_string_digits(2) by (cases ps rule: port_list.cases) auto
  have "convert_ports (StringSplit (port_list ps) '','' 0 []) = Inr (Some ps)"
    using StringSplit_fields [OF ne, of "'',''" "[]"] port_fields [OF assms(1)] convert_port_list assms(2) by simp
  then have i: "Server_Init pton envs (port_list ps) sf = Server_Init_ports pton envs ps sf" for sf by (simp add: Server_Init_def)
  show ?thesis unfolding i
    by (rule yields_mono [OF Init_ports_ok]) (use assms(2) in \<open>auto simp: udp_Server_new_def comp_def\<close>)
qed

theorem Server_Init_listens_witness:
  "yields (Server_Init (\<lambda>_ _. (1, ''abcd'')) (\<lambda>p. \<lparr>sys_socket = int p + 3, make_nonblocking = 0, sys_fcntl = 0, sys_bind = \<lambda>_. 0\<rparr>) (port_list [53, 5353])
      (udp_Server_new kRoundRobin, [])) (\<lambda>(ok, s, fds'). ok \<and>
    fds' = [] @ map (\<lambda>p. sys_socket \<lparr>sys_socket = int p + 3, make_nonblocking = 0, sys_fcntl = 0, sys_bind = \<lambda>_. 0\<rparr>) [53, 5353] \<and>
    map rt_port (recv_threads s) = map int [53, 5353] \<and>
    map rt_fd (recv_threads s) = map (\<lambda>p. sys_socket \<lparr>sys_socket = int p + 3, make_nonblocking = 0, sys_fcntl = 0, sys_bind = \<lambda>_. 0\<rparr>) [53, 5353])"
  by (rule Server_Init_listens) (simp_all add: can_bind_def)

end
