(* ===== verification/Udp_Client.thy ===== *)
theory Udp_Client
  imports Udp_Server_Props
begin

text \<open>
  The blocking UDP client (src/udp/sync_udp_client.cpp). The results of system calls are arguments; the descriptors the client closes are
  logged.
\<close>

section \<open>The client\<close>

record udp_Client =
  cl_sockfd :: int
  cl_connected :: bool
  cl_remote :: sockaddr_storage
  cl_closes :: "int list"

text \<open>What the system answers: the new socket, whether \<^verbatim>\<open>connect\<close> succeeds, the counts \<^verbatim>\<open>send\<close> and \<^verbatim>\<open>sendto\<close> return, and what is
  received.\<close>

record udp_sys =
  sys_new :: int
  sys_connect_to :: "sockaddr_storage \<Rightarrow> int"
  sys_send :: "byte list \<Rightarrow> int"
  sys_sendto :: "byte list \<Rightarrow> sockaddr_storage \<Rightarrow> int"
  sys_recv :: "recv_answer"

definition UdpClient_new :: udp_Client where
  "UdpClient_new = \<lparr>cl_sockfd = INVALID_SOCKET, cl_connected = False, cl_remote = zero_addr, cl_closes = []\<rparr>"

definition UdpClient_Close :: "udp_Client \<Rightarrow> udp_Client" where
  "UdpClient_Close c = c\<lparr>cl_closes := cl_closes c @ [cl_sockfd c]\<rparr>"

definition UdpClient_delete :: "udp_Client \<Rightarrow> udp_Client" where
  "UdpClient_delete c = UdpClient_Close c"

definition UdpClient_Connect :: "udp_sys \<Rightarrow> udp_Client \<Rightarrow> bool \<times> udp_Client" where
  "UdpClient_Connect k c =
     (let c1 = c\<lparr>cl_sockfd := sys_new k\<rparr> in
      if sys_connect_to k (cl_remote c1) \<noteq> 0 then (False, UdpClient_Close c1) else (True, c1\<lparr>cl_connected := True\<rparr>))"

text \<open>The overloads for \<^verbatim>\<open>sockaddr_storage\<close>, \<^verbatim>\<open>sockaddr_in\<close> and \<^verbatim>\<open>sockaddr\<close> copy \<^verbatim>\<open>sizeof(remote_addr_)\<close> bytes, 128, from objects of 128, 16 and 16
  bytes.\<close>

definition copy_addr :: "sockaddr_storage \<Rightarrow> udp_Client \<Rightarrow> udp_Client result" where
  "copy_addr addr c = (if length addr < 128 then Inl OutOfBounds else Inr (c\<lparr>cl_remote := take 128 addr\<rparr>))"

definition UdpClient_Connect_storage :: "udp_sys \<Rightarrow> sockaddr_storage \<Rightarrow> udp_Client \<Rightarrow> (bool \<times> udp_Client) result" where
  "UdpClient_Connect_storage k addr c = ebind (copy_addr addr c) (\<lambda>c1. Inr (UdpClient_Connect k c1))"

definition UdpClient_Connect_in :: "udp_sys \<Rightarrow> sockaddr_storage \<Rightarrow> udp_Client \<Rightarrow> (bool \<times> udp_Client) result" where
  "UdpClient_Connect_in k addr c = ebind (copy_addr addr c) (\<lambda>c1. Inr (UdpClient_Connect k c1))"

definition UdpClient_Connect_sockaddr :: "udp_sys \<Rightarrow> sockaddr_storage \<Rightarrow> udp_Client \<Rightarrow> (bool \<times> udp_Client) result" where
  "UdpClient_Connect_sockaddr k addr c = ebind (copy_addr addr c) (\<lambda>c1. Inr (UdpClient_Connect k c1))"

definition UdpClient_Connect_text ::
  "(16 word \<Rightarrow> string \<Rightarrow> int \<times> byte list) \<Rightarrow> udp_sys \<Rightarrow> string \<Rightarrow> udp_Client \<Rightarrow> (bool \<times> udp_Client) result" where
  "UdpClient_Connect_text pton k addr c = ebind (ParseFromIPPort_value pton addr) (\<lambda>ss. Inr (UdpClient_Connect k (c\<lparr>cl_remote := ss\<rparr>)))"

text \<open>\<^verbatim>\<open>snprintf\<close> with a buffer of 32 bytes keeps 31 characters.\<close>

definition int_string :: "int \<Rightarrow> string" where
  "int_string p = (if p < 0 then ''-'' @ to_string (nat (- p)) else to_string (nat p))"

definition UdpClient_Connect_host ::
  "(16 word \<Rightarrow> string \<Rightarrow> int \<times> byte list) \<Rightarrow> udp_sys \<Rightarrow> string \<Rightarrow> int \<Rightarrow> udp_Client \<Rightarrow> (bool \<times> udp_Client) result" where
  "UdpClient_Connect_host pton k host port c = UdpClient_Connect_text pton k (take 31 (host @ '':'' @ int_string port)) c"

definition UdpClient_Send :: "udp_sys \<Rightarrow> byte list \<Rightarrow> udp_Client \<Rightarrow> bool" where
  "UdpClient_Send k msg c =
     (if cl_connected c then (word_of_int (sys_send k msg) :: size_t) = of_nat (length msg)
      else sys_sendto k msg (cl_remote c) > 0)"

text \<open>The static functions: a client of their own, which is destroyed at the end.\<close>

definition UdpClient_Send_to :: "udp_sys \<Rightarrow> byte list \<Rightarrow> sockaddr_storage \<Rightarrow> (bool \<times> udp_Client) result" where
  "UdpClient_Send_to k msg addr =
     ebind (UdpClient_Connect_in k addr UdpClient_new) (\<lambda>(ok, c). Inr (ok \<and> UdpClient_Send k msg c, UdpClient_delete c))"

definition UdpClient_Send_message :: "udp_sys \<Rightarrow> Message \<Rightarrow> (bool \<times> udp_Client) result" where
  "UdpClient_Send_message k m = ebind (Buffer_ToSlice (msg_buf m)) (\<lambda>d. UdpClient_Send_to k d (msg_addr m))"

definition UdpClient_DoRequest :: "udp_sys \<Rightarrow> byte list \<Rightarrow> udp_Client \<Rightarrow> byte list result" where
  "UdpClient_DoRequest k data c =
     (if \<not> UdpClient_Send k data c then Inr []
      else
        case sys_recv k of
          Inl _ \<Rightarrow> ebind (Message_new (cl_sockfd c) 1472) (\<lambda>_. Inr [])
        | Inr d \<Rightarrow> ebind (recv_message 1472 (cl_sockfd c) d) (\<lambda>m. Buffer_ToString (msg_buf m)))"

definition UdpClient_DoRequest_to ::
  "(16 word \<Rightarrow> string \<Rightarrow> int \<times> byte list) \<Rightarrow> udp_sys \<Rightarrow> string \<Rightarrow> int \<Rightarrow> byte list \<Rightarrow> (byte list \<times> udp_Client) result" where
  "UdpClient_DoRequest_to pton k remote port data =
     ebind (UdpClient_Connect_host pton k remote port UdpClient_new) (\<lambda>(ok, c).
     if \<not> ok then Inr ([], UdpClient_delete c)
     else ebind (UdpClient_DoRequest k data c) (\<lambda>r. Inr (r, UdpClient_delete c)))"

section \<open>What a request returns\<close>

lemma Send_connected:
  assumes "cl_connected c" "length msg < 2 ^ 31" "-1 \<le> sys_send k msg" "sys_send k msg < 2 ^ 31"
  shows "UdpClient_Send k msg c \<longleftrightarrow> sys_send k msg = int (length msg)"
proof -
  have l: "uint (of_nat (length msg) :: size_t) = int (length msg)" using assms(2) by (simp add: take_bit_nat_eq_self unsigned_of_nat)
  have "uint (word_of_int (sys_send k msg) :: size_t) = sys_send k msg \<or> sys_send k msg = -1 \<and> uint (word_of_int (sys_send k msg) :: size_t) = 2 ^ 64 - 1"
  proof (cases "sys_send k msg = -1")
    case False
    then show ?thesis using assms(3,4) by (simp add: unsigned_of_int take_bit_int_eq_self)
  qed (simp add: unsigned_minus_1_eq_mask mask_eq_exp_minus_1)
  then show ?thesis using assms l by (auto simp: UdpClient_Send_def word_uint_eq_iff)
qed

text \<open>A request that is sent and answered returns the answer, cut off at 1472 bytes; everything else returns the empty string.\<close>

lemma DoRequest_answer:
  "UdpClient_DoRequest k data c =
     Inr (if UdpClient_Send k data c then (case sys_recv k of Inl _ \<Rightarrow> [] | Inr (reply, _) \<Rightarrow> take 1472 reply) else [])"
proof (cases "sys_recv k")
  case (Inl e)
  have "unat (1472 :: size_t) + unat kCheapPrependSize < 2 ^ 63" by (simp add: kCheapPrependSize_def)
  from Buffer_new_inv [OF this] show ?thesis using Inl by (auto simp: UdpClient_DoRequest_def Message_new_def)
next
  case (Inr d)
  obtain reply addr where d: "d = (reply, addr)" by fastforce
  have "yields (recv_message 1472 (cl_sockfd c) d) (\<lambda>m. Buffer_ToString (msg_buf m) = Inr (take 1472 reply))"
    unfolding d by (rule yields_mono [OF recv_message_ok]) (auto simp: Buffer_ToString_def Buffer_ToSlice_inv [unfolded Buffer_ToSlice_def])
  then show ?thesis using Inr d by (auto simp: UdpClient_DoRequest_def elim!: yieldsE)
qed

text \<open>A client whose connection fails closes its descriptor twice.\<close>

lemma failed_connect_closes_twice:
  assumes "sys_connect_to k ss \<noteq> 0" "ParseFromIPPort_value pton (take 31 (host @ '':'' @ int_string port)) = Inr ss"
  shows "yields (UdpClient_DoRequest_to pton k host port data) (\<lambda>(r, c). r = [] \<and> cl_closes c = [sys_new k, sys_new k])"
  using assms
  by (simp add: UdpClient_DoRequest_to_def UdpClient_Connect_host_def UdpClient_Connect_text_def UdpClient_Connect_def UdpClient_delete_def UdpClient_Close_def
      UdpClient_new_def)

text \<open>Answering a message through \<^verbatim>\<open>Client::Send\<close> reads beyond its address.\<close>

lemma Send_message_overreads:
  assumes "buf_inv (msg_buf m)" "length (msg_addr m) = 16"
  shows "UdpClient_Send_message k m = Inl OutOfBounds"
  using assms by (simp add: UdpClient_Send_message_def UdpClient_Send_to_def UdpClient_Connect_in_def copy_addr_def Buffer_ToSlice_inv)

end
