(* ===== verification/Http_Context.thy ===== *)
theory Http_Context
  imports Sockets
begin

text \<open>
  The context of a request to the evhttp based server (src/http/context.cpp, context.hpp): the URI, the client's address and the parameters of
  the query. A C string is the list of its characters; it ends with a NUL character that is not part of the list, and reading it is not reading outside
  it. URIs and keys hold no NUL character, as those evhttp hands over, so that \<^verbatim>\<open>strchr\<close> and the length agree on where the string ends.
\<close>

section \<open>C strings\<close>

definition char_at :: "string \<Rightarrow> nat \<Rightarrow> char result" where
  "char_at s i = (if i < length s then Inr (s ! i) else if i = length s then Inr (CHR 0x00) else Inl OutOfBounds)"

definition strchr :: "string \<Rightarrow> nat \<Rightarrow> char \<Rightarrow> nat option result" where
  "strchr s i c =
     (if i > length s then Inl OutOfBounds
      else let n = length (takeWhile (\<lambda>x. x \<noteq> c) (drop i s)) in Inr (if i + n < length s then Some (i + n) else None))"

section \<open>Parameters of the query\<close>

text \<open>The inner loop: the length of the common prefix of the key and of the string at \<open>p\<close>.\<close>

fun match_key :: "string \<Rightarrow> nat \<Rightarrow> string \<Rightarrow> nat result" where
  "match_key uri p [] = Inr 0"
| "match_key uri p (k # ks) = ebind (char_at uri p) (\<lambda>c. if c \<noteq> k then Inr 0 else ebind (match_key uri (Suc p) ks) (\<lambda>n. Inr (Suc n)))"

text \<open>The outer loop; \<open>p\<close> is the offset of a field.\<close>

function find_query :: "string \<Rightarrow> string \<Rightarrow> nat \<Rightarrow> string result" where
  "find_query uri key p =
     (if p < length uri then
        ebind (match_key uri p key) (\<lambda>index.
        ebind (if index = length key then char_at uri (p + length key) else Inr (CHR 0x00)) (\<lambda>c.
        if index = length key \<and> c = CHR ''='' then
          let v = p + length key + 1 in
          ebind (strchr uri v (CHR ''&'')) (\<lambda>e.
            case e of None \<Rightarrow> Inr (drop v uri) | Some q \<Rightarrow> Inr (take (q - v) (drop v uri)))
        else
          ebind (strchr uri (p + index) (CHR ''&'')) (\<lambda>e.
            case e of None \<Rightarrow> Inr [] | Some q \<Rightarrow> find_query uri key (q + 1))))
      else Inr [])"
  by pat_completeness auto
termination
  by (relation "measure (\<lambda>(uri, key, p). length uri - p)") (auto simp: strchr_def Let_def split: if_splits)

declare find_query.simps [simp del]

definition FindQueryFromURI :: "string \<Rightarrow> string \<Rightarrow> string result" where
  "FindQueryFromURI uri key =
     ebind (strchr uri 0 (CHR ''?'')) (\<lambda>start. case start of None \<Rightarrow> Inr [] | Some p \<Rightarrow> find_query uri key (p + 1))"

definition FindClientIPFromURI :: "string \<Rightarrow> string result" where
  "FindClientIPFromURI uri = FindQueryFromURI uri ''clientip''"

section \<open>The context\<close>

text \<open>An \<^verbatim>\<open>evhttp_request\<close> as evhttp hands it over; \<open>er_path\<close> is the path of the parsed URI.\<close>

record http_request_data =
  er_post :: bool
  er_uri :: string
  er_path :: string
  er_remote_host :: string
  er_input :: "byte list"
  er_in_headers :: "(string \<times> string) list"

text \<open>The request is identified by a number; \<open>cx_headers\<close> are the headers that were added to the reply.\<close>

record http_Context =
  cx_req :: nat
  cx_data :: http_request_data
  cx_uri :: string
  cx_remote_ip :: string
  cx_code :: int
  cx_body :: "byte list"
  cx_headers :: "(string \<times> string) list"

definition Context_new :: "nat \<Rightarrow> http_request_data \<Rightarrow> http_Context" where
  "Context_new req d = \<lparr>cx_req = req, cx_data = d, cx_uri = [], cx_remote_ip = [], cx_code = 200, cx_body = [], cx_headers = []\<rparr>"

definition original_uri :: "http_Context \<Rightarrow> string" where
  "original_uri c = er_uri (cx_data c)"

definition Context_Init :: "http_Context \<Rightarrow> http_Context result" where
  "Context_Init c =
     (let d = cx_data c;
          c1 = (if er_post d then (if er_input d \<noteq> [] then c\<lparr>cx_body := er_input d\<rparr> else c) else c);
          c2 = c1\<lparr>cx_uri := er_path d\<rparr> in
      ebind (FindClientIPFromURI (original_uri c2)) (\<lambda>ip.
        Inr (c2\<lparr>cx_remote_ip := if ip = [] then er_remote_host d else ip\<rparr>)))"

definition AddResponseHeader :: "string \<Rightarrow> string \<Rightarrow> http_Context \<Rightarrow> http_Context" where
  "AddResponseHeader key val c = c\<lparr>cx_headers := cx_headers c @ [(key, val)]\<rparr>"

text \<open>\<open>find_header\<close> is \<^verbatim>\<open>evhttp_find_header\<close>.\<close>

definition FindRequestHeader :: "((string \<times> string) list \<Rightarrow> string \<Rightarrow> string option) \<Rightarrow> string \<Rightarrow> http_Context \<Rightarrow> string option" where
  "FindRequestHeader find_header key c = find_header (er_in_headers (cx_data c)) key"

definition set_response_http_code :: "int \<Rightarrow> http_Context \<Rightarrow> http_Context" where
  "set_response_http_code code c = c\<lparr>cx_code := code\<rparr>"

definition GetQuery :: "string \<Rightarrow> http_Context \<Rightarrow> string result" where
  "GetQuery key c = FindQueryFromURI (original_uri c) key"

section \<open>The reference\<close>

text \<open>The fields of a query, separated by \<open>&\<close>; the first field \<open>key=value\<close> gives the value.\<close>

fun query_value :: "string \<Rightarrow> string list \<Rightarrow> string" where
  "query_value key [] = []"
| "query_value key (f # fs) =
     (if take (length key + 1) f = key @ ''='' then drop (length key + 1) f else query_value key fs)"

definition query_of :: "string \<Rightarrow> string option" where
  "query_of uri = (case dropWhile (\<lambda>c. c \<noteq> CHR ''?'') uri of [] \<Rightarrow> None | _ # q \<Rightarrow> Some q)"

lemma strchr_none:
  assumes "i \<le> length s" "c \<notin> set (drop i s)"
  shows "strchr s i c = Inr None"
proof -
  have "takeWhile (\<lambda>x. x \<noteq> c) (drop i s) = drop i s" using assms(2) by (auto simp: takeWhile_eq_all_conv)
  then have "length (takeWhile (\<lambda>x. x \<noteq> c) (drop i s)) = length s - i" by (metis length_drop)
  then show ?thesis using assms(1) by (simp add: strchr_def Let_def del: takeWhile_eq_all_conv)
qed

lemma strchr_some:
  assumes "i \<le> length s" "drop i s = f @ c # rest" "c \<notin> set f"
  shows "strchr s i c = Inr (Some (i + length f))"
proof -
  have "takeWhile (\<lambda>x. x \<noteq> c) (drop i s) = f" using assms(2,3) by (simp add: takeWhile_append)
  moreover have "i + length f < length s" using arg_cong [OF assms(2), of length] assms(1) by simp
  ultimately show ?thesis using assms(1) by (simp add: strchr_def Let_def)
qed

lemma match_key_prefix:
  assumes "p \<le> length uri" "CHR 0x00 \<notin> set key"
  shows "\<exists>n. match_key uri p key = Inr n \<and> n \<le> length key \<and> p + n \<le> length uri \<and> take n (drop p uri) = take n key \<and>
    (n < length key \<longrightarrow> take (Suc n) (drop p uri) \<noteq> take (Suc n) key)"
  using assms
proof (induction key arbitrary: p)
  case (Cons k ks)
  show ?case
  proof (cases "p < length uri \<and> uri ! p = k")
    case True
    then obtain n where n: "match_key uri (Suc p) ks = Inr n" "n \<le> length ks" "Suc p + n \<le> length uri" "take n (drop (Suc p) uri) = take n ks"
        "n < length ks \<longrightarrow> take (Suc n) (drop (Suc p) uri) \<noteq> take (Suc n) ks"
      using Cons.IH [of "Suc p"] Cons.prems(2) by auto
    have d: "drop p uri = k # drop (Suc p) uri" using True by (metis Cons_nth_drop_Suc)
    show ?thesis using True n by (intro exI [of _ "Suc n"]) (simp add: char_at_def d)
  next
    case False
    then have "match_key uri p (k # ks) = Inr 0" using Cons.prems by (auto simp: char_at_def)
    moreover have "take 1 (drop p uri) \<noteq> [k]" using False by (cases "drop p uri") (auto simp: nth_via_drop drop_eq_Nil)
    ultimately show ?thesis using Cons.prems(1) by auto
  qed
qed simp

text \<open>Within a string that starts with a field, the key is found where it is found in the field.\<close>

lemma take_field:
  assumes "CHR ''&'' \<notin> set (key @ ''='')" "s = f \<or> (\<exists>rest. s = f @ CHR ''&'' # rest)"
  shows "take (length key + 1) s = key @ ''='' \<longleftrightarrow> take (length key + 1) f = key @ ''=''"
proof (cases "length key + 1 \<le> length f")
  case False
  have "take (length key + 1) s \<noteq> key @ ''=''" if "s = f @ CHR ''&'' # rest" for rest
  proof
    assume e: "take (length key + 1) s = key @ ''=''"
    have "CHR ''&'' \<in> set (take (length key + 1) s)" using that False by (auto simp: take_Cons')
    then show False using e assms(1) by simp
  qed
  moreover have "take (length key + 1) f \<noteq> key @ ''=''" using False by (auto dest: arg_cong [where f = length])
  ultimately show ?thesis using assms(2) by blast
qed (use assms(2) in auto)

lemma key_hit:
  assumes "p < length uri" "n \<le> length key" "take n (drop p uri) = take n key" "n < length key \<longrightarrow> take (Suc n) (drop p uri) \<noteq> take (Suc n) key"
    "p + n \<le> length uri"
  shows "n = length key \<and> char_at uri (p + length key) = Inr (CHR ''='') \<longleftrightarrow> take (length key + 1) (drop p uri) = key @ ''=''"
proof (cases "n = length key")
  case True
  show ?thesis
  proof (cases "p + length key < length uri")
    case lt: True
    then have "take (length key + 1) (drop p uri) = key @ [uri ! (p + length key)]"
      using assms(3) True by (simp add: take_Suc_conv_app_nth)
    then show ?thesis using True lt by (simp add: char_at_def)
  next
    case False
    then have "length (drop p uri) = length key" using True assms(5) by simp
    then have "take (length key + 1) (drop p uri) \<noteq> key @ ''=''" by (auto dest: arg_cong [where f = length])
    then show ?thesis using False by (simp add: char_at_def)
  qed
next
  case False
  then have ne: "take (Suc n) (drop p uri) \<noteq> take (Suc n) key" using assms(2,4) by simp
  have "take (length key + 1) (drop p uri) \<noteq> key @ ''=''"
  proof
    assume "take (length key + 1) (drop p uri) = key @ ''=''"
    from arg_cong [OF this, of "take (Suc n)"] show False using ne False assms(2) by (simp add: min_def)
  qed
  then show ?thesis using False by simp
qed

lemma find_query_fields:
  assumes "CHR 0x00 \<notin> set key" "CHR ''&'' \<notin> set key" "p \<le> length uri"
  shows "find_query uri key p = Inr (query_value key (split_fields ''&'' (drop p uri)))"
  using assms(3)
proof (induction "length uri - p" arbitrary: p rule: less_induct)
  case less
  show ?case
  proof (cases "p < length uri")
    case True
    obtain n where n: "match_key uri p key = Inr n" "n \<le> length key" "p + n \<le> length uri" "take n (drop p uri) = take n key"
        "n < length key \<longrightarrow> take (Suc n) (drop p uri) \<noteq> take (Suc n) key"
      using match_key_prefix [OF less.prems assms(1)] by blast
    let ?l = "length key"
    have "\<exists>c. (if n = ?l then char_at uri (p + ?l) else Inr (CHR 0x00)) = Inr c" using n(3) by (simp add: char_at_def)
    then obtain c where c: "(if n = ?l then char_at uri (p + ?l) else Inr (CHR 0x00)) = Inr c" by blast
    have hit: "n = ?l \<and> c = CHR ''='' \<longleftrightarrow> take (?l + 1) (drop p uri) = key @ ''=''"
      using key_hit [OF True n(2,4,5,3)] c by auto
    have fq: "find_query uri key p = (if n = ?l \<and> c = CHR ''='' then
          ebind (strchr uri (p + ?l + 1) (CHR ''&'')) (\<lambda>e. case e of None \<Rightarrow> Inr (drop (p + ?l + 1) uri) | Some q \<Rightarrow> Inr (take (q - (p + ?l + 1)) (drop (p + ?l + 1) uri)))
        else ebind (strchr uri (p + n) (CHR ''&'')) (\<lambda>e. case e of None \<Rightarrow> Inr [] | Some q \<Rightarrow> find_query uri key (q + 1)))"
      by (subst find_query.simps) (simp only: True if_True n(1) c ebind_simps Let_def)
    have amp: "CHR ''&'' \<notin> set (key @ ''='')" "CHR ''&'' \<notin> set (take n key)" using assms(2) in_set_takeD by fastforce+
    have vle: "p + ?l + 1 \<le> length uri" if "take (?l + 1) (drop p uri) = key @ ''=''"
      using arg_cong [OF that, of length] True by simp
    show ?thesis
    proof (cases "CHR ''&'' \<in> set (drop p uri)")
      case False
      then have sf: "split_fields ''&'' (drop p uri) = [drop p uri]" by (intro fields_split(2)) auto
      have none: "strchr uri i (CHR ''&'') = Inr None" if "p \<le> i" "i \<le> length uri" for i
        using False that by (intro strchr_none) (auto dest: set_drop_subset_set_drop [THEN subsetD])
      show ?thesis using fq hit vle none [of "p + ?l + 1"] none [OF _ n(3)] sf
        by (auto simp: add.commute add.left_commute)
    next
      case True
      then obtain f rest where f: "drop p uri = f @ CHR ''&'' # rest" "CHR ''&'' \<notin> set f" using split_list_first by metis
      have sf: "split_fields ''&'' (drop p uri) = f # split_fields ''&'' rest" unfolding f(1) using f(2) by (intro fields_split(1)) auto
      have at: "strchr uri (p + i) (CHR ''&'') = Inr (Some (p + length f))" "drop (p + i) uri = drop i f @ CHR ''&'' # rest" if "i \<le> length f" for i
      proof -
        show d: "drop (p + i) uri = drop i f @ CHR ''&'' # rest" using that by (simp add: add.commute [of p] drop_drop [symmetric] f(1) del: drop_drop)
        have "p + i \<le> length uri" using arg_cong [OF f(1), of length] that by simp
        from strchr_some [OF this d] show "strchr uri (p + i) (CHR ''&'') = Inr (Some (p + length f))" using f(2) that in_set_dropD by fastforce
      qed
      have tf: "take (?l + 1) (drop p uri) = key @ ''='' \<longleftrightarrow> take (?l + 1) f = key @ ''=''" using take_field [OF amp(1)] f(1) by blast
      show ?thesis
      proof (cases "n = ?l \<and> c = CHR ''=''")
        case True
        then have t: "take (?l + 1) f = key @ ''=''" using hit tf by simp
        have "?l + 1 \<le> length f" using arg_cong [OF t, of length] by simp
        then show ?thesis using fq True at [of "?l + 1"] sf t by (simp add: add.assoc)
      next
        case False
        have "n \<le> length f"
        proof (rule ccontr)
          assume "\<not> n \<le> length f"
          then have "CHR ''&'' \<in> set (take n (drop p uri))" unfolding f(1) by (auto simp: take_Cons')
          then show False using n(4) amp(2) by simp
        qed
        then have "find_query uri key p = find_query uri key (p + length f + 1)" using fq False at(1) [of n] by simp
        also have "\<dots> = Inr (query_value key (split_fields ''&'' (drop (p + length f + 1) uri)))"
          using arg_cong [OF f(1), of length] \<open>p < length uri\<close> by (intro less.hyps) auto
        also have "drop (p + length f + 1) uri = rest" 
          using at(2) [of "length f"] drop_drop [of 1 "p + length f" uri] by simp
        finally show ?thesis using sf False hit tf by simp
      qed
    qed
  qed (use less.prems in \<open>simp add: find_query.simps\<close>)
qed

lemma FindQuery_value:
  assumes "CHR 0x00 \<notin> set key" "CHR ''&'' \<notin> set key"
  shows "FindQueryFromURI uri key = Inr (case query_of uri of None \<Rightarrow> [] | Some q \<Rightarrow> query_value key (split_fields ''&'' q))"
proof (cases "CHR ''?'' \<in> set uri")
  case False
  then have d: "dropWhile (\<lambda>c. c \<noteq> CHR ''?'') uri = []" by (induction uri) auto
  have "query_of uri = None" unfolding query_of_def d by simp
  then show ?thesis using strchr_none [of 0 uri "CHR ''?''"] False by (simp add: FindQueryFromURI_def)
next
  case True
  then obtain a q where a: "uri = a @ CHR ''?'' # q" "CHR ''?'' \<notin> set a" using split_list_first by metis
  have "strchr uri 0 (CHR ''?'') = Inr (Some (length a))" using strchr_some [of 0 uri a "CHR ''?''" q] a by simp
  moreover have "dropWhile (\<lambda>c. c \<noteq> CHR ''?'') uri = CHR ''?'' # q" unfolding a(1) using a(2) by (induction a) auto
  then have "query_of uri = Some q" by (simp add: query_of_def)
  moreover have "drop (length a + 1) uri = q" "length a + 1 \<le> length uri" using a(1) by simp_all
  ultimately show ?thesis using \<open>query_of uri = Some q\<close> find_query_fields [OF assms, of "length a + 1" uri] by (simp add: FindQueryFromURI_def)
qed

text \<open>C35. \<^verbatim>\<open>FindQueryFromURI\<close> reads no byte outside the URI and returns the value of the first field \<open>key=value\<close> of the query, or the
  empty string.\<close>

theorem FindQueryFromURI_first:
  assumes "CHR 0x00 \<notin> set key" "CHR ''&'' \<notin> set key"
  shows "FindQueryFromURI uri key = Inr (case query_of uri of None \<Rightarrow> [] | Some q \<Rightarrow> query_value key (split_fields ''&'' q))"
  by (rule FindQuery_value [OF assms])

theorem FindQueryFromURI_first_witness:
  "FindQueryFromURI ''/get?aclientip=1&clientip=10.0.0.1&x=2'' ''clientip'' = Inr ''10.0.0.1''"
  using FindQueryFromURI_first [of "''clientip''" "''/get?aclientip=1&clientip=10.0.0.1&x=2''"] by (simp add: query_of_def)

text \<open>A client can name any address it likes: the parameter \<^verbatim>\<open>clientip\<close> is preferred to the address of the connection.\<close>

lemma Context_Init_ip:
  "Context_Init (Context_new req d) = Inr \<lparr>cx_req = req, cx_data = d, cx_uri = er_path d,
     cx_remote_ip = (case query_of (er_uri d) of None \<Rightarrow> er_remote_host d
       | Some q \<Rightarrow> let ip = query_value ''clientip'' (split_fields ''&'' q) in if ip = [] then er_remote_host d else ip),
     cx_code = 200, cx_body = (if er_post d then er_input d else []), cx_headers = []\<rparr>"
  by (auto simp: Context_Init_def Context_new_def original_uri_def FindClientIPFromURI_def FindQuery_value Let_def split: option.splits)

end
