(* ===== verification/Evhttp_Service.thy ===== *)
theory Evhttp_Service
  imports Http_Context "HOL-Library.AList"
begin

text \<open>
  The service of the evhttp based HTTP server (src/http/service.cpp), in the build without SSL: a port that is listened on in one loop, the handlers
  registered for paths, and the replies. evhttp is a library; what it is asked to send is the result of the functions here. Handlers of
  the application are numbered.
\<close>

section \<open>Status codes\<close>

definition kMaxHTTPCode :: int where
  "kMaxHTTPCode = 1000"

text \<open>The table after \<^verbatim>\<open>InitHTTPCodeString\<close>, which has \<^verbatim>\<open>kMaxHTTPCode\<close> + 1 entries.\<close>

definition http_code_string :: "int \<Rightarrow> string result" where
  "http_code_string c =
     (if c < 0 \<or> c > kMaxHTTPCode then Inl OutOfBounds
      else Inr (if c = 200 then ''OK'' else if c = 302 then ''Found'' else if c = 400 then ''Bad Request'' else if c = 404 then ''Not Found'' else ''XX''))"

definition HTTP_BADREQUEST :: int where "HTTP_BADREQUEST = 400"
definition HTTP_NOTFOUND :: int where "HTTP_NOTFOUND = 404"

section \<open>The service\<close>

text \<open>\<open>hs_accepts\<close> tells whether the listener of the bound socket is enabled, \<open>hs_gencb\<close> whether evhttp calls the service for
  requests.\<close>

record http_Service =
  hs_port :: int
  hs_evhttp :: bool
  hs_bound :: bool
  hs_accepts :: bool
  hs_gencb :: bool
  hs_callbacks :: "(string \<times> nat) list"
  hs_default :: "nat option"

text \<open>\<open>avail\<close>: \<^verbatim>\<open>evhttp_new\<close> succeeds.\<close>

definition http_Service_new :: "bool \<Rightarrow> http_Service" where
  "http_Service_new avail =
     \<lparr>hs_port = 0, hs_evhttp = avail, hs_bound = False, hs_accepts = False, hs_gencb = False, hs_callbacks = [], hs_default = None\<rparr>"

definition http_Service_delete :: "http_Service \<Rightarrow> unit result" where
  "http_Service_delete s = asserting (\<not> hs_evhttp s) (asserting (\<not> hs_bound s) (Inr ()))"

text \<open>\<open>here\<close>: the caller is in the thread of the listening loop. \<open>bound\<close>: the port can be bound.\<close>

definition http_Listen :: "bool \<Rightarrow> bool \<Rightarrow> int \<Rightarrow> http_Service \<Rightarrow> (bool \<times> http_Service) result" where
  "http_Listen here bound listen_port s =
     asserting (hs_evhttp s) (asserting here (
     let s1 = s\<lparr>hs_port := listen_port, hs_bound := bound, hs_accepts := bound\<rparr> in
     if \<not> bound then Inr (False, s1) else Inr (True, s1\<lparr>hs_gencb := True\<rparr>)))"

definition http_Stop :: "bool \<Rightarrow> http_Service \<Rightarrow> http_Service result" where
  "http_Stop here s =
     asserting here (
     let s1 = (if hs_evhttp s then s\<lparr>hs_evhttp := False, hs_bound := False, hs_accepts := False, hs_gencb := False\<rparr> else s) in
     Inr (s1\<lparr>hs_callbacks := [], hs_default := None\<rparr>))"

definition http_Pause :: "bool \<Rightarrow> http_Service \<Rightarrow> http_Service result" where
  "http_Pause here s = asserting here (Inr (if hs_bound s then s\<lparr>hs_accepts := False\<rparr> else s))"

definition http_Continue :: "bool \<Rightarrow> http_Service \<Rightarrow> http_Service result" where
  "http_Continue here s = asserting here (Inr (if hs_bound s then s\<lparr>hs_accepts := True\<rparr> else s))"

definition http_RegisterHandler :: "string \<Rightarrow> nat \<Rightarrow> http_Service \<Rightarrow> http_Service" where
  "http_RegisterHandler uri cb s = s\<lparr>hs_callbacks := AList.update uri cb (hs_callbacks s)\<rparr>"

definition http_RegisterDefaultHandler :: "nat \<Rightarrow> http_Service \<Rightarrow> http_Service" where
  "http_RegisterDefaultHandler cb s = s\<lparr>hs_default := Some cb\<rparr>"

section \<open>Requests and replies\<close>

text \<open>A call of \<^verbatim>\<open>evhttp_send_reply\<close>.\<close>

record http_reply =
  hr_req :: nat
  hr_code :: int
  hr_reason :: string
  hr_body :: "string option"

datatype http_action = CallHandler nat http_Context | SendNow http_reply

definition DefaultHandleRequest :: "http_Context \<Rightarrow> http_Service \<Rightarrow> http_action result" where
  "DefaultHandleRequest ctx s =
     (case hs_default s of
        Some cb \<Rightarrow> Inr (CallHandler cb ctx)
      | None \<Rightarrow> ebind (http_code_string HTTP_BADREQUEST) (\<lambda>reason.
          Inr (SendNow \<lparr>hr_req = cx_req ctx, hr_code = HTTP_BADREQUEST, hr_reason = reason, hr_body = None\<rparr>)))"

definition http_HandleRequest :: "bool \<Rightarrow> nat \<Rightarrow> http_request_data \<Rightarrow> http_Service \<Rightarrow> http_action result" where
  "http_HandleRequest here req d s =
     asserting here (
     ebind (Context_Init (Context_new req d)) (\<lambda>ctx.
     if hs_callbacks s = [] then DefaultHandleRequest ctx s
     else
       case map_of (hs_callbacks s) (cx_uri ctx) of
         Some cb \<Rightarrow> Inr (CallHandler cb ctx)
       | None \<Rightarrow> DefaultHandleRequest ctx s))"

text \<open>The functor that \<^verbatim>\<open>SendReply\<close> hands to the listening loop; \<open>code\<close> is what the context holds by then. The buffer exists unless the response is empty.\<close>

definition reply_functor :: "bool \<Rightarrow> nat \<Rightarrow> int \<Rightarrow> string \<Rightarrow> http_Service \<Rightarrow> http_reply option result" where
  "reply_functor here req code data s =
     asserting here (
     if \<not> hs_evhttp s then Inr None
     else if data = [] then
       ebind (http_code_string HTTP_NOTFOUND) (\<lambda>reason. Inr (Some \<lparr>hr_req = req, hr_code = HTTP_NOTFOUND, hr_reason = reason, hr_body = None\<rparr>))
     else
       asserting (code \<le> kMaxHTTPCode) (asserting (code \<ge> 100) (
       ebind (http_code_string code) (\<lambda>reason. Inr (Some \<lparr>hr_req = req, hr_code = code, hr_reason = reason, hr_body = Some data\<rparr>)))))"

section \<open>Routing\<close>

text \<open>The handler of a path.\<close>

definition route :: "http_Service \<Rightarrow> string \<Rightarrow> nat option" where
  "route s path = (case map_of (hs_callbacks s) path of Some cb \<Rightarrow> Some cb | None \<Rightarrow> hs_default s)"

definition context_of :: "nat \<Rightarrow> http_request_data \<Rightarrow> http_Context" where
  "context_of req d = \<lparr>cx_req = req, cx_data = d, cx_uri = er_path d,
     cx_remote_ip = (case query_of (er_uri d) of None \<Rightarrow> er_remote_host d
       | Some q \<Rightarrow> let ip = query_value ''clientip'' (split_fields ''&'' q) in if ip = [] then er_remote_host d else ip),
     cx_code = 200, cx_body = (if er_post d then er_input d else []), cx_headers = []\<rparr>"

definition bad_request :: "nat \<Rightarrow> http_reply" where
  "bad_request req = \<lparr>hr_req = req, hr_code = 400, hr_reason = ''Bad Request'', hr_body = None\<rparr>"

lemma HandleRequest_routes:
  "http_HandleRequest True req d s =
     Inr (case route s (er_path d) of Some cb \<Rightarrow> CallHandler cb (context_of req d) | None \<Rightarrow> SendNow (bad_request req))"
  by (auto simp: http_HandleRequest_def Context_Init_ip context_of_def DefaultHandleRequest_def route_def http_code_string_def HTTP_BADREQUEST_def
      kMaxHTTPCode_def bad_request_def split: option.splits)

lemma reply_functor_sends:
  assumes "hs_evhttp s" "data \<noteq> [] \<longrightarrow> 100 \<le> code \<and> code \<le> 1000"
  shows "\<exists>reason. reply_functor True req code data s =
    Inr (Some \<lparr>hr_req = req, hr_code = if data = [] then 404 else code, hr_reason = reason, hr_body = if data = [] then None else Some data\<rparr>)"
  using assms by (auto simp: reply_functor_def http_code_string_def HTTP_NOTFOUND_def kMaxHTTPCode_def)

text \<open>The handler that was registered last for a path gets the requests for it, and no other path is affected.\<close>

lemma RegisterHandler_routes: "route (http_RegisterHandler uri cb s) path = (if path = uri then Some cb else route s path)"
  by (simp add: route_def http_RegisterHandler_def update_conv split: option.splits)

end
