(* ===== verification/Evhttp_Server.thy ===== *)
theory Evhttp_Server
  imports Evhttp_Service Udp_Server
begin

text \<open>
  The evhttp based HTTP server (src/http/http_server.cpp): a listening thread with a \<open>http_Service\<close> for each port and a pool of workers that call the
  application. Requests move from a listening thread to a worker's queue and replies back to the listening thread's queue. The thread
  that owns the server, the listening threads and the workers interleave; a listening thread can be interrupted inside \<^verbatim>\<open>Dispatch\<close>, between the test of
  the server's status and the use of the pool. Of loops only the status and the queue of functors matter: a loop that was told to stop runs
  what is queued and ends. The pool of workers is the one of \<open>Loop_Pool\<close>, whose starting and stopping are single steps here.
\<close>

section \<open>State\<close>

text \<open>Functors queued to a listening loop: a reply, \<^verbatim>\<open>Service::Pause\<close>, \<^verbatim>\<open>Service::Continue\<close>, and the functor of \<^verbatim>\<open>Server::Stop\<close>, which pauses and
  counts.\<close>

datatype listen_task = TReply nat string | TPause | TContinue | TStopPause

text \<open>A functor queued to a worker: the listening thread the request came from, its context and the handler.\<close>

datatype worker_task = Job nat http_Context nat

text \<open>What the owner still has to do.\<close>

datatype http_pc =
    HStart | HStartPool | HStartListen nat | HRegister nat | HWaitRunning
  | HStop | HPauseListen nat | HWaitPaused | HStopPool | HWaitPool | HStopListen nat | HWaitListen nat | HFinish
  | HPause nat | HContinue nat | HDelete

text \<open>\<open>h_loops\<close> are the statuses of the listening loops, \<open>h_busy\<close> the requests inside \<^verbatim>\<open>Dispatch\<close>, \<open>h_lq\<close> and \<open>h_wq\<close> the queues, \<open>h_wdone\<close> the workers that have
  exited, \<open>h_paused\<close> the listening threads that have counted themselves in \<^verbatim>\<open>Stop\<close>. Requests are numbered in the order in which they arrive;
  \<open>h_code\<close> is \<^verbatim>\<open>response_http_code_\<close> of their contexts. \<open>h_replies\<close> are the replies sent, \<open>h_lost\<close> the requests the server dropped
  without a reply, \<open>h_silent\<close> those the application did not respond to.\<close>

record http_Server =
  h_status :: server_status
  h_sub :: sub_status
  h_services :: "http_Service list"
  h_loops :: "server_status list"
  h_busy :: "(http_Context \<times> nat) option list"
  h_pool :: "EventLoopThreadPool option"
  h_policy :: Policy
  h_callbacks :: "(string \<times> nat) list"
  h_default :: "nat option"
  h_lq :: "listen_task list list"
  h_wq :: "worker_task list list"
  h_wdone :: "bool list"
  h_paused :: "nat list"
  h_reqs :: "http_request_data list"
  h_code :: "nat \<Rightarrow> int"
  h_replies :: "http_reply list"
  h_lost :: "nat list"
  h_silent :: "nat list"
  h_owner :: "http_pc list"

definition http_Server_new :: "nat \<Rightarrow> Policy \<Rightarrow> http_Server" where
  "http_Server_new n policy =
     \<lparr>h_status = kNull, h_sub = kSubStatusNull, h_services = [], h_loops = [], h_busy = [], h_pool = Some (Pool_new n []), h_policy = policy,
      h_callbacks = [], h_default = None, h_lq = [], h_wq = replicate n [], h_wdone = replicate n False, h_paused = [], h_reqs = [],
      h_code = (\<lambda>_. 200), h_replies = [], h_lost = [], h_silent = [], h_owner = []\<rparr>"

section \<open>Initialisation\<close>

text \<open>\<open>avail\<close> and \<open>bound\<close>: evhttp can be created, the port can be bound. \<^verbatim>\<open>Listen\<close> is called in the thread that made the loop.\<close>

definition HttpServer_Init_port :: "bool \<Rightarrow> (nat \<Rightarrow> bool) \<Rightarrow> nat \<Rightarrow> http_Server \<Rightarrow> (bool \<times> http_Server) result" where
  "HttpServer_Init_port avail bound port s =
     (let s1 = s\<lparr>h_status := kInitializing\<rparr> in
      ebind (http_Listen True (bound port) (int port) (http_Service_new avail)) (\<lambda>(ok, sv).
      if \<not> ok then ebind (http_Stop True sv) (\<lambda>sv1. ebind (http_Service_delete sv1) (\<lambda>_. Inr (False, s1)))
      else Inr (True, s1\<lparr>h_services := h_services s1 @ [sv], h_loops := h_loops s1 @ [kInitialized], h_busy := h_busy s1 @ [None],
        h_lq := h_lq s1 @ [[]], h_status := kInitialized\<rparr>)))"

fun init_each :: "bool \<Rightarrow> (nat \<Rightarrow> bool) \<Rightarrow> nat list \<Rightarrow> http_Server \<Rightarrow> (bool \<times> http_Server) result" where
  "init_each avail bound [] s = Inr (True, s)"
| "init_each avail bound (p # ps) s =
     ebind (HttpServer_Init_port avail bound p s) (\<lambda>(ok, s1). if ok then init_each avail bound ps s1 else Inr (False, s1))"

definition HttpServer_Init_ports :: "bool \<Rightarrow> (nat \<Rightarrow> bool) \<Rightarrow> nat list \<Rightarrow> http_Server \<Rightarrow> (bool \<times> http_Server) result" where
  "HttpServer_Init_ports avail bound ps s =
     ebind (init_each avail bound ps (s\<lparr>h_status := kInitializing\<rparr>)) (\<lambda>(rc, s1).
       Inr (rc, s1\<lparr>h_status := if rc then kInitialized else kInitializing\<rparr>))"

definition HttpServer_Init :: "bool \<Rightarrow> (nat \<Rightarrow> bool) \<Rightarrow> string \<Rightarrow> http_Server \<Rightarrow> (bool \<times> http_Server) result" where
  "HttpServer_Init avail bound listen_ports s =
     (let s1 = s\<lparr>h_status := kInitializing\<rparr> in
      ebind (convert_ports (StringSplit listen_ports '','' 0 [])) (\<lambda>v.
      case v of
        None \<Rightarrow> Inr (False, s1)
      | Some ps \<Rightarrow> ebind (HttpServer_Init_ports avail bound ps s1) (\<lambda>(rc, s2).
          Inr (rc, s2\<lparr>h_status := if rc then kInitialized else kInitializing\<rparr>))))"

definition HttpServer_RegisterHandler :: "string \<Rightarrow> nat \<Rightarrow> http_Server \<Rightarrow> http_Server result" where
  "HttpServer_RegisterHandler uri cb s =
     asserting (h_status s \<noteq> kRunning) (Inr (s\<lparr>h_callbacks := AList.update uri cb (h_callbacks s)\<rparr>))"

definition HttpServer_RegisterDefaultHandler :: "nat \<Rightarrow> http_Server \<Rightarrow> http_Server result" where
  "HttpServer_RegisterDefaultHandler cb s = asserting (h_status s \<noteq> kRunning) (Inr (s\<lparr>h_default := Some cb\<rparr>))"

text \<open>\<^verbatim>\<open>service\<close>: the index is an \<^verbatim>\<open>int\<close> that is only tested from above; \<open>None\<close> is the null pointer.\<close>

definition HttpServer_service :: "int \<Rightarrow> http_Server \<Rightarrow> nat option result" where
  "HttpServer_service index s =
     (if index < int (length (h_services s)) then (if index < 0 then Inl OutOfBounds else Inr (Some (nat index))) else Inr None)"

section \<open>Replies\<close>

text \<open>evhttp frees a request once its reply has been sent; it must not be used again.\<close>

definition evhttp_send_reply :: "http_reply \<Rightarrow> http_Server \<Rightarrow> http_Server result" where
  "evhttp_send_reply r s = (if hr_req r \<in> set (map hr_req (h_replies s)) then Inl OutOfBounds else Inr (s\<lparr>h_replies := h_replies s @ [r]\<rparr>))"

definition set_service :: "nat \<Rightarrow> http_Service \<Rightarrow> http_Server \<Rightarrow> http_Server" where
  "set_service l sv s = s\<lparr>h_services := (h_services s)[l := sv]\<rparr>"

text \<open>What a listening loop does with a functor, in its own thread.\<close>

fun run_listen_task :: "nat \<Rightarrow> listen_task \<Rightarrow> http_Server \<Rightarrow> http_Server result" where
  "run_listen_task l (TReply req data) s =
     ebind (reply_functor True req (h_code s req) data (h_services s ! l)) (\<lambda>r.
       case r of None \<Rightarrow> Inr (s\<lparr>h_lost := h_lost s @ [req]\<rparr>) | Some reply \<Rightarrow> evhttp_send_reply reply s)"
| "run_listen_task l TPause s = ebind (http_Pause True (h_services s ! l)) (\<lambda>sv. Inr (set_service l sv s))"
| "run_listen_task l TContinue s = ebind (http_Continue True (h_services s ! l)) (\<lambda>sv. Inr (set_service l sv s))"
| "run_listen_task l TStopPause s =
     ebind (http_Pause True (h_services s ! l)) (\<lambda>sv. Inr ((set_service l sv s)\<lparr>h_paused := h_paused s @ [l]\<rparr>))"

text \<open>\<^verbatim>\<open>RunInLoop\<close> of a listening loop; \<open>here\<close>: the caller is in its thread.\<close>

definition run_in_listen :: "bool \<Rightarrow> nat \<Rightarrow> listen_task \<Rightarrow> http_Server \<Rightarrow> http_Server result" where
  "run_in_listen here l t s =
     (if here \<and> h_loops s ! l = kRunning then run_listen_task l t s else Inr (s\<lparr>h_lq := (h_lq s)[l := h_lq s ! l @ [t]]\<rparr>))"

definition http_SendReply :: "bool \<Rightarrow> nat \<Rightarrow> nat \<Rightarrow> string \<Rightarrow> http_Server \<Rightarrow> http_Server result" where
  "http_SendReply here l req data s =
     (if h_loops s ! l = kRunning then run_in_listen here l (TReply req data) s else Inr (s\<lparr>h_lost := h_lost s @ [req]\<rparr>))"

section \<open>Dispatching\<close>

text \<open>The application: the responses a handler gives to a context, each with the status code it sets before.\<close>

type_synonym application = "nat \<Rightarrow> http_Context \<Rightarrow> (int \<times> string) list"

fun respond :: "bool \<Rightarrow> nat \<Rightarrow> nat \<Rightarrow> (int \<times> string) list \<Rightarrow> http_Server \<Rightarrow> http_Server result" where
  "respond here l req [] s = Inr s"
| "respond here l req ((code, data) # rs) s =
     ebind (http_SendReply here l req data (s\<lparr>h_code := (h_code s)(req := code)\<rparr>)) (respond here l req rs)"

text \<open>The functor that \<^verbatim>\<open>Dispatch\<close> hands to a loop; \<open>here\<close>: it runs in the listening thread.\<close>

definition run_job :: "application \<Rightarrow> bool \<Rightarrow> worker_task \<Rightarrow> http_Server \<Rightarrow> http_Server result" where
  "run_job app here j s =
     (case j of Job l ctx cb \<Rightarrow>
        if h_status s \<noteq> kRunning then Inr (s\<lparr>h_lost := h_lost s @ [cx_req ctx]\<rparr>)
        else if app cb ctx = [] then Inr (s\<lparr>h_silent := h_silent s @ [cx_req ctx]\<rparr>)
        else respond here l (cx_req ctx) (app cb ctx) s)"

text \<open>\<open>he_addr\<close> is the address evhttp knows the peer of a request by, \<open>he_hash\<close> is \<^verbatim>\<open>std::hash\<close> of a string.\<close>

record http_env =
  he_addr :: "nat \<Rightarrow> sockaddr_storage option"
  he_hash :: "string \<Rightarrow> 64 word"

text \<open>The listening loop itself, a worker's loop, or the pool's base loop, which is a null pointer.\<close>

datatype loop_choice = ListenLoop | WorkerLoop nat | NullLoop

definition chosen :: "nat option \<Rightarrow> loop_choice" where
  "chosen l = (case l of None \<Rightarrow> NullLoop | Some w \<Rightarrow> WorkerLoop w)"

definition HttpServer_GetNextLoop ::
  "http_env \<Rightarrow> Policy \<Rightarrow> http_Context \<Rightarrow> EventLoopThreadPool \<Rightarrow> loop_choice \<times> EventLoopThreadPool" where
  "HttpServer_GetNextLoop env policy ctx p =
     (if thread_num p = 0 then (ListenLoop, p)
      else if policy = kRoundRobin then (case Pool_GetNextLoop p of (l, p1) \<Rightarrow> (chosen l, p1))
      else
        let hash = (case he_addr env (cx_req ctx) of Some a \<Rightarrow> ucast (s_addr a) | None \<Rightarrow> he_hash env (cx_remote_ip ctx)) in
        (chosen (GetNextLoopWithHash hash p), p))"

text \<open>\<^verbatim>\<open>Dispatch\<close> up to the test of the status, and from there on.\<close>

definition Dispatch_test :: "nat \<Rightarrow> nat \<Rightarrow> http_Context \<Rightarrow> http_Server \<Rightarrow> http_Server" where
  "Dispatch_test l cb ctx s =
     (if h_status s \<noteq> kRunning then s\<lparr>h_lost := h_lost s @ [cx_req ctx]\<rparr> else s\<lparr>h_busy := (h_busy s)[l := Some (ctx, cb)]\<rparr>)"

definition Dispatch_forward :: "http_env \<Rightarrow> application \<Rightarrow> nat \<Rightarrow> http_Context \<Rightarrow> nat \<Rightarrow> http_Server \<Rightarrow> http_Server result" where
  "Dispatch_forward env app l ctx cb s =
     (let s1 = s\<lparr>h_busy := (h_busy s)[l := None]\<rparr> in
      case h_pool s of
        None \<Rightarrow> Inl NullPointer
      | Some p \<Rightarrow>
          (case HttpServer_GetNextLoop env (h_policy s) ctx p of
             (ListenLoop, p1) \<Rightarrow> run_job app True (Job l ctx cb) (s1\<lparr>h_pool := Some p1\<rparr>)
           | (WorkerLoop w, p1) \<Rightarrow> Inr (s1\<lparr>h_pool := Some p1, h_wq := (h_wq s)[w := h_wq s ! w @ [Job l ctx cb]]\<rparr>)
           | (NullLoop, p1) \<Rightarrow> Inl NullPointer))"

section \<open>The owner\<close>

definition register_all :: "(string \<times> nat) list \<Rightarrow> nat option \<Rightarrow> http_Service \<Rightarrow> http_Service" where
  "register_all cbs dflt sv =
     (let sv1 = fold (\<lambda>(uri, cb). http_RegisterHandler uri cb) cbs sv in
      case dflt of None \<Rightarrow> sv1 | Some cb \<Rightarrow> http_RegisterDefaultHandler cb sv1)"

definition pool_status :: "server_status \<Rightarrow> http_Server \<Rightarrow> http_Server result" where
  "pool_status st s = (case h_pool s of None \<Rightarrow> Inl NullPointer | Some p \<Rightarrow> Inr (s\<lparr>h_pool := Some (p\<lparr>pl_status := st\<rparr>)\<rparr>))"

fun delete_services :: "http_Service list \<Rightarrow> unit result" where
  "delete_services [] = Inr ()"
| "delete_services (sv # svs) = ebind (http_Service_delete sv) (\<lambda>_. delete_services svs)"

fun Start_exec :: "http_pc \<Rightarrow> http_Server \<Rightarrow> (http_pc list \<times> http_Server) result option" where
  "Start_exec HStart s = Some (asserting (h_status s = kInitialized) (Inr ([HStartPool], s\<lparr>h_status := kStarting\<rparr>)))"
| "Start_exec HStartPool s =
     Some (case h_pool s of
             None \<Rightarrow> Inl NullPointer
           | Some p \<Rightarrow> Inr ([HStartListen 0], s\<lparr>h_pool := Some (p\<lparr>pl_status := kRunning, pushed := thread_num p\<rparr>)\<rparr>))"
| "Start_exec (HStartListen i) s =
     Some (Inr (if i < length (h_loops s) then ([HRegister i, HStartListen (Suc i)], s\<lparr>h_loops := (h_loops s)[i := kRunning]\<rparr>)
                else ([HWaitRunning], s)))"
| "Start_exec (HRegister i) s =
     Some (Inr ([], set_service i (register_all (h_callbacks s) (h_default s) (h_services s ! i)) s))"
| "Start_exec HWaitRunning s =
     (if h_loops s \<noteq> [] \<and> (case h_pool s of None \<Rightarrow> False | Some p \<Rightarrow> pl_status p = kRunning) \<and> list_all (\<lambda>st. st = kRunning) (h_loops s)
      then Some (Inr ([], s\<lparr>h_status := kRunning\<rparr>)) else None)"
| "Start_exec _ s = None"

fun Stop_exec :: "http_pc \<Rightarrow> http_Server \<Rightarrow> (http_pc list \<times> http_Server) result option" where
  "Stop_exec HStop s =
     Some (asserting (h_status s = kRunning) (Inr ([HPauseListen 0], s\<lparr>h_status := kStopping, h_sub := kStoppingListener\<rparr>)))"
| "Stop_exec (HPauseListen i) s =
     Some (if i < length (h_services s) then ebind (run_in_listen False i TStopPause s) (\<lambda>s1. Inr ([HPauseListen (Suc i)], s1))
           else Inr ([HWaitPaused], s))"
| "Stop_exec HWaitPaused s =
     (if h_services s \<noteq> [] \<and> length (h_paused s) = length (h_services s) then Some (Inr ([HStopPool], s)) else None)"
| "Stop_exec HStopPool s = Some (ebind (pool_status kStopping (s\<lparr>h_sub := kStoppingThreadPool\<rparr>)) (\<lambda>s1. Inr ([HWaitPool], s1)))"
| "Stop_exec HWaitPool s =
     (if list_all id (h_wdone s) then Some (ebind (pool_status kStopped s) (\<lambda>s1. Inr ([HStopListen 0], s1))) else None)"
| "Stop_exec (HStopListen i) s =
     Some (if i < length (h_loops s)
           then asserting (h_loops s ! i = kRunning) (Inr ([HWaitListen i, HStopListen (Suc i)], s\<lparr>h_loops := (h_loops s)[i := kStopping]\<rparr>))
           else Inr ([HFinish], s))"
| "Stop_exec (HWaitListen i) s = (if h_loops s ! i = kStopped then Some (Inr ([], s)) else None)"
| "Stop_exec HFinish s =
     Some (ebind (delete_services (h_services s)) (\<lambda>_.
       Inr ([], s\<lparr>h_status := kStopped, h_pool := None, h_services := [], h_loops := [], h_busy := [], h_lq := []\<rparr>)))"
| "Stop_exec _ s = None"

definition Pause_exec :: "nat \<Rightarrow> http_Server \<Rightarrow> (http_pc list \<times> http_Server) result" where
  "Pause_exec i s =
     (if i < length (h_services s) then ebind (run_in_listen False i TPause s) (\<lambda>s1. Inr ([HPause (Suc i)], s1)) else Inr ([], s))"

definition Continue_exec :: "nat \<Rightarrow> http_Server \<Rightarrow> (http_pc list \<times> http_Server) result" where
  "Continue_exec i s =
     (if i < length (h_services s) then ebind (run_in_listen False i TContinue s) (\<lambda>s1. Inr ([HContinue (Suc i)], s1)) else Inr ([], s))"

text \<open>The destructor joins the listening threads that were started, which waits for them to end.\<close>

definition http_Server_delete :: "http_Server \<Rightarrow> (http_pc list \<times> http_Server) result option" where
  "http_Server_delete s =
     (if list_all (\<lambda>st. st = kStopped \<or> st = kInitialized) (h_loops s)
      then Some (ebind (delete_services (h_services s)) (\<lambda>_.
        let s1 = s\<lparr>h_services := [], h_loops := [], h_busy := [], h_lq := []\<rparr> in
        case h_pool s of
          None \<Rightarrow> Inr ([], s1)
        | Some p \<Rightarrow> asserting (pl_status p = kStopped) (Inr ([], s1\<lparr>h_pool := None\<rparr>))))
      else None)"

definition http_exec :: "http_pc \<Rightarrow> http_Server \<Rightarrow> (http_pc list \<times> http_Server) result option" where
  "http_exec pc s =
     (case pc of
        HDelete \<Rightarrow> http_Server_delete s
      | HPause i \<Rightarrow> Some (Pause_exec i s)
      | HContinue i \<Rightarrow> Some (Continue_exec i s)
      | HStart \<Rightarrow> Start_exec pc s | HStartPool \<Rightarrow> Start_exec pc s | HStartListen _ \<Rightarrow> Start_exec pc s | HRegister _ \<Rightarrow> Start_exec pc s
      | HWaitRunning \<Rightarrow> Start_exec pc s
      | _ \<Rightarrow> Stop_exec pc s)"

section \<open>Turns\<close>

datatype http_event = OwnerTurn | Request nat http_request_data | ListenTurn nat | WorkerTurn nat

definition http_owner_turn :: "http_Server \<Rightarrow> http_Server result option" where
  "http_owner_turn s =
     (case h_owner s of
        [] \<Rightarrow> None
      | pc # k \<Rightarrow> map_option (\<lambda>r. ebind r (\<lambda>(new, s1). Inr (s1\<lparr>h_owner := new @ k\<rparr>))) (http_exec pc s))"

definition in_listen_loop :: "nat \<Rightarrow> http_Server \<Rightarrow> bool" where
  "in_listen_loop l s \<longleftrightarrow> l < length (h_loops s) \<and> (h_loops s ! l = kRunning \<or> h_loops s ! l = kStopping)"

definition request_arrives :: "nat \<Rightarrow> http_request_data \<Rightarrow> http_Server \<Rightarrow> http_Server result" where
  "request_arrives l d s =
     (if in_listen_loop l s \<and> h_busy s ! l = None \<and> hs_gencb (h_services s ! l) then
        let req = length (h_reqs s); s1 = s\<lparr>h_reqs := h_reqs s @ [d]\<rparr> in
        ebind (http_HandleRequest True req d (h_services s ! l)) (\<lambda>a.
          case a of SendNow r \<Rightarrow> evhttp_send_reply r s1 | CallHandler cb ctx \<Rightarrow> Inr (Dispatch_test l cb ctx s1))
      else Inr s)"

text \<open>A listening thread goes on in \<^verbatim>\<open>Dispatch\<close>, runs a functor, or ends, which stops its service.\<close>

definition listen_turn :: "http_env \<Rightarrow> application \<Rightarrow> nat \<Rightarrow> http_Server \<Rightarrow> http_Server result" where
  "listen_turn env app l s =
     (if \<not> in_listen_loop l s then Inr s
      else
        case h_busy s ! l of
          Some (ctx, cb) \<Rightarrow> Dispatch_forward env app l ctx cb s
        | None \<Rightarrow>
            (case h_lq s ! l of
               t # rest \<Rightarrow> run_listen_task l t (s\<lparr>h_lq := (h_lq s)[l := rest]\<rparr>)
             | [] \<Rightarrow>
                 if h_loops s ! l = kStopping
                 then ebind (http_Stop True (h_services s ! l)) (\<lambda>sv. Inr ((set_service l sv s)\<lparr>h_loops := (h_loops s)[l := kStopped]\<rparr>))
                 else Inr s))"

definition worker_turn :: "application \<Rightarrow> nat \<Rightarrow> http_Server \<Rightarrow> http_Server result" where
  "worker_turn app w s =
     (if \<not> w < length (h_wq s) \<or> h_wdone s ! w then Inr s
      else
        case h_wq s ! w of
          j # rest \<Rightarrow> run_job app False j (s\<lparr>h_wq := (h_wq s)[w := rest]\<rparr>)
        | [] \<Rightarrow>
            if (case h_pool s of None \<Rightarrow> False | Some p \<Rightarrow> pl_status p = kStopping)
            then Inr (s\<lparr>h_wdone := (h_wdone s)[w := True]\<rparr>) else Inr s)"

definition http_turn :: "http_env \<Rightarrow> application \<Rightarrow> http_event \<Rightarrow> http_Server \<Rightarrow> http_Server result" where
  "http_turn env app e s =
     (case e of
        OwnerTurn \<Rightarrow> (case http_owner_turn s of None \<Rightarrow> Inr s | Some r \<Rightarrow> r)
      | Request l d \<Rightarrow> request_arrives l d s
      | ListenTurn l \<Rightarrow> listen_turn env app l s
      | WorkerTurn w \<Rightarrow> worker_turn app w s)"

end
