(* ===== verification/Evhttp_Server_Inv.thy ===== *)
theory Evhttp_Server_Inv
  imports Evhttp_Server "HOL-Library.Multiset"
begin

text \<open>
  The invariant of a running and of a stopping HTTP server: every request that arrived is at exactly one place (in \<^verbatim>\<open>Dispatch\<close>, in a worker's queue, in the
  queue of a listening loop, answered, dropped, or left to the application), each place holds what belongs to the request, and the owner's program
  points say what state the loops and the pool are in.
\<close>

section \<open>Where requests are\<close>

definition btok :: "(http_Context \<times> nat) option \<Rightarrow> nat multiset" where
  "btok b = (case b of None \<Rightarrow> {#} | Some (ctx, _) \<Rightarrow> {#cx_req ctx#})"

definition jtok :: "worker_task \<Rightarrow> nat" where
  "jtok j = (case j of Job _ ctx _ \<Rightarrow> cx_req ctx)"

definition wtok :: "worker_task list \<Rightarrow> nat multiset" where
  "wtok q = mset (map jtok q)"

definition ltok :: "listen_task list \<Rightarrow> nat multiset" where
  "ltok q = sum_list (map (\<lambda>t. case t of TReply i _ \<Rightarrow> {#i#} | _ \<Rightarrow> {#}) q)"

definition request_places :: "http_Server \<Rightarrow> nat multiset" where
  "request_places s = sum_list (map btok (h_busy s)) + sum_list (map wtok (h_wq s)) + sum_list (map ltok (h_lq s)) +
     mset (map hr_req (h_replies s)) + mset (h_lost s) + mset (h_silent s)"

text \<open>\<open>H\<close> are the requests in the hands of the thread that is taking a step.\<close>

definition conserved :: "nat multiset \<Rightarrow> http_Server \<Rightarrow> bool" where
  "conserved H s \<longleftrightarrow> request_places s + H = mset [0..<length (h_reqs s)]"

lemma tok_simps [simp]:
  "btok None = {#}" "btok (Some (ctx, cb)) = {#cx_req ctx#}" "wtok [] = {#}" "wtok (j # q) = {#jtok j#} + wtok q" "wtok (q @ q') = wtok q + wtok q'"
  "jtok (Job l ctx cb) = cx_req ctx" "ltok [] = {#}" "ltok (t # p) = (case t of TReply i _ \<Rightarrow> {#i#} | _ \<Rightarrow> {#}) + ltok p" "ltok (p @ p') = ltok p + ltok p'"
  by (simp_all add: btok_def wtok_def ltok_def jtok_def)

lemma sum_upd:
  fixes f :: "'a \<Rightarrow> 'b :: comm_monoid_add"
  assumes "i < length xs"
  shows "sum_list (map f (xs[i := x])) + f (xs ! i) = sum_list (map f xs) + f x"
  using assms by (induction xs arbitrary: i) (auto split: nat.splits simp: ac_simps)

lemma sum_push:
  fixes f :: "'a \<Rightarrow> 'b :: cancel_comm_monoid_add"
  assumes "i < length xs" "f x = f (xs ! i) + t"
  shows "sum_list (map f (xs[i := x])) = sum_list (map f xs) + t"
  using sum_upd [OF assms(1), of f x] unfolding assms(2) by (metis add.assoc add.commute add_right_imp_eq)

lemma sum_pop:
  fixes f :: "'a \<Rightarrow> 'b :: cancel_comm_monoid_add"
  assumes "i < length xs" "f (xs ! i) = f x + t"
  shows "sum_list (map f xs) = sum_list (map f (xs[i := x])) + t"
  using sum_upd [OF assms(1), of f x] unfolding assms(2) by (metis add.assoc add.commute add_right_imp_eq)

lemma apart_in_upt: "A + B = mset [0..<k] \<Longrightarrow> x \<in># A \<Longrightarrow> x \<notin># B"
proof
  assume e: "A + B = mset [0..<k]" and x: "x \<in># A" "x \<in># B"
  have "count (mset [0..<k]) x \<le> 1" by (cases "x < k") (simp_all add: count_mset_set')
  moreover have "0 < count A x" "0 < count B x" using x by (simp_all only: count_greater_zero_iff)
  moreover have "count A x + count B x = count (mset [0..<k]) x" using arg_cong [OF e, of "\<lambda>M. count M x"] by simp
  ultimately show False by linarith
qed

section \<open>What belongs to a request\<close>

text \<open>An application that responds at most once to each request and sets sensible codes.\<close>

definition well_behaved :: "application \<Rightarrow> bool" where
  "well_behaved app \<longleftrightarrow> (\<forall>cb ctx. app cb ctx = [] \<or> (\<exists>code data. app cb ctx = [(code, data)] \<and> (data \<noteq> [] \<longrightarrow> 100 \<le> code \<and> code \<le> 1000)))"

definition handler_in :: "(string \<times> nat) list \<Rightarrow> nat option \<Rightarrow> string \<Rightarrow> nat option" where
  "handler_in cbs dflt path = (case map_of cbs path of Some cb \<Rightarrow> Some cb | None \<Rightarrow> dflt)"

definition handler_for :: "http_Server \<Rightarrow> string \<Rightarrow> nat option" where
  "handler_for s = handler_in (h_callbacks s) (h_default s)"

definition ctx_ok :: "http_Server \<Rightarrow> http_Context \<Rightarrow> nat \<Rightarrow> bool" where
  "ctx_ok s ctx cb \<longleftrightarrow> cx_req ctx < length (h_reqs s) \<and> ctx = context_of (cx_req ctx) (h_reqs s ! cx_req ctx) \<and>
     handler_for s (er_path (h_reqs s ! cx_req ctx)) = Some cb"

definition app_answers :: "application \<Rightarrow> http_Server \<Rightarrow> nat \<Rightarrow> int \<Rightarrow> string \<Rightarrow> bool" where
  "app_answers app s i code data \<longleftrightarrow> i < length (h_reqs s) \<and>
     (\<exists>cb. handler_for s (er_path (h_reqs s ! i)) = Some cb \<and> app cb (context_of i (h_reqs s ! i)) = [(code, data)])"

definition reply_ok :: "application \<Rightarrow> http_Server \<Rightarrow> http_reply \<Rightarrow> bool" where
  "reply_ok app s r \<longleftrightarrow> hr_req r < length (h_reqs s) \<and>
     (handler_for s (er_path (h_reqs s ! hr_req r)) = None \<and> r = bad_request (hr_req r) \<or>
      (\<exists>code data. app_answers app s (hr_req r) code data \<and> hr_code r = (if data = [] then 404 else code) \<and>
        hr_body r = (if data = [] then None else Some data)))"

text \<open>The application was asked and gave no response.\<close>

definition silent_ok :: "application \<Rightarrow> http_Server \<Rightarrow> nat \<Rightarrow> bool" where
  "silent_ok app s i \<longleftrightarrow> i < length (h_reqs s) \<and>
     (\<exists>cb. handler_for s (er_path (h_reqs s ! i)) = Some cb \<and> app cb (context_of i (h_reqs s ! i)) = [])"

definition work_ok :: "application \<Rightarrow> http_Server \<Rightarrow> bool" where
  "work_ok app s \<longleftrightarrow>
     (\<forall>l ctx cb. l < length (h_busy s) \<longrightarrow> h_busy s ! l = Some (ctx, cb) \<longrightarrow> ctx_ok s ctx cb) \<and>
     (\<forall>q \<in> set (h_wq s). \<forall>l ctx cb. Job l ctx cb \<in> set q \<longrightarrow> l < length (h_services s) \<and> ctx_ok s ctx cb) \<and>
     (\<forall>q \<in> set (h_lq s). \<forall>i data. TReply i data \<in> set q \<longrightarrow> app_answers app s i (h_code s i) data) \<and>
     (\<forall>r \<in> set (h_replies s). reply_ok app s r) \<and> (\<forall>i \<in> set (h_silent s). silent_ok app s i)"

definition services_ok :: "http_Server \<Rightarrow> bool" where
  "services_ok s \<longleftrightarrow> (\<forall>l < length (h_services s).
     if h_loops s ! l = kStopped
     then \<not> hs_evhttp (h_services s ! l) \<and> \<not> hs_bound (h_services s ! l) \<and> h_lq s ! l = [] \<and> h_busy s ! l = None
     else hs_evhttp (h_services s ! l) \<and> hs_gencb (h_services s ! l) \<and> (\<forall>path. route (h_services s ! l) path = handler_for s path))"

definition http_sizes :: "nat \<Rightarrow> nat \<Rightarrow> http_Server \<Rightarrow> bool" where
  "http_sizes n m s \<longleftrightarrow> length (h_services s) = n \<and> length (h_loops s) = n \<and> length (h_busy s) = n \<and> length (h_lq s) = n \<and>
     length (h_wq s) = m \<and> length (h_wdone s) = m \<and> m < 2 ^ 64 \<and> (\<forall>w < m. h_wdone s ! w \<longrightarrow> h_wq s ! w = [])"

section \<open>Stages\<close>

datatype http_stage = SRun | SPausing nat | SPaused | SPool | SListen nat | SHalf nat | SGone

definition pool_is :: "nat \<Rightarrow> server_status \<Rightarrow> http_Server \<Rightarrow> bool" where
  "pool_is m st s \<longleftrightarrow> (case h_pool s of None \<Rightarrow> False | Some p \<Rightarrow> pl_status p = st \<and> pushed p = m \<and> thread_num p = m)"

definition loops_are :: "nat \<Rightarrow> (nat \<Rightarrow> server_status) \<Rightarrow> http_Server \<Rightarrow> bool" where
  "loops_are n f s \<longleftrightarrow> (\<forall>l < n. h_loops s ! l = f l)"

definition pausable :: "http_pc \<Rightarrow> bool" where
  "pausable pc \<longleftrightarrow> (case pc of HPause _ \<Rightarrow> True | HContinue _ \<Rightarrow> True | _ \<Rightarrow> False)"

inductive http_phase :: "nat \<Rightarrow> http_pc list \<Rightarrow> http_stage \<Rightarrow> bool" for n where
  run: "list_all pausable pre \<Longrightarrow> http_phase n (pre @ [HStop, HDelete]) SRun"
| pausing: "i \<le> n \<Longrightarrow> http_phase n [HPauseListen i, HDelete] (SPausing i)"
| waiting: "http_phase n [HWaitPaused, HDelete] (SPausing n)"
| paused: "http_phase n [HStopPool, HDelete] SPaused"
| pool: "http_phase n [HWaitPool, HDelete] SPool"
| listen: "i \<le> n \<Longrightarrow> http_phase n [HStopListen i, HDelete] (SListen i)"
| half: "i < n \<Longrightarrow> http_phase n [HWaitListen i, HStopListen (Suc i), HDelete] (SHalf i)"
| finish: "http_phase n [HFinish, HDelete] (SListen n)"
| delete: "http_phase n [HDelete] SGone"
| gone: "http_phase n [] SGone"

text \<open>How many listening loops have been told to pause.\<close>

fun pauses_told :: "nat \<Rightarrow> http_stage \<Rightarrow> nat" where
  "pauses_told n SRun = 0"
| "pauses_told n (SPausing i) = i"
| "pauses_told n _ = n"

definition pauses_ok :: "nat \<Rightarrow> nat \<Rightarrow> http_Server \<Rightarrow> bool" where
  "pauses_ok n k s \<longleftrightarrow> distinct (h_paused s) \<and> set (h_paused s) \<subseteq> {..<n} \<and>
     (\<forall>l < length (h_lq s). count_list (h_lq s ! l) TStopPause + of_bool (l \<in> set (h_paused s)) = of_bool (l < k) \<and>
       (l \<in> set (h_paused s) \<longrightarrow> h_busy s ! l = None))"

fun http_stage_ok :: "nat \<Rightarrow> nat \<Rightarrow> http_stage \<Rightarrow> http_Server \<Rightarrow> bool" where
  "http_stage_ok n m SRun s \<longleftrightarrow> h_status s = kRunning \<and> pool_is m kRunning s \<and> loops_are n (\<lambda>_. kRunning) s \<and> (\<forall>w < m. \<not> h_wdone s ! w) \<and>
     h_lost s = []"
| "http_stage_ok n m (SPausing i) s \<longleftrightarrow> h_status s = kStopping \<and> pool_is m kRunning s \<and> loops_are n (\<lambda>_. kRunning) s \<and> (\<forall>w < m. \<not> h_wdone s ! w)"
| "http_stage_ok n m SPaused s \<longleftrightarrow> h_status s = kStopping \<and> pool_is m kRunning s \<and> loops_are n (\<lambda>_. kRunning) s \<and> (\<forall>w < m. \<not> h_wdone s ! w) \<and>
     set (h_paused s) = {..<n}"
| "http_stage_ok n m SPool s \<longleftrightarrow> h_status s = kStopping \<and> pool_is m kStopping s \<and> loops_are n (\<lambda>_. kRunning) s \<and> set (h_paused s) = {..<n}"
| "http_stage_ok n m (SListen i) s \<longleftrightarrow> h_status s = kStopping \<and> pool_is m kStopped s \<and> loops_are n (\<lambda>l. if l < i then kStopped else kRunning) s \<and>
     (\<forall>w < m. h_wdone s ! w) \<and> set (h_paused s) = {..<n}"
| "http_stage_ok n m (SHalf i) s \<longleftrightarrow> h_status s = kStopping \<and> pool_is m kStopped s \<and>
     (\<exists>st. (st = kStopping \<or> st = kStopped) \<and> loops_are n (\<lambda>l. if l < i then kStopped else if l = i then st else kRunning) s) \<and>
     (\<forall>w < m. h_wdone s ! w) \<and> set (h_paused s) = {..<n}"
| "http_stage_ok n m SGone s \<longleftrightarrow> h_status s = kStopped \<and> h_pool s = None \<and> (\<forall>w < m. h_wdone s ! w)"

definition http_inv :: "application \<Rightarrow> nat \<Rightarrow> nat \<Rightarrow> http_stage \<Rightarrow> nat multiset \<Rightarrow> http_Server \<Rightarrow> bool" where
  "http_inv app n m st H s \<longleftrightarrow> http_sizes (if st = SGone then 0 else n) m s \<and> http_phase n (h_owner s) st \<and> http_stage_ok n m st s \<and>
     pauses_ok n (pauses_told n st) s \<and> services_ok s \<and> work_ok app s \<and> conserved H s"

section \<open>Frames\<close>

text \<open>What a step of a listening thread or a worker leaves as it is.\<close>

definition same_frame :: "http_Server \<Rightarrow> http_Server \<Rightarrow> bool" where
  "same_frame s s' \<longleftrightarrow> (h_status s = kRunning \<longrightarrow> h_lost s' = h_lost s) \<and> h_status s' = h_status s \<and> h_owner s' = h_owner s \<and> h_loops s' = h_loops s \<and> h_wdone s' = h_wdone s \<and>
     h_paused s' = h_paused s \<and> length (h_services s') = length (h_services s) \<and> length (h_busy s') = length (h_busy s) \<and>
     length (h_lq s') = length (h_lq s) \<and> length (h_wq s') = length (h_wq s) \<and>
     map_option (\<lambda>p. (pl_status p, pushed p, thread_num p)) (h_pool s') = map_option (\<lambda>p. (pl_status p, pushed p, thread_num p)) (h_pool s)"

lemma same_pool:
  "map_option (\<lambda>p. (pl_status p, pushed p, thread_num p)) (h_pool s') = map_option (\<lambda>p. (pl_status p, pushed p, thread_num p)) (h_pool s) \<Longrightarrow>
     pool_is m st s' = pool_is m st s \<and> (h_pool s' = None \<longleftrightarrow> h_pool s = None)"
  by (cases "h_pool s"; cases "h_pool s'") (simp_all add: pool_is_def)

lemma same_stage:
  assumes "same_frame s s'"
  shows "http_stage_ok n m st s' = http_stage_ok n m st s"
proof -
  have p: "pool_is m x s' = pool_is m x s" "h_pool s' = None \<longleftrightarrow> h_pool s = None" for x
    using assms same_pool [of s' s m x] by (simp_all add: same_frame_def)
  show ?thesis using assms by (cases "h_status s = kRunning"; cases st) (simp_all add: same_frame_def loops_are_def p)
qed

lemma inv_frame:
  assumes "http_inv app n m st H s" "same_frame s s'" "\<And>w. w < m \<Longrightarrow> h_wdone s ! w \<Longrightarrow> h_wq s ! w = [] \<Longrightarrow> h_wq s' ! w = []"
    "pauses_ok n (pauses_told n st) s'" "services_ok s'" "work_ok app s'" "conserved H' s'"
  shows "http_inv app n m st H' s'"
proof -
  have "http_sizes (if st = SGone then 0 else n) m s'" using assms(1-3) by (auto simp: http_inv_def http_sizes_def same_frame_def)
  moreover have "http_phase n (h_owner s') st" "http_stage_ok n m st s'"
    using assms(1) same_stage [OF assms(2)] assms(2) by (simp_all add: http_inv_def same_frame_def)
  ultimately show ?thesis using assms(4-) by (simp add: http_inv_def)
qed

lemma same_pauses:
  assumes "pauses_ok n k s" "h_paused s' = h_paused s" "length (h_lq s') = length (h_lq s)"
    "\<And>l. l < length (h_lq s) \<Longrightarrow> count_list (h_lq s' ! l) TStopPause = count_list (h_lq s ! l) TStopPause \<and> (h_busy s ! l = None \<longrightarrow> h_busy s' ! l = None)"
  shows "pauses_ok n k s'"
  using assms unfolding pauses_ok_def by auto

lemma inv_parts:
  assumes "http_inv app n m st H s"
  shows "work_ok app s" "services_ok s" "conserved H s" "pauses_ok n (pauses_told n st) s" "http_stage_ok n m st s" "http_phase n (h_owner s) st"
    "http_sizes (if st = SGone then 0 else n) m s"
  using assms by (simp_all add: http_inv_def)

section \<open>Requests arrive\<close>

text \<open>The requests of \<open>s\<close> are those of \<open>s'\<close>, which may have more.\<close>

definition more_requests :: "http_Server \<Rightarrow> http_Server \<Rightarrow> bool" where
  "more_requests s s' \<longleftrightarrow> (\<exists>ds. h_reqs s' = h_reqs s @ ds) \<and> h_callbacks s' = h_callbacks s \<and> h_default s' = h_default s"

lemma more_requests_same: "h_reqs s' = h_reqs s \<Longrightarrow> h_callbacks s' = h_callbacks s \<Longrightarrow> h_default s' = h_default s \<Longrightarrow> more_requests s s'"
  by (simp add: more_requests_def)

lemma more_requests_handler: "more_requests s s' \<Longrightarrow> handler_for s' = handler_for s"
  by (simp add: more_requests_def handler_for_def)

lemma more_requests_ok:
  assumes "more_requests s s'"
  shows "ctx_ok s ctx cb \<Longrightarrow> ctx_ok s' ctx cb" "app_answers app s i code data \<Longrightarrow> app_answers app s' i code data" "reply_ok app s r \<Longrightarrow> reply_ok app s' r"
    "silent_ok app s j \<Longrightarrow> silent_ok app s' j"
proof -
  obtain ds where ds: "h_reqs s' = h_reqs s @ ds" using assms by (auto simp: more_requests_def)
  note lk = more_requests_handler [OF assms]
  show "ctx_ok s ctx cb \<Longrightarrow> ctx_ok s' ctx cb" by (auto simp: ctx_ok_def ds lk nth_append)
  show an: "app_answers app s i code data \<Longrightarrow> app_answers app s' i code data" for i code data by (auto simp: app_answers_def ds lk nth_append)
  show "reply_ok app s r \<Longrightarrow> reply_ok app s' r" unfolding reply_ok_def lk
    by (elim conjE disjE exE) (auto simp: ds nth_append dest: an)
  show "silent_ok app s j \<Longrightarrow> silent_ok app s' j" by (auto simp: silent_ok_def ds lk nth_append)
qed

lemma work_okI:
  assumes "more_requests s s'" "work_ok app s" "length (h_services s') = length (h_services s)"
    "\<And>l ctx cb. l < length (h_busy s') \<Longrightarrow> h_busy s' ! l = Some (ctx, cb) \<Longrightarrow> (l < length (h_busy s) \<and> h_busy s ! l = Some (ctx, cb)) \<or> ctx_ok s' ctx cb"
    "\<And>q l ctx cb. q \<in> set (h_wq s') \<Longrightarrow> Job l ctx cb \<in> set q \<Longrightarrow>
      (\<exists>q' \<in> set (h_wq s). Job l ctx cb \<in> set q') \<or> l < length (h_services s) \<and> ctx_ok s' ctx cb"
    "\<And>q i data. q \<in> set (h_lq s') \<Longrightarrow> TReply i data \<in> set q \<Longrightarrow>
      (h_code s' i = h_code s i \<and> (\<exists>q' \<in> set (h_lq s). TReply i data \<in> set q')) \<or> app_answers app s' i (h_code s' i) data"
    "\<And>r. r \<in> set (h_replies s') \<Longrightarrow> r \<in> set (h_replies s) \<or> reply_ok app s' r"
    "\<And>i. i \<in> set (h_silent s') \<Longrightarrow> i \<in> set (h_silent s) \<or> silent_ok app s' i"
  shows "work_ok app s'"
  unfolding work_ok_def
proof (intro conjI allI ballI impI)
  fix l ctx cb assume "l < length (h_busy s')" "h_busy s' ! l = Some (ctx, cb)"
  then show "ctx_ok s' ctx cb" using assms(2,4) more_requests_ok(1) [OF assms(1)] unfolding work_ok_def by blast
next
  fix q l ctx cb assume q: "q \<in> set (h_wq s')" "Job l ctx cb \<in> set q"
  then show "l < length (h_services s')" "ctx_ok s' ctx cb"
    using assms(2,3,5) more_requests_ok(1) [OF assms(1)] unfolding work_ok_def by metis+
next
  fix q i data assume "q \<in> set (h_lq s')" "TReply i data \<in> set q"
  then show "app_answers app s' i (h_code s' i) data" using assms(2,6) more_requests_ok(2) [OF assms(1)] unfolding work_ok_def by metis
next
  fix r assume "r \<in> set (h_replies s')"
  then show "reply_ok app s' r" using assms(2,7) more_requests_ok(3) [OF assms(1)] unfolding work_ok_def by blast
next
  fix i assume "i \<in> set (h_silent s')"
  then show "silent_ok app s' i" using assms(2,8) more_requests_ok(4) [OF assms(1)] unfolding work_ok_def by blast
qed

lemma conserved_member: "conserved H s \<Longrightarrow> x \<in># request_places s + H \<Longrightarrow> x < length (h_reqs s)"
  by (auto simp: conserved_def)

lemma new_not_replied: "conserved H s \<Longrightarrow> length (h_reqs s) \<notin> hr_req ` set (h_replies s)"
  using conserved_member [of H s "length (h_reqs s)"] by (auto simp: request_places_def)

lemma in_hand_not_replied: "conserved (add_mset i H) s \<Longrightarrow> i \<notin> hr_req ` set (h_replies s)"
  using apart_in_upt [of "add_mset i H" "request_places s" "length (h_reqs s)" i] by (auto simp: conserved_def request_places_def ac_simps)

lemma services_okI:
  assumes "services_ok s" "length (h_services s') = length (h_services s)" "handler_for s' = handler_for s"
    "\<And>l. l < length (h_services s) \<Longrightarrow> h_loops s' ! l = h_loops s ! l \<and> (h_loops s ! l = kStopped \<longrightarrow> h_lq s' ! l = h_lq s ! l \<and> h_busy s' ! l = h_busy s ! l) \<and>
      hs_evhttp (h_services s' ! l) = hs_evhttp (h_services s ! l) \<and> hs_bound (h_services s' ! l) = hs_bound (h_services s ! l) \<and>
      hs_gencb (h_services s' ! l) = hs_gencb (h_services s ! l) \<and> route (h_services s' ! l) = route (h_services s ! l)"
  shows "services_ok s'"
  using assms unfolding services_ok_def by (metis (no_types, lifting))

lemma request_inv:
  assumes inv: "http_inv app n m st {#} s"
  shows "yields (request_arrives l d s) (http_inv app n m st {#})"
proof (cases "in_listen_loop l s \<and> h_busy s ! l = None \<and> hs_gencb (h_services s ! l)")
  case True
  note i = inv [unfolded http_inv_def]
  have wk: "work_ok app s" and sv: "services_ok s" using i by simp_all
  define k where "k = length (h_reqs s)"
  define s1 where "s1 = s\<lparr>h_reqs := h_reqs s @ [d]\<rparr>"
  have l: "l < length (h_services s)" "l < length (h_busy s)" using True i by (auto simp: in_listen_loop_def http_sizes_def)
  have nk: "k \<notin> hr_req ` set (h_replies s)" using new_not_replied [of "{#}" s] i k_def by simp
  have rt: "route (h_services s ! l) (er_path d) = handler_for s (er_path d)"
    using i True l(1) by (auto simp: services_ok_def in_listen_loop_def)
  have ext: "more_requests s s1" by (auto simp: more_requests_def s1_def)
  have up: "mset [0..<Suc k] = mset [0..<k] + {#k#}" by simp
  have "yields (case handler_for s (er_path d) of
        Some cb \<Rightarrow> Inr (Dispatch_test l cb (context_of k d) s1) | None \<Rightarrow> evhttp_send_reply (bad_request k) s1) (http_inv app n m st {#})"
  proof (cases "handler_for s (er_path d)")
    case None
    let ?s = "s1\<lparr>h_replies := h_replies s1 @ [bad_request k]\<rparr>"
    have "reply_ok app ?s (bad_request k)" using None by (simp add: reply_ok_def bad_request_def handler_for_def s1_def k_def)
    then have "work_ok app ?s" by (intro work_okI [OF _ wk]) (auto simp: more_requests_def s1_def)
    moreover have "conserved {#} ?s" using i by (simp add: conserved_def request_places_def s1_def k_def bad_request_def)
    moreover have "services_ok ?s" by (rule services_okI [OF sv]) (auto simp: s1_def handler_for_def)
    ultimately have "http_inv app n m st {#} ?s"
      by (intro inv_frame [OF inv] same_pauses [OF inv_parts(4) [OF inv]]) (simp_all add: same_frame_def s1_def)
    then show ?thesis using None nk by (simp add: evhttp_send_reply_def bad_request_def s1_def)
  next
    case (Some cb)
    show ?thesis
    proof (cases "h_status s = kRunning")
      case False
      let ?s = "s1\<lparr>h_lost := h_lost s1 @ [k]\<rparr>"
      have "work_ok app ?s" by (rule work_okI [OF _ wk]) (auto simp: more_requests_def s1_def)
      moreover have "conserved {#} ?s" using i by (simp add: conserved_def request_places_def s1_def k_def)
      moreover have "services_ok ?s" by (rule services_okI [OF sv]) (auto simp: s1_def handler_for_def)
      ultimately have "http_inv app n m st {#} ?s" using False
        by (intro inv_frame [OF inv] same_pauses [OF inv_parts(4) [OF inv]]) (simp_all add: same_frame_def s1_def)
      then show ?thesis using Some False by (simp add: Dispatch_test_def s1_def context_of_def)
    next
      case run: True
      then have st: "st = SRun" using i by (cases st) auto
      let ?c = "context_of k d"
      let ?s = "s1\<lparr>h_busy := (h_busy s1)[l := Some (?c, cb)]\<rparr>"
      have "ctx_ok ?s ?c cb" using Some by (simp add: ctx_ok_def s1_def k_def context_of_def handler_for_def)
      then have "work_ok app ?s" using l by (intro work_okI [OF _ wk]) (auto simp: more_requests_def s1_def nth_list_update split: if_splits)
      moreover have "sum_list (map btok ((h_busy s)[l := Some (?c, cb)])) = sum_list (map btok (h_busy s)) + {#k#}"
        using l True by (intro sum_push) (simp_all add: context_of_def)
      then have "conserved {#} ?s" using i by (simp add: conserved_def request_places_def s1_def k_def)
      moreover have "services_ok ?s" using True l by (intro services_okI [OF sv]) (auto simp: s1_def handler_for_def in_listen_loop_def nth_list_update)
      moreover have "pauses_ok n 0 ?s" using i st by (auto simp: pauses_ok_def s1_def nth_list_update)
      ultimately have "http_inv app n m st {#} ?s"
        using i st by (simp add: http_inv_def http_sizes_def s1_def pool_is_def loops_are_def)
      then show ?thesis using Some run by (simp add: Dispatch_test_def s1_def)
    qed
  qed
  then show ?thesis using True
    by (simp add: request_arrives_def HandleRequest_routes rt s1_def k_def Let_def split: option.splits)
qed (use inv in \<open>auto simp: request_arrives_def\<close>)

section \<open>Listening loops\<close>

lemma replied_inv:
  assumes "http_inv app n m st {#i#} s" "reply_ok app s r" "hr_req r = i"
  shows "yields (evhttp_send_reply r s) (http_inv app n m st {#})"
proof -
  note p = inv_parts [OF assms(1)]
  let ?s = "s\<lparr>h_replies := h_replies s @ [r]\<rparr>"
  have "more_requests s ?s" by (simp add: more_requests_def)
  then have "work_ok app ?s" using more_requests_ok(3) [OF _ assms(2)] by (intro work_okI [OF _ p(1)]) auto
  moreover have "services_ok ?s" by (rule services_okI [OF p(2)]) (simp_all add: handler_for_def)
  moreover have "conserved {#} ?s" using p(3) assms(3) by (simp add: conserved_def request_places_def)
  ultimately have "http_inv app n m st {#} ?s"
    by (intro inv_frame [OF assms(1)] same_pauses [OF p(4)]) (simp_all add: same_frame_def)
  then show ?thesis using in_hand_not_replied [OF p(3)] assms(3) by (auto simp: evhttp_send_reply_def)
qed

text \<open>A request that is dropped or that the application does not respond to.\<close>

lemma lost_inv:
  assumes "http_inv app n m st {#i#} s" "h_status s \<noteq> kRunning"
  shows "http_inv app n m st {#} (s\<lparr>h_lost := h_lost s @ [i]\<rparr>)"
proof -
  note p = inv_parts [OF assms(1)]
  let ?a = "s\<lparr>h_lost := h_lost s @ [i]\<rparr>"
  have "work_ok app ?a" by (rule work_okI [OF _ p(1)]) (auto simp: more_requests_def)
  moreover have "services_ok ?a" by (rule services_okI [OF p(2)]) (simp_all add: handler_for_def)
  moreover have "conserved {#} ?a" using p(3) by (simp add: conserved_def request_places_def)
  ultimately show ?thesis using assms(2) by (intro inv_frame [OF assms(1)] same_pauses [OF p(4)]) (simp_all add: same_frame_def)
qed

lemma silent_inv:
  assumes "http_inv app n m st {#i#} s" "silent_ok app s i"
  shows "http_inv app n m st {#} (s\<lparr>h_silent := h_silent s @ [i]\<rparr>)"
proof -
  note p = inv_parts [OF assms(1)]
  let ?a = "s\<lparr>h_silent := h_silent s @ [i]\<rparr>"
  have "silent_ok app ?a i" using assms(2) by (simp add: silent_ok_def handler_for_def)
  then have "work_ok app ?a" by (intro work_okI [OF _ p(1)]) (auto simp: more_requests_def)
  moreover have "services_ok ?a" by (rule services_okI [OF p(2)]) (simp_all add: handler_for_def)
  moreover have "conserved {#} ?a" using p(3) by (simp add: conserved_def request_places_def)
  ultimately show ?thesis by (intro inv_frame [OF assms(1)] same_pauses [OF p(4)]) (simp_all add: same_frame_def)
qed

lemma reply_task_inv:
  assumes "http_inv app n m st {#i#} s" "well_behaved app" "app_answers app s i (h_code s i) data" "l < length (h_services s)" "h_loops s ! l \<noteq> kStopped"
  shows "yields (run_listen_task l (TReply i data) s) (http_inv app n m st {#})"
proof -
  have e: "hs_evhttp (h_services s ! l)" using inv_parts(2) [OF assms(1)] assms(4,5) by (simp add: services_ok_def)
  obtain cb where cb: "app cb (context_of i (h_reqs s ! i)) = [(h_code s i, data)]" using assms(3) by (auto simp: app_answers_def)
  have "data \<noteq> [] \<longrightarrow> 100 \<le> h_code s i \<and> h_code s i \<le> 1000"
    using assms(2) [unfolded well_behaved_def, rule_format, of cb "context_of i (h_reqs s ! i)"] cb by auto
  from reply_functor_sends [OF e this, of i] obtain reason where
    r: "reply_functor True i (h_code s i) data (h_services s ! l) = Inr (Some \<lparr>hr_req = i, hr_code = if data = [] then 404 else h_code s i,
      hr_reason = reason, hr_body = if data = [] then None else Some data\<rparr>)" (is "_ = Inr (Some ?r)") by blast
  have "i < length (h_reqs s)" using assms(3) by (simp add: app_answers_def)
  then have "reply_ok app s ?r" using assms(3) unfolding reply_ok_def by (auto intro!: exI [of _ data])
  from replied_inv [OF assms(1) this] show ?thesis using r by simp
qed

lemma service_inv:
  assumes "http_inv app n m st H s" "l < length (h_services s)"
    "hs_evhttp sv = hs_evhttp (h_services s ! l)" "hs_bound sv = hs_bound (h_services s ! l)" "hs_gencb sv = hs_gencb (h_services s ! l)"
    "route sv = route (h_services s ! l)"
  shows "http_inv app n m st H (set_service l sv s)"
proof -
  note p = inv_parts [OF assms(1)]
  have "work_ok app (set_service l sv s)" by (rule work_okI [OF _ p(1)]) (auto simp: more_requests_def set_service_def)
  moreover have "services_ok (set_service l sv s)"
    by (rule services_okI [OF p(2)]) (use assms in \<open>simp_all add: handler_for_def set_service_def nth_list_update\<close>)
  moreover have "conserved H (set_service l sv s)" using p(3) by (simp add: conserved_def request_places_def set_service_def)
  ultimately show ?thesis
    by (intro inv_frame [OF assms(1)] same_pauses [OF p(4)]) (simp_all add: same_frame_def set_service_def)
qed

lemma route_accepts [simp]: "route (sv\<lparr>hs_accepts := b\<rparr>) = route sv"
  by (rule ext) (simp add: route_def split: option.splits)

lemma pause_task_inv:
  assumes "http_inv app n m st H s" "l < length (h_services s)"
  shows "yields (run_listen_task l TPause s) (http_inv app n m st H)" and "yields (run_listen_task l TContinue s) (http_inv app n m st H)"
  by (auto simp: http_Pause_def http_Continue_def intro!: service_inv [OF assms])

lemma in_queue: "t \<in> set rest \<Longrightarrow> qs ! l = t0 # rest \<Longrightarrow> l < length qs \<Longrightarrow> \<exists>q \<in> set qs. t \<in> set q"
  by (metis list.set_intros(2) nth_mem)

text \<open>The functor of \<^verbatim>\<open>Stop\<close>: the loop is now counted.\<close>

lemma stop_pause_inv:
  assumes inv: "http_inv app n m st {#} s" and l: "l < n" "st \<noteq> SGone" and q: "h_lq s ! l = TStopPause # rest" and b: "h_busy s ! l = None"
  shows "yields (run_listen_task l TStopPause (s\<lparr>h_lq := (h_lq s)[l := rest]\<rparr>)) (http_inv app n m st {#})"
proof -
  note p = inv_parts [OF inv]
  have len: "length (h_services s) = n" "length (h_lq s) = n" "length (h_busy s) = n" using p(7) l by (simp_all add: http_sizes_def)
  have c: "count_list (h_lq s ! l) TStopPause + of_bool (l \<in> set (h_paused s)) = of_bool (l < pauses_told n st)"
    using p(4) len l by (simp add: pauses_ok_def)
  then have np: "l \<notin> set (h_paused s)" and tl: "l < pauses_told n st" "count_list rest TStopPause = 0" using q by (auto simp: of_bool_def split: if_splits)
  obtain i where st: "st = SPausing i" using p(5) np tl l by (cases st) auto
  let ?s = "s\<lparr>h_lq := (h_lq s)[l := rest], h_paused := h_paused s @ [l]\<rparr>"
  have mem: "\<exists>q' \<in> set (h_lq s). t \<in> set q'" if "t \<in> set rest" for t using in_queue [OF that q] len l by simp
  have "work_ok app ?s"
    by (rule work_okI [OF _ p(1)]) (use mem len l in \<open>auto simp: more_requests_def dest!: set_update_subset_insert [THEN subsetD]\<close>)
  moreover have "services_ok ?s"
    by (rule services_okI [OF p(2)]) (use p(5) st l len in \<open>auto simp: handler_for_def nth_list_update loops_are_def\<close>)
  moreover have "sum_list (map ltok (h_lq s)) = sum_list (map ltok ((h_lq s)[l := rest])) + {#}"
    using q len l by (intro sum_pop) simp_all
  then have "conserved {#} ?s" using p(3) by (simp add: conserved_def request_places_def)
  moreover have "pauses_ok n i ?s" using p(4) st np tl l b len by (auto simp: pauses_ok_def nth_list_update)
  moreover have "http_stage_ok n m st ?s" using p(5) unfolding st by (simp add: pool_is_def loops_are_def)
  moreover have "http_sizes n m ?s" using p(7) l by (simp add: http_sizes_def)
  ultimately have i: "http_inv app n m st {#} ?s" using p(6) st by (simp add: http_inv_def)
  define sv where "sv = (if hs_bound (h_services s ! l) then (h_services s ! l)\<lparr>hs_accepts := False\<rparr> else h_services s ! l)"
  have "http_inv app n m st {#} (set_service l sv ?s)"
    by (rule service_inv [OF i]) (use len l in \<open>simp_all add: sv_def\<close>)
  moreover have "set_service l sv ?s = (set_service l sv (s\<lparr>h_lq := (h_lq s)[l := rest]\<rparr>))\<lparr>h_paused := h_paused s @ [l]\<rparr>"
    by (simp add: set_service_def)
  ultimately show ?thesis by (simp add: http_Pause_def sv_def [symmetric])
qed

lemma take_task_inv:
  assumes "http_inv app n m st {#} s" "l < length (h_services s)" "h_lq s ! l = t # rest" "t \<noteq> TStopPause" "h_loops s ! l \<noteq> kStopped"
  shows "http_inv app n m st (ltok [t]) (s\<lparr>h_lq := (h_lq s)[l := rest]\<rparr>)"
proof -
  note p = inv_parts [OF assms(1)]
  have len: "length (h_services s) = length (h_lq s)" using p(7) by (simp add: http_sizes_def)
  let ?s = "s\<lparr>h_lq := (h_lq s)[l := rest]\<rparr>"
  have mem: "\<exists>q' \<in> set (h_lq s). t' \<in> set q'" if "t' \<in> set rest" for t' using in_queue [OF that assms(3)] assms(2) len by simp
  have "work_ok app ?s"
    by (rule work_okI [OF _ p(1)]) (use mem len assms(2) in \<open>auto simp: more_requests_def dest!: set_update_subset_insert [THEN subsetD]\<close>)
  moreover have "services_ok ?s"
    by (rule services_okI [OF p(2)]) (use assms(2,5) len in \<open>auto simp: handler_for_def nth_list_update\<close>)
  moreover have "sum_list (map ltok (h_lq s)) = sum_list (map ltok ((h_lq s)[l := rest])) + ltok [t]"
    using assms(2,3) len by (intro sum_pop) (simp_all add: ac_simps)
  then have "conserved (ltok [t]) ?s" using p(3) by (simp add: conserved_def request_places_def ac_simps)
  moreover have "pauses_ok n (pauses_told n st) ?s"
    by (rule same_pauses [OF p(4)]) (use assms(2-4) len in \<open>auto simp: nth_list_update\<close>)
  ultimately show ?thesis by (intro inv_frame [OF assms(1)]) (simp_all add: same_frame_def)
qed

lemma listen_task_inv:
  assumes inv: "http_inv app n m st {#} s" and wb: "well_behaved app" and l: "in_listen_loop l s" and q: "h_lq s ! l = t # rest" and b: "h_busy s ! l = None"
  shows "yields (run_listen_task l t (s\<lparr>h_lq := (h_lq s)[l := rest]\<rparr>)) (http_inv app n m st {#})"
proof -
  note p = inv_parts [OF inv]
  have len: "l < length (h_services s)" "length (h_lq s) = length (h_services s)" and ns: "h_loops s ! l \<noteq> kStopped"
    using p(7) l by (auto simp: http_sizes_def in_listen_loop_def)
  note i = take_task_inv [OF inv len(1) q _ ns]
  show ?thesis
  proof (cases t)
    case (TReply i data)
    have "h_lq s ! l \<in> set (h_lq s)" using len by simp
    then have "app_answers app s i (h_code s i) data" using p(1) q TReply unfolding work_ok_def by fastforce
    then have "app_answers app (s\<lparr>h_lq := (h_lq s)[l := rest]\<rparr>) i (h_code s i) data" by (simp add: app_answers_def handler_for_def)
    then show ?thesis using i len ns reply_task_inv [of app n m st i "s\<lparr>h_lq := (h_lq s)[l := rest]\<rparr>" data l] wb unfolding TReply by simp
  next
    case TStopPause
    have "st \<noteq> SGone" "l < n" using p(7) len by (auto simp: http_sizes_def split: if_splits)
    then show ?thesis using stop_pause_inv [OF inv _ _ _ b] q TStopPause by simp
  qed (use i len pause_task_inv [of app n m st "{#}" "s\<lparr>h_lq := (h_lq s)[l := rest]\<rparr>" l] in simp_all)
qed

section \<open>Dispatching\<close>

lemma code_inv:
  assumes "http_inv app n m st {#i#} s"
  shows "http_inv app n m st {#i#} (s\<lparr>h_code := (h_code s)(i := code)\<rparr>)"
proof -
  note p = inv_parts [OF assms]
  let ?s = "s\<lparr>h_code := (h_code s)(i := code)\<rparr>"
  have "i' \<noteq> i" if "q \<in> set (h_lq s)" "TReply i' data \<in> set q" for q i' data
  proof -
    have "i' \<in># ltok q" using that(2) by (induction q) auto
    then have "i' \<in># sum_list (map ltok (h_lq s))" using that(1) by (induction "h_lq s" arbitrary: s) auto
    then have "i' \<in># request_places s" by (simp add: request_places_def)
    with p(3) show ?thesis using apart_in_upt [of "{#i#}" "request_places s" "length (h_reqs s)" i] by (auto simp: conserved_def ac_simps)
  qed
  then have "work_ok app ?s" by (intro work_okI [OF _ p(1)]) (auto simp: more_requests_def)
  moreover have "services_ok ?s" by (rule services_okI [OF p(2)]) (simp_all add: handler_for_def)
  moreover have "conserved {#i#} ?s" using p(3) by (simp add: conserved_def request_places_def)
  ultimately show ?thesis by (intro inv_frame [OF assms] same_pauses [OF p(4)]) (simp_all add: same_frame_def)
qed

lemma queue_reply_inv:
  assumes "http_inv app n m st {#i#} s" "app_answers app s i (h_code s i) data" "l < length (h_services s)" "h_loops s ! l \<noteq> kStopped"
  shows "http_inv app n m st {#} (s\<lparr>h_lq := (h_lq s)[l := h_lq s ! l @ [TReply i data]]\<rparr>)"
proof -
  note p = inv_parts [OF assms(1)]
  have len: "length (h_services s) = length (h_lq s)" using p(7) by (simp add: http_sizes_def)
  let ?q = "h_lq s ! l @ [TReply i data]"
  let ?s = "s\<lparr>h_lq := (h_lq s)[l := ?q]\<rparr>"
  have a: "app_answers app ?s i (h_code s i) data" using assms(2) by (simp add: app_answers_def handler_for_def)
  have "h_lq s ! l \<in> set (h_lq s)" using assms(3) len by simp
  then have "work_ok app ?s" using a
    by (intro work_okI [OF _ p(1)]) (auto simp: more_requests_def dest!: set_update_subset_insert [THEN subsetD])
  moreover have "services_ok ?s"
    by (rule services_okI [OF p(2)]) (use assms(3,4) len in \<open>auto simp: handler_for_def nth_list_update\<close>)
  moreover have "sum_list (map ltok ((h_lq s)[l := ?q])) = sum_list (map ltok (h_lq s)) + {#i#}"
    using assms(3) len by (intro sum_push) simp_all
  then have "conserved {#} ?s" using p(3) by (simp add: conserved_def request_places_def)
  moreover have "pauses_ok n (pauses_told n st) ?s"
    by (rule same_pauses [OF p(4)]) (use assms(3) len in \<open>auto simp: nth_list_update\<close>)
  ultimately show ?thesis by (intro inv_frame [OF assms(1)]) (simp_all add: same_frame_def)
qed

lemma run_job_inv:
  assumes inv: "http_inv app n m st {#cx_req ctx#} s" and wb: "well_behaved app" and l: "l < length (h_services s)" and c: "ctx_ok s ctx cb"
  shows "yields (run_job app here (Job l ctx cb) s) (http_inv app n m st {#})"
proof (cases "h_status s = kRunning \<and> app cb ctx \<noteq> []")
  case False
  moreover have "silent_ok app s (cx_req ctx)" if "app cb ctx = []" using c that by (auto simp: ctx_ok_def silent_ok_def)
  ultimately show ?thesis using lost_inv [OF inv] silent_inv [OF inv] by (auto simp: run_job_def)
next
  case True
  note p = inv_parts [OF inv]
  have st: "st = SRun" using True p(5) by (cases st) auto
  obtain code data where a: "app cb ctx = [(code, data)]" using wb True unfolding well_behaved_def by metis
  let ?i = "cx_req ctx"
  let ?s = "s\<lparr>h_code := (h_code s)(?i := code)\<rparr>"
  have up: "h_loops s ! l = kRunning" using p(5,7) l unfolding st by (simp add: loops_are_def http_sizes_def)
  have an: "app_answers app ?s ?i (h_code ?s ?i) data" using c a by (auto simp: ctx_ok_def app_answers_def handler_for_def)
  have l': "l < length (h_services ?s)" "h_loops ?s ! l \<noteq> kStopped" using l up by simp_all
  have "yields (http_SendReply here l ?i data ?s) (http_inv app n m st {#})"
    using reply_task_inv [OF code_inv [OF inv] wb an l'] queue_reply_inv [OF code_inv [OF inv] an l'] up
    by (simp add: http_SendReply_def run_in_listen_def del: run_listen_task.simps)
  then show ?thesis using True a by (simp add: run_job_def)
qed

lemma HttpServer_GetNextLoop_ok:
  assumes "pl_status p = kRunning" "pushed p = m" "thread_num p = m" "m < 2 ^ 64" "HttpServer_GetNextLoop env policy ctx p = (c, p1)"
  shows "(pl_status p1, pushed p1, thread_num p1) = (pl_status p, pushed p, thread_num p)"
    and "c = ListenLoop \<or> (\<exists>w. c = WorkerLoop w \<and> w < m)"
proof -
  have u: "unat (of_nat m :: 64 word) = m" using assms(4) by (simp add: size_simps)
  show "(pl_status p1, pushed p1, thread_num p1) = (pl_status p, pushed p, thread_num p)" "c = ListenLoop \<or> (\<exists>w. c = WorkerLoop w \<and> w < m)"
    using assms u by (auto simp: HttpServer_GetNextLoop_def Pool_GetNextLoop_def GetNextLoopWithHash_def chosen_def Let_def unat_mod split: if_splits)
qed

end
