(* ===== verification/Evhttp_Server_Steps.thy ===== *)
theory Evhttp_Server_Steps
  imports Evhttp_Server_Inv
begin

text \<open>
  Every turn of a listening thread, of a worker and of the owner keeps the invariant of \<open>Evhttp_Server_Inv\<close>.
\<close>

section \<open>Listening threads\<close>

lemma busy_stage:
  assumes "http_inv app n m st H s" "in_listen_loop l s" "h_busy s ! l \<noteq> None"
  shows "pool_is m kRunning s" "\<forall>w < m. \<not> h_wdone s ! w" "l < n" "st \<noteq> SGone" "h_loops s ! l = kRunning"
proof -
  note p = inv_parts [OF assms(1)]
  have l: "st \<noteq> SGone" "l < n" "length (h_lq s) = n" using p(7) assms(2) by (auto simp: http_sizes_def in_listen_loop_def split: if_splits)
  have "l \<notin> set (h_paused s)" using p(4) l assms(3) by (auto simp: pauses_ok_def)
  then show "pool_is m kRunning s" "\<forall>w < m. \<not> h_wdone s ! w" "l < n" "st \<noteq> SGone" "h_loops s ! l = kRunning"
    using p(5) l by (cases st; auto simp: loops_are_def)+
qed

text \<open>A request leaves \<^verbatim>\<open>Dispatch\<close> with the loop that was chosen for it.\<close>

lemma leave_dispatch_inv:
  assumes inv: "http_inv app n m st {#} s" and l: "in_listen_loop l s" and b: "h_busy s ! l = Some (ctx, cb)" and h: "h_pool s = Some p0"
    and p1: "(pl_status p1, pushed p1, thread_num p1) = (pl_status p0, pushed p0, thread_num p0)"
  shows "http_inv app n m st {#cx_req ctx#} (s\<lparr>h_busy := (h_busy s)[l := None], h_pool := Some p1\<rparr>)"
proof -
  note p = inv_parts [OF inv]
  have len: "l < length (h_busy s)" "length (h_lq s) = length (h_busy s)" "length (h_services s) = length (h_busy s)"
    using p(7) l by (auto simp: http_sizes_def in_listen_loop_def)
  have run: "h_loops s ! l = kRunning" using busy_stage(5) [OF inv l] b by simp
  let ?s = "s\<lparr>h_busy := (h_busy s)[l := None], h_pool := Some p1\<rparr>"
  have "work_ok app ?s" using len by (intro work_okI [OF _ p(1)]) (auto simp: more_requests_def nth_list_update split: if_splits)
  moreover have "services_ok ?s" using len run by (intro services_okI [OF p(2)]) (auto simp: handler_for_def nth_list_update)
  moreover have "sum_list (map btok (h_busy s)) = sum_list (map btok ((h_busy s)[l := None])) + {#cx_req ctx#}"
    using len b by (intro sum_pop) simp_all
  then have "conserved {#cx_req ctx#} ?s" using p(3) by (simp add: conserved_def request_places_def ac_simps)
  moreover have "pauses_ok n (pauses_told n st) ?s"
    using len by (intro same_pauses [OF p(4)]) (auto simp: nth_list_update)
  ultimately show ?thesis using p1 h by (intro inv_frame [OF inv]) (simp_all add: same_frame_def)
qed

lemma queue_job_inv:
  assumes inv: "http_inv app n m st {#cx_req ctx#} s" and l: "l < length (h_services s)" and c: "ctx_ok s ctx cb" and w: "w < m" "\<not> h_wdone s ! w"
  shows "http_inv app n m st {#} (s\<lparr>h_wq := (h_wq s)[w := h_wq s ! w @ [Job l ctx cb]]\<rparr>)"
proof -
  note p = inv_parts [OF inv]
  have len: "w < length (h_wq s)" using p(7) w by (simp add: http_sizes_def)
  let ?q = "h_wq s ! w @ [Job l ctx cb]"
  let ?s = "s\<lparr>h_wq := (h_wq s)[w := ?q]\<rparr>"
  have "ctx_ok ?s ctx cb" using c by (simp add: ctx_ok_def handler_for_def)
  moreover have "h_wq s ! w \<in> set (h_wq s)" using len by simp
  ultimately have "work_ok app ?s" using l
    by (intro work_okI [OF _ p(1)]) (auto simp: more_requests_def dest!: set_update_subset_insert [THEN subsetD])
  moreover have "services_ok ?s" by (rule services_okI [OF p(2)]) (simp_all add: handler_for_def)
  moreover have "sum_list (map wtok ((h_wq s)[w := ?q])) = sum_list (map wtok (h_wq s)) + {#cx_req ctx#}"
    using len by (intro sum_push) simp_all
  then have "conserved {#} ?s" using p(3) by (simp add: conserved_def request_places_def)
  moreover have "h_wq ?s ! w' = []" if "h_wdone s ! w'" "h_wq s ! w' = []" for w' using w(2) that by (cases "w' = w") simp_all
  ultimately show ?thesis by (intro inv_frame [OF inv] same_pauses [OF p(4)]) (simp_all add: same_frame_def)
qed

lemma Dispatch_forward_inv:
  assumes inv: "http_inv app n m st {#} s" and wb: "well_behaved app" and l: "in_listen_loop l s" and b: "h_busy s ! l = Some (ctx, cb)"
  shows "yields (Dispatch_forward env app l ctx cb s) (http_inv app n m st {#})"
proof -
  note p = inv_parts [OF inv]
  have bs: "pool_is m kRunning s" "\<forall>w < m. \<not> h_wdone s ! w" "l < n" "st \<noteq> SGone" using busy_stage [OF inv l] b by simp_all
  obtain p0 where p0: "h_pool s = Some p0" "pl_status p0 = kRunning" "pushed p0 = m" "thread_num p0 = m"
    using bs(1) by (auto simp: pool_is_def split: option.splits)
  obtain c p1 where g: "HttpServer_GetNextLoop env (h_policy s) ctx p0 = (c, p1)" by (rule prod.exhaust)
  have m: "m < 2 ^ 64" "l < length (h_services s)" "l < length (h_busy s)" using p(7) bs(3,4) by (simp_all add: http_sizes_def)
  note q = HttpServer_GetNextLoop_ok [OF p0(2-4) m(1) g]
  note i = leave_dispatch_inv [OF inv l b p0(1) q(1)]
  have c: "ctx_ok s ctx cb" using p(1) b m(3) by (simp add: work_ok_def)
  let ?s = "s\<lparr>h_busy := (h_busy s)[l := None], h_pool := Some p1\<rparr>"
  have c': "ctx_ok ?s ctx cb" using c by (simp add: ctx_ok_def handler_for_def)
  have m': "l < length (h_services ?s)" using m by simp
  have "yields (run_job app True (Job l ctx cb) ?s) (http_inv app n m st {#})" by (rule run_job_inv [OF i wb m' c'])
  moreover have "http_inv app n m st {#} (?s\<lparr>h_wq := (h_wq ?s)[w := h_wq ?s ! w @ [Job l ctx cb]]\<rparr>)" if "w < m" for w
    using bs(2) that by (intro queue_job_inv [OF i m' c' that]) simp
  ultimately show ?thesis using q(2) p0(1) g by (auto simp: Dispatch_forward_def Let_def)
qed

text \<open>A listening thread that was told to stop ends once its queue is empty.\<close>

lemma listen_exit_inv:
  assumes inv: "http_inv app n m st {#} s" and l: "in_listen_loop l s" and b: "h_busy s ! l = None" and q: "h_lq s ! l = []" and k: "h_loops s ! l = kStopping"
  shows "yields (http_Stop True (h_services s ! l)) (\<lambda>sv. http_inv app n m st {#} ((set_service l sv s)\<lparr>h_loops := (h_loops s)[l := kStopped]\<rparr>))"
proof -
  note p = inv_parts [OF inv]
  have len: "st \<noteq> SGone" "l < n" "length (h_services s) = n" "length (h_loops s) = n" "length (h_busy s) = n" "length (h_lq s) = n"
    using p(7) l by (auto simp: http_sizes_def in_listen_loop_def split: if_splits)
  obtain i where st: "st = SHalf i" using p(5) len k by (cases st) (auto simp: loops_are_def split: if_splits)
  obtain x where x: "x = kStopping \<or> x = kStopped" "loops_are n (\<lambda>l. if l < i then kStopped else if l = i then x else kRunning) s"
    using p(5) st by auto
  have li: "l = i" using x(2) [unfolded loops_are_def, rule_format, OF len(2)] k by (auto split: if_splits)
  have "http_inv app n m st {#} ((set_service l sv s)\<lparr>h_loops := (h_loops s)[l := kStopped]\<rparr>)" (is "http_inv _ _ _ _ _ ?s")
    if "\<not> hs_evhttp sv" "\<not> hs_bound sv" for sv
  proof -
    have "http_sizes n m ?s" using p(7) len(1) by (simp add: http_sizes_def set_service_def)
    moreover have "loops_are n (\<lambda>l. if l < i then kStopped else if l = i then kStopped else kRunning) ?s"
      using x(2) li len by (auto simp: loops_are_def nth_list_update)
    then have "http_stage_ok n m st ?s" using p(5) unfolding st by (auto simp: pool_is_def set_service_def)
    moreover have "pauses_ok n (pauses_told n st) ?s" by (rule same_pauses [OF p(4)]) (simp_all add: set_service_def)
    moreover have "services_ok ?s"
      unfolding services_ok_def
    proof (intro allI impI)
      fix j assume "j < length (h_services ?s)"
      then show "if h_loops ?s ! j = kStopped then \<not> hs_evhttp (h_services ?s ! j) \<and> \<not> hs_bound (h_services ?s ! j) \<and> h_lq ?s ! j = [] \<and> h_busy ?s ! j = None
         else hs_evhttp (h_services ?s ! j) \<and> hs_gencb (h_services ?s ! j) \<and> (\<forall>path. route (h_services ?s ! j) path = handler_for ?s path)"
        using p(2) [unfolded services_ok_def, rule_format, of j] that q b len by (cases "j = l") (auto simp: set_service_def handler_for_def)
    qed
    moreover have "work_ok app ?s" by (rule work_okI [OF _ p(1)]) (auto simp: more_requests_def set_service_def)
    moreover have "conserved {#} ?s" using p(3) by (simp add: conserved_def request_places_def set_service_def)
    ultimately show ?thesis using p(6) st by (simp add: http_inv_def set_service_def)
  qed
  moreover have "hs_evhttp (h_services s ! l)" using p(2) len k by (simp add: services_ok_def)
  ultimately show ?thesis by (simp add: http_Stop_def Let_def)
qed

lemma listen_turn_inv:
  assumes "http_inv app n m st {#} s" "well_behaved app"
  shows "yields (listen_turn env app l s) (http_inv app n m st {#})"
proof (cases "in_listen_loop l s")
  case True
  then show ?thesis
    using Dispatch_forward_inv [OF assms True] listen_task_inv [OF assms True] listen_exit_inv [OF assms(1) True] assms(1)
    by (auto simp: listen_turn_def split: option.splits list.splits)
qed (use assms in \<open>simp add: listen_turn_def\<close>)

section \<open>Workers\<close>

lemma take_job_inv:
  assumes inv: "http_inv app n m st {#} s" and w: "w < m" and q: "h_wq s ! w = Job l ctx cb # rest"
  shows "http_inv app n m st {#cx_req ctx#} (s\<lparr>h_wq := (h_wq s)[w := rest]\<rparr>)"
    and "l < length (h_services s)" and "ctx_ok s ctx cb"
proof -
  note p = inv_parts [OF inv]
  have len: "w < length (h_wq s)" using p(7) w by (simp add: http_sizes_def)
  let ?s = "s\<lparr>h_wq := (h_wq s)[w := rest]\<rparr>"
  have mem: "\<exists>q \<in> set (h_wq s). t \<in> set q" if "t \<in> set rest" for t using in_queue [OF that q] len by simp
  have "work_ok app ?s" by (rule work_okI [OF _ p(1)]) (use mem in \<open>auto simp: more_requests_def dest!: set_update_subset_insert [THEN subsetD]\<close>)
  moreover have "services_ok ?s" by (rule services_okI [OF p(2)]) (simp_all add: handler_for_def)
  moreover have "sum_list (map wtok (h_wq s)) = sum_list (map wtok ((h_wq s)[w := rest])) + {#cx_req ctx#}"
    using len q by (intro sum_pop) simp_all
  then have "conserved {#cx_req ctx#} ?s" using p(3) by (simp add: conserved_def request_places_def ac_simps)
  moreover have "h_wq ?s ! w' = []" if "h_wq s ! w' = []" for w' using that q by (cases "w' = w") simp_all
  ultimately show "http_inv app n m st {#cx_req ctx#} ?s" by (intro inv_frame [OF inv] same_pauses [OF p(4)]) (simp_all add: same_frame_def)
  have "h_wq s ! w \<in> set (h_wq s)" using len by simp
  moreover have "Job l ctx cb \<in> set (h_wq s ! w)" using q by simp
  ultimately show "l < length (h_services s)" "ctx_ok s ctx cb" using p(1) unfolding work_ok_def by blast+
qed

lemma worker_exit_inv:
  assumes inv: "http_inv app n m st {#} s" and w: "w < m" and q: "h_wq s ! w = []" and k: "pool_is m kStopping s"
  shows "http_inv app n m st {#} (s\<lparr>h_wdone := (h_wdone s)[w := True]\<rparr>)"
proof -
  note p = inv_parts [OF inv]
  let ?s = "s\<lparr>h_wdone := (h_wdone s)[w := True]\<rparr>"
  have len: "length (h_wdone s) = m" using p(7) by (simp add: http_sizes_def)
  have st: "st = SPool" using p(5) k by (cases st) (auto simp: pool_is_def split: option.splits)
  have "http_sizes n m ?s" using p(7) st q w by (auto simp: http_sizes_def nth_list_update)
  moreover have "http_stage_ok n m st ?s" using p(5) unfolding st by (simp add: pool_is_def loops_are_def)
  moreover have "work_ok app ?s" by (rule work_okI [OF _ p(1)]) (auto simp: more_requests_def)
  moreover have "services_ok ?s" by (rule services_okI [OF p(2)]) (simp_all add: handler_for_def)
  moreover have "pauses_ok n (pauses_told n st) ?s" by (rule same_pauses [OF p(4)]) simp_all
  moreover have "conserved {#} ?s" using p(3) by (simp add: conserved_def request_places_def)
  ultimately show ?thesis using p(6) st by (simp add: http_inv_def)
qed

lemma pool_stopping:
  assumes "http_inv app n m st H s" "case h_pool s of None \<Rightarrow> False | Some p \<Rightarrow> pl_status p = kStopping"
  shows "pool_is m kStopping s" "st = SPool"
  using inv_parts(5) [OF assms(1)] assms(2) by (cases st; auto simp: pool_is_def split: option.splits)+

lemma worker_turn_inv:
  assumes "http_inv app n m st {#} s" "well_behaved app"
  shows "yields (worker_turn app w s) (http_inv app n m st {#})"
proof (cases "w < length (h_wq s) \<and> \<not> h_wdone s ! w")
  case True
  then have w: "w < m" using inv_parts(7) [OF assms(1)] by (simp add: http_sizes_def)
  show ?thesis
  proof (cases "h_wq s ! w")
    case Nil
    then show ?thesis using True worker_exit_inv [OF assms(1) w Nil] pool_stopping(1) [OF assms(1)] assms(1)
      by (simp add: worker_turn_def)
  next
    case (Cons j rest)
    obtain l ctx cb where j: "j = Job l ctx cb" by (cases j)
    note t = take_job_inv [OF assms(1) w Cons [unfolded j]]
    let ?s = "s\<lparr>h_wq := (h_wq s)[w := rest]\<rparr>"
    have "l < length (h_services ?s)" "ctx_ok ?s ctx cb" using t(2,3) by (simp_all add: ctx_ok_def handler_for_def)
    from run_job_inv [OF t(1) assms(2) this] show ?thesis using True Cons j by (simp add: worker_turn_def)
  qed
qed (use assms(1) in \<open>auto simp: worker_turn_def\<close>)

end
