(* ===== verification/Evhttp_Server_Stop.thy ===== *)
theory Evhttp_Server_Stop
  imports Evhttp_Server_Steps
begin

text \<open>
  The owner of the HTTP server: each of its steps keeps the invariant and moves on to the next stage of \<^verbatim>\<open>Stop\<close>, and once the server is stopping,
  steps use up a measure.
\<close>

section \<open>The measure\<close>

fun http_rank :: "nat \<Rightarrow> http_pc \<Rightarrow> nat" where
  "http_rank n (HPauseListen i) = 2 * (n - i) + 2 * n + 6"
| "http_rank n HWaitPaused = 2 * n + 5"
| "http_rank n HStopPool = 2 * n + 4"
| "http_rank n HWaitPool = 2 * n + 3"
| "http_rank n (HStopListen i) = 2 * (n - i) + 2"
| "http_rank n _ = 1"

text \<open>What the owner, the requests in \<^verbatim>\<open>Dispatch\<close>, the queues, the workers and the listening loops still have to do.\<close>

definition http_mu :: "nat \<Rightarrow> http_Server \<Rightarrow> nat" where
  "http_mu n s = sum_list (map (http_rank n) (h_owner s)) + sum_list (map (\<lambda>b. if b = None then 0 else 2) (h_busy s)) +
     sum_list (map length (h_wq s)) + sum_list (map length (h_lq s)) + sum_list (map (\<lambda>d. if d then 0 else 1) (h_wdone s)) +
     sum_list (map (\<lambda>st. if st = kStopped then 0 else 1) (h_loops s))"

section \<open>Steps of the owner\<close>

text \<open>A step that changes no queue and no service.\<close>

lemma owner_inv:
  assumes "http_inv app n m st {#} s" "st \<noteq> SGone" "st' \<noteq> SGone" "pauses_told n st' = pauses_told n st"
    "h_services s' = h_services s" "h_busy s' = h_busy s" "h_lq s' = h_lq s" "h_wq s' = h_wq s" "h_wdone s' = h_wdone s" "h_paused s' = h_paused s"
    "h_reqs s' = h_reqs s" "h_code s' = h_code s" "h_replies s' = h_replies s" "h_lost s' = h_lost s" "h_silent s' = h_silent s"
    "h_callbacks s' = h_callbacks s" "h_default s' = h_default s" "length (h_loops s') = length (h_loops s)"
    "\<And>l. l < n \<Longrightarrow> h_loops s' ! l = kStopped \<longleftrightarrow> h_loops s ! l = kStopped" "http_phase n (h_owner s') st'" "http_stage_ok n m st' s'"
  shows "http_inv app n m st' {#} s'"
proof -
  note p = inv_parts [OF assms(1)]
  have n: "length (h_services s) = n" using p(7) assms(2) by (simp add: http_sizes_def)
  have "work_ok app s'" by (rule work_okI [OF _ p(1)]) (use assms in \<open>auto simp: more_requests_def\<close>)
  moreover have "services_ok s'" using p(2) assms n by (simp add: services_ok_def handler_for_def)
  moreover have "conserved {#} s'" using p(3) assms by (simp add: conserved_def request_places_def)
  moreover have "http_sizes n m s'" using p(7) assms by (simp add: http_sizes_def)
  moreover have "pauses_ok n (pauses_told n st') s'" using p(4) assms by (simp add: pauses_ok_def)
  ultimately show ?thesis using assms by (simp add: http_inv_def)
qed

text \<open>A functor that is not a reply is queued to a listening loop.\<close>

lemma queue_task_inv:
  assumes inv: "http_inv app n m st {#} s" and i: "i < n" "st \<noteq> SGone" "st' \<noteq> SGone" and up: "h_loops s ! i \<noteq> kStopped" and t: "ltok [t] = {#}"
    and e: "s' = s\<lparr>h_lq := (h_lq s)[i := h_lq s ! i @ [t]], h_owner := k\<rparr>" and k: "http_phase n k st'" and st: "http_stage_ok n m st' s'"
    and ps: "pauses_ok n (pauses_told n st') s'"
  shows "http_inv app n m st' {#} s'"
proof -
  note p = inv_parts [OF inv]
  have len: "length (h_services s) = n" "length (h_lq s) = n" using p(7) i by (simp_all add: http_sizes_def)
  have nr: "t \<noteq> TReply j d" for j d using t by auto
  have mem: "\<exists>q \<in> set (h_lq s). TReply j d \<in> set q" if "TReply j d \<in> set (h_lq s ! i @ [t])" for j d
    using that nr [of j d] len i nth_mem [of i "h_lq s"] by auto
  have "work_ok app s'" unfolding e using mem
    by (intro work_okI [OF _ p(1)]) (auto simp: more_requests_def dest!: set_update_subset_insert [THEN subsetD])
  moreover have "services_ok s'" unfolding e
    by (rule services_okI [OF p(2)]) (use up len i in \<open>auto simp: handler_for_def nth_list_update\<close>)
  moreover have "sum_list (map ltok ((h_lq s)[i := h_lq s ! i @ [t]])) = sum_list (map ltok (h_lq s)) + {#}"
    using len i t by (intro sum_push) simp_all
  then have "conserved {#} s'" using p(3) unfolding e by (simp add: conserved_def request_places_def)
  moreover have "http_sizes n m s'" using p(7) i unfolding e by (simp add: http_sizes_def)
  ultimately show ?thesis using i k st ps unfolding e by (simp add: http_inv_def)
qed

lemma sum_none: "\<forall>x \<in> set xs. f x = (0 :: 'b :: comm_monoid_add) \<Longrightarrow> sum_list (map f xs) = 0"
  by (induction xs) simp_all

lemma delete_services_ok: "list_all (\<lambda>sv. \<not> hs_evhttp sv \<and> \<not> hs_bound sv) svs \<Longrightarrow> delete_services svs = Inr ()"
  by (induction svs) (simp_all add: http_Service_delete_def asserting_def)

text \<open>The last step of \<^verbatim>\<open>Stop\<close>, when all threads have ended.\<close>

lemma finish_inv:
  assumes inv: "http_inv app n m (SListen n) {#} s"
  shows "delete_services (h_services s) = Inr ()"
    and "http_inv app n m SGone {#} (s\<lparr>h_status := kStopped, h_pool := None, h_services := [], h_loops := [], h_busy := [], h_lq := [], h_owner := [HDelete]\<rparr>)"
      (is "http_inv _ _ _ _ _ ?s")
proof -
  note p = inv_parts [OF inv]
  have len: "length (h_services s) = n" "length (h_lq s) = n" "length (h_busy s) = n" "length (h_wq s) = m" using p(7) by (simp_all add: http_sizes_def)
  have gone: "\<not> hs_evhttp (h_services s ! l) \<and> \<not> hs_bound (h_services s ! l) \<and> h_lq s ! l = [] \<and> h_busy s ! l = None" if "l < n" for l
    using p(2) [unfolded services_ok_def, rule_format, of l] p(5) that len by (simp add: loops_are_def)
  show "delete_services (h_services s) = Inr ()" by (rule delete_services_ok) (use gone len in \<open>simp add: list_all_length\<close>)
  have wq: "\<forall>q \<in> set (h_wq s). q = []" using p(5,7) by (auto simp: http_sizes_def in_set_conv_nth)
  have lq: "\<forall>q \<in> set (h_lq s). q = []" and b: "\<forall>b \<in> set (h_busy s). b = None" using gone len by (auto simp: in_set_conv_nth)
  have "sum_list (map ltok (h_lq s)) = {#}" "sum_list (map btok (h_busy s)) = {#}" using lq b by (auto intro!: sum_none)
  then have "conserved {#} ?s" using p(3) by (simp add: conserved_def request_places_def)
  moreover have "work_ok app ?s"
    unfolding work_ok_def
  proof (intro conjI)
    show "\<forall>r \<in> set (h_replies ?s). reply_ok app ?s r" using p(1) more_requests_ok(3) [of s ?s] by (simp add: work_ok_def more_requests_def)
    show "\<forall>i \<in> set (h_silent ?s). silent_ok app ?s i" using p(1) more_requests_ok(4) [of s ?s] by (simp add: work_ok_def more_requests_def)
  qed (use wq in auto)
  moreover have "http_sizes 0 m ?s" using p(7) by (simp add: http_sizes_def)
  moreover have "pauses_ok n n ?s" using p(4) by (simp add: pauses_ok_def)
  ultimately show "http_inv app n m SGone {#} ?s" using http_phase.delete p(5) by (simp add: http_inv_def services_ok_def)
qed

text \<open>The next stage, and less to do when the server is stopping.\<close>

definition next_stage :: "application \<Rightarrow> nat \<Rightarrow> nat \<Rightarrow> http_stage \<Rightarrow> http_Server \<Rightarrow> http_Server \<Rightarrow> bool" where
  "next_stage app n m st s s' \<longleftrightarrow> (\<exists>st'. http_inv app n m st' {#} s' \<and> (st \<noteq> SRun \<longrightarrow> st' \<noteq> SRun \<and> http_mu n s' < http_mu n s))"

lemma next_stageI:
  "http_inv app n m st' {#} s' \<Longrightarrow> st = SRun \<or> st' \<noteq> SRun \<and> http_mu n s' < http_mu n s \<Longrightarrow> next_stage app n m st s s'"
  by (auto simp: next_stage_def)

lemma queued_mu:
  assumes "i < length (h_lq s)" "sum_list (map (http_rank n) k) + 1 < sum_list (map (http_rank n) (h_owner s))"
  shows "http_mu n (s\<lparr>h_lq := (h_lq s)[i := h_lq s ! i @ [t]], h_owner := k\<rparr>) < http_mu n s"
  using sum_push [of i "h_lq s" length "h_lq s ! i @ [t]" 1] assms by (simp add: http_mu_def)

lemma listen_running:
  assumes "http_inv app n m st H s" "st = SRun \<or> st = SPausing j" "i < n"
  shows "h_loops s ! i = kRunning" "i < length (h_lq s)" "length (h_services s) = n" "length (h_lq s) = n"
  using inv_parts(5,7) [OF assms(1)] assms(2,3) by (auto simp: loops_are_def http_sizes_def)

text \<open>\<^verbatim>\<open>Pause\<close>, \<^verbatim>\<open>Continue\<close> and the beginning of \<^verbatim>\<open>Stop\<close>.\<close>

lemma run_step:
  assumes inv: "http_inv app n m SRun {#} s" and o: "h_owner s = pc # k" and x: "http_exec pc s = Some r"
  shows "yields r (\<lambda>(new, s'). next_stage app n m SRun s (s'\<lparr>h_owner := new @ k\<rparr>))"
proof -
  note p = inv_parts [OF inv]
  have len: "length (h_services s) = n" "length (h_lq s) = n" using p(7) by (simp_all add: http_sizes_def)
  from p(6) obtain pre where ph: "h_owner s = pre @ [HStop, HDelete]" "list_all pausable pre" by cases auto
  have push: "http_inv app n m SRun {#} (s\<lparr>h_lq := (h_lq s)[i := h_lq s ! i @ [t]], h_owner := q # k\<rparr>)"
    if "i < n" "t = TPause \<or> t = TContinue" "pausable q" "pausable pc" for i t q
  proof (rule queue_task_inv [OF inv that(1), where st' = SRun])
    have "\<exists>pre'. k = pre' @ [HStop, HDelete] \<and> list_all pausable pre'"
      using ph o that(4) by (cases pre) (auto simp: pausable_def)
    then show "http_phase n (q # k) SRun" using that(3) http_phase.run [of "q # _" n] by auto
    show "h_loops s ! i \<noteq> kStopped" using p(5) that(1) by (simp add: loops_are_def)
    show "http_stage_ok n m SRun (s\<lparr>h_lq := (h_lq s)[i := h_lq s ! i @ [t]], h_owner := q # k\<rparr>)"
      using p(5) by (simp add: pool_is_def loops_are_def)
    show "pauses_ok n (pauses_told n SRun) (s\<lparr>h_lq := (h_lq s)[i := h_lq s ! i @ [t]], h_owner := q # k\<rparr>)"
      by (rule same_pauses [OF p(4)]) (use that len in \<open>auto simp: nth_list_update\<close>)
  qed (use that in auto)
  have pop: "http_inv app n m SRun {#} (s\<lparr>h_owner := k\<rparr>)" if "pausable pc"
  proof (rule owner_inv [OF inv, where st' = SRun])
    have "\<exists>pre'. k = pre' @ [HStop, HDelete] \<and> list_all pausable pre'"
      using ph o that by (cases pre) (auto simp: pausable_def)
    then show "http_phase n (h_owner (s\<lparr>h_owner := k\<rparr>)) SRun" using http_phase.run [of _ n] by auto
    show "http_stage_ok n m SRun (s\<lparr>h_owner := k\<rparr>)" using p(5) by (simp add: pool_is_def loops_are_def)
  qed simp_all
  show ?thesis
  proof (cases pre)
    case Nil
    let ?s = "s\<lparr>h_status := kStopping, h_sub := kStoppingListener, h_owner := [HPauseListen 0, HDelete]\<rparr>"
    have "http_inv app n m (SPausing 0) {#} ?s"
      using p(5) http_phase.pausing [of 0 n] by (intro owner_inv [OF inv]) (simp_all add: pool_is_def loops_are_def)
    then show ?thesis using Nil ph o x p(5) by (auto simp: http_exec_def intro!: next_stageI)
  next
    case (Cons q pre')
    then have q: "pausable pc" using ph o by simp
    then obtain i where i: "pc = HPause i \<or> pc = HContinue i" by (auto simp: pausable_def split: http_pc.splits)
    have "pausable (HPause j)" "pausable (HContinue j)" for j by (simp_all add: pausable_def)
    then show ?thesis using x i q
      by (auto simp: len http_exec_def Pause_exec_def Continue_exec_def run_in_listen_def intro!: next_stageI [where st' = SRun] push pop)
  qed
qed

text \<open>The stages of \<^verbatim>\<open>Stop\<close>.\<close>

lemma pausing_step:
  assumes inv: "http_inv app n m (SPausing i) {#} s" and o: "h_owner s = [HPauseListen i, HDelete]" and i: "i \<le> n" and x: "http_exec (HPauseListen i) s = Some r"
  shows "yields r (\<lambda>(new, s'). next_stage app n m (SPausing i) s (s'\<lparr>h_owner := new @ [HDelete]\<rparr>))"
proof (cases "i < n")
  case True
  note p = inv_parts [OF inv]
  note r = listen_running [OF inv _ True, of i, simplified]
  let ?s = "s\<lparr>h_lq := (h_lq s)[i := h_lq s ! i @ [TStopPause]], h_owner := [HPauseListen (Suc i), HDelete]\<rparr>"
  have "pauses_ok n (Suc i) ?s"
    unfolding pauses_ok_def
  proof (intro conjI allI impI)
    fix l assume l: "l < length (h_lq ?s)"
    then have c: "count_list (h_lq s ! l) TStopPause + of_bool (l \<in> set (h_paused s)) = of_bool (l < i)"
      using p(4) [unfolded pauses_ok_def] by simp
    show "count_list (h_lq ?s ! l) TStopPause + of_bool (l \<in> set (h_paused ?s)) = of_bool (l < Suc i)"
      using c l by (cases "l = i") (simp_all add: nth_list_update less_Suc_eq)
    show "h_busy ?s ! l = None" if "l \<in> set (h_paused ?s)" using p(4) [unfolded pauses_ok_def] l that by simp
  qed (use p(4) in \<open>simp_all add: pauses_ok_def\<close>)
  then have "http_inv app n m (SPausing (Suc i)) {#} ?s"
    using p(5) r True http_phase.pausing [of "Suc i" n]
    by (intro queue_task_inv [OF inv True, where t = TStopPause]) (simp_all add: pool_is_def loops_are_def)
  then show ?thesis using x True r queued_mu [of i s n "[HPauseListen (Suc i), HDelete]" TStopPause] o
    by (auto simp: http_exec_def run_in_listen_def intro!: next_stageI)
next
  case False
  then have e: "i = n" using i by simp
  note p = inv_parts [OF inv [unfolded e]]
  have "length (h_services s) = n" using p(7) by (simp add: http_sizes_def)
  moreover have "http_inv app n m (SPausing n) {#} (s\<lparr>h_owner := [HWaitPaused, HDelete]\<rparr>)"
    using p(5) http_phase.waiting [of n] by (intro owner_inv [OF inv [unfolded e]]) (simp_all add: pool_is_def loops_are_def)
  ultimately show ?thesis using x o e by (auto simp: http_exec_def http_mu_def intro!: next_stageI)
qed

lemma waiting_step:
  assumes inv: "http_inv app n m (SPausing n) {#} s" and o: "h_owner s = [HWaitPaused, HDelete]" and x: "http_exec HWaitPaused s = Some r"
  shows "yields r (\<lambda>(new, s'). next_stage app n m (SPausing n) s (s'\<lparr>h_owner := new @ [HDelete]\<rparr>))"
proof -
  note p = inv_parts [OF inv]
  have len: "length (h_services s) = n" using p(7) by (simp add: http_sizes_def)
  have q: "length (h_paused s) = n" "r = Inr ([HStopPool], s)" using x len by (auto simp: http_exec_def split: if_splits)
  have "set (h_paused s) = {..<n}"
    using p(4) q(1) by (intro card_subset_eq) (auto simp: pauses_ok_def distinct_card)
  then have "http_inv app n m SPaused {#} (s\<lparr>h_owner := [HStopPool, HDelete]\<rparr>)"
    using p(5) http_phase.paused [of n] by (intro owner_inv [OF inv]) (simp_all add: pool_is_def loops_are_def)
  then show ?thesis using q o by (auto simp: http_mu_def intro!: next_stageI)
qed

lemma pool_step:
  assumes inv: "http_inv app n m st {#} s" and o: "h_owner s = [pc, HDelete]" and st: "(pc, st) = (HStopPool, SPaused) \<or> (pc, st) = (HWaitPool, SPool)"
    and x: "http_exec pc s = Some r"
  shows "yields r (\<lambda>(new, s'). next_stage app n m st s (s'\<lparr>h_owner := new @ [HDelete]\<rparr>))"
  using st
proof
  assume "(pc, st) = (HStopPool, SPaused)"
  then have e: "pc = HStopPool" "st = SPaused" by simp_all
  note p = inv_parts [OF inv [unfolded e]]
  obtain p0 where p0: "h_pool s = Some p0" "pushed p0 = m" "thread_num p0 = m" using p(5) by (auto simp: pool_is_def split: option.splits)
  let ?s = "s\<lparr>h_sub := kStoppingThreadPool, h_pool := Some (p0\<lparr>pl_status := kStopping\<rparr>), h_owner := [HWaitPool, HDelete]\<rparr>"
  have "http_inv app n m SPool {#} ?s"
    using p(5) p0 http_phase.pool [of n] by (intro owner_inv [OF inv [unfolded e]]) (simp_all add: pool_is_def loops_are_def)
  then show ?thesis using x o p0 unfolding e by (auto simp: http_exec_def pool_status_def http_mu_def intro!: next_stageI)
next
  assume "(pc, st) = (HWaitPool, SPool)"
  then have e: "pc = HWaitPool" "st = SPool" by simp_all
  note p = inv_parts [OF inv [unfolded e]]
  obtain p0 where p0: "h_pool s = Some p0" "pushed p0 = m" "thread_num p0 = m" using p(5) by (auto simp: pool_is_def split: option.splits)
  have w: "list_all id (h_wdone s)" "r = ebind (pool_status kStopped s) (\<lambda>s1. Inr ([HStopListen 0], s1))"
    using x unfolding e by (auto simp: http_exec_def split: if_splits)
  have d: "\<forall>w < m. h_wdone s ! w" using w(1) p(7) by (simp add: http_sizes_def list_all_length)
  let ?s = "s\<lparr>h_pool := Some (p0\<lparr>pl_status := kStopped\<rparr>), h_owner := [HStopListen 0, HDelete]\<rparr>"
  have "http_inv app n m (SListen 0) {#} ?s"
    using p(5) p0 d http_phase.listen [of 0 n] by (intro owner_inv [OF inv [unfolded e]]) (simp_all add: pool_is_def loops_are_def)
  then show ?thesis using w o p0 unfolding e by (auto simp: pool_status_def http_mu_def intro!: next_stageI)
qed

lemma listen_step:
  assumes inv: "http_inv app n m (SListen i) {#} s" and o: "h_owner s = [HStopListen i, HDelete]" and i: "i \<le> n" and x: "http_exec (HStopListen i) s = Some r"
  shows "yields r (\<lambda>(new, s'). next_stage app n m (SListen i) s (s'\<lparr>h_owner := new @ [HDelete]\<rparr>))"
proof -
  note p = inv_parts [OF inv]
  have len: "length (h_loops s) = n" using p(7) by (simp add: http_sizes_def)
  show ?thesis
  proof (cases "i < n")
    case True
    let ?s = "s\<lparr>h_loops := (h_loops s)[i := kStopping], h_owner := [HWaitListen i, HStopListen (Suc i), HDelete]\<rparr>"
    have up: "h_loops s ! i = kRunning" using p(5) True by (simp add: loops_are_def)
    have "loops_are n (\<lambda>l. if l < i then kStopped else if l = i then kStopping else kRunning) ?s"
      using p(5) len by (auto simp: loops_are_def nth_list_update)
    then have "http_stage_ok n m (SHalf i) ?s" using p(5) by (auto simp: pool_is_def)
    then have "http_inv app n m (SHalf i) {#} ?s"
      using True len up http_phase.half [of i n] by (intro owner_inv [OF inv]) (auto simp: nth_list_update)
    moreover have "sum_list (map (\<lambda>st. if st = kStopped then 0 else 1) ((h_loops s)[i := kStopping])) =
        sum_list (map (\<lambda>st. if st = kStopped then 0 else (1 :: nat)) (h_loops s)) + 0"
      using True len up by (intro sum_push) simp_all
    then have "http_mu n ?s < http_mu n s" using o True by (simp add: http_mu_def)
    ultimately show ?thesis using x True len up by (auto simp: http_exec_def intro!: next_stageI)
  next
    case False
    then have e: "i = n" using i by simp
    have "http_inv app n m (SListen n) {#} (s\<lparr>h_owner := [HFinish, HDelete]\<rparr>)"
      using p(5) http_phase.finish [of n] unfolding e by (intro owner_inv [OF inv [unfolded e]]) (simp_all add: pool_is_def loops_are_def)
    then show ?thesis using x o e len by (auto simp: http_exec_def http_mu_def intro!: next_stageI)
  qed
qed

lemma half_step:
  assumes inv: "http_inv app n m (SHalf i) {#} s" and o: "h_owner s = [HWaitListen i, HStopListen (Suc i), HDelete]" and i: "i < n"
    and x: "http_exec (HWaitListen i) s = Some r"
  shows "yields r (\<lambda>(new, s'). next_stage app n m (SHalf i) s (s'\<lparr>h_owner := new @ [HStopListen (Suc i), HDelete]\<rparr>))"
proof -
  note p = inv_parts [OF inv]
  have h: "h_loops s ! i = kStopped" "r = Inr ([], s)" using x by (auto simp: http_exec_def split: if_splits)
  obtain y where y: "loops_are n (\<lambda>l. if l < i then kStopped else if l = i then y else kRunning) s" using p(5) by auto
  then have "y = kStopped" using h(1) i by (auto simp: loops_are_def)
  then have "loops_are n (\<lambda>l. if l < Suc i then kStopped else kRunning) s" using y by (auto simp: loops_are_def less_Suc_eq)
  then have "http_inv app n m (SListen (Suc i)) {#} (s\<lparr>h_owner := [HStopListen (Suc i), HDelete]\<rparr>)"
    using p(5) i http_phase.listen [of "Suc i" n] by (intro owner_inv [OF inv]) (simp_all add: pool_is_def loops_are_def)
  then show ?thesis using h o by (auto simp: http_mu_def intro!: next_stageI)
qed

lemma finish_step:
  assumes inv: "http_inv app n m (SListen n) {#} s" and o: "h_owner s = [HFinish, HDelete]" and x: "http_exec HFinish s = Some r"
  shows "yields r (\<lambda>(new, s'). next_stage app n m (SListen n) s (s'\<lparr>h_owner := new @ [HDelete]\<rparr>))"
  using finish_inv [OF inv] x o by (auto simp: http_exec_def http_mu_def intro!: next_stageI)

lemma gone_empty:
  assumes "http_inv app n m SGone H s"
  shows "h_services s = []" "h_loops s = []" "h_busy s = []" "h_lq s = []" "h_pool s = None" "\<forall>q \<in> set (h_wq s). q = []" "\<forall>d \<in> set (h_wdone s). d"
  using inv_parts(5,7) [OF assms] by (auto simp: http_sizes_def in_set_conv_nth)

lemma delete_step:
  assumes inv: "http_inv app n m SGone {#} s" and o: "h_owner s = [HDelete]" and x: "http_exec HDelete s = Some r"
  shows "yields r (\<lambda>(new, s'). next_stage app n m SGone s (s'\<lparr>h_owner := new\<rparr>))"
proof -
  note p = inv_parts [OF inv] and g = gone_empty [OF inv]
  let ?s = "s\<lparr>h_owner := []\<rparr>"
  have e: "s\<lparr>h_services := [], h_loops := [], h_busy := [], h_lq := [], h_owner := []\<rparr> = ?s" using g by simp
  have "work_ok app ?s" by (rule work_okI [OF _ p(1)]) (auto simp: more_requests_def)
  then have "http_inv app n m SGone {#} ?s"
    using p http_phase.gone [of n]
    by (simp add: http_inv_def http_sizes_def services_ok_def conserved_def request_places_def pauses_ok_def g)
  then show ?thesis using x g o by (auto simp: http_exec_def http_Server_delete_def Let_def http_mu_def e intro!: next_stageI)
qed

lemma http_owner_step:
  assumes inv: "http_inv app n m st {#} s" and o: "h_owner s = pc # k" and x: "http_exec pc s = Some r"
  shows "yields r (\<lambda>(new, s'). next_stage app n m st s (s'\<lparr>h_owner := new @ k\<rparr>))"
  using inv_parts(6) [OF inv]
proof cases
  case run
  then show ?thesis using run_step [of app n m s pc k r] inv o x by simp
next
  case (pausing i)
  then show ?thesis using pausing_step [of app n m i s r] inv o x by simp
next
  case waiting
  then show ?thesis using waiting_step [of app n m s r] inv o x by simp
next
  case paused
  then show ?thesis using pool_step [of app n m st s pc r] inv o x by simp
next
  case pool
  then show ?thesis using pool_step [of app n m st s pc r] inv o x by simp
next
  case (listen i)
  then show ?thesis using listen_step [of app n m i s r] inv o x by simp
next
  case (half i)
  then show ?thesis using half_step [of app n m i s r] inv o x by simp
next
  case finish
  then show ?thesis using finish_step [of app n m s r] inv o x by simp
next
  case delete
  then show ?thesis using delete_step [of app n m s r] inv o x by (simp add: split_def)
qed (use o in simp)

lemma http_owner_turn_inv:
  assumes "http_inv app n m st {#} s"
  shows "yields (http_turn env app OwnerTurn s) (\<lambda>s'. if http_owner_turn s = None then s' = s else next_stage app n m st s s')"
proof (cases "http_owner_turn s")
  case (Some r)
  then obtain pc k r' where o: "h_owner s = pc # k" "http_exec pc s = Some r'" "r = ebind r' (\<lambda>(new, s1). Inr (s1\<lparr>h_owner := new @ k\<rparr>))"
    by (auto simp: http_owner_turn_def split: list.splits)
  from http_owner_step [OF assms o(1,2)] show ?thesis using Some o(3) by (auto simp: http_turn_def split_def elim!: yields_mono)
qed (simp add: http_turn_def)

end
