(* ===== verification/Evhttp_Server_Props.thy ===== *)
theory Evhttp_Server_Props
  imports Evhttp_Server_Stop
begin

text \<open>
  What the evhttp based HTTP server promises under every schedule of its threads: requests are neither lost nor answered twice while the
  server runs, every reply is the application's, and \<^verbatim>\<open>Stop\<close> comes to an end.
\<close>

section \<open>Runs\<close>

lemma http_turn_inv:
  assumes "http_inv app n m st {#} s" "well_behaved app"
  shows "yields (http_turn env app e s) (\<lambda>s'. \<exists>st'. http_inv app n m st' {#} s' \<and> (e \<noteq> OwnerTurn \<longrightarrow> st' = st) \<and> (st \<noteq> SRun \<longrightarrow> st' \<noteq> SRun))"
proof (cases e)
  case OwnerTurn
  show ?thesis unfolding OwnerTurn
    by (rule yields_mono [OF http_owner_turn_inv [OF assms(1)]]) (use assms(1) in \<open>auto simp: next_stage_def split: if_splits\<close>)
next
  case (Request l d)
  then show ?thesis using yields_mono [OF request_inv [OF assms(1)]] by (auto simp: http_turn_def)
next
  case (ListenTurn l)
  then show ?thesis using yields_mono [OF listen_turn_inv [OF assms]] by (auto simp: http_turn_def)
next
  case (WorkerTurn w)
  then show ?thesis using yields_mono [OF worker_turn_inv [OF assms]] by (auto simp: http_turn_def)
qed

text \<open>No turn changes the handlers.\<close>

definition same_handlers :: "http_Server \<Rightarrow> http_Server \<Rightarrow> bool" where
  "same_handlers s s' \<longleftrightarrow> h_callbacks s' = h_callbacks s \<and> h_default s' = h_default s"

definition same_input :: "http_Server \<Rightarrow> http_Server \<Rightarrow> bool" where
  "same_input s s' \<longleftrightarrow> same_handlers s s' \<and> h_reqs s' = h_reqs s"

lemma send_handlers: "evhttp_send_reply r s = Inr s' \<Longrightarrow> same_input s s'"
  by (auto simp: evhttp_send_reply_def same_input_def same_handlers_def split: if_splits)

lemma task_handlers: "run_listen_task l t s = Inr s' \<Longrightarrow> same_input s s'"
  by (cases t)
    (auto simp: ebind_def set_service_def same_input_def same_handlers_def evhttp_send_reply_def split: sum.splits option.splits if_splits)

lemma respond_handlers: "respond here l i rs s = Inr s' \<Longrightarrow> same_input s s'"
proof (induction rs arbitrary: s)
  case (Cons r rs)
  obtain c d where r: "r = (c, d)" by (cases r)
  from Cons.prems obtain s1 where s1: "http_SendReply here l i d (s\<lparr>h_code := (h_code s)(i := c)\<rparr>) = Inr s1" "respond here l i rs s1 = Inr s'"
    unfolding r by (auto simp: ebind_def split: sum.splits)
  have "same_input s s1" using s1(1) task_handlers [of l "TReply i d" "s\<lparr>h_code := (h_code s)(i := c)\<rparr>" s1]
    by (auto simp: http_SendReply_def run_in_listen_def same_input_def same_handlers_def split: if_splits)
  then show ?case using Cons.IH [OF s1(2)] by (simp add: same_input_def same_handlers_def)
qed (simp add: same_input_def same_handlers_def)

lemma job_handlers: "run_job app here j s = Inr s' \<Longrightarrow> same_input s s'"
  using respond_handlers by (cases j) (force simp: run_job_def same_input_def same_handlers_def split: if_splits)

lemma exec_handlers: "http_exec pc s = Some (Inr (new, s')) \<Longrightarrow> same_handlers s s'"
  by (cases pc)
    (auto simp: http_exec_def ebind_def asserting_def same_handlers_def run_in_listen_def pool_status_def set_service_def Pause_exec_def Continue_exec_def
      http_Server_delete_def Let_def split: if_splits option.splits sum.splits)

lemma owner_handlers: "http_turn env app OwnerTurn s = Inr s' \<Longrightarrow> same_handlers s s'"
proof (cases "http_owner_turn s")
  case (Some r)
  assume "http_turn env app OwnerTurn s = Inr s'"
  with Some obtain pc k r' where o: "http_exec pc s = Some r'" "ebind r' (\<lambda>(new, s1). Inr (s1\<lparr>h_owner := new @ k\<rparr>)) = Inr s'"
    by (auto simp: http_turn_def http_owner_turn_def split: list.splits)
  from o(2) obtain new s1 where r': "r' = Inr (new, s1)" "s' = s1\<lparr>h_owner := new @ k\<rparr>" by (auto simp: ebind_def split: sum.splits)
  then show ?thesis using exec_handlers [of pc s new s1] o(1) by (simp add: same_handlers_def)
qed (simp add: http_turn_def same_handlers_def)

lemma request_handlers: "request_arrives l d s = Inr s' \<Longrightarrow> same_handlers s s'"
  using send_handlers [where s = "s\<lparr>h_reqs := h_reqs s @ [d]\<rparr>" and s' = s']
  by (auto simp: request_arrives_def ebind_def Let_def same_input_def same_handlers_def Dispatch_test_def split: if_splits sum.splits http_action.splits)

lemma listen_handlers:
  assumes "listen_turn env app l s = Inr s'"
  shows "same_input s s'"
proof -
  have j: "same_input s s'" if "run_job app True jb (s\<lparr>h_busy := b, h_pool := q\<rparr>) = Inr s'" for jb b q
    using job_handlers [OF that] by (simp add: same_input_def same_handlers_def)
  have k: "same_input s s'" if "run_listen_task l tk (s\<lparr>h_lq := b\<rparr>) = Inr s'" for tk b
    using task_handlers [OF that] by (simp add: same_input_def same_handlers_def)
  have h: "same_input s s'" if "Dispatch_forward env app l ctx cb s = Inr s'" for ctx cb
    using that j by (auto simp: Dispatch_forward_def Let_def same_input_def same_handlers_def split: option.splits prod.splits loop_choice.splits)
  show ?thesis
  proof (cases "\<not> in_listen_loop l s \<or> h_busy s ! l \<noteq> None")
    case True
    then show ?thesis using assms h by (auto simp: listen_turn_def same_input_def same_handlers_def split: if_splits)
  next
    case False
    then have b: "h_busy s ! l = None" "in_listen_loop l s" by (cases "h_busy s ! l"; simp)+
    show ?thesis using assms k by (auto simp: b listen_turn_def same_input_def same_handlers_def ebind_def set_service_def split: if_splits list.splits sum.splits)
  qed
qed

lemma worker_handlers:
  assumes "worker_turn app w s = Inr s'"
  shows "same_input s s'"
proof -
  have "same_input s s'" if "run_job app False jb (s\<lparr>h_wq := b\<rparr>) = Inr s'" for jb b
    using job_handlers [OF that] by (simp add: same_input_def same_handlers_def)
  then show ?thesis using assms by (cases "h_wq s ! w") (auto simp: worker_turn_def same_input_def same_handlers_def split: if_splits)
qed

lemma turn_handlers: "http_turn env app e s = Inr s' \<Longrightarrow> same_handlers s s'"
  using owner_handlers request_handlers listen_handlers worker_handlers by (cases e) (auto simp: http_turn_def same_input_def)

lemma http_run_inv:
  assumes "http_inv app n m st {#} s" "well_behaved app"
  shows "yields (run_all (http_turn env app) evs s) (\<lambda>s'. same_handlers s s' \<and> (\<exists>st'. http_inv app n m st' {#} s' \<and> (st \<noteq> SRun \<longrightarrow> st' \<noteq> SRun)))"
  using assms(1)
proof (induction evs arbitrary: st s)
  case (Cons e evs)
  from http_turn_inv [OF Cons.prems assms(2), of env e] obtain s1 st1 where s1: "http_turn env app e s = Inr s1" "http_inv app n m st1 {#} s1" "st \<noteq> SRun \<longrightarrow> st1 \<noteq> SRun"
    by (auto elim!: yieldsE)
  have "yields (run_all (http_turn env app) evs s1) (\<lambda>s'. same_handlers s s' \<and> (\<exists>st'. http_inv app n m st' {#} s' \<and> (st \<noteq> SRun \<longrightarrow> st' \<noteq> SRun)))"
    by (rule yields_mono [OF Cons.IH [OF s1(2)]]) (use s1(3) turn_handlers [OF s1(1)] in \<open>auto simp: same_handlers_def\<close>)
  then show ?case using s1(1) by simp
qed (auto simp: same_handlers_def)

lemma distinct_part:
  assumes "mset xs \<subseteq># mset ys" "distinct ys"
  shows "distinct xs"
proof -
  obtain zs where "mset ys = mset (xs @ zs)" using assms(1) by (metis ex_mset mset_append subset_mset.le_iff_add)
  then show ?thesis using assms(2) mset_eq_imp_distinct_iff by (metis distinct_append)
qed

section \<open>A server that has started\<close>

text \<open>A server after \<^verbatim>\<open>Start\<close>, before the first request, with \<open>n\<close> listening threads and \<open>m\<close> workers.\<close>

definition http_up :: "nat \<Rightarrow> nat \<Rightarrow> http_Server \<Rightarrow> bool" where
  "http_up n m s \<longleftrightarrow> h_status s = kRunning \<and> pool_is m kRunning s \<and> m < 2 ^ 64 \<and> length (h_services s) = n \<and> h_loops s = replicate n kRunning \<and>
     h_busy s = replicate n None \<and> h_lq s = replicate n [] \<and> h_wq s = replicate m [] \<and> h_wdone s = replicate m False \<and> h_paused s = [] \<and>
     h_reqs s = [] \<and> h_replies s = [] \<and> h_lost s = [] \<and> h_silent s = [] \<and>
     list_all (\<lambda>sv. hs_evhttp sv \<and> hs_gencb sv \<and> route sv = handler_for s) (h_services s)"

text \<open>Its owner may call \<^verbatim>\<open>Pause\<close> and \<^verbatim>\<open>Continue\<close>, then \<^verbatim>\<open>Stop\<close> and the destructor.\<close>

definition http_owner_plan :: "http_pc list \<Rightarrow> bool" where
  "http_owner_plan os \<longleftrightarrow> (\<exists>pre. os = pre @ [HStop, HDelete] \<and> list_all pausable pre)"

lemma http_up_inv:
  assumes "http_up n m s" "http_owner_plan (h_owner s)"
  shows "http_inv app n m SRun {#} s"
proof -
  have "http_phase n (h_owner s) SRun" using assms(2) http_phase.run by (auto simp: http_owner_plan_def)
  moreover have "services_ok s" using assms(1) by (simp add: services_ok_def http_up_def list_all_length)
  moreover have "sum_list (map btok (replicate n None)) = {#}" "sum_list (map wtok (replicate m [])) = {#}" "sum_list (map ltok (replicate n [])) = {#}"
    by (rule sum_none, simp)+
  then have "request_places s = {#}" using assms(1) by (simp add: http_up_def request_places_def del: map_replicate)
  then have "conserved {#} s" using assms(1) by (simp add: conserved_def http_up_def)
  ultimately show ?thesis using assms(1)
    by (auto simp: http_inv_def http_up_def http_sizes_def loops_are_def pauses_ok_def work_ok_def)
qed

text \<open>A server with one listening thread, \<open>m\<close> workers and one handler, and an application that always responds.\<close>

definition demo_server :: "nat \<Rightarrow> http_Server" where
  "demo_server m =
     \<lparr>h_status = kRunning, h_sub = kSubStatusNull,
      h_services = [\<lparr>hs_port = 80, hs_evhttp = True, hs_bound = True, hs_accepts = True, hs_gencb = True, hs_callbacks = [(''/a'', 7)], hs_default = None\<rparr>],
      h_loops = [kRunning], h_busy = [None], h_pool = Some ((Pool_new m [])\<lparr>pl_status := kRunning, pushed := m\<rparr>), h_policy = kRoundRobin,
      h_callbacks = [(''/a'', 7)], h_default = None, h_lq = [[]], h_wq = replicate m [], h_wdone = replicate m False, h_paused = [], h_reqs = [],
      h_code = (\<lambda>_. 200), h_replies = [], h_lost = [], h_silent = [], h_owner = [HStop, HDelete]\<rparr>"

definition demo_request :: http_request_data where
  "demo_request = \<lparr>er_post = False, er_uri = ''/a'', er_path = ''/a'', er_remote_host = ''h'', er_input = [], er_in_headers = []\<rparr>"

definition demo_app :: application where
  "demo_app cb ctx = [(200, ''ok'')]"

definition demo_env :: http_env where
  "demo_env = \<lparr>he_addr = (\<lambda>_. None), he_hash = (\<lambda>_. 0)\<rparr>"

lemma demo_ok: "well_behaved demo_app" "m < 2 ^ 64 \<Longrightarrow> http_up 1 m (demo_server m)" "http_owner_plan (h_owner (demo_server m))"
  by (auto simp: well_behaved_def demo_app_def http_up_def demo_server_def pool_is_def Pool_new_def route_def handler_for_def handler_in_def fun_eq_iff
      http_owner_plan_def)

text \<open>C9. Whatever the schedule of the owner (which pauses, continues, stops and destroys a started server), the listening threads, the workers and the requests that
  arrive: nothing fails; each request that arrived is at exactly one place, in \<^verbatim>\<open>Dispatch\<close>, in a queue, answered, dropped or left to the application;
  no request is answered twice, and each reply is the one the application gave to this request, or status 400 if no handler is registered for its path;
  and no request is dropped as long as the server runs.\<close>

theorem http_requests_conserved:
  assumes "well_behaved app" "http_up n m s" "http_owner_plan (h_owner s)"
  shows "\<exists>s'. run_all (http_turn env app) evs s = Inr s' \<and> same_handlers s s' \<and>
    request_places s' = mset [0..<length (h_reqs s')] \<and> distinct (map hr_req (h_replies s')) \<and>
    list_all (reply_ok app s') (h_replies s') \<and> list_all (silent_ok app s') (h_silent s') \<and> (h_status s' = kRunning \<longrightarrow> h_lost s' = [])"
proof -
  from http_run_inv [OF http_up_inv [OF assms(2,3)] assms(1), of env evs] obtain s' st' where
    s': "run_all (http_turn env app) evs s = Inr s'" "same_handlers s s'" "http_inv app n m st' {#} s'" by (auto elim!: yieldsE)
  note p = inv_parts [OF s'(3)]
  have c: "request_places s' = mset [0..<length (h_reqs s')]" using p(3) by (simp add: conserved_def)
  have "mset (map hr_req (h_replies s')) \<subseteq># request_places s'" by (simp add: request_places_def)
  then have "mset (map hr_req (h_replies s')) \<subseteq># mset [0..<length (h_reqs s')]" unfolding c .
  then have "distinct (map hr_req (h_replies s'))" by (rule distinct_part) simp
  moreover have "h_status s' = kRunning \<longrightarrow> h_lost s' = []" using p(5) by (cases st') auto
  ultimately show ?thesis using s' c p(1) by (auto simp: list_all_iff work_ok_def)
qed

theorem http_requests_conserved_witness:
  "\<exists>s'. run_all (http_turn demo_env demo_app) [Request 0 demo_request, OwnerTurn, ListenTurn 0, WorkerTurn 0] (demo_server 1) = Inr s' \<and>
    same_handlers (demo_server 1) s' \<and> request_places s' = mset [0..<length (h_reqs s')] \<and> distinct (map hr_req (h_replies s')) \<and>
    list_all (reply_ok demo_app s') (h_replies s') \<and> list_all (silent_ok demo_app s') (h_silent s') \<and> (h_status s' = kRunning \<longrightarrow> h_lost s' = [])"
  by (rule http_requests_conserved [OF demo_ok(1) demo_ok(2) demo_ok(3)]) simp

text \<open>The shape of the state: a service, a loop, a place in \<^verbatim>\<open>Dispatch\<close> and a queue for each listening thread, as long as there are any, a queue for each worker,
  and every job names a listening thread that exists, a request that arrived with the context made from it, and the handler of its path.\<close>

definition http_wf :: "nat \<Rightarrow> nat \<Rightarrow> http_Server \<Rightarrow> bool" where
  "http_wf n m s \<longleftrightarrow> length (h_services s) = (if h_status s = kStopped then 0 else n) \<and> length (h_loops s) = length (h_services s) \<and>
     length (h_busy s) = length (h_services s) \<and> length (h_lq s) = length (h_services s) \<and> length (h_wq s) = m \<and> length (h_wdone s) = m \<and>
     list_all (list_all (\<lambda>j. case j of Job l ctx cb \<Rightarrow> l < length (h_services s) \<and> ctx_ok s ctx cb)) (h_wq s) \<and>
     list_all (\<lambda>b. case b of None \<Rightarrow> True | Some (ctx, cb) \<Rightarrow> ctx_ok s ctx cb) (h_busy s) \<and>
     list_all (\<lambda>l. l < n) (h_paused s) \<and> distinct (h_paused s)"

lemma http_inv_wf:
  assumes "http_inv app n m st {#} s"
  shows "http_wf n m s"
proof -
  note p = inv_parts [OF assms]
  have g: "h_status s = kStopped \<longleftrightarrow> st = SGone" using p(5) by (cases st) auto
  have "list_all (list_all (\<lambda>j. case j of Job l ctx cb \<Rightarrow> l < length (h_services s) \<and> ctx_ok s ctx cb)) (h_wq s)"
    using p(1) by (auto simp: work_ok_def list_all_iff split: worker_task.splits)
  moreover have "list_all (\<lambda>b. case b of None \<Rightarrow> True | Some (ctx, cb) \<Rightarrow> ctx_ok s ctx cb) (h_busy s)"
    using p(1) by (auto simp: work_ok_def list_all_length split: option.splits)
  moreover have "list_all (\<lambda>l. l < n) (h_paused s)" "distinct (h_paused s)" using p(4) by (auto simp: pauses_ok_def list_all_iff)
  ultimately show ?thesis using p(7) g by (auto simp: http_wf_def http_sizes_def split: if_splits)
qed

text \<open>C36. However the threads of a started HTTP server interleave and whatever requests arrive, its state keeps its shape: one service, loop and queue for each
  listening thread until the server is stopped, one queue for each worker, and jobs that belong to existing listening threads, requests and handlers.\<close>

theorem http_state_shape:
  assumes "well_behaved app" "http_up n m s" "http_owner_plan (h_owner s)"
  shows "yields (run_all (http_turn env app) evs s) (http_wf n m)"
  by (rule yields_mono [OF http_run_inv [OF http_up_inv [OF assms(2,3)] assms(1)]]) (use http_inv_wf in blast)

theorem http_state_shape_witness:
  "yields (run_all (http_turn demo_env demo_app) [Request 0 demo_request, ListenTurn 0, OwnerTurn, WorkerTurn 0] (demo_server 1)) (http_wf 1 1)"
  by (rule http_state_shape [OF demo_ok(1) demo_ok(2) demo_ok(3)]) simp

section \<open>Getting on\<close>

text \<open>A process that gets on at its next turn: an owner that does not wait, a listening thread with something to do, a worker with a job or one that is to end.\<close>

fun http_helpful :: "http_event \<Rightarrow> http_Server \<Rightarrow> bool" where
  "http_helpful OwnerTurn s \<longleftrightarrow> http_owner_turn s \<noteq> None"
| "http_helpful (Request l d) s \<longleftrightarrow> False"
| "http_helpful (ListenTurn l) s \<longleftrightarrow> in_listen_loop l s \<and> (h_busy s ! l \<noteq> None \<or> h_lq s ! l \<noteq> [] \<or> h_loops s ! l = kStopping)"
| "http_helpful (WorkerTurn w) s \<longleftrightarrow> w < length (h_wq s) \<and> \<not> h_wdone s ! w \<and>
     (h_wq s ! w \<noteq> [] \<or> (case h_pool s of None \<Rightarrow> False | Some p \<Rightarrow> pl_status p = kStopping))"

text \<open>Only the record of requests, replies and drops has changed.\<close>

definition only_logged :: "http_Server \<Rightarrow> http_Server \<Rightarrow> bool" where
  "only_logged s s' \<longleftrightarrow> (\<exists>rq rp ls. s' = s\<lparr>h_reqs := rq, h_replies := rp, h_lost := ls\<rparr>)"

lemma logged_refl [simp]: "only_logged s s"
  unfolding only_logged_def by (intro exI [of _ "h_reqs s"] exI [of _ "h_replies s"] exI [of _ "h_lost s"]) simp

lemma logged_exec: "http_exec pc (s\<lparr>h_reqs := rq, h_replies := rp, h_lost := ls\<rparr>) = None \<longleftrightarrow> http_exec pc s = None"
  by (cases pc) (simp_all add: http_exec_def http_Server_delete_def)

lemma logged_same:
  assumes "only_logged s s'"
  shows "http_mu n s' = http_mu n s" "http_helpful e s' = http_helpful e s"
proof -
  obtain rq rp ls where e: "s' = s\<lparr>h_reqs := rq, h_replies := rp, h_lost := ls\<rparr>" using assms by (auto simp: only_logged_def)
  show "http_mu n s' = http_mu n s" unfolding e by (simp add: http_mu_def)
  have "http_owner_turn s' = None \<longleftrightarrow> http_owner_turn s = None" unfolding e
    by (simp add: http_owner_turn_def logged_exec split: list.splits)
  then show "http_helpful e s' = http_helpful e s" unfolding e by (cases e) (simp_all add: in_listen_loop_def)
qed

text \<open>Requests that arrive at a server that does not run any more give it no work.\<close>

lemma request_logged:
  assumes "h_status s \<noteq> kRunning" "request_arrives l d s = Inr s'"
  shows "only_logged s s'"
proof -
  have a: "only_logged s (s\<lparr>h_reqs := rq, h_replies := rp\<rparr>)" for rq rp
    unfolding only_logged_def by (intro exI [of _ rq] exI [of _ rp] exI [of _ "h_lost s"]) simp
  have b: "only_logged s (s\<lparr>h_reqs := rq, h_lost := ls\<rparr>)" for rq ls
    unfolding only_logged_def by (intro exI [of _ rq] exI [of _ "h_replies s"] exI [of _ ls]) simp
  show ?thesis using assms a b
    by (auto simp: request_arrives_def HandleRequest_routes Let_def evhttp_send_reply_def Dispatch_test_def split: if_splits option.splits)
qed

lemma task_mu: "run_listen_task l t s = Inr s' \<Longrightarrow> http_mu n s' = http_mu n s"
  by (cases t)
    (auto simp: ebind_def set_service_def http_mu_def evhttp_send_reply_def split: sum.splits option.splits if_splits)

lemma job_lost: "h_status s \<noteq> kRunning \<Longrightarrow> run_job app here (Job l ctx cb) s = Inr (s\<lparr>h_lost := h_lost s @ [cx_req ctx]\<rparr>)"
  by (simp add: run_job_def)

lemma listen_mu:
  assumes inv: "http_inv app n m st {#} s" and st: "h_status s \<noteq> kRunning" and t: "listen_turn env app l s = Inr s'" and h: "http_helpful (ListenTurn l) s"
  shows "http_mu n s' < http_mu n s"
proof -
  have l: "l < length (h_busy s)" "l < length (h_lq s)" "l < length (h_loops s)" "in_listen_loop l s"
    using h inv_parts(7) [OF inv] by (auto simp: in_listen_loop_def http_sizes_def)
  show ?thesis
  proof (cases "h_busy s ! l")
    case (Some b)
    obtain ctx cb where b: "b = (ctx, cb)" by (cases b)
    have f: "Dispatch_forward env app l ctx cb s = Inr s'" using t l Some b by (simp add: listen_turn_def)
    obtain p0 where p0: "h_pool s = Some p0" "pl_status p0 = kRunning" "pushed p0 = m" "thread_num p0 = m"
      using busy_stage(1) [OF inv l(4)] Some by (auto simp: pool_is_def split: option.splits)
    obtain c p1 where g: "HttpServer_GetNextLoop env (h_policy s) ctx p0 = (c, p1)" by (rule prod.exhaust)
    have m: "m < 2 ^ 64" "length (h_wq s) = m" using inv_parts(7) [OF inv] by (simp_all add: http_sizes_def)
    note q = HttpServer_GetNextLoop_ok(2) [OF p0(2-4) m(1) g]
    have pop: "sum_list (map (\<lambda>b. if b = None then 0 else 2) (h_busy s)) = sum_list (map (\<lambda>b. if b = None then 0 else 2) ((h_busy s)[l := None])) + (2 :: nat)"
      using l Some by (intro sum_pop) simp_all
    have push: "sum_list (map length ((h_wq s)[w := h_wq s ! w @ [j]])) = sum_list (map length (h_wq s)) + 1" if "w < m" for w j
      using that m(2) by (intro sum_push) simp_all
    show ?thesis using f q pop push p0(1) g st by (auto simp: Dispatch_forward_def Let_def job_lost http_mu_def)
  next
    case None
    show ?thesis
    proof (cases "h_lq s ! l")
      case Nil
      have k: "h_loops s ! l = kStopping" using h None Nil by simp
      have "sum_list (map (\<lambda>st. if st = kStopped then 0 else 1) (h_loops s)) =
          sum_list (map (\<lambda>st. if st = kStopped then 0 else 1) ((h_loops s)[l := kStopped])) + (1 :: nat)"
        using l k by (intro sum_pop) simp_all
      then show ?thesis using t l None Nil k by (auto simp: listen_turn_def http_mu_def set_service_def http_Stop_def Let_def)
    next
      case (Cons x rest)
      have "run_listen_task l x (s\<lparr>h_lq := (h_lq s)[l := rest]\<rparr>) = Inr s'" using t l None Cons by (simp add: listen_turn_def)
      from task_mu [OF this] have "http_mu n s' = http_mu n (s\<lparr>h_lq := (h_lq s)[l := rest]\<rparr>)" .
      moreover have "sum_list (map length (h_lq s)) = sum_list (map length ((h_lq s)[l := rest])) + 1" using l Cons by (intro sum_pop) simp_all
      ultimately show ?thesis by (simp add: http_mu_def)
    qed
  qed
qed

lemma worker_mu:
  assumes inv: "http_inv app n m st {#} s" and st: "h_status s \<noteq> kRunning" and t: "worker_turn app w s = Inr s'" and h: "http_helpful (WorkerTurn w) s"
  shows "http_mu n s' < http_mu n s"
proof -
  have w: "w < length (h_wq s)" "w < length (h_wdone s)" "\<not> h_wdone s ! w" using h inv_parts(7) [OF inv] by (auto simp: http_sizes_def)
  show ?thesis
  proof (cases "h_wq s ! w")
    case Nil
    have "sum_list (map (\<lambda>d. if d then 0 else 1) (h_wdone s)) = sum_list (map (\<lambda>d. if d then 0 else 1) ((h_wdone s)[w := True])) + (1 :: nat)"
      using w by (intro sum_pop) simp_all
    then show ?thesis using t w h Nil by (auto simp: worker_turn_def http_mu_def)
  next
    case (Cons j rest)
    obtain l ctx cb where j: "j = Job l ctx cb" by (cases j)
    have "sum_list (map length (h_wq s)) = sum_list (map length ((h_wq s)[w := rest])) + 1" using w Cons by (intro sum_pop) simp_all
    then show ?thesis using t w st Cons j by (auto simp: worker_turn_def job_lost http_mu_def)
  qed
qed

lemma idle_turns:
  "\<not> http_helpful (ListenTurn l) s \<Longrightarrow> listen_turn env app l s = Inr s" "\<not> http_helpful (WorkerTurn w) s \<Longrightarrow> worker_turn app w s = Inr s"
  by (auto simp: listen_turn_def worker_turn_def split: option.splits list.splits)

section \<open>Stop ends\<close>

definition http_stopping :: "application \<Rightarrow> nat \<Rightarrow> nat \<Rightarrow> http_Server \<Rightarrow> bool" where
  "http_stopping app n m s \<longleftrightarrow> well_behaved app \<and> 0 < n \<and> (\<exists>st. st \<noteq> SRun \<and> http_inv app n m st {#} s)"

lemma stopping_status: "http_inv app n m st H s \<Longrightarrow> st \<noteq> SRun \<longleftrightarrow> h_status s \<noteq> kRunning"
  using inv_parts(5) [of app n m st H s] by (cases st) auto

lemma stopping_turn:
  assumes "http_stopping app n m s"
  shows "yields (http_turn env app e s) (\<lambda>s'. http_stopping app n m s' \<and> (http_mu n s' < http_mu n s \<or> only_logged s s' \<and> \<not> http_helpful e s))"
proof -
  obtain st where wb: "well_behaved app" and n: "0 < n" and st: "st \<noteq> SRun" "http_inv app n m st {#} s" using assms by (auto simp: http_stopping_def)
  have ns: "h_status s \<noteq> kRunning" using stopping_status [OF st(2)] st(1) by simp
  from http_turn_inv [OF st(2) wb, of env e] obtain s' st' where s': "http_turn env app e s = Inr s'" "http_inv app n m st' {#} s'" "st' \<noteq> SRun"
    using st(1) by (auto elim!: yieldsE)
  have "http_mu n s' < http_mu n s \<or> only_logged s s' \<and> \<not> http_helpful e s"
  proof (cases e)
    case OwnerTurn
    then show ?thesis using http_owner_turn_inv [OF st(2), of env] s'(1) st(1) by (auto simp: next_stage_def split: if_splits)
  next
    case (Request l d)
    then show ?thesis using request_logged [OF ns, of l d s'] s'(1) by (simp add: http_turn_def)
  next
    case (ListenTurn l)
    then show ?thesis using listen_mu [OF st(2) ns, of env l s'] idle_turns(1) [of l s env app] s'(1)
      by (cases "http_helpful (ListenTurn l) s") (simp_all add: http_turn_def del: http_helpful.simps)
  next
    case (WorkerTurn w)
    then show ?thesis using worker_mu [OF st(2) ns, of w s'] idle_turns(2) [of w s app] s'(1)
      by (cases "http_helpful (WorkerTurn w) s") (simp_all add: http_turn_def del: http_helpful.simps)
  qed
  then show ?thesis using s' wb n by (auto simp: http_stopping_def)
qed

definition http_procs :: "nat \<Rightarrow> nat \<Rightarrow> http_event set" where
  "http_procs n m = {OwnerTurn} \<union> ListenTurn ` {..<n} \<union> WorkerTurn ` {..<m}"

lemma stopping_someone:
  assumes "http_stopping app n m s" "http_mu n s \<noteq> 0"
  shows "\<exists>e \<in> http_procs n m. http_helpful e s"
proof -
  obtain st where n: "0 < n" and st: "st \<noteq> SRun" "http_inv app n m st {#} s" using assms by (auto simp: http_stopping_def)
  note p = inv_parts [OF st(2)]
  have owner: ?thesis if "http_owner_turn s \<noteq> None" using that by (intro bexI [of _ OwnerTurn]) (simp_all add: http_procs_def)
  have listen: ?thesis if "l < n" "http_helpful (ListenTurn l) s" for l using that by (intro bexI [of _ "ListenTurn l"]) (simp_all add: http_procs_def)
  have worker: ?thesis if "w < m" "http_helpful (WorkerTurn w) s" for w using that by (intro bexI [of _ "WorkerTurn w"]) (simp_all add: http_procs_def)
  from p(6) show ?thesis
  proof cases
    case run
    then show ?thesis using st by simp
  next
    case waiting
    have len: "length (h_services s) = n" "length (h_lq s) = n" "length (h_loops s) = n" using p(7) waiting by (simp_all add: http_sizes_def)
    show ?thesis
    proof (cases "{..<n} \<subseteq> set (h_paused s)")
      case True
      then have "set (h_paused s) = {..<n}" "distinct (h_paused s)" using p(4) by (auto simp: pauses_ok_def)
      then have "length (h_paused s) = n" using distinct_card by fastforce
      then show ?thesis using waiting len n by (intro owner) (auto simp: http_owner_turn_def http_exec_def)
    next
      case False
      then obtain l where l: "l < n" "l \<notin> set (h_paused s)" by auto
      then have "count_list (h_lq s ! l) TStopPause = 1" using p(4) waiting len by (auto simp: pauses_ok_def)
      then have "h_lq s ! l \<noteq> []" by auto
      moreover have "in_listen_loop l s" using p(5) waiting l len by (simp add: in_listen_loop_def loops_are_def)
      ultimately show ?thesis using l listen [of l] by simp
    qed
  next
    case pool
    have len: "length (h_wdone s) = m" "length (h_wq s) = m" using p(7) by (simp_all add: http_sizes_def)
    have k: "case h_pool s of None \<Rightarrow> False | Some p \<Rightarrow> pl_status p = kStopping" using p(5) pool by (auto simp: pool_is_def split: option.splits)
    show ?thesis
    proof (cases "list_all id (h_wdone s)")
      case False
      then obtain w where w: "w < m" "\<not> h_wdone s ! w" using len by (auto simp: list_all_length)
      then show ?thesis using k len worker [of w] by simp
    qed (use pool in \<open>auto intro!: owner simp: http_owner_turn_def http_exec_def\<close>)
  next
    case (half i)
    then obtain y where y: "y = kStopping \<or> y = kStopped" "loops_are n (\<lambda>l. if l < i then kStopped else if l = i then y else kRunning) s"
      using p(5) by auto
    then have "h_loops s ! i = y" using half by (simp add: loops_are_def)
    moreover have "i < length (h_loops s)" using p(7) half by (simp add: http_sizes_def)
    ultimately have "http_owner_turn s \<noteq> None \<or> http_helpful (ListenTurn i) s"
      using y(1) half by (auto simp: http_owner_turn_def http_exec_def in_listen_loop_def)
    then show ?thesis using owner listen half(3) by blast
  next
    case delete
    then show ?thesis using gone_empty [of app n m "{#}" s] st by (intro owner) (simp add: http_owner_turn_def http_exec_def http_Server_delete_def)
  next
    case gone
    have g: "h_services s = []" "h_loops s = []" "h_busy s = []" "h_lq s = []" "\<forall>q \<in> set (h_wq s). q = []" "\<forall>d \<in> set (h_wdone s). d"
      using gone_empty [of app n m "{#}" s] st gone by simp_all
    then have "http_mu n s = 0" using gone by (auto simp: http_mu_def intro!: sum_none)
    then show ?thesis using assms(2) by simp
  qed (auto intro!: owner simp: http_owner_turn_def http_exec_def)
qed

interpretation http_stop: fair_system "http_turn env app" "http_stopping app n m" "http_mu n" http_helpful "http_procs n m" for env app n m
proof
  show "yields (http_turn env app e s) (\<lambda>s'. http_stopping app n m s' \<and> http_mu n s' \<le> http_mu n s)" if "http_stopping app n m s" for s e
    by (rule yields_mono [OF stopping_turn [OF that]]) (auto simp: logged_same)
  show "yields (http_turn env app e s) (\<lambda>s'. http_mu n s' < http_mu n s)" if "http_stopping app n m s" "http_helpful e s" for s e
    by (rule yields_mono [OF stopping_turn [OF that(1)]]) (use that(2) in auto)
  show "\<exists>e \<in> http_procs n m. http_helpful e s" if "http_stopping app n m s" "http_mu n s \<noteq> 0" for s
    by (rule stopping_someone [OF that])
  show "yields (http_turn env app q s) (\<lambda>s'. http_mu n s' < http_mu n s \<or> http_helpful e s')"
    if "http_stopping app n m s" "http_helpful e s" "q \<noteq> e" for s e q
    by (rule yields_mono [OF stopping_turn [OF that(1)]]) (use that(2) logged_same in blast)
qed

text \<open>C10. Once \<^verbatim>\<open>Stop\<close> has begun, whatever happened before and whatever requests still arrive, it comes to an end, and so does the destructor after
  it: when the owner, every listening thread and every worker have a turn in each round, \<open>http_mu\<close> rounds are enough. Then all threads have ended, and every request
  was answered, dropped, or not responded to by the application.\<close>

theorem http_Stop_ends:
  assumes "well_behaved app" "http_up n m s" "http_owner_plan (h_owner s)" "0 < n"
    and "run_all (http_turn env app) evs s = Inr s1" "h_status s1 \<noteq> kRunning"
    and "\<forall>es \<in> set rounds. http_procs n m \<subseteq> set es" "http_mu n s1 \<le> length rounds"
  shows "yields (run_all (http_turn env app) (concat rounds) s1) (\<lambda>s'. h_owner s' = [] \<and> h_status s' = kStopped \<and> h_pool s' = None \<and> list_all id (h_wdone s') \<and>
    mset (map hr_req (h_replies s')) + mset (h_lost s') + mset (h_silent s') = mset [0..<length (h_reqs s')])"
proof -
  from http_run_inv [OF http_up_inv [OF assms(2,3)] assms(1), of env evs] obtain st where i: "http_inv app n m st {#} s1" using assms(5) by (auto elim!: yieldsE)
  then have "http_stopping app n m s1" using stopping_status [OF i] assms(1,4,6) by (auto simp: http_stopping_def)
  from http_stop.rounds_end [OF this assms(7,8)]
  show ?thesis
  proof (rule yields_mono)
    fix s' assume a: "http_stopping app n m s' \<and> http_mu n s' = 0"
    then obtain st' where st': "st' \<noteq> SRun" "http_inv app n m st' {#} s'" unfolding http_stopping_def by blast
    note p = inv_parts [OF st'(2)]
    have r: "http_rank n pc \<noteq> 0" for pc by (cases pc) simp_all
    have "sum_list (map (http_rank n) (h_owner s')) = 0" using a unfolding http_mu_def by linarith
    then have o: "h_owner s' = []" by (cases "h_owner s'") (simp_all add: r del: neq0_conv)
    from p(6) have g: "st' = SGone" using o by cases auto
    note e = gone_empty [OF st'(2) [unfolded g]]
    have "sum_list (map wtok (h_wq s')) = {#}" using e(6) by (auto intro!: sum_none)
    then have "mset (map hr_req (h_replies s')) + mset (h_lost s') + mset (h_silent s') = mset [0..<length (h_reqs s')]"
      using p(3) e by (simp add: conserved_def request_places_def)
    then show "h_owner s' = [] \<and> h_status s' = kStopped \<and> h_pool s' = None \<and> list_all id (h_wdone s') \<and>
        mset (map hr_req (h_replies s')) + mset (h_lost s') + mset (h_silent s') = mset [0..<length (h_reqs s')]"
      using o e(5,7) p(5) g by (simp add: list_all_iff)
  qed
qed

theorem http_Stop_ends_witness:
  "yields (run_all (http_turn demo_env demo_app) (concat (replicate 13 [OwnerTurn, ListenTurn 0, WorkerTurn 0]))
      ((demo_server 1)\<lparr>h_status := kStopping, h_sub := kStoppingListener, h_owner := [HPauseListen 0, HDelete]\<rparr>))
    (\<lambda>s'. h_owner s' = [] \<and> h_status s' = kStopped \<and> h_pool s' = None \<and> list_all id (h_wdone s') \<and>
      mset (map hr_req (h_replies s')) + mset (h_lost s') + mset (h_silent s') = mset [0..<length (h_reqs s')])"
proof (rule http_Stop_ends [OF demo_ok(1) demo_ok(2) demo_ok(3)])
  show "run_all (http_turn demo_env demo_app) [OwnerTurn] (demo_server 1) =
      Inr ((demo_server 1)\<lparr>h_status := kStopping, h_sub := kStoppingListener, h_owner := [HPauseListen 0, HDelete]\<rparr>)"
    by (simp add: demo_server_def http_turn_def http_owner_turn_def http_exec_def asserting_def)
qed (simp_all add: demo_server_def http_mu_def http_procs_def lessThan_Suc)

end
