(* ===== verification/Evhttp_Server_Serve.thy ===== *)
theory Evhttp_Server_Serve
  imports Evhttp_Server_Props
begin

text \<open>
  The requests the HTTP server answers while it runs, and \<^verbatim>\<open>Start\<close>.
\<close>

section \<open>Requests are answered\<close>

text \<open>What the listening threads and workers of a running server have to do.\<close>

definition http_load :: "http_Server \<Rightarrow> nat" where
  "http_load s = sum_list (map (\<lambda>b. if b = None then 0 else 3) (h_busy s)) + sum_list (map (\<lambda>q. 2 * length q) (h_wq s)) + sum_list (map length (h_lq s))"

definition server_event :: "nat + nat \<Rightarrow> http_event" where
  "server_event p = (case p of Inl l \<Rightarrow> ListenTurn l | Inr w \<Rightarrow> WorkerTurn w)"

lemma task_load: "run_listen_task l t s = Inr s' \<Longrightarrow> http_load s' = http_load s"
  by (cases t)
    (auto simp: ebind_def set_service_def http_load_def evhttp_send_reply_def split: sum.splits option.splits if_splits)

lemma job_load:
  assumes "run_job app here (Job l ctx cb) s = Inr s'" "well_behaved app" "l < length (h_lq s)"
  shows "http_load s' \<le> http_load s + 1"
proof (cases "h_status s = kRunning \<and> app cb ctx \<noteq> []")
  case False
  then show ?thesis using assms(1) by (auto simp: run_job_def http_load_def split: if_splits)
next
  case True
  then obtain code data where a: "app cb ctx = [(code, data)]" using assms(2) unfolding well_behaved_def by metis
  let ?s = "s\<lparr>h_code := (h_code s)(cx_req ctx := code)\<rparr>"
  have r: "http_SendReply here l (cx_req ctx) data ?s = Inr s'" using assms(1) True a by (auto simp: run_job_def ebind_def split: sum.splits)
  have push: "sum_list (map length ((h_lq s)[l := h_lq s ! l @ [t]])) = sum_list (map length (h_lq s)) + 1" for t
    using assms(3) by (intro sum_push) simp_all
  have "http_load ?s = http_load s" by (simp add: http_load_def)
  then show ?thesis using r task_load [of l "TReply (cx_req ctx) data" ?s s'] push
    by (auto simp: http_SendReply_def run_in_listen_def http_load_def simp del: run_listen_task.simps split: if_splits)
qed

lemma listen_load:
  assumes inv: "http_inv app n m SRun {#} s" and wb: "well_behaved app" and t: "listen_turn env app l s = Inr s'" and h: "http_helpful (ListenTurn l) s"
  shows "http_load s' < http_load s"
proof -
  have l: "l < length (h_busy s)" "l < length (h_lq s)" "in_listen_loop l s"
    using h inv_parts(7) [OF inv] by (auto simp: in_listen_loop_def http_sizes_def)
  have run: "h_loops s ! l = kRunning" using inv_parts(5,7) [OF inv] l by (simp add: loops_are_def http_sizes_def)
  show ?thesis
  proof (cases "h_busy s ! l")
    case (Some b)
    obtain ctx cb where b: "b = (ctx, cb)" by (cases b)
    have f: "Dispatch_forward env app l ctx cb s = Inr s'" using t l Some b by (simp add: listen_turn_def)
    obtain p0 where p0: "h_pool s = Some p0" "pl_status p0 = kRunning" "pushed p0 = m" "thread_num p0 = m"
      using busy_stage(1) [OF inv l(3)] Some by (auto simp: pool_is_def split: option.splits)
    obtain c p1 where g: "HttpServer_GetNextLoop env (h_policy s) ctx p0 = (c, p1)" by (rule prod.exhaust)
    have m: "m < 2 ^ 64" "length (h_wq s) = m" using inv_parts(7) [OF inv] by (simp_all add: http_sizes_def)
    note q = HttpServer_GetNextLoop_ok(2) [OF p0(2-4) m(1) g]
    let ?s = "s\<lparr>h_busy := (h_busy s)[l := None], h_pool := Some p1\<rparr>"
    have "sum_list (map (\<lambda>b. if b = None then 0 else 3) (h_busy s)) = sum_list (map (\<lambda>b. if b = None then 0 else 3) ((h_busy s)[l := None])) + (3 :: nat)"
      using l Some by (intro sum_pop) simp_all
    then have pop: "http_load s = http_load ?s + 3" by (simp add: http_load_def)
    have "sum_list (map (\<lambda>q. 2 * length q) ((h_wq s)[w := h_wq s ! w @ [j]])) = sum_list (map (\<lambda>q. 2 * length q) (h_wq s)) + 2" if "w < m" for w j
      using that m(2) by (intro sum_push) simp_all
    then have push: "http_load (?s\<lparr>h_wq := (h_wq s)[w := h_wq s ! w @ [j]]\<rparr>) = http_load ?s + 2" if "w < m" for w j
      using that by (simp add: http_load_def)
    have "http_load s' \<le> http_load ?s + 1" if "run_job app True (Job l ctx cb) ?s = Inr s'" using job_load [OF that wb] l(2) by simp
    then show ?thesis using f q pop push p0(1) g by (auto simp: Dispatch_forward_def Let_def)
  next
    case None
    then obtain x rest where x: "h_lq s ! l = x # rest" using h run by (cases "h_lq s ! l") auto
    have "run_listen_task l x (s\<lparr>h_lq := (h_lq s)[l := rest]\<rparr>) = Inr s'" using t l None x by (simp add: listen_turn_def)
    from task_load [OF this] have "http_load s' = http_load (s\<lparr>h_lq := (h_lq s)[l := rest]\<rparr>)" .
    moreover have "sum_list (map length (h_lq s)) = sum_list (map length ((h_lq s)[l := rest])) + 1" using l x by (intro sum_pop) simp_all
    ultimately show ?thesis by (simp add: http_load_def)
  qed
qed

lemma worker_load:
  assumes inv: "http_inv app n m SRun {#} s" and wb: "well_behaved app" and t: "worker_turn app w s = Inr s'" and h: "http_helpful (WorkerTurn w) s"
  shows "http_load s' < http_load s"
proof -
  have w: "w < length (h_wq s)" "\<not> h_wdone s ! w" "w < m" using h inv_parts(7) [OF inv] by (auto simp: http_sizes_def)
  have "\<not> (case h_pool s of None \<Rightarrow> False | Some p \<Rightarrow> pl_status p = kStopping)" using pool_stopping(2) [OF inv] by auto
  then obtain j rest where q: "h_wq s ! w = j # rest" using h by (cases "h_wq s ! w") auto
  obtain l ctx cb where j: "j = Job l ctx cb" by (cases j)
  let ?s = "s\<lparr>h_wq := (h_wq s)[w := rest]\<rparr>"
  have r: "run_job app False (Job l ctx cb) ?s = Inr s'" using t w q j by (simp add: worker_turn_def)
  have "l < length (h_lq ?s)" using take_job_inv(2) [OF inv w(3) q [unfolded j]] inv_parts(7) [OF inv] by (simp add: http_sizes_def)
  from job_load [OF r wb this] have "http_load s' \<le> http_load ?s + 1" .
  moreover have "sum_list (map (\<lambda>q. 2 * length q) (h_wq s)) = sum_list (map (\<lambda>q. 2 * length q) ((h_wq s)[w := rest])) + 2"
    using w q by (intro sum_pop) simp_all
  ultimately show ?thesis by (simp add: http_load_def)
qed

definition http_serving :: "application \<Rightarrow> nat \<Rightarrow> nat \<Rightarrow> http_request_data list \<Rightarrow> http_Server \<Rightarrow> bool" where
  "http_serving app n m rq s \<longleftrightarrow> well_behaved app \<and> http_inv app n m SRun {#} s \<and> h_reqs s = rq"

lemma serving_turn:
  assumes "http_serving app n m rq s"
  shows "yields (http_turn env app (server_event p) s) (\<lambda>s'. http_serving app n m rq s' \<and>
    (if http_helpful (server_event p) s then http_load s' < http_load s else s' = s))"
proof -
  have a: "well_behaved app" "http_inv app n m SRun {#} s" "h_reqs s = rq" using assms by (simp_all add: http_serving_def)
  show ?thesis
  proof (cases p)
    case (Inl l)
    from listen_turn_inv [OF a(2,1), of env l] obtain s' where s': "listen_turn env app l s = Inr s'" "http_inv app n m SRun {#} s'" by (auto elim!: yieldsE)
    then show ?thesis using Inl a listen_load [OF a(2,1) s'(1)] idle_turns(1) [of l s env app] listen_handlers [OF s'(1)]
      by (simp add: http_serving_def http_turn_def server_event_def same_input_def del: http_helpful.simps)
  next
    case (Inr w)
    from worker_turn_inv [OF a(2,1), of w] obtain s' where s': "worker_turn app w s = Inr s'" "http_inv app n m SRun {#} s'" by (auto elim!: yieldsE)
    then show ?thesis using Inr a worker_load [OF a(2,1) s'(1)] idle_turns(2) [of w s app] worker_handlers [OF s'(1)]
      by (simp add: http_serving_def http_turn_def server_event_def same_input_def del: http_helpful.simps)
  qed
qed

lemma load_someone:
  assumes "http_serving app n m rq s" "http_load s \<noteq> 0"
  shows "\<exists>p \<in> Inl ` {..<n} \<union> Inr ` {..<m}. http_helpful (server_event p) s"
proof -
  have i: "http_inv app n m SRun {#} s" using assms(1) by (simp add: http_serving_def)
  note p = inv_parts [OF i]
  have len: "length (h_busy s) = n" "length (h_lq s) = n" "length (h_loops s) = n" "length (h_wq s) = m" using p(7) by (simp_all add: http_sizes_def)
  consider l where "l < n" "h_busy s ! l \<noteq> None" | w where "w < m" "h_wq s ! w \<noteq> []" | l where "l < n" "h_lq s ! l \<noteq> []"
  proof -
    assume n: "\<And>l. l < n \<Longrightarrow> h_busy s ! l \<noteq> None \<Longrightarrow> thesis" "\<And>w. w < m \<Longrightarrow> h_wq s ! w \<noteq> [] \<Longrightarrow> thesis" "\<And>l. l < n \<Longrightarrow> h_lq s ! l \<noteq> [] \<Longrightarrow> thesis"
    show thesis
    proof (rule ccontr)
      assume nt: "\<not> thesis"
      have "\<forall>b \<in> set (h_busy s). b = None" using n(1) nt len(1) by (metis in_set_conv_nth)
      moreover have "\<forall>q \<in> set (h_wq s). q = []" using n(2) nt len(4) by (metis in_set_conv_nth)
      moreover have "\<forall>q \<in> set (h_lq s). q = []" using n(3) nt len(2) by (metis in_set_conv_nth)
      ultimately have "http_load s = 0" by (auto simp: http_load_def intro!: sum_none)
      then show False using assms(2) by simp
    qed
  qed
  then show ?thesis
  proof cases
    case (1 l)
    then show ?thesis using p(5) len by (intro bexI [of _ "Inl l"]) (auto simp: server_event_def in_listen_loop_def loops_are_def)
  next
    case (2 w)
    then show ?thesis using p(5) len by (intro bexI [of _ "Inr w"]) (auto simp: server_event_def)
  next
    case (3 l)
    then show ?thesis using p(5) len by (intro bexI [of _ "Inl l"]) (auto simp: server_event_def in_listen_loop_def loops_are_def)
  qed
qed

interpretation http_serve: fair_system "\<lambda>p. http_turn env app (server_event p)" "http_serving app n m rq" http_load "\<lambda>p. http_helpful (server_event p)"
  "Inl ` {..<n} \<union> Inr ` {..<m}" for env app n m rq
proof
  show "yields (http_turn env app (server_event p) s) (\<lambda>s'. http_serving app n m rq s' \<and> http_load s' \<le> http_load s)" if "http_serving app n m rq s" for s p
    by (rule yields_mono [OF serving_turn [OF that]]) (auto split: if_splits)
  show "yields (http_turn env app (server_event p) s) (\<lambda>s'. http_load s' < http_load s)" if "http_serving app n m rq s" "http_helpful (server_event p) s" for s p
    by (rule yields_mono [OF serving_turn [OF that(1)]]) (use that(2) in auto)
  show "\<exists>p \<in> Inl ` {..<n} \<union> Inr ` {..<m}. http_helpful (server_event p) s" if "http_serving app n m rq s" "http_load s \<noteq> 0" for s
    by (rule load_someone [OF that])
  show "yields (http_turn env app (server_event q) s) (\<lambda>s'. http_load s' < http_load s \<or> http_helpful (server_event p) s')"
    if "http_serving app n m rq s" "http_helpful (server_event p) s" "q \<noteq> p" for s p q
    by (rule yields_mono [OF serving_turn [OF that(1)]]) (use that(2) in \<open>auto split: if_splits\<close>)
qed

lemma sum_zero: "sum_list (map f xs) = (0 :: nat) \<Longrightarrow> x \<in> set xs \<Longrightarrow> f x = 0"
  by (induction xs) auto

lemma run_all_map: "run_all move (map f ps) s = run_all (\<lambda>p. move (f p)) ps s"
  by (induction ps arbitrary: s) (simp_all add: ebind_def split: sum.splits)

text \<open>C11. While the server runs, every request is served: when each listening thread and each worker has a turn in each of enough rounds, every request that arrived
  has been answered, with the response the application gave to it, or status 400 if there is no handler for its path, or the application was asked and did not
  respond.\<close>

theorem http_requests_answered:
  assumes "well_behaved app" "http_up n m s" "http_owner_plan (h_owner s)"
    and "run_all (http_turn env app) evs s = Inr s1" "h_status s1 = kRunning"
    and "\<forall>ps \<in> set rounds. Inl ` {..<n} \<union> Inr ` {..<m} \<subseteq> set ps" "http_load s1 \<le> length rounds"
  shows "yields (run_all (http_turn env app) (map server_event (concat rounds)) s1) (\<lambda>s'. h_reqs s' = h_reqs s1 \<and>
    mset (map hr_req (h_replies s')) + mset (h_silent s') = mset [0..<length (h_reqs s1)] \<and>
    list_all (reply_ok app s') (h_replies s') \<and> list_all (silent_ok app s') (h_silent s'))"
proof -
  from http_run_inv [OF http_up_inv [OF assms(2,3)] assms(1), of env evs] obtain st where i: "http_inv app n m st {#} s1" using assms(4) by (auto elim!: yieldsE)
  have "st = SRun" using stopping_status [OF i] assms(5) by simp
  then have "http_serving app n m (h_reqs s1) s1" using i assms(1) by (simp add: http_serving_def)
  from http_serve.rounds_end [OF this assms(6,7), of env]
  show ?thesis unfolding run_all_map
  proof (rule yields_mono)
    fix s' assume a: "http_serving app n m (h_reqs s1) s' \<and> http_load s' = 0"
    then have i': "http_inv app n m SRun {#} s'" and rq: "h_reqs s' = h_reqs s1" by (simp_all add: http_serving_def)
    note p = inv_parts [OF i']
    have z: "sum_list (map (\<lambda>b. if b = None then 0 else 3) (h_busy s')) = (0 :: nat)" "sum_list (map (\<lambda>q. 2 * length q) (h_wq s')) = 0"
        "sum_list (map length (h_lq s')) = 0"
      using a unfolding http_load_def by linarith+
    have "b = None" if "b \<in> set (h_busy s')" for b using sum_zero [OF z(1) that] by (simp split: if_splits)
    then have "\<forall>b \<in> set (h_busy s'). b = None" by blast
    moreover have "\<forall>q \<in> set (h_wq s'). q = []" "\<forall>q \<in> set (h_lq s'). q = []" using z(2,3) by simp_all
    ultimately have "sum_list (map btok (h_busy s')) = {#}" "sum_list (map wtok (h_wq s')) = {#}" "sum_list (map ltok (h_lq s')) = {#}"
      by (auto intro!: sum_none)
    then have "mset (map hr_req (h_replies s')) + mset (h_silent s') = mset [0..<length (h_reqs s1)]"
      using p(3,5) rq by (simp add: conserved_def request_places_def)
    then show "h_reqs s' = h_reqs s1 \<and> mset (map hr_req (h_replies s')) + mset (h_silent s') = mset [0..<length (h_reqs s1)] \<and>
        list_all (reply_ok app s') (h_replies s') \<and> list_all (silent_ok app s') (h_silent s')"
      using rq p(1) by (simp add: work_ok_def list_all_iff)
  qed
qed

theorem http_requests_answered_witness:
  "yields (run_all (http_turn demo_env demo_app) (map server_event (concat (replicate 3 [Inl 0, Inr 0])))
      ((demo_server 1)\<lparr>h_reqs := [demo_request], h_busy := [Some (context_of 0 demo_request, 7)]\<rparr>))
    (\<lambda>s'. h_reqs s' = [demo_request] \<and> mset (map hr_req (h_replies s')) + mset (h_silent s') = mset [0..<1] \<and>
      list_all (reply_ok demo_app s') (h_replies s') \<and> list_all (silent_ok demo_app s') (h_silent s'))"
proof -
  let ?s1 = "(demo_server 1)\<lparr>h_reqs := [demo_request], h_busy := [Some (context_of 0 demo_request, 7)]\<rparr>"
  have e: "run_all (http_turn demo_env demo_app) [Request 0 demo_request] (demo_server 1) = Inr ?s1"
    by (simp add: demo_server_def http_turn_def request_arrives_def HandleRequest_routes in_listen_loop_def route_def Dispatch_test_def demo_request_def)
  show ?thesis
    using http_requests_answered [OF demo_ok(1) demo_ok(2) demo_ok(3) e, of "replicate 3 [Inl 0, Inr 0]"]
    by (simp add: demo_server_def http_load_def lessThan_Suc)
qed

section \<open>Start\<close>

lemma Init_port_ok:
  assumes "bound p"
  shows "HttpServer_Init_port True bound p s = Inr (True, s\<lparr>h_status := kInitialized, h_services := h_services s @
     [\<lparr>hs_port = int p, hs_evhttp = True, hs_bound = True, hs_accepts = True, hs_gencb = True, hs_callbacks = [], hs_default = None\<rparr>],
     h_loops := h_loops s @ [kInitialized], h_busy := h_busy s @ [None], h_lq := h_lq s @ [[]]\<rparr>)"
  using assms by (simp add: HttpServer_Init_port_def http_Listen_def http_Service_new_def asserting_def Let_def)

text \<open>A service that listens and has no handlers yet.\<close>

definition bare_service :: "http_Service \<Rightarrow> bool" where
  "bare_service sv \<longleftrightarrow> hs_evhttp sv \<and> hs_gencb sv \<and> hs_callbacks sv = [] \<and> hs_default sv = None"

definition http_idle :: "nat \<Rightarrow> http_Server \<Rightarrow> bool" where
  "http_idle n s \<longleftrightarrow> length (h_services s) = n \<and> h_loops s = replicate n kInitialized \<and> h_busy s = replicate n None \<and> h_lq s = replicate n [] \<and>
     list_all bare_service (h_services s)"

definition same_rest :: "http_Server \<Rightarrow> http_Server \<Rightarrow> bool" where
  "same_rest s s' \<longleftrightarrow> h_pool s' = h_pool s \<and> h_wq s' = h_wq s \<and> h_wdone s' = h_wdone s \<and> h_paused s' = h_paused s \<and> h_reqs s' = h_reqs s \<and>
     h_replies s' = h_replies s \<and> h_lost s' = h_lost s \<and> h_silent s' = h_silent s"

lemma init_each_ok:
  assumes "\<forall>p \<in> set ps. bound p" "http_idle n s"
  shows "yields (init_each True bound ps s) (\<lambda>(ok, s'). ok \<and> http_idle (n + length ps) s' \<and> same_rest s s')"
  using assms
proof (induction ps arbitrary: n s)
  case (Cons p ps)
  let ?sv = "\<lparr>hs_port = int p, hs_evhttp = True, hs_bound = True, hs_accepts = True, hs_gencb = True, hs_callbacks = [], hs_default = None\<rparr>"
  let ?s = "s\<lparr>h_status := kInitialized, h_services := h_services s @ [?sv],
     h_loops := h_loops s @ [kInitialized], h_busy := h_busy s @ [None], h_lq := h_lq s @ [[]]\<rparr>"
  have i: "http_idle (Suc n) ?s" using Cons.prems(2) by (simp add: http_idle_def bare_service_def replicate_append_same)
  have "yields (init_each True bound ps ?s) (\<lambda>(ok, s'). ok \<and> http_idle (n + length (p # ps)) s' \<and> same_rest s s')"
    by (rule yields_mono [OF Cons.IH [OF _ i]]) (use Cons.prems in \<open>auto simp: same_rest_def\<close>)
  then show ?case using Cons.prems(1) Init_port_ok [of bound p s] by simp
qed (simp add: same_rest_def)

lemma fold_handlers:
  "map_of (hs_callbacks (fold (\<lambda>(uri, cb). http_RegisterHandler uri cb) cbs sv)) = map_of (hs_callbacks sv) ++ map_of (rev cbs)"
  "hs_default (fold (\<lambda>(uri, cb). http_RegisterHandler uri cb) cbs sv) = hs_default sv"
  "hs_evhttp (fold (\<lambda>(uri, cb). http_RegisterHandler uri cb) cbs sv) = hs_evhttp sv"
  "hs_gencb (fold (\<lambda>(uri, cb). http_RegisterHandler uri cb) cbs sv) = hs_gencb sv"
  by (induction cbs arbitrary: sv) (auto simp: http_RegisterHandler_def update_conv' map_add_upd_left map_add_def fun_eq_iff split: option.splits)

lemma register_all_routes:
  assumes "bare_service sv" "distinct (map fst cbs)"
  shows "route (register_all cbs dflt sv) = handler_in cbs dflt" "hs_evhttp (register_all cbs dflt sv)" "hs_gencb (register_all cbs dflt sv)"
proof -
  have r: "map_of (rev cbs) = map_of cbs" using assms(2) by (subst map_of_inject_set) (simp_all add: rev_map [symmetric])
  show "route (register_all cbs dflt sv) = handler_in cbs dflt"
    using assms(1) fold_handlers [of cbs sv]
    by (intro ext) (simp add: register_all_def Let_def route_def handler_in_def http_RegisterDefaultHandler_def bare_service_def r split: option.splits)
  show "hs_evhttp (register_all cbs dflt sv)" "hs_gencb (register_all cbs dflt sv)"
    using assms(1) fold_handlers [of cbs sv] by (simp_all add: register_all_def Let_def http_RegisterDefaultHandler_def bare_service_def split: option.splits)
qed

text \<open>Inside \<^verbatim>\<open>Start\<close>: \<open>i\<close> listening threads run.\<close>

definition http_starting :: "nat \<Rightarrow> nat \<Rightarrow> http_pc list \<Rightarrow> http_Server \<Rightarrow> bool" where
  "http_starting n i k s \<longleftrightarrow> i \<le> n \<and> h_owner s = HStartListen i # k \<and> length (h_services s) = n \<and> h_loops s = replicate i kRunning @ replicate (n - i) kInitialized \<and>
     h_busy s = replicate n None \<and> h_lq s = replicate n [] \<and> distinct (map fst (h_callbacks s)) \<and>
     (\<forall>j < n. if j < i then hs_evhttp (h_services s ! j) \<and> hs_gencb (h_services s ! j) \<and> route (h_services s ! j) = handler_for s
        else bare_service (h_services s ! j))"

lemma start_one:
  assumes "http_starting n i k s" "i < n"
  shows "yields (run_all (http_turn env app) [OwnerTurn, OwnerTurn] s) (\<lambda>s'. http_starting n (Suc i) k s' \<and> same_rest s s' \<and> same_handlers s s' \<and> h_status s' = h_status s)"
proof -
  note a = assms(1) [unfolded http_starting_def]
  define sv where "sv = register_all (h_callbacks s) (h_default s) (h_services s ! i)"
  let ?s = "s\<lparr>h_loops := (h_loops s)[i := kRunning], h_services := (h_services s)[i := sv], h_owner := HStartListen (Suc i) # k\<rparr>"
  have len: "length (h_loops s) = n" "i < length (h_loops s)" "length (h_services s) = n" using a assms(2) by simp_all
  have e: "run_all (http_turn env app) [OwnerTurn, OwnerTurn] s = Inr ?s"
    using a len by (simp add: http_turn_def http_owner_turn_def http_exec_def set_service_def sv_def)
  have "replicate (n - i) kInitialized = kInitialized # replicate (n - Suc i) kInitialized" using assms(2) by (cases "n - i") (simp_all add: Suc_diff_Suc)
  then have l: "(h_loops s)[i := kRunning] = replicate (Suc i) kRunning @ replicate (n - Suc i) kInitialized"
    using a by (simp add: list_update_append replicate_append_same)
  have b: "bare_service (h_services s ! i)" using a assms(2) by (metis less_irrefl)
  note r = register_all_routes [OF b, of "h_callbacks s" "h_default s"]
  have u: "hs_evhttp sv \<and> hs_gencb sv \<and> route sv = handler_for s" using r a unfolding sv_def handler_for_def by simp
  have "http_starting n (Suc i) k ?s"
    unfolding http_starting_def
  proof (intro conjI allI impI)
    fix j assume j: "j < n"
    have h: "handler_for ?s = handler_for s" by (simp add: handler_for_def)
    show "if j < Suc i then hs_evhttp (h_services ?s ! j) \<and> hs_gencb (h_services ?s ! j) \<and> route (h_services ?s ! j) = handler_for ?s
        else bare_service (h_services ?s ! j)"
      unfolding h using a u j len assms(2) by (cases "j = i") (auto simp: less_Suc_eq)
  qed (use a l assms(2) in auto)
  then show ?thesis unfolding e by (simp add: same_rest_def same_handlers_def)
qed

lemma start_each:
  assumes "http_starting n i k s"
  shows "yields (run_all (http_turn env app) (replicate (2 * (n - i)) OwnerTurn) s)
    (\<lambda>s'. http_starting n n k s' \<and> same_rest s s' \<and> same_handlers s s' \<and> h_status s' = h_status s)"
  using assms
proof (induction "n - i" arbitrary: i s)
  case 0
  then show ?case by (simp add: http_starting_def same_rest_def same_handlers_def)
next
  case (Suc d)
  have d: "n - i = Suc (n - Suc i)" "i < n" using Suc.hyps(2) by simp_all
  have e: "replicate (2 * (n - i)) OwnerTurn = [OwnerTurn, OwnerTurn] @ replicate (2 * (n - Suc i)) OwnerTurn" unfolding d(1) by simp
  have later: "yields (run_all (http_turn env app) (replicate (2 * (n - Suc i)) OwnerTurn) s1)
      (\<lambda>s'. http_starting n n k s' \<and> same_rest s s' \<and> same_handlers s s' \<and> h_status s' = h_status s)"
    if "http_starting n (Suc i) k s1 \<and> same_rest s s1 \<and> same_handlers s s1 \<and> h_status s1 = h_status s" for s1
    by (rule yields_mono [OF Suc.hyps(1)]) (use that Suc.hyps(2) in \<open>auto simp: same_rest_def same_handlers_def\<close>)
  show ?case unfolding e run_all_append yields_simps by (rule yields_mono [OF start_one [OF Suc.prems d(2)]]) (rule later)
qed

text \<open>The handlers an application registers before \<^verbatim>\<open>Start\<close>.\<close>

fun register_handlers :: "(string \<times> nat) list \<Rightarrow> http_Server \<Rightarrow> http_Server result" where
  "register_handlers [] s = Inr s"
| "register_handlers ((uri, cb) # rs) s = ebind (HttpServer_RegisterHandler uri cb s) (register_handlers rs)"

lemma register_handlers_ok:
  assumes "h_status s \<noteq> kRunning" "distinct (map fst (h_callbacks s))"
  shows "\<exists>cbs. register_handlers rs s = Inr (s\<lparr>h_callbacks := cbs\<rparr>) \<and> distinct (map fst cbs) \<and> map_of cbs = map_of (h_callbacks s) ++ map_of (rev rs)"
  using assms
proof (induction rs arbitrary: s)
  case Nil
  then show ?case by (intro exI [of _ "h_callbacks s"]) simp
next
  case (Cons r rs)
  obtain uri cb where r: "r = (uri, cb)" by (cases r)
  let ?s = "s\<lparr>h_callbacks := AList.update uri cb (h_callbacks s)\<rparr>"
  have "h_status ?s \<noteq> kRunning" "distinct (map fst (h_callbacks ?s))" using Cons.prems by (simp_all add: distinct_update)
  from Cons.IH [OF this] obtain cbs where c: "register_handlers rs ?s = Inr (?s\<lparr>h_callbacks := cbs\<rparr>)" "distinct (map fst cbs)"
    "map_of cbs = map_of (h_callbacks ?s) ++ map_of (rev rs)" by blast
  have "map_of cbs = map_of (h_callbacks s) ++ map_of (rev (r # rs))" unfolding c(3) by (simp add: update_conv' r)
  then show ?case using c(1,2) Cons.prems(1) unfolding r
    by (intro exI [of _ cbs]) (simp add: HttpServer_RegisterHandler_def asserting_def)
qed

text \<open>A server whose ports can be bound starts: after \<^verbatim>\<open>Init\<close>, the registration of handlers and the owner's \<open>2 n + 4\<close> steps through \<^verbatim>\<open>Start\<close> (with no
  request in between), the server runs with a listening thread for each of the \<open>n\<close> ports and its workers, and each listening thread routes a path to the
  handler that was registered last for it, if any, and else to the default handler.\<close>

theorem http_Start_ok:
  assumes "ps \<noteq> []" "\<forall>p \<in> set ps. bound p" "m < 2 ^ 64"
  shows "yields (ebind (HttpServer_Init_ports True bound ps (http_Server_new m policy)) (\<lambda>(ok, s1). ebind (register_handlers rs s1) (\<lambda>s2.
      run_all (http_turn env app) (replicate (2 * length ps + 4) OwnerTurn) (s2\<lparr>h_default := dflt, h_owner := HStart # k\<rparr>))))
    (\<lambda>s. http_up (length ps) m s \<and> h_owner s = k \<and> h_default s = dflt \<and> handler_for s = (\<lambda>path. case map_of (rev rs) path of Some cb \<Rightarrow> Some cb | None \<Rightarrow> dflt))"
    (is "yields _ ?Q")
proof -
  let ?n = "length ps"
  let ?s0 = "(http_Server_new m policy)\<lparr>h_status := kInitializing\<rparr>"
  have id0: "http_idle 0 ?s0" by (simp add: http_idle_def http_Server_new_def)
  have "h_callbacks s' = h_callbacks s" if "init_each True bound qs s = Inr (ok, s')" "\<forall>p \<in> set qs. bound p" for qs s s' ok
    using that by (induction qs arbitrary: s) (simp_all add: Init_port_ok)
  with init_each_ok [OF assms(2) id0] obtain s1 where s1: "init_each True bound ps ?s0 = Inr (True, s1)" "http_idle ?n s1" "same_rest ?s0 s1"
      "h_callbacks s1 = h_callbacks ?s0"
    using assms(2) by (auto elim!: yieldsE)
  let ?s1 = "s1\<lparr>h_status := kInitialized\<rparr>"
  obtain cbs where cbs: "register_handlers rs ?s1 = Inr (?s1\<lparr>h_callbacks := cbs\<rparr>)" "distinct (map fst cbs)" "map_of cbs = map_of (rev rs)"
    using register_handlers_ok [of ?s1 rs] s1(4) by (auto simp: http_Server_new_def)
  define s2 where "s2 = ?s1\<lparr>h_callbacks := cbs, h_default := dflt, h_owner := HStart # k\<rparr>"
  define s3 where "s3 = s2\<lparr>h_status := kStarting, h_pool := Some ((Pool_new m [])\<lparr>pl_status := kRunning, pushed := m\<rparr>), h_owner := HStartListen 0 # k\<rparr>"
  have r2: "h_pool s2 = Some (Pool_new m [])" "thread_num (Pool_new m []) = m"
    using s1(3) by (simp_all add: s2_def same_rest_def http_Server_new_def Pool_new_def)
  have e3: "run_all (http_turn env app) [OwnerTurn, OwnerTurn] s2 = Inr s3"
    using r2 by (simp add: http_turn_def http_owner_turn_def http_exec_def s2_def s3_def asserting_def)
  have st: "http_starting ?n 0 k s3"
    using s1(2) cbs(2) by (auto simp: http_starting_def s3_def s2_def http_idle_def list_all_length)
  have fin: "yields (run_all (http_turn env app) [OwnerTurn, OwnerTurn] s4) ?Q"
    if a: "http_starting ?n ?n k s4 \<and> same_rest s3 s4 \<and> same_handlers s3 s4 \<and> h_status s4 = h_status s3" for s4
  proof -
    let ?s5 = "s4\<lparr>h_status := kRunning, h_owner := k\<rparr>"
    have p4: "h_pool s4 = Some ((Pool_new m [])\<lparr>pl_status := kRunning, pushed := m\<rparr>)" using a by (simp add: same_rest_def s3_def)
    have o: "h_owner s4 = HStartListen ?n # k" "h_loops s4 = replicate ?n kRunning" using a by (simp_all add: http_starting_def)
    have "run_all (http_turn env app) [OwnerTurn, OwnerTurn] s4 = Inr ?s5"
      using o p4 assms(1) by (simp add: http_turn_def http_owner_turn_def http_exec_def list_all_iff)
    moreover have h: "handler_for ?s5 = handler_for s4" "handler_for s4 = handler_in cbs dflt"
      using a by (simp_all add: handler_for_def same_handlers_def s3_def s2_def)
    moreover have "http_up ?n m ?s5"
      unfolding http_up_def h(1) using a s1(3) p4 o assms(3) r2(2)
      by (auto simp: http_starting_def same_rest_def s3_def s2_def http_Server_new_def pool_is_def list_all_length)
    ultimately show ?thesis using a cbs(3) by (simp add: handler_in_def fun_eq_iff same_handlers_def s3_def s2_def)
  qed
  have "yields (run_all (http_turn env app) (replicate (2 * ?n) OwnerTurn) s3) (\<lambda>s4. yields (run_all (http_turn env app) [OwnerTurn, OwnerTurn] s4) ?Q)"
    by (rule yields_mono [OF start_each [OF st, of env app, simplified]]) (rule fin)
  then have "yields (run_all (http_turn env app) ([OwnerTurn, OwnerTurn] @ replicate (2 * ?n) OwnerTurn @ [OwnerTurn, OwnerTurn]) s2) ?Q"
    unfolding run_all_append yields_simps e3 .
  moreover have "replicate (2 * ?n + 4) OwnerTurn = [OwnerTurn, OwnerTurn] @ replicate (2 * ?n) OwnerTurn @ [OwnerTurn, OwnerTurn]"
    by (simp add: replicate_add [of 2] replicate_append_same [symmetric] eval_nat_numeral flip: replicate_add)
  ultimately show ?thesis using s1(1) cbs(1) by (simp add: HttpServer_Init_ports_def s2_def)
qed

theorem http_Start_ok_witness:
  "yields (ebind (HttpServer_Init_ports True (\<lambda>_. True) [80, 81] (http_Server_new 2 kRoundRobin)) (\<lambda>(ok, s1). ebind (register_handlers [(''/a'', 7)] s1) (\<lambda>s2.
      run_all (http_turn demo_env demo_app) (replicate (2 * length [80, 81 :: nat] + 4) OwnerTurn) (s2\<lparr>h_default := Some 3, h_owner := HStart # [HStop]\<rparr>))))
    (\<lambda>s. http_up (length [80, 81 :: nat]) 2 s \<and> h_owner s = [HStop] \<and> h_default s = Some 3 \<and>
      handler_for s = (\<lambda>path. case map_of (rev [(''/a'', 7)]) path of Some cb \<Rightarrow> Some cb | None \<Rightarrow> Some 3))"
  by (rule http_Start_ok) simp_all

end
