(* ===== verification/Evhttp_Server_Cases.thy ===== *)
theory Evhttp_Server_Cases
  imports Evhttp_Server_Serve
begin

text \<open>
  What goes wrong when the HTTP server is initialised without ports, and when an application responds twice.
\<close>

text \<open>A server without listening threads inside \<^verbatim>\<open>Start\<close>.\<close>

definition never_runs :: "http_pc list \<Rightarrow> http_Server \<Rightarrow> bool" where
  "never_runs k s \<longleftrightarrow> h_loops s = [] \<and> (\<forall>w < length (h_wq s). h_wq s ! w = []) \<and> (\<exists>p. h_pool s = Some p \<and> pl_status p \<noteq> kStopping) \<and>
     (\<exists>pc. h_owner s = pc # k \<and> (pc = HStart \<and> h_status s = kInitialized \<or> pc \<in> {HStartPool, HStartListen 0, HWaitRunning} \<and> h_status s = kStarting))"

lemma never_runs_turn: "never_runs k s \<Longrightarrow> yields (http_turn env app e s) (never_runs k)"
  by (cases e)
    (auto simp: never_runs_def http_turn_def http_owner_turn_def http_exec_def asserting_def request_arrives_def listen_turn_def in_listen_loop_def
      worker_turn_def split: list.splits)

lemma never_runs_run: "never_runs k s \<Longrightarrow> yields (run_all (http_turn env app) evs s) (never_runs k)"
proof (induction evs arbitrary: s)
  case (Cons e evs)
  have "yields (http_turn env app e s) (\<lambda>s1. yields (run_all (http_turn env app) evs s1) (never_runs k))"
    by (rule yields_mono [OF never_runs_turn [OF Cons.prems]]) (rule Cons.IH)
  then show ?case by simp
qed simp

text \<open>C39. \<^verbatim>\<open>Init\<close> with an empty list of ports reports success, and \<^verbatim>\<open>Start\<close> then never returns: under no schedule does the server run, and the owner is still
  inside \<^verbatim>\<open>Start\<close>, which waits for a listening thread that does not exist.\<close>

theorem Init_without_ports_hangs:
  "\<exists>s1. HttpServer_Init avail bound '''' (http_Server_new m policy) = Inr (True, s1) \<and>
     yields (run_all (http_turn env app) evs (s1\<lparr>h_owner := HStart # k\<rparr>)) (\<lambda>s. h_status s \<noteq> kRunning \<and> length k < length (h_owner s))"
proof -
  let ?s1 = "(http_Server_new m policy)\<lparr>h_status := kInitialized\<rparr>"
  have "HttpServer_Init avail bound '''' (http_Server_new m policy) = Inr (True, ?s1)"
    by (simp add: HttpServer_Init_def HttpServer_Init_ports_def StringSplit_def http_Server_new_def)
  moreover have "never_runs k (?s1\<lparr>h_owner := HStart # k\<rparr>)" by (simp add: never_runs_def http_Server_new_def Pool_new_def)
  from never_runs_run [OF this] have "yields (run_all (http_turn env app) evs (?s1\<lparr>h_owner := HStart # k\<rparr>)) (\<lambda>s. h_status s \<noteq> kRunning \<and> length k < length (h_owner s))"
    by (rule yields_mono) (auto simp: never_runs_def)
  ultimately show ?thesis by blast
qed

text \<open>An application must not respond twice to a request: the first response has evhttp send the reply and free the request, and the functor of the second
  one uses it again.\<close>

theorem responding_twice_fails:
  assumes "http_up n 0 s" "l < n" "handler_for s (er_path d) = Some cb" "app cb (context_of 0 d) = (c1, d1) # (c2, d2) # rs"
    and "100 \<le> c1" "c1 \<le> 1000" "100 \<le> c2" "c2 \<le> 1000"
  shows "run_all (http_turn env app) [Request l d, ListenTurn l] s = Inl OutOfBounds"
proof -
  note u = assms(1) [unfolded http_up_def]
  obtain p where p: "h_pool s = Some p" "thread_num p = 0" using u by (auto simp: pool_is_def split: option.splits)
  have sv: "hs_evhttp (h_services s ! l)" "hs_gencb (h_services s ! l)" "route (h_services s ! l) = handler_for s"
    using u assms(2) by (auto simp: list_all_length)
  have up: "in_listen_loop l s" "h_loops s ! l = kRunning" "h_busy s ! l = None" "h_status s = kRunning" "l < length (h_busy s)" "h_reqs s = []" "h_replies s = []"
    using u assms(2) by (simp_all add: in_listen_loop_def)
  have c: "cx_req (context_of 0 d) = 0" by (simp add: context_of_def)
  define s1 where "s1 = s\<lparr>h_reqs := [d], h_busy := (h_busy s)[l := Some (context_of 0 d, cb)]\<rparr>"
  have e1: "http_turn env app (Request l d) s = Inr s1"
    using up sv assms(3) by (simp add: http_turn_def request_arrives_def HandleRequest_routes Let_def Dispatch_test_def s1_def)
  have in1: "in_listen_loop l s1" "h_busy s1 ! l = Some (context_of 0 d, cb)" using up by (simp_all add: s1_def in_listen_loop_def)
  define s2 where "s2 = s\<lparr>h_reqs := [d], h_busy := (h_busy s)[l := None], h_code := (h_code s)(0 := c1)\<rparr>"
  have f: "\<exists>reason. reply_functor True 0 c x (h_services s ! l) =
      Inr (Some \<lparr>hr_req = 0, hr_code = if x = [] then 404 else c, hr_reason = reason, hr_body = if x = [] then None else Some x\<rparr>)" if "100 \<le> c" "c \<le> 1000" for c x
    by (rule reply_functor_sends [OF sv(1)]) (use that in simp)
  obtain r1 where r1: "reply_functor True 0 c1 d1 (h_services s ! l) = Inr (Some r1)" "hr_req r1 = 0" using f [OF assms(5,6), of d1] by auto
  obtain r2 where r2: "reply_functor True 0 c2 d2 (h_services s ! l) = Inr (Some r2)" "hr_req r2 = 0" using f [OF assms(7,8), of d2] by auto
  have "http_turn env app (ListenTurn l) s1 = run_job app True (Job l (context_of 0 d) cb) (s1\<lparr>h_busy := (h_busy s1)[l := None], h_pool := Some p\<rparr>)"
    using in1 p by (simp add: http_turn_def listen_turn_def Dispatch_forward_def HttpServer_GetNextLoop_def s1_def)
  also have "\<dots> = Inl OutOfBounds"
    using up assms(4) c r1 r2
    by (simp add: run_job_def s1_def http_SendReply_def run_in_listen_def evhttp_send_reply_def)
  finally show ?thesis using e1 by simp
qed

theorem responding_twice_fails_witness:
  "run_all (http_turn demo_env (\<lambda>_ _. [(200, ''a''), (200, ''b'')])) [Request 0 demo_request, ListenTurn 0] (demo_server 0) = Inl OutOfBounds"
proof (rule responding_twice_fails [of 1 _ 0 demo_request 7 _ 200 "''a''" 200 "''b''" "[]"])
  show "http_up 1 0 (demo_server 0)" by (rule demo_ok(2)) simp
qed (simp_all add: demo_server_def demo_request_def handler_for_def handler_in_def)

end
