(* ===== verification/Loop_Life.thy ===== *)
theory Loop_Life
  imports Event_Watcher Server_Status
begin

text \<open>
  Construction and destruction of an \<^verbatim>\<open>EventLoop\<close> (src/event_loop.cpp): the event base, the pipe watcher and the queue of functors that the object owns, on every
  path, exceptions included, and the timers it hands out. What a loop does in between is in \<open>Event_Loop\<close>.
\<close>

section \<open>Resources\<close>

text \<open>\<open>ll_base\<close> is \<^verbatim>\<open>evbase_\<close>, \<open>ll_queue\<close> tells whether the vector behind \<^verbatim>\<open>pending_functors_\<close> is allocated. \<open>ll_freed\<close> lists the event bases that were freed,
  \<open>ll_closed\<close> the descriptors that watchers closed before they went away.\<close>

record loop_object =
  ll_base :: "nat option"
  ll_destroy :: bool
  ll_watcher :: "EventWatcher option"
  ll_queue :: bool
  ll_status :: server_status
  ll_freed :: "nat list"
  ll_closed :: "int list"

text \<open>What libevent answers: whether \<^verbatim>\<open>event_config_new\<close> succeeds, the event base, \<^verbatim>\<open>event_reinit\<close>, and what the pipe watcher needs.\<close>

record loop_host =
  le_config :: bool
  le_base :: "nat option"
  le_reinit :: bool
  le_watch :: watch_env

datatype loop_exn = BadAllocation | WatcherFailed | ReinitFailed

text \<open>\<^verbatim>\<open>watcher_.reset\<close>: the old watcher is destroyed.\<close>

definition reset_watcher :: "EventWatcher option \<Rightarrow> loop_object \<Rightarrow> loop_object" where
  "reset_watcher w ob =
     ob\<lparr>ll_watcher := w, ll_closed := ll_closed ob @ (case ll_watcher ob of None \<Rightarrow> [] | Some v \<Rightarrow> ew_closed (Watcher_delete v))\<rparr>"

definition InitNotifyPipeWatcher :: "loop_host \<Rightarrow> loop_object \<Rightarrow> (bool \<times> loop_object) result" where
  "InitNotifyPipeWatcher env ob =
     ebind (EventWatcher_new PipeWatcher) (\<lambda>w.
     ebind (Watcher_Init (le_watch env) w) (\<lambda>(ok, w1). Inr (ok, reset_watcher (Some w1) ob)))"

text \<open>\<open>Some e\<close>: the exception \<open>e\<close> is thrown.\<close>

definition Loop_Init :: "loop_host \<Rightarrow> loop_object \<Rightarrow> (loop_exn option \<times> loop_object) result" where
  "Loop_Init env ob =
     (if ll_status ob \<noteq> kNull then Inr (None, ob)
      else
        ebind (InitNotifyPipeWatcher env (ob\<lparr>ll_status := kInitializing, ll_queue := True\<rparr>)) (\<lambda>(ok, o1).
          Inr (if ok then (None, o1\<lparr>ll_status := kInitialized\<rparr>) else (Some WatcherFailed, o1))))"

definition Loop_Free :: "loop_object \<Rightarrow> loop_object" where
  "Loop_Free ob =
     (let o1 = reset_watcher None ob;
          o2 = (case ll_base o1 of
                  Some b \<Rightarrow> if ll_destroy o1 then o1\<lparr>ll_freed := ll_freed o1 @ [b], ll_base := None\<rparr> else o1
                | None \<Rightarrow> o1)
      in o2\<lparr>ll_queue := False\<rparr>)"

definition blank_loop :: "nat option \<Rightarrow> bool \<Rightarrow> loop_object" where
  "blank_loop base destroy =
     \<lparr>ll_base = base, ll_destroy = destroy, ll_watcher = None, ll_queue = False, ll_status = kNull, ll_freed = [], ll_closed = []\<rparr>"

text \<open>The two constructors. The event base is not tested on the way with a configuration. When a constructor throws, the members that were made are destroyed, but not what a
  raw pointer points to, and the destructor does not run.\<close>

definition EventLoop_new :: "bool \<Rightarrow> loop_host \<Rightarrow> (loop_exn option \<times> loop_object) result" where
  "EventLoop_new preciser_timer env =
     (let ob = blank_loop (le_base env) True in
      if preciser_timer \<and> \<not> le_config env then Inr (Some BadAllocation, blank_loop None True)
      else if \<not> preciser_timer \<and> le_base env = None then Inr (Some BadAllocation, ob)
      else ebind (Loop_Init env ob) (\<lambda>(e, o1). Inr (case e of None \<Rightarrow> (None, o1) | Some x \<Rightarrow> (Some x, Loop_Free o1))))"

definition EventLoop_embed :: "nat \<Rightarrow> loop_host \<Rightarrow> (loop_exn option \<times> loop_object) result" where
  "EventLoop_embed base env =
     ebind (Loop_Init env (blank_loop (Some base) False)) (\<lambda>(e, o1).
     case e of
       Some x \<Rightarrow> Inr (Some x, reset_watcher None o1)
     | None \<Rightarrow>
         (case ll_watcher o1 of
            None \<Rightarrow> Inl NullPointer
          | Some w \<Rightarrow>
              ebind (AsyncWait (le_watch env) w) (\<lambda>(ok, w1).
              let o2 = o1\<lparr>ll_watcher := Some w1\<rparr> in
              Inr (if ok then (None, o2\<lparr>ll_status := kRunning\<rparr>) else (Some WatcherFailed, reset_watcher None o2)))))"

definition EventLoop_delete :: "loop_object \<Rightarrow> loop_object" where
  "EventLoop_delete ob = Loop_Free ob"

text \<open>After a fork the watcher is replaced; the result of its initialisation is ignored.\<close>

definition EventLoop_AfterFork :: "loop_host \<Rightarrow> loop_object \<Rightarrow> (loop_exn option \<times> loop_object) result" where
  "EventLoop_AfterFork env ob =
     (if \<not> le_reinit env then Inr (Some ReinitFailed, ob) else ebind (InitNotifyPipeWatcher env ob) (\<lambda>(_, o1). Inr (None, o1)))"

text \<open>\<^verbatim>\<open>RunAfter\<close> and \<^verbatim>\<open>RunEvery\<close>; \<open>now\<close>: the caller is in the thread of the running loop.\<close>

definition RunAfter :: "watch_env \<Rightarrow> bool \<Rightarrow> Duration \<Rightarrow> InvokeTimer result" where
  "RunAfter env now delay = InvokeTimer_Start env now (InvokeTimer_Create delay False False)"

definition RunEvery :: "watch_env \<Rightarrow> bool \<Rightarrow> Duration \<Rightarrow> InvokeTimer result" where
  "RunEvery env now interval = InvokeTimer_Start env now (InvokeTimer_Create interval True False)"

section \<open>Nothing leaks\<close>

text \<open>The socket pair, if any, has positive descriptors.\<close>

definition pipe_given :: "loop_host \<Rightarrow> int list" where
  "pipe_given env = (case we_socketpair (le_watch env) of None \<Rightarrow> [] | Some (a, b) \<Rightarrow> [a, b])"

definition good_pipe :: "loop_host \<Rightarrow> bool" where
  "good_pipe env \<longleftrightarrow> (case we_socketpair (le_watch env) of None \<Rightarrow> True | Some (a, b) \<Rightarrow> a > 0)"

text \<open>A pipe watcher that has its descriptors, or has closed them.\<close>

definition pipe_watcher :: "int list \<Rightarrow> EventWatcher \<Rightarrow> bool" where
  "pipe_watcher fds w \<longleftrightarrow> ew_kind w = PipeWatcher \<and> ew_event w \<noteq> None \<and> ew_closed (Watcher_delete w) = fds"

lemma fresh_pipe_watcher:
  assumes "good_pipe env"
  shows "yields (ebind (EventWatcher_new PipeWatcher) (Watcher_Init (le_watch env))) (\<lambda>(ok, w). pipe_watcher (pipe_given env) w \<and> \<not> ew_attached w)"
  using assms
  by (auto simp: EventWatcher_new_def asserting_def Watcher_Init_def watcher_ops Pipe_DoInit_def DoClose_def Watcher_delete_def
      FreeEvent_def pipe_watcher_def pipe_given_def good_pipe_def Let_def split: option.splits)

lemma new_pipe_watcher:
  assumes "good_pipe env"
  shows "\<exists>ok w. InitNotifyPipeWatcher env ob = Inr (ok, reset_watcher (Some w) ob) \<and> pipe_watcher (pipe_given env) w \<and> \<not> ew_attached w"
proof -
  from fresh_pipe_watcher [OF assms] obtain ok w where w: "ebind (EventWatcher_new PipeWatcher) (Watcher_Init (le_watch env)) = Inr (ok, w)"
    "pipe_watcher (pipe_given env) w" "\<not> ew_attached w" by (rule yieldsE) (auto simp: split_def)
  have "InitNotifyPipeWatcher env ob = ebind (ebind (EventWatcher_new PipeWatcher) (Watcher_Init (le_watch env))) (\<lambda>(ok, w1). Inr (ok, reset_watcher (Some w1) ob))"
    by (simp add: InitNotifyPipeWatcher_def ebind_def split: sum.splits)
  then show ?thesis using w by (intro exI [of _ ok] exI [of _ w]) simp
qed

lemma pipe_watcher_event: "pipe_watcher fds w \<Longrightarrow> pipe_watcher fds (w\<lparr>ew_event := Some x, ew_attached := y\<rparr>)"
  by (auto simp: pipe_watcher_def Watcher_delete_def DoClose_def FreeEvent_def split: if_splits)

lemma AsyncWait_pipe:
  assumes "pipe_watcher fds w"
  shows "\<exists>ok w1. AsyncWait env w = Inr (ok, w1) \<and> pipe_watcher fds w1"
proof -
  have "ew_kind w = PipeWatcher" "ew_event w \<noteq> None" using assms by (simp_all add: pipe_watcher_def)
  then have "yields (AsyncWait env w) (\<lambda>(ok, w1). pipe_watcher fds w1)"
    using assms pipe_watcher_event [OF assms] by (auto simp: watcher_ops Watch_def Let_def asserting_def)
  then show ?thesis by (auto elim!: yieldsE)
qed

lemma Loop_Init_cases:
  assumes "good_pipe env"
  shows "\<exists>e w. Loop_Init env (blank_loop b d) = Inr (e, \<lparr>ll_base = b, ll_destroy = d, ll_watcher = Some w, ll_queue = True,
     ll_status = if e = None then kInitialized else kInitializing, ll_freed = [], ll_closed = []\<rparr>) \<and> pipe_watcher (pipe_given env) w \<and>
     e \<noteq> Some BadAllocation"
proof -
  obtain ok w where w: "InitNotifyPipeWatcher env ((blank_loop b d)\<lparr>ll_status := kInitializing, ll_queue := True\<rparr>) =
      Inr (ok, reset_watcher (Some w) ((blank_loop b d)\<lparr>ll_status := kInitializing, ll_queue := True\<rparr>))" "pipe_watcher (pipe_given env) w"
    using new_pipe_watcher [OF assms] by blast
  show ?thesis
  proof (cases ok)
    case True
    then show ?thesis using w by (intro exI [of _ None] exI [of _ w]) (simp add: Loop_Init_def blank_loop_def reset_watcher_def)
  next
    case False
    then show ?thesis using w by (intro exI [of _ "Some WatcherFailed"] exI [of _ w]) (simp add: Loop_Init_def blank_loop_def reset_watcher_def)
  qed
qed

text \<open>A loop that makes its own event base: when the constructor throws, everything it had acquired has been given back, and otherwise the destructor gives it back; the
  event base is freed once and each descriptor of the pipe is closed once.\<close>

theorem EventLoop_new_releases:
  assumes "good_pipe env"
  shows "\<exists>e ob. EventLoop_new preciser_timer env = Inr (e, ob) \<and>
    (let z = (if e = None then EventLoop_delete ob else ob) in
     ll_watcher z = None \<and> \<not> ll_queue z \<and> ll_base z = None \<and>
     (e \<noteq> Some BadAllocation \<longrightarrow> ll_freed z = (case le_base env of None \<Rightarrow> [] | Some b \<Rightarrow> [b]) \<and> ll_closed z = pipe_given env) \<and>
     (e = None \<longrightarrow> ll_status ob = kInitialized))"
proof -
  obtain e w where i: "Loop_Init env (blank_loop (le_base env) True) = Inr (e, \<lparr>ll_base = le_base env, ll_destroy = True, ll_watcher = Some w, ll_queue = True,
     ll_status = if e = None then kInitialized else kInitializing, ll_freed = [], ll_closed = []\<rparr>)" "pipe_watcher (pipe_given env) w"
    using Loop_Init_cases [OF assms] by blast
  show ?thesis
    using i by (cases "le_base env"; cases e)
      (auto simp: EventLoop_new_def Let_def EventLoop_delete_def Loop_Free_def reset_watcher_def pipe_watcher_def blank_loop_def)
qed

text \<open>A loop embedded into the event base of another program: the base is never freed, but when the pipe cannot be watched, the constructor throws
  without giving back the queue of functors.\<close>

theorem EventLoop_embed_leaks:
  assumes "good_pipe env"
  shows "\<exists>e ob. EventLoop_embed base env = Inr (e, ob) \<and> ll_base ob = Some base \<and> ll_freed ob = [] \<and> ll_queue ob \<and>
    (if e = None then ll_status ob = kRunning \<and> ll_closed (EventLoop_delete ob) = pipe_given env \<and> ll_freed (EventLoop_delete ob) = []
     else ll_watcher ob = None \<and> ll_closed ob = pipe_given env)"
proof -
  obtain e w where i: "Loop_Init env (blank_loop (Some base) False) = Inr (e, \<lparr>ll_base = Some base, ll_destroy = False, ll_watcher = Some w, ll_queue = True,
     ll_status = if e = None then kInitialized else kInitializing, ll_freed = [], ll_closed = []\<rparr>)" "pipe_watcher (pipe_given env) w"
    using Loop_Init_cases [OF assms] by blast
  obtain ok w1 where a: "AsyncWait (le_watch env) w = Inr (ok, w1)" "pipe_watcher (pipe_given env) w1" using AsyncWait_pipe [OF i(2)] by blast
  show ?thesis
    using i a by (cases e; cases ok)
      (auto simp: EventLoop_embed_def EventLoop_delete_def Loop_Free_def reset_watcher_def pipe_watcher_def Let_def)
qed

text \<open>With the precise timer a null event base is accepted.\<close>

lemma precise_null_base:
  assumes "le_config env" "le_base env = None" "good_pipe env"
  shows "\<exists>e ob. EventLoop_new True env = Inr (e, ob) \<and> e \<noteq> Some BadAllocation \<and> ll_base ob = None"
proof -
  obtain e w where i: "Loop_Init env (blank_loop None True) = Inr (e, \<lparr>ll_base = None, ll_destroy = True, ll_watcher = Some w, ll_queue = True,
     ll_status = if e = None then kInitialized else kInitializing, ll_freed = [], ll_closed = []\<rparr>)" "e \<noteq> Some BadAllocation"
    using Loop_Init_cases [OF assms(3)] by blast
  show ?thesis using i assms(1,2) by (cases e) (simp_all add: EventLoop_new_def Let_def Loop_Free_def reset_watcher_def)
qed

text \<open>A fork replaces the pipe and closes the old one; the new watcher is not watched, even if the old one was.\<close>

lemma AfterFork_replaces:
  assumes "good_pipe env" "le_reinit env" "ll_watcher ob = Some w" "pipe_watcher fds w"
  shows "\<exists>w'. EventLoop_AfterFork env ob = Inr (None, ob\<lparr>ll_watcher := Some w', ll_closed := ll_closed ob @ fds\<rparr>) \<and> pipe_watcher (pipe_given env) w' \<and>
    \<not> ew_attached w'"
proof -
  obtain ok w' where w': "InitNotifyPipeWatcher env ob = Inr (ok, reset_watcher (Some w') ob)" "pipe_watcher (pipe_given env) w'" "\<not> ew_attached w'"
    using new_pipe_watcher [OF assms(1)] by blast
  then show ?thesis using assms(2-4) by (intro exI [of _ w']) (simp add: EventLoop_AfterFork_def reset_watcher_def pipe_watcher_def)
qed

text \<open>The hypotheses can hold: a system on which everything works.\<close>

definition demo_host :: loop_host where
  "demo_host = \<lparr>le_config = True, le_base = Some 1, le_reinit = True,
     le_watch = \<lparr>we_socketpair = Some (5, 6), we_nonblocking = (\<lambda>_. True), we_assign = True, we_add = (\<lambda>_. True)\<rparr>\<rparr>"

theorem EventLoop_new_releases_witness:
  "good_pipe demo_host \<and> (\<exists>e ob. EventLoop_new True demo_host = Inr (e, ob) \<and>
    (let z = (if e = None then EventLoop_delete ob else ob) in
     ll_watcher z = None \<and> \<not> ll_queue z \<and> ll_base z = None \<and>
     (e \<noteq> Some BadAllocation \<longrightarrow> ll_freed z = (case le_base demo_host of None \<Rightarrow> [] | Some b \<Rightarrow> [b]) \<and> ll_closed z = pipe_given demo_host) \<and>
     (e = None \<longrightarrow> ll_status ob = kInitialized)))"
proof -
  have g: "good_pipe demo_host" by (simp add: good_pipe_def demo_host_def)
  from g EventLoop_new_releases [OF g] show ?thesis by blast
qed

end
