(* ===== verification/Spec2Isabelle.thy ===== *)
theory Spec2Isabelle
  imports Prelude Buffer Buffer_Props Http_Tables Http_Exec Http_Exec_Inv Http_Fast Http_User Http_Url
    Http_Request Http_Parser_Props Http_Url_Props Http_Request_Props Http_Header_Props Http_Chunk_Props
    Fd_Channel Tcp_Conn Tcp_Conn_Inv Tcp_Conn_Props Step_System Server_Status Event_Loop Event_Loop_Props
    Time_Slice Sockets Event_Watcher Loop_Pool Loop_Pool_Props Tcp_Server Tcp_Server_Inv Tcp_Server_Props
    Http_Response Http_Response_Props Http_Reply_Parse Http_Progress Http_Service Http_Service_Props
    Dns_Resolver Tcp_Client Tcp_Client_Inv Tcp_Client_Props Url_Parser Http_Client Http_Client_Props
    Udp_Server Udp_Server_Props Udp_Client Http_Context Evhttp_Service Evhttp_Server Evhttp_Server_Inv Evhttp_Server_Steps
    Evhttp_Server_Stop Evhttp_Server_Props Evhttp_Server_Serve Evhttp_Server_Cases Loop_Life
begin

text \<open>
  \<^bold>\<open>A verification development for eventpp\<close>, a C++ library of event loops, TCP, UDP and HTTP on top of
  libevent.

  \<^bold>\<open>The parts of the program and how they interact.\<close> An \<^verbatim>\<open>EventLoop\<close> dispatches libevent's events in one
  thread and runs functors that other threads queue; it is woken through a pipe watched by an
  \<^verbatim>\<open>EventWatcher\<close>. \<^verbatim>\<open>EventLoopThreadPool\<close> runs several loops in threads of their own. An \<^verbatim>\<open>FdChannel\<close>
  registers a descriptor with a loop. A \<^verbatim>\<open>Listener\<close> accepts descriptors through a channel and hands them to a
  \<^verbatim>\<open>TCPServer\<close>, which makes a \<^verbatim>\<open>TCPConn\<close> of each and gives it to a loop of the pool; the connection moves
  bytes between its channel and two \<^verbatim>\<open>Buffer\<close>s and calls the application back. A \<^verbatim>\<open>TCPClient\<close> makes such a connection through a
  \<^verbatim>\<open>Connector\<close>, which resolves the host with a \<^verbatim>\<open>DNSResolver\<close> and tries again when it fails. The evpphttp service reads requests
  from such buffers with \<^verbatim>\<open>HttpRequest\<close>, whose callbacks are called by the byte-driven \<^verbatim>\<open>http_parser\<close>. The HTTP client sends \<^verbatim>\<open>Request\<close>s over evhttp connections that a
  \<^verbatim>\<open>ConnPool\<close> keeps per loop. The HTTP server of http/ listens through evhttp in a thread per port, and has its requests worked on by the loops
  of a pool, which send the responses back to the listening thread.

  \<^bold>\<open>Theories and sources\<close> (paths under src/):

  \<^item> \<open>Prelude\<close>: machine integers (\<^verbatim>\<open>size_t\<close> is a 64-bit word), the outcomes of C++ code besides returning (a
    failed assertion, a thrown exception, undefined behaviour) as the left summand of a sum type, and the lemmas that
    evaluate this error monad. \<open>Step_System\<close>: locales for step relations with an invariant, with a measure, and for
    processes that take turns.
  \<^item> \<open>Buffer\<close> (include/eventpp/buffer.hpp, src/buffer.cpp): the record of the byte array and its two indices, one
    definition per method. \<open>Buffer_Props\<close>: the representation invariant, each operation as a list operation on the unread
    bytes, the locale \<open>byte_queue\<close> with its interpretation, the round trip of integers, \<^verbatim>\<open>readv\<close> over two vectors.
  \<^item> \<open>Http_Tables\<close>, \<open>Http_Exec\<close>, \<open>Http_Url\<close> (evpphttp/http_parser.hpp and .cpp): the tables, the state machine with one
    definition per group of case labels, the macros as functions on the machine's local variables, and the URL
    parser. \<open>Http_Exec_Inv\<close>: the contract of the user's callbacks (\<open>parser_callbacks\<close>) and the invariant of the machine.
    \<open>Http_Fast\<close>: the unrolled scanning equals a byte-at-a-time machine. \<open>Http_User\<close>: the user's data changes only
    through callbacks. \<open>Http_Parser_Props\<close>, \<open>Http_Chunk_Props\<close>, \<open>Http_Url_Props\<close>: safety, numbers, chunk sizes, URL components.
  \<^item> \<open>Http_Request\<close> (evpphttp/http_request.hpp and .cpp): the request and its callbacks, interpreted as
    \<open>parser_callbacks\<close>. \<open>Http_Request_Props\<close>, \<open>Http_Header_Props\<close>: what a call of \<^verbatim>\<open>Parse\<close> does, bodies and header lines.
  \<^item> \<open>Fd_Channel\<close> (fd_channel.hpp, fd_channel.cpp): the channel and the registration it stands for.
  \<^item> \<open>Tcp_Conn\<close> (tcp/tcp_conn.hpp and .cpp): the connection's record, its handlers and methods, the delayed
    functors as a list of tasks, and the events that drive it. \<open>Tcp_Conn_Inv\<close>: the invariant, and the contracts of
    the application's callbacks while the connection closes (\<open>closing_user\<close>) and while it is up (\<open>live_user\<close>).
    \<open>Tcp_Conn_Props\<close>: the stream of bytes, callbacks, draining, and uses that bring the process down.
  \<^item> \<open>Server_Status\<close> (server_status.hpp, thread_dispatch_policy.hpp): the status, with the order of its values as a \<open>linorder\<close>.
  \<^item> \<open>Event_Loop\<close> (event_loop.hpp, event_loop.cpp): \<^verbatim>\<open>Run\<close>, \<^verbatim>\<open>Stop\<close>, \<^verbatim>\<open>RunInLoop\<close>, \<^verbatim>\<open>QueueInLoop\<close> and the pending functors, as
    a step relation on stacks of program points, one stack per thread. \<open>Event_Loop_Props\<close>: no lost wake-up, order,
    progress, termination, and two races. \<open>Loop_Life\<close>: construction and destruction of a loop and what they acquire and release, and
    \<^verbatim>\<open>AfterFork\<close>.
  \<^item> \<open>Time_Slice\<close> (duration, timestamp and slice headers), \<open>Sockets\<close> (sockets.hpp, sockets.cpp, utility.hpp): value classes,
    addresses, strings. \<open>Event_Watcher\<close> (event_watcher.*, invoke_timer.*): the watchers and timers.
  \<^item> \<open>Loop_Pool\<close> (event_loop_thread.*, event_loop_thread_pool.*): starting, stopping and joining a pool as a step relation of its
    owner and its workers. \<open>Loop_Pool_Props\<close>: its life cycle, a bound on its runs, the choice of loops.
  \<^item> \<open>Tcp_Server\<close> (listener.*, tcp/tcp_server.*): the listener and the server over any kind of connection, given as a record of
    operations. \<open>Tcp_Server_Inv\<close>: the contract of connections (\<open>conn_provider\<close>) and the server's invariant under it.
    \<open>Tcp_Server_Props\<close>: \<open>Tcp_Conn\<close>'s connections keep the contract; running, shutting down, and failures.
  \<^item> \<open>Dns_Resolver\<close> (dns_resolver.*): a query of evdns under a timer. \<open>Tcp_Client\<close> (tcp/connector.*, tcp/tcp_client.*): connectors in
    a store with their references counted, and the client that owns one. \<open>Tcp_Client_Inv\<close>: the phases of a client and that
    every event keeps them. \<open>Tcp_Client_Props\<close>: runs, becoming connected, and failures.
  \<^item> \<open>Http_Response\<close> (evpphttp/http_response.hpp and .cpp): status line, header lines and body, sent through a connection.
    \<open>Http_Response_Props\<close>: the bytes of a reply, and a peer that has gone. \<open>Http_Reply_Parse\<close>: the parser reads a chunked
    body back. \<open>Http_Progress\<close>: a complete request takes bytes out of the buffer.
  \<^item> \<open>Http_Service\<close> (evpphttp/service.hpp and .cpp): the message callback that parses requests and hands them to the callbacks of
    their paths, and the service around a server. \<open>Http_Service_Props\<close>: who answers a request, that the loop over
    requests ends, and two failures.
  \<^item> \<open>Url_Parser\<close>, \<open>Http_Client\<close> (httpc/): URLs, the client's connections and their pool, and requests with their retries on top of
    evhttp. \<open>Http_Client_Props\<close>: connections are not shared, the handler is called once with the reply that counts, and a pool
    that is cleared too early.
  \<^item> \<open>Udp_Server\<close> (udp/udp_message.hpp, udp/udp_server.*): messages, and the server as an owner and receiving threads that take turns.
    \<open>Udp_Server_Props\<close>: listening, the life of a server as a \<open>fair_system\<close>, delivery, and failures of \<^verbatim>\<open>Pause\<close> and \<^verbatim>\<open>Stop(false)\<close>.
    \<open>Udp_Client\<close> (udp/sync_udp_client.*): the blocking client.
  \<^item> \<open>Http_Context\<close> (http/context.*): requests of the evhttp based server and their query parameters, compared with a reference that splits
    the query. \<open>Evhttp_Service\<close> (http/service.*): listening, routing and replies. \<open>Evhttp_Server\<close> (http/http_server.*): the owner, the listening threads
    and the workers as processes that take turns. \<open>Evhttp_Server_Inv\<close>, \<open>Evhttp_Server_Steps\<close>, \<open>Evhttp_Server_Stop\<close>: the invariant, which
    accounts for every request, and that each turn keeps it. \<open>Evhttp_Server_Props\<close>: requests are neither lost nor answered twice, and \<^verbatim>\<open>Stop\<close> ends
    (\<open>fair_system\<close>). \<open>Evhttp_Server_Serve\<close>: requests are answered, and \<^verbatim>\<open>Start\<close>. \<open>Evhttp_Server_Cases\<close>: a server without ports, and responding
    twice.

  \<^bold>\<open>Bounds and termination.\<close> The parser's loop and the other loops are total functions. Callbacks of the application may call
  methods of the connection, which may call callbacks: the model follows them two levels deep and reports an error beyond, and
  the theorems show that this error does not occur. The kernel's answers are a list given in advance; when it ends,
  sends would block. The loop over the requests in a buffer is given one turn more than the buffer has bytes; its result would be
  \<^term>\<open>None\<close> if these were used up, and \<open>message_loop_ends\<close> shows that it always returns before. Events are processed in any order and number as long as the bytes they bring, \<open>fits\<close> and
  \<open>server_admissible\<close>, stay below half the address space, so that buffers do not overflow. Runs of the
  event loop and of the pool are bounded by measures computed from their programs; a poll of a status that
  has not changed is not a step.

  \<^bold>\<open>Assumptions.\<close> Memory is sequentially consistent, and each access to a shared variable is one step. Linux on x86-64;
  \<^verbatim>\<open>assert\<close> is active; the queue of functors is the vector under a mutex. What libevent, the kernel and the
  application do are arguments of the definitions; what is required of them, \<open>libevent_ok\<close>, \<open>can_listen\<close>,
  \<open>civil\<close>, \<open>well_behaved\<close>, is a named hypothesis. In \<open>Tcp_Server\<close> each handler is one step, the two reads of the status in \<^verbatim>\<open>HandleNewConn\<close> included, and the pool's
  threads have been started, as \<open>Loop_Pool_Props\<close> shows. A pool given to the UDP server has a base loop. URIs of the evhttp based server hold
  no NUL character. Where a theorem holds only for part of the uses of a component (\<^verbatim>\<open>Stop\<close> in the listening loop's
  thread of a server with workers, a loop that is never stopped, a client that is not disconnected while it waits), its text says so, and most
  of the other uses are among the failures that are shown.

  \<^bold>\<open>Not modelled.\<close> The SSL builds, which only call OpenSSL (ssl/, the conditional parts of http/ and httpc/), debug bookkeeping around libevent
  (inner_pre.*), the platform headers of sys/, log output, the \<^verbatim>\<open>AfterFork\<close> of pools and servers, which call that of their loops, reading the clock, and setters that store a value nobody reads: there is no logic
  of the program's own in them.
\<close>

end
